(* ===== verification/SOS_Prelude.thy ===== *)
theory SOS_Prelude
  imports Main "HOL-Library.Word" "HOL-Library.Monad_Syntax"
begin

text \<open>
  The vocabulary shared by every component theory of the SOS development.

  \<^item> Machine types: an \<open>unsigned long\<close>, a \<open>seL4_Word\<close> or an address is a 64-bit word where
    its wrap-around or its bits matter; counts, array indices and capability
    pointers are natural numbers.
  \<^item> Failing C code: an operation returns \<open>'a option\<close>. \<open>None\<close> means that the C program has left
    its defined behaviour: an \<open>assert\<close> failed, a pointer that does not point at
    an object was dereferenced, an array was indexed out of its bounds, or the
    code does not return. Error codes that the C code returns are ordinary
    values of the result.
  \<^item> Sequencing: state is passed explicitly and steps are chained with the option monad of
    \<open>HOL-Library.Monad_Syntax\<close>.
\<close>

unbundle bit_operations_syntax

type_synonym u16 = "16 word"
type_synonym u32 = "32 word"
type_synonym u64 = "64 word"

text \<open>A capability pointer (\<open>seL4_CPtr\<close>) is the index of a slot; slot 0 is \<open>seL4_CapNull\<close>.\<close>

type_synonym cptr = nat

text \<open>The collections of rewrite rules that component proofs use.\<close>

named_theorems c_defs \<open>definitions of the C primitives\<close>
named_theorems word_bits \<open>bit-level facts on machine words\<close>

section \<open>C primitives\<close>

text \<open>\<open>assert(P)\<close>.\<close>

definition c_assert :: "bool \<Rightarrow> unit option" where
  [c_defs]: "c_assert P = (if P then Some () else None)"

text \<open>Reading and writing an element of an array; out of bounds is undefined behaviour.\<close>

definition arr_get :: "'a list \<Rightarrow> nat \<Rightarrow> 'a option" where
  [c_defs]: "arr_get xs i = (if i < length xs then Some (xs ! i) else None)"

definition arr_set :: "'a list \<Rightarrow> nat \<Rightarrow> 'a \<Rightarrow> 'a list option" where
  [c_defs]: "arr_set xs i v = (if i < length xs then Some (xs[i := v]) else None)"

text \<open>A counted loop whose body does not leave it early.\<close>

primrec for_each :: "('a \<Rightarrow> 's \<Rightarrow> 's option) \<Rightarrow> 'a list \<Rightarrow> 's \<Rightarrow> 's option" where
  "for_each f [] s = Some s"
| "for_each f (x # xs) s = do { s \<leftarrow> f x s; for_each f xs s }"

text \<open>
  The arithmetic macros of \<open>utils/arith.h\<close> and \<open>utils/page.h\<close> that SOS uses:
  \<open>BIT(n)\<close>, \<open>MASK(n)\<close>, \<open>ROUND_UP\<close>, \<open>ROUND_DOWN\<close> and
  \<open>BYTES_TO_4K_PAGES\<close>. A remainder by zero is undefined in C, so \<open>ROUND_UP\<close> and
  \<open>ROUND_DOWN\<close> return an option.
\<close>

definition BIT :: "nat \<Rightarrow> u64" where
  "BIT n = push_bit n 1"

definition MASK :: "nat \<Rightarrow> u64 option" where
  "MASK n = do {
     c_assert (n \<le> 64);
     c_assert (n > 0);
     Some ((BIT (n - 1) - 1) OR BIT (n - 1))
   }"

definition ROUND_DOWN :: "u64 \<Rightarrow> u64 \<Rightarrow> u64 option" where
  "ROUND_DOWN n b = (if b = 0 then None else Some (n - n mod b))"

definition ROUND_UP :: "u64 \<Rightarrow> u64 \<Rightarrow> u64 option" where
  "ROUND_UP n b =
     (if b = 0 then None
      else Some (n + (if n mod b = 0 then 0 else b - n mod b)))"

definition DIV_ROUND_UP :: "nat \<Rightarrow> nat \<Rightarrow> nat" where
  "DIV_ROUND_UP n d = n div d + (if n mod d = 0 then 0 else 1)"

definition PAGE_SIZE_4K :: nat where
  "PAGE_SIZE_4K = 4096"

definition BYTES_TO_4K_PAGES :: "nat \<Rightarrow> nat" where
  "BYTES_TO_4K_PAGES b = b div PAGE_SIZE_4K + (if b mod PAGE_SIZE_4K > 0 then 1 else 0)"

text \<open>\<open>CTZL(x)\<close>, the number of trailing zero bits: undefined for 0.\<close>

definition CTZL :: "u64 \<Rightarrow> nat option" where
  "CTZL v = find (bit v) [0..<64]"

text \<open>\<open>a + b\<close> in a signed type of \<open>n\<close> bits; an overflow is undefined.\<close>

definition sadd :: "nat \<Rightarrow> int \<Rightarrow> int \<Rightarrow> int option" where
  "sadd n a b = (if - (2 ^ (n - 1)) \<le> a + b \<and> a + b < 2 ^ (n - 1) then Some (a + b) else None)"

section \<open>Facts about the primitives\<close>

lemma c_assert_Some [simp]: "c_assert P = Some u \<longleftrightarrow> P"
  by (simp add: c_assert_def)

lemma c_assert_True [simp]: "P \<Longrightarrow> c_assert P = Some ()"
  by (simp add: c_assert_def)

lemma c_assert_False [simp]: "\<not> P \<Longrightarrow> c_assert P = None"
  by (simp add: c_assert_def)

lemma c_assert_bind [simp]: "(c_assert P \<bind> (\<lambda>_. f)) = (if P then f else None)"
  by (simp add: c_assert_def)

lemma bind_SomeE:
  assumes "m \<bind> f = Some y"
  obtains x where "m = Some x" and "f x = Some y"
  using assms by (auto simp: bind_eq_Some_conv)

lemma arr_get_Some [simp]: "arr_get xs i = Some x \<longleftrightarrow> i < length xs \<and> xs ! i = x"
  by (auto simp: arr_get_def)

lemma arr_get_in [simp]: "i < length xs \<Longrightarrow> arr_get xs i = Some (xs ! i)"
  by (simp add: arr_get_def)

lemma arr_get_out [simp]: "length xs \<le> i \<Longrightarrow> arr_get xs i = None"
  by (simp add: arr_get_def)

lemma arr_set_Some [simp]: "arr_set xs i v = Some ys \<longleftrightarrow> i < length xs \<and> ys = xs[i := v]"
  by (auto simp: arr_set_def)

lemma arr_set_in [simp]: "i < length xs \<Longrightarrow> arr_set xs i v = Some (xs[i := v])"
  by (simp add: arr_set_def)

lemma arr_set_out [simp]: "length xs \<le> i \<Longrightarrow> arr_set xs i v = None"
  by (simp add: arr_set_def)

lemma for_each_append:
  "for_each f (xs @ ys) s = do { s \<leftarrow> for_each f xs s; for_each f ys s }"
  by (induction xs arbitrary: s) simp_all

lemma for_each_invariant:
  assumes "for_each f xs s = Some s'" and "P s"
    and "\<And>x s s'. x \<in> set xs \<Longrightarrow> P s \<Longrightarrow> f x s = Some s' \<Longrightarrow> P s'"
  shows "P s'"
  using assms by (induction xs arbitrary: s) (auto elim!: bind_SomeE)

lemma bit_BIT [simp, word_bits]: "bit (BIT n) m \<longleftrightarrow> m = n \<and> n < 64"
  by (auto simp: BIT_def bit_simps)

lemma BIT_neq_0 [simp]: "n < 64 \<Longrightarrow> BIT n \<noteq> 0"
  by (metis bit_0_eq bit_BIT bot_apply bot_bool_def)

lemma and_BIT_eq_0 [simp, word_bits]: "n < 64 \<Longrightarrow> (w AND BIT n = 0) \<longleftrightarrow> \<not> bit w n"
  by (auto simp: bit_eq_iff [where 'a = u64] bit_simps)

lemma word_eq_max_iff [word_bits]: "(w :: u64) = - 1 \<longleftrightarrow> (\<forall>n < 64. bit w n)"
  by (auto simp: bit_eq_iff bit_simps)

lemma word_eq_0_iff [word_bits]: "(w :: u64) = 0 \<longleftrightarrow> (\<forall>n < 64. \<not> bit w n)"
  by (auto simp: bit_eq_iff dest: bit_imp_le_length)

lemma CTZL_Some: "CTZL v = Some n \<longleftrightarrow> n < 64 \<and> bit v n \<and> (\<forall>m < n. \<not> bit v m)"
  by (auto simp: CTZL_def find_Some_iff)

lemma CTZL_None: "CTZL v = None \<longleftrightarrow> v = 0"
  by (auto simp: CTZL_def find_None_iff word_eq_0_iff)

lemma CTZL_neq_0: "v \<noteq> 0 \<Longrightarrow> \<exists>n. CTZL v = Some n"
  using CTZL_None by fastforce

lemma unat_of_nat_u64: "n < 2 ^ 64 \<Longrightarrow> unat (of_nat n :: u64) = n"
  by (simp add: unsigned_of_nat take_bit_nat_eq_self_iff)

lemma unat_u64_less: "unat (w :: u64) < 2 ^ 64"
  using unsigned_less [of w] by simp

text \<open>Evaluation of \<open>CTZL\<close> on concrete words, position by position.\<close>

lemma find_upt: "find P [i..<j] = (if i < j then if P i then Some i else find P [Suc i..<j] else None)"
  by (simp add: upt_rec)

lemma CTZL_eval: "CTZL v = (if bit v 0 then Some 0 else find (bit v) [1..<64])"
  by (simp add: CTZL_def find_upt [of _ 0])

end
