(* ===== verification/Bitfield.thy ===== *)
theory Bitfield
  imports SOS_Prelude
begin

text \<open>
  The bit fields of \<open>libsel4cspace/include/cspace/bitfield.h\<close>: an array of 64-bit
  words, indexed by bit. The capability space allocator keeps one for its top level and
  one for every second level node, and the IRQ dispatcher keeps a field of one word.

  \<open>bf_bit\<close> is the abstract view of a bit field, the set of its positions that are taken.
  \<open>bf_first_free\<close> is shown to return the least free position (and not to return when there is
  none: the code reads one word past the array).
\<close>

section \<open>Operations\<close>

definition WORD_BITS :: nat where
  "WORD_BITS = 64"

definition WORD_INDEX :: "nat \<Rightarrow> nat" where
  "WORD_INDEX b = b div WORD_BITS"

definition BIT_INDEX :: "nat \<Rightarrow> nat" where
  "BIT_INDEX b = b mod WORD_BITS"

definition bf_set_bit :: "u64 list \<Rightarrow> nat \<Rightarrow> u64 list option" where
  "bf_set_bit bits b = do {
     w \<leftarrow> arr_get bits (WORD_INDEX b);
     arr_set bits (WORD_INDEX b) (w OR BIT (BIT_INDEX b))
   }"

definition bf_clr_bit :: "u64 list \<Rightarrow> nat \<Rightarrow> u64 list option" where
  "bf_clr_bit bits b = do {
     w \<leftarrow> arr_get bits (WORD_INDEX b);
     arr_set bits (WORD_INDEX b) (w AND NOT (BIT (BIT_INDEX b)))
   }"

definition bf_get_bit :: "u64 list \<Rightarrow> nat \<Rightarrow> bool option" where
  "bf_get_bit bits b = do {
     w \<leftarrow> arr_get bits (WORD_INDEX b);
     Some (w AND BIT (BIT_INDEX b) \<noteq> 0)
   }"

text \<open>The loop \<open>for (; i < words && bits[i] == ULONG_MAX; i++);\<close>.\<close>

function bf_skip_full :: "nat \<Rightarrow> u64 list \<Rightarrow> nat \<Rightarrow> nat option" where
  "bf_skip_full words bits i =
     (if i < words then
        (case arr_get bits i of
           None \<Rightarrow> None
         | Some w \<Rightarrow> if w = - 1 then bf_skip_full words bits (Suc i) else Some i)
      else Some i)"
  by pat_completeness auto
termination
  by (relation "measure (\<lambda>(words, bits, i). words - i)") auto

text \<open>
  \<open>val = ~bits[i]\<close> is computed before \<open>i < words\<close> is tested, as in the source.
\<close>

definition bf_first_free :: "nat \<Rightarrow> u64 list \<Rightarrow> nat option" where
  "bf_first_free words bits = do {
     i \<leftarrow> bf_skip_full words bits 0;
     w \<leftarrow> arr_get bits i;
     let val = NOT w;
     c_assert (val \<noteq> 0);
     if i < words then do {
       z \<leftarrow> CTZL val;
       Some (i * WORD_BITS + z)
     } else Some (i * WORD_BITS)
   }"

section \<open>The abstract view\<close>

text \<open>Position \<open>n\<close> of the field is taken.\<close>

definition bf_bit :: "u64 list \<Rightarrow> nat \<Rightarrow> bool" where
  "bf_bit bits n \<longleftrightarrow> n div 64 < length bits \<and> bit (bits ! (n div 64)) (n mod 64)"

lemmas bf_index_defs = WORD_INDEX_def BIT_INDEX_def WORD_BITS_def

declare bf_skip_full.simps [simp del]

lemma bf_index_less [simp]: "n div 64 < k \<longleftrightarrow> n < 64 * (k :: nat)"
  by (simp add: less_mult_imp_div_less div_less_iff_less_mult mult.commute)

lemma bf_index_neq: "n \<noteq> m \<Longrightarrow> n div 64 = m div (64 :: nat) \<Longrightarrow> n mod 64 \<noteq> m mod 64"
  by (metis div_mult_mod_eq)

lemma bf_bit_less: "bf_bit bits n \<Longrightarrow> n < 64 * length bits"
  by (simp add: bf_bit_def)

lemma bf_bit_replicate_0 [simp]: "\<not> bf_bit (replicate k 0) n"
  by (simp add: bf_bit_def)

lemma bf_bit_update:
  assumes "n < 64 * length bits"
  shows "bf_bit (bits[n div 64 := w]) m \<longleftrightarrow>
     (if m div 64 = n div 64 then bit w (m mod 64) else bf_bit bits m)"
  using assms bf_index_less [of m "length bits"] bf_index_less [of n "length bits"]
  by (auto simp: bf_bit_def nth_list_update simp del: bf_index_less)

lemma bf_set_bit_eq:
  "n < 64 * length bits \<Longrightarrow>
   bf_set_bit bits n = Some (bits[n div 64 := bits ! (n div 64) OR BIT (n mod 64)])"
  by (simp add: bf_set_bit_def bf_index_defs)

lemma bf_clr_bit_eq:
  "n < 64 * length bits \<Longrightarrow>
   bf_clr_bit bits n = Some (bits[n div 64 := bits ! (n div 64) AND NOT (BIT (n mod 64))])"
  by (simp add: bf_clr_bit_def bf_index_defs)

lemma bf_set_bit_SomeD:
  assumes "bf_set_bit bits n = Some bits'"
  shows "n < 64 * length bits" and "length bits' = length bits"
    and "bf_bit bits' m \<longleftrightarrow> m = n \<or> bf_bit bits m"
proof -
  from assms show n: "n < 64 * length bits" and "length bits' = length bits"
    by (auto simp: bf_set_bit_def bf_index_defs arr_get_def split: if_splits)
  from n assms have b: "bits' = bits[n div 64 := bits ! (n div 64) OR BIT (n mod 64)]"
    by (simp add: bf_set_bit_eq)
  show "bf_bit bits' m \<longleftrightarrow> m = n \<or> bf_bit bits m"
    using n bf_index_neq [of m n]
    by (auto simp: b bf_bit_update bit_simps) (auto simp: bf_bit_def)
qed

lemma bf_clr_bit_SomeD:
  assumes "bf_clr_bit bits n = Some bits'"
  shows "n < 64 * length bits" and "length bits' = length bits"
    and "bf_bit bits' m \<longleftrightarrow> m \<noteq> n \<and> bf_bit bits m"
proof -
  from assms show n: "n < 64 * length bits" and "length bits' = length bits"
    by (auto simp: bf_clr_bit_def bf_index_defs arr_get_def split: if_splits)
  from n assms have b: "bits' = bits[n div 64 := bits ! (n div 64) AND NOT (BIT (n mod 64))]"
    by (simp add: bf_clr_bit_eq)
  show "bf_bit bits' m \<longleftrightarrow> m \<noteq> n \<and> bf_bit bits m"
    using n bf_index_neq [of m n]
    by (auto simp: b bf_bit_update bit_simps) (auto simp: bf_bit_def)
qed

lemma bf_get_bit_eq: "n < 64 * length bits \<Longrightarrow> bf_get_bit bits n = Some (bf_bit bits n)"
  by (simp add: bf_get_bit_def bf_index_defs bf_bit_def)

lemma bf_get_bit_None: "64 * length bits \<le> n \<Longrightarrow> bf_get_bit bits n = None"
  by (simp add: bf_get_bit_def bf_index_defs arr_get_def)

section \<open>The first free position\<close>

lemma bf_skip_full_spec:
  assumes "words \<le> length bits" and "i \<le> words"
  shows "\<exists>j. bf_skip_full words bits i = Some j \<and> i \<le> j \<and> j \<le> words \<and>
           (\<forall>k. i \<le> k \<and> k < j \<longrightarrow> bits ! k = - 1) \<and> (j < words \<longrightarrow> bits ! j \<noteq> - 1)"
  using assms
proof (induction words bits i rule: bf_skip_full.induct)
  case (1 words bits i)
  show ?case
  proof (cases "i < words \<and> bits ! i = - 1")
    case True
    with "1.prems" have get: "arr_get bits i = Some (- 1)" by simp
    from True get "1.prems" "1.IH" [of "- 1"] obtain j where
      "bf_skip_full words bits (Suc i) = Some j" "Suc i \<le> j" "j \<le> words"
      "\<forall>k. Suc i \<le> k \<and> k < j \<longrightarrow> bits ! k = - 1" "j < words \<longrightarrow> bits ! j \<noteq> - 1"
      by auto
    with True get show ?thesis
      by (subst bf_skip_full.simps) (auto simp: Suc_le_eq elim: le_neq_trans dest: le_imp_less_or_eq)
  next
    case False
    with "1.prems" show ?thesis by (subst bf_skip_full.simps) auto
  qed
qed

text \<open>The whole word \<open>k\<close> is taken.\<close>

lemma bf_bit_full_word:
  "n < 64 * length bits \<Longrightarrow> bits ! (n div 64) = - 1 \<Longrightarrow> bf_bit bits n"
  by (simp add: bf_bit_def bit_simps)

lemma bf_first_free_Some:
  assumes len: "length bits = words" and free: "\<exists>n < 64 * words. \<not> bf_bit bits n"
  shows "bf_first_free words bits = Some (LEAST n. \<not> bf_bit bits n)"
proof -
  obtain j where skip: "bf_skip_full words bits 0 = Some j" and "j \<le> words"
    and before: "\<forall>k < j. bits ! k = - 1" and at: "j < words \<longrightarrow> bits ! j \<noteq> - 1"
    using bf_skip_full_spec [of words bits 0] len by auto
  have j: "j < words"
  proof (rule ccontr)
    assume "\<not> j < words"
    with \<open>j \<le> words\<close> before have "\<forall>k < words. bits ! k = - 1" by simp
    with free len show False using bf_index_less bf_bit_full_word by metis
  qed
  with at have "NOT (bits ! j) \<noteq> 0" by (metis bit.compl_one bit.double_compl)
  then obtain z where z: "CTZL (NOT (bits ! j)) = Some z" using CTZL_neq_0 by blast
  then have z64: "z < 64" and zfree: "\<not> bit (bits ! j) z"
    and zleast: "\<forall>m < z. bit (bits ! j) m"
    by (auto simp: CTZL_Some bit_simps)
  have "(LEAST n. \<not> bf_bit bits n) = j * 64 + z"
  proof (rule Least_equality)
    show "\<not> bf_bit bits (j * 64 + z)" using z64 zfree by (simp add: bf_bit_def)
    show "j * 64 + z \<le> n" if n: "\<not> bf_bit bits n" for n
    proof (rule ccontr)
      assume "\<not> j * 64 + z \<le> n"
      then have lt: "n < j * 64 + z" by simp
      have "n = n div 64 * 64 + n mod 64" by simp
      with lt z64 have "n div 64 < j \<or> n div 64 = j \<and> n mod 64 < z" by linarith
      then consider "n div 64 < j" | "n div 64 = j" "n mod 64 < z" by blast
      then show False
      proof cases
        case 1
        then have "bits ! (n div 64) = - 1" using before by blast
        moreover have "n < 64 * length bits" using 1 j len by simp
        ultimately show ?thesis using n bf_bit_full_word by blast
      next
        case 2
        with zleast j len n show ?thesis by (auto simp: bf_bit_def)
      qed
    qed
  qed
  with skip z j len \<open>NOT (bits ! j) \<noteq> 0\<close> show ?thesis
    by (simp add: bf_first_free_def WORD_BITS_def)
qed

lemma bf_first_free_full:
  assumes len: "length bits = words" and full: "\<forall>n < 64 * words. bf_bit bits n"
  shows "bf_first_free words bits = None"
proof -
  have "bits ! k = - 1" if "k < words" for k
    unfolding word_eq_max_iff
  proof (intro allI impI)
    fix n :: nat
    assume n: "n < 64"
    from that n have "k * 64 + n < 64 * words" by simp
    with full have "bf_bit bits (k * 64 + n)" by blast
    with n show "bit (bits ! k) n" by (simp add: bf_bit_def)
  qed
  moreover obtain j where "bf_skip_full words bits 0 = Some j" "j \<le> words"
    "j < words \<longrightarrow> bits ! j \<noteq> - 1"
    using bf_skip_full_spec [of words bits 0] len by auto
  ultimately show ?thesis
    using len by (auto simp: bf_first_free_def le_eq_less_or_eq)
qed

lemma bf_first_free_SomeD:
  assumes "bf_first_free words bits = Some n" and "length bits = words"
  shows "n < 64 * words" and "\<not> bf_bit bits n" and "\<And>m. m < n \<Longrightarrow> bf_bit bits m"
proof -
  have free: "\<exists>n < 64 * words. \<not> bf_bit bits n"
    using assms bf_first_free_full by fastforce
  with assms have n: "n = (LEAST n. \<not> bf_bit bits n)"
    by (simp add: bf_first_free_Some)
  from free obtain k where k: "k < 64 * words" "\<not> bf_bit bits k" by blast
  show "\<not> bf_bit bits n" unfolding n using k(2) by (rule LeastI)
  show "n < 64 * words" unfolding n using k Least_le [of "\<lambda>n. \<not> bf_bit bits n" k] by simp
  show "\<And>m. m < n \<Longrightarrow> bf_bit bits m" unfolding n using not_less_Least by blast
qed

end
