(* ===== verification/Sel4_Calls.thy ===== *)
theory Sel4_Calls
  imports SOS_Prelude
begin

text \<open>
  The system calls that SOS makes, as data. Kernel and hardware are not part of SOS: every operation that
  enters the kernel takes a parameter \<open>K\<close> of type \<open>'w kernel\<close>, which maps an invocation and the rest
  of the system to the error code of the call and the changed system. \<open>invocation\<close> has one
  constructor per seL4 object method that the sources call, with the arguments of
  the stub in the order of the C call.
\<close>

section \<open>Constants of the seL4 interface\<close>

definition seL4_NoError :: int where "seL4_NoError = 0"
definition seL4_InvalidArgument :: int where "seL4_InvalidArgument = 1"
definition seL4_InvalidCapability :: int where "seL4_InvalidCapability = 2"
definition seL4_IllegalOperation :: int where "seL4_IllegalOperation = 3"
definition seL4_RangeError :: int where "seL4_RangeError = 4"
definition seL4_AlignmentError :: int where "seL4_AlignmentError = 5"
definition seL4_FailedLookup :: int where "seL4_FailedLookup = 6"
definition seL4_TruncatedMessage :: int where "seL4_TruncatedMessage = 7"
definition seL4_DeleteFirst :: int where "seL4_DeleteFirst = 8"
definition seL4_RevokeFirst :: int where "seL4_RevokeFirst = 9"
definition seL4_NotEnoughMemory :: int where "seL4_NotEnoughMemory = 10"

definition seL4_CapNull :: cptr where "seL4_CapNull = 0"
definition seL4_WordBits :: nat where "seL4_WordBits = 64"
definition seL4_PageBits :: nat where "seL4_PageBits = 12"
definition seL4_SlotBits :: nat where "seL4_SlotBits = 5"
definition seL4_EndpointBits :: nat where "seL4_EndpointBits = 4"

text \<open>
  The object types: the generic ones (\<open>api_object\<close>), those of the 64-bit mode (\<open>_mode_object\<close>) and those of ARM
  (\<open>_object\<close>), in the order of their numbers.
\<close>

datatype object_type =
    seL4_UntypedObject
  | seL4_TCBObject
  | seL4_EndpointObject
  | seL4_NotificationObject
  | seL4_CapTableObject
  | seL4_ARM_HugePageObject
  | seL4_ARM_PageUpperDirectoryObject
  | seL4_ARM_PageGlobalDirectoryObject
  | seL4_ARM_SmallPageObject
  | seL4_ARM_LargePageObject
  | seL4_ARM_PageTableObject
  | seL4_ARM_PageDirectoryObject

text \<open>\<open>seL4_CapRights_new(grant_reply, grant, read, write)\<close>.\<close>

datatype cap_rights =
  CapRights (canGrantReply: bool) (canGrant: bool) (canRead: bool) (canWrite: bool)

definition seL4_AllRights :: cap_rights where
  "seL4_AllRights = CapRights True True True True"

definition seL4_ReadWrite :: cap_rights where
  "seL4_ReadWrite = CapRights False False True True"

definition seL4_CanRead :: cap_rights where
  "seL4_CanRead = CapRights False False True False"

definition seL4_CanWrite :: cap_rights where
  "seL4_CanWrite = CapRights False False False True"

text \<open>\<open>seL4_ARM_VMAttributes\<close> is a bit mask: cacheable 1, parity 2, execute never 4.\<close>

definition seL4_ARM_PageCacheable :: u64 where "seL4_ARM_PageCacheable = 1"
definition seL4_ARM_ParityEnabled :: u64 where "seL4_ARM_ParityEnabled = 2"
definition seL4_ARM_Default_VMAttributes :: u64 where "seL4_ARM_Default_VMAttributes = 3"
definition seL4_ARM_ExecuteNever :: u64 where "seL4_ARM_ExecuteNever = 4"

text \<open>Capabilities the kernel gives to the initial task.\<close>

definition seL4_CapInitThreadTCB :: cptr where "seL4_CapInitThreadTCB = 1"
definition seL4_CapInitThreadCNode :: cptr where "seL4_CapInitThreadCNode = 2"
definition seL4_CapInitThreadVSpace :: cptr where "seL4_CapInitThreadVSpace = 3"
definition seL4_CapIRQControl :: cptr where "seL4_CapIRQControl = 4"
definition seL4_CapInitThreadASIDPool :: cptr where "seL4_CapInitThreadASIDPool = 6"

text \<open>\<open>seL4_CNode_CapData_new(guard, guardSize).words[0]\<close>: a guard of 58 bits above its size, of 6 bits.\<close>

definition seL4_CNode_CapData_new :: "u64 \<Rightarrow> nat \<Rightarrow> u64" where
  "seL4_CNode_CapData_new guard guardSize = push_bit 6 guard OR (of_nat guardSize AND 63)"

section \<open>Invocations\<close>

datatype invocation =
    Untyped_Retype cptr object_type nat cptr nat nat nat nat
  | CNode_Copy cptr cptr nat cptr cptr nat cap_rights
  | CNode_Mint cptr cptr nat cptr cptr nat cap_rights u64
  | CNode_Move cptr cptr nat cptr cptr nat
  | CNode_Mutate cptr cptr nat cptr cptr nat u64
  | CNode_Delete cptr cptr nat
  | CNode_Revoke cptr cptr nat
  | CNode_SaveCaller cptr cptr nat
  | IRQControl_GetTrigger cptr int int cptr cptr nat
  | IRQHandler_SetNotification cptr cptr
  | IRQHandler_Ack cptr
  | ARM_Page_Map cptr cptr u64 cap_rights u64
  | ARM_Page_Unmap cptr
  | ARM_Page_Clean_Data cptr u64 u64
  | ARM_Page_Invalidate_Data cptr u64 u64
  | ARM_Page_Unify_Instruction cptr u64 u64
  | ARM_PageTable_Map cptr cptr u64 u64
  | ARM_PageDirectory_Map cptr cptr u64 u64
  | ARM_PageUpperDirectory_Map cptr cptr u64 u64
  | ARM_PGD_Clean_Data cptr u64 u64
  | ARM_PGD_Invalidate_Data cptr u64 u64
  | ARM_PGD_CleanInvalidate_Data cptr u64 u64
  | ARM_ASIDPool_Assign cptr cptr
  | TCB_BindNotification cptr cptr
  | TCB_Configure cptr cptr cptr u64 cptr u64 u64 cptr
  | TCB_SetPriority cptr cptr nat
  | TCB_SetSpace cptr cptr cptr u64 cptr u64
  | TCB_WriteRegisters cptr bool u64 u64

type_synonym 'w kernel = "invocation \<Rightarrow> 'w \<Rightarrow> int \<times> 'w"

text \<open>The memory allocator of the C library, which the code calls for its small structures.\<close>

record 'w libc =
  lc_calloc :: "nat \<Rightarrow> nat \<Rightarrow> 'w \<Rightarrow> u64 \<times> 'w"
  lc_free :: "u64 \<Rightarrow> 'w \<Rightarrow> 'w"

end
