(* ===== verification/Cspace.thy ===== *)
theory Cspace
  imports Bitfield Sel4_Calls
begin

text \<open>
  The capability space library, \<open>libsel4cspace/src/cspace.c\<close> and \<open>include/cspace/cspace.h\<close>. A
  capability space hands out slots. One with one level is a bit field of taken slots; one with two
  levels has a bit field of full second level cnodes and, in mapped bookkeeping frames, one
  bit field per second level cnode.

  \<^item> A \<open>void *\<close> handle is a 64-bit address with 0 for \<open>NULL\<close>. The bookkeeping frame of a node is the
    value of type \<open>bot_lvl_node\<close> that \<open>bot_lvl_nodes\<close> holds at the node's index, \<open>None\<close> for a null
    pointer. The arrays \<open>top_bf\<close> and \<open>bot_lvl_nodes\<close> are kept as their address and their contents.
  \<^item> The allocation callbacks act on the rest of the system, of type \<open>'w\<close>; \<open>None\<close> for the whole
    structure is the zeroed \<open>cspace_alloc_t\<close> of a one level capability space. The cookie is the capability
    space itself, of which the callbacks read \<open>root_cnode\<close> and \<open>two_level\<close>.
  \<^item> The \<open>bootstrap\<close> pointer is its nullness; the capability space it points at is a further argument of the
    operations that follow it.
\<close>

section \<open>Sizes and indices\<close>

definition MAPPING_SLOTS :: nat where "MAPPING_SLOTS = 3"
definition WATERMARK_SLOTS :: nat where "WATERMARK_SLOTS = MAPPING_SLOTS + 1"
definition CNODE_SIZE_BITS :: nat where "CNODE_SIZE_BITS = 12"

definition CNODE_SLOT_BITS :: "nat \<Rightarrow> nat" where
  "CNODE_SLOT_BITS x = x - seL4_SlotBits"

definition CNODE_SLOTS :: "nat \<Rightarrow> nat" where
  "CNODE_SLOTS x = 2 ^ CNODE_SLOT_BITS x"

definition BITFIELD_SIZE :: "nat \<Rightarrow> nat" where
  "BITFIELD_SIZE x = CNODE_SLOTS x div seL4_WordBits"

text \<open>\<open>sizeof(bot_lvl_t)\<close>: two words of bit field and a pointer.\<close>

definition bot_lvl_size :: nat where
  "bot_lvl_size = BITFIELD_SIZE CNODE_SIZE_BITS * 8 + 8"

definition BOT_LVL_NODES :: "nat \<Rightarrow> nat" where
  "BOT_LVL_NODES x = BYTES_TO_4K_PAGES (bot_lvl_size * CNODE_SLOTS x)"

definition BOT_LVL_PER_NODE :: nat where
  "BOT_LVL_PER_NODE = (PAGE_SIZE_4K - 8 * 3) div bot_lvl_size"

definition NODE_INDEX :: "cptr \<Rightarrow> nat" where
  "NODE_INDEX cptr = cptr div CNODE_SLOTS CNODE_SIZE_BITS div BOT_LVL_PER_NODE"

definition CNODE_INDEX :: "cptr \<Rightarrow> nat" where
  "CNODE_INDEX cptr = cptr div CNODE_SLOTS CNODE_SIZE_BITS mod BOT_LVL_PER_NODE"

definition TOP_LVL_INDEX :: "cptr \<Rightarrow> nat" where
  "TOP_LVL_INDEX cptr = cptr div 2 ^ CNODE_SLOT_BITS CNODE_SIZE_BITS"

definition BOT_LVL_INDEX :: "cptr \<Rightarrow> nat" where
  "BOT_LVL_INDEX cptr = cptr mod 2 ^ CNODE_SLOT_BITS CNODE_SIZE_BITS"

section \<open>State\<close>

record bot_lvl_t =
  bl_bf :: "u64 list"
  bl_untyped :: u64

record bot_lvl_node_t =
  n_cnodes :: nat
  bn_untyped :: u64
  bn_frame :: cptr
  cnodes :: "bot_lvl_t list"

type_synonym cookie = "(cptr \<times> bool) option"

record 'w cspace_alloc_t =
  fn_map_frame :: "cookie \<Rightarrow> cptr \<Rightarrow> cptr list \<Rightarrow> u64 \<Rightarrow> 'w \<Rightarrow> (u64 \<times> u64 \<times> 'w) option"
  fn_alloc_4k_ut :: "cookie \<Rightarrow> 'w \<Rightarrow> (u64 \<times> cptr \<times> 'w) option"
  fn_free_4k_ut :: "cookie \<Rightarrow> u64 \<Rightarrow> 'w \<Rightarrow> 'w option"
  al_cookie :: cookie

record 'w cspace_t =
  root_cnode :: cptr
  two_level :: bool
  top_lvl_size_bits :: nat
  top_bf_ptr :: u64
  top_bf :: "u64 list"
  bot_lvl_nodes_ptr :: u64
  bot_lvl_nodes :: "bot_lvl_node_t option list"
  n_bot_lvl_nodes :: nat
  cs_untyped :: u64
  has_bootstrap :: bool
  alloc :: "'w cspace_alloc_t option"
  watermark :: "cptr list"

definition CSPACE_NOERROR :: int where "CSPACE_NOERROR = 0"
definition CSPACE_ERROR :: int where "CSPACE_ERROR = - 1"

text \<open>A zeroed entry and a zeroed bookkeeping page.\<close>

definition zero_bot_lvl :: bot_lvl_t where
  "zero_bot_lvl = \<lparr>bl_bf = replicate (BITFIELD_SIZE CNODE_SIZE_BITS) 0, bl_untyped = 0\<rparr>"

definition zero_node :: bot_lvl_node_t where
  "zero_node = \<lparr>n_cnodes = 0, bn_untyped = 0, bn_frame = 0,
                cnodes = replicate BOT_LVL_PER_NODE zero_bot_lvl\<rparr>"

text \<open>Reading and writing \<open>*cspace->bot_lvl_nodes[node]\<close>.\<close>

definition get_node :: "'w cspace_t \<Rightarrow> nat \<Rightarrow> bot_lvl_node_t option" where
  "get_node cs node = do { p \<leftarrow> arr_get (bot_lvl_nodes cs) node; p }"

definition set_node :: "'w cspace_t \<Rightarrow> nat \<Rightarrow> bot_lvl_node_t option \<Rightarrow> 'w cspace_t option" where
  "set_node cs node nd = do {
     ns \<leftarrow> arr_set (bot_lvl_nodes cs) node nd;
     Some (cs\<lparr>bot_lvl_nodes := ns\<rparr>)
   }"

section \<open>Wrappers around the kernel calls\<close>

definition cspace_copy ::
    "'w kernel \<Rightarrow> 'w cspace_t \<Rightarrow> cptr \<Rightarrow> 'w cspace_t \<Rightarrow> cptr \<Rightarrow> cap_rights \<Rightarrow> 'w \<Rightarrow> int \<times> 'w" where
  "cspace_copy K dest dest_cptr src src_cptr rights =
     K (CNode_Copy (root_cnode dest) dest_cptr seL4_WordBits
                   (root_cnode src) src_cptr seL4_WordBits rights)"

definition cspace_delete :: "'w kernel \<Rightarrow> 'w cspace_t \<Rightarrow> cptr \<Rightarrow> 'w \<Rightarrow> int \<times> 'w" where
  "cspace_delete K cs cptr = K (CNode_Delete (root_cnode cs) cptr seL4_WordBits)"

definition cspace_mint ::
    "'w kernel \<Rightarrow> 'w cspace_t \<Rightarrow> cptr \<Rightarrow> 'w cspace_t \<Rightarrow> cptr \<Rightarrow> cap_rights \<Rightarrow> u64 \<Rightarrow> 'w \<Rightarrow> int \<times> 'w" where
  "cspace_mint K dest dest_cptr src src_cptr rights badge =
     K (CNode_Mint (root_cnode dest) dest_cptr seL4_WordBits
                   (root_cnode src) src_cptr seL4_WordBits rights badge)"

definition cspace_move ::
    "'w kernel \<Rightarrow> 'w cspace_t \<Rightarrow> cptr \<Rightarrow> 'w cspace_t \<Rightarrow> cptr \<Rightarrow> 'w \<Rightarrow> int \<times> 'w" where
  "cspace_move K dest dest_cptr src src_cptr =
     K (CNode_Move (root_cnode dest) dest_cptr seL4_WordBits (root_cnode src) src_cptr seL4_WordBits)"

definition cspace_mutate ::
    "'w kernel \<Rightarrow> 'w cspace_t \<Rightarrow> cptr \<Rightarrow> 'w cspace_t \<Rightarrow> cptr \<Rightarrow> u64 \<Rightarrow> 'w \<Rightarrow> int \<times> 'w" where
  "cspace_mutate K dest dest_cptr src src_cap badge =
     K (CNode_Mutate (root_cnode dest) dest_cptr seL4_WordBits
                     (root_cnode src) src_cap seL4_WordBits badge)"

definition cspace_revoke :: "'w kernel \<Rightarrow> 'w cspace_t \<Rightarrow> cptr \<Rightarrow> 'w \<Rightarrow> int \<times> 'w" where
  "cspace_revoke K cs cptr = K (CNode_Revoke (root_cnode cs) cptr seL4_WordBits)"

definition cspace_save_reply_cap :: "'w kernel \<Rightarrow> 'w cspace_t \<Rightarrow> cptr \<Rightarrow> 'w \<Rightarrow> int \<times> 'w" where
  "cspace_save_reply_cap K cs cptr = K (CNode_SaveCaller (root_cnode cs) cptr seL4_WordBits)"

definition cspace_irq_control_get ::
    "'w kernel \<Rightarrow> 'w cspace_t \<Rightarrow> cptr \<Rightarrow> cptr \<Rightarrow> int \<Rightarrow> int \<Rightarrow> 'w \<Rightarrow> int \<times> 'w" where
  "cspace_irq_control_get K dest cptr irq_cap irq level =
     K (IRQControl_GetTrigger irq_cap irq level (root_cnode dest) cptr seL4_WordBits)"

text \<open>
  \<open>cspace_untyped_retype\<close> reads only \<open>root_cnode\<close> and \<open>two_level\<close>; the callbacks, which get the
  capability space as a cookie, use \<open>untyped_retype_at\<close> on these two fields.
\<close>

definition untyped_retype_at ::
    "'w kernel \<Rightarrow> cptr \<Rightarrow> bool \<Rightarrow> cptr \<Rightarrow> cptr \<Rightarrow> object_type \<Rightarrow> nat \<Rightarrow> 'w \<Rightarrow> int \<times> 'w" where
  "untyped_retype_at K root two ut target type size_bits =
     (if two then
        K (Untyped_Retype ut type size_bits root (target div 2 ^ CNODE_SLOT_BITS CNODE_SIZE_BITS)
             (seL4_WordBits - CNODE_SLOT_BITS CNODE_SIZE_BITS)
             (target mod CNODE_SLOTS CNODE_SIZE_BITS) 1)
      else K (Untyped_Retype ut type size_bits root 0 0 target 1))"

definition cspace_untyped_retype ::
    "'w kernel \<Rightarrow> 'w cspace_t \<Rightarrow> cptr \<Rightarrow> cptr \<Rightarrow> object_type \<Rightarrow> nat \<Rightarrow> 'w \<Rightarrow> int \<times> 'w" where
  "cspace_untyped_retype K cs = untyped_retype_at K (root_cnode cs) (two_level cs)"

section \<open>The allocation interface\<close>

definition alloc_4k_untyped :: "'w cspace_alloc_t option \<Rightarrow> 'w \<Rightarrow> (u64 \<times> cptr \<times> 'w) option" where
  "alloc_4k_untyped al w = do { a \<leftarrow> al; fn_alloc_4k_ut a (al_cookie a) w }"

definition free_4k_untyped :: "'w cspace_alloc_t option \<Rightarrow> u64 \<Rightarrow> 'w \<Rightarrow> 'w option" where
  "free_4k_untyped al untyped w = do { a \<leftarrow> al; fn_free_4k_ut a (al_cookie a) untyped w }"

definition cs_map_frame ::
    "'w cspace_alloc_t option \<Rightarrow> cptr \<Rightarrow> cptr list \<Rightarrow> u64 \<Rightarrow> 'w \<Rightarrow> (u64 \<times> u64 \<times> 'w) option" where
  "cs_map_frame al frame free_slots used w = do {
     a \<leftarrow> al;
     fn_map_frame a (al_cookie a) frame free_slots used w
   }"

definition retype_helper ::
    "'w kernel \<Rightarrow> 'w cspace_t \<Rightarrow> object_type \<Rightarrow> cptr \<Rightarrow> 'w \<Rightarrow> (u64 \<times> 'w) option" where
  "retype_helper K cs type cptr w = do {
     (untyped, ut_cptr, w) \<leftarrow> alloc_4k_untyped (alloc cs) w;
     if untyped = 0 then Some (0, w)
     else do {
       let size = (if type = seL4_CapTableObject then CNODE_SLOT_BITS seL4_PageBits else seL4_PageBits);
       let (err, w) = cspace_untyped_retype K cs ut_cptr cptr type size w;
       if err \<noteq> seL4_NoError then do {
         w \<leftarrow> free_4k_untyped (alloc cs) untyped w;
         Some (0, w)
       } else Some (untyped, w)
     }
   }"

section \<open>Second level nodes\<close>

text \<open>
  The loop of \<open>refill_watermark\<close> stops at the first used slot. The slot allocator, which calls
  \<open>refill_watermark\<close> and is called by it, is its first argument.
\<close>

definition refill_watermark ::
    "('w cspace_t \<Rightarrow> 'w \<Rightarrow> (cptr \<times> 'w cspace_t \<times> 'w) option) \<Rightarrow> 'w cspace_t \<Rightarrow> u64 \<Rightarrow> 'w \<Rightarrow>
     ('w cspace_t \<times> 'w) option" where
  "refill_watermark alloc_slot cs used w =
     (case find (\<lambda>i. used AND BIT i \<noteq> 0) [0..<WATERMARK_SLOTS] of
        None \<Rightarrow> Some (cs, w)
      | Some i \<Rightarrow> do {
          (slot, cs, w) \<leftarrow> alloc_slot cs w;
          wm \<leftarrow> arr_set (watermark cs) i slot;
          Some (cs\<lparr>watermark := wm\<rparr>, w)
        })"

definition init_bot_lvl_node :: "'w cspace_t \<Rightarrow> nat \<Rightarrow> u64 \<Rightarrow> cptr \<Rightarrow> 'w cspace_t option" where
  "init_bot_lvl_node cs node untyped frame = do {
     _ \<leftarrow> get_node cs node;
     let cs = cs\<lparr>n_bot_lvl_nodes := n_bot_lvl_nodes cs + 1\<rparr>;
     set_node cs node (Some (zero_node\<lparr>n_cnodes := 0, bn_untyped := untyped, bn_frame := frame\<rparr>))
   }"

text \<open>
  The two steps of \<open>ensure_levels\<close>: the bookkeeping frame of the node, then the second level cnode. The
  first component of the result is the returned \<open>bool\<close>, the second the word \<open>*used\<close>. A page that
  \<open>map_frame\<close> has mapped is zeroed memory.
\<close>

definition ensure_node ::
    "'w kernel \<Rightarrow> 'w cspace_t \<Rightarrow> nat \<Rightarrow> u64 \<Rightarrow> 'w \<Rightarrow> (bool \<times> u64 \<times> 'w cspace_t \<times> 'w) option" where
  "ensure_node K cs node used w =
     (if n_bot_lvl_nodes cs \<le> node then do {
        frame \<leftarrow> arr_get (watermark cs) MAPPING_SLOTS;
        let used = used OR BIT MAPPING_SLOTS;
        (untyped, w) \<leftarrow> retype_helper K cs seL4_ARM_SmallPageObject frame w;
        if untyped = 0 then Some (False, used, cs, w)
        else do {
          (vaddr, used, w) \<leftarrow> cs_map_frame (alloc cs) frame (watermark cs) used w;
          cs \<leftarrow> set_node cs node (if vaddr = 0 then None else Some zero_node);
          if vaddr = 0 then do {
            let (_, w) = cspace_delete K cs frame w;
            let used = used AND NOT (BIT MAPPING_SLOTS);
            w \<leftarrow> free_4k_untyped (alloc cs) untyped w;
            Some (False, used, cs, w)
          } else do {
            cs \<leftarrow> init_bot_lvl_node cs node untyped frame;
            Some (True, used, cs, w)
          }
        }
      } else Some (True, used, cs, w))"

definition ensure_cnode ::
    "'w kernel \<Rightarrow> 'w cspace_t \<Rightarrow> cptr \<Rightarrow> 'w \<Rightarrow> (bool \<times> 'w cspace_t \<times> 'w) option" where
  "ensure_cnode K cs cptr w = do {
     let node = NODE_INDEX cptr;
     let cnode = CNODE_INDEX cptr;
     nd \<leftarrow> get_node cs node;
     if n_cnodes nd \<le> cnode then do {
       (untyped, ut_cptr, w) \<leftarrow> alloc_4k_untyped (alloc cs) w;
       bl \<leftarrow> arr_get (cnodes nd) cnode;
       cns \<leftarrow> arr_set (cnodes nd) cnode (bl\<lparr>bl_untyped := untyped\<rparr>);
       cs \<leftarrow> set_node cs node (Some (nd\<lparr>cnodes := cns\<rparr>));
       if untyped = 0 then Some (False, cs, w)
       else do {
         let (err, w) = K (Untyped_Retype ut_cptr seL4_CapTableObject (CNODE_SLOT_BITS CNODE_SIZE_BITS)
                            (root_cnode cs) 0 0 (TOP_LVL_INDEX cptr) 1) w;
         if err \<noteq> seL4_NoError then do {
           w \<leftarrow> free_4k_untyped (alloc cs) untyped w;
           Some (False, cs, w)
         } else do {
           cs \<leftarrow> set_node cs node (Some (nd\<lparr>cnodes := cns, n_cnodes := n_cnodes nd + 1\<rparr>));
           Some (True, cs, w)
         }
       }
     } else Some (True, cs, w)
   }"

definition ensure_levels ::
    "'w kernel \<Rightarrow> 'w cspace_t \<Rightarrow> cptr \<Rightarrow> u64 \<Rightarrow> 'w \<Rightarrow> (bool \<times> u64 \<times> 'w cspace_t \<times> 'w) option" where
  "ensure_levels K cs cptr used w =
     (if \<not> two_level cs then Some (True, used, cs, w)
      else do {
        let node = NODE_INDEX cptr;
        let cspace_size = 2 ^ (CNODE_SLOT_BITS (top_lvl_size_bits cs) + CNODE_SLOT_BITS CNODE_SIZE_BITS);
        if DIV_ROUND_UP cspace_size BOT_LVL_PER_NODE \<le> node then Some (False, used, cs, w)
        else do {
          (ok, used, cs, w) \<leftarrow> ensure_node K cs node used w;
          if \<not> ok then Some (False, used, cs, w)
          else do {
            (ok, cs, w) \<leftarrow> ensure_cnode K cs cptr w;
            Some (ok, used, cs, w)
          }
        }
      })"

section \<open>Slots\<close>

text \<open>
  \<open>cspace_alloc_slot\<close> and \<open>refill_watermark\<close> call each other. Nothing bounds the depth of that recursion in the
  code, so the function is partial: not returning is \<open>None\<close>. Its parts are separate
  definitions: \<open>needs_levels\<close> is the condition under which \<open>ensure_levels\<close> is called, and
  \<open>take_bot_slot\<close> marks the first free slot of a second level cnode, and the cnode as full.
\<close>

definition needs_levels :: "'w cspace_t \<Rightarrow> cptr \<Rightarrow> bool option" where
  "needs_levels cs cptr =
     (if n_bot_lvl_nodes cs \<le> NODE_INDEX cptr then Some True
      else do {
        nd \<leftarrow> get_node cs (NODE_INDEX cptr);
        Some (n_cnodes nd \<le> CNODE_INDEX cptr)
      })"

definition take_bot_slot :: "'w cspace_t \<Rightarrow> cptr \<Rightarrow> nat \<Rightarrow> (nat \<times> 'w cspace_t) option" where
  "take_bot_slot cs cptr top_index = do {
     nd \<leftarrow> get_node cs (NODE_INDEX cptr);
     bot_lvl \<leftarrow> arr_get (cnodes nd) (CNODE_INDEX cptr);
     bot_index \<leftarrow> bf_first_free (BITFIELD_SIZE CNODE_SIZE_BITS) (bl_bf bot_lvl);
     bf \<leftarrow> bf_set_bit (bl_bf bot_lvl) bot_index;
     cns \<leftarrow> arr_set (cnodes nd) (CNODE_INDEX cptr) (bot_lvl\<lparr>bl_bf := bf\<rparr>);
     cs \<leftarrow> set_node cs (NODE_INDEX cptr) (Some (nd\<lparr>cnodes := cns\<rparr>));
     left \<leftarrow> bf_first_free (BITFIELD_SIZE CNODE_SIZE_BITS) bf;
     if CNODE_SLOTS CNODE_SIZE_BITS - 1 \<le> left then do {
       tbf \<leftarrow> bf_set_bit (top_bf cs) top_index;
       Some (bot_index, cs\<lparr>top_bf := tbf\<rparr>)
     } else Some (bot_index, cs)
   }"

lemma refill_watermark_mono [partial_function_mono]:
  assumes "\<And>cs w. mono_option (\<lambda>f. A f cs w)"
  shows "mono_option (\<lambda>f. refill_watermark (A f) cs used w)"
  using assms
  by (cases "find (\<lambda>i. used AND BIT i \<noteq> 0) [0..<WATERMARK_SLOTS]")
    (simp_all add: refill_watermark_def option.const_mono bind_mono)

partial_function (option) cspace_alloc_slot ::
    "'w kernel \<Rightarrow> 'w cspace_t \<Rightarrow> 'w \<Rightarrow> (cptr \<times> 'w cspace_t \<times> 'w) option" where
  "cspace_alloc_slot K cs w = do {
     top_index \<leftarrow> bf_first_free (BITFIELD_SIZE (top_lvl_size_bits cs)) (top_bf cs);
     if two_level cs \<and> CNODE_SLOTS (top_lvl_size_bits cs) < top_index \<or>
        CNODE_SLOTS (top_lvl_size_bits cs) \<le> top_index
     then Some (seL4_CapNull, cs, w)
     else if two_level cs then do {
       let cptr = top_index * 2 ^ CNODE_SLOT_BITS CNODE_SIZE_BITS;
       need \<leftarrow> needs_levels cs cptr;
       (ok, used, cs, w) \<leftarrow> (if need then ensure_levels K cs cptr 0 w else Some (True, 0, cs, w));
       if \<not> ok then Some (seL4_CapNull, cs, w)
       else do {
         (bot_index, cs) \<leftarrow> take_bot_slot cs cptr top_index;
         (cs, w) \<leftarrow> refill_watermark (cspace_alloc_slot K) cs used w;
         Some (cptr + bot_index, cs, w)
       }
     } else do {
       bf \<leftarrow> bf_set_bit (top_bf cs) top_index;
       Some (top_index, cs\<lparr>top_bf := bf\<rparr>, w)
     }
   }"

definition cspace_free_slot :: "'w cspace_t \<Rightarrow> cptr \<Rightarrow> 'w cspace_t option" where
  "cspace_free_slot cs cptr =
     (if cptr = seL4_CapNull then Some cs
      else if \<not> two_level cs then
        (if CNODE_SLOTS (top_lvl_size_bits cs) < cptr then Some cs
         else do {
           bf \<leftarrow> bf_clr_bit (top_bf cs) cptr;
           Some (cs\<lparr>top_bf := bf\<rparr>)
         })
      else do {
        bf \<leftarrow> bf_clr_bit (top_bf cs) (TOP_LVL_INDEX cptr);
        let cs = cs\<lparr>top_bf := bf\<rparr>;
        if NODE_INDEX cptr < n_bot_lvl_nodes cs then do {
          nd \<leftarrow> get_node cs (NODE_INDEX cptr);
          if CNODE_INDEX cptr < n_cnodes nd then do {
            bot_lvl \<leftarrow> arr_get (cnodes nd) (CNODE_INDEX cptr);
            bf \<leftarrow> bf_clr_bit (bl_bf bot_lvl) (BOT_LVL_INDEX cptr);
            cns \<leftarrow> arr_set (cnodes nd) (CNODE_INDEX cptr) (bot_lvl\<lparr>bl_bf := bf\<rparr>);
            set_node cs (NODE_INDEX cptr) (Some (nd\<lparr>cnodes := cns\<rparr>))
          } else Some cs
        } else Some cs
      })"

section \<open>Creating and destroying capability spaces\<close>

text \<open>
  The first argument after the kernel is the capability space being destroyed, the second the one its
  \<open>bootstrap\<close> pointer leads to, which is returned. \<open>ZF_LOGF\<close> aborts.
\<close>

definition destroy_node ::
    "'w kernel \<Rightarrow> 'w cspace_t \<Rightarrow> nat \<Rightarrow> cptr \<times> 'w \<Rightarrow> (cptr \<times> 'w) option" where
  "destroy_node K cs i s = do {
     nd \<leftarrow> get_node cs i;
     (last, w) \<leftarrow> for_each (\<lambda>j (last, w). do {
         bl \<leftarrow> arr_get (cnodes nd) j;
         w \<leftarrow> free_4k_untyped (alloc cs) (bl_untyped bl) w;
         Some (i * BOT_LVL_PER_NODE + j, w)
       }) [0..<n_cnodes nd] s;
     w \<leftarrow> free_4k_untyped (alloc cs) (bn_untyped nd) w;
     let (_, w) = cspace_delete K cs (bn_frame nd) w;
     Some (last, w)
   }"

definition cspace_destroy ::
    "'w kernel \<Rightarrow> 'w libc \<Rightarrow> 'w cspace_t \<Rightarrow> 'w cspace_t \<Rightarrow> 'w \<Rightarrow> ('w cspace_t \<times> 'w) option" where
  "cspace_destroy K L cs boot w = do {
     c_assert (has_bootstrap cs);
     (last, w) \<leftarrow> for_each (destroy_node K cs) [0..<n_bot_lvl_nodes cs] (0, w);
     let w = (if two_level cs then
                fold (\<lambda>i w. snd (K (CNode_Delete (root_cnode cs) i
                       (seL4_WordBits - (CNODE_SIZE_BITS - seL4_SlotBits))) w)) [0..<last + 1] w
              else w);
     (boot, w) \<leftarrow> (if root_cnode cs \<noteq> seL4_CapNull then do {
                     let (_, w) = cspace_delete K boot (root_cnode cs) w;
                     boot \<leftarrow> cspace_free_slot boot (root_cnode cs);
                     Some (boot, w)
                   } else Some (boot, w));
     w \<leftarrow> (if cs_untyped cs \<noteq> 0 then free_4k_untyped (alloc boot) (cs_untyped cs) w else Some w);
     let w = (if bot_lvl_nodes_ptr cs \<noteq> 0 then lc_free L (bot_lvl_nodes_ptr cs) w else w);
     let w = (if top_bf_ptr cs \<noteq> 0 then lc_free L (top_bf_ptr cs) w else w);
     Some (boot, w)
   }"

text \<open>
  \<open>cspace_create\<close> in the order of its code: the zeroed structure and its arrays, the root cnode, the first
  bookkeeping node, the first slots. Each step returns whether to go on; when it does not,
  the error has been cleaned up by \<open>cspace_destroy(target)\<close>, as in the code.
\<close>

definition create_fail ::
    "'w kernel \<Rightarrow> 'w libc \<Rightarrow> 'w cspace_t \<Rightarrow> 'w cspace_t \<Rightarrow> 'w \<Rightarrow>
     (bool \<times> 'w cspace_t \<times> 'w cspace_t \<times> 'w) option" where
  "create_fail K L target cs w = do {
     (cs, w) \<leftarrow> cspace_destroy K L target cs w;
     Some (False, target, cs, w)
   }"

definition create_arrays ::
    "'w kernel \<Rightarrow> 'w libc \<Rightarrow> 'w cspace_t \<Rightarrow> bool \<Rightarrow> 'w cspace_alloc_t option \<Rightarrow> 'w \<Rightarrow>
     (bool \<times> 'w cspace_t \<times> 'w cspace_t \<times> 'w) option" where
  "create_arrays K L cs two cspace_alloc w = do {
     let target = \<lparr>root_cnode = seL4_CapNull, two_level = two, top_lvl_size_bits = CNODE_SIZE_BITS,
                   top_bf_ptr = 0, top_bf = [], bot_lvl_nodes_ptr = 0, bot_lvl_nodes = [],
                   n_bot_lvl_nodes = 0, cs_untyped = 0, has_bootstrap = True, alloc = cspace_alloc,
                   watermark = replicate WATERMARK_SLOTS 0\<rparr>;
     let (p, w) = lc_calloc L 1 (8 * BITFIELD_SIZE (top_lvl_size_bits target)) w;
     if p = 0 then Some (False, target, cs, w)
     else do {
       let target = target\<lparr>top_bf_ptr := p,
                           top_bf := replicate (BITFIELD_SIZE (top_lvl_size_bits target)) 0\<rparr>;
       if two_level target then do {
         let (p, w) = lc_calloc L (BOT_LVL_NODES CNODE_SIZE_BITS) PAGE_SIZE_4K w;
         if p = 0 then create_fail K L target cs w
         else Some (True, target\<lparr>bot_lvl_nodes_ptr := p,
                bot_lvl_nodes := replicate (BOT_LVL_NODES CNODE_SIZE_BITS * PAGE_SIZE_4K div 8) None\<rparr>, cs, w)
       } else Some (True, target, cs, w)
     }
   }"

definition create_root ::
    "'w kernel \<Rightarrow> 'w libc \<Rightarrow> 'w cspace_t \<Rightarrow> 'w cspace_t \<Rightarrow> 'w \<Rightarrow>
     (bool \<times> 'w cspace_t \<times> 'w cspace_t \<times> 'w) option" where
  "create_root K L target cs w = do {
     (tmp, cs, w) \<leftarrow> cspace_alloc_slot K cs w;
     if tmp = seL4_CapNull then create_fail K L target cs w
     else do {
       (untyped, w) \<leftarrow> retype_helper K cs seL4_CapTableObject tmp w;
       let target = target\<lparr>cs_untyped := untyped\<rparr>;
       if untyped = 0 then create_fail K L target cs w
       else do {
         let depth = seL4_WordBits - CNODE_SLOT_BITS CNODE_SIZE_BITS * (if two_level target then 2 else 1);
         let guard = seL4_CNode_CapData_new 0 depth;
         (slot, cs, w) \<leftarrow> cspace_alloc_slot K cs w;
         let target = target\<lparr>root_cnode := slot\<rparr>;
         if root_cnode cs = seL4_CapNull then do {
           cs \<leftarrow> cspace_free_slot cs tmp;
           create_fail K L target cs w
         } else do {
           let (err, w) = cspace_mint K cs (root_cnode target) cs tmp seL4_AllRights guard w;
           if err \<noteq> 0 then create_fail K L target cs w
           else do {
             let (_, w) = cspace_delete K cs tmp w;
             cs \<leftarrow> cspace_free_slot cs tmp;
             Some (True, target, cs, w)
           }
         }
       }
     }
   }"

text \<open>The extra component is \<open>bot_lvl_node\<close>, the slot of the frame in the bootstrap capability space.\<close>

definition create_first_node ::
    "'w kernel \<Rightarrow> 'w libc \<Rightarrow> 'w cspace_t \<Rightarrow> 'w cspace_t \<Rightarrow> 'w \<Rightarrow>
     (cptr \<times> bool \<times> 'w cspace_t \<times> 'w cspace_t \<times> 'w) option" where
  "create_first_node K L target cs w =
     (if two_level target then do {
        (slot, cs, w) \<leftarrow> cspace_alloc_slot K cs w;
        if slot = seL4_CapNull then do {
          r \<leftarrow> create_fail K L target cs w;
          Some (slot, r)
        } else do {
          (untyped, w) \<leftarrow> retype_helper K cs seL4_ARM_SmallPageObject slot w;
          (target, cs, w) \<leftarrow> (if untyped \<noteq> 0 then do {
              (vaddr, used, w) \<leftarrow> cs_map_frame (alloc cs) slot (watermark cs) 0 w;
              target \<leftarrow> set_node target 0 (if vaddr = 0 then None else Some zero_node);
              (cs, w) \<leftarrow> refill_watermark (cspace_alloc_slot K) cs used w;
              Some (target, cs, w)
            } else Some (target, cs, w));
          p \<leftarrow> arr_get (bot_lvl_nodes target) 0;
          if p = None \<or> untyped = 0 then do {
            (_, target, cs, w) \<leftarrow> create_fail K L target cs w;
            let (_, w) = cspace_delete K cs slot w;
            cs \<leftarrow> cspace_free_slot cs slot;
            Some (slot, False, target, cs, w)
          } else do {
            target \<leftarrow> init_bot_lvl_node target 0 untyped slot;
            Some (slot, True, target, cs, w)
          }
        }
      } else Some (0, True, target, cs, w))"

definition create_first_slots ::
    "'w kernel \<Rightarrow> cptr \<Rightarrow> 'w cspace_t \<Rightarrow> 'w cspace_t \<Rightarrow> 'w \<Rightarrow> ('w cspace_t \<times> 'w cspace_t \<times> 'w) option" where
  "create_first_slots K bot_lvl_node target cs w = do {
     (null, target, w) \<leftarrow> cspace_alloc_slot K target w;
     c_assert (null = seL4_CapNull);
     if two_level target then do {
       mask \<leftarrow> MASK WATERMARK_SLOTS;
       (target, w) \<leftarrow> refill_watermark (cspace_alloc_slot K) target mask w;
       (slot, target, w) \<leftarrow> cspace_alloc_slot K target w;
       c_assert (slot \<noteq> seL4_CapNull);
       let (err, w) = cspace_move K target slot cs bot_lvl_node w;
       c_assert (err = seL4_NoError);
       nd \<leftarrow> get_node target 0;
       target \<leftarrow> set_node target 0 (Some (nd\<lparr>bn_frame := slot\<rparr>));
       cs \<leftarrow> cspace_free_slot cs bot_lvl_node;
       Some (target, cs, w)
     } else Some (target, cs, w)
   }"

definition cspace_create ::
    "'w kernel \<Rightarrow> 'w libc \<Rightarrow> 'w cspace_t \<Rightarrow> bool \<Rightarrow> 'w cspace_alloc_t option \<Rightarrow> 'w \<Rightarrow>
     (int \<times> 'w cspace_t \<times> 'w cspace_t \<times> 'w) option" where
  "cspace_create K L cs two cspace_alloc w = do {
     (ok, target, cs, w) \<leftarrow> create_arrays K L cs two cspace_alloc w;
     if \<not> ok then Some (CSPACE_ERROR, target, cs, w)
     else do {
       (ok, target, cs, w) \<leftarrow> create_root K L target cs w;
       if \<not> ok then Some (CSPACE_ERROR, target, cs, w)
       else do {
         (slot, ok, target, cs, w) \<leftarrow> create_first_node K L target cs w;
         if \<not> ok then Some (CSPACE_ERROR, target, cs, w)
         else do {
           (target, cs, w) \<leftarrow> create_first_slots K slot target cs w;
           Some (CSPACE_NOERROR, target, cs, w)
         }
       }
     }
   }"

definition cspace_create_two_level ::
    "'w kernel \<Rightarrow> 'w libc \<Rightarrow> 'w cspace_t \<Rightarrow> 'w cspace_alloc_t option \<Rightarrow> 'w \<Rightarrow>
     (int \<times> 'w cspace_t \<times> 'w cspace_t \<times> 'w) option" where
  "cspace_create_two_level K L bootstrap cspace_alloc w = cspace_create K L bootstrap True cspace_alloc w"

definition cspace_create_one_level ::
    "'w kernel \<Rightarrow> 'w libc \<Rightarrow> 'w cspace_t \<Rightarrow> 'w \<Rightarrow> (int \<times> 'w cspace_t \<times> 'w cspace_t \<times> 'w) option" where
  "cspace_create_one_level K L bootstrap w = cspace_create K L bootstrap False None w"

end
