(* ===== verification/Cspace_Levels.thy ===== *)
theory Cspace_Levels
  imports Cspace
begin

text \<open>
  The abstract view of a two level capability space and the effect of the internal operations of
  \<open>cspace.c\<close> on it. A second level cnode has a number \<open>t\<close>, its index in the top level. \<open>has_cnode cs t\<close>: the cnode exists;
  \<open>cnode_bf cs t\<close>: its bit field. \<open>lvl_ok\<close> is the well-formedness invariant: the bookkeeping is allocated
  without gaps, cnodes that do not exist yet are not marked as full and have an empty bit field, and a
  cnode that is not marked as full has a free slot below its last one.
\<close>

section \<open>Sizes\<close>

lemma cspace_sizes [simp]:
  "CNODE_SLOT_BITS CNODE_SIZE_BITS = 7" "CNODE_SLOTS CNODE_SIZE_BITS = 128"
  "BITFIELD_SIZE CNODE_SIZE_BITS = 2" "BOT_LVL_PER_NODE = 169" "BOT_LVL_NODES CNODE_SIZE_BITS = 1"
  by (simp_all add: CNODE_SLOT_BITS_def CNODE_SIZE_BITS_def seL4_SlotBits_def CNODE_SLOTS_def
      BITFIELD_SIZE_def seL4_WordBits_def BOT_LVL_PER_NODE_def PAGE_SIZE_4K_def bot_lvl_size_def
      BOT_LVL_NODES_def BYTES_TO_4K_PAGES_def)

lemma watermark_sizes [simp]: "MAPPING_SLOTS = 3" "WATERMARK_SLOTS = 4"
  by (simp_all add: MAPPING_SLOTS_def WATERMARK_SLOTS_def)

lemma cptr_indices [simp]:
  "j < 128 \<Longrightarrow> NODE_INDEX (t * 128 + j) = t div 169"
  "j < 128 \<Longrightarrow> CNODE_INDEX (t * 128 + j) = t mod 169"
  "NODE_INDEX (t * 128) = t div 169"
  "CNODE_INDEX (t * 128) = t mod 169"
  "j < 128 \<Longrightarrow> TOP_LVL_INDEX (t * 128 + j) = t"
  "TOP_LVL_INDEX (t * 128) = t"
  "j < 128 \<Longrightarrow> BOT_LVL_INDEX (t * 128 + j) = j"
  by (simp_all add: NODE_INDEX_def CNODE_INDEX_def TOP_LVL_INDEX_def BOT_LVL_INDEX_def)

lemma bitfield_covers: "11 \<le> b \<Longrightarrow> 64 * BITFIELD_SIZE b = CNODE_SLOTS b"
proof -
  assume "11 \<le> b"
  then have "CNODE_SLOTS b = 64 * 2 ^ (b - 11)"
    by (simp add: CNODE_SLOTS_def CNODE_SLOT_BITS_def seL4_SlotBits_def
        flip: power_add [of "2 :: nat" 6, simplified])
  then show ?thesis by (simp add: BITFIELD_SIZE_def seL4_WordBits_def)
qed

section \<open>The view\<close>

definition has_cnode :: "'w cspace_t \<Rightarrow> nat \<Rightarrow> bool" where
  "has_cnode cs t \<longleftrightarrow> t div 169 < n_bot_lvl_nodes cs \<and>
     (\<exists>nd. get_node cs (t div 169) = Some nd \<and> t mod 169 < n_cnodes nd)"

definition cnode_bf :: "'w cspace_t \<Rightarrow> nat \<Rightarrow> u64 list" where
  "cnode_bf cs t = (case get_node cs (t div 169) of
     None \<Rightarrow> [] | Some nd \<Rightarrow> bl_bf (cnodes nd ! (t mod 169)))"

definition node_ok :: "bot_lvl_node_t \<Rightarrow> bool" where
  "node_ok nd \<longleftrightarrow> length (cnodes nd) = 169 \<and> n_cnodes nd \<le> 169 \<and>
     (\<forall>j < 169. length (bl_bf (cnodes nd ! j)) = 2) \<and>
     (\<forall>j < 169. n_cnodes nd \<le> j \<longrightarrow> bl_bf (cnodes nd ! j) = [0, 0])"

text \<open>The shape of the bookkeeping.\<close>

definition lvl_shape :: "'w cspace_t \<Rightarrow> bool" where
  "lvl_shape cs \<longleftrightarrow> two_level cs \<and> 11 \<le> top_lvl_size_bits cs \<and>
     length (top_bf cs) = BITFIELD_SIZE (top_lvl_size_bits cs) \<and>
     CNODE_SLOTS (top_lvl_size_bits cs) \<le> 169 * length (bot_lvl_nodes cs) \<and>
     length (watermark cs) = 4 \<and>
     (\<forall>i < n_bot_lvl_nodes cs. \<exists>nd. get_node cs i = Some nd \<and> node_ok nd \<and>
        (i + 1 < n_bot_lvl_nodes cs \<longrightarrow> n_cnodes nd = 169)) \<and>
     (\<forall>t. bf_bit (top_bf cs) t \<longrightarrow> has_cnode cs t)"

text \<open>Cnode \<open>t\<close> can give a slot and still have its last slot free.\<close>

definition open_bf :: "u64 list \<Rightarrow> bool" where
  "open_bf bf \<longleftrightarrow> (\<exists>j < 127. \<not> bf_bit bf j) \<and> \<not> bf_bit bf 127"

definition lvl_ok :: "'w cspace_t \<Rightarrow> bool" where
  "lvl_ok cs \<longleftrightarrow> lvl_shape cs \<and> has_cnode cs 0 \<and> bf_bit (cnode_bf cs 0) 0 \<and>
     (\<forall>t. has_cnode cs t \<and> \<not> bf_bit (top_bf cs) t \<longrightarrow> open_bf (cnode_bf cs t))"

definition slot_taken :: "'w cspace_t \<Rightarrow> cptr \<Rightarrow> bool" where
  "slot_taken cs c \<longleftrightarrow> has_cnode cs (c div 128) \<and> bf_bit (cnode_bf cs (c div 128)) (c mod 128)"

section \<open>Accessing nodes\<close>

lemma get_node_set_node:
  assumes "set_node cs i nd = Some cs'"
  shows "get_node cs' k = (if k = i then nd else get_node cs k)"
    and "cs' = cs\<lparr>bot_lvl_nodes := bot_lvl_nodes cs'\<rparr>"
    and "length (bot_lvl_nodes cs') = length (bot_lvl_nodes cs)" and "i < length (bot_lvl_nodes cs)"
  using assms
  by (auto simp: set_node_def get_node_def arr_get_def arr_set_def split: if_splits)

lemma set_node_Some: "i < length (bot_lvl_nodes cs) \<Longrightarrow> \<exists>cs'. set_node cs i nd = Some cs'"
  by (simp add: set_node_def)

lemma get_node_top [simp]: "get_node (cs\<lparr>top_bf := b\<rparr>) = get_node cs"
  "get_node (cs\<lparr>watermark := m\<rparr>) = get_node cs" "get_node (cs\<lparr>n_bot_lvl_nodes := n\<rparr>) = get_node cs"
  by (auto simp: get_node_def fun_eq_iff)

lemma get_node_length: "get_node cs i = Some nd \<Longrightarrow> i < length (bot_lvl_nodes cs)"
  by (auto simp: get_node_def arr_get_def split: if_splits)

lemma cnode_number_eq: "t div 169 = s div 169 \<Longrightarrow> t mod 169 = s mod (169 :: nat) \<Longrightarrow> t = s"
  by (metis div_mult_mod_eq)

lemma lvl_shape_node:
  assumes "lvl_shape cs" and "has_cnode cs t"
  obtains nd where "get_node cs (t div 169) = Some nd" and "node_ok nd" and "t mod 169 < n_cnodes nd"
    and "cnode_bf cs t = bl_bf (cnodes nd ! (t mod 169))" and "length (cnode_bf cs t) = 2"
  using assms by (fastforce simp: lvl_shape_def has_cnode_def cnode_bf_def node_ok_def)

section \<open>Updating one second level cnode\<close>

text \<open>Replacing the bit field of cnode \<open>t\<close>; \<open>same_rest\<close>: what else the operations leave alone.\<close>

definition same_rest :: "'w cspace_t \<Rightarrow> 'w cspace_t \<Rightarrow> bool" where
  "same_rest cs cs' \<longleftrightarrow> root_cnode cs' = root_cnode cs \<and> two_level cs' = two_level cs \<and>
     top_lvl_size_bits cs' = top_lvl_size_bits cs \<and> alloc cs' = alloc cs \<and>
     cs_untyped cs' = cs_untyped cs \<and> has_bootstrap cs' = has_bootstrap cs"

lemma same_rest_refl [simp]: "same_rest cs cs"
  by (simp add: same_rest_def)

lemma same_rest_trans: "same_rest a b \<Longrightarrow> same_rest b c \<Longrightarrow> same_rest a c"
  by (simp add: same_rest_def)

lemma upd_cnode:
  assumes shape: "lvl_shape cs" and has: "has_cnode cs t" and nd: "get_node cs (t div 169) = Some nd"
    and len: "length bf' = 2"
    and set: "set_node cs (t div 169)
          (Some (nd\<lparr>cnodes := (cnodes nd)[t mod 169 := (cnodes nd ! (t mod 169))\<lparr>bl_bf := bf'\<rparr>]\<rparr>)) = Some cs'"
  shows "lvl_shape cs'" and "has_cnode cs' = has_cnode cs" and "cnode_bf cs' = (cnode_bf cs)(t := bf')"
    and "top_bf cs' = top_bf cs" and "watermark cs' = watermark cs" and "same_rest cs cs'"
    and "n_bot_lvl_nodes cs' = n_bot_lvl_nodes cs"
proof -
  let ?nd = "nd\<lparr>cnodes := (cnodes nd)[t mod 169 := (cnodes nd ! (t mod 169))\<lparr>bl_bf := bf'\<rparr>]\<rparr>"
  note S = get_node_set_node [OF set]
  obtain ns where "cs' = cs\<lparr>bot_lvl_nodes := ns\<rparr>" using S(2) by blast
  then have f: "top_bf cs' = top_bf cs" "watermark cs' = watermark cs"
    "n_bot_lvl_nodes cs' = n_bot_lvl_nodes cs" "same_rest cs cs'"
    by (simp_all add: same_rest_def)
  then show "top_bf cs' = top_bf cs" "watermark cs' = watermark cs" "same_rest cs cs'"
    "n_bot_lvl_nodes cs' = n_bot_lvl_nodes cs" by simp_all
  from has nd have tn: "t mod 169 < n_cnodes nd" by (simp add: has_cnode_def)
  show has': "has_cnode cs' = has_cnode cs"
    using nd by (auto simp: has_cnode_def fun_eq_iff f S(1))
  have len169: "node_ok nd" using shape nd has by (fastforce simp: lvl_shape_def has_cnode_def)
  show "cnode_bf cs' = (cnode_bf cs)(t := bf')"
    using nd len169 cnode_number_eq [of _ t]
    by (auto simp: cnode_bf_def fun_eq_iff S(1) nth_list_update node_ok_def)
  have ok: "node_ok ?nd" using len169 tn len by (auto simp: node_ok_def nth_list_update)
  have "\<exists>nd'. get_node cs' i = Some nd' \<and> node_ok nd' \<and> (i + 1 < n_bot_lvl_nodes cs' \<longrightarrow> n_cnodes nd' = 169)"
    if i: "i < n_bot_lvl_nodes cs'" for i
  proof (cases "i = t div 169")
    case True
    with shape nd i have "i + 1 < n_bot_lvl_nodes cs' \<longrightarrow> n_cnodes nd = 169"
      by (auto simp: lvl_shape_def f)
    with True ok show ?thesis by (simp add: S(1))
  next
    case False
    with shape i show ?thesis by (simp add: lvl_shape_def f S(1))
  qed
  with shape has' f show "lvl_shape cs'"
    by (simp add: lvl_shape_def S(3) same_rest_def)
qed

section \<open>Taking and freeing a slot of a cnode\<close>

text \<open>The bit field with position \<open>j\<close> set or cleared.\<close>

definition bf_ins :: "nat \<Rightarrow> u64 list \<Rightarrow> u64 list" where
  "bf_ins j bf = bf[j div 64 := bf ! (j div 64) OR BIT (j mod 64)]"

definition bf_del :: "nat \<Rightarrow> u64 list \<Rightarrow> u64 list" where
  "bf_del j bf = bf[j div 64 := bf ! (j div 64) AND NOT (BIT (j mod 64))]"

lemma bf_ins_length [simp]: "length (bf_ins j bf) = length bf" "length (bf_del j bf) = length bf"
  by (simp_all add: bf_ins_def bf_del_def)

lemma bf_set_ins: "j < 64 * length bf \<Longrightarrow> bf_set_bit bf j = Some (bf_ins j bf)"
  by (simp add: bf_set_bit_eq bf_ins_def)

lemma bf_clr_del: "j < 64 * length bf \<Longrightarrow> bf_clr_bit bf j = Some (bf_del j bf)"
  by (simp add: bf_clr_bit_eq bf_del_def)

lemma bf_bit_ins: "j < 64 * length bf \<Longrightarrow> bf_bit (bf_ins j bf) k \<longleftrightarrow> k = j \<or> bf_bit bf k"
  using bf_set_bit_SomeD(3) bf_set_ins by blast

lemma bf_bit_del: "j < 64 * length bf \<Longrightarrow> bf_bit (bf_del j bf) k \<longleftrightarrow> k \<noteq> j \<and> bf_bit bf k"
  using bf_clr_bit_SomeD(3) bf_clr_del by blast

definition first_free :: "u64 list \<Rightarrow> nat" where
  "first_free bf = (LEAST j. \<not> bf_bit bf j)"

lemma first_free_not: "\<not> bf_bit bf j \<Longrightarrow> \<not> bf_bit bf (first_free bf) \<and> first_free bf \<le> j"
  unfolding first_free_def by (metis LeastI Least_le)

lemma open_bf_first:
  assumes "open_bf bf"
  shows "first_free bf < 127" and "\<not> bf_bit bf (first_free bf)"
  using assms first_free_not by (fastforce simp: open_bf_def)+

lemma bf_first_free_first:
  "length bf = n \<Longrightarrow> \<not> bf_bit bf j \<Longrightarrow> j < 64 * n \<Longrightarrow> bf_first_free n bf = Some (first_free bf)"
  unfolding first_free_def by (rule bf_first_free_Some) auto

lemma lvl_shape_top_bf:
  assumes "lvl_shape cs" and "length b = length (top_bf cs)" and "\<And>t. bf_bit b t \<Longrightarrow> has_cnode cs t"
  shows "lvl_shape (cs\<lparr>top_bf := b\<rparr>)"
  using assms by (auto simp: lvl_shape_def has_cnode_def)

lemma view_top_bf [simp]:
  "has_cnode (cs\<lparr>top_bf := b\<rparr>) = has_cnode cs" "cnode_bf (cs\<lparr>top_bf := b\<rparr>) = cnode_bf cs"
  "has_cnode (cs\<lparr>watermark := m\<rparr>) = has_cnode cs" "cnode_bf (cs\<lparr>watermark := m\<rparr>) = cnode_bf cs"
  by (simp_all add: fun_eq_iff has_cnode_def cnode_bf_def)

lemma has_cnode_slots:
  assumes "lvl_shape cs" and "t < CNODE_SLOTS (top_lvl_size_bits cs)"
  shows "t < 64 * length (top_bf cs)" and "t div 169 < length (bot_lvl_nodes cs)"
  using assms bitfield_covers [of "top_lvl_size_bits cs"]
  by (auto simp: lvl_shape_def div_less_iff_less_mult)

lemma take_bot_slot_spec:
  assumes shape: "lvl_shape cs" and has: "has_cnode cs t" and op: "open_bf (cnode_bf cs t)"
    and t: "t < CNODE_SLOTS (top_lvl_size_bits cs)"
  defines "j \<equiv> first_free (cnode_bf cs t)"
  defines "bf' \<equiv> bf_ins j (cnode_bf cs t)"
  shows "\<exists>cs'. take_bot_slot cs (t * 128) t = Some (j, cs') \<and> lvl_shape cs' \<and>
           has_cnode cs' = has_cnode cs \<and> cnode_bf cs' = (cnode_bf cs)(t := bf') \<and>
           top_bf cs' = (if open_bf bf' then top_bf cs else bf_ins t (top_bf cs)) \<and>
           watermark cs' = watermark cs \<and> same_rest cs cs'"
proof -
  obtain nd where nd: "get_node cs (t div 169) = Some nd" and ok: "node_ok nd"
    and tn: "t mod 169 < n_cnodes nd" and bf: "cnode_bf cs t = bl_bf (cnodes nd ! (t mod 169))"
    and len: "length (cnode_bf cs t) = 2"
    using lvl_shape_node [OF shape has] by blast
  from open_bf_first [OF op] have j: "j < 127" "\<not> bf_bit (cnode_bf cs t) j" by (simp_all add: j_def)
  have ff: "bf_first_free 2 (cnode_bf cs t) = Some j"
    using bf_first_free_first [OF len j(2)] j by (simp add: j_def)
  have set: "bf_set_bit (cnode_bf cs t) j = Some bf'" using j len by (simp add: bf_set_ins bf'_def)
  have bits: "bf_bit bf' k \<longleftrightarrow> k = j \<or> bf_bit (cnode_bf cs t) k" for k
    using j len by (simp add: bf'_def bf_bit_ins)
  have len': "length bf' = 2" by (simp add: bf'_def len)
  have "\<not> bf_bit bf' 127" using op j(1) by (simp add: bits open_bf_def)
  then have left: "bf_first_free 2 bf' = Some (first_free bf')"
    using bf_first_free_first [OF len'] by simp
  have full: "127 \<le> first_free bf' \<longleftrightarrow> \<not> open_bf bf'"
    using first_free_not [of bf'] \<open>\<not> bf_bit bf' 127\<close>
    by (meson leD le_trans linorder_not_le open_bf_def open_bf_first(1) le_neq_implies_less not_le)
  let ?nd = "nd\<lparr>cnodes := (cnodes nd)[t mod 169 := (cnodes nd ! (t mod 169))\<lparr>bl_bf := bf'\<rparr>]\<rparr>"
  obtain cs1 where cs1: "set_node cs (t div 169) (Some ?nd) = Some cs1"
    using set_node_Some get_node_length [OF nd] by blast
  note U = upd_cnode [OF shape has nd len' cs1]
  have l169: "length (cnodes nd) = 169" using ok by (simp add: node_ok_def)
  have run: "take_bot_slot cs (t * 128) t =
      (if 127 \<le> first_free bf' then
         do { tbf \<leftarrow> bf_set_bit (top_bf cs1) t; Some (j, cs1\<lparr>top_bf := tbf\<rparr>) }
       else Some (j, cs1))"
    using ff set left cs1 by (simp add: take_bot_slot_def nd bf l169)
  show ?thesis
  proof (cases "open_bf bf'")
    case True
    with run full U show ?thesis by auto
  next
    case False
    have tl: "t < 64 * length (top_bf cs1)" using has_cnode_slots [OF shape t] by (simp add: U(4))
    have "lvl_shape (cs1\<lparr>top_bf := bf_ins t (top_bf cs1)\<rparr>)"
      using U(1,2) has tl by (intro lvl_shape_top_bf) (auto simp: bf_bit_ins lvl_shape_def)
    with False run full U tl show ?thesis by (auto simp: bf_set_ins same_rest_def)
  qed
qed

lemma free_slot_spec:
  assumes shape: "lvl_shape cs" and has: "has_cnode cs (c div 128)" and c: "c \<noteq> 0"
    and t: "c div 128 < CNODE_SLOTS (top_lvl_size_bits cs)"
  shows "\<exists>cs'. cspace_free_slot cs c = Some cs' \<and> lvl_shape cs' \<and> has_cnode cs' = has_cnode cs \<and>
           cnode_bf cs' = (cnode_bf cs)(c div 128 := bf_del (c mod 128) (cnode_bf cs (c div 128))) \<and>
           top_bf cs' = bf_del (c div 128) (top_bf cs) \<and> watermark cs' = watermark cs \<and> same_rest cs cs'"
proof -
  let ?t = "c div 128" and ?j = "c mod 128"
  have cidx: "NODE_INDEX c = ?t div 169" "CNODE_INDEX c = ?t mod 169" "TOP_LVL_INDEX c = ?t"
    "BOT_LVL_INDEX c = ?j"
    by (simp_all add: NODE_INDEX_def CNODE_INDEX_def TOP_LVL_INDEX_def BOT_LVL_INDEX_def)
  have tl: "?t < 64 * length (top_bf cs)" using has_cnode_slots [OF shape t] by simp
  define cs1 where "cs1 = cs\<lparr>top_bf := bf_del ?t (top_bf cs)\<rparr>"
  have shape1: "lvl_shape cs1" unfolding cs1_def
    using shape tl by (intro lvl_shape_top_bf) (auto simp: bf_bit_del lvl_shape_def)
  have v1: "has_cnode cs1 = has_cnode cs" "cnode_bf cs1 = cnode_bf cs" by (simp_all add: cs1_def)
  with has have has1: "has_cnode cs1 ?t" by simp
  obtain nd where nd: "get_node cs1 (?t div 169) = Some nd" and ok: "node_ok nd"
    and tn: "?t mod 169 < n_cnodes nd" and bf: "cnode_bf cs1 ?t = bl_bf (cnodes nd ! (?t mod 169))"
    and len: "length (cnode_bf cs1 ?t) = 2"
    using lvl_shape_node [OF shape1 has1] by blast
  let ?bf = "bf_del ?j (cnode_bf cs ?t)"
  have clr: "bf_clr_bit (cnode_bf cs1 ?t) ?j = Some ?bf"
    using len by (simp add: bf_clr_del v1)
  have l169: "length (cnodes nd) = 169" using ok by (simp add: node_ok_def)
  have len': "length ?bf = 2" using len by (simp add: v1)
  obtain cs2 where cs2: "set_node cs1 (?t div 169) (Some (nd\<lparr>cnodes :=
      (cnodes nd)[?t mod 169 := (cnodes nd ! (?t mod 169))\<lparr>bl_bf := ?bf\<rparr>]\<rparr>)) = Some cs2"
    using set_node_Some get_node_length [OF nd] by blast
  note U = upd_cnode [OF shape1 has1 nd len' cs2]
  have "two_level cs" "?t div 169 < n_bot_lvl_nodes cs"
    using shape has by (simp_all add: lvl_shape_def has_cnode_def)
  then have "cspace_free_slot cs c = Some cs2"
    using c tl nd nd [unfolded cs1_def, simplified] tn clr cs2 l169
    by (simp add: cspace_free_slot_def seL4_CapNull_def cidx bf_clr_del bf flip: cs1_def)
  with U v1 show ?thesis by (auto simp: cs1_def same_rest_def)
qed

section \<open>Growing the second level\<close>

text \<open>\<open>grow_at cs t\<close>: \<open>t\<close> is the next cnode to be created, in the last node or in a new one.\<close>

definition grow_at :: "'w cspace_t \<Rightarrow> nat \<Rightarrow> bool" where
  "grow_at cs t \<longleftrightarrow> (\<forall>s. has_cnode cs s \<longleftrightarrow> s < t)"

lemma lvl_shape_nth:
  "lvl_shape cs \<Longrightarrow> i < n_bot_lvl_nodes cs \<Longrightarrow>
   \<exists>nd. get_node cs i = Some nd \<and> node_ok nd \<and> (i + 1 < n_bot_lvl_nodes cs \<longrightarrow> n_cnodes nd = 169)"
  by (simp add: lvl_shape_def)

lemma pred_div_mod:
  fixes t n :: nat
  assumes "t mod n = Suc k" and n: "0 < n"
  shows "(t - 1) div n = t div n" and "(t - 1) mod n = k"
proof -
  have "Suc k < n" using assms mod_less_divisor [OF n, of t] by simp
  moreover have "t - 1 = t div n * n + k" using assms div_mult_mod_eq [of t n] by linarith
  ultimately show "(t - 1) div n = t div n" "(t - 1) mod n = k" by simp_all
qed

lemma pred_div_less:
  assumes "(t - 1) div 169 < n" and "\<not> t div 169 < n" and "0 < (t :: nat)"
  shows "t = 169 * n"
  using assms by (simp add: div_less_iff_less_mult)

lemma has_cnode_le:
  assumes "lvl_shape cs" and "has_cnode cs t" and "s \<le> t"
  shows "has_cnode cs s"
proof (cases "s div 169 = t div 169")
  case True
  have "s = s div 169 * 169 + s mod 169" "t = t div 169 * 169 + t mod 169" by simp_all
  with \<open>s \<le> t\<close> True have "s mod 169 \<le> t mod 169" by linarith
  with assms True show ?thesis by (auto simp: has_cnode_def)
next
  case False
  with \<open>s \<le> t\<close> have "s div 169 < t div 169" using div_le_mono le_neq_implies_less by blast
  then have lt: "s div 169 + 1 < n_bot_lvl_nodes cs" using assms by (simp add: has_cnode_def)
  then obtain nd where "get_node cs (s div 169) = Some nd" "n_cnodes nd = 169"
    using lvl_shape_nth [OF assms(1), of "s div 169"] by auto
  with lt show ?thesis by (simp add: has_cnode_def)
qed

lemma grow_at_first:
  assumes "lvl_shape cs" and "\<forall>s < t. bf_bit (top_bf cs) s" and "\<not> has_cnode cs t"
  shows "grow_at cs t"
  unfolding grow_at_def
proof
  fix s
  show "has_cnode cs s \<longleftrightarrow> s < t"
    using assms has_cnode_le [OF assms(1), of s t] by (cases "s < t") (auto simp: lvl_shape_def)
qed

lemma grow_at_position:
  assumes shape: "lvl_shape cs" and grow: "grow_at cs t"
  shows "t div 169 < n_bot_lvl_nodes cs \<and> t div 169 + 1 = n_bot_lvl_nodes cs \<and>
           (\<exists>nd. get_node cs (t div 169) = Some nd \<and> node_ok nd \<and> n_cnodes nd = t mod 169) \<or>
         t div 169 = n_bot_lvl_nodes cs \<and> t mod 169 = 0 \<and>
           (\<forall>i < n_bot_lvl_nodes cs. \<exists>nd. get_node cs i = Some nd \<and> node_ok nd \<and> n_cnodes nd = 169)"
proof (cases "t div 169 < n_bot_lvl_nodes cs")
  case True
  then obtain nd where nd: "get_node cs (t div 169) = Some nd" "node_ok nd"
    "t div 169 + 1 < n_bot_lvl_nodes cs \<longrightarrow> n_cnodes nd = 169"
    using lvl_shape_nth [OF shape] by blast
  have "\<not> has_cnode cs t" using grow by (simp add: grow_at_def)
  with True nd have ge: "n_cnodes nd \<le> t mod 169" by (simp add: has_cnode_def)
  moreover have "t mod 169 \<le> n_cnodes nd"
  proof (cases "t mod 169")
    case (Suc k)
    then have m: "(t - 1) div 169 = t div 169" "(t - 1) mod 169 = k" using pred_div_mod by simp_all
    have "has_cnode cs (t - 1)" using grow Suc by (cases t) (auto simp: grow_at_def)
    with m nd Suc show ?thesis by (simp add: has_cnode_def)
  qed simp
  moreover have "t div 169 + 1 = n_bot_lvl_nodes cs" using nd ge True mod_less_divisor [of 169 t] by linarith
  ultimately show ?thesis using True nd by auto
next
  case False
  have last: "has_cnode cs (t - 1)" if "t > 0" using grow that by (simp add: grow_at_def)
  have eq: "t div 169 = n_bot_lvl_nodes cs \<and> t mod 169 = 0"
  proof (cases "t = 0")
    case False
    with last have "(t - 1) div 169 < n_bot_lvl_nodes cs" by (simp add: has_cnode_def)
    with \<open>\<not> t div 169 < n_bot_lvl_nodes cs\<close> False have "t = 169 * n_bot_lvl_nodes cs"
      by (intro pred_div_less) auto
    then show ?thesis by simp
  qed (use False in simp)
  have "n_cnodes nd = 169" if i: "i < n_bot_lvl_nodes cs" and nd: "get_node cs i = Some nd" "node_ok nd" for i nd
  proof -
    have "t = n_bot_lvl_nodes cs * 169" using eq div_mult_mod_eq [of t 169] by simp
    with i have "i * 169 + 168 < t" by simp
    then have "has_cnode cs (i * 169 + 168)" using grow by (simp add: grow_at_def)
    with nd show ?thesis by (auto simp: has_cnode_def node_ok_def)
  qed
  moreover have "\<exists>nd. get_node cs i = Some nd \<and> node_ok nd" if "i < n_bot_lvl_nodes cs" for i
    using lvl_shape_nth [OF shape that] by blast
  ultimately show ?thesis using eq by blast
qed

text \<open>The parts of the view that growing keeps.\<close>

definition grown :: "'w cspace_t \<Rightarrow> 'w cspace_t \<Rightarrow> bool" where
  "grown cs cs' \<longleftrightarrow> lvl_shape cs' \<and> top_bf cs' = top_bf cs \<and> watermark cs' = watermark cs \<and>
     same_rest cs cs' \<and> (\<forall>s. has_cnode cs s \<longrightarrow> has_cnode cs' s \<and> cnode_bf cs' s = cnode_bf cs s)"

lemma grown_refl: "lvl_shape cs \<Longrightarrow> grown cs cs"
  by (simp add: grown_def)

lemma grown_trans: "grown a b \<Longrightarrow> grown b c \<Longrightarrow> grown a c"
  by (auto simp: grown_def intro: same_rest_trans)

text \<open>Any change of the nodes that keeps the existing ones in shape and creates no gap.\<close>

lemma grownI:
  assumes shape: "lvl_shape cs"
    and cs': "cs' = cs\<lparr>bot_lvl_nodes := ns, n_bot_lvl_nodes := n\<rparr>" and len: "length ns = length (bot_lvl_nodes cs)"
    and nodes: "\<And>i. i < n \<Longrightarrow> \<exists>nd. get_node cs' i = Some nd \<and> node_ok nd \<and> (i + 1 < n \<longrightarrow> n_cnodes nd = 169)"
    and old: "\<And>s. has_cnode cs s \<Longrightarrow> has_cnode cs' s \<and> cnode_bf cs' s = cnode_bf cs s"
  shows "grown cs cs'"
proof -
  have "lvl_shape cs'"
    using shape nodes old len by (simp add: lvl_shape_def cs')
  with old show ?thesis by (simp add: grown_def cs' same_rest_def)
qed

lemma grown_null_node:
  assumes shape: "lvl_shape cs" and i: "n_bot_lvl_nodes cs \<le> i" and set: "set_node cs i None = Some cs'"
  shows "grown cs cs'" and "has_cnode cs' = has_cnode cs"
proof -
  note S = get_node_set_node [OF set]
  from S(2) obtain ns where cs': "cs' = cs\<lparr>bot_lvl_nodes := ns\<rparr>" by blast
  have len: "length ns = length (bot_lvl_nodes cs)" using S(3) by (simp add: cs')
  show has: "has_cnode cs' = has_cnode cs"
    using i by (auto simp: has_cnode_def fun_eq_iff S(1)) (auto simp: cs')
  show "grown cs cs'"
  proof (rule grownI [OF shape _ len])
    show "cs' = cs\<lparr>bot_lvl_nodes := ns, n_bot_lvl_nodes := n_bot_lvl_nodes cs\<rparr>" by (simp add: cs')
    show "\<exists>nd. get_node cs' k = Some nd \<and> node_ok nd \<and> (k + 1 < n_bot_lvl_nodes cs \<longrightarrow> n_cnodes nd = 169)"
      if "k < n_bot_lvl_nodes cs" for k
      using lvl_shape_nth [OF shape that] that i by (simp add: S(1))
    show "has_cnode cs' s \<and> cnode_bf cs' s = cnode_bf cs s" if "has_cnode cs s" for s
      using that i has by (simp add: cnode_bf_def S(1)) (auto simp: has_cnode_def)
  qed
qed

lemma zero_node_ok: "node_ok (zero_node\<lparr>n_cnodes := 0, bn_untyped := u, bn_frame := f\<rparr>)"
  by (simp add: node_ok_def zero_node_def zero_bot_lvl_def numeral_2_eq_2)

lemma grown_new_node:
  assumes shape: "lvl_shape cs" and i: "i = n_bot_lvl_nodes cs"
    and full: "\<forall>i < n_bot_lvl_nodes cs. \<exists>nd. get_node cs i = Some nd \<and> node_ok nd \<and> n_cnodes nd = 169"
    and nd: "node_ok nd" "n_cnodes nd = 0"
    and set: "set_node (cs\<lparr>n_bot_lvl_nodes := n_bot_lvl_nodes cs + 1\<rparr>) i (Some nd) = Some cs'"
  shows "grown cs cs'" and "has_cnode cs' = has_cnode cs" and "n_bot_lvl_nodes cs' = n_bot_lvl_nodes cs + 1"
proof -
  note S = get_node_set_node [OF set]
  from S(2) obtain ns where "cs' = (cs\<lparr>n_bot_lvl_nodes := n_bot_lvl_nodes cs + 1\<rparr>)\<lparr>bot_lvl_nodes := ns\<rparr>"
    by blast
  then have cs': "cs' = cs\<lparr>bot_lvl_nodes := ns, n_bot_lvl_nodes := n_bot_lvl_nodes cs + 1\<rparr>" by simp
  have len: "length ns = length (bot_lvl_nodes cs)" using S(3) by (simp add: cs')
  show n: "n_bot_lvl_nodes cs' = n_bot_lvl_nodes cs + 1" by (simp add: cs')
  show has: "has_cnode cs' = has_cnode cs"
    using i nd(2) by (auto simp: has_cnode_def fun_eq_iff S(1) n less_Suc_eq)
  show "grown cs cs'"
  proof (rule grownI [OF shape cs' len])
    show "\<exists>nd. get_node cs' k = Some nd \<and> node_ok nd \<and> (k + 1 < n_bot_lvl_nodes cs + 1 \<longrightarrow> n_cnodes nd = 169)"
      if "k < n_bot_lvl_nodes cs + 1" for k
      using that full i nd by (cases "k = i") (auto simp: S(1))
    show "has_cnode cs' s \<and> cnode_bf cs' s = cnode_bf cs s" if "has_cnode cs s" for s
      using that i has by (simp add: cnode_bf_def S(1)) (auto simp: has_cnode_def)
  qed
qed

lemma grown_last_node:
  assumes shape: "lvl_shape cs" and i: "i + 1 = n_bot_lvl_nodes cs" and nd: "get_node cs i = Some nd"
    and nd': "node_ok nd'" "n_cnodes nd \<le> n_cnodes nd'" "\<And>j. j < 169 \<Longrightarrow> bl_bf (cnodes nd' ! j) = bl_bf (cnodes nd ! j)"
    and set: "set_node cs i (Some nd') = Some cs'"
  shows "grown cs cs'"
    and "has_cnode cs' s \<longleftrightarrow> has_cnode cs s \<or> s div 169 = i \<and> s mod 169 < n_cnodes nd'"
    and "cnode_bf cs' = cnode_bf cs" and "n_bot_lvl_nodes cs' = n_bot_lvl_nodes cs"
proof -
  note S = get_node_set_node [OF set]
  from S(2) obtain ns where cs': "cs' = cs\<lparr>bot_lvl_nodes := ns\<rparr>" by blast
  have len: "length ns = length (bot_lvl_nodes cs)" using S(3) by (simp add: cs')
  show n: "n_bot_lvl_nodes cs' = n_bot_lvl_nodes cs" by (simp add: cs')
  show has: "has_cnode cs' s \<longleftrightarrow> has_cnode cs s \<or> s div 169 = i \<and> s mod 169 < n_cnodes nd'" for s
    using i nd nd'(2) by (auto simp: has_cnode_def S(1) n)
  show bf: "cnode_bf cs' = cnode_bf cs"
    using nd nd'(3) by (auto simp: cnode_bf_def S(1) fun_eq_iff)
  show "grown cs cs'"
  proof (rule grownI [OF shape _ len])
    show "cs' = cs\<lparr>bot_lvl_nodes := ns, n_bot_lvl_nodes := n_bot_lvl_nodes cs\<rparr>" by (simp add: cs')
    show "\<exists>nd. get_node cs' k = Some nd \<and> node_ok nd \<and> (k + 1 < n_bot_lvl_nodes cs \<longrightarrow> n_cnodes nd = 169)"
      if "k < n_bot_lvl_nodes cs" for k
      using lvl_shape_nth [OF shape that] that i nd'(1) by (cases "k = i") (auto simp: S(1))
    show "has_cnode cs' s \<and> cnode_bf cs' s = cnode_bf cs s" if "has_cnode cs s" for s
      using that by (simp add: has bf)
  qed
qed

lemma ensure_node_spec:
  assumes shape: "lvl_shape cs" and grow: "grow_at cs t"
    and run: "ensure_node K cs (t div 169) used w = Some (ok, used', cs', w')"
  shows "grown cs cs'" and "has_cnode cs' = has_cnode cs" and "ok \<Longrightarrow> t div 169 < n_bot_lvl_nodes cs'"
proof -
  have "grown cs cs' \<and> has_cnode cs' = has_cnode cs \<and> (ok \<longrightarrow> t div 169 < n_bot_lvl_nodes cs')"
  proof (cases "n_bot_lvl_nodes cs \<le> t div 169")
    case False
    with run shape show ?thesis by (auto simp: ensure_node_def grown_refl)
  next
    case True
    with grow_at_position [OF shape grow] have i: "t div 169 = n_bot_lvl_nodes cs"
      and full: "\<forall>i < n_bot_lvl_nodes cs. \<exists>nd. get_node cs i = Some nd \<and> node_ok nd \<and> n_cnodes nd = 169"
      by auto
    from run True consider "cs' = cs" "\<not> ok" | "set_node cs (t div 169) None = Some cs'" "\<not> ok"
      | cs1 untyped frame where "set_node cs (t div 169) (Some zero_node) = Some cs1"
        "init_bot_lvl_node cs1 (t div 169) untyped frame = Some cs'"
      by (auto simp: ensure_node_def Let_def split: if_splits prod.splits elim!: bind_SomeE)
    then show ?thesis
    proof cases
      case 1
      then show ?thesis using shape by (simp add: grown_refl)
    next
      case 2
      then show ?thesis using grown_null_node [OF shape True] by simp
    next
      case 3
      have "set_node (cs\<lparr>n_bot_lvl_nodes := n_bot_lvl_nodes cs + 1\<rparr>) (t div 169)
              (Some (zero_node\<lparr>n_cnodes := 0, bn_untyped := untyped, bn_frame := frame\<rparr>)) = Some cs'"
        using 3 by (auto simp: init_bot_lvl_node_def set_node_def arr_set_def split: if_splits elim!: bind_SomeE)
      from grown_new_node [OF shape i full zero_node_ok _ this] show ?thesis by (simp add: i)
    qed
  qed
  then show "grown cs cs'" "has_cnode cs' = has_cnode cs" "ok \<Longrightarrow> t div 169 < n_bot_lvl_nodes cs'" by auto
qed

lemma ensure_cnode_spec:
  assumes shape: "lvl_shape cs" and grow: "grow_at cs t" and t: "t div 169 < n_bot_lvl_nodes cs"
    and run: "ensure_cnode K cs (t * 128) w = Some (ok, cs', w')"
  shows "grown cs cs'" and "has_cnode cs' = (if ok then (has_cnode cs)(t := True) else has_cnode cs)"
    and "cnode_bf cs' t = [0, 0]"
proof -
  from grow_at_position [OF shape grow] t obtain nd where
    nd: "get_node cs (t div 169) = Some nd" "node_ok nd" "n_cnodes nd = t mod 169"
    and i: "t div 169 + 1 = n_bot_lvl_nodes cs" by auto
  let ?cns = "\<lambda>u. (cnodes nd)[t mod 169 := (cnodes nd ! (t mod 169))\<lparr>bl_untyped := u\<rparr>]"
  from nd run obtain u nd' where nd': "nd' = (if ok then nd\<lparr>cnodes := ?cns u, n_cnodes := t mod 169 + 1\<rparr> else nd\<lparr>cnodes := ?cns u\<rparr>)"
    and set: "set_node cs (t div 169) (Some nd') = Some cs'"
    by (auto simp: ensure_cnode_def Let_def set_node_def arr_set_def split: if_splits prod.splits elim!: bind_SomeE)
  have ok: "node_ok nd'" using nd by (auto simp: node_ok_def nd' nth_list_update Suc_le_eq)
  have bf: "bl_bf (cnodes nd' ! j) = bl_bf (cnodes nd ! j)" if "j < 169" for j
    using nd(2) that by (simp add: nd' node_ok_def nth_list_update)
  have n: "n_cnodes nd \<le> n_cnodes nd'" by (simp add: nd' nd(3))
  note G = grown_last_node [OF shape i nd(1) ok n bf set]
  show "grown cs cs'" by (rule G(1))
  have "cnode_bf cs t = [0, 0]" using nd by (simp add: cnode_bf_def node_ok_def)
  then show "cnode_bf cs' t = [0, 0]" by (simp add: G(3))
  have "s div 169 = t div 169 \<and> s mod 169 < t mod 169 \<Longrightarrow> has_cnode cs s" for s
    using nd t by (simp add: has_cnode_def)
  then show "has_cnode cs' = (if ok then (has_cnode cs)(t := True) else has_cnode cs)"
    using cnode_number_eq [of _ t] by (auto simp: fun_eq_iff G(2) nd' nd(3) less_Suc_eq)
qed

lemma ensure_levels_spec:
  assumes shape: "lvl_shape cs" and grow: "grow_at cs t"
    and run: "ensure_levels K cs (t * 128) used w = Some (ok, used', cs', w')"
  shows "grown cs cs'" and "has_cnode cs' = (if ok then (has_cnode cs)(t := True) else has_cnode cs)"
    and "ok \<Longrightarrow> cnode_bf cs' t = [0, 0]"
proof -
  have two: "two_level cs" using shape by (simp add: lvl_shape_def)
  from run two consider "cs' = cs" "\<not> ok"
    | ok1 cs1 w1 where "ensure_node K cs (t div 169) used w = Some (ok1, used', cs1, w1)"
      "\<not> ok1 \<and> \<not> ok \<and> cs' = cs1 \<or> ok1 \<and> ensure_cnode K cs1 (t * 128) w1 = Some (ok, cs', w')"
    by (auto simp: ensure_levels_def Let_def split: if_splits prod.splits elim!: bind_SomeE)
  then have "grown cs cs' \<and> has_cnode cs' = (if ok then (has_cnode cs)(t := True) else has_cnode cs) \<and>
      (ok \<longrightarrow> cnode_bf cs' t = [0, 0])"
  proof cases
    case 1
    then show ?thesis using shape by (simp add: grown_refl)
  next
    case 2
    note N = ensure_node_spec [OF shape grow 2(1)]
    show ?thesis
    proof (cases ok1)
      case True
      with 2(2) have c: "ensure_cnode K cs1 (t * 128) w1 = Some (ok, cs', w')" by simp
      from N have "lvl_shape cs1" "grow_at cs1 t" using grow by (simp_all add: grown_def grow_at_def)
      from ensure_cnode_spec [OF this N(3) [OF True] c] N(1,2) grown_trans show ?thesis by simp blast
    next
      case False
      with 2(2) N show ?thesis by simp
    qed
  qed
  then show "grown cs cs'" "has_cnode cs' = (if ok then (has_cnode cs)(t := True) else has_cnode cs)"
    "ok \<Longrightarrow> cnode_bf cs' t = [0, 0]" by auto
qed

end
