(* ===== verification/Cspace_Proofs.thy ===== *)
theory Cspace_Proofs
  imports Cspace_Levels
begin

text \<open>
  Correctness of the slot allocator of \<open>cspace.c\<close>. For two levels: \<open>cspace_alloc_slot\<close> keeps
  \<open>lvl_ok\<close>, hands out a slot that was not taken, takes at most one further slot (for the
  watermark), and returns, although it calls itself through \<open>refill_watermark\<close>. For one level: it returns
  the least free slot. Both are instances of the interface \<open>slot_allocator\<close>, whose clients never see a
  slot twice.
\<close>

section \<open>Two levels\<close>

definition taken :: "'w cspace_t \<Rightarrow> cptr set" where
  "taken cs = {c. slot_taken cs c}"

text \<open>A state change that takes exactly slot \<open>c\<close>.\<close>

definition takes :: "'w cspace_t \<Rightarrow> cptr \<Rightarrow> 'w cspace_t \<Rightarrow> bool" where
  "takes cs c cs' \<longleftrightarrow> lvl_ok cs' \<and> c \<noteq> 0 \<and> c \<notin> taken cs \<and> taken cs' = insert c (taken cs) \<and>
     c div 128 < CNODE_SLOTS (top_lvl_size_bits cs) \<and>
     has_cnode cs' (c div 128) \<and> \<not> bf_bit (cnode_bf cs' (c div 128)) 127 \<and>
     (\<forall>t. has_cnode cs t \<longrightarrow> has_cnode cs' t \<and> (bf_bit (cnode_bf cs' t) 127 \<longrightarrow> bf_bit (cnode_bf cs t) 127)) \<and>
     watermark cs' = watermark cs \<and> same_rest cs cs'"

lemma first_free_top:
  assumes "lvl_shape cs" and "first_free (top_bf cs) < CNODE_SLOTS (top_lvl_size_bits cs)"
  shows "bf_first_free (BITFIELD_SIZE (top_lvl_size_bits cs)) (top_bf cs) = Some (first_free (top_bf cs))"
    and "\<not> bf_bit (top_bf cs) (first_free (top_bf cs))"
proof -
  let ?t = "first_free (top_bf cs)"
  have len: "length (top_bf cs) = BITFIELD_SIZE (top_lvl_size_bits cs)" using assms by (simp add: lvl_shape_def)
  have "\<not> bf_bit (top_bf cs) (64 * length (top_bf cs))" using bf_bit_less by blast
  from first_free_not [OF this] show not: "\<not> bf_bit (top_bf cs) ?t" by simp
  show "bf_first_free (BITFIELD_SIZE (top_lvl_size_bits cs)) (top_bf cs) = Some ?t"
    using bf_first_free_first [OF len not] has_cnode_slots(1) [OF assms] len by simp
qed

lemma refill_nothing [simp]: "refill_watermark f cs 0 w = Some (cs, w)"
proof -
  have "find (\<lambda>i. (0 :: u64) AND BIT i \<noteq> 0) [0..<WATERMARK_SLOTS] = None" by (simp add: find_None_iff)
  then show ?thesis by (simp add: refill_watermark_def)
qed

lemma cptr_split: "j < 128 \<Longrightarrow> c = t * 128 + j \<longleftrightarrow> c div 128 = t \<and> c mod 128 = (j :: nat)"
  using div_mult_mod_eq [of c 128] by auto

lemma take_bot_slot_takes:
  assumes ok: "lvl_ok cs" and has: "has_cnode cs t" and not: "\<not> bf_bit (top_bf cs) t"
    and t: "t < CNODE_SLOTS (top_lvl_size_bits cs)"
  shows "\<exists>j cs'. take_bot_slot cs (t * 128) t = Some (j, cs') \<and> j < 127 \<and> takes cs (t * 128 + j) cs' \<and>
           has_cnode cs' = has_cnode cs \<and> cnode_bf cs' t = bf_ins j (cnode_bf cs t) \<and>
           top_bf cs' = (if open_bf (cnode_bf cs' t) then top_bf cs else bf_ins t (top_bf cs))"
proof -
  have shape: "lvl_shape cs" and op: "open_bf (cnode_bf cs t)" and all: "has_cnode cs 0" "bf_bit (cnode_bf cs 0) 0"
    "\<And>s. has_cnode cs s \<Longrightarrow> \<not> bf_bit (top_bf cs) s \<Longrightarrow> open_bf (cnode_bf cs s)"
    using ok has not by (simp_all add: lvl_ok_def)
  let ?j = "first_free (cnode_bf cs t)"
  let ?bf = "bf_ins ?j (cnode_bf cs t)"
  obtain cs' where run: "take_bot_slot cs (t * 128) t = Some (?j, cs')" and shape': "lvl_shape cs'"
    and has': "has_cnode cs' = has_cnode cs" and bf': "cnode_bf cs' = (cnode_bf cs)(t := ?bf)"
    and top': "top_bf cs' = (if open_bf ?bf then top_bf cs else bf_ins t (top_bf cs))"
    and wm: "watermark cs' = watermark cs" and rest: "same_rest cs cs'"
    using take_bot_slot_spec [OF shape has op t] by blast
  note j = open_bf_first [OF op]
  have len: "length (cnode_bf cs t) = 2" using lvl_shape_node [OF shape has] by blast
  have bits: "bf_bit ?bf k \<longleftrightarrow> k = ?j \<or> bf_bit (cnode_bf cs t) k" for k
    using j len by (simp add: bf_bit_ins)
  have tl: "t < 64 * length (top_bf cs)" using has_cnode_slots [OF shape t] by simp
  have "bf_bit (cnode_bf cs' 0) 0" using bits [of 0] all(2) by (cases "t = 0") (simp_all add: bf')
  moreover have "open_bf (cnode_bf cs' s)" if "has_cnode cs' s" "\<not> bf_bit (top_bf cs') s" for s
    using that all(3) tl by (auto simp: has' bf' top' bf_bit_ins split: if_splits)
  ultimately have "lvl_ok cs'" using all(1) shape' by (simp add: lvl_ok_def has')
  moreover have "t * 128 + ?j \<noteq> 0" using j(2) all(2) by (metis add_is_0 mult_is_0 zero_neq_numeral)
  moreover have "t * 128 + ?j \<notin> taken cs" using j by (simp add: taken_def slot_taken_def)
  moreover have "slot_taken cs' c \<longleftrightarrow> c = t * 128 + ?j \<or> slot_taken cs c" for c
    using j(1) has cptr_split [of "first_free (cnode_bf cs t)" c t]
    by (auto simp: slot_taken_def has' bf' bits)
  then have "taken cs' = insert (t * 128 + ?j) (taken cs)" by (auto simp: taken_def)
  moreover have "\<not> bf_bit (cnode_bf cs' t) 127" using op j(1) by (simp add: bf' bits open_bf_def)
  moreover have "bf_bit (cnode_bf cs' s) 127 \<Longrightarrow> bf_bit (cnode_bf cs s) 127" for s
    using j(1) by (simp add: bf' bits split: if_splits)
  ultimately have "takes cs (t * 128 + ?j) cs'"
    using j wm rest has has' t by (simp add: takes_def)
  with run j(1) has' top' bf' show ?thesis by simp
qed

lemma alloc_slot_present:
  assumes ok: "lvl_ok cs" and t: "t = first_free (top_bf cs)" "t < CNODE_SLOTS (top_lvl_size_bits cs)"
    and has: "has_cnode cs t"
  shows "\<exists>j cs'. cspace_alloc_slot K cs w = Some (t * 128 + j, cs', w) \<and> j < 127 \<and> takes cs (t * 128 + j) cs'"
proof -
  have shape: "lvl_shape cs" using ok by (simp add: lvl_ok_def)
  then have two: "two_level cs" by (simp add: lvl_shape_def)
  note T = first_free_top [OF shape, folded t(1), OF t(2)]
  obtain j cs' where take: "take_bot_slot cs (t * 128) t = Some (j, cs')" and "j < 127"
    "takes cs (t * 128 + j) cs'"
    using take_bot_slot_takes [OF ok has T(2) t(2)] by blast
  moreover have "needs_levels cs (t * 128) = Some False"
    using has by (auto simp: needs_levels_def has_cnode_def)
  ultimately show ?thesis
    using two t(2) T by (subst cspace_alloc_slot.simps) (auto simp: mult.commute)
qed

text \<open>What \<open>cspace_alloc_slot\<close> may do: fail and leave the slots alone, or take the slot it returns, and
  perhaps one more for the watermark.\<close>

definition alloc_post :: "'w cspace_t \<Rightarrow> cptr \<Rightarrow> 'w cspace_t \<Rightarrow> bool" where
  "alloc_post cs c cs' \<longleftrightarrow> lvl_ok cs' \<and> same_rest cs cs' \<and>
     (\<forall>t. has_cnode cs t \<longrightarrow> has_cnode cs' t \<and> (bf_bit (cnode_bf cs' t) 127 \<longrightarrow> bf_bit (cnode_bf cs t) 127)) \<and>
     (if c = 0 then taken cs' = taken cs \<and> watermark cs' = watermark cs
      else c \<notin> taken cs \<and> c div 128 < CNODE_SLOTS (top_lvl_size_bits cs) \<and> has_cnode cs' (c div 128) \<and> \<not> bf_bit (cnode_bf cs' (c div 128)) 127 \<and>
        (taken cs' = insert c (taken cs) \<and> watermark cs' = watermark cs \<or>
         (\<exists>d i. d \<noteq> 0 \<and> d \<noteq> c \<and> d \<notin> taken cs \<and> i < 4 \<and>
            taken cs' = insert c (insert d (taken cs)) \<and> watermark cs' = (watermark cs)[i := d])))"

lemma takes_post: "takes cs c cs' \<Longrightarrow> alloc_post cs c cs'"
  by (simp add: takes_def alloc_post_def)

lemma slot_taken_grown: "grown cs cs' \<Longrightarrow> slot_taken cs c \<Longrightarrow> slot_taken cs' c"
  by (simp add: grown_def slot_taken_def)

lemma open_bf_0: "open_bf [0, 0]"
  by (auto simp: open_bf_def bf_bit_def intro: exI [of _ 0])

lemma grown_ok:
  assumes ok: "lvl_ok cs" and gr: "grown cs cs'"
    and has: "has_cnode cs' = (if b then (has_cnode cs)(t := True) else has_cnode cs)"
    and new: "b \<Longrightarrow> cnode_bf cs' t = [0, 0]" and not: "\<not> has_cnode cs t"
  shows "lvl_ok cs'" and "taken cs' = taken cs"
proof -
  have keep: "\<And>s. has_cnode cs s \<Longrightarrow> has_cnode cs' s \<and> cnode_bf cs' s = cnode_bf cs s"
    and shape: "lvl_shape cs'" and top: "top_bf cs' = top_bf cs"
    using gr by (simp_all add: grown_def)
  have 0: "has_cnode cs 0" "bf_bit (cnode_bf cs 0) 0"
    and op: "\<And>s. has_cnode cs s \<Longrightarrow> \<not> bf_bit (top_bf cs) s \<Longrightarrow> open_bf (cnode_bf cs s)"
    using ok by (simp_all add: lvl_ok_def)
  have "open_bf (cnode_bf cs' s)" if "has_cnode cs' s" "\<not> bf_bit (top_bf cs') s" for s
    using that op [of s] keep [of s] new open_bf_0 top by (cases "s = t") (auto simp: has split: if_splits)
  with 0 keep [of 0] shape show "lvl_ok cs'" by (simp add: lvl_ok_def)
  have "slot_taken cs' c \<longleftrightarrow> slot_taken cs c" for c
    using keep [of "c div 128"] new not
    by (cases "c div 128 = t") (auto simp: slot_taken_def has bf_bit_def nth_Cons' split: if_splits)
  then show "taken cs' = taken cs" by (simp add: taken_def)
qed

lemma open_bf_ins:
  assumes "j < 127"
  shows "open_bf (bf_ins j [0, 0])"
proof -
  have b: "bf_bit (bf_ins j [0, 0]) k \<longleftrightarrow> k = j \<or> bf_bit [0, 0] k" for k using assms by (simp add: bf_bit_ins)
  have z: "\<not> bf_bit [0, 0] k" for k by (auto simp: bf_bit_def nth_Cons')
  have "\<exists>k < 127. k \<noteq> j" by (intro exI [of _ "if j = 0 then 1 else 0"]) simp
  with assms show ?thesis by (simp add: open_bf_def b z)
qed

lemma lvl_ok_watermark:
  "lvl_ok cs \<Longrightarrow> length m = 4 \<Longrightarrow> lvl_ok (cs\<lparr>watermark := m\<rparr>)"
  "taken (cs\<lparr>watermark := m\<rparr>) = taken cs" "same_rest cs (cs\<lparr>watermark := m\<rparr>)"
  by (simp_all add: lvl_ok_def lvl_shape_def taken_def slot_taken_def same_rest_def)

lemma takes_grown:
  assumes gr: "grown cs cs1" and tkn: "taken cs1 = taken cs" and tk: "takes cs1 c cs2"
  shows "takes cs c cs2"
proof -
  have "watermark cs1 = watermark cs" "same_rest cs cs2" "top_lvl_size_bits cs1 = top_lvl_size_bits cs"
    using gr tk same_rest_trans [of cs cs1 cs2] by (simp_all add: grown_def takes_def same_rest_def)
  moreover have "has_cnode cs2 t \<and> (bf_bit (cnode_bf cs2 t) 127 \<longrightarrow> bf_bit (cnode_bf cs t) 127)"
    if "has_cnode cs t" for t
  proof -
    have 1: "has_cnode cs1 t" "cnode_bf cs1 t = cnode_bf cs t" using gr that by (simp_all add: grown_def)
    from tk 1(1) have "has_cnode cs2 t" "bf_bit (cnode_bf cs2 t) 127 \<longrightarrow> bf_bit (cnode_bf cs1 t) 127"
      unfolding takes_def by blast+
    with 1 show ?thesis by simp
  qed
  ultimately show ?thesis using tk tkn by (simp add: takes_def)
qed

lemma takes_takes_post:
  assumes c: "takes cs c cs2" and d: "takes cs2 d cs3" and i: "i < 4"
  shows "alloc_post cs c (cs3\<lparr>watermark := (watermark cs3)[i := d]\<rparr>)"
proof -
  let ?cs' = "cs3\<lparr>watermark := (watermark cs3)[i := d]\<rparr>"
  have ok: "lvl_ok cs3" "same_rest cs cs3" "watermark cs3 = watermark cs"
    and t2: "taken cs2 = insert c (taken cs)" and t3: "taken cs3 = insert d (taken cs2)"
    and nz: "c \<noteq> 0" "d \<noteq> 0" "c \<notin> taken cs" "d \<notin> taken cs2"
    and cb: "c div 128 < CNODE_SLOTS (top_lvl_size_bits cs)"
    using c d same_rest_trans [of cs cs2 cs3] by (simp_all add: takes_def)
  have k2: "has_cnode cs t \<Longrightarrow> has_cnode cs2 t \<and> (bf_bit (cnode_bf cs2 t) 127 \<longrightarrow> bf_bit (cnode_bf cs t) 127)"
    and k3: "has_cnode cs2 t \<Longrightarrow> has_cnode cs3 t \<and> (bf_bit (cnode_bf cs3 t) 127 \<longrightarrow> bf_bit (cnode_bf cs2 t) 127)"
    and c2: "has_cnode cs2 (c div 128)" "\<not> bf_bit (cnode_bf cs2 (c div 128)) 127" for t
    using c d by (simp_all add: takes_def)
  have "length (watermark cs3) = 4" using ok(1) by (simp add: lvl_ok_def lvl_shape_def)
  then have "lvl_ok ?cs'" "taken ?cs' = insert c (insert d (taken cs))" "same_rest cs ?cs'"
    "watermark ?cs' = (watermark cs)[i := d]"
    using lvl_ok_watermark [where cs = cs3 and m = "(watermark cs3)[i := d]"] ok t2 t3 same_rest_trans [of cs cs3 ?cs']
    by (simp_all add: insert_commute)
  moreover have "d \<noteq> c" "d \<notin> taken cs" using nz(4) t2 by auto
  moreover have "has_cnode ?cs' (c div 128)" "\<not> bf_bit (cnode_bf ?cs' (c div 128)) 127"
    using k3 [of "c div 128"] c2 by auto
  moreover have "\<forall>t. has_cnode cs t \<longrightarrow> has_cnode ?cs' t \<and> (bf_bit (cnode_bf ?cs' t) 127 \<longrightarrow> bf_bit (cnode_bf cs t) 127)"
    using k2 k3 by auto
  moreover from calculation have "\<exists>d i. d \<noteq> 0 \<and> d \<noteq> c \<and> d \<notin> taken cs \<and> i < 4 \<and>
      taken ?cs' = insert c (insert d (taken cs)) \<and> watermark ?cs' = (watermark cs)[i := d]"
    using i nz(2) by blast
  ultimately show ?thesis using nz(1,3) cb unfolding alloc_post_def by (intro conjI) (simp_all only: if_False simp_thms)
qed

text \<open>Refilling one watermark slot after \<open>c\<close> was taken from cnode \<open>t\<close>, which is still the first open one.\<close>

lemma refill_watermark_post:
  assumes tk: "takes cs c cs2" and t: "t = first_free (top_bf cs2)" "t < CNODE_SLOTS (top_lvl_size_bits cs2)"
    and has: "has_cnode cs2 t"
  shows "\<exists>cs'. refill_watermark (cspace_alloc_slot K) cs2 used w = Some (cs', w) \<and> alloc_post cs c cs'"
proof (cases "find (\<lambda>i. used AND BIT i \<noteq> 0) [0..<WATERMARK_SLOTS]")
  case None
  then have "refill_watermark (cspace_alloc_slot K) cs2 used w = Some (cs2, w)" by (simp add: refill_watermark_def)
  with takes_post [OF tk] show ?thesis by blast
next
  case (Some i)
  then have i: "i < 4" by (auto simp: find_Some_iff)
  have ok2: "lvl_ok cs2" using tk by (simp add: takes_def)
  obtain j cs3 where run: "cspace_alloc_slot K cs2 w = Some (t * 128 + j, cs3, w)" "j < 127"
    and tk3: "takes cs2 (t * 128 + j) cs3"
    using alloc_slot_present [OF ok2 t has, of K w] by blast
  let ?d = "t * 128 + j"
  let ?cs' = "cs3\<lparr>watermark := (watermark cs3)[i := ?d]\<rparr>"
  have "lvl_ok cs3" using tk3 by (simp add: takes_def)
  then have "length (watermark cs3) = 4" by (simp add: lvl_ok_def lvl_shape_def)
  with Some run i have "refill_watermark (cspace_alloc_slot K) cs2 used w = Some (?cs', w)"
    by (simp add: refill_watermark_def)
  moreover have "alloc_post cs c ?cs'" using takes_takes_post [OF tk tk3 i] .
  ultimately show ?thesis by blast
qed

lemma alloc_slot_grow:
  assumes ok: "lvl_ok cs" and t: "t = first_free (top_bf cs)" "t < CNODE_SLOTS (top_lvl_size_bits cs)"
    and has: "\<not> has_cnode cs t"
    and ens: "ensure_levels K cs (t * 128) 0 w = Some (b, used, cs1, w1)"
  shows "\<exists>c cs'. cspace_alloc_slot K cs w = Some (c, cs', w1) \<and> alloc_post cs c cs' \<and> (c = 0 \<longleftrightarrow> \<not> b)"
proof -
  have shape: "lvl_shape cs" using ok by (simp add: lvl_ok_def)
  then have two: "two_level cs" by (simp add: lvl_shape_def)
  note T = first_free_top [OF shape, folded t(1), OF t(2)]
  have "\<forall>s < t. bf_bit (top_bf cs) s" using t(1) first_free_not leD by blast
  then have grow: "grow_at cs t" using grow_at_first [OF shape _ has] by blast
  have need: "needs_levels cs (t * 128) = Some True"
    using has lvl_shape_nth [OF shape, of "t div 169"]
    by (auto simp: needs_levels_def has_cnode_def not_less)
  note E = ensure_levels_spec [OF shape grow ens]
  note G = grown_ok [OF ok E has]
  have gr: "top_bf cs1 = top_bf cs" "watermark cs1 = watermark cs" "same_rest cs cs1"
    and keep: "\<And>s. has_cnode cs s \<Longrightarrow> has_cnode cs1 s \<and> cnode_bf cs1 s = cnode_bf cs s"
    using E(1) by (simp_all add: grown_def)
  show ?thesis
  proof (cases b)
    case False
    have "cspace_alloc_slot K cs w = Some (0, cs1, w1)"
      using two t(2) T need ens False
      by (subst cspace_alloc_slot.simps) (simp add: mult.commute seL4_CapNull_def)
    moreover have "alloc_post cs 0 cs1" using G gr keep by (simp add: alloc_post_def)
    ultimately show ?thesis using False by blast
  next
    case True
    have has1: "has_cnode cs1 t" and t1: "t < CNODE_SLOTS (top_lvl_size_bits cs1)"
      and not1: "\<not> bf_bit (top_bf cs1) t"
      using E(2) True t(2) T(2) gr by (simp_all add: same_rest_def)
    obtain j cs2 where take: "take_bot_slot cs1 (t * 128) t = Some (j, cs2)" "j < 127"
      and tk: "takes cs1 (t * 128 + j) cs2" and has2: "has_cnode cs2 = has_cnode cs1"
      and bf2: "cnode_bf cs2 t = bf_ins j (cnode_bf cs1 t)"
      and top2: "top_bf cs2 = (if open_bf (cnode_bf cs2 t) then top_bf cs1 else bf_ins t (top_bf cs1))"
      using take_bot_slot_takes [OF G(1) has1 not1 t1] by blast
    have "open_bf (cnode_bf cs2 t)" using E(3) [OF True] open_bf_ins [OF take(2)] by (simp add: bf2)
    with top2 gr t tk have t2: "t = first_free (top_bf cs2)" "t < CNODE_SLOTS (top_lvl_size_bits cs2)"
      by (simp_all add: takes_def same_rest_def)
    have tkc: "takes cs (t * 128 + j) cs2"
      using takes_grown [OF E(1) G(2) tk] .
    obtain cs' where refill: "refill_watermark (cspace_alloc_slot K) cs2 used w1 = Some (cs', w1)"
      and post: "alloc_post cs (t * 128 + j) cs'"
      using refill_watermark_post [OF tkc t2, of K used w1] has2 has1 by auto
    have "cspace_alloc_slot K cs w = Some (t * 128 + j, cs', w1)"
      using two t(2) T need ens True take refill
      by (subst cspace_alloc_slot.simps) (simp add: mult.commute)
    moreover have "t * 128 + j \<noteq> 0" using tkc by (simp add: takes_def)
    ultimately show ?thesis using post True by (intro exI [of _ "t * 128 + j"] exI [of _ cs']) simp
  qed
qed

lemma alloc_slot_top:
  assumes shape: "lvl_shape cs" and run: "cspace_alloc_slot K cs w = Some r"
  shows "first_free (top_bf cs) < CNODE_SLOTS (top_lvl_size_bits cs)"
proof -
  have len: "length (top_bf cs) = BITFIELD_SIZE (top_lvl_size_bits cs)" "11 \<le> top_lvl_size_bits cs"
    using shape by (simp_all add: lvl_shape_def)
  from run obtain n where n: "bf_first_free (BITFIELD_SIZE (top_lvl_size_bits cs)) (top_bf cs) = Some n"
    by (subst (asm) cspace_alloc_slot.simps) (auto elim!: bind_SomeE)
  from bf_first_free_SomeD [OF n len(1)] first_free_not [of "top_bf cs" n] show ?thesis
    by (simp add: bitfield_covers len(2))
qed

lemma alloc_slot_grow_at:
  assumes ok: "lvl_ok cs" and has: "\<not> has_cnode cs (first_free (top_bf cs))"
  shows "grow_at cs (first_free (top_bf cs))"
proof -
  have "\<forall>s < first_free (top_bf cs). bf_bit (top_bf cs) s" using first_free_not leD by blast
  with grow_at_first ok has show ?thesis by (auto simp: lvl_ok_def)
qed

lemma alloc_slot_ensures:
  assumes ok: "lvl_ok cs" and run: "cspace_alloc_slot K cs w = Some (c, cs', w')"
    and has: "\<not> has_cnode cs (first_free (top_bf cs))"
  shows "\<exists>b used cs1 w1. ensure_levels K cs (first_free (top_bf cs) * 128) 0 w = Some (b, used, cs1, w1)"
proof -
  let ?t = "first_free (top_bf cs)"
  have shape: "lvl_shape cs" and two: "two_level cs" using ok by (simp_all add: lvl_ok_def lvl_shape_def)
  note t = alloc_slot_top [OF shape run]
  have need: "needs_levels cs (?t * 128) = Some True"
    using has lvl_shape_nth [OF shape, of "?t div 169"] by (auto simp: needs_levels_def has_cnode_def not_less)
  show ?thesis
    using run first_free_top [OF shape t] t two need
    by (subst (asm) cspace_alloc_slot.simps) (auto simp: mult.commute Let_def elim!: bind_SomeE)
qed

lemma alloc_slot_two_level:
  assumes ok: "lvl_ok cs" and run: "cspace_alloc_slot K cs w = Some (c, cs', w')"
  shows "alloc_post cs c cs'"
proof -
  let ?t = "first_free (top_bf cs)"
  have shape: "lvl_shape cs" and two: "two_level cs" using ok by (simp_all add: lvl_ok_def lvl_shape_def)
  note t = alloc_slot_top [OF shape run]
  show ?thesis
  proof (cases "has_cnode cs ?t")
    case True
    from alloc_slot_present [OF ok refl t True, of K w] run takes_post show ?thesis by auto
  next
    case False
    from alloc_slot_ensures [OF ok run False] obtain b used cs1 w1 where
      ens: "ensure_levels K cs (?t * 128) 0 w = Some (b, used, cs1, w1)" by blast
    from alloc_slot_grow [OF ok refl t False ens] run show ?thesis by auto
  qed
qed

text \<open>The callbacks return, whatever their answer.\<close>

definition alloc_returns :: "'w cspace_alloc_t option \<Rightarrow> bool" where
  "alloc_returns al \<longleftrightarrow> (\<exists>a. al = Some a \<and> (\<forall>k w. fn_alloc_4k_ut a k w \<noteq> None) \<and>
     (\<forall>k u w. fn_free_4k_ut a k u w \<noteq> None) \<and> (\<forall>k f fs u w. fn_map_frame a k f fs u w \<noteq> None))"

lemma alloc_returnsD:
  assumes "alloc_returns al"
  shows "\<exists>u c w'. alloc_4k_untyped al w = Some (u, c, w')" and "\<exists>w'. free_4k_untyped al h w = Some w'"
    and "\<exists>v u' w'. cs_map_frame al f fs u w = Some (v, u', w')"
  using assms unfolding alloc_returns_def alloc_4k_untyped_def free_4k_untyped_def cs_map_frame_def
  by (force simp: not_None_eq)+

lemma retype_helper_returns:
  assumes "alloc_returns (alloc cs)"
  shows "\<exists>u w'. retype_helper K cs ty c w = Some (u, w')"
proof -
  note R = alloc_returnsD [OF assms]
  obtain u d w1 where a: "alloc_4k_untyped (alloc cs) w = Some (u, d, w1)" using R(1) by blast
  obtain e w2 where k: "cspace_untyped_retype K cs d c ty
      (if ty = seL4_CapTableObject then CNODE_SLOT_BITS seL4_PageBits else seL4_PageBits) w1 = (e, w2)" by fastforce
  obtain w3 where f: "free_4k_untyped (alloc cs) u w2 = Some w3" using R(2) by blast
  show ?thesis by (simp add: retype_helper_def a k f Let_def)
qed

lemma ensure_node_returns:
  assumes al: "alloc_returns (alloc cs)" and wm: "length (watermark cs) = 4"
    and i: "i < length (bot_lvl_nodes cs)"
  shows "\<exists>b used' cs' w'. ensure_node K cs i used w = Some (b, used', cs', w') \<and> alloc cs' = alloc cs"
proof -
  let ?f = "watermark cs ! 3"
  obtain u w1 where r: "retype_helper K cs seL4_ARM_SmallPageObject ?f w = Some (u, w1)"
    using retype_helper_returns [OF al] by blast
  obtain v used2 w2 where m: "cs_map_frame (alloc cs) ?f (watermark cs) (used OR BIT 3) w1 = Some (v, used2, w2)"
    using alloc_returnsD(3) [OF al] by blast
  obtain e w3 where d: "K (CNode_Delete (root_cnode cs) ?f seL4_WordBits) w2 = (e, w3)" by fastforce
  obtain w4 where f: "free_4k_untyped (alloc cs) u w3 = Some w4" using alloc_returnsD(2) [OF al] by blast
  show ?thesis
    using i wm by (simp add: ensure_node_def r m f Let_def set_node_def init_bot_lvl_node_def get_node_def
        cspace_delete_def d ex_bool_eq)
qed

lemma ensure_cnode_returns:
  assumes al: "alloc_returns (alloc cs)" and shape: "lvl_shape cs" and t: "t div 169 < n_bot_lvl_nodes cs"
  shows "\<exists>b cs' w'. ensure_cnode K cs (t * 128) w = Some (b, cs', w')"
proof -
  obtain nd where nd: "get_node cs (t div 169) = Some nd" "node_ok nd" using lvl_shape_nth [OF shape t] by blast
  have i: "t div 169 < length (bot_lvl_nodes cs)" using get_node_length [OF nd(1)] .
  obtain u d w1 where a: "alloc_4k_untyped (alloc cs) w = Some (u, d, w1)" using alloc_returnsD(1) [OF al] by blast
  obtain e w2 where k: "K (Untyped_Retype d seL4_CapTableObject 7 (root_cnode cs) 0 0 t 1) w1 = (e, w2)" by fastforce
  obtain w3 where f: "free_4k_untyped (alloc cs) u w2 = Some w3" using alloc_returnsD(2) [OF al] by blast
  have "length (cnodes nd) = 169" using nd(2) by (simp add: node_ok_def)
  with nd i show ?thesis using k by (simp add: ensure_cnode_def a f Let_def set_node_def ex_bool_eq)
qed

lemma alloc_slot_returns:
  assumes ok: "lvl_ok cs" and al: "alloc_returns (alloc cs)"
    and t: "first_free (top_bf cs) < CNODE_SLOTS (top_lvl_size_bits cs)"
  shows "\<exists>c cs' w'. cspace_alloc_slot K cs w = Some (c, cs', w')"
proof (cases "has_cnode cs (first_free (top_bf cs))")
  case True
  from alloc_slot_present [OF ok refl t True] show ?thesis by blast
next
  case False
  let ?t = "first_free (top_bf cs)"
  have shape: "lvl_shape cs" and two: "two_level cs" using ok by (simp_all add: lvl_ok_def lvl_shape_def)
  have "\<forall>s < ?t. bf_bit (top_bf cs) s" using first_free_not leD by blast
  then have grow: "grow_at cs ?t" using grow_at_first [OF shape _ False] by blast
  have wm: "length (watermark cs) = 4" using shape by (simp add: lvl_shape_def)
  obtain b used' cs1 w1 where n: "ensure_node K cs (?t div 169) 0 w = Some (b, used', cs1, w1)"
    and al1: "alloc cs1 = alloc cs"
    using ensure_node_returns [OF al wm has_cnode_slots(2) [OF shape t], of K 0 w] by blast
  note N = ensure_node_spec [OF shape grow n]
  have shape1: "lvl_shape cs1" using N(1) by (simp add: grown_def)
  have "\<exists>r. ensure_levels K cs (?t * 128) 0 w = Some r"
  proof (cases b)
    case True
    obtain r where "ensure_cnode K cs1 (?t * 128) w1 = Some r"
      using ensure_cnode_returns [of cs1 ?t K w1] al al1 shape1 N(3) True by auto
    with n two show ?thesis by (cases r) (simp add: ensure_levels_def Let_def ex_bool_eq)
  next
    case False
    with n two show ?thesis by (simp add: ensure_levels_def Let_def ex_bool_eq)
  qed
  then obtain b used cs1 w1 where "ensure_levels K cs (?t * 128) 0 w = Some (b, used, cs1, w1)" by (metis prod_cases4)
  from alloc_slot_grow [OF ok refl t False this] show ?thesis by blast
qed

lemma free_slot_two_level:
  assumes ok: "lvl_ok cs" and c: "c \<noteq> 0" "c \<in> taken cs" "c div 128 < CNODE_SLOTS (top_lvl_size_bits cs)"
    and last: "\<not> bf_bit (cnode_bf cs (c div 128)) 127"
  shows "\<exists>cs'. cspace_free_slot cs c = Some cs' \<and> lvl_ok cs' \<and> taken cs' = taken cs - {c} \<and>
           has_cnode cs' = has_cnode cs \<and> (\<forall>t. bf_bit (cnode_bf cs' t) 127 \<longrightarrow> bf_bit (cnode_bf cs t) 127) \<and>
           watermark cs' = watermark cs \<and> same_rest cs cs'"
proof -
  let ?t = "c div 128" and ?j = "c mod 128"
  have shape: "lvl_shape cs" and 0: "has_cnode cs 0" "bf_bit (cnode_bf cs 0) 0"
    and op: "\<And>s. has_cnode cs s \<Longrightarrow> \<not> bf_bit (top_bf cs) s \<Longrightarrow> open_bf (cnode_bf cs s)"
    using ok by (simp_all add: lvl_ok_def)
  have has: "has_cnode cs ?t" and tk: "bf_bit (cnode_bf cs ?t) ?j" using c(2) by (simp_all add: taken_def slot_taken_def)
  obtain cs' where run: "cspace_free_slot cs c = Some cs'" and shape': "lvl_shape cs'"
    and has': "has_cnode cs' = has_cnode cs"
    and bf': "cnode_bf cs' = (cnode_bf cs)(?t := bf_del ?j (cnode_bf cs ?t))"
    and top': "top_bf cs' = bf_del ?t (top_bf cs)" and rest: "watermark cs' = watermark cs" "same_rest cs cs'"
    using free_slot_spec [OF shape has c(1,3)] by blast
  have len: "length (cnode_bf cs ?t) = 2" using lvl_shape_node [OF shape has] by blast
  have bits: "bf_bit (bf_del ?j (cnode_bf cs ?t)) k \<longleftrightarrow> k \<noteq> ?j \<and> bf_bit (cnode_bf cs ?t) k" for k
    using len by (simp add: bf_bit_del)
  have tbits: "bf_bit (top_bf cs') s \<longleftrightarrow> s \<noteq> ?t \<and> bf_bit (top_bf cs) s" for s
    using has_cnode_slots(1) [OF shape c(3)] by (simp add: top' bf_bit_del)
  have "?j \<noteq> 127" using tk last by metis
  then have j: "?j < 127" using mod_less_divisor [of 128 c] by linarith
  have "open_bf (cnode_bf cs' s)" if "has_cnode cs' s" "\<not> bf_bit (top_bf cs') s" for s
  proof (cases "s = ?t")
    case True
    then show ?thesis using j last by (auto simp: open_bf_def bf' bits)
  next
    case False
    with that op show ?thesis by (simp add: has' bf' tbits)
  qed
  moreover have "bf_bit (cnode_bf cs' 0) 0"
    using 0(2) bits [of 0] c(1) div_mult_mod_eq [of c 128] by (auto simp: bf')
  ultimately have "lvl_ok cs'" using shape' 0(1) by (simp add: lvl_ok_def has')
  moreover have "slot_taken cs' d \<longleftrightarrow> d \<noteq> c \<and> slot_taken cs d" for d
    using div_mult_mod_eq [of c 128] div_mult_mod_eq [of d 128]
    by (cases "d div 128 = ?t") (auto simp: slot_taken_def has' bf' bits)
  then have "taken cs' = taken cs - {c}" by (auto simp: taken_def)
  moreover have "\<forall>t. bf_bit (cnode_bf cs' t) 127 \<longrightarrow> bf_bit (cnode_bf cs t) 127" by (simp add: bf' bits)
  ultimately show ?thesis using run has' rest by blast
qed

end
