(* ===== verification/Cspace_Slots.thy ===== *)
theory Cspace_Slots
  imports Cspace_Proofs
begin

text \<open>
  The interface of a slot allocator, as the rest of SOS relies on it, with the one and the two level
  capability spaces as its instances, and the properties of \<open>cspace_alloc_slot\<close> and \<open>cspace_free_slot\<close>.
\<close>

section \<open>Clients of a slot allocator\<close>

datatype slot_call = Alloc_Slot | Free_Slot cptr

text \<open>A client allocates slots and frees slots that it holds, in any order.\<close>

fun slot_run ::
    "('s \<Rightarrow> 'w \<Rightarrow> (cptr \<times> 's \<times> 'w) option) \<Rightarrow> ('s \<Rightarrow> cptr \<Rightarrow> 's option) \<Rightarrow> slot_call list \<Rightarrow>
     's \<times> 'w \<times> cptr list \<Rightarrow> ('s \<times> 'w \<times> cptr list) option" where
  "slot_run get_slot put_slot [] st = Some st"
| "slot_run get_slot put_slot (Alloc_Slot # calls) (s, w, held) = do {
     (c, s, w) \<leftarrow> get_slot s w;
     slot_run get_slot put_slot calls (s, w, if c = 0 then held else held @ [c])
   }"
| "slot_run get_slot put_slot (Free_Slot c # calls) (s, w, held) =
     (if c \<in> set held then do {
        s \<leftarrow> put_slot s c;
        slot_run get_slot put_slot calls (s, w, remove1 c held)
      } else slot_run get_slot put_slot calls (s, w, held))"

text \<open>
  \<open>used s\<close> are the slots in use, \<open>reserved s\<close> those the allocator keeps for itself, and \<open>freeable s c\<close>
  that \<open>c\<close> came from the allocator.
\<close>

locale slot_allocator =
  fixes inv :: "'s \<Rightarrow> bool" and used :: "'s \<Rightarrow> cptr set" and reserved :: "'s \<Rightarrow> cptr set"
    and freeable :: "'s \<Rightarrow> cptr \<Rightarrow> bool"
    and get_slot :: "'s \<Rightarrow> 'w \<Rightarrow> (cptr \<times> 's \<times> 'w) option" and put_slot :: "'s \<Rightarrow> cptr \<Rightarrow> 's option"
  assumes alloc_inv: "inv s \<Longrightarrow> get_slot s w = Some (c, s', w') \<Longrightarrow> inv s'"
    and alloc_fresh: "inv s \<Longrightarrow> get_slot s w = Some (c, s', w') \<Longrightarrow> c \<noteq> 0 \<Longrightarrow>
      c \<notin> used s \<and> c \<in> used s' \<and> freeable s' c \<and> c \<notin> reserved s'"
    and alloc_keeps: "inv s \<Longrightarrow> get_slot s w = Some (c, s', w') \<Longrightarrow> x \<in> used s \<Longrightarrow>
      x \<in> used s' \<and> (freeable s x \<longrightarrow> freeable s' x) \<and> (x \<in> reserved s' \<longrightarrow> x \<in> reserved s)"
    and free_ok: "inv s \<Longrightarrow> c \<noteq> 0 \<Longrightarrow> c \<in> used s \<Longrightarrow> freeable s c \<Longrightarrow> c \<notin> reserved s \<Longrightarrow>
      \<exists>s'. put_slot s c = Some s' \<and> inv s' \<and> used s' = used s - {c} \<and> reserved s' = reserved s \<and>
           (\<forall>x. freeable s x \<longrightarrow> freeable s' x)"
begin

definition client_ok :: "'s \<Rightarrow> cptr list \<Rightarrow> bool" where
  "client_ok s held \<longleftrightarrow> inv s \<and> distinct held \<and> 0 \<notin> set held \<and> set held \<inter> reserved s = {} \<and>
     (\<forall>c \<in> set held. c \<in> used s \<and> freeable s c)"

lemma client_ok_alloc:
  assumes "client_ok s held" and run: "get_slot s w = Some (c, s', w')"
  shows "client_ok s' (if c = 0 then held else held @ [c])"
  using assms alloc_inv [OF _ run] alloc_fresh [OF _ run] alloc_keeps [OF _ run]
  by (auto simp: client_ok_def)

lemma client_ok_free:
  assumes "client_ok s held" and c: "c \<in> set held"
  shows "\<exists>s'. put_slot s c = Some s' \<and> client_ok s' (remove1 c held) \<and> used s' = used s - {c}"
proof -
  have "inv s" "c \<noteq> 0" "c \<in> used s" "freeable s c" "c \<notin> reserved s"
    using assms by (auto simp: client_ok_def)
  from free_ok [OF this] obtain s' where "put_slot s c = Some s'" "inv s'" "used s' = used s - {c}"
    "reserved s' = reserved s" "\<forall>x. freeable s x \<longrightarrow> freeable s' x" by blast
  with assms show ?thesis by (auto simp: client_ok_def)
qed

lemma client_ok_run:
  assumes "slot_run get_slot put_slot calls (s, w, held) = Some (s', w', held')" and "client_ok s held"
  shows "client_ok s' held'"
  using assms
proof (induction calls arbitrary: s w held)
  case (Cons call calls)
  show ?case
  proof (cases call)
    case Alloc_Slot
    with Cons.prems(1) obtain c s1 w1 where "get_slot s w = Some (c, s1, w1)"
      "slot_run get_slot put_slot calls (s1, w1, if c = 0 then held else held @ [c]) = Some (s', w', held')"
      by (auto elim!: bind_SomeE)
    with Cons.IH client_ok_alloc [OF Cons.prems(2)] show ?thesis by blast
  next
    case (Free_Slot c)
    show ?thesis
    proof (cases "c \<in> set held")
      case True
      with client_ok_free [OF Cons.prems(2)] obtain s1 where "put_slot s c = Some s1" "client_ok s1 (remove1 c held)"
        by blast
      with Cons Free_Slot True show ?thesis by simp
    qed (use Cons Free_Slot in simp)
  qed
qed simp

lemma client_distinct:
  assumes "slot_run get_slot put_slot calls (s, w, []) = Some (s', w', held)" and "inv s"
  shows "distinct held \<and> 0 \<notin> set held \<and> set held \<subseteq> used s' \<and> set held \<inter> reserved s' = {} \<and> inv s'"
  using client_ok_run [OF assms(1)] assms(2) by (auto simp: client_ok_def)

end

section \<open>Two levels\<close>

text \<open>The slots of the watermark are taken.\<close>

definition cs2_inv :: "'w cspace_t \<Rightarrow> bool" where
  "cs2_inv cs \<longleftrightarrow> lvl_ok cs \<and> set (watermark cs) - {0} \<subseteq> taken cs"

definition cs2_reserved :: "'w cspace_t \<Rightarrow> cptr set" where
  "cs2_reserved cs = set (watermark cs) - {0}"

definition cs2_freeable :: "'w cspace_t \<Rightarrow> cptr \<Rightarrow> bool" where
  "cs2_freeable cs c \<longleftrightarrow> has_cnode cs (c div 128) \<and> c div 128 < CNODE_SLOTS (top_lvl_size_bits cs) \<and>
     \<not> bf_bit (cnode_bf cs (c div 128)) 127"

lemma set_update_subset: "x \<in> set (xs[i := v]) \<Longrightarrow> x = v \<or> x \<in> set xs"
  using set_update_subset_insert by fastforce

lemma alloc_post_reserved:
  assumes inv: "cs2_inv cs" and post: "alloc_post cs c cs'"
  shows "cs2_inv cs'" and "c \<noteq> 0 \<Longrightarrow> c \<notin> cs2_reserved cs'"
    and "x \<in> taken cs \<Longrightarrow> x \<in> cs2_reserved cs' \<Longrightarrow> x \<in> cs2_reserved cs"
proof -
  have wm: "set (watermark cs) - {0} \<subseteq> taken cs" using inv by (simp add: cs2_inv_def)
  have ok: "lvl_ok cs'" using post by (simp add: alloc_post_def)
  consider "taken cs \<subseteq> taken cs'" "watermark cs' = watermark cs" "c \<noteq> 0 \<Longrightarrow> c \<notin> taken cs"
    | d i where "d \<noteq> c" "d \<notin> taken cs" "c \<notin> taken cs" "taken cs' = insert c (insert d (taken cs))"
      "watermark cs' = (watermark cs)[i := d]"
    using post unfolding alloc_post_def by (auto split: if_splits)
  then have "cs2_inv cs' \<and> (c \<noteq> 0 \<longrightarrow> c \<notin> cs2_reserved cs') \<and>
      (x \<in> taken cs \<longrightarrow> x \<in> cs2_reserved cs' \<longrightarrow> x \<in> cs2_reserved cs)"
  proof cases
    case 1
    with wm ok show ?thesis by (auto simp: cs2_inv_def cs2_reserved_def)
  next
    case 2
    with wm ok show ?thesis by (auto simp: cs2_inv_def cs2_reserved_def dest!: set_update_subset)
  qed
  then show "cs2_inv cs'" "c \<noteq> 0 \<Longrightarrow> c \<notin> cs2_reserved cs'"
    "x \<in> taken cs \<Longrightarrow> x \<in> cs2_reserved cs' \<Longrightarrow> x \<in> cs2_reserved cs" by auto
qed

interpretation two: slot_allocator cs2_inv taken cs2_reserved cs2_freeable "cspace_alloc_slot K" cspace_free_slot
  for K :: "'w kernel"
proof
  fix s s' :: "'w cspace_t" and w w' c x
  assume inv: "cs2_inv s" and run: "cspace_alloc_slot K s w = Some (c, s', w')"
  from inv have "lvl_ok s" by (simp add: cs2_inv_def)
  note post = alloc_slot_two_level [OF this run]
  note R = alloc_post_reserved [OF inv post]
  show "cs2_inv s'" by (rule R(1))
  have tb: "top_lvl_size_bits s' = top_lvl_size_bits s" using post by (simp add: alloc_post_def same_rest_def)
  show "c \<notin> taken s \<and> c \<in> taken s' \<and> cs2_freeable s' c \<and> c \<notin> cs2_reserved s'" if "c \<noteq> 0"
    using post that R(2) tb by (auto simp: alloc_post_def cs2_freeable_def)
  show "x \<in> taken s' \<and> (cs2_freeable s x \<longrightarrow> cs2_freeable s' x) \<and> (x \<in> cs2_reserved s' \<longrightarrow> x \<in> cs2_reserved s)"
    if "x \<in> taken s"
    using post that R(3) tb by (auto simp: alloc_post_def cs2_freeable_def split: if_splits)
next
  fix s :: "'w cspace_t" and c
  assume "cs2_inv s" and c: "c \<noteq> 0" "c \<in> taken s" "cs2_freeable s c" "c \<notin> cs2_reserved s"
  then have ok: "lvl_ok s" and wm: "set (watermark s) - {0} \<subseteq> taken s" by (simp_all add: cs2_inv_def)
  from c(3) have f: "c div 128 < CNODE_SLOTS (top_lvl_size_bits s)" "\<not> bf_bit (cnode_bf s (c div 128)) 127"
    by (simp_all add: cs2_freeable_def)
  from free_slot_two_level [OF ok c(1,2) f] obtain s' where "cspace_free_slot s c = Some s'" "lvl_ok s'"
    "taken s' = taken s - {c}" "has_cnode s' = has_cnode s"
    "\<forall>t. bf_bit (cnode_bf s' t) 127 \<longrightarrow> bf_bit (cnode_bf s t) 127" "watermark s' = watermark s" "same_rest s s'"
    by blast
  with wm c(4) show "\<exists>s'. cspace_free_slot s c = Some s' \<and> cs2_inv s' \<and> taken s' = taken s - {c} \<and>
      cs2_reserved s' = cs2_reserved s \<and> (\<forall>x. cs2_freeable s x \<longrightarrow> cs2_freeable s' x)"
    by (auto simp: cs2_inv_def cs2_reserved_def cs2_freeable_def same_rest_def)
qed

section \<open>One level\<close>

definition cs1_inv :: "'w cspace_t \<Rightarrow> bool" where
  "cs1_inv cs \<longleftrightarrow> \<not> two_level cs \<and> 11 \<le> top_lvl_size_bits cs \<and>
     length (top_bf cs) = BITFIELD_SIZE (top_lvl_size_bits cs) \<and> bf_bit (top_bf cs) 0"

definition cs1_taken :: "'w cspace_t \<Rightarrow> cptr set" where
  "cs1_taken cs = {c. bf_bit (top_bf cs) c}"

lemma cs1_bounds:
  assumes "cs1_inv cs"
  shows "64 * length (top_bf cs) = CNODE_SLOTS (top_lvl_size_bits cs)"
  using assms by (simp add: cs1_inv_def bitfield_covers)

lemma alloc_slot_one_level:
  assumes inv: "cs1_inv cs" and free: "c \<notin> cs1_taken cs" "c < CNODE_SLOTS (top_lvl_size_bits cs)"
  shows "cspace_alloc_slot K cs w =
           Some (first_free (top_bf cs), cs\<lparr>top_bf := bf_ins (first_free (top_bf cs)) (top_bf cs)\<rparr>, w)"
    and "first_free (top_bf cs) < CNODE_SLOTS (top_lvl_size_bits cs)"
proof -
  from inv have len: "length (top_bf cs) = BITFIELD_SIZE (top_lvl_size_bits cs)" and one: "\<not> two_level cs"
    by (simp_all add: cs1_inv_def)
  from free first_free_not [of "top_bf cs" c] show lt: "first_free (top_bf cs) < CNODE_SLOTS (top_lvl_size_bits cs)"
    by (simp add: cs1_taken_def)
  have "bf_first_free (BITFIELD_SIZE (top_lvl_size_bits cs)) (top_bf cs) = Some (first_free (top_bf cs))"
    using bf_first_free_first [OF len, of c] free cs1_bounds [OF inv] len by (simp add: cs1_taken_def)
  moreover have "bf_set_bit (top_bf cs) (first_free (top_bf cs)) = Some (bf_ins (first_free (top_bf cs)) (top_bf cs))"
    using lt cs1_bounds [OF inv] by (simp add: bf_set_ins)
  ultimately show "cspace_alloc_slot K cs w =
      Some (first_free (top_bf cs), cs\<lparr>top_bf := bf_ins (first_free (top_bf cs)) (top_bf cs)\<rparr>, w)"
    using lt one by (subst cspace_alloc_slot.simps) simp
qed

lemma alloc_slot_one_level_full:
  assumes inv: "cs1_inv cs" and full: "\<forall>c < CNODE_SLOTS (top_lvl_size_bits cs). c \<in> cs1_taken cs"
  shows "cspace_alloc_slot K cs w = None"
proof -
  from inv have len: "length (top_bf cs) = BITFIELD_SIZE (top_lvl_size_bits cs)" "11 \<le> top_lvl_size_bits cs"
    by (simp_all add: cs1_inv_def)
  then have "bf_first_free (BITFIELD_SIZE (top_lvl_size_bits cs)) (top_bf cs) = None"
    using full by (intro bf_first_free_full) (simp_all add: bitfield_covers cs1_taken_def)
  then show ?thesis by (subst cspace_alloc_slot.simps) simp
qed

lemma alloc_slot_one_levelE:
  assumes inv: "cs1_inv cs" and run: "cspace_alloc_slot K cs w = Some (c, cs', w')"
  shows "c \<notin> cs1_taken cs" and "cs' = cs\<lparr>top_bf := bf_ins c (top_bf cs)\<rparr>"
    and "c < 64 * length (top_bf cs)" and "\<forall>d < c. d \<in> cs1_taken cs"
proof -
  from run alloc_slot_one_level_full [OF inv] obtain d where d: "d \<notin> cs1_taken cs"
    "d < CNODE_SLOTS (top_lvl_size_bits cs)" by fastforce
  from alloc_slot_one_level(1) [OF inv this, of K w] alloc_slot_one_level(2) [OF inv this] run have c: "c = first_free (top_bf cs)"
    and "c < CNODE_SLOTS (top_lvl_size_bits cs)" and cs': "cs' = cs\<lparr>top_bf := bf_ins c (top_bf cs)\<rparr>" by auto
  then show "c < 64 * length (top_bf cs)" "cs' = cs\<lparr>top_bf := bf_ins c (top_bf cs)\<rparr>"
    using cs1_bounds [OF inv] by auto
  show "c \<notin> cs1_taken cs" using d first_free_not [of "top_bf cs" d] by (simp add: c cs1_taken_def)
  show "\<forall>d < c. d \<in> cs1_taken cs" unfolding c cs1_taken_def using first_free_not leD by blast
qed

lemma free_slot_one_level:
  assumes inv: "cs1_inv cs" and c: "c \<noteq> 0" "c < CNODE_SLOTS (top_lvl_size_bits cs)"
  shows "cspace_free_slot cs c = Some (cs\<lparr>top_bf := bf_del c (top_bf cs)\<rparr>)"
  using assms cs1_bounds [OF inv] by (simp add: cspace_free_slot_def seL4_CapNull_def cs1_inv_def bf_clr_del)

lemma cs1_taken_ins:
  "c < 64 * length (top_bf cs) \<Longrightarrow> cs1_taken (cs\<lparr>top_bf := bf_ins c (top_bf cs)\<rparr>) = insert c (cs1_taken cs)"
  "c < 64 * length (top_bf cs) \<Longrightarrow> cs1_taken (cs\<lparr>top_bf := bf_del c (top_bf cs)\<rparr>) = cs1_taken cs - {c}"
  by (auto simp: cs1_taken_def bf_bit_ins bf_bit_del)

lemma cs1_inv_ins:
  "cs1_inv cs \<Longrightarrow> c < 64 * length (top_bf cs) \<Longrightarrow> cs1_inv (cs\<lparr>top_bf := bf_ins c (top_bf cs)\<rparr>)"
  "cs1_inv cs \<Longrightarrow> c < 64 * length (top_bf cs) \<Longrightarrow> c \<noteq> 0 \<Longrightarrow> cs1_inv (cs\<lparr>top_bf := bf_del c (top_bf cs)\<rparr>)"
  by (simp_all add: cs1_inv_def bf_bit_ins bf_bit_del)

interpretation one: slot_allocator cs1_inv cs1_taken "\<lambda>_. {}" "\<lambda>_ _. True" "cspace_alloc_slot K" cspace_free_slot
  for K :: "'w kernel"
proof
  fix s s' :: "'w cspace_t" and w w' c x
  assume inv: "cs1_inv s" and run: "cspace_alloc_slot K s w = Some (c, s', w')"
  note E = alloc_slot_one_levelE [OF inv run]
  show "cs1_inv s'" using cs1_inv_ins(1) [OF inv E(3)] by (simp add: E(2))
  show "c \<notin> cs1_taken s \<and> c \<in> cs1_taken s' \<and> True \<and> c \<notin> {}" using E(1) cs1_taken_ins(1) [OF E(3)] by (simp add: E(2))
  show "x \<in> cs1_taken s' \<and> (True \<longrightarrow> True) \<and> (x \<in> {} \<longrightarrow> x \<in> {})" if "x \<in> cs1_taken s"
    using that cs1_taken_ins(1) [OF E(3)] by (simp add: E(2))
next
  fix s :: "'w cspace_t" and c
  assume inv: "cs1_inv s" and c: "c \<noteq> 0" "c \<in> cs1_taken s"
  have lt: "c < 64 * length (top_bf s)" using c(2) bf_bit_less by (simp add: cs1_taken_def)
  then have "cspace_free_slot s c = Some (s\<lparr>top_bf := bf_del c (top_bf s)\<rparr>)"
    using free_slot_one_level [OF inv c(1)] cs1_bounds [OF inv] by simp
  with cs1_inv_ins(2) [OF inv lt c(1)] cs1_taken_ins(2) [OF lt]
  show "\<exists>s'. cspace_free_slot s c = Some s' \<and> cs1_inv s' \<and> cs1_taken s' = cs1_taken s - {c} \<and> {} = {} \<and>
      (\<forall>x. True \<longrightarrow> True)" by simp
qed

section \<open>Properties\<close>

text \<open>
  C4. Two levels, safety of \<open>cspace_alloc_slot\<close>: from a well-formed capability space, and whatever the
  kernel and the callbacks answer, a call that returns slot \<open>c\<close> either reports failure (\<open>seL4_CapNull\<close>) and
  takes no slot, or \<open>c\<close> was free and is now taken, together with at most one more slot, which
  replaces an entry of the watermark. The result is well formed.
\<close>

theorem two_level_alloc_fresh:
  assumes "lvl_ok cs" and "cspace_alloc_slot K cs w = Some (c, cs', w')"
  shows "lvl_ok cs' \<and>
     (if c = seL4_CapNull then taken cs' = taken cs \<and> watermark cs' = watermark cs
      else c \<notin> taken cs \<and>
        (taken cs' = insert c (taken cs) \<and> watermark cs' = watermark cs \<or>
         (\<exists>d i. d \<notin> insert c (taken cs) \<and> i < WATERMARK_SLOTS \<and>
            taken cs' = insert c (insert d (taken cs)) \<and> watermark cs' = (watermark cs)[i := d])))"
  using alloc_slot_two_level [OF assms] unfolding alloc_post_def seL4_CapNull_def
  by (auto split: if_splits)

text \<open>
  C6. Two levels, termination: \<open>cspace_alloc_slot\<close> and \<open>refill_watermark\<close> call each other, but the
  allocation returns whenever some second level cnode is not marked as full and the callbacks return.
\<close>

theorem two_level_alloc_returns:
  assumes "lvl_ok cs" and "alloc_returns (alloc cs)"
    and "t < CNODE_SLOTS (top_lvl_size_bits cs)" and "bf_get_bit (top_bf cs) t = Some False"
  shows "\<exists>c cs' w'. cspace_alloc_slot K cs w = Some (c, cs', w')"
proof -
  have "\<not> bf_bit (top_bf cs) t"
    using assms(4) bf_get_bit_eq [of t "top_bf cs"] bf_bit_less [of "top_bf cs" t] by auto
  with first_free_not assms(3) have "first_free (top_bf cs) < CNODE_SLOTS (top_lvl_size_bits cs)"
    using le_less_trans by blast
  from alloc_slot_returns [OF assms(1,2) this] show ?thesis .
qed

text \<open>
  C12. Two levels, free after allocation: freeing a slot that was just allocated succeeds and makes exactly
  that slot free again.
\<close>

theorem two_level_free_allocated:
  assumes "lvl_ok cs" and "cspace_alloc_slot K cs w = Some (c, cs', w')" and "c \<noteq> seL4_CapNull"
  shows "\<exists>cs''. cspace_free_slot cs' c = Some cs'' \<and> lvl_ok cs'' \<and> taken cs'' = taken cs' - {c}"
proof -
  from alloc_slot_two_level [OF assms(1,2)] assms(3) have
    "lvl_ok cs'" "c \<noteq> 0" "c \<in> taken cs'" "c div 128 < CNODE_SLOTS (top_lvl_size_bits cs')"
    "\<not> bf_bit (cnode_bf cs' (c div 128)) 127"
    by (auto simp: alloc_post_def seL4_CapNull_def same_rest_def)
  from free_slot_two_level [OF this] show ?thesis by blast
qed

text \<open>
  C3. Two levels, clients: in any sequence of allocations and frees of slots it holds, a client never holds a
  slot twice, never holds \<open>seL4_CapNull\<close> and never holds a slot of the watermark, which the capability
  space keeps for its own bookkeeping.
\<close>

theorem two_level_slots_distinct:
  assumes "slot_run (cspace_alloc_slot K) cspace_free_slot calls (cs, w, []) = Some (cs', w', held)"
    and "lvl_ok cs" and "set (watermark cs) - {0} \<subseteq> taken cs"
  shows "distinct held \<and> seL4_CapNull \<notin> set held \<and> set held \<subseteq> taken cs' \<and>
     set held \<inter> (set (watermark cs') - {0}) = {} \<and> lvl_ok cs'"
  using two.client_distinct [OF assms(1)] assms(2,3)
  by (simp add: cs2_inv_def cs2_reserved_def seL4_CapNull_def)

text \<open>
  One level: \<open>cspace_alloc_slot\<close> returns the least free slot and takes exactly that slot.
\<close>

lemma one_level_alloc_least:
  assumes "cs1_inv cs" and "d \<notin> cs1_taken cs" and "d < CNODE_SLOTS (top_lvl_size_bits cs)"
  shows "\<exists>c cs'. cspace_alloc_slot K cs w = Some (c, cs', w) \<and> c \<notin> cs1_taken cs \<and>
     (\<forall>x < c. x \<in> cs1_taken cs) \<and> cs1_inv cs' \<and> cs1_taken cs' = insert c (cs1_taken cs)"
proof -
  let ?c = "first_free (top_bf cs)"
  note run = alloc_slot_one_level(1) [OF assms, of K w]
  note E = alloc_slot_one_levelE [OF assms(1) run]
  show ?thesis
    using run E(1,4) cs1_inv_ins(1) [OF assms(1) E(3)] cs1_taken_ins(1) [OF E(3)] by blast
qed

text \<open>
  C23. One level, free: freeing a slot of the capability space frees exactly that slot; a slot number
  beyond the bounds is ignored, except the first one past the end, where the bound check lets through an access
  outside the bit field.
\<close>

theorem one_level_free_slot:
  assumes "cs1_inv cs" and "c \<noteq> seL4_CapNull"
  shows "(c < CNODE_SLOTS (top_lvl_size_bits cs) \<longrightarrow>
           (\<exists>cs'. cspace_free_slot cs c = Some cs' \<and> cs1_inv cs' \<and> cs1_taken cs' = cs1_taken cs - {c})) \<and>
         (CNODE_SLOTS (top_lvl_size_bits cs) < c \<longrightarrow> cspace_free_slot cs c = Some cs) \<and>
         (c = CNODE_SLOTS (top_lvl_size_bits cs) \<longrightarrow> cspace_free_slot cs c = None)"
proof -
  have b: "64 * length (top_bf cs) = CNODE_SLOTS (top_lvl_size_bits cs)" and one: "\<not> two_level cs"
    using cs1_bounds [OF assms(1)] assms(1) by (simp_all add: cs1_inv_def)
  have c0: "c \<noteq> 0" using assms(2) by (simp add: seL4_CapNull_def)
  have "\<exists>cs'. cspace_free_slot cs c = Some cs' \<and> cs1_inv cs' \<and> cs1_taken cs' = cs1_taken cs - {c}"
    if "c < CNODE_SLOTS (top_lvl_size_bits cs)"
    using free_slot_one_level [OF assms(1) c0 that] cs1_inv_ins(2) [OF assms(1) _ c0] cs1_taken_ins(2) [of c cs] that b
    by simp
  moreover have "cspace_free_slot cs c = Some cs" if "CNODE_SLOTS (top_lvl_size_bits cs) < c"
    using that one assms(2) by (simp add: cspace_free_slot_def)
  moreover have "cspace_free_slot cs c = None" if "c = CNODE_SLOTS (top_lvl_size_bits cs)"
  proof -
    have "bf_clr_bit (top_bf cs) c = None" using that b
      by (simp add: bf_clr_bit_def arr_get_def WORD_INDEX_def WORD_BITS_def)
    with that one assms(2) show ?thesis by (simp add: cspace_free_slot_def)
  qed
  ultimately show ?thesis by blast
qed

section \<open>Witnesses\<close>

text \<open>A two level capability space with one cnode whose slot 0 is taken, and a kernel that always succeeds.\<close>

definition cs2_start :: "'w cspace_alloc_t \<Rightarrow> 'w cspace_t" where
  "cs2_start al = \<lparr>root_cnode = 2, two_level = True, top_lvl_size_bits = 12, top_bf_ptr = 0x1000, top_bf = [0, 0],
     bot_lvl_nodes_ptr = 0x2000,
     bot_lvl_nodes = Some (zero_node\<lparr>n_cnodes := 1,
       cnodes := zero_bot_lvl\<lparr>bl_bf := [1, 0]\<rparr> # replicate 168 zero_bot_lvl\<rparr>) # replicate 511 None,
     n_bot_lvl_nodes = 1, cs_untyped = 0x3000, has_bootstrap = True, alloc = Some al, watermark = [0, 0, 0, 0]\<rparr>"

definition cs2_example :: "unit cspace_t" where
  "cs2_example = cs2_start \<lparr>fn_map_frame = \<lambda>_ _ _ u w. Some (0x4000, u, w), fn_alloc_4k_ut = \<lambda>_ w. Some (0x5000, 7, w),
                   fn_free_4k_ut = \<lambda>_ _ w. Some w, al_cookie = None\<rparr>"

definition K_succeeds :: "'w kernel" where
  "K_succeeds i w = (0, w)"

lemma cs2_start_view:
  "has_cnode (cs2_start al) t \<longleftrightarrow> t = 0" "cnode_bf (cs2_start al) 0 = [1, 0]"
proof -
  show "has_cnode (cs2_start al) t \<longleftrightarrow> t = 0"
    by (auto simp: has_cnode_def get_node_def cs2_start_def arr_get_def div_less_iff_less_mult)
  show "cnode_bf (cs2_start al) 0 = [1, 0]" by (simp add: cnode_bf_def get_node_def cs2_start_def arr_get_def)
qed

lemma bf_example: "bf_bit [1, 0] n \<longleftrightarrow> n = 0"
  by (auto simp: bf_bit_def nth_Cons' bit_1_iff div_eq_0_iff dest: div_eq_0_iff [THEN iffD1])

lemma zero_bot_lvl_bf: "bl_bf zero_bot_lvl = [0, 0]"
  by (simp add: zero_bot_lvl_def numeral_2_eq_2)

lemma cs2_start_ok: "lvl_ok (cs2_start al)"
proof -
  have shape: "lvl_shape (cs2_start al)"
    unfolding lvl_shape_def
    by (auto simp: cs2_start_def get_node_def arr_get_def node_ok_def zero_bot_lvl_bf nth_Cons'
        BITFIELD_SIZE_def CNODE_SLOTS_def CNODE_SLOT_BITS_def seL4_SlotBits_def seL4_WordBits_def bf_bit_def)
  have "open_bf [1, 0]" by (auto simp: open_bf_def bf_example intro: exI [of _ 1])
  with shape show ?thesis by (simp add: lvl_ok_def cs2_start_view bf_example)
qed

lemma cs2_example_ok: "lvl_ok cs2_example"
  by (simp only: cs2_example_def cs2_start_ok)

lemma cs2_start_taken: "taken (cs2_start al) = {0}"
  by (auto simp: taken_def slot_taken_def cs2_start_view bf_example div_eq_0_iff)

text \<open>Concrete allocations are evaluated with these rules.\<close>

lemma cspace_12 [simp]: "CNODE_SLOTS 12 = 128" "BITFIELD_SIZE 12 = 2" "CNODE_SLOT_BITS 12 = 7"
  using cspace_sizes by (simp_all add: CNODE_SIZE_BITS_def)

lemmas cs_eval = bf_first_free_def bf_skip_full.simps CTZL_eval find_upt needs_levels_def take_bot_slot_def get_node_def
  NODE_INDEX_def CNODE_INDEX_def bf_set_bit_def WORD_INDEX_def BIT_INDEX_def WORD_BITS_def set_node_def BIT_def
  seL4_CapNull_def

lemma cs2_start_alloc:
  "cspace_alloc_slot K (cs2_start al) w =
     Some (1, (cs2_start al)\<lparr>bot_lvl_nodes := Some (zero_node\<lparr>n_cnodes := 1,
       cnodes := zero_bot_lvl\<lparr>bl_bf := [3, 0]\<rparr> # replicate 168 zero_bot_lvl\<rparr>) # replicate 511 None\<rparr>, w)"
  by (subst cspace_alloc_slot.simps) (simp add: cs2_start_def cs_eval)

lemma first_free_0: "first_free [0, 0] = 0"
proof -
  have "\<not> bf_bit [0, 0] 0" by (simp add: bf_bit_def)
  with first_free_not show ?thesis by blast
qed

lemma cs2_example_alloc:
  "\<exists>cs'. cspace_alloc_slot K_succeeds cs2_example () = Some (1, cs', ())"
  by (simp add: cs2_example_def cs2_start_alloc)

theorem two_level_alloc_fresh_witness:
  "\<exists>cs'. cspace_alloc_slot K_succeeds cs2_example () = Some (1, cs', ()) \<and> 1 \<notin> taken cs2_example \<and> lvl_ok cs'"
proof -
  obtain cs' where run: "cspace_alloc_slot K_succeeds cs2_example () = Some (1, cs', ())"
    using cs2_example_alloc by blast
  with two_level_alloc_fresh [OF cs2_example_ok run] show ?thesis by (simp add: seL4_CapNull_def)
qed

theorem two_level_alloc_returns_witness:
  "\<exists>c cs' w'. cspace_alloc_slot K_succeeds cs2_example () = Some (c, cs', w')"
  by (rule two_level_alloc_returns [OF cs2_example_ok, of 5])
    (simp_all add: alloc_returns_def cs2_example_def cs2_start_def CNODE_SLOTS_def CNODE_SLOT_BITS_def seL4_SlotBits_def
      bf_get_bit_eq bf_bit_def)

theorem two_level_free_allocated_witness:
  "\<exists>c cs' cs''. cspace_alloc_slot K_succeeds cs2_example () = Some (c, cs', ()) \<and>
     cspace_free_slot cs' c = Some cs'' \<and> taken cs'' = taken cs' - {c}"
proof -
  obtain cs' where run: "cspace_alloc_slot K_succeeds cs2_example () = Some (1, cs', ())"
    using cs2_example_alloc by blast
  with two_level_free_allocated [OF cs2_example_ok run] show ?thesis by (auto simp: seL4_CapNull_def)
qed

theorem two_level_slots_distinct_witness:
  "\<exists>cs' held. slot_run (cspace_alloc_slot K_succeeds) cspace_free_slot [Alloc_Slot] (cs2_example, (), []) =
       Some (cs', (), held) \<and> length held = 1 \<and> lvl_ok cs'"
proof -
  obtain cs' where run: "cspace_alloc_slot K_succeeds cs2_example () = Some (1, cs', ())"
    using cs2_example_alloc by blast
  then have "slot_run (cspace_alloc_slot K_succeeds) cspace_free_slot [Alloc_Slot] (cs2_example, (), []) =
      Some (cs', (), [1])" by simp
  moreover have "set (watermark cs2_example) - {0} \<subseteq> taken cs2_example"
    by (simp add: cs2_example_def cs2_start_def)
  ultimately show ?thesis using two_level_slots_distinct [OF _ cs2_example_ok] by fastforce
qed

text \<open>A one level capability space with slot 0 taken, and a full one.\<close>

definition cs1_example :: "u64 list \<Rightarrow> unit cspace_t" where
  "cs1_example bf = cs2_example\<lparr>two_level := False, top_bf := bf\<rparr>"

lemma cs1_example_inv: "cs1_inv (cs1_example [1, 0])" "cs1_inv (cs1_example [- 1, - 1])"
  by (simp_all add: cs1_inv_def cs1_example_def cs2_example_def cs2_start_def BITFIELD_SIZE_def CNODE_SLOTS_def
      CNODE_SLOT_BITS_def seL4_SlotBits_def seL4_WordBits_def bf_bit_def bit_1_iff)

lemma cs1_example_slots: "CNODE_SLOTS (top_lvl_size_bits (cs1_example bf)) = 128"
  by (simp add: cs1_example_def cs2_example_def cs2_start_def CNODE_SLOTS_def CNODE_SLOT_BITS_def seL4_SlotBits_def)

theorem one_level_free_slot_witness:
  "(\<exists>cs'. cspace_free_slot (cs1_example [1, 0]) 5 = Some cs') \<and>
   cspace_free_slot (cs1_example [1, 0]) 200 = Some (cs1_example [1, 0]) \<and>
   cspace_free_slot (cs1_example [1, 0]) 128 = None"
  using one_level_free_slot [OF cs1_example_inv(1), of 5] one_level_free_slot [OF cs1_example_inv(1), of 200]
    one_level_free_slot [OF cs1_example_inv(1), of 128]
  by (simp add: cs1_example_slots seL4_CapNull_def) blast

text \<open>Further example states: the bit field of the first cnode is \<open>b\<close>.\<close>

definition cs2_with :: "u64 \<Rightarrow> 'w cspace_alloc_t \<Rightarrow> 'w cspace_t" where
  "cs2_with b al = (cs2_start al)\<lparr>bot_lvl_nodes := Some (zero_node\<lparr>n_cnodes := 1,
       cnodes := zero_bot_lvl\<lparr>bl_bf := [b, 0]\<rparr> # replicate 168 zero_bot_lvl\<rparr>) # replicate 511 None\<rparr>"

lemma cs2_with_alloc:
  "cspace_alloc_slot K (cs2_with 1 al) w = Some (1, cs2_with 3 al, w)"
  "cspace_alloc_slot K (cs2_with 3 al) w = Some (2, cs2_with 7 al, w)"
  by (subst cspace_alloc_slot.simps, simp add: cs2_with_def cs2_start_def cs_eval)+

lemma cs2_with_fields [simp]: "root_cnode (cs2_with b al) = 2" "two_level (cs2_with b al)"
  by (simp_all add: cs2_with_def cs2_start_def)

end
