(* ===== verification/Ut_Table.thy ===== *)
theory Ut_Table
  imports Sel4_Calls
begin

text \<open>
  The untyped table of \<open>sos/src/ut.c\<close> and \<open>ut.h\<close>: an array with one entry per 4K of memory and singly linked
  free lists of untyped objects, one per size.

  The entries live at addresses: \<open>ut_mem\<close> is the memory that holds \<open>ut_t\<close> structures, a partial map from addresses
  to entries. A \<open>ut_t *\<close> is the address, 0 for \<open>NULL\<close>, where no entry is stored. Dereferencing an address
  without an entry has no defined result. The widths of the bit fields are written out.

  The operations that need the capability space (\<open>ensure_new_structures\<close>, \<open>ut_alloc\<close>) are in \<open>Ut_Alloc\<close>.
\<close>

section \<open>State\<close>

record ut_region_t =
  rg_start :: u64
  rg_end :: u64

record ut_t =
  ut_cap :: cptr
  ut_valid :: bool
  ut_size_bits :: nat
  ut_next :: u64

type_synonym ut_heap = "u64 \<Rightarrow> ut_t option"

record ut_table_t =
  first_paddr :: u64
  untypeds :: u64
  free_untypeds :: "u64 list"
  n_4k_untyped :: nat
  free_structures :: u64
  ut_mem :: ut_heap

definition N_UNTYPED_LISTS :: nat where
  "N_UNTYPED_LISTS = seL4_PageBits - seL4_EndpointBits + 1"

text \<open>\<open>sizeof(ut_t)\<close>.\<close>

definition ut_t_size :: nat where
  "ut_t_size = 16"

definition zero_ut :: ut_t where
  "zero_ut = \<lparr>ut_cap = 0, ut_valid = False, ut_size_bits = 0, ut_next = 0\<rparr>"

text \<open>The index of the list for a size; below the smallest size it is outside the array.\<close>

definition SIZE_BITS_TO_INDEX :: "nat \<Rightarrow> nat option" where
  "SIZE_BITS_TO_INDEX x = (if seL4_EndpointBits \<le> x then Some (x - seL4_EndpointBits) else None)"

section \<open>Operations\<close>

definition push :: "ut_heap \<Rightarrow> u64 \<Rightarrow> u64 \<Rightarrow> (ut_heap \<times> u64) option" where
  "push h head new = do {
     n \<leftarrow> h new;
     Some (h(new \<mapsto> n\<lparr>ut_next := head\<rparr>), new)
   }"

definition pop :: "ut_heap \<Rightarrow> u64 \<Rightarrow> (u64 \<times> u64) option" where
  "pop h head = do {
     n \<leftarrow> h head;
     Some (head, ut_next n)
   }"

text \<open>
  The difference of pointers is signed in C. For a pointer below the table the unsigned quotient is larger by \<open>2^60\<close>, which the product
  with the page size cancels.
\<close>

definition ut_to_paddr :: "ut_table_t \<Rightarrow> u64 \<Rightarrow> u64" where
  "ut_to_paddr T ut = (ut - untypeds T) div of_nat ut_t_size * of_nat PAGE_SIZE_4K + first_paddr T"

definition paddr_to_ut :: "ut_table_t \<Rightarrow> u64 \<Rightarrow> u64" where
  "paddr_to_ut T paddr =
     untypeds T + (paddr - first_paddr T) div of_nat PAGE_SIZE_4K * of_nat ut_t_size"

definition ut_pages_for_region :: "ut_region_t \<Rightarrow> nat" where
  "ut_pages_for_region region =
     BYTES_TO_4K_PAGES (unat ((rg_end region - rg_start region) div of_nat PAGE_SIZE_4K * of_nat ut_t_size))"

definition ut_init :: "u64 \<Rightarrow> ut_region_t \<Rightarrow> ut_table_t \<Rightarrow> ut_table_t" where
  "ut_init memory region T =
     T\<lparr>untypeds := memory, free_untypeds := replicate N_UNTYPED_LISTS 0, first_paddr := rg_start region\<rparr>"

definition ut_size :: "ut_table_t \<Rightarrow> nat" where
  "ut_size T = n_4k_untyped T * PAGE_SIZE_4K"

text \<open>Reading and writing the head of the list of a size.\<close>

definition get_list :: "ut_table_t \<Rightarrow> nat \<Rightarrow> u64 option" where
  "get_list T size_bits = do { i \<leftarrow> SIZE_BITS_TO_INDEX size_bits; arr_get (free_untypeds T) i }"

definition push_list :: "nat \<Rightarrow> u64 \<Rightarrow> ut_table_t \<Rightarrow> ut_table_t option" where
  "push_list size_bits node T = do {
     i \<leftarrow> SIZE_BITS_TO_INDEX size_bits;
     head \<leftarrow> arr_get (free_untypeds T) i;
     (h, head) \<leftarrow> push (ut_mem T) head node;
     ls \<leftarrow> arr_set (free_untypeds T) i head;
     Some (T\<lparr>ut_mem := h, free_untypeds := ls\<rparr>)
   }"

definition pop_list :: "nat \<Rightarrow> ut_table_t \<Rightarrow> (u64 \<times> ut_table_t) option" where
  "pop_list size_bits T = do {
     i \<leftarrow> SIZE_BITS_TO_INDEX size_bits;
     head \<leftarrow> arr_get (free_untypeds T) i;
     (n, head) \<leftarrow> pop (ut_mem T) head;
     ls \<leftarrow> arr_set (free_untypeds T) i head;
     Some (n, T\<lparr>free_untypeds := ls\<rparr>)
   }"

definition upd_ut :: "(ut_t \<Rightarrow> ut_t) \<Rightarrow> u64 \<Rightarrow> ut_table_t \<Rightarrow> ut_table_t option" where
  "upd_ut f p T = do { n \<leftarrow> ut_mem T p; Some (T\<lparr>ut_mem := (ut_mem T)(p \<mapsto> f n)\<rparr>) }"

definition ut_add_one ::
    "u64 \<Rightarrow> bool \<Rightarrow> nat \<Rightarrow> ut_table_t \<times> cptr \<Rightarrow> (ut_table_t \<times> cptr) option" where
  "ut_add_one paddr device i = (\<lambda>(T, cap). do {
     let node = paddr_to_ut T (paddr + of_nat i * of_nat PAGE_SIZE_4K);
     T \<leftarrow> upd_ut (\<lambda>n. n\<lparr>ut_cap := cap mod 2 ^ 20, ut_valid := True\<rparr>) node T;
     let cap = cap + 1;
     if \<not> device then do {
       T \<leftarrow> upd_ut (\<lambda>n. n\<lparr>ut_size_bits := seL4_PageBits mod 2 ^ 4\<rparr>) node T;
       T \<leftarrow> push_list seL4_PageBits node T;
       Some (T\<lparr>n_4k_untyped := n_4k_untyped T + 1\<rparr>, cap)
     } else Some (T, cap)
   })"

definition ut_add_untyped_range ::
    "u64 \<Rightarrow> cptr \<Rightarrow> nat \<Rightarrow> bool \<Rightarrow> ut_table_t \<Rightarrow> ut_table_t option" where
  "ut_add_untyped_range paddr cap n device T = do {
     (T, _) \<leftarrow> for_each (ut_add_one paddr device) [0..<n] (T, cap);
     Some T
   }"

text \<open>The physical address is the second component; the caller may ignore it.\<close>

definition ut_alloc_4k_untyped :: "ut_table_t \<Rightarrow> (u64 \<times> u64 \<times> ut_table_t) option" where
  "ut_alloc_4k_untyped T = do {
     head \<leftarrow> get_list T seL4_PageBits;
     if head = 0 then Some (0, 0, T)
     else do {
       (n, T) \<leftarrow> pop_list seL4_PageBits T;
       Some (n, ut_to_paddr T n, T)
     }
   }"

definition ut_free :: "u64 \<Rightarrow> ut_table_t \<Rightarrow> ut_table_t option" where
  "ut_free node T = do {
     n \<leftarrow> ut_mem T node;
     push_list (ut_size_bits n) node T
   }"

definition ut_alloc_4k_device :: "u64 \<Rightarrow> ut_table_t \<Rightarrow> u64 option" where
  "ut_alloc_4k_device paddr T = do {
     let ut = paddr_to_ut T paddr;
     n \<leftarrow> ut_mem T ut;
     Some (if ut_valid n then ut else 0)
   }"

section \<open>The free lists\<close>

text \<open>\<open>ut_list h p xs\<close>: following \<open>next\<close> from \<open>p\<close> gives the entries \<open>xs\<close> and ends with \<open>NULL\<close>.\<close>

fun ut_list :: "ut_heap \<Rightarrow> u64 \<Rightarrow> u64 list \<Rightarrow> bool" where
  "ut_list h p [] \<longleftrightarrow> p = 0"
| "ut_list h p (x # xs) \<longleftrightarrow> p = x \<and> x \<noteq> 0 \<and> (\<exists>n. h x = Some n \<and> ut_list h (ut_next n) xs)"

lemma ut_list_cong: "(\<And>x. x \<in> set xs \<Longrightarrow> h' x = h x) \<Longrightarrow> ut_list h' p xs = ut_list h p xs"
  by (induction xs arbitrary: p) auto

lemma ut_list_upd [simp]: "x \<notin> set xs \<Longrightarrow> ut_list (h(x := v)) p xs = ut_list h p xs"
  by (rule ut_list_cong) auto

lemma ut_list_push:
  assumes "ut_list h head xs" and "x \<notin> set xs" and "x \<noteq> 0" and "h x = Some n"
  shows "\<exists>h'. push h head x = Some (h', x) \<and> h' = h(x \<mapsto> n\<lparr>ut_next := head\<rparr>) \<and> ut_list h' x (x # xs)"
  using assms by (auto simp: push_def)

lemma ut_list_pop:
  assumes "ut_list h head (x # xs)"
  shows "\<exists>next'. pop h head = Some (x, next') \<and> ut_list h next' xs"
  using assms by (auto simp: pop_def)

text \<open>Changing other fields of an entry keeps the lists.\<close>

lemma ut_list_upd_fields:
  assumes "h x = Some n" and "ut_next n' = ut_next n"
  shows "ut_list (h(x \<mapsto> n')) p xs = ut_list h p xs"
  using assms by (induction xs arbitrary: p) auto

end
