(* ===== verification/Ut_Table_Proofs.thy ===== *)
theory Ut_Table_Proofs
  imports Ut_Table
begin

text \<open>
  Correctness of the untyped table. \<open>ut_inv T F S\<close>: the free list of size \<open>s\<close> represents the list of entries
  \<open>F s\<close>, all of that size, and the spare entries for splitting represent \<open>S\<close>. The theory shows what each
  operation does to these abstract lists.
\<close>

lemma ut_sizes [simp]: "seL4_PageBits = 12" "seL4_EndpointBits = 4" "N_UNTYPED_LISTS = 9" "ut_t_size = 16"
  by (simp_all add: seL4_PageBits_def seL4_EndpointBits_def N_UNTYPED_LISTS_def ut_t_size_def)

lemma SIZE_BITS_TO_INDEX_eq [simp]: "4 \<le> s \<Longrightarrow> SIZE_BITS_TO_INDEX s = Some (s - 4)"
  by (simp add: SIZE_BITS_TO_INDEX_def)

lemma ut_list_unique: "ut_list h p xs \<Longrightarrow> ut_list h p ys \<Longrightarrow> xs = ys"
proof (induction xs arbitrary: p ys)
  case Nil
  then show ?case by (cases ys) auto
next
  case (Cons x xs)
  then show ?case by (cases ys) auto
qed

lemma ut_list_suffix: "ut_list h p (xs @ y # ys) \<Longrightarrow> ut_list h y (y # ys)"
  by (induction xs arbitrary: p) auto

lemma ut_list_distinct: "ut_list h p xs \<Longrightarrow> distinct xs"
proof (induction xs arbitrary: p)
  case (Cons x xs)
  have "x \<notin> set xs"
  proof
    assume "x \<in> set xs"
    then obtain us vs where "xs = us @ x # vs" by (meson split_list)
    then have "ut_list h x (x # vs)" using Cons.prems ut_list_suffix [of h p "x # us" x vs] by simp
    moreover have "ut_list h x (x # xs)" using Cons.prems by simp
    ultimately have "x # vs = x # xs" by (rule ut_list_unique)
    with \<open>xs = us @ x # vs\<close> have "length vs = length us + Suc (length vs)" by simp
    then show False by simp
  qed
  with Cons show ?case by auto
qed simp

lemma ut_list_nonzero: "ut_list h p xs \<Longrightarrow> 0 \<notin> set xs"
  by (induction xs arbitrary: p) auto

section \<open>The invariant\<close>

definition ut_inv :: "ut_table_t \<Rightarrow> (nat \<Rightarrow> u64 list) \<Rightarrow> u64 list \<Rightarrow> bool" where
  "ut_inv T F S \<longleftrightarrow> length (free_untypeds T) = 9 \<and>
     (\<forall>s. 4 \<le> s \<and> s \<le> 12 \<longrightarrow> ut_list (ut_mem T) (free_untypeds T ! (s - 4)) (F s) \<and>
        (\<forall>x \<in> set (F s). \<exists>n. ut_mem T x = Some n \<and> ut_size_bits n = s) \<and> set (F s) \<inter> set S = {}) \<and>
     ut_list (ut_mem T) (free_structures T) S"

lemma ut_invD:
  assumes "ut_inv T F S" and "4 \<le> s" and "s \<le> 12"
  shows "ut_list (ut_mem T) (free_untypeds T ! (s - 4)) (F s)"
    and "x \<in> set (F s) \<Longrightarrow> \<exists>n. ut_mem T x = Some n \<and> ut_size_bits n = s"
    and "set (F s) \<inter> set S = {}" and "s - 4 < length (free_untypeds T)"
  using assms unfolding ut_inv_def by auto

text \<open>An entry on the list of one size is not on that of another.\<close>

lemma ut_inv_disjoint:
  assumes "ut_inv T F S" and "4 \<le> s" "s \<le> 12" "4 \<le> s'" "s' \<le> 12" "s \<noteq> s'" and "x \<in> set (F s)"
  shows "x \<notin> set (F s')"
  using ut_invD(2) [OF assms(1-3), of x] ut_invD(2) [OF assms(1,4,5), of x] assms(6,7) by auto

text \<open>\<open>same_ut T T'\<close>: the fields that the list operations leave alone.\<close>

definition same_ut :: "ut_table_t \<Rightarrow> ut_table_t \<Rightarrow> bool" where
  "same_ut T T' \<longleftrightarrow> first_paddr T' = first_paddr T \<and> untypeds T' = untypeds T \<and> n_4k_untyped T' = n_4k_untyped T"

lemma push_list_ok:
  assumes inv: "ut_inv T F S" and s: "4 \<le> s" "s \<le> 12" and n: "ut_mem T x = Some n" "ut_size_bits n = s"
    and x: "x \<noteq> 0" "x \<notin> set (F s)" "x \<notin> set S"
  shows "\<exists>T' p. push_list s x T = Some T' \<and> ut_inv T' (F(s := x # F s)) S \<and> same_ut T T' \<and>
           free_structures T' = free_structures T \<and> ut_mem T' = (ut_mem T)(x \<mapsto> n\<lparr>ut_next := p\<rparr>)"
proof -
  let ?p = "free_untypeds T ! (s - 4)"
  let ?h = "(ut_mem T)(x \<mapsto> n\<lparr>ut_next := ?p\<rparr>)"
  let ?T = "T\<lparr>ut_mem := ?h, free_untypeds := (free_untypeds T)[s - 4 := x]\<rparr>"
  have len: "s - 4 < length (free_untypeds T)" using ut_invD(4) [OF inv s] .
  have run: "push_list s x T = Some ?T" using s len n by (simp add: push_list_def push_def)
  have "ut_inv ?T (F(s := x # F s)) S"
    unfolding ut_inv_def
  proof (intro conjI allI impI)
    show "length (free_untypeds ?T) = 9" using inv by (simp add: ut_inv_def)
    show "ut_list (ut_mem ?T) (free_structures ?T) S" using inv x by (simp add: ut_inv_def)
  next
    fix r :: nat
    assume r: "4 \<le> r \<and> r \<le> 12"
    note D = ut_invD [OF inv r [THEN conjunct1] r [THEN conjunct2]]
    show "ut_list (ut_mem ?T) (free_untypeds ?T ! (r - 4)) ((F(s := x # F s)) r)"
    proof (cases "r = s")
      case True
      then show ?thesis using D(1) x len by simp
    next
      case False
      have "x \<notin> set (F r)" using False D(2) [of x] n by auto
      moreover have "r - 4 \<noteq> s - 4" using False r s by linarith
      ultimately show ?thesis using D(1) False by simp
    qed
    show "\<forall>y \<in> set ((F(s := x # F s)) r). \<exists>n. ut_mem ?T y = Some n \<and> ut_size_bits n = r"
      using D(2) n by (fastforce split: if_splits)
    show "set ((F(s := x # F s)) r) \<inter> set S = {}" using D(3) x by auto
  qed
  with run show ?thesis by (auto simp: same_ut_def)
qed

lemma pop_list_ok:
  assumes inv: "ut_inv T F S" and s: "4 \<le> s" "s \<le> 12" and F: "F s = x # xs"
  shows "\<exists>T'. pop_list s T = Some (x, T') \<and> ut_inv T' (F(s := xs)) S \<and> same_ut T T' \<and>
           free_structures T' = free_structures T \<and> ut_mem T' = ut_mem T"
proof -
  note D = ut_invD [OF inv s]
  from D(1) F obtain n where n: "ut_mem T x = Some n" "ut_list (ut_mem T) (ut_next n) xs"
    and p: "free_untypeds T ! (s - 4) = x" by auto
  let ?T = "T\<lparr>free_untypeds := (free_untypeds T)[s - 4 := ut_next n]\<rparr>"
  have run: "pop_list s T = Some (x, ?T)" using s D(4) n p by (simp add: pop_list_def pop_def)
  have "ut_inv ?T (F(s := xs)) S"
    unfolding ut_inv_def
  proof (intro conjI allI impI)
    fix r :: nat
    assume r: "4 \<le> r \<and> r \<le> 12"
    note Dr = ut_invD [OF inv r [THEN conjunct1] r [THEN conjunct2]]
    have "r = s \<or> r - 4 \<noteq> s - 4" using r s by linarith
    then show "ut_list (ut_mem ?T) (free_untypeds ?T ! (r - 4)) ((F(s := xs)) r)"
      using Dr(1) n(2) D(4) by auto
    show "\<forall>y \<in> set ((F(s := xs)) r). \<exists>n. ut_mem ?T y = Some n \<and> ut_size_bits n = r"
      "set ((F(s := xs)) r) \<inter> set S = {}"
      using Dr(2,3) F by (auto split: if_splits)
  qed (use inv in \<open>simp_all add: ut_inv_def\<close>)
  with run show ?thesis by (auto simp: same_ut_def)
qed

lemma get_list_eq:
  assumes "ut_inv T F S" and "4 \<le> s" and "s \<le> 12"
  shows "get_list T s = Some (case F s of [] \<Rightarrow> 0 | x # _ \<Rightarrow> x)"
  using ut_invD(1,4) [OF assms] assms by (auto simp: get_list_def split: list.splits)

lemma ut_alloc_4k_ok:
  assumes inv: "ut_inv T F S" and F: "F 12 = x # xs"
  shows "\<exists>T'. ut_alloc_4k_untyped T = Some (x, ut_to_paddr T x, T') \<and> ut_inv T' (F(12 := xs)) S \<and>
           same_ut T T' \<and> free_structures T' = free_structures T \<and> ut_mem T' = ut_mem T"
proof -
  obtain T' where T': "pop_list 12 T = Some (x, T')" "ut_inv T' (F(12 := xs)) S" "same_ut T T'"
    "free_structures T' = free_structures T" "ut_mem T' = ut_mem T"
    using pop_list_ok [OF inv _ _ F] by auto
  have "x \<noteq> 0" using ut_list_nonzero [OF ut_invD(1) [OF inv, of 12]] F by auto
  then have "ut_alloc_4k_untyped T = Some (x, ut_to_paddr T' x, T')"
    using get_list_eq [OF inv, of 12] F T'(1) by (simp add: ut_alloc_4k_untyped_def)
  moreover have "ut_to_paddr T' x = ut_to_paddr T x" using T'(3) by (simp add: ut_to_paddr_def same_ut_def)
  ultimately show ?thesis using T' by auto
qed

lemma ut_alloc_4k_empty:
  assumes inv: "ut_inv T F S" and F: "F 12 = []"
  shows "ut_alloc_4k_untyped T = Some (0, 0, T)"
  using get_list_eq [OF inv, of 12] F by (simp add: ut_alloc_4k_untyped_def)

lemma ut_free_ok:
  assumes inv: "ut_inv T F S" and n: "ut_mem T x = Some n" and s: "4 \<le> ut_size_bits n" "ut_size_bits n \<le> 12"
    and x: "x \<noteq> 0" "x \<notin> set (F (ut_size_bits n))" "x \<notin> set S"
  shows "\<exists>T'. ut_free x T = Some T' \<and> ut_inv T' (F(ut_size_bits n := x # F (ut_size_bits n))) S \<and> same_ut T T'"
  using push_list_ok [OF inv s n refl x] n by (auto simp: ut_free_def)

section \<open>Entries and physical addresses\<close>

lemma word_mult_16_div: "(d div 4096 * 16) div 16 = d div (4096 :: u64)"
proof -
  have "unat d < 2 ^ 64" by (rule unat_u64_less)
  then have "unat d div 4096 * 16 < 2 ^ 64" by linarith
  then have "unat ((d div 4096 * 16) div 16) = unat (d div 4096)"
    by (simp add: unat_div unat_word_ariths)
  then show ?thesis by (simp only: word_unat_eq_iff)
qed

lemma paddr_roundtrip: "ut_to_paddr T (paddr_to_ut T p) = p - (p - first_paddr T) mod 4096"
proof -
  let ?d = "p - first_paddr T"
  have "ut_to_paddr T (paddr_to_ut T p) = ?d div 4096 * 4096 + first_paddr T"
    by (simp add: ut_to_paddr_def paddr_to_ut_def PAGE_SIZE_4K_def word_mult_16_div)
  also have "?d div 4096 * 4096 = ?d - ?d mod 4096"
    using word_mod_div_equality [of ?d 4096] by (simp add: eq_diff_eq)
  finally show ?thesis by simp
qed

lemma word_add_mod_4096: "(d + of_nat i * 4096) mod 4096 = d mod (4096 :: u64)"
proof -
  have "unat ((d + of_nat i * 4096) mod 4096) = (unat d + unat (of_nat i :: u64) * 4096) mod 4096"
    by (simp add: unat_mod unat_word_ariths mod_mod_cancel mod_simps)
  also have "\<dots> = unat (d mod 4096)" by (simp add: unat_mod)
  finally show ?thesis by (simp only: word_unat_eq_iff)
qed

lemma paddr_to_ut_inj:
  assumes "paddr_to_ut T (p + of_nat i * 4096) = paddr_to_ut T (p + of_nat j * 4096)" and "i < 2 ^ 52" "j < 2 ^ 52"
  shows "i = j"
proof -
  have r: "ut_to_paddr T (paddr_to_ut T (p + of_nat k * 4096)) = p + of_nat k * 4096 - (p - first_paddr T) mod 4096" for k
    using paddr_roundtrip [of T "p + of_nat k * 4096"] word_add_mod_4096 [of "p - first_paddr T" k]
    by (simp add: algebra_simps)
  let ?m = "(p - first_paddr T) mod 4096"
  have "p + of_nat i * 4096 - ?m = ut_to_paddr T (paddr_to_ut T (p + of_nat i * 4096))" by (rule r [symmetric])
  also have "\<dots> = p + of_nat j * 4096 - ?m" unfolding assms(1) by (rule r)
  finally have "(p + of_nat i * 4096 - ?m) + ?m - p = (p + of_nat j * 4096 - ?m) + ?m - p" by (rule arg_cong)
  then have "of_nat i * 4096 = (of_nat j * 4096 :: u64)" by (simp only: diff_add_cancel add_diff_cancel_left')
  then have "of_nat (i * 4096) = (of_nat (j * 4096) :: u64)" by (simp only: of_nat_mult of_nat_numeral)
  then have "unat (of_nat (i * 4096) :: u64) = unat (of_nat (j * 4096) :: u64)" by (rule arg_cong)
  moreover have "i * 4096 < 2 ^ 64" "j * 4096 < 2 ^ 64" using assms(2,3) by simp_all
  ultimately have "i * 4096 = j * 4096" by (simp only: unat_of_nat_u64)
  then show ?thesis by simp
qed

section \<open>Adding a range of untypeds\<close>

definition off_lists :: "(nat \<Rightarrow> u64 list) \<Rightarrow> u64 list \<Rightarrow> u64 \<Rightarrow> bool" where
  "off_lists F S x \<longleftrightarrow> x \<noteq> 0 \<and> x \<notin> set S \<and> (\<forall>s. 4 \<le> s \<and> s \<le> 12 \<longrightarrow> x \<notin> set (F s))"

lemma ut_inv_upd:
  assumes "ut_inv T F S" and "off_lists F S x"
  shows "ut_inv (T\<lparr>ut_mem := (ut_mem T)(x \<mapsto> e)\<rparr>) F S"
  using assms unfolding ut_inv_def off_lists_def by fastforce

lemma ut_add_one_ok:
  assumes inv: "ut_inv T F S" and e: "ut_mem T x = Some e" and off: "off_lists F S x"
    and x: "x = paddr_to_ut T (paddr + of_nat i * 4096)"
  shows "\<exists>T' e'. ut_add_one paddr False i (T, cap) = Some (T', cap + 1) \<and> ut_inv T' (F(12 := x # F 12)) S \<and>
     ut_mem T' = (ut_mem T)(x \<mapsto> e') \<and> ut_cap e' = cap mod 2 ^ 20 \<and> ut_valid e' \<and>
     n_4k_untyped T' = n_4k_untyped T + 1 \<and> first_paddr T' = first_paddr T \<and> untypeds T' = untypeds T"
proof -
  let ?e = "e\<lparr>ut_cap := cap mod 2 ^ 20, ut_valid := True, ut_size_bits := 12\<rparr>"
  let ?T = "T\<lparr>ut_mem := (ut_mem T)(x \<mapsto> ?e)\<rparr>"
  have inv': "ut_inv ?T F S" by (rule ut_inv_upd [OF inv off])
  have x': "ut_mem ?T x = Some ?e" "ut_size_bits ?e = 12" "x \<noteq> 0" "x \<notin> set (F 12)" "x \<notin> set S"
    using off by (auto simp: off_lists_def)
  obtain T2 p where T2: "push_list 12 x ?T = Some T2" "ut_inv T2 (F(12 := x # F 12)) S" "same_ut ?T T2"
    "ut_mem T2 = (ut_mem ?T)(x \<mapsto> ?e\<lparr>ut_next := p\<rparr>)"
    using push_list_ok [OF inv' _ _ x'] by auto
  have "ut_add_one paddr False i (T, cap) = Some (T2\<lparr>n_4k_untyped := n_4k_untyped T2 + 1\<rparr>, cap + 1)"
    using e T2(1) by (simp add: ut_add_one_def upd_ut_def PAGE_SIZE_4K_def flip: x)
  moreover have "ut_inv (T2\<lparr>n_4k_untyped := n_4k_untyped T2 + 1\<rparr>) (F(12 := x # F 12)) S"
    using T2(2) by (simp add: ut_inv_def)
  ultimately show ?thesis using T2(3,4) by (auto simp: same_ut_def)
qed

lemma ut_add_range_prefix:
  assumes inv: "ut_inv T F S" and n: "n \<le> 2 ^ 52"
    and off: "\<And>i. i < n \<Longrightarrow> off_lists F S (paddr_to_ut T (paddr + of_nat i * 4096))"
    and mem: "\<And>i. i < n \<Longrightarrow> \<exists>e. ut_mem T (paddr_to_ut T (paddr + of_nat i * 4096)) = Some e"
  defines "node \<equiv> \<lambda>i. paddr_to_ut T (paddr + of_nat i * 4096)"
  assumes k: "k \<le> n"
  shows "\<exists>T'. for_each (ut_add_one paddr False) [0..<k] (T, cap) = Some (T', cap + k) \<and>
     ut_inv T' (F(12 := rev (map node [0..<k]) @ F 12)) S \<and> n_4k_untyped T' = n_4k_untyped T + k \<and>
     first_paddr T' = first_paddr T \<and> untypeds T' = untypeds T \<and>
     (\<forall>x. x \<notin> node ` {..<k} \<longrightarrow> ut_mem T' x = ut_mem T x) \<and>
     (\<forall>i < k. \<exists>e. ut_mem T' (node i) = Some e \<and> ut_cap e = (cap + i) mod 2 ^ 20 \<and> ut_valid e)"
  using k
proof (induction k)
  case 0
  then show ?case using inv by simp
next
  case (Suc k)
  let ?F = "F(12 := rev (map node [0..<k]) @ F 12)"
  from Suc.IH [OF Suc_leD [OF Suc.prems]] obtain T1 where run: "for_each (ut_add_one paddr False) [0..<k] (T, cap) = Some (T1, cap + k)"
    and inv1: "ut_inv T1 ?F S" and cnt: "n_4k_untyped T1 = n_4k_untyped T + k"
    and fp: "first_paddr T1 = first_paddr T" "untypeds T1 = untypeds T"
    and same: "\<forall>x. x \<notin> node ` {..<k} \<longrightarrow> ut_mem T1 x = ut_mem T x"
    and caps: "\<forall>i < k. \<exists>e. ut_mem T1 (node i) = Some e \<and> ut_cap e = (cap + i) mod 2 ^ 20 \<and> ut_valid e"
    by blast
  have fresh: "node k \<noteq> node i" if "i < k" for i
    using paddr_to_ut_inj [of T paddr k i] that Suc.prems n by (auto simp: node_def)
  then have out: "node k \<notin> node ` {..<k}" by auto
  obtain e where e: "ut_mem T1 (node k) = Some e"
    using mem [of k] Suc.prems same out by (auto simp: node_def)
  have "off_lists F S (node k)" using off [of k] Suc.prems by (simp add: node_def)
  then have off1: "off_lists ?F S (node k)" using out by (auto simp: off_lists_def)
  have nk: "node k = paddr_to_ut T1 (paddr + of_nat k * 4096)" by (simp add: node_def paddr_to_ut_def fp)
  obtain T2 e' where step: "ut_add_one paddr False k (T1, cap + k) = Some (T2, cap + k + 1)"
    and inv2: "ut_inv T2 (?F(12 := node k # ?F 12)) S" and mem2: "ut_mem T2 = (ut_mem T1)(node k \<mapsto> e')"
    and e': "ut_cap e' = (cap + k) mod 2 ^ 20" "ut_valid e'" and cnt2: "n_4k_untyped T2 = n_4k_untyped T1 + 1"
    and fp2: "first_paddr T2 = first_paddr T1" "untypeds T2 = untypeds T1"
    using ut_add_one_ok [OF inv1 e off1 nk, of "cap + k"] by blast
  have "for_each (ut_add_one paddr False) [0..<Suc k] (T, cap) = Some (T2, cap + Suc k)"
    using run step by (simp add: for_each_append)
  moreover have "ut_inv T2 (F(12 := rev (map node [0..<Suc k]) @ F 12)) S" using inv2 by simp
  moreover have "\<forall>x. x \<notin> node ` {..<Suc k} \<longrightarrow> ut_mem T2 x = ut_mem T x"
    using same by (auto simp: mem2 lessThan_Suc)
  moreover have "\<forall>i < Suc k. \<exists>e. ut_mem T2 (node i) = Some e \<and> ut_cap e = (cap + i) mod 2 ^ 20 \<and> ut_valid e"
    unfolding mem2
  proof (intro allI impI)
    fix i
    assume "i < Suc k"
    then show "\<exists>e. ((ut_mem T1)(node k \<mapsto> e')) (node i) = Some e \<and> ut_cap e = (cap + i) mod 2 ^ 20 \<and> ut_valid e"
      using caps e' fresh [of i] by (cases "i = k") auto
  qed
  moreover have "n_4k_untyped T2 = n_4k_untyped T + Suc k" "first_paddr T2 = first_paddr T" "untypeds T2 = untypeds T"
    using cnt cnt2 fp fp2 by simp_all
  ultimately show ?case by blast
qed

section \<open>Properties\<close>

text \<open>
  C13. Allocating a 4K untyped takes the head of the 4K free list, returns its physical address, and keeps every other list;
  with no free 4K untyped the call returns \<open>NULL\<close> and changes nothing.
\<close>

theorem ut_alloc_4k_takes_head:
  assumes "ut_inv T F S"
  shows "case F 12 of
      [] \<Rightarrow> ut_alloc_4k_untyped T = Some (0, 0, T)
    | x # xs \<Rightarrow> \<exists>T'. ut_alloc_4k_untyped T = Some (x, ut_to_paddr T x, T') \<and> x \<noteq> 0 \<and> ut_inv T' (F(12 := xs)) S"
proof (cases "F 12")
  case Nil
  with ut_alloc_4k_empty [OF assms] show ?thesis by simp
next
  case (Cons x xs)
  have "x \<noteq> 0" using ut_list_nonzero [OF ut_invD(1) [OF assms, of 12]] Cons by auto
  with Cons ut_alloc_4k_ok [OF assms Cons] show ?thesis by auto
qed

text \<open>
  C17. Freeing a 4K untyped that was just allocated restores the free list, so that the next allocation returns it again.
\<close>

theorem ut_alloc_free_roundtrip:
  assumes "ut_inv T F S" and "F 12 = x # xs"
  shows "\<exists>T' T''. ut_alloc_4k_untyped T = Some (x, ut_to_paddr T x, T') \<and> ut_free x T' = Some T'' \<and> ut_inv T'' F S"
proof -
  obtain T' where T': "ut_alloc_4k_untyped T = Some (x, ut_to_paddr T x, T')" "ut_inv T' (F(12 := xs)) S"
    "ut_mem T' = ut_mem T" using ut_alloc_4k_ok [OF assms] by blast
  have list: "ut_list (ut_mem T) (free_untypeds T ! (12 - 4)) (x # xs)" using ut_invD(1) [OF assms(1), of 12] assms(2) by simp
  obtain n where n: "ut_mem T x = Some n" "ut_size_bits n = 12" using ut_invD(2) [OF assms(1), of 12 x] assms(2) by auto
  have x: "x \<noteq> 0" "x \<notin> set xs" "x \<notin> set S"
    using list ut_list_distinct [OF list] ut_invD(3) [OF assms(1), of 12] assms(2) by auto
  have "\<exists>T''. ut_free x T' = Some T'' \<and> ut_inv T'' (F(12 := xs, 12 := x # xs)) S \<and> same_ut T' T''"
    using ut_free_ok [OF T'(2), of x n] n T'(3) x by simp
  moreover have "F(12 := xs, 12 := x # xs) = F" using assms(2) by auto
  ultimately show ?thesis using T'(1) by auto
qed


text \<open>
  The entry of a physical address leads back to the start of the 4K page of that address, counted from the start of the
  table's region, for every 64-bit address.
\<close>

lemma ut_paddr_roundtrip:
  "ut_to_paddr T (paddr_to_ut T p) = p - (p - first_paddr T) mod of_nat PAGE_SIZE_4K"
  using paddr_roundtrip by (simp add: PAGE_SIZE_4K_def)

section \<open>Witnesses\<close>

definition ut_example :: ut_table_t where
  "ut_example = \<lparr>first_paddr = 0x10000, untypeds = 0x8000000000, free_untypeds = replicate 9 0, n_4k_untyped = 0,
     free_structures = 0, ut_mem = (\<lambda>a. if a = 0 then None else Some zero_ut)\<rparr>"

lemma ut_example_inv: "ut_inv ut_example (\<lambda>_. []) []"
  by (auto simp: ut_inv_def ut_example_def)

lemma ut_example_entry: "paddr_to_ut ut_example (0x10000 + of_nat i * 4096) \<noteq> 0" if "i < 2"
  using that by (auto simp: less_2_cases_iff paddr_to_ut_def ut_example_def PAGE_SIZE_4K_def)


text \<open>A table with one free 4K untyped.\<close>

definition ut_example_1 :: ut_table_t where
  "ut_example_1 = ut_example\<lparr>free_untypeds := replicate 8 0 @ [0x8000000000],
     ut_mem := (\<lambda>a. if a = 0 then None else Some (zero_ut\<lparr>ut_size_bits := 12\<rparr>))\<rparr>"

lemma ut_example_1_inv: "ut_inv ut_example_1 ((\<lambda>_. [])(12 := [0x8000000000])) []"
  by (auto simp: ut_inv_def ut_example_1_def ut_example_def zero_ut_def nth_append)

theorem ut_alloc_4k_takes_head_witness:
  "\<exists>T'. ut_alloc_4k_untyped ut_example_1 = Some (0x8000000000, 0x10000, T') \<and> ut_inv T' (\<lambda>_. []) []"
  using ut_alloc_4k_takes_head [OF ut_example_1_inv] by (simp add: ut_to_paddr_def ut_example_1_def ut_example_def fun_upd_idem)

theorem ut_alloc_free_roundtrip_witness:
  "\<exists>T' T''. ut_alloc_4k_untyped ut_example_1 = Some (0x8000000000, ut_to_paddr ut_example_1 0x8000000000, T') \<and>
     ut_free 0x8000000000 T' = Some T''"
  using ut_alloc_free_roundtrip [OF ut_example_1_inv] by auto

end
