(* ===== verification/Sos_Env.thy ===== *)
theory Sos_Env
  imports Cspace Ut_Table
begin

text \<open>
  What the allocators of SOS share: the untyped table, the data of the bootstrapped capability space and the kernel.
  On it: mapping frames (\<open>sos/src/mapping.c\<close>), the callbacks that \<open>sos/src/bootstrap.c\<close> gives to capability spaces, and
  \<open>ut_alloc\<close> of \<open>sos/src/ut.c\<close>.

  The kernel is the parameter \<open>S\<close>: a system call acts on the kernel's state, of type \<open>'k\<close>, and \<open>lookup_level\<close> reads
  the message register from which \<open>seL4_MappingFailedLookupLevel\<close> takes the missing level.
\<close>

section \<open>The shared state\<close>

record 'k sel4 =
  sys_call :: "invocation \<Rightarrow> 'k \<Rightarrow> int \<times> 'k"
  lookup_level :: "'k \<Rightarrow> nat"

record 'k env =
  ut_tab :: ut_table_t
  next_free_vaddr :: u64
  bs_vspace :: cptr
  device_virt :: u64
  kst :: 'k

text \<open>The kernel as seen from the shared state.\<close>

definition env_call :: "'k sel4 \<Rightarrow> 'k env kernel" where
  "env_call S i w = (let (err, k) = sys_call S i (kst w) in (err, w\<lparr>kst := k\<rparr>))"

definition seL4_MappingFailedLookupLevel :: "'k sel4 \<Rightarrow> 'k env \<Rightarrow> nat" where
  "seL4_MappingFailedLookupLevel S w = lookup_level S (kst w)"

definition SEL4_MAPPING_LOOKUP_NO_PT :: nat where "SEL4_MAPPING_LOOKUP_NO_PT = 21"
definition SEL4_MAPPING_LOOKUP_NO_PD :: nat where "SEL4_MAPPING_LOOKUP_NO_PD = 30"
definition SEL4_MAPPING_LOOKUP_NO_PUD :: nat where "SEL4_MAPPING_LOOKUP_NO_PUD = 39"

text \<open>\<open>ut_alloc_4k_untyped(NULL)\<close> and \<open>ut_free\<close> on the shared state, and reading \<open>ut->cap\<close>.\<close>

definition env_alloc_4k :: "'k env \<Rightarrow> (u64 \<times> 'k env) option" where
  "env_alloc_4k w = do {
     (ut, _, T) \<leftarrow> ut_alloc_4k_untyped (ut_tab w);
     Some (ut, w\<lparr>ut_tab := T\<rparr>)
   }"

definition env_ut_free :: "u64 \<Rightarrow> 'k env \<Rightarrow> 'k env option" where
  "env_ut_free ut w = do { T \<leftarrow> ut_free ut (ut_tab w); Some (w\<lparr>ut_tab := T\<rparr>) }"

definition env_ut_cap :: "'k env \<Rightarrow> u64 \<Rightarrow> cptr option" where
  "env_ut_cap w ut = do { n \<leftarrow> ut_mem (ut_tab w) ut; Some (ut_cap n) }"

section \<open>Mapping frames\<close>

text \<open>
  A capability space is given by its \<open>root_cnode\<close> and \<open>two_level\<close>, which is all that retyping reads.
\<close>

definition retype_map_pt ::
    "'k sel4 \<Rightarrow> cptr \<times> bool \<Rightarrow> cptr \<Rightarrow> u64 \<Rightarrow> cptr \<Rightarrow> cptr \<Rightarrow> 'k env \<Rightarrow> int \<times> 'k env" where
  "retype_map_pt S cs vspace vaddr ut slot w =
     (let (err, w) = untyped_retype_at (env_call S) (fst cs) (snd cs) ut slot seL4_ARM_PageTableObject seL4_PageBits w
      in if err \<noteq> 0 then (err, w)
         else env_call S (ARM_PageTable_Map slot vspace vaddr seL4_ARM_Default_VMAttributes) w)"

definition retype_map_pd ::
    "'k sel4 \<Rightarrow> cptr \<times> bool \<Rightarrow> cptr \<Rightarrow> u64 \<Rightarrow> cptr \<Rightarrow> cptr \<Rightarrow> 'k env \<Rightarrow> int \<times> 'k env" where
  "retype_map_pd S cs vspace vaddr ut slot w =
     (let (err, w) = untyped_retype_at (env_call S) (fst cs) (snd cs) ut slot seL4_ARM_PageDirectoryObject seL4_PageBits w
      in if err \<noteq> 0 then (err, w)
         else env_call S (ARM_PageDirectory_Map slot vspace vaddr seL4_ARM_Default_VMAttributes) w)"

definition retype_map_pud ::
    "'k sel4 \<Rightarrow> cptr \<times> bool \<Rightarrow> cptr \<Rightarrow> u64 \<Rightarrow> cptr \<Rightarrow> cptr \<Rightarrow> 'k env \<Rightarrow> int \<times> 'k env" where
  "retype_map_pud S cs vspace vaddr ut slot w =
     (let (err, w) = untyped_retype_at (env_call S) (fst cs) (snd cs) ut slot seL4_ARM_PageUpperDirectoryObject seL4_PageBits w
      in if err \<noteq> 0 then (err, w)
         else env_call S (ARM_PageUpperDirectory_Map slot vspace vaddr seL4_ARM_Default_VMAttributes) w)"

text \<open>
  The slot for a paging structure comes from \<open>free_slots\<close> or from the slot allocator. \<open>next_slot i\<close> is that choice; its state
  of type \<open>'s\<close> is the word \<open>*used\<close> or the capability space.
\<close>

type_synonym ('s, 'k) slot_source = "nat \<Rightarrow> 's \<Rightarrow> 'k env \<Rightarrow> (cptr \<times> 's \<times> 'k env) option"

definition slots_from_watermark :: "cptr list \<Rightarrow> (u64, 'k) slot_source" where
  "slots_from_watermark free_slots i used w = do {
     slot \<leftarrow> arr_get free_slots i;
     Some (slot, used OR BIT i, w)
   }"

definition slots_from_cspace :: "'k sel4 \<Rightarrow> ('k env cspace_t, 'k) slot_source" where
  "slots_from_cspace S i cs w = cspace_alloc_slot (env_call S) cs w"

text \<open>One paging structure for the level that was missing; \<open>Inl\<close> is an early return of the caller.\<close>

definition map_missing ::
    "'k sel4 \<Rightarrow> cptr \<times> bool \<Rightarrow> ('s, 'k) slot_source \<Rightarrow> cptr \<Rightarrow> u64 \<Rightarrow> nat \<Rightarrow> 's \<Rightarrow> 'k env \<Rightarrow>
     ((int + int) \<times> 's \<times> 'k env) option" where
  "map_missing S cs next_slot vspace vaddr i s w = do {
     let failed = seL4_MappingFailedLookupLevel S w;
     (ut, w) \<leftarrow> env_alloc_4k w;
     if ut = 0 then Some (Inl (- 1), s, w)
     else do {
       (slot, s, w) \<leftarrow> next_slot i s w;
       if slot = seL4_CapNull then Some (Inl (- 1), s, w)
       else do {
         cap \<leftarrow> env_ut_cap w ut;
         let (err, w) = (if failed = SEL4_MAPPING_LOOKUP_NO_PT then retype_map_pt S cs vspace vaddr cap slot w
                         else if failed = SEL4_MAPPING_LOOKUP_NO_PD then retype_map_pd S cs vspace vaddr cap slot w
                         else if failed = SEL4_MAPPING_LOOKUP_NO_PUD then retype_map_pud S cs vspace vaddr cap slot w
                         else (seL4_FailedLookup, w));
         Some (Inr err, s, w)
       }
     }
   }"

function map_frame_loop ::
    "'k sel4 \<Rightarrow> cptr \<times> bool \<Rightarrow> ('s, 'k) slot_source \<Rightarrow> invocation \<Rightarrow> cptr \<Rightarrow> u64 \<Rightarrow> nat \<Rightarrow> int \<Rightarrow> 's \<Rightarrow> 'k env \<Rightarrow>
     (int \<times> 's \<times> 'k env) option" where
  "map_frame_loop S cs next_slot map_call vspace vaddr i err s w =
     (if i < MAPPING_SLOTS \<and> err = seL4_FailedLookup then
        (case map_missing S cs next_slot vspace vaddr i s w of
           None \<Rightarrow> None
         | Some (Inl r, s, w) \<Rightarrow> Some (r, s, w)
         | Some (Inr err, s, w) \<Rightarrow>
             (let (err, w) = (if err = 0 then env_call S map_call w else (err, w))
              in map_frame_loop S cs next_slot map_call vspace vaddr (i + 1) err s w))
      else Some (err, s, w))"
  by pat_completeness auto
termination
  by (relation "measure (\<lambda>(S, cs, ns, mc, v, va, i, e, s, w). MAPPING_SLOTS - i)") auto

definition map_frame_impl ::
    "'k sel4 \<Rightarrow> cptr \<times> bool \<Rightarrow> ('s, 'k) slot_source \<Rightarrow> cptr \<Rightarrow> cptr \<Rightarrow> u64 \<Rightarrow> cap_rights \<Rightarrow> u64 \<Rightarrow> 's \<Rightarrow> 'k env \<Rightarrow>
     (int \<times> 's \<times> 'k env) option" where
  "map_frame_impl S cs next_slot frame_cap vspace vaddr rights attr s w =
     (let map_call = ARM_Page_Map frame_cap vspace vaddr rights attr;
          (err, w) = env_call S map_call w
      in map_frame_loop S cs next_slot map_call vspace vaddr 0 err s w)"

text \<open>\<open>map_frame_cspace(cspace, ..., free_slots, used)\<close> with a cspace that may be \<open>NULL\<close>.\<close>

definition map_frame_cspace ::
    "'k sel4 \<Rightarrow> (cptr \<times> bool) option \<Rightarrow> cptr \<Rightarrow> cptr \<Rightarrow> u64 \<Rightarrow> cap_rights \<Rightarrow> u64 \<Rightarrow> cptr list \<Rightarrow> u64 \<Rightarrow> 'k env \<Rightarrow>
     (int \<times> u64 \<times> 'k env) option" where
  "map_frame_cspace S cspace frame_cap vspace vaddr rights attr free_slots used w =
     (case cspace of
        None \<Rightarrow> Some (- 1, used, w)
      | Some cs \<Rightarrow> map_frame_impl S cs (slots_from_watermark free_slots) frame_cap vspace vaddr rights attr used w)"

definition map_frame ::
    "'k sel4 \<Rightarrow> cptr \<Rightarrow> cptr \<Rightarrow> u64 \<Rightarrow> cap_rights \<Rightarrow> u64 \<Rightarrow> 'k env cspace_t \<Rightarrow> 'k env \<Rightarrow>
     (int \<times> 'k env cspace_t \<times> 'k env) option" where
  "map_frame S frame_cap vspace vaddr rights attr cspace w =
     map_frame_impl S (root_cnode cspace, two_level cspace) (slots_from_cspace S) frame_cap vspace vaddr rights attr
       cspace w"

text \<open>
  \<open>map_frame(NULL, ...)\<close>: a missing paging structure makes \<open>cspace_alloc_slot(NULL)\<close> fail its assertion.
\<close>

definition map_frame_null ::
    "'k sel4 \<Rightarrow> cptr \<Rightarrow> cptr \<Rightarrow> u64 \<Rightarrow> cap_rights \<Rightarrow> u64 \<Rightarrow> 'k env \<Rightarrow> (int \<times> 'k env) option" where
  "map_frame_null S frame_cap vspace vaddr rights attr w = do {
     (err, _, w) \<leftarrow> map_frame_impl S (0, False) (\<lambda>_ _ _. None) frame_cap vspace vaddr rights attr () w;
     Some (err, w)
   }"

definition SOS_DEVICE_START :: u64 where
  "SOS_DEVICE_START = 0xB0000000"

text \<open>
  One page of \<open>sos_map_device\<close>; the result is \<open>False\<close> when the function returns \<open>NULL\<close>.
\<close>

definition map_device_page ::
    "'k sel4 \<Rightarrow> u64 \<Rightarrow> 'k env cspace_t \<Rightarrow> 'k env \<Rightarrow> (bool \<times> 'k env cspace_t \<times> 'k env) option" where
  "map_device_page S cur cs w = do {
     ut \<leftarrow> ut_alloc_4k_device cur (ut_tab w);
     if ut = 0 then Some (False, cs, w)
     else do {
       (frame, cs, w) \<leftarrow> cspace_alloc_slot (env_call S) cs w;
       if frame = seL4_CapNull then Some (False, cs, w)
       else do {
         cap \<leftarrow> env_ut_cap w ut;
         let (err, w) = cspace_untyped_retype (env_call S) cs cap frame seL4_ARM_SmallPageObject seL4_PageBits w;
         if err \<noteq> seL4_NoError then do {
           cs \<leftarrow> cspace_free_slot cs frame;
           Some (False, cs, w)
         } else do {
           (err, cs, w) \<leftarrow> map_frame S frame seL4_CapInitThreadVSpace (device_virt w) seL4_AllRights 0 cs w;
           if err \<noteq> seL4_NoError then do {
             let (_, w) = cspace_delete (env_call S) cs frame w;
             cs \<leftarrow> cspace_free_slot cs frame;
             Some (False, cs, w)
           } else Some (True, cs, w\<lparr>device_virt := device_virt w + of_nat PAGE_SIZE_4K\<rparr>)
         }
       }
     }
   }"

partial_function (option) map_device_loop ::
    "'k sel4 \<Rightarrow> u64 \<Rightarrow> u64 \<Rightarrow> 'k env cspace_t \<Rightarrow> 'k env \<Rightarrow> (bool \<times> 'k env cspace_t \<times> 'k env) option" where
  "map_device_loop S cur stop cs w =
     (if cur < stop then do {
        (ok, cs, w) \<leftarrow> map_device_page S cur cs w;
        if ok then map_device_loop S (cur + of_nat PAGE_SIZE_4K) stop cs w else Some (False, cs, w)
      } else Some (True, cs, w))"

definition sos_map_device ::
    "'k sel4 \<Rightarrow> u64 \<Rightarrow> u64 \<Rightarrow> 'k env cspace_t \<Rightarrow> 'k env \<Rightarrow> (u64 \<times> 'k env cspace_t \<times> 'k env) option" where
  "sos_map_device S addr len cs w = do {
     let vstart = device_virt w;
     (ok, cs, w) \<leftarrow> map_device_loop S addr (addr + len) cs w;
     Some (if ok then vstart else 0, cs, w)
   }"

section \<open>The callbacks of the bootstrapped capability space\<close>

definition alloc_vaddr :: "int \<Rightarrow> 'k env \<Rightarrow> u64 \<times> 'k env" where
  "alloc_vaddr err w =
     (if err = 0 then (next_free_vaddr w, w\<lparr>next_free_vaddr := next_free_vaddr w + of_nat PAGE_SIZE_4K\<rparr>)
      else (0, w))"

definition bootstrap_map_frame ::
    "'k sel4 \<Rightarrow> cptr \<Rightarrow> 'k env cspace_t \<Rightarrow> 'k env \<Rightarrow> (u64 \<times> 'k env cspace_t \<times> 'k env) option" where
  "bootstrap_map_frame S cap cs w = do {
     (err, cs, w) \<leftarrow> map_frame S cap (bs_vspace w) (next_free_vaddr w) seL4_AllRights
                       seL4_ARM_Default_VMAttributes cs w;
     let (v, w) = alloc_vaddr err w;
     Some (v, cs, w)
   }"

definition bootstrap_cspace_map_frame ::
    "'k sel4 \<Rightarrow> cookie \<Rightarrow> cptr \<Rightarrow> cptr list \<Rightarrow> u64 \<Rightarrow> 'k env \<Rightarrow> (u64 \<times> u64 \<times> 'k env) option" where
  "bootstrap_cspace_map_frame S cookie cap free_slots used w = do {
     (err, used, w) \<leftarrow> map_frame_cspace S cookie cap (bs_vspace w) (next_free_vaddr w) seL4_AllRights
                         seL4_ARM_Default_VMAttributes free_slots used w;
     let (v, w) = alloc_vaddr err w;
     Some (v, used, w)
   }"

text \<open>Without memory, \<open>untyped\<close> is \<open>NULL\<close> and \<open>untyped->cap\<close> is read all the same.\<close>

definition bootstrap_cspace_alloc_4k_ut :: "cookie \<Rightarrow> 'k env \<Rightarrow> (u64 \<times> cptr \<times> 'k env) option" where
  "bootstrap_cspace_alloc_4k_ut cookie w = do {
     (untyped, w) \<leftarrow> env_alloc_4k w;
     cap \<leftarrow> env_ut_cap w untyped;
     Some (untyped, cap, w)
   }"

definition bootstrap_cspace_free_4k_ut :: "cookie \<Rightarrow> u64 \<Rightarrow> 'k env \<Rightarrow> 'k env option" where
  "bootstrap_cspace_free_4k_ut cookie untyped w = env_ut_free untyped w"

text \<open>The callback structure that \<open>sos_bootstrap\<close> installs, with the capability space as cookie.\<close>

definition bootstrap_alloc :: "'k sel4 \<Rightarrow> cookie \<Rightarrow> 'k env cspace_alloc_t" where
  "bootstrap_alloc S cookie =
     \<lparr>fn_map_frame = bootstrap_cspace_map_frame S, fn_alloc_4k_ut = bootstrap_cspace_alloc_4k_ut,
      fn_free_4k_ut = bootstrap_cspace_free_4k_ut, al_cookie = cookie\<rparr>"

section \<open>Untypeds smaller than a page\<close>

definition env_pop_structure :: "'k env \<Rightarrow> (u64 \<times> 'k env) option" where
  "env_pop_structure w = do {
     let T = ut_tab w;
     (n, head) \<leftarrow> pop (ut_mem T) (free_structures T);
     Some (n, w\<lparr>ut_tab := T\<lparr>free_structures := head\<rparr>\<rparr>)
   }"

definition env_push_structure :: "u64 \<Rightarrow> 'k env \<Rightarrow> 'k env option" where
  "env_push_structure ut w = do {
     let T = ut_tab w;
     (h, head) \<leftarrow> push (ut_mem T) (free_structures T) ut;
     Some (w\<lparr>ut_tab := T\<lparr>ut_mem := h, free_structures := head\<rparr>\<rparr>)
   }"

definition env_upd_ut :: "(ut_t \<Rightarrow> ut_t) \<Rightarrow> u64 \<Rightarrow> 'k env \<Rightarrow> 'k env option" where
  "env_upd_ut f ut w = do { T \<leftarrow> upd_ut f ut (ut_tab w); Some (w\<lparr>ut_tab := T\<rparr>) }"

definition env_push_list :: "nat \<Rightarrow> u64 \<Rightarrow> 'k env \<Rightarrow> 'k env option" where
  "env_push_list size_bits ut w = do { T \<leftarrow> push_list size_bits ut (ut_tab w); Some (w\<lparr>ut_tab := T\<rparr>) }"

text \<open>The zeroed memory of a freshly mapped page, as an array of \<open>ut_t\<close>.\<close>

definition env_new_uts :: "u64 \<Rightarrow> 'k env \<Rightarrow> 'k env" where
  "env_new_uts v w =
     w\<lparr>ut_tab := (ut_tab w)\<lparr>ut_mem := (\<lambda>a. if a - v < of_nat PAGE_SIZE_4K \<and> (a - v) mod of_nat ut_t_size = 0
                                          then Some zero_ut else ut_mem (ut_tab w) a)\<rparr>\<rparr>"

definition ensure_new_structures ::
    "'k sel4 \<Rightarrow> 'k env cspace_t \<Rightarrow> 'k env \<Rightarrow> (bool \<times> 'k env cspace_t \<times> 'k env) option" where
  "ensure_new_structures S cs w = do {
     let T = ut_tab w;
     few \<leftarrow> (if free_structures T = 0 then Some True
             else do { n \<leftarrow> ut_mem T (free_structures T); Some (ut_next n = 0) });
     if few then do {
       (frame, w) \<leftarrow> env_alloc_4k w;
       if frame = 0 then Some (False, cs, w)
       else do {
         (cptr, cs, w) \<leftarrow> cspace_alloc_slot (env_call S) cs w;
         if cptr = seL4_CapNull then Some (False, cs, w)
         else do {
           cap \<leftarrow> env_ut_cap w frame;
           let (err, w) = cspace_untyped_retype (env_call S) cs cap cptr seL4_ARM_SmallPageObject seL4_PageBits w;
           if err \<noteq> 0 then Some (False, cs, w)
           else do {
             (new_uts, cs, w) \<leftarrow> bootstrap_map_frame S cptr cs w;
             if new_uts = 0 then Some (False, cs, w)
             else do {
               w \<leftarrow> for_each (\<lambda>i w. env_push_structure (new_uts + of_nat i * of_nat ut_t_size) w)
                      [0..<PAGE_SIZE_4K div ut_t_size] (env_new_uts new_uts w);
               Some (True, cs, w)
             }
           }
         }
       }
     } else Some (True, cs, w)
   }"

text \<open>
  The part of \<open>ut_alloc\<close> that splits \<open>larger\<close> in two and puts both halves on the list of \<open>size_bits\<close>: a spare entry and a slot for
  each half, then the two retypes. A failure gives \<open>larger\<close> back.
\<close>

definition split_fail ::
    "u64 \<Rightarrow> 'k env cspace_t \<Rightarrow> 'k env \<Rightarrow> (bool \<times> 'k env cspace_t \<times> 'k env) option" where
  "split_fail larger cs w = do { w \<leftarrow> env_ut_free larger w; Some (False, cs, w) }"

definition new_half ::
    "'k sel4 \<Rightarrow> 'k env cspace_t \<Rightarrow> 'k env \<Rightarrow> (u64 \<times> cptr \<times> 'k env cspace_t \<times> 'k env) option" where
  "new_half S cs w = do {
     (half, w) \<leftarrow> env_pop_structure w;
     (cptr, cs, w) \<leftarrow> cspace_alloc_slot (env_call S) cs w;
     w \<leftarrow> env_upd_ut (\<lambda>n. n\<lparr>ut_cap := cptr mod 2 ^ 20\<rparr>) half w;
     cap \<leftarrow> env_ut_cap w half;
     Some (half, cap, cs, w)
   }"

definition retype_halves ::
    "'k sel4 \<Rightarrow> nat \<Rightarrow> u64 \<Rightarrow> u64 \<Rightarrow> u64 \<Rightarrow> 'k env cspace_t \<Rightarrow> 'k env \<Rightarrow> (bool \<times> 'k env cspace_t \<times> 'k env) option" where
  "retype_halves S size_bits larger new1 new2 cs w = do {
     cap \<leftarrow> env_ut_cap w larger;
     cap1 \<leftarrow> env_ut_cap w new1;
     cap2 \<leftarrow> env_ut_cap w new2;
     let (err, w) = cspace_untyped_retype (env_call S) cs cap cap1 seL4_UntypedObject size_bits w;
     if err \<noteq> 0 then do {
       cs \<leftarrow> cspace_free_slot cs cap1;
       cs \<leftarrow> cspace_free_slot cs cap2;
       w \<leftarrow> env_push_structure new1 w;
       split_fail larger cs w
     } else do {
       let (err, w) = cspace_untyped_retype (env_call S) cs cap cap2 seL4_UntypedObject size_bits w;
       if err \<noteq> 0 then do {
         let (_, w) = cspace_delete (env_call S) cs cap1 w;
         cs \<leftarrow> cspace_free_slot cs cap1;
         cs \<leftarrow> cspace_free_slot cs cap2;
         w \<leftarrow> env_push_structure new1 w;
         w \<leftarrow> env_push_structure new2 w;
         split_fail larger cs w
       } else do {
         w \<leftarrow> env_push_list size_bits new1 w;
         w \<leftarrow> env_push_list size_bits new2 w;
         Some (True, cs, w)
       }
     }
   }"

definition ut_split ::
    "'k sel4 \<Rightarrow> nat \<Rightarrow> u64 \<Rightarrow> 'k env cspace_t \<Rightarrow> 'k env \<Rightarrow> (bool \<times> 'k env cspace_t \<times> 'k env) option" where
  "ut_split S size_bits larger cs w = do {
     (ok, cs, w) \<leftarrow> ensure_new_structures S cs w;
     if \<not> ok then split_fail larger cs w
     else do {
       (new1, cap1, cs, w) \<leftarrow> new_half S cs w;
       if cap1 = seL4_CapNull then split_fail larger cs w
       else do {
         w \<leftarrow> env_upd_ut (\<lambda>n. n\<lparr>ut_size_bits := size_bits mod 2 ^ 4\<rparr>) new1 w;
         (new2, cap2, cs, w) \<leftarrow> new_half S cs w;
         if cap2 = seL4_CapNull then do {
           cs \<leftarrow> cspace_free_slot cs cap1;
           split_fail larger cs w
         } else do {
           w \<leftarrow> env_upd_ut (\<lambda>n. n\<lparr>ut_size_bits := size_bits mod 2 ^ 4\<rparr>) new2 w;
           retype_halves S size_bits larger new1 new2 cs w
         }
       }
     }
   }"

definition env_pop_list :: "nat \<Rightarrow> 'k env \<Rightarrow> (u64 \<times> 'k env) option" where
  "env_pop_list size_bits w = do { (n, T) \<leftarrow> pop_list size_bits (ut_tab w); Some (n, w\<lparr>ut_tab := T\<rparr>) }"

function ut_alloc ::
    "'k sel4 \<Rightarrow> nat \<Rightarrow> 'k env cspace_t \<Rightarrow> 'k env \<Rightarrow> (u64 \<times> 'k env cspace_t \<times> 'k env) option" where
  "ut_alloc S size_bits cs w =
     (if size_bits > seL4_PageBits then Some (0, cs, w)
      else if size_bits < seL4_EndpointBits then Some (0, cs, w)
      else if size_bits = seL4_PageBits then do { (n, w) \<leftarrow> env_alloc_4k w; Some (n, cs, w) }
      else do {
        head \<leftarrow> get_list (ut_tab w) size_bits;
        if head = 0 then do {
          (larger, cs, w) \<leftarrow> ut_alloc S (size_bits + 1) cs w;
          if larger = 0 then Some (0, cs, w)
          else do {
            (ok, cs, w) \<leftarrow> ut_split S size_bits larger cs w;
            if \<not> ok then Some (0, cs, w)
            else do { (n, w) \<leftarrow> env_pop_list size_bits w; Some (n, cs, w) }
          }
        } else do { (n, w) \<leftarrow> env_pop_list size_bits w; Some (n, cs, w) }
      })"
  by pat_completeness auto
termination
  by (relation "measure (\<lambda>(S, size_bits, cs, w). seL4_PageBits - size_bits)") auto

declare ut_alloc.simps [simp del] map_frame_loop.simps [simp del]

end
