(* ===== verification/Cspace_Callbacks.thy ===== *)
theory Cspace_Callbacks
  imports Cspace_Slots
begin

text \<open>
  The contract between a capability space and the allocation callbacks of \<open>cspace_alloc_t\<close>. \<open>owns w D k\<close>: in
  system state \<open>w\<close> the untyped objects with handles \<open>D\<close> belong to someone, every free one is in the free lists, and \<open>k\<close> more
  pages can be mapped. The locale states what the callbacks promise; the lemmas show that the capability space library respects
  it: it frees only untypeds it was given, and gives back what it took on the error paths that do so.
\<close>

locale untyped_callbacks =
  fixes K :: "'w kernel" and al :: "'w cspace_alloc_t" and owns :: "'w \<Rightarrow> u64 set \<Rightarrow> nat \<Rightarrow> bool"
  assumes call_owns: "owns w D k \<Longrightarrow> K i w = (e, w') \<Longrightarrow> owns w' D k"
    and alloc_owns: "owns w D k \<Longrightarrow> fn_alloc_4k_ut al (al_cookie al) w = Some (u, c, w') \<Longrightarrow>
      if u = 0 then owns w' D k else u \<notin> D \<and> owns w' (insert u D) k"
    and free_owns: "owns w D k \<Longrightarrow> u \<in> D \<Longrightarrow>
      \<exists>w'. fn_free_4k_ut al (al_cookie al) u w = Some w' \<and> owns w' (D - {u}) k"
    and map_owns: "owns w D (Suc k) \<Longrightarrow> fn_map_frame al (al_cookie al) f fs used w = Some (v, used', w') \<Longrightarrow>
      \<exists>D'. D \<subseteq> D' \<and> owns w' D' k"
    and owns_less: "owns w D (Suc k) \<Longrightarrow> owns w D k"
begin

lemma retype_owns:
  assumes "owns w D k" and "untyped_retype_at K r t ut c ty n w = (e, w')"
  shows "owns w' D k"
  using assms call_owns by (auto simp: untyped_retype_at_def split: if_splits)

lemma retype_helper_owns:
  assumes al: "alloc cs = Some al" and own: "owns w D k" and run: "retype_helper K cs ty c w = Some (u, w')"
  shows "if u = 0 then owns w' D k else u \<notin> D \<and> owns w' (insert u D) k"
proof -
  let ?size = "if ty = seL4_CapTableObject then CNODE_SLOT_BITS seL4_PageBits else seL4_PageBits"
  from run al obtain v d w1 where a: "fn_alloc_4k_ut al (al_cookie al) w = Some (v, d, w1)"
    by (auto simp: retype_helper_def alloc_4k_untyped_def elim!: bind_SomeE)
  note A = alloc_owns [OF own a]
  obtain e w2 where k: "cspace_untyped_retype K cs d c ty ?size w1 = (e, w2)" by fastforce
  show ?thesis
  proof (cases "v = 0")
    case True
    with run al a A show ?thesis by (simp add: retype_helper_def alloc_4k_untyped_def)
  next
    case False
    with A have nv: "v \<notin> D" and o1: "owns w1 (insert v D) k" by simp_all
    with k have o2: "owns w2 (insert v D) k" using retype_owns by (simp add: cspace_untyped_retype_def)
    show ?thesis
    proof (cases "e = seL4_NoError")
      case True
      with run al a k False o2 nv show ?thesis by (simp add: retype_helper_def alloc_4k_untyped_def Let_def)
    next
      case err: False
      from free_owns [OF o2, of v] nv obtain w3 where "fn_free_4k_ut al (al_cookie al) v w2 = Some w3" "owns w3 D k"
        by auto
      with run al a k False err show ?thesis
        by (simp add: retype_helper_def alloc_4k_untyped_def free_4k_untyped_def Let_def)
    qed
  qed
qed

lemma ensure_node_owns:
  assumes al: "alloc cs = Some al" and own: "owns w D (Suc k)"
    and run: "ensure_node K cs i used w = Some (b, used', cs', w')"
  shows "\<exists>D'. D \<subseteq> D' \<and> owns w' D' k"
proof (cases "n_bot_lvl_nodes cs \<le> i")
  case False
  with run own owns_less show ?thesis by (auto simp: ensure_node_def)
next
  case True
  with run obtain u w1 where r: "retype_helper K cs seL4_ARM_SmallPageObject (watermark cs ! 3) w = Some (u, w1)"
    by (auto simp: ensure_node_def Let_def elim!: bind_SomeE)
  note R = retype_helper_owns [OF al own r]
  show ?thesis
  proof (cases "u = 0")
    case True
    with run R r \<open>n_bot_lvl_nodes cs \<le> i\<close> owns_less show ?thesis
      by (auto simp: ensure_node_def Let_def elim!: bind_SomeE)
  next
    case False
    with R have "owns w1 (insert u D) (Suc k)" by simp
    from run r True False al obtain v used2 w2 where
      m: "fn_map_frame al (al_cookie al) (watermark cs ! 3) (watermark cs) (used OR BIT 3) w1 = Some (v, used2, w2)"
      by (auto simp: ensure_node_def Let_def cs_map_frame_def elim!: bind_SomeE split: if_splits)
    from map_owns [OF \<open>owns w1 (insert u D) (Suc k)\<close> m] obtain D' where D': "insert u D \<subseteq> D'" "owns w2 D' k"
      by blast
    show ?thesis
    proof (cases "v = 0")
      case True
      obtain e w3 where d: "K (CNode_Delete (root_cnode cs) (watermark cs ! 3) seL4_WordBits) w2 = (e, w3)" by fastforce
      from call_owns [OF D'(2) d] D'(1) free_owns obtain w4 where
        f: "fn_free_4k_ut al (al_cookie al) u w3 = Some w4" "owns w4 (D' - {u}) k" by blast
      have "w' = w4"
        using run r True False \<open>n_bot_lvl_nodes cs \<le> i\<close> al m d f
        by (auto simp: ensure_node_def Let_def cs_map_frame_def free_4k_untyped_def cspace_delete_def set_node_def
            elim!: bind_SomeE split: if_splits)
      moreover have "D \<subseteq> D' - {u}" using D'(1) R False by auto
      ultimately show ?thesis using f by blast
    next
      case v: False
      have "w' = w2"
        using run r v False \<open>n_bot_lvl_nodes cs \<le> i\<close> al m
        by (auto simp: ensure_node_def Let_def cs_map_frame_def elim!: bind_SomeE split: if_splits)
      with D' show ?thesis by blast
    qed
  qed
qed

lemma ensure_cnode_owns:
  assumes al: "alloc cs = Some al" and own: "owns w D k"
    and run: "ensure_cnode K cs c w = Some (b, cs', w')"
  shows "\<exists>D'. D \<subseteq> D' \<and> owns w' D' k"
proof -
  from run al consider "w' = w"
    | u d w1 where "fn_alloc_4k_ut al (al_cookie al) w = Some (u, d, w1)" "u = 0" "w' = w1"
    | u d w1 i e w2 where "fn_alloc_4k_ut al (al_cookie al) w = Some (u, d, w1)" "u \<noteq> 0" "K i w1 = (e, w2)"
      "w' = w2 \<or> fn_free_4k_ut al (al_cookie al) u w2 = Some w'"
    by (auto simp: ensure_cnode_def alloc_4k_untyped_def free_4k_untyped_def Let_def set_node_def
        elim!: bind_SomeE split: if_splits prod.splits)
  then show ?thesis
  proof cases
    case 1
    with own show ?thesis by blast
  next
    case 2
    with alloc_owns [OF own 2(1)] show ?thesis by auto
  next
    case 3
    with alloc_owns [OF own 3(1)] have u: "u \<notin> D" "owns w1 (insert u D) k" by auto
    from call_owns [OF u(2) 3(3)] have o2: "owns w2 (insert u D) k" .
    from free_owns [OF o2, of u] u(1) obtain w3 where "fn_free_4k_ut al (al_cookie al) u w2 = Some w3" "owns w3 D k"
      by auto
    with 3(4) o2 show ?thesis by auto
  qed
qed

text \<open>The whole allocation maps at most one page and leaves every untyped with its owner.\<close>

lemma alloc_slot_owns:
  assumes ok: "lvl_ok cs" and al: "alloc cs = Some al" and own: "owns w D (Suc k)"
    and run: "cspace_alloc_slot K cs w = Some (c, cs', w')"
  shows "\<exists>D'. D \<subseteq> D' \<and> owns w' D' k"
proof -
  let ?t = "first_free (top_bf cs)"
  have shape: "lvl_shape cs" and two: "two_level cs" using ok by (simp_all add: lvl_ok_def lvl_shape_def)
  note t = alloc_slot_top [OF shape run]
  show ?thesis
  proof (cases "has_cnode cs ?t")
    case True
    from alloc_slot_present [OF ok refl t True, of K w] run own owns_less show ?thesis by auto
  next
    case False
    from alloc_slot_ensures [OF ok run False] obtain b used cs1 w1 where
      ens: "ensure_levels K cs (?t * 128) 0 w = Some (b, used, cs1, w1)" by blast
    from alloc_slot_grow [OF ok refl t False ens] run have w: "w' = w1" by auto
    from ens two consider "w1 = w" | b1 cs2 w2 where "ensure_node K cs (?t div 169) 0 w = Some (b1, used, cs2, w2)"
      "w1 = w2 \<or> b1 \<and> ensure_cnode K cs2 (?t * 128) w2 = Some (b, cs1, w1)"
      by (auto simp: ensure_levels_def Let_def elim!: bind_SomeE split: if_splits)
    then show ?thesis
    proof cases
      case 1
      with own owns_less w show ?thesis by blast
    next
      case 2
      from ensure_node_owns [OF al own 2(1)] obtain D' where D': "D \<subseteq> D'" "owns w2 D' k" by blast
      have "alloc cs2 = Some al"
        using ensure_node_spec(1) [OF shape alloc_slot_grow_at [OF ok False] 2(1)] al by (simp add: grown_def same_rest_def)
      from 2(2) ensure_cnode_owns [OF this D'(2)] D' w show ?thesis by (metis order_trans)
    qed
  qed
qed

end

end
