(* ===== verification/Env_Proofs.thy ===== *)
theory Env_Proofs
  imports Sos_Env Cspace_Callbacks Ut_Table_Proofs
begin

text \<open>
  The callbacks that \<open>sos_bootstrap\<close> installs keep the contract \<open>untyped_callbacks\<close>, and mapping a frame keeps the untyped
  table in order. \<open>ut_owns w D k\<close>: the free lists are well formed, the untypeds with handles \<open>D\<close> are on none of them, all
  entries lie below the next free virtual address, and \<open>k\<close> more pages fit below the end of the address space.
\<close>

definition ut_known :: "(nat \<Rightarrow> u64 list) \<Rightarrow> u64 list \<Rightarrow> u64 set \<Rightarrow> u64 set" where
  "ut_known F S D = D \<union> set S \<union> (\<Union>s \<in> {4..12}. set (F s))"

definition ut_sized :: "ut_table_t \<Rightarrow> u64 \<Rightarrow> bool" where
  "ut_sized T x \<longleftrightarrow> (\<exists>n. ut_mem T x = Some n \<and> 4 \<le> ut_size_bits n \<and> ut_size_bits n \<le> 12)"

definition ut_rep :: "'k env \<Rightarrow> u64 set \<Rightarrow> (nat \<Rightarrow> u64 list) \<Rightarrow> u64 list \<Rightarrow> bool" where
  "ut_rep w D F S \<longleftrightarrow> ut_inv (ut_tab w) F S \<and> (\<forall>x \<in> D. off_lists F S x \<and> ut_sized (ut_tab w) x) \<and>
     (\<forall>x \<in> ut_known F S D. unat x + 16 \<le> unat (next_free_vaddr w))"

definition ut_owns :: "'k env \<Rightarrow> u64 set \<Rightarrow> nat \<Rightarrow> bool" where
  "ut_owns w D k \<longleftrightarrow> (\<exists>F S. ut_rep w D F S) \<and> 0 < unat (next_free_vaddr w) \<and>
     unat (next_free_vaddr w) + 4096 * k < 2 ^ 64"

lemma ut_owns_less: "ut_owns w D (n + k) \<Longrightarrow> ut_owns w D k"
  by (auto simp: ut_owns_def)

lemma ut_owns_kst [simp]: "ut_owns (w\<lparr>kst := s\<rparr>) D k = ut_owns w D k"
  by (simp add: ut_owns_def ut_rep_def)

lemma env_call_owns: "ut_owns w D k \<Longrightarrow> env_call S i w = (e, w') \<Longrightarrow> ut_owns w' D k"
  by (auto simp: env_call_def split: prod.splits)

lemma env_alloc_4k_owns:
  assumes own: "ut_owns w D k" and run: "env_alloc_4k w = Some (u, w')"
  shows "if u = 0 then ut_owns w' D k
         else u \<notin> D \<and> ut_owns w' (insert u D) k \<and> ut_mem (ut_tab w') = ut_mem (ut_tab w) \<and>
              (\<exists>n. ut_mem (ut_tab w') u = Some n \<and> ut_size_bits n = 12)"
proof -
  from own obtain F S where rep: "ut_rep w D F S" by (auto simp: ut_owns_def)
  then have inv: "ut_inv (ut_tab w) F S" by (simp add: ut_rep_def)
  show ?thesis
  proof (cases "F 12")
    case Nil
    from run ut_alloc_4k_empty [OF inv Nil] have "u = 0" "w' = w" by (auto simp: env_alloc_4k_def)
    with own show ?thesis by simp
  next
    case (Cons x xs)
    obtain T' where T': "ut_alloc_4k_untyped (ut_tab w) = Some (x, ut_to_paddr (ut_tab w) x, T')"
      "ut_inv T' (F(12 := xs)) S" "ut_mem T' = ut_mem (ut_tab w)"
      using ut_alloc_4k_ok [OF inv Cons] by blast
    with run have u: "u = x" and w': "w' = w\<lparr>ut_tab := T'\<rparr>" by (auto simp: env_alloc_4k_def)
    note D12 = ut_invD [OF inv, of 12]
    have list: "ut_list (ut_mem (ut_tab w)) (free_untypeds (ut_tab w) ! (12 - 4)) (x # xs)" using D12(1) Cons by simp
    have x0: "x \<noteq> 0" and xxs: "x \<notin> set xs" using list ut_list_distinct [OF list] by auto
    obtain n where n: "ut_mem (ut_tab w) x = Some n" "ut_size_bits n = 12" using D12(2) [of x] Cons by auto
    have dis: "\<forall>y \<in> D. y \<notin> set (F 12)" using rep by (simp add: ut_rep_def off_lists_def)
    then have xD: "x \<notin> D" using Cons by auto
    have "off_lists (F(12 := xs)) S x"
      using ut_inv_disjoint [OF inv, of 12 _ x] D12(3) Cons x0 xxs by (auto simp: off_lists_def)
    moreover have "off_lists (F(12 := xs)) S y \<and> ut_sized T' y" if "y \<in> D" for y
      using rep that Cons T'(3) dis by (auto simp: ut_rep_def off_lists_def ut_sized_def)
    moreover have "ut_known (F(12 := xs)) S (insert x D) \<subseteq> ut_known F S D"
    proof -
      have "x \<in> (\<Union>s \<in> {4..12}. set (F s))" using Cons by (intro UN_I [of 12]) auto
      moreover have "set ((F(12 := xs)) s) \<subseteq> set (F s)" for s using Cons by auto
      ultimately show ?thesis unfolding ut_known_def by blast
    qed
    ultimately have "ut_rep w' (insert x D) (F(12 := xs)) S"
      using rep T' n by (auto simp: ut_rep_def w' ut_sized_def)
    with own x0 xD n T'(3) show ?thesis by (auto simp: ut_owns_def u w')
  qed
qed

lemma env_ut_free_owns:
  assumes own: "ut_owns w D k" and u: "u \<in> D"
  shows "\<exists>w'. env_ut_free u w = Some w' \<and> ut_owns w' (D - {u}) k"
proof -
  from own obtain F S where rep: "ut_rep w D F S" by (auto simp: ut_owns_def)
  then have inv: "ut_inv (ut_tab w) F S" and off: "off_lists F S u" using u by (auto simp: ut_rep_def)
  obtain n where n: "ut_mem (ut_tab w) u = Some n" "4 \<le> ut_size_bits n" "ut_size_bits n \<le> 12"
    using rep u by (auto simp: ut_rep_def ut_sized_def)
  let ?s = "ut_size_bits n"
  let ?F = "F(?s := u # F ?s)"
  from off n have x: "u \<noteq> 0" "u \<notin> set (F ?s)" "u \<notin> set S" by (auto simp: off_lists_def)
  from push_list_ok [OF inv n(2,3,1) refl x] n(1) obtain T' p where T': "ut_free u (ut_tab w) = Some T'"
    "ut_inv T' ?F S" "ut_mem T' = (ut_mem (ut_tab w))(u \<mapsto> n\<lparr>ut_next := p\<rparr>)"
    by (auto simp: ut_free_def)
  have "off_lists ?F S y \<and> ut_sized T' y" if "y \<in> D - {u}" for y
    using rep that T'(3) by (auto simp: ut_rep_def off_lists_def ut_sized_def)
  moreover have "ut_known ?F S (D - {u}) \<subseteq> ut_known F S D"
    using u by (auto simp: ut_known_def split: if_splits)
  ultimately have "ut_rep (w\<lparr>ut_tab := T'\<rparr>) (D - {u}) ?F S" using rep T'(2) by (auto simp: ut_rep_def)
  with own T'(1) show ?thesis by (auto simp: ut_owns_def env_ut_free_def)
qed

lemma alloc_vaddr_owns:
  assumes "ut_owns w D (Suc k)" and "alloc_vaddr err w = (v, w')"
  shows "ut_owns w' D k" and "err = 0 \<Longrightarrow> v = next_free_vaddr w \<and> v \<noteq> 0"
proof -
  from assms obtain F S where rep: "ut_rep w D F S" and b: "0 < unat (next_free_vaddr w)"
    "unat (next_free_vaddr w) + 4096 * Suc k < 2 ^ 64" by (auto simp: ut_owns_def)
  then have "unat (next_free_vaddr w + 4096) = unat (next_free_vaddr w) + 4096"
    by (simp add: unat_word_ariths)
  with assms rep b show "ut_owns w' D k"
    by (fastforce simp: alloc_vaddr_def ut_owns_def ut_rep_def PAGE_SIZE_4K_def split: if_splits)
  show "v = next_free_vaddr w \<and> v \<noteq> 0" if "err = 0" using assms(2) that b(1) by (auto simp: alloc_vaddr_def)
qed

section \<open>What the operations change\<close>

text \<open>
  \<open>evolves S w0 w\<close>: the state \<open>w\<close> is reached from \<open>w0\<close> by calls of the kernel \<open>S\<close>, by changes of the untyped table that leave the
  capability of every untyped as it is, and by taking virtual addresses.
\<close>

inductive evolves :: "'k sel4 \<Rightarrow> 'k env \<Rightarrow> 'k env \<Rightarrow> bool" for S w0 where
  evolves_refl: "evolves S w0 w0"
| evolves_call: "evolves S w0 w \<Longrightarrow> env_call S i w = (e, w') \<Longrightarrow> evolves S w0 w'"
| evolves_tab: "evolves S w0 w \<Longrightarrow> env_ut_cap (w\<lparr>ut_tab := T\<rparr>) = env_ut_cap w \<Longrightarrow> evolves S w0 (w\<lparr>ut_tab := T\<rparr>)"
| evolves_vaddr: "evolves S w0 w \<Longrightarrow> evolves S w0 (w\<lparr>next_free_vaddr := v\<rparr>)"

declare evolves_refl [simp, intro]

lemma evolves_trans: "evolves S w1 w2 \<Longrightarrow> evolves S w0 w1 \<Longrightarrow> evolves S w0 w2"
  by (induction rule: evolves.induct) (auto intro: evolves.intros)

lemma env_alloc_4k_evolves: "env_alloc_4k w = Some (u, w') \<Longrightarrow> evolves S w w'"
  by (auto simp: env_alloc_4k_def ut_alloc_4k_untyped_def pop_list_def env_ut_cap_def fun_eq_iff elim!: bind_SomeE split: if_splits
      intro!: evolves_tab)

lemma env_ut_free_evolves: "env_ut_free u w = Some w' \<Longrightarrow> evolves S w w'"
  by (auto simp: env_ut_free_def ut_free_def push_list_def push_def env_ut_cap_def fun_eq_iff elim!: bind_SomeE intro!: evolves_tab)

lemma alloc_vaddr_evolves: "alloc_vaddr e w = (v, w') \<Longrightarrow> evolves S w w'"
  by (auto simp: alloc_vaddr_def intro: evolves_vaddr split: if_splits)

text \<open>Ownership in a state that was reached from \<open>w0\<close>.\<close>

definition owns_from :: "'k sel4 \<Rightarrow> 'k env \<Rightarrow> 'k env \<Rightarrow> u64 set \<Rightarrow> nat \<Rightarrow> bool" where
  "owns_from S w0 w D k \<longleftrightarrow> ut_owns w D k \<and> evolves S w0 w"

lemma owns_from_here: "owns_from S w w D k = ut_owns w D k"
  by (simp add: owns_from_def)

lemma owns_from_less: "owns_from S w0 w D (n + k) \<Longrightarrow> owns_from S w0 w D k"
  by (auto simp: owns_from_def intro: ut_owns_less)

lemma owns_from_call: "owns_from S w0 w D k \<Longrightarrow> env_call S i w = (e, w') \<Longrightarrow> owns_from S w0 w' D k"
  by (auto simp: owns_from_def intro: env_call_owns evolves_call)

lemma owns_from_alloc:
  assumes "owns_from S w0 w D k" and "env_alloc_4k w = Some (u, w')"
  shows "if u = 0 then owns_from S w0 w' D k else u \<notin> D \<and> owns_from S w0 w' (insert u D) k"
  using env_alloc_4k_owns [of w D k u w'] evolves_trans [OF env_alloc_4k_evolves [OF assms(2)]] assms by (auto simp: owns_from_def)

lemma owns_from_free:
  assumes "owns_from S w0 w D k" and "u \<in> D"
  shows "\<exists>w'. env_ut_free u w = Some w' \<and> owns_from S w0 w' (D - {u}) k"
  using env_ut_free_owns [of w D k u] assms by (auto simp: owns_from_def intro: evolves_trans [OF env_ut_free_evolves])

lemma owns_from_vaddr:
  assumes "owns_from S w0 w D (Suc k)" and "alloc_vaddr e w = (v, w')"
  shows "owns_from S w0 w' D k"
  using assms alloc_vaddr_owns(1) [of w D k e v w'] by (auto simp: owns_from_def intro: evolves_trans [OF alloc_vaddr_evolves])

section \<open>Mapping\<close>

text \<open>
  The slots for paging structures come from the watermark, at no cost, or from the capability space, at the cost of at most one
  page each. \<open>J\<close> is what the source needs to stay in order.
\<close>

locale slots_ok =
  fixes S :: "'k sel4" and w0 :: "'k env" and next_slot :: "('s, 'k) slot_source" and J :: "'s \<Rightarrow> bool" and c :: nat
  assumes slot_owns: "J s \<Longrightarrow> owns_from S w0 w D (c + k) \<Longrightarrow> next_slot i s w = Some (slot, s', w') \<Longrightarrow>
    J s' \<and> (\<exists>D'. D \<subseteq> D' \<and> owns_from S w0 w' D' k)"
begin

lemma map_missing_owns:
  assumes J: "J s" and own: "owns_from S w0 w D (c + k)"
    and run: "map_missing S cs next_slot vspace vaddr i s w = Some (r, s', w')"
  shows "J s' \<and> (\<exists>D'. D \<subseteq> D' \<and> owns_from S w0 w' D' k)"
proof -
  from run obtain u w1 where a: "env_alloc_4k w = Some (u, w1)"
    by (auto simp: map_missing_def Let_def elim!: bind_SomeE)
  note A = owns_from_alloc [OF own a]
  show ?thesis
  proof (cases "u = 0")
    case True
    with run a A J show ?thesis by (auto simp: map_missing_def Let_def intro: owns_from_less)
  next
    case False
    with A have o1: "owns_from S w0 w1 (insert u D) (c + k)" by simp
    from run a False obtain slot s1 w2 where n: "next_slot i s w1 = Some (slot, s1, w2)"
      by (auto simp: map_missing_def Let_def elim!: bind_SomeE)
    from slot_owns [OF J o1 n] obtain D' where D': "J s1" "insert u D \<subseteq> D'" "owns_from S w0 w2 D' k" by blast
    have retype: "owns_from S w0 w'' D' k"
      if "untyped_retype_at (env_call S) r t x y ty z w2 = (e, w'')" for r t x y ty z e w''
      using that owns_from_call [OF D'(3)] by (auto simp: untyped_retype_at_def split: if_splits)
    from run a False n have "s' = s1" and "owns_from S w0 w' D' k"
      using D'(3) retype owns_from_call
      by (auto simp: map_missing_def Let_def retype_map_pt_def retype_map_pd_def retype_map_pud_def
          elim!: bind_SomeE split: if_splits prod.splits) blast+
    with D' show ?thesis by blast
  qed
qed

lemma map_frame_loop_owns:
  assumes "map_frame_loop S cs next_slot mc vspace vaddr i err s w = Some (r, s', w')"
    and "J s" and "owns_from S w0 w D ((3 - i) * c + k)"
  shows "J s' \<and> (\<exists>D'. D \<subseteq> D' \<and> owns_from S w0 w' D' k)"
  using assms
proof (induction "3 - i" arbitrary: i err s w D)
  case 0
  then show ?case by (subst (asm) map_frame_loop.simps) auto
next
  case (Suc n)
  from Suc.hyps(2) have i: "i < 3" and n: "3 - Suc i = n" by simp_all
  then have cost: "(3 - i) * c = c + (3 - Suc i) * c" using Suc.hyps(2) by (metis mult_Suc)
  have own: "owns_from S w0 w D (c + ((3 - Suc i) * c + k))" using Suc.prems(3) cost by (simp add: add.assoc)
  show ?case
  proof (cases "err = seL4_FailedLookup")
    case False
    with Suc.prems show ?thesis by (subst (asm) map_frame_loop.simps) (auto intro: owns_from_less)
  next
    case True
    with Suc.prems(1) i obtain r1 s1 w1 where m: "map_missing S cs next_slot vspace vaddr i s w = Some (r1, s1, w1)"
      by (subst (asm) map_frame_loop.simps) (auto split: option.splits)
    from map_missing_owns [OF Suc.prems(2) own m] obtain D1 where D1: "J s1" "D \<subseteq> D1"
      "owns_from S w0 w1 D1 ((3 - Suc i) * c + k)" by blast
    show ?thesis
    proof (cases r1)
      case (Inl e)
      with Suc.prems(1) True i m have "s' = s1" "w' = w1" by (subst (asm) map_frame_loop.simps, simp)+
      with D1 show ?thesis by (auto intro: owns_from_less)
    next
      case (Inr e)
      obtain e2 w2 where e2: "(if e = 0 then env_call S mc w1 else (e, w1)) = (e2, w2)" by fastforce
      have o2: "owns_from S w0 w2 D1 ((3 - Suc i) * c + k)"
        using e2 D1(3) owns_from_call by (auto split: if_splits)
      have "map_frame_loop S cs next_slot mc vspace vaddr (Suc i) e2 s1 w2 = Some (r, s', w')"
        using Suc.prems(1) True i m Inr e2 by (subst (asm) map_frame_loop.simps) simp
      from Suc.hyps(1) [OF n [symmetric] this D1(1) o2] D1(2) show ?thesis by blast
    qed
  qed
qed

lemma map_frame_impl_owns:
  assumes run: "map_frame_impl S cs next_slot f vspace vaddr rights attr s w = Some (r, s', w')"
    and J: "J s" and own: "owns_from S w0 w D (3 * c + k)"
  shows "J s' \<and> (\<exists>D'. D \<subseteq> D' \<and> owns_from S w0 w' D' k)"
proof -
  obtain e w1 where e: "env_call S (ARM_Page_Map f vspace vaddr rights attr) w = (e, w1)" by fastforce
  from owns_from_call [OF own e] have own1: "owns_from S w0 w1 D ((3 - 0) * c + k)" by simp
  have loop: "map_frame_loop S cs next_slot (ARM_Page_Map f vspace vaddr rights attr) vspace vaddr 0 e s w1 =
      Some (r, s', w')" using run e by (simp add: map_frame_impl_def)
  from map_frame_loop_owns [OF loop J own1] show ?thesis .
qed

end

interpretation wm: slots_ok S w0 "slots_from_watermark free_slots" "\<lambda>_. True" 0 for S w0 free_slots
  by unfold_locales (auto simp: slots_from_watermark_def elim!: bind_SomeE)

section \<open>The callbacks of the bootstrapped capability space\<close>

lemma bootstrap_map_frame_owns:
  assumes run: "bootstrap_cspace_map_frame S cookie cap fs used w = Some (v, used', w')" and own: "owns_from S w0 w D (Suc k)"
  shows "\<exists>D'. D \<subseteq> D' \<and> owns_from S w0 w' D' k"
proof -
  from run obtain e u1 w1 where m: "map_frame_cspace S cookie cap (bs_vspace w) (next_free_vaddr w) seL4_AllRights
      seL4_ARM_Default_VMAttributes fs used w = Some (e, u1, w1)" and v: "alloc_vaddr e w1 = (v, w')"
    by (auto simp: bootstrap_cspace_map_frame_def Let_def elim!: bind_SomeE split: prod.splits)
  have "\<exists>D'. D \<subseteq> D' \<and> owns_from S w0 w1 D' (Suc k)"
  proof (cases cookie)
    case None
    with m own show ?thesis by (auto simp: map_frame_cspace_def)
  next
    case (Some cs)
    with m have "map_frame_impl S cs (slots_from_watermark fs) cap (bs_vspace w) (next_free_vaddr w) seL4_AllRights
      seL4_ARM_Default_VMAttributes used w = Some (e, u1, w1)" by (simp add: map_frame_cspace_def)
    from wm.map_frame_impl_owns [OF this TrueI, where D = D and k = "Suc k"] own show ?thesis by simp
  qed
  with owns_from_vaddr [OF _ v] show ?thesis by blast
qed

interpretation boot: untyped_callbacks "env_call S" "bootstrap_alloc S cookie" "owns_from S w0" for S :: "'k sel4" and cookie and w0
proof
  fix w w' :: "'k env" and D k i e u c f fs used v used'
  show "owns_from S w0 w D k \<Longrightarrow> env_call S i w = (e, w') \<Longrightarrow> owns_from S w0 w' D k" by (rule owns_from_call)
  show "if u = 0 then owns_from S w0 w' D k else u \<notin> D \<and> owns_from S w0 w' (insert u D) k"
    if own: "owns_from S w0 w D k"
      and run: "fn_alloc_4k_ut (bootstrap_alloc S cookie) (al_cookie (bootstrap_alloc S cookie)) w = Some (u, c, w')"
  proof -
    from run have "env_alloc_4k w = Some (u, w')"
      by (auto simp: bootstrap_alloc_def bootstrap_cspace_alloc_4k_ut_def elim!: bind_SomeE)
    from owns_from_alloc [OF own this] show ?thesis by (auto split: if_splits)
  qed
  show "\<exists>w'. fn_free_4k_ut (bootstrap_alloc S cookie) (al_cookie (bootstrap_alloc S cookie)) u w = Some w' \<and>
      owns_from S w0 w' (D - {u}) k" if "owns_from S w0 w D k" "u \<in> D"
    using owns_from_free [OF that] by (simp add: bootstrap_alloc_def bootstrap_cspace_free_4k_ut_def)
  show "\<exists>D'. D \<subseteq> D' \<and> owns_from S w0 w' D' k" if "owns_from S w0 w D (Suc k)"
      "fn_map_frame (bootstrap_alloc S cookie) (al_cookie (bootstrap_alloc S cookie)) f fs used w = Some (v, used', w')"
    using bootstrap_map_frame_owns [OF _ that(1)] that(2) by (simp add: bootstrap_alloc_def)
  show "owns_from S w0 w D (Suc k) \<Longrightarrow> owns_from S w0 w D k" using owns_from_less [of S w0 w D 1 k] by simp
qed

section \<open>The calls of the kernel\<close>

text \<open>A kernel that keeps a record of its calls and their results; it answers as the kernel \<open>S\<close> does.\<close>

definition logged :: "'k sel4 \<Rightarrow> ('k \<times> (invocation \<times> int) list) sel4" where
  "logged S = \<lparr>sys_call = (\<lambda>i (k, l). let (e, k) = sys_call S i k in (e, k, l @ [(i, e)])), lookup_level = (\<lambda>(k, l). lookup_level S k)\<rparr>"

definition kernel_log :: "('k \<times> (invocation \<times> int) list) env \<Rightarrow> (invocation \<times> int) set" where
  "kernel_log w = set (snd (kst w))"

lemma logged_call: "env_call (logged S) i w = (e, w') \<Longrightarrow> kernel_log w' = insert (i, e) (kernel_log w)"
  by (auto simp: env_call_def logged_def kernel_log_def Let_def split: prod.splits)

text \<open>No entry of the record is lost, and the capabilities of the untypeds do not change.\<close>

lemma evolves_logged: "evolves (logged S) w0 w \<Longrightarrow> kernel_log w0 \<subseteq> kernel_log w \<and> env_ut_cap w = env_ut_cap w0"
proof (induction rule: evolves.induct)
  case (evolves_call w i e w')
  then have "env_ut_cap w' = env_ut_cap w" by (auto simp: env_call_def env_ut_cap_def fun_eq_iff split: prod.splits)
  with evolves_call logged_call [OF evolves_call(2)] show ?case by auto
qed (auto simp: kernel_log_def env_ut_cap_def fun_eq_iff)

end
