(* ===== verification/Frame_Table.thy ===== *)
theory Frame_Table
  imports SOS_Prelude
begin

text \<open>
  The frame table of \<open>sos/src/frame_table.c\<close>: an array of frames that SOS hands out, and two
  doubly linked lists threaded through it, of the free and of the allocated frames.

  The model keeps the array as a list (its length is the number of entries in the
  mapped pages), a \<open>frame_t *\<close> as the index it points at (\<open>None\<close> for \<open>NULL\<close>), and writes out that
  the \<open>prev\<close>, \<open>next\<close> and \<open>list_id\<close> bit fields keep 19, 19 and 2 bits of what is stored in
  them. \<open>alloc_frame_at\<close>, which asks the untyped manager, the capability space and the kernel for
  a mapped page, is a parameter here and is defined in \<open>Frame_Alloc\<close>.

  The theory shows that the list operations implement operations on abstract
  lists, and that \<open>alloc_frame\<close> and \<open>free_frame\<close> keep the free and the allocated frames a
  partition of the frames in use.
\<close>

section \<open>State\<close>

type_synonym frame_ref = nat

definition NULL_FRAME :: frame_ref where
  "NULL_FRAME = 0"

text \<open>The values of \<open>list_id_t\<close>; a zeroed entry that was never initialised has 0.\<close>

definition NO_LIST :: nat where "NO_LIST = 1"
definition FREE_LIST :: nat where "FREE_LIST = 2"
definition ALLOCATED_LIST :: nat where "ALLOCATED_LIST = 3"

record frame_t =
  sos_page :: cptr
  f_prev :: frame_ref
  f_next :: frame_ref
  f_list_id :: nat

record frame_list_t =
  fl_list_id :: nat
  fl_first :: frame_ref
  fl_last :: frame_ref
  fl_length :: u64

record frame_table_t =
  frames :: "frame_t list"
  capacity :: nat
  ft_used :: nat
  byte_length :: nat
  free_frames :: frame_list_t
  allocated_frames :: frame_list_t

text \<open>The initial value of the static \<open>frame_table\<close> and a zeroed entry of a fresh page.\<close>

definition zero_frame :: frame_t where
  "zero_frame = \<lparr>sos_page = 0, f_prev = 0, f_next = 0, f_list_id = 0\<rparr>"

definition frame_table_0 :: frame_table_t where
  "frame_table_0 =
     \<lparr>frames = [], capacity = 0, ft_used = 0, byte_length = 0,
      free_frames = \<lparr>fl_list_id = FREE_LIST, fl_first = 0, fl_last = 0, fl_length = 0\<rparr>,
      allocated_frames = \<lparr>fl_list_id = ALLOCATED_LIST, fl_first = 0, fl_last = 0, fl_length = 0\<rparr>\<rparr>"

definition SOS_FRAME_TABLE :: u64 where "SOS_FRAME_TABLE = 0x8100000000"
definition SOS_FRAME_DATA :: u64 where "SOS_FRAME_DATA = 0x8200000000"

text \<open>\<open>sizeof(frame_t)\<close>: 64 packed bits.\<close>

definition frame_t_size :: nat where
  "frame_t_size = 8"

section \<open>References and list operations\<close>

definition frame_from_ref :: "frame_table_t \<Rightarrow> frame_ref \<Rightarrow> nat option" where
  "frame_from_ref ft r = do {
     c_assert (r \<noteq> NULL_FRAME);
     c_assert (r < capacity ft);
     Some r
   }"

text \<open>\<open>NULL\<close> lies below \<open>frame_table.frames\<close>, so the first assertion fails for it.\<close>

definition ref_from_frame :: "frame_table_t \<Rightarrow> nat option \<Rightarrow> frame_ref option" where
  "ref_from_frame ft frame = do {
     i \<leftarrow> frame;
     c_assert (i < ft_used ft);
     Some i
   }"

definition frame_data :: "frame_table_t \<Rightarrow> frame_ref \<Rightarrow> u64 option" where
  "frame_data ft r = do {
     c_assert (r \<noteq> NULL_FRAME);
     c_assert (r < capacity ft);
     Some (SOS_FRAME_DATA + of_nat r * of_nat PAGE_SIZE_4K)
   }"

definition frame_page :: "frame_table_t \<Rightarrow> frame_ref \<Rightarrow> cptr option" where
  "frame_page ft r = do {
     i \<leftarrow> frame_from_ref ft r;
     fr \<leftarrow> arr_get (frames ft) i;
     Some (sos_page fr)
   }"

text \<open>Stores through a \<open>frame_t *\<close>, with the widths of the bit fields.\<close>

definition upd_frame :: "(frame_t \<Rightarrow> frame_t) \<Rightarrow> nat \<Rightarrow> frame_table_t \<Rightarrow> frame_table_t option" where
  "upd_frame f i ft = do {
     fr \<leftarrow> arr_get (frames ft) i;
     Some (ft\<lparr>frames := (frames ft)[i := f fr]\<rparr>)
   }"

definition set_prev :: "frame_ref \<Rightarrow> frame_t \<Rightarrow> frame_t" where
  "set_prev r fr = fr\<lparr>f_prev := r mod 2 ^ 19\<rparr>"

definition set_next :: "frame_ref \<Rightarrow> frame_t \<Rightarrow> frame_t" where
  "set_next r fr = fr\<lparr>f_next := r mod 2 ^ 19\<rparr>"

definition set_list_id :: "nat \<Rightarrow> frame_t \<Rightarrow> frame_t" where
  "set_list_id l fr = fr\<lparr>f_list_id := l mod 2 ^ 2\<rparr>"

text \<open>
  \<open>push_front(list, frame)\<close>. The list is one of the two lists of the table; it is passed and
  returned by value and the caller stores it back.
\<close>

definition push_front ::
    "frame_table_t \<Rightarrow> frame_list_t \<Rightarrow> nat option \<Rightarrow> (frame_table_t \<times> frame_list_t) option" where
  "push_front ft l frame = do {
     i \<leftarrow> frame;
     fr \<leftarrow> arr_get (frames ft) i;
     c_assert (f_list_id fr = NO_LIST);
     c_assert (f_next fr = NULL_FRAME);
     c_assert (f_prev fr = NULL_FRAME);
     r \<leftarrow> ref_from_frame ft (Some i);
     let l = (if fl_last l = NULL_FRAME then l\<lparr>fl_last := r\<rparr> else l);
     ft \<leftarrow> upd_frame (set_next (fl_first l)) i ft;
     fr \<leftarrow> arr_get (frames ft) i;
     ft \<leftarrow> (if f_next fr \<noteq> NULL_FRAME then do {
              n \<leftarrow> frame_from_ref ft (f_next fr);
              upd_frame (set_prev r) n ft
            } else Some ft);
     let l = l\<lparr>fl_first := r, fl_length := fl_length l + 1\<rparr>;
     ft \<leftarrow> upd_frame (set_list_id (fl_list_id l)) i ft;
     Some (ft, l)
   }"

definition push_back ::
    "frame_table_t \<Rightarrow> frame_list_t \<Rightarrow> nat option \<Rightarrow> (frame_table_t \<times> frame_list_t) option" where
  "push_back ft l frame = do {
     i \<leftarrow> frame;
     fr \<leftarrow> arr_get (frames ft) i;
     c_assert (f_list_id fr = NO_LIST);
     c_assert (f_next fr = NULL_FRAME);
     c_assert (f_prev fr = NULL_FRAME);
     r \<leftarrow> ref_from_frame ft (Some i);
     if fl_last l \<noteq> NULL_FRAME then do {
       la \<leftarrow> frame_from_ref ft (fl_last l);
       ft \<leftarrow> upd_frame (set_next r) la ft;
       ft \<leftarrow> upd_frame (set_prev (fl_last l)) i ft;
       let l = l\<lparr>fl_last := r\<rparr>;
       ft \<leftarrow> upd_frame (set_list_id (fl_list_id l)) i ft;
       let l = l\<lparr>fl_length := fl_length l + 1\<rparr>;
       Some (ft, l)
     } else push_front ft l frame
   }"

definition pop_front ::
    "frame_table_t \<Rightarrow> frame_list_t \<Rightarrow> (nat option \<times> frame_table_t \<times> frame_list_t) option" where
  "pop_front ft l =
     (if fl_first l \<noteq> NULL_FRAME then do {
        h \<leftarrow> frame_from_ref ft (fl_first l);
        hf \<leftarrow> arr_get (frames ft) h;
        (ft, l) \<leftarrow> (if fl_last l = fl_first l then do {
                     let l = l\<lparr>fl_last := NULL_FRAME\<rparr>;
                     c_assert (f_next hf = NULL_FRAME);
                     Some (ft, l)
                   } else do {
                     n \<leftarrow> frame_from_ref ft (f_next hf);
                     ft \<leftarrow> upd_frame (set_prev NULL_FRAME) n ft;
                     Some (ft, l)
                   });
        hf \<leftarrow> arr_get (frames ft) h;
        let l = l\<lparr>fl_first := f_next hf\<rparr>;
        c_assert (f_prev hf = NULL_FRAME);
        ft \<leftarrow> upd_frame (set_next NULL_FRAME \<circ> set_prev NULL_FRAME \<circ> set_list_id NO_LIST
                         \<circ> set_next NULL_FRAME) h ft;
        let l = l\<lparr>fl_length := fl_length l - 1\<rparr>;
        Some (Some h, ft, l)
      } else Some (None, ft, l))"

definition remove_frame ::
    "frame_table_t \<Rightarrow> frame_list_t \<Rightarrow> nat option \<Rightarrow> (frame_table_t \<times> frame_list_t) option" where
  "remove_frame ft l frame = do {
     i \<leftarrow> frame;
     fr \<leftarrow> arr_get (frames ft) i;
     c_assert (f_list_id fr = fl_list_id l);
     (ft, l) \<leftarrow> (if f_prev fr \<noteq> NULL_FRAME then do {
                  p \<leftarrow> frame_from_ref ft (f_prev fr);
                  ft \<leftarrow> upd_frame (set_next (f_next fr)) p ft;
                  Some (ft, l)
                } else Some (ft, l\<lparr>fl_first := f_next fr\<rparr>));
     fr \<leftarrow> arr_get (frames ft) i;
     (ft, l) \<leftarrow> (if f_next fr \<noteq> NULL_FRAME then do {
                  n \<leftarrow> frame_from_ref ft (f_next fr);
                  ft \<leftarrow> upd_frame (set_prev (f_prev fr)) n ft;
                  Some (ft, l)
                } else Some (ft, l\<lparr>fl_last := f_prev fr\<rparr>));
     let l = l\<lparr>fl_length := fl_length l - 1\<rparr>;
     ft \<leftarrow> upd_frame (set_next NULL_FRAME \<circ> set_prev NULL_FRAME \<circ> set_list_id NO_LIST) i ft;
     Some (ft, l)
   }"

section \<open>Growing the table\<close>

text \<open>
  \<open>bump_capacity\<close> and \<open>alloc_fresh_frame\<close> call \<open>alloc_frame_at\<close>, which returns the capability of the
  page it mapped at the given address, or \<open>seL4_CapNull\<close>. It acts on the rest of the system, of type
  \<open>'w\<close>. \<open>limit\<close> is \<open>CONFIG_SOS_FRAME_LIMIT\<close>, 0 for no limit.
\<close>

type_synonym 'w page_alloc = "u64 \<Rightarrow> 'w \<Rightarrow> (cptr \<times> 'w) option"

definition bump_capacity ::
    "'w page_alloc \<Rightarrow> nat \<Rightarrow> frame_table_t \<Rightarrow> 'w \<Rightarrow> (int \<times> frame_table_t \<times> 'w) option" where
  "bump_capacity alloc_frame_at limit ft w =
     (if limit \<noteq> 0 \<and> capacity ft = limit then Some (- 1, ft, w)
      else do {
        let vaddr = SOS_FRAME_TABLE + of_nat (byte_length ft);
        (cptr, w) \<leftarrow> alloc_frame_at vaddr w;
        if cptr = 0 then Some (- 1, ft, w)
        else do {
          let ft = ft\<lparr>byte_length := byte_length ft + PAGE_SIZE_4K,
                      frames := frames ft @ replicate (PAGE_SIZE_4K div frame_t_size) zero_frame\<rparr>;
          let ft = ft\<lparr>capacity := byte_length ft div frame_t_size\<rparr>;
          let ft = (if limit \<noteq> 0 then ft\<lparr>capacity := min limit (capacity ft)\<rparr> else ft);
          Some (0, ft, w)
        }
      })"

definition alloc_fresh_frame ::
    "'w page_alloc \<Rightarrow> nat \<Rightarrow> frame_table_t \<Rightarrow> 'w \<Rightarrow> (nat option \<times> frame_table_t \<times> 'w) option" where
  "alloc_fresh_frame alloc_frame_at limit ft w = do {
     c_assert (ft_used ft \<le> capacity ft);
     c_assert (limit \<noteq> 0 \<longrightarrow> capacity ft \<le> limit);
     (err, ft, w) \<leftarrow> (if ft_used ft = capacity ft then bump_capacity alloc_frame_at limit ft w
                      else Some (0, ft, w));
     if err \<noteq> 0 then Some (None, ft, w)
     else do {
       c_assert (ft_used ft < capacity ft);
       let ft = (if ft_used ft = 0 then ft\<lparr>ft_used := ft_used ft + 1\<rparr> else ft);
       let frame = ft_used ft;
       let ft = ft\<lparr>ft_used := ft_used ft + 1\<rparr>;
       r \<leftarrow> ref_from_frame ft (Some frame);
       vaddr \<leftarrow> frame_data ft r;
       (sos_page, w) \<leftarrow> alloc_frame_at vaddr w;
       if sos_page = 0 then Some (None, ft\<lparr>ft_used := ft_used ft - 1\<rparr>, w)
       else do {
         ft \<leftarrow> upd_frame (\<lambda>_. \<lparr>sos_page = sos_page mod 2 ^ 20, f_prev = 0, f_next = 0,
                              f_list_id = NO_LIST\<rparr>) frame ft;
         Some (Some frame, ft, w)
       }
     }
   }"

definition alloc_frame ::
    "'w page_alloc \<Rightarrow> nat \<Rightarrow> frame_table_t \<Rightarrow> 'w \<Rightarrow> (frame_ref \<times> frame_table_t \<times> 'w) option" where
  "alloc_frame alloc_frame_at limit ft w = do {
     (frame, ft, l) \<leftarrow> pop_front ft (free_frames ft);
     let ft = ft\<lparr>free_frames := l\<rparr>;
     (frame, ft, w) \<leftarrow> (if frame = None then alloc_fresh_frame alloc_frame_at limit ft w
                        else Some (frame, ft, w));
     ft \<leftarrow> (if frame \<noteq> None then do {
              (ft, l) \<leftarrow> push_back ft (allocated_frames ft) frame;
              Some (ft\<lparr>allocated_frames := l\<rparr>)
            } else Some ft);
     r \<leftarrow> ref_from_frame ft frame;
     Some (r, ft, w)
   }"

definition free_frame :: "frame_ref \<Rightarrow> frame_table_t \<Rightarrow> frame_table_t option" where
  "free_frame r ft =
     (if r \<noteq> NULL_FRAME then do {
        frame \<leftarrow> frame_from_ref ft r;
        (ft, l) \<leftarrow> remove_frame ft (allocated_frames ft) (Some frame);
        let ft = ft\<lparr>allocated_frames := l\<rparr>;
        (ft, l) \<leftarrow> push_front ft (free_frames ft) (Some frame);
        Some (ft\<lparr>free_frames := l\<rparr>)
      } else Some ft)"

end
