(* ===== verification/Frame_Table_Lists.thy ===== *)
theory Frame_Table_Lists
  imports Frame_Table
begin

text \<open>
  The doubly linked lists of the frame table implement abstract lists of frame references.

  \<open>seg fs lid p xs n\<close> says that the frames \<open>xs\<close> are linked in this order in both directions,
  carry the list identifier \<open>lid\<close>, and hang between the references \<open>p\<close> and \<open>n\<close>; \<open>flist ft l xs\<close>
  adds the header \<open>l\<close>. Each operation is shown to return on such a list, to represent
  the expected abstract list afterwards and to leave every other list alone; these
  are the laws of the locale \<open>ref_lists\<close>, from which the moves of a frame between two lists
  that \<open>alloc_frame\<close> and \<open>free_frame\<close> make are derived once.
\<close>

section \<open>Segments\<close>

definition hd_or :: "nat \<Rightarrow> nat list \<Rightarrow> nat" where
  "hd_or n xs = (case xs of [] \<Rightarrow> n | x # _ \<Rightarrow> x)"

definition last_or :: "nat \<Rightarrow> nat list \<Rightarrow> nat" where
  "last_or p xs = (if xs = [] then p else last xs)"

fun seg :: "frame_t list \<Rightarrow> nat \<Rightarrow> nat \<Rightarrow> nat list \<Rightarrow> nat \<Rightarrow> bool" where
  "seg fs lid p [] n \<longleftrightarrow> True"
| "seg fs lid p (x # xs) n \<longleftrightarrow>
     f_prev (fs ! x) = p \<and> f_list_id (fs ! x) = lid \<and> f_next (fs ! x) = hd_or n xs \<and>
     seg fs lid x xs n"

definition ft_ok :: "frame_table_t \<Rightarrow> bool" where
  "ft_ok ft \<longleftrightarrow> ft_used ft \<le> capacity ft \<and> capacity ft \<le> length (frames ft) \<and> ft_used ft \<le> 2 ^ 19"

definition flist :: "frame_table_t \<Rightarrow> frame_list_t \<Rightarrow> nat list \<Rightarrow> bool" where
  "flist ft l xs \<longleftrightarrow>
     ft_ok ft \<and> fl_list_id l \<in> {FREE_LIST, ALLOCATED_LIST} \<and> distinct xs \<and>
     (\<forall>x \<in> set xs. 0 < x \<and> x < ft_used ft) \<and>
     seg (frames ft) (fl_list_id l) 0 xs 0 \<and>
     fl_first l = hd_or 0 xs \<and> fl_last l = last_or 0 xs \<and> fl_length l = of_nat (length xs)"

text \<open>A frame that is in no list, as \<open>pop_front\<close>, \<open>remove_frame\<close> and \<open>alloc_fresh_frame\<close> leave it.\<close>

definition loose :: "frame_table_t \<Rightarrow> nat \<Rightarrow> bool" where
  "loose ft r \<longleftrightarrow>
     0 < r \<and> r < ft_used ft \<and>
     f_list_id (frames ft ! r) = NO_LIST \<and> f_next (frames ft ! r) = 0 \<and> f_prev (frames ft ! r) = 0"

definition ft_view :: "frame_table_t \<Rightarrow> frame_t list \<times> nat \<times> nat" where
  "ft_view ft = (frames ft, capacity ft, ft_used ft)"

named_theorems list_ops \<open>unfolding of the frame list operations\<close>

lemmas list_op_defs [list_ops] =
  upd_frame_def frame_from_ref_def ref_from_frame_def NULL_FRAME_def
  set_prev_def set_next_def set_list_id_def

lemmas list_ids [simp] = NO_LIST_def FREE_LIST_def ALLOCATED_LIST_def

lemma hd_or_simps [simp]:
  "hd_or n [] = n" "hd_or n (x # xs) = x" "hd_or n (xs @ ys) = hd_or (hd_or n ys) xs"
  by (auto simp: hd_or_def split: list.split)

lemma last_or_simps [simp]:
  "last_or p [] = p" "last_or p (x # xs) = last_or x xs" "last_or p (xs @ ys) = last_or (last_or p xs) ys"
  by (auto simp: last_or_def)

lemma seg_append [simp]:
  "seg fs lid p (xs @ ys) n \<longleftrightarrow> seg fs lid p xs (hd_or n ys) \<and> seg fs lid (last_or p xs) ys n"
  by (induction xs arbitrary: p) auto

lemma seg_cong: "(\<And>x. x \<in> set xs \<Longrightarrow> fs' ! x = fs ! x) \<Longrightarrow> seg fs' lid p xs n = seg fs lid p xs n"
  by (induction xs arbitrary: p) auto

lemma seg_update [simp]: "i \<notin> set xs \<Longrightarrow> seg (fs[i := fr]) lid p xs n = seg fs lid p xs n"
  by (rule seg_cong) (metis nth_list_update_neq)

lemma seg_list_id: "seg fs lid p xs n \<Longrightarrow> x \<in> set xs \<Longrightarrow> f_list_id (fs ! x) = lid"
  by (induction xs arbitrary: p) auto

lemma flist_ok: "flist ft l xs \<Longrightarrow> ft_ok ft"
  by (simp add: flist_def)

lemma flist_bounds:
  assumes "flist ft l xs" and "x \<in> set xs"
  shows "0 < x" "x < ft_used ft" "x < capacity ft" "x < length (frames ft)" "x < 524288"
  using assms by (auto simp: flist_def ft_ok_def)

lemma loose_bounds:
  assumes "loose ft r" and "ft_ok ft"
  shows "0 < r" "r < ft_used ft" "r < capacity ft" "r < length (frames ft)" "r < 524288"
  using assms by (auto simp: loose_def ft_ok_def)

lemma flist_not_loose: "flist ft l xs \<Longrightarrow> loose ft r \<Longrightarrow> r \<notin> set xs"
  by (auto simp: flist_def loose_def dest: seg_list_id)

lemma flist_view: "ft_view ft = ft_view ft' \<Longrightarrow> flist ft l xs \<Longrightarrow> flist ft' l xs"
  by (simp add: ft_view_def flist_def ft_ok_def)

lemma loose_view: "ft_view ft = ft_view ft' \<Longrightarrow> loose ft r \<Longrightarrow> loose ft' r"
  by (simp add: ft_view_def loose_def)

text \<open>What an operation may change: the frames in \<open>A\<close>, and of those not the page.\<close>

definition touches :: "frame_table_t \<Rightarrow> frame_table_t \<Rightarrow> nat set \<Rightarrow> bool" where
  "touches ft ft' A \<longleftrightarrow>
     (\<forall>i. i \<notin> A \<longrightarrow> frames ft' ! i = frames ft ! i) \<and>
     (\<forall>i. sos_page (frames ft' ! i) = sos_page (frames ft ! i)) \<and>
     length (frames ft') = length (frames ft) \<and> capacity ft' = capacity ft \<and>
     ft_used ft' = ft_used ft \<and> byte_length ft' = byte_length ft \<and>
     free_frames ft' = free_frames ft \<and> allocated_frames ft' = allocated_frames ft"

lemma touches_flist:
  "touches ft ft' A \<Longrightarrow> flist ft l ys \<Longrightarrow> set ys \<inter> A = {} \<Longrightarrow> flist ft' l ys"
proof -
  assume t: "touches ft ft' A" and ys: "flist ft l ys" and A: "set ys \<inter> A = {}"
  have "seg (frames ft') (fl_list_id l) 0 ys 0 = seg (frames ft) (fl_list_id l) 0 ys 0"
    using t A by (intro seg_cong) (auto simp: touches_def)
  with t ys show "flist ft' l ys" by (simp add: touches_def flist_def ft_ok_def)
qed

lemma touches_elem: "touches ft ft' A \<Longrightarrow> i \<notin> A \<Longrightarrow> frames ft' ! i = frames ft ! i"
  by (simp add: touches_def)

lemma touches_others:
  assumes "touches ft ft' (insert r A)" and "flist ft m ys" and "set ys \<inter> A = {}" and "r \<notin> set ys"
  shows "flist ft' m ys"
  using touches_flist [OF assms(1,2)] assms(3,4) by auto

lemma touches_loose: "touches ft ft' A \<Longrightarrow> loose ft r \<Longrightarrow> r \<notin> A \<Longrightarrow> loose ft' r"
  by (simp add: touches_def loose_def)

lemma touches_ok: "touches ft ft' A \<Longrightarrow> ft_ok ft' = ft_ok ft"
  by (simp add: touches_def ft_ok_def)

section \<open>The operations on represented lists\<close>

lemma push_front_ex:
  assumes xs: "flist ft l xs" and r: "loose ft r"
  shows "\<exists>ft' l'. push_front ft l (Some r) = Some (ft', l') \<and> flist ft' l' (r # xs) \<and>
           fl_list_id l' = fl_list_id l \<and> touches ft ft' (insert r (set xs))"
proof -
  note b = loose_bounds [OF r flist_ok [OF xs]] and nr = flist_not_loose [OF xs r]
  show ?thesis
  proof (cases xs)
    case Nil
    with xs r b show ?thesis
      by (auto simp: push_front_def list_ops flist_def ft_ok_def touches_def nth_list_update loose_def)
  next
    case (Cons y ys)
    then have y: "y \<in> set xs" by simp
    note yb = flist_bounds [OF xs y]
    from xs Cons nr have "r \<noteq> y" "r \<notin> set ys" "y \<notin> set ys" "last_or y ys \<noteq> 0"
      by (auto simp: flist_def last_or_def)
    with xs r b yb Cons show ?thesis
      by (auto simp: push_front_def list_ops flist_def ft_ok_def touches_def nth_list_update loose_def)
  qed
qed

lemma push_back_ex:
  assumes xs: "flist ft l xs" and r: "loose ft r"
  shows "\<exists>ft' l'. push_back ft l (Some r) = Some (ft', l') \<and> flist ft' l' (xs @ [r]) \<and>
           fl_list_id l' = fl_list_id l \<and> touches ft ft' (insert r (set xs))"
proof -
  note b = loose_bounds [OF r flist_ok [OF xs]] and nr = flist_not_loose [OF xs r]
  show ?thesis
  proof (cases xs rule: rev_cases)
    case Nil
    with xs r b have "push_back ft l (Some r) = push_front ft l (Some r)"
      by (simp add: push_back_def list_ops flist_def loose_def)
    with push_front_ex [OF xs r] Nil show ?thesis by simp
  next
    case (snoc ys z)
    then have z: "z \<in> set xs" by simp
    note zb = flist_bounds [OF xs z]
    from xs snoc nr have "r \<noteq> z" "r \<notin> set ys" "z \<notin> set ys"
      by (auto simp: flist_def)
    with xs r b zb snoc show ?thesis
      by (auto simp: push_back_def list_ops flist_def ft_ok_def touches_def nth_list_update loose_def)
  qed
qed

lemma pop_front_Nil: "flist ft l [] \<Longrightarrow> pop_front ft l = Some (None, ft, l)"
  by (simp add: pop_front_def flist_def NULL_FRAME_def)

lemma pop_front_Cons:
  assumes xs: "flist ft l (r # xs)"
  shows "\<exists>ft' l'. pop_front ft l = Some (Some r, ft', l') \<and> flist ft' l' xs \<and> loose ft' r \<and>
           fl_list_id l' = fl_list_id l \<and> touches ft ft' (insert r (set xs))"
proof -
  have "r \<in> set (r # xs)" by simp
  note b = flist_bounds [OF xs this]
  show ?thesis
  proof (cases xs)
    case Nil
    with xs b show ?thesis
      by (auto simp: pop_front_def list_ops flist_def ft_ok_def touches_def nth_list_update loose_def)
  next
    case (Cons y ys)
    then have y: "y \<in> set (r # xs)" by simp
    note yb = flist_bounds [OF xs y]
    from xs Cons have "r \<noteq> y" "r \<notin> set ys" "y \<notin> set ys" "last_or y ys \<noteq> r"
      by (auto simp: flist_def last_or_def dest: last_in_set)
    with xs b yb Cons show ?thesis
      by (auto simp: pop_front_def list_ops flist_def ft_ok_def touches_def nth_list_update loose_def)
  qed
qed

lemma remove_frame_split:
  assumes xs: "flist ft l (ys @ r # zs)"
  shows "\<exists>ft' l'. remove_frame ft l (Some r) = Some (ft', l') \<and> flist ft' l' (ys @ zs) \<and>
           loose ft' r \<and> fl_list_id l' = fl_list_id l \<and> touches ft ft' (insert r (set (ys @ zs)))"
proof -
  have "r \<in> set (ys @ r # zs)" by simp
  note b = flist_bounds [OF xs this]
  show ?thesis
  proof (cases ys rule: rev_cases)
    case Nil
    show ?thesis
    proof (cases zs)
      case Nil
      with xs b \<open>ys = []\<close> show ?thesis
        by (auto simp: remove_frame_def list_ops flist_def ft_ok_def touches_def nth_list_update loose_def)
    next
      case (Cons n zs')
      then have "n \<in> set (ys @ r # zs)" by simp
      note nb = flist_bounds [OF xs this]
      from xs Cons Nil have "r \<noteq> n" "r \<notin> set zs'" "n \<notin> set zs'" by (auto simp: flist_def)
      with xs b nb Cons Nil show ?thesis
        by (auto simp: remove_frame_def list_ops flist_def ft_ok_def touches_def nth_list_update loose_def)
    qed
  next
    case (snoc ys' p)
    then have "p \<in> set (ys @ r # zs)" by simp
    note pb = flist_bounds [OF xs this]
    show ?thesis
    proof (cases zs)
      case Nil
      from xs snoc Nil have "r \<noteq> p" "r \<notin> set ys'" "p \<notin> set ys'" by (auto simp: flist_def)
      with xs b pb snoc Nil show ?thesis
        by (auto simp: remove_frame_def list_ops flist_def ft_ok_def touches_def nth_list_update loose_def)
    next
      case (Cons n zs')
      then have "n \<in> set (ys @ r # zs)" by simp
      note nb = flist_bounds [OF xs this]
      from xs snoc Cons have "r \<noteq> p" "r \<noteq> n" "p \<noteq> n" "r \<notin> set ys'" "p \<notin> set ys'" "n \<notin> set ys'"
        "r \<notin> set zs'" "p \<notin> set zs'" "n \<notin> set zs'" by (auto simp: flist_def)
      with xs b pb nb snoc Cons show ?thesis
        by (auto simp: remove_frame_def list_ops flist_def ft_ok_def touches_def nth_list_update loose_def)
    qed
  qed
qed

lemma remove_frame_foreign:
  assumes "r < length (frames ft)" and "f_list_id (frames ft ! r) \<noteq> fl_list_id l"
  shows "remove_frame ft l (Some r) = None"
  using assms by (simp add: remove_frame_def)

section \<open>The interface of the lists, and moves between two of them\<close>

text \<open>
  The contract of the list operations, over any state \<open>'s\<close> and list header \<open>'l\<close>. \<open>view\<close> is the part
  of the state the lists live in, \<open>repr\<close> relates a header to the abstract list, \<open>loose\<close> holds for an
  element in no list.
\<close>

locale ref_lists =
  fixes view :: "'s \<Rightarrow> 'v"
    and repr :: "'s \<Rightarrow> 'l \<Rightarrow> nat list \<Rightarrow> bool"
    and unlinked :: "'s \<Rightarrow> nat \<Rightarrow> bool"
    and elem :: "'s \<Rightarrow> nat \<Rightarrow> 'e"
    and pushf :: "'s \<Rightarrow> 'l \<Rightarrow> nat option \<Rightarrow> ('s \<times> 'l) option"
    and pushb :: "'s \<Rightarrow> 'l \<Rightarrow> nat option \<Rightarrow> ('s \<times> 'l) option"
    and popf :: "'s \<Rightarrow> 'l \<Rightarrow> (nat option \<times> 's \<times> 'l) option"
    and rem :: "'s \<Rightarrow> 'l \<Rightarrow> nat option \<Rightarrow> ('s \<times> 'l) option"
  assumes repr_view: "view s = view s' \<Longrightarrow> repr s l xs \<Longrightarrow> repr s' l xs"
    and unlinked_view: "view s = view s' \<Longrightarrow> unlinked s r \<Longrightarrow> unlinked s' r"
    and elem_view: "view s = view s' \<Longrightarrow> elem s q = elem s' q"
    and repr_distinct: "repr s l xs \<Longrightarrow> distinct xs"
    and repr_unlinked: "repr s l xs \<Longrightarrow> unlinked s r \<Longrightarrow> r \<notin> set xs"
    and pushf_law: "repr s l xs \<Longrightarrow> unlinked s r \<Longrightarrow>
      \<exists>s' l'. pushf s l (Some r) = Some (s', l') \<and> repr s' l' (r # xs) \<and>
        (\<forall>q. q \<notin> set (r # xs) \<longrightarrow> elem s' q = elem s q) \<and>
        (\<forall>m ys. repr s m ys \<longrightarrow> set ys \<inter> set xs = {} \<longrightarrow> repr s' m ys)"
    and pushb_law: "repr s l xs \<Longrightarrow> unlinked s r \<Longrightarrow>
      \<exists>s' l'. pushb s l (Some r) = Some (s', l') \<and> repr s' l' (xs @ [r]) \<and>
        (\<forall>q. q \<notin> set (r # xs) \<longrightarrow> elem s' q = elem s q) \<and>
        (\<forall>m ys. repr s m ys \<longrightarrow> set ys \<inter> set xs = {} \<longrightarrow> repr s' m ys)"
    and popf_law: "repr s l (r # xs) \<Longrightarrow>
      \<exists>s' l'. popf s l = Some (Some r, s', l') \<and> repr s' l' xs \<and> unlinked s' r \<and>
        (\<forall>q. q \<notin> set (r # xs) \<longrightarrow> elem s' q = elem s q) \<and>
        (\<forall>m ys. repr s m ys \<longrightarrow> set ys \<inter> set (r # xs) = {} \<longrightarrow> repr s' m ys)"
    and popf_empty: "repr s l [] \<Longrightarrow> popf s l = Some (None, s, l)"
    and rem_law: "repr s l (ys @ r # zs) \<Longrightarrow>
      \<exists>s' l'. rem s l (Some r) = Some (s', l') \<and> repr s' l' (ys @ zs) \<and> unlinked s' r \<and>
        (\<forall>q. q \<notin> set (ys @ r # zs) \<longrightarrow> elem s' q = elem s q) \<and>
        (\<forall>m us. repr s m us \<longrightarrow> set us \<inter> set (ys @ r # zs) = {} \<longrightarrow> repr s' m us)"
begin

text \<open>
  The head of one list becomes the last element of another. Between the two steps the
  caller stores the changed header back, which does not change the view.
\<close>

lemma move_head_to_back:
  assumes xs: "repr s l (r # xs)" and ys: "repr s m ys" and disj: "set ys \<inter> set (r # xs) = {}"
  shows "\<exists>s1 l1. popf s l = Some (Some r, s1, l1) \<and>
           (\<forall>s1'. view s1' = view s1 \<longrightarrow>
              (\<exists>s2 m1. pushb s1' m (Some r) = Some (s2, m1) \<and> repr s2 l1 xs \<and> repr s2 m1 (ys @ [r]) \<and>
                 (\<forall>q. q \<notin> set (r # xs) \<union> set ys \<longrightarrow> elem s2 q = elem s q)))"
proof -
  from popf_law [OF xs] ys disj obtain s1 l1
    where pop: "popf s l = Some (Some r, s1, l1)" "repr s1 l1 xs" "unlinked s1 r" "repr s1 m ys"
      "\<forall>q. q \<notin> set (r # xs) \<longrightarrow> elem s1 q = elem s q"
    by blast
  have "\<exists>s2 m1. pushb s1' m (Some r) = Some (s2, m1) \<and> repr s2 l1 xs \<and> repr s2 m1 (ys @ [r]) \<and>
      (\<forall>q. q \<notin> set (r # xs) \<union> set ys \<longrightarrow> elem s2 q = elem s q)"
    if v: "view s1' = view s1" for s1'
  proof -
    have a: "repr s1' l1 xs" using repr_view [OF v [symmetric] pop(2)] .
    have b: "unlinked s1' r" using unlinked_view [OF v [symmetric] pop(3)] .
    have c: "repr s1' m ys" using repr_view [OF v [symmetric] pop(4)] .
    have "set xs \<inter> set ys = {}" using disj by auto
    with pushb_law [OF c b] a obtain s2 m1 where push: "pushb s1' m (Some r) = Some (s2, m1)"
      "repr s2 l1 xs" "repr s2 m1 (ys @ [r])" "\<forall>q. q \<notin> set (r # ys) \<longrightarrow> elem s2 q = elem s1' q"
      by blast
    moreover have "\<forall>q. q \<notin> set (r # xs) \<union> set ys \<longrightarrow> elem s2 q = elem s q"
      using push(4) pop(5) elem_view [OF v] by simp
    ultimately show ?thesis by blast
  qed
  with pop show ?thesis by blast
qed

text \<open>An element anywhere in one list becomes the head of another.\<close>

lemma move_elem_to_front:
  assumes ys: "repr s m ys" and r: "r \<in> set ys" and xs: "repr s l xs" and disj: "set ys \<inter> set xs = {}"
  shows "\<exists>s1 m1. rem s m (Some r) = Some (s1, m1) \<and>
           (\<forall>s1'. view s1' = view s1 \<longrightarrow>
              (\<exists>s2 l1. pushf s1' l (Some r) = Some (s2, l1) \<and> repr s2 m1 (remove1 r ys) \<and>
                 repr s2 l1 (r # xs) \<and> (\<forall>q. q \<notin> set xs \<union> set ys \<longrightarrow> elem s2 q = elem s q)))"
proof -
  obtain as bs where split: "ys = as @ r # bs" using r by (meson split_list)
  with repr_distinct [OF ys] have rem1: "remove1 r ys = as @ bs"
    by (simp add: remove1_append)
  have d: "set xs \<inter> set (as @ r # bs) = {}" using disj split by auto
  with rem_law [of s m as r bs] ys xs split obtain s1 m1
    where rem: "rem s m (Some r) = Some (s1, m1)" "repr s1 m1 (as @ bs)" "unlinked s1 r" "repr s1 l xs"
      "\<forall>q. q \<notin> set ys \<longrightarrow> elem s1 q = elem s q"
    by blast
  have "\<exists>s2 l1. pushf s1' l (Some r) = Some (s2, l1) \<and> repr s2 m1 (as @ bs) \<and> repr s2 l1 (r # xs) \<and>
      (\<forall>q. q \<notin> set xs \<union> set ys \<longrightarrow> elem s2 q = elem s q)"
    if v: "view s1' = view s1" for s1'
  proof -
    have a: "repr s1' m1 (as @ bs)" using repr_view [OF v [symmetric] rem(2)] .
    have b: "unlinked s1' r" using unlinked_view [OF v [symmetric] rem(3)] .
    have c: "repr s1' l xs" using repr_view [OF v [symmetric] rem(4)] .
    have "set (as @ bs) \<inter> set xs = {}" using disj split by auto
    with pushf_law [OF c b] a obtain s2 l1 where push: "pushf s1' l (Some r) = Some (s2, l1)"
      "repr s2 m1 (as @ bs)" "repr s2 l1 (r # xs)" "\<forall>q. q \<notin> set (r # xs) \<longrightarrow> elem s2 q = elem s1' q"
      by blast
    moreover have "\<forall>q. q \<notin> set xs \<union> set ys \<longrightarrow> elem s2 q = elem s q"
    proof (intro allI impI)
      fix q
      assume q: "q \<notin> set xs \<union> set ys"
      with r have "q \<notin> set (r # xs)" by auto
      with q push(4) rem(5) elem_view [OF v, of q] show "elem s2 q = elem s q" by simp
    qed
    ultimately show ?thesis by blast
  qed
  with rem rem1 show ?thesis by auto
qed

end

text \<open>The frame table's own lists satisfy the contract.\<close>

interpretation fl: ref_lists ft_view flist loose "\<lambda>ft i. frames ft ! i"
  push_front push_back pop_front remove_frame
proof (unfold_locales, goal_cases)
  case 1 then show ?case by (rule flist_view)
next
  case 2 then show ?case by (rule loose_view)
next
  case 3 then show ?case by (simp add: ft_view_def)
next
  case 4 then show ?case by (simp add: flist_def)
next
  case 5 then show ?case by (rule flist_not_loose)
next
  case (6 s l xs r)
  from push_front_ex [OF 6] obtain s' l' where p: "push_front s l (Some r) = Some (s', l')"
    "flist s' l' (r # xs)" "touches s s' (insert r (set xs))" by blast
  have "flist s' m ys" if "flist s m ys" "set ys \<inter> set xs = {}" for m ys
    using touches_others [OF p(3) that] flist_not_loose [OF that(1) 6(2)] by blast
  with p touches_elem [OF p(3)] show ?case by auto
next
  case (7 s l xs r)
  from push_back_ex [OF 7] obtain s' l' where p: "push_back s l (Some r) = Some (s', l')"
    "flist s' l' (xs @ [r])" "touches s s' (insert r (set xs))" by blast
  have "flist s' m ys" if "flist s m ys" "set ys \<inter> set xs = {}" for m ys
    using touches_others [OF p(3) that] flist_not_loose [OF that(1) 7(2)] by blast
  with p touches_elem [OF p(3)] show ?case by auto
next
  case (8 s l r xs)
  from pop_front_Cons [OF 8] obtain s' l' where p: "pop_front s l = Some (Some r, s', l')"
    "flist s' l' xs" "loose s' r" "touches s s' (insert r (set xs))" by blast
  have "flist s' m ys" if "flist s m ys" "set ys \<inter> set (r # xs) = {}" for m ys
    using touches_others [OF p(4) that(1)] that(2) by auto
  with p touches_elem [OF p(4)] show ?case by auto
next
  case 9 then show ?case by (rule pop_front_Nil)
next
  case (10 s l ys r zs)
  from remove_frame_split [OF 10] obtain s' l' where p: "remove_frame s l (Some r) = Some (s', l')"
    "flist s' l' (ys @ zs)" "loose s' r" "touches s s' (insert r (set (ys @ zs)))" by blast
  have "flist s' m us" if "flist s m us" "set us \<inter> set (ys @ r # zs) = {}" for m us
    using touches_others [OF p(4) that(1)] that(2) by auto
  with p touches_elem [OF p(4)] show ?case by auto
qed

end
