(* ===== verification/Frame_Table_Proofs.thy ===== *)
theory Frame_Table_Proofs
  imports Frame_Table_Lists
begin

text \<open>
  Correctness of the frame table. \<open>ft_inv limit ft fs al\<close> is the invariant: the free list is \<open>fs\<close>,
  the allocated list is \<open>al\<close>, and together they are exactly the references from 1 to the
  number of frames in use. \<open>alloc_frame\<close> and \<open>free_frame\<close> keep it, for any \<open>alloc_frame_at\<close>, and so no
  sequence of calls hands out a frame that its client still holds.
\<close>

definition ft_inv :: "nat \<Rightarrow> frame_table_t \<Rightarrow> nat list \<Rightarrow> nat list \<Rightarrow> bool" where
  "ft_inv limit ft fs al \<longleftrightarrow>
     flist ft (free_frames ft) fs \<and> fl_list_id (free_frames ft) = FREE_LIST \<and>
     flist ft (allocated_frames ft) al \<and> fl_list_id (allocated_frames ft) = ALLOCATED_LIST \<and>
     set fs \<inter> set al = {} \<and> set fs \<union> set al = {1..<ft_used ft} \<and>
     (\<forall>i < length (frames ft). ft_used ft \<le> i \<longrightarrow> frames ft ! i = zero_frame) \<and>
     byte_length ft = frame_t_size * length (frames ft) \<and> 512 dvd length (frames ft) \<and>
     capacity ft = (if limit = 0 then length (frames ft) else min limit (length (frames ft)))"

text \<open>A client's calls on the table, and the references it holds after them.\<close>

datatype ft_call = Alloc_Frame | Free_Frame frame_ref

fun ft_run :: "'w page_alloc \<Rightarrow> nat \<Rightarrow> ft_call list \<Rightarrow> frame_table_t \<times> 'w \<times> frame_ref list \<Rightarrow>
    (frame_table_t \<times> 'w \<times> frame_ref list) option" where
  "ft_run pa limit [] s = Some s"
| "ft_run pa limit (Alloc_Frame # cs) (ft, w, held) = do {
     (r, ft, w) \<leftarrow> alloc_frame pa limit ft w;
     ft_run pa limit cs (ft, w, held @ [r])
   }"
| "ft_run pa limit (Free_Frame r # cs) (ft, w, held) = do {
     ft \<leftarrow> free_frame r ft;
     ft_run pa limit cs (ft, w, remove1 r held)
   }"

section \<open>Frame conditions of the operations\<close>

definition same_table :: "frame_table_t \<Rightarrow> frame_table_t \<Rightarrow> bool" where
  "same_table ft ft' \<longleftrightarrow>
     length (frames ft') = length (frames ft) \<and> capacity ft' = capacity ft \<and>
     ft_used ft' = ft_used ft \<and> byte_length ft' = byte_length ft \<and>
     free_frames ft' = free_frames ft \<and> allocated_frames ft' = allocated_frames ft"

lemma push_front_frame:
  "push_front ft l f = Some (ft', l') \<Longrightarrow>
   fl_list_id l' = fl_list_id l \<and>
   same_table ft ft'"
  by (auto simp: push_front_def list_ops arr_get_def c_assert_def Let_def bind_eq_Some_conv same_table_def
      split: if_splits)

lemma push_back_frame:
  "push_back ft l f = Some (ft', l') \<Longrightarrow>
   fl_list_id l' = fl_list_id l \<and>
   same_table ft ft'"
  by (auto simp: push_back_def list_ops arr_get_def c_assert_def Let_def bind_eq_Some_conv same_table_def
      split: if_splits dest: push_front_frame)

lemma pop_front_frame:
  "pop_front ft l = Some (f, ft', l') \<Longrightarrow>
   fl_list_id l' = fl_list_id l \<and>
   same_table ft ft'"
  by (auto simp: pop_front_def list_ops arr_get_def c_assert_def Let_def bind_eq_Some_conv same_table_def
      split: if_splits)

lemma remove_frame_frame:
  "remove_frame ft l f = Some (ft', l') \<Longrightarrow>
   fl_list_id l' = fl_list_id l \<and>
   same_table ft ft'"
  by (auto simp: remove_frame_def list_ops arr_get_def c_assert_def Let_def bind_eq_Some_conv same_table_def
      split: if_splits)

lemma flist_mono:
  assumes "flist ft l xs" and "ft_ok ft'" and "ft_used ft \<le> ft_used ft'"
    and "\<And>x. x < ft_used ft \<Longrightarrow> frames ft' ! x = frames ft ! x"
  shows "flist ft' l xs"
proof -
  have "seg (frames ft') (fl_list_id l) 0 xs 0 = seg (frames ft) (fl_list_id l) 0 xs 0"
    using assms(1,4) by (intro seg_cong) (auto simp: flist_def)
  with assms show ?thesis by (auto simp: flist_def)
qed

lemma flist_Nil: "flist ft l xs \<Longrightarrow> xs = [] \<longleftrightarrow> fl_first l = 0"
  by (cases xs) (auto simp: flist_def)

section \<open>Freeing\<close>

lemma free_frame_spec:
  assumes inv: "ft_inv limit ft fs al" and r: "r \<in> set al"
  shows "\<exists>ft'. free_frame r ft = Some ft' \<and> ft_inv limit ft' (r # fs) (remove1 r al) \<and>
           ft_used ft' = ft_used ft"
proof -
  from inv have fs: "flist ft (free_frames ft) fs" and al: "flist ft (allocated_frames ft) al"
    and disj: "set al \<inter> set fs = {}" by (auto simp: ft_inv_def)
  obtain ft1 l1 where rem: "remove_frame ft (allocated_frames ft) (Some r) = Some (ft1, l1)"
    and nxt: "\<forall>s1'. ft_view s1' = ft_view ft1 \<longrightarrow>
      (\<exists>s2 l2. push_front s1' (free_frames ft) (Some r) = Some (s2, l2) \<and>
         flist s2 l1 (remove1 r al) \<and> flist s2 l2 (r # fs) \<and>
         (\<forall>q. q \<notin> set fs \<union> set al \<longrightarrow> frames s2 ! q = frames ft ! q))"
    using fl.move_elem_to_front [OF al r fs disj] by blast
  let ?ft1 = "ft1\<lparr>allocated_frames := l1\<rparr>"
  have "ft_view ?ft1 = ft_view ft1" by (simp add: ft_view_def)
  with nxt obtain ft2 l2 where push: "push_front ?ft1 (free_frames ft) (Some r) = Some (ft2, l2)"
    and reps: "flist ft2 l1 (remove1 r al)" "flist ft2 l2 (r # fs)"
    and keep: "\<forall>q. q \<notin> set fs \<union> set al \<longrightarrow> frames ft2 ! q = frames ft ! q" by blast
  note fr1 = remove_frame_frame [OF rem] and fr2 = push_front_frame [OF push]
  from fr1 have "free_frames ?ft1 = free_frames ft" by (simp add: same_table_def)
  moreover have "frame_from_ref ft r = Some r" "r \<noteq> NULL_FRAME"
    using flist_bounds [OF al r] by (simp_all add: frame_from_ref_def NULL_FRAME_def)
  ultimately have run: "free_frame r ft = Some (ft2\<lparr>free_frames := l2\<rparr>)"
    using rem push by (simp add: free_frame_def)
  have eqs: "allocated_frames ft2 = l1" "ft_used ft2 = ft_used ft" "capacity ft2 = capacity ft"
    "byte_length ft2 = byte_length ft" "length (frames ft2) = length (frames ft)"
    using fr1 fr2 by (simp_all add: same_table_def)
  have "ft_view (ft2\<lparr>free_frames := l2\<rparr>) = ft_view ft2" by (simp add: ft_view_def)
  with reps have "flist (ft2\<lparr>free_frames := l2\<rparr>) l1 (remove1 r al)" "flist (ft2\<lparr>free_frames := l2\<rparr>) l2 (r # fs)"
    using flist_view by metis+
  moreover have "distinct al" using al by (simp add: flist_def)
  moreover have "frames ft2 ! i = zero_frame" if "i < length (frames ft)" "ft_used ft \<le> i" for i
    using inv keep that by (auto simp: ft_inv_def)
  ultimately have "ft_inv limit (ft2\<lparr>free_frames := l2\<rparr>) (r # fs) (remove1 r al)"
    using inv r eqs fr1 fr2 by (auto simp: ft_inv_def)
  with run eqs show ?thesis by simp
qed

lemma free_frame_unallocated:
  assumes inv: "ft_inv limit ft fs al" and r: "r \<noteq> NULL_FRAME" "r \<notin> set al"
  shows "free_frame r ft = None"
proof (cases "r < capacity ft")
  case False
  with r show ?thesis by (simp add: free_frame_def frame_from_ref_def)
next
  case True
  from inv have ok: "ft_ok ft" by (simp add: ft_inv_def flist_def)
  have "f_list_id (frames ft ! r) \<noteq> ALLOCATED_LIST"
  proof (cases "r < ft_used ft")
    case True
    with inv r have "r \<in> set fs" by (auto simp: ft_inv_def NULL_FRAME_def)
    with inv have "f_list_id (frames ft ! r) = FREE_LIST"
      by (auto simp: ft_inv_def flist_def dest: seg_list_id)
    then show ?thesis by simp
  next
    case False
    with inv ok \<open>r < capacity ft\<close> have "frames ft ! r = zero_frame" by (auto simp: ft_inv_def ft_ok_def)
    then show ?thesis by (simp add: zero_frame_def)
  qed
  with inv ok True have "remove_frame ft (allocated_frames ft) (Some r) = None"
    by (intro remove_frame_foreign) (auto simp: ft_inv_def ft_ok_def)
  with r True show ?thesis by (simp add: free_frame_def frame_from_ref_def)
qed

section \<open>Allocating\<close>

lemma alloc_frame_reuse:
  assumes inv: "ft_inv limit ft (r # fs) al"
  shows "\<exists>ft'. alloc_frame pa limit ft w = Some (r, ft', w) \<and> ft_inv limit ft' fs (al @ [r]) \<and>
           ft_used ft' = ft_used ft"
proof -
  from inv have fs: "flist ft (free_frames ft) (r # fs)" and al: "flist ft (allocated_frames ft) al"
    and disj: "set al \<inter> set (r # fs) = {}" by (auto simp: ft_inv_def)
  obtain ft1 l1 where pop: "pop_front ft (free_frames ft) = Some (Some r, ft1, l1)"
    and nxt: "\<forall>s1'. ft_view s1' = ft_view ft1 \<longrightarrow>
      (\<exists>s2 m2. push_back s1' (allocated_frames ft) (Some r) = Some (s2, m2) \<and>
         flist s2 l1 fs \<and> flist s2 m2 (al @ [r]) \<and>
         (\<forall>q. q \<notin> set (r # fs) \<union> set al \<longrightarrow> frames s2 ! q = frames ft ! q))"
    using fl.move_head_to_back [OF fs al disj] by blast
  let ?ft1 = "ft1\<lparr>free_frames := l1\<rparr>"
  have "ft_view ?ft1 = ft_view ft1" by (simp add: ft_view_def)
  with nxt obtain ft2 m2 where push: "push_back ?ft1 (allocated_frames ft) (Some r) = Some (ft2, m2)"
    and reps: "flist ft2 l1 fs" "flist ft2 m2 (al @ [r])"
    and keep: "\<forall>q. q \<notin> set (r # fs) \<union> set al \<longrightarrow> frames ft2 ! q = frames ft ! q" by blast
  note fr1 = pop_front_frame [OF pop] and fr2 = push_back_frame [OF push]
  from fr1 have al1: "allocated_frames ?ft1 = allocated_frames ft" by (simp add: same_table_def)
  have eqs: "free_frames ft2 = l1" "ft_used ft2 = ft_used ft" "capacity ft2 = capacity ft"
    "byte_length ft2 = byte_length ft" "length (frames ft2) = length (frames ft)"
    using fr1 fr2 by (simp_all add: same_table_def)
  have "r < ft_used ft" using flist_bounds [OF fs] by simp
  with pop push al1 eqs have run: "alloc_frame pa limit ft w = Some (r, ft2\<lparr>allocated_frames := m2\<rparr>, w)"
    by (simp add: alloc_frame_def ref_from_frame_def)
  have "ft_view (ft2\<lparr>allocated_frames := m2\<rparr>) = ft_view ft2" by (simp add: ft_view_def)
  with reps have "flist (ft2\<lparr>allocated_frames := m2\<rparr>) l1 fs"
    "flist (ft2\<lparr>allocated_frames := m2\<rparr>) m2 (al @ [r])"
    using flist_view by metis+
  moreover have "r \<notin> set fs" using fs by (simp add: flist_def)
  moreover have "frames ft2 ! i = zero_frame" if "i < length (frames ft)" "ft_used ft \<le> i" for i
    using inv keep that by (auto simp: ft_inv_def)
  ultimately have "ft_inv limit (ft2\<lparr>allocated_frames := m2\<rparr>) fs (al @ [r])"
    using inv eqs fr1 fr2 by (auto simp: ft_inv_def)
  with run eqs show ?thesis by simp
qed

lemma bump_capacity_inv:
  assumes inv: "ft_inv limit ft fs al" and run: "bump_capacity pa limit ft w = Some (e, ft', w')"
  shows "ft_inv limit ft' fs al \<and> ft_used ft' = ft_used ft"
proof (cases "e = 0")
  case False
  with run inv show ?thesis
    by (auto simp: bump_capacity_def bind_eq_Some_conv Let_def split: if_splits)
next
  case True
  from inv have ok: "ft_ok ft" and bl: "byte_length ft = 8 * length (frames ft)"
    and lim: "limit \<noteq> 0 \<longrightarrow> capacity ft \<le> limit"
    by (auto simp: ft_inv_def flist_def frame_t_size_def)
  have ft': "ft' = ft\<lparr>byte_length := byte_length ft + 4096, frames := frames ft @ replicate 512 zero_frame,
      capacity := (if limit = 0 then id else min limit) (length (frames ft) + 512)\<rparr>"
    using run True bl
    by (auto simp: bump_capacity_def bind_eq_Some_conv Let_def PAGE_SIZE_4K_def frame_t_size_def
        split: if_splits)
  have ok': "ft_ok ft'" using ok lim by (auto simp: ft' ft_ok_def)
  have fr: "frames ft' ! x = frames ft ! x" if "x < ft_used ft" for x
    using that ok by (simp add: ft' ft_ok_def nth_append)
  have "flist ft' l xs" if "flist ft l xs" for l xs
    using flist_mono [OF that ok' _ fr] by (simp add: ft')
  with inv bl show ?thesis by (auto simp: ft_inv_def ft' frame_t_size_def nth_append)
qed

text \<open>\<open>alloc_fresh_frame\<close> after the capacity was made sufficient: the new frame is number \<open>max 1 used\<close>.\<close>

lemma alloc_fresh_frame_eq:
  assumes "ft_used ft \<le> capacity ft" and "limit \<noteq> 0 \<longrightarrow> capacity ft \<le> limit"
    and "(if ft_used ft = capacity ft then bump_capacity pa limit ft w else Some (0, ft, w))
           = Some (0, ft1, w1)"
    and "r = max 1 (ft_used ft1)"
  shows "alloc_fresh_frame pa limit ft w =
    (if ft_used ft1 < capacity ft1 \<and> r < capacity ft1 then do {
       (page, w') \<leftarrow> pa (SOS_FRAME_DATA + of_nat r * of_nat PAGE_SIZE_4K) w1;
       if page = 0 then Some (None, ft1\<lparr>ft_used := r\<rparr>, w')
       else do {
         ft \<leftarrow> upd_frame (\<lambda>_. \<lparr>sos_page = page mod 2 ^ 20, f_prev = 0, f_next = 0,
                              f_list_id = NO_LIST\<rparr>) r (ft1\<lparr>ft_used := Suc r\<rparr>);
         Some (Some r, ft, w')
       }
     } else None)"
proof -
  have step: "(if ft_used ft1 = 0 then ft1\<lparr>ft_used := ft_used ft1 + 1\<rparr> else ft1) = ft1\<lparr>ft_used := r\<rparr>"
    using assms(4) by simp
  have "r \<noteq> 0" using assms(4) by simp
  with assms(1-3) step show ?thesis
    by (simp add: alloc_fresh_frame_def Let_def ref_from_frame_def frame_data_def NULL_FRAME_def
        Suc_eq_plus1 del: One_nat_def cong: if_cong)
qed

lemma alloc_fresh_frame_spec:
  assumes inv: "ft_inv limit ft fs al" and bound: "max 1 (ft_used ft) < 2 ^ 19"
    and run: "alloc_fresh_frame pa limit ft w = Some (f, ft', w')"
  shows "case f of
      None \<Rightarrow> ft_inv limit ft' fs al \<and> ft_used ft' \<le> max 1 (ft_used ft)
    | Some r \<Rightarrow> r = max 1 (ft_used ft) \<and> ft_used ft' = Suc r \<and> loose ft' r \<and>
        flist ft' (free_frames ft') fs \<and> fl_list_id (free_frames ft') = FREE_LIST \<and>
        flist ft' (allocated_frames ft') al \<and> fl_list_id (allocated_frames ft') = ALLOCATED_LIST \<and>
        (\<forall>i < length (frames ft'). Suc r \<le> i \<longrightarrow> frames ft' ! i = zero_frame) \<and>
        byte_length ft' = frame_t_size * length (frames ft') \<and> 512 dvd length (frames ft') \<and>
        capacity ft' = (if limit = 0 then length (frames ft') else min limit (length (frames ft')))"
proof -
  obtain e ft1 w1 where bump: "(if ft_used ft = capacity ft then bump_capacity pa limit ft w
      else Some (0, ft, w)) = Some (e, ft1, w1)"
    using run by (auto simp: alloc_fresh_frame_def bind_eq_Some_conv split: if_splits)
  then have inv1: "ft_inv limit ft1 fs al" and used1: "ft_used ft1 = ft_used ft"
    using inv by (auto split: if_splits dest: bump_capacity_inv [OF inv])
  define r where "r = max 1 (ft_used ft)"
  define ft2 where "ft2 = ft1\<lparr>ft_used := Suc r\<rparr>"
  show ?thesis
  proof (cases "e = 0")
    case False
    with run bump have "f = None" "ft' = ft1"
      by (auto simp: alloc_fresh_frame_def bind_eq_Some_conv split: if_splits)
    with inv1 used1 show ?thesis by simp
  next
    case True
    have pre: "ft_used ft \<le> capacity ft" "limit \<noteq> 0 \<longrightarrow> capacity ft \<le> limit"
      using inv by (auto simp: ft_inv_def flist_def ft_ok_def)
    have r1: "r = max 1 (ft_used ft1)" by (simp add: r_def used1)
    note eq = alloc_fresh_frame_eq [OF pre bump [unfolded True] r1]
    have r: "ft_used ft1 < capacity ft1" "r < capacity ft1"
      using run by (auto simp: eq split: if_splits)
    then obtain page w2 where
      "(if page = 0 then Some (None, ft1\<lparr>ft_used := r\<rparr>, w2)
        else do { ft \<leftarrow> upd_frame (\<lambda>_. \<lparr>sos_page = page mod 2 ^ 20, f_prev = 0, f_next = 0,
            f_list_id = NO_LIST\<rparr>) r (ft1\<lparr>ft_used := Suc r\<rparr>); Some (Some r, ft, w2) }) = Some (f, ft', w')"
      using run unfolding eq by (auto elim!: bind_SomeE simp del: list_ids)
    then have res: "(if page = 0 then Some (None, ft2\<lparr>ft_used := r\<rparr>, w')
        else do { ft \<leftarrow> upd_frame (\<lambda>_. \<lparr>sos_page = page mod 2 ^ 20, f_prev = 0, f_next = 0,
                              f_list_id = NO_LIST\<rparr>) r ft2; Some (Some r, ft, w') }) = Some (f, ft', w')"
      by (auto simp: ft2_def bind_eq_Some_conv split: if_splits)
    have r19: "r < 2 ^ 19" using bound by (simp add: r_def)
    have ok1: "ft_ok ft1" using inv1 by (simp add: ft_inv_def flist_def)
    show ?thesis
    proof (cases "page = 0")
      case True
      with res have f: "f = None" and ft': "ft' = ft1\<lparr>ft_used := r\<rparr>" by (simp_all add: ft2_def)
      have ok': "ft_ok ft'" using ok1 r(2) r19 by (simp add: ft' ft_ok_def)
      have "flist ft' l xs" if "flist ft1 l xs" for l xs
        using flist_mono [OF that ok'] used1 by (simp add: ft' r_def)
      moreover have "{1..<r} = {1..<ft_used ft1}" by (auto simp: r_def used1)
      ultimately show ?thesis using inv1 by (auto simp: f ft' ft_inv_def r_def used1)
    next
      case False
      with res r(2) ok1 have f: "f = Some r" and ft': "ft' = ft2\<lparr>frames := (frames ft1)[r :=
          \<lparr>sos_page = page mod 2 ^ 20, f_prev = 0, f_next = 0, f_list_id = NO_LIST\<rparr>]\<rparr>"
        by (auto simp: upd_frame_def bind_eq_Some_conv ft2_def ft_ok_def)
      have ok': "ft_ok ft'" using ok1 r(2) r19 by (simp add: ft' ft2_def ft_ok_def)
      have "flist ft' l xs" if "flist ft1 l xs" for l xs
        using flist_mono [OF that ok'] used1 by (simp add: ft' ft2_def r_def)
      moreover have "loose ft' r" using r(2) ok1 by (auto simp: ft' ft2_def loose_def r_def ft_ok_def)
      ultimately show ?thesis using inv1 used1 by (auto simp: f ft' ft2_def ft_inv_def r_def)
    qed
  qed
qed

text \<open>A fresh frame is appended to the allocated list.\<close>

lemma alloc_frame_fresh_ok:
  assumes inv: "ft_inv limit ft [] al" and bound: "max 1 (ft_used ft) < 2 ^ 19"
    and fresh: "alloc_fresh_frame pa limit ft w = Some (Some r, ft1, w1)"
  shows "\<exists>ft'. alloc_frame pa limit ft w = Some (r, ft', w1) \<and> ft_inv limit ft' [] (al @ [r]) \<and>
           r = max 1 (ft_used ft) \<and> ft_used ft' = Suc r \<and>
           sos_page (frames ft' ! r) = sos_page (frames ft1 ! r)"
proof -
  from inv have pop: "pop_front ft (free_frames ft) = Some (None, ft, free_frames ft)"
    by (simp add: ft_inv_def pop_front_Nil)
  note spec = alloc_fresh_frame_spec [OF inv bound fresh, simplified]
  then have al1: "flist ft1 (allocated_frames ft1) al" and loose: "loose ft1 r"
    and fs1: "flist ft1 (free_frames ft1) []" and r: "r = max 1 (ft_used ft)" by auto
  from push_back_ex [OF al1 loose] obtain ft2 l2 where
    push: "push_back ft1 (allocated_frames ft1) (Some r) = Some (ft2, l2)"
    and al2: "flist ft2 l2 (al @ [r])" and id2: "fl_list_id l2 = fl_list_id (allocated_frames ft1)"
    and t: "touches ft1 ft2 (insert r (set al))" by blast
  note fr = push_back_frame [OF push]
  define ft' where "ft' = ft2\<lparr>allocated_frames := l2\<rparr>"
  have "r < ft_used ft2" using loose fr by (simp add: loose_def same_table_def)
  with pop fresh push have run: "alloc_frame pa limit ft w = Some (r, ft', w1)"
    by (simp add: alloc_frame_def ref_from_frame_def ft'_def)
  have v: "ft_view ft2 = ft_view ft'" by (simp add: ft'_def ft_view_def)
  have "flist ft' l2 (al @ [r])" using flist_view [OF v al2] .
  moreover have "flist ft' (free_frames ft2) []"
    using flist_view [OF v touches_flist [OF t]] fs1 fr by (simp add: same_table_def)
  moreover have "insert r (set al) = {1..<Suc r}" using inv r by (auto simp: ft_inv_def)
  moreover have "frames ft2 ! i = zero_frame" if "i < length (frames ft1)" "Suc r \<le> i" for i
  proof -
    have "i \<notin> insert r (set al)" using that flist_bounds(2) [OF al1, of i] spec by auto
    with touches_elem [OF t] that spec show ?thesis by simp
  qed
  ultimately have "ft_inv limit ft' [] (al @ [r])"
    using spec fr id2 by (auto simp: ft_inv_def ft'_def same_table_def)
  moreover have "sos_page (frames ft' ! r) = sos_page (frames ft1 ! r)"
    using t by (simp add: ft'_def touches_def)
  ultimately show ?thesis using run r fr spec by (auto simp: ft'_def same_table_def)
qed

text \<open>
  Whenever \<open>alloc_frame\<close> returns, it hands out a frame that was not allocated; the only other
  outcome is a failed assertion.
\<close>

lemma alloc_frame_inv:
  assumes inv: "ft_inv limit ft fs al" and bound: "max 1 (ft_used ft) < 2 ^ 19"
    and run: "alloc_frame pa limit ft w = Some (r, ft', w')"
  shows "\<exists>fs'. ft_inv limit ft' fs' (al @ [r]) \<and> 0 < r \<and> r \<notin> set al \<and>
           ft_used ft' \<le> Suc (max 1 (ft_used ft))"
proof (cases fs)
  case (Cons q fs')
  with inv obtain ft2 where "alloc_frame pa limit ft w = Some (q, ft2, w)"
    "ft_inv limit ft2 fs' (al @ [q])" "ft_used ft2 = ft_used ft"
    using alloc_frame_reuse by metis
  moreover from inv Cons have "0 < q" "q \<notin> set al" by (auto simp: ft_inv_def flist_def)
  ultimately show ?thesis using run by auto
next
  case Nil
  with inv have pop: "pop_front ft (free_frames ft) = Some (None, ft, free_frames ft)"
    by (simp add: ft_inv_def pop_front_Nil)
  with run obtain f ft1 w1 where fresh: "alloc_fresh_frame pa limit ft w = Some (f, ft1, w1)"
    by (auto simp: alloc_frame_def bind_eq_Some_conv)
  from run pop fresh have "f = Some r"
    by (cases f) (auto simp: alloc_frame_def bind_eq_Some_conv ref_from_frame_def split: if_splits)
  with inv Nil bound fresh obtain ft2 where res: "alloc_frame pa limit ft w = Some (r, ft2, w1)"
    "ft_inv limit ft2 [] (al @ [r])" "r = max 1 (ft_used ft)" "ft_used ft2 = Suc r"
    using alloc_frame_fresh_ok by metis
  then have "distinct (al @ [r])" by (simp add: ft_inv_def flist_def)
  with res run show ?thesis by auto
qed

lemma ft_inv_0: "ft_inv limit frame_table_0 [] []"
  by (auto simp: ft_inv_def flist_def ft_ok_def frame_table_0_def frame_t_size_def)

lemma alloc_frame_grants:
  assumes inv: "ft_inv limit ft [] al" and room: "limit = 0 \<or> max 1 (ft_used ft) < limit"
    and grant: "\<And>v w. \<exists>p w'. pa v w = Some (p, w') \<and> p \<noteq> 0" and bound: "max 1 (ft_used ft) < 2 ^ 19"
  shows "\<exists>ft' w'. alloc_frame pa limit ft w = Some (max 1 (ft_used ft), ft', w')"
proof -
  from inv have ok: "ft_ok ft" and bl: "byte_length ft = 8 * length (frames ft)"
    and lim: "limit \<noteq> 0 \<longrightarrow> capacity ft \<le> limit"
    by (auto simp: ft_inv_def flist_def frame_t_size_def)
  obtain ft1 w1 where bump: "(if ft_used ft = capacity ft then bump_capacity pa limit ft w
      else Some (0, ft, w)) = Some (0, ft1, w1)"
    and cap: "max 1 (ft_used ft) < capacity ft1"
  proof (cases "ft_used ft = capacity ft")
    case False
    with ok have lt: "ft_used ft < capacity ft" by (simp add: ft_ok_def)
    with inv have "512 \<le> length (frames ft)"
      by (auto simp: ft_inv_def flist_def ft_ok_def intro: dvd_imp_le)
    with inv room have "1 < capacity ft" by (auto simp: ft_inv_def)
    with lt False that [of ft w] show ?thesis by auto
  next
    case True
    obtain p w2 where "pa (SOS_FRAME_TABLE + of_nat (byte_length ft)) w = Some (p, w2)" "p \<noteq> 0"
      using grant by blast
    then obtain ft1 where "bump_capacity pa limit ft w = Some (0, ft1, w2)"
      "capacity ft1 = (if limit = 0 then length (frames ft) + 512 else min limit (length (frames ft) + 512))"
      using room True bl by (auto simp: bump_capacity_def Let_def PAGE_SIZE_4K_def frame_t_size_def)
    with True that [of ft1 w2] ok room show ?thesis by (auto simp: ft_ok_def)
  qed
  have inv1: "ft_inv limit ft1 [] al" and used1: "ft_used ft1 = ft_used ft"
    using bump inv by (auto split: if_splits dest: bump_capacity_inv [OF inv])
  have r1: "max 1 (ft_used ft) = max 1 (ft_used ft1)" by (simp add: used1)
  have ok1: "ft_ok ft1" using inv1 by (simp add: ft_inv_def flist_def)
  have pre: "ft_used ft \<le> capacity ft" "limit \<noteq> 0 \<longrightarrow> capacity ft \<le> limit"
    using inv ok by (auto simp: ft_inv_def ft_ok_def)
  obtain p w2 where "pa (SOS_FRAME_DATA + of_nat (max 1 (ft_used ft)) * of_nat PAGE_SIZE_4K) w1 = Some (p, w2)"
    "p \<noteq> 0" using grant by blast
  then obtain ft2 where "alloc_fresh_frame pa limit ft w = Some (Some (max 1 (ft_used ft)), ft2, w2)"
    using cap ok1 used1 unfolding alloc_fresh_frame_eq [OF pre bump r1]
    by (auto simp: upd_frame_def ft_ok_def)
  from alloc_frame_fresh_ok [OF inv bound this] show ?thesis by blast
qed

text \<open>When there is neither a free frame nor memory, the \<open>NULL\<close> frame trips the assertion.\<close>

lemma alloc_frame_no_memory:
  assumes inv: "ft_inv limit ft [] al" and none: "\<And>v w. \<exists>w'. pa v w = Some (0, w')"
  shows "alloc_frame pa limit ft w = None"
proof (rule ccontr)
  assume "alloc_frame pa limit ft w \<noteq> None"
  moreover from inv have pop: "pop_front ft (free_frames ft) = Some (None, ft, free_frames ft)"
    by (simp add: ft_inv_def pop_front_Nil)
  ultimately obtain f ft1 w1 where fresh: "alloc_fresh_frame pa limit ft w = Some (Some f, ft1, w1)"
    by (auto simp: alloc_frame_def bind_eq_Some_conv ref_from_frame_def)
  obtain e ft2 w2 where bump: "(if ft_used ft = capacity ft then bump_capacity pa limit ft w
      else Some (0, ft, w)) = Some (e, ft2, w2)"
    using fresh by (auto simp: alloc_fresh_frame_def bind_eq_Some_conv split: if_splits)
  have "e = 0"
    using fresh bump by (auto simp: alloc_fresh_frame_def bind_eq_Some_conv split: if_splits)
  have pre: "ft_used ft \<le> capacity ft" "limit \<noteq> 0 \<longrightarrow> capacity ft \<le> limit"
    using inv by (auto simp: ft_inv_def flist_def ft_ok_def)
  obtain w3 where "pa (SOS_FRAME_DATA + of_nat (max 1 (ft_used ft2)) * of_nat PAGE_SIZE_4K) w2 = Some (0, w3)"
    using none by blast
  with fresh show False
    unfolding alloc_fresh_frame_eq [OF pre bump [unfolded \<open>e = 0\<close>] refl] by (simp split: if_splits)
qed

section \<open>Properties\<close>

text \<open>The number of frames in use never decreases.\<close>

lemma alloc_fresh_frame_used:
  "alloc_fresh_frame pa limit ft w = Some (f, ft', w') \<Longrightarrow> ft_used ft \<le> ft_used ft'"
  by (auto simp: alloc_fresh_frame_def bump_capacity_def upd_frame_def Let_def elim!: bind_SomeE split: if_splits)

lemma alloc_frame_used:
  assumes "alloc_frame pa limit ft w = Some (r, ft', w')"
  shows "ft_used ft \<le> ft_used ft'"
proof -
  from assms obtain f ft1 l ft2 f2 where s: "pop_front ft (free_frames ft) = Some (f, ft1, l)"
    "(if f = None then alloc_fresh_frame pa limit (ft1\<lparr>free_frames := l\<rparr>) w else Some (f, ft1\<lparr>free_frames := l\<rparr>, w)) = Some (f2, ft2, w')"
    "(if f2 \<noteq> None then do { (ft, l) \<leftarrow> push_back ft2 (allocated_frames ft2) f2; Some (ft\<lparr>allocated_frames := l\<rparr>) } else Some ft2) = Some ft'"
    unfolding alloc_frame_def Let_def by (fastforce elim!: bind_SomeE)
  from s(2) have "ft_used ft1 \<le> ft_used ft2" by (auto split: if_splits dest: alloc_fresh_frame_used)
  moreover from s(3) have "ft_used ft' = ft_used ft2"
    by (auto simp: same_table_def elim!: bind_SomeE split: if_splits dest!: push_back_frame)
  ultimately show ?thesis using pop_front_frame [OF s(1)] by (simp add: same_table_def)
qed

lemma free_frame_used: "free_frame r ft = Some ft' \<Longrightarrow> ft_used ft' = ft_used ft"
  by (auto simp: free_frame_def same_table_def Let_def elim!: bind_SomeE split: if_splits dest!: remove_frame_frame push_front_frame)

lemma ft_run_used:
  "ft_run pa limit cs (ft, w, held) = Some (ft', w', held') \<Longrightarrow> ft_used ft \<le> ft_used ft'"
proof (induction cs arbitrary: ft w held)
  case (Cons c cs)
  then show ?case
    by (cases c) (fastforce elim!: bind_SomeE dest: alloc_frame_used free_frame_used)+
qed simp

text \<open>A call that returns leaves the frame it hands out below the number of frames in use.\<close>

lemma alloc_frame_bound:
  assumes inv: "ft_inv limit ft fs al" and run: "alloc_frame pa limit ft w = Some (r, ft', w')"
    and used: "ft_used ft' \<le> 2 ^ 19"
  shows "fs \<noteq> [] \<or> max 1 (ft_used ft) < 2 ^ 19"
proof (cases fs)
  case Nil
  with inv have pop: "pop_front ft (free_frames ft) = Some (None, ft, free_frames ft)"
    by (simp add: ft_inv_def pop_front_Nil)
  with run obtain f ft1 where fresh: "alloc_fresh_frame pa limit ft w = Some (Some f, ft1, w')"
    and after: "do { (ft, l) \<leftarrow> push_back ft1 (allocated_frames ft1) (Some f); Some (ft\<lparr>allocated_frames := l\<rparr>) } = Some ft'"
    by (fastforce simp: alloc_frame_def ref_from_frame_def elim!: bind_SomeE split: if_splits)
  from fresh have "ft_used ft1 = Suc (max 1 (ft_used ft))"
    by (auto simp: alloc_fresh_frame_def bump_capacity_def upd_frame_def Let_def elim!: bind_SomeE split: if_splits)
  moreover have "ft_used ft' = ft_used ft1" using after by (auto simp: same_table_def elim!: bind_SomeE dest!: push_back_frame)
  ultimately show ?thesis using used by simp
qed simp

lemma alloc_frame_step:
  assumes inv: "ft_inv limit ft fs al" and run: "alloc_frame pa limit ft w = Some (r, ft', w')" and used: "ft_used ft' \<le> 2 ^ 19"
  shows "\<exists>fs'. ft_inv limit ft' fs' (al @ [r])"
proof (cases fs)
  case Nil
  with alloc_frame_bound [OF assms] alloc_frame_inv [OF inv _ run] show ?thesis by auto
next
  case (Cons q fs')
  with inv alloc_frame_reuse [of limit ft q fs' al pa w] run show ?thesis by auto
qed

lemma ft_run_inv:
  "ft_run pa limit cs (ft, w, held) = Some (ft', w', held') \<Longrightarrow> ft_inv limit ft fs held \<Longrightarrow>
   ft_used ft' \<le> 2 ^ 19 \<Longrightarrow> \<exists>fs'. ft_inv limit ft' fs' held'"
proof (induction cs arbitrary: ft w held fs)
  case Nil
  then show ?case by auto
next
  case (Cons c cs)
  show ?case
  proof (cases c)
    case Alloc_Frame
    with Cons.prems(1) obtain r ft1 w1 where al: "alloc_frame pa limit ft w = Some (r, ft1, w1)"
      and rest: "ft_run pa limit cs (ft1, w1, held @ [r]) = Some (ft', w', held')"
      by (auto elim!: bind_SomeE)
    have "ft_used ft1 \<le> 2 ^ 19" using ft_run_used [OF rest] Cons.prems(3) by simp
    from alloc_frame_step [OF Cons.prems(2) al this] Cons.IH [OF rest] Cons.prems(3) show ?thesis by blast
  next
    case (Free_Frame r)
    with Cons.prems(1) obtain ft1 where fr: "free_frame r ft = Some ft1"
      and rest: "ft_run pa limit cs (ft1, w, remove1 r held) = Some (ft', w', held')"
      by (auto elim!: bind_SomeE)
    show ?thesis
    proof (cases "r = NULL_FRAME")
      case True
      moreover have "0 \<notin> set held" using Cons.prems(2) by (auto simp: ft_inv_def flist_def)
      ultimately have "ft1 = ft" "remove1 r held = held"
        using fr by (simp_all add: free_frame_def NULL_FRAME_def remove1_idem)
      with Cons.IH rest Cons.prems(2,3) show ?thesis by auto
    next
      case False
      with fr free_frame_unallocated [OF Cons.prems(2)] have "r \<in> set held" by fastforce
      from fr free_frame_spec [OF Cons.prems(2) this] have "ft_inv limit ft1 (r # fs) (remove1 r held)" by auto
      with Cons.IH [OF rest] Cons.prems(3) show ?thesis by auto
    qed
  qed
qed

text \<open>
  C2. Whatever sequence of \<open>alloc_frame\<close> and \<open>free_frame\<close> calls of any length a client makes on the initial table,
  and whatever \<open>alloc_frame_at\<close> answers, if the calls return and the table has not grown beyond \<open>2^19\<close> frames, which is as many as
  references of 19 bits can name, then the references the client holds are pairwise distinct, none is \<open>NULL_FRAME\<close>, and they are
  exactly the allocated list of a table whose two lists are well formed and partition the frames in use.
\<close>

theorem frames_handed_out_once:
  assumes "ft_run pa limit cs (frame_table_0, w, []) = Some (ft, w', held)" and "ft_used ft \<le> 2 ^ 19"
  shows "distinct held \<and> NULL_FRAME \<notin> set held \<and> (\<exists>fs. ft_inv limit ft fs held)"
proof -
  from ft_run_inv [OF assms(1) ft_inv_0 assms(2)] obtain fs where inv: "ft_inv limit ft fs held" by blast
  then have "distinct held" "NULL_FRAME \<notin> set held" by (auto simp: ft_inv_def flist_def NULL_FRAME_def)
  with inv show ?thesis by blast
qed

lemmas ft_eval = alloc_frame_def pop_front_def alloc_fresh_frame_def bump_capacity_def frame_table_0_def
  push_back_def push_front_def free_frame_def remove_frame_def frame_data_def frame_from_ref_def
  ref_from_frame_def upd_frame_def set_prev_def set_next_def set_list_id_def PAGE_SIZE_4K_def
  frame_t_size_def NULL_FRAME_def zero_frame_def nth_append nth_list_update

lemma ft_example:
  "\<exists>ft. ft_run (\<lambda>v w. Some (7, w)) 0 [Alloc_Frame, Alloc_Frame, Free_Frame 1, Alloc_Frame]
     (frame_table_0, (), []) = Some (ft, (), [2, 1]) \<and> ft_used ft = 3"
  by (simp add: ft_eval)

theorem frames_handed_out_once_witness:
  "\<exists>ft fs. ft_run (\<lambda>v w. Some (7, w)) 0 [Alloc_Frame, Alloc_Frame, Free_Frame 1, Alloc_Frame]
     (frame_table_0, (), []) = Some (ft, (), [2, 1]) \<and> distinct [2, 1 :: nat] \<and> ft_inv 0 ft fs [2, 1]"
proof -
  obtain ft where run: "ft_run (\<lambda>v w. Some (7, w)) 0 [Alloc_Frame, Alloc_Frame, Free_Frame 1, Alloc_Frame]
     (frame_table_0, (), []) = Some (ft, (), [2, 1])" and used: "ft_used ft = 3"
    using ft_example by blast
  from frames_handed_out_once [OF run] used run show ?thesis by auto
qed

text \<open>
  C5. Refinement of the free list: with free frames \<open>r # fs\<close>, \<open>alloc_frame\<close> returns \<open>r\<close> without asking for
  memory, the free list becomes \<open>fs\<close> and \<open>r\<close> is appended to the allocated list.
\<close>

theorem alloc_frame_takes_free_head:
  assumes "ft_inv limit ft (r # fs) al"
  shows "\<exists>ft'. alloc_frame pa limit ft w = Some (r, ft', w) \<and> ft_inv limit ft' fs (al @ [r])"
  using alloc_frame_reuse [OF assms, of pa w] by blast

text \<open>
  C11. With no free frame, a table below its limit and an \<open>alloc_frame_at\<close> that grants every
  page, \<open>alloc_frame\<close> returns: it grows the table when it is full, skips the sentinel frame 0,
  and appends the next unused reference to the allocated list.
\<close>

theorem alloc_frame_grows:
  assumes "ft_inv limit ft [] al" and "limit = 0 \<or> max 1 (ft_used ft) < limit"
    and "\<And>v w. \<exists>p w'. pa v w = Some (p, w') \<and> p \<noteq> 0" and "max 1 (ft_used ft) < 2 ^ 19"
  shows "\<exists>ft' w' fs. alloc_frame pa limit ft w = Some (max 1 (ft_used ft), ft', w') \<and>
           ft_inv limit ft' fs (al @ [max 1 (ft_used ft)])"
proof -
  obtain ft' w' where run: "alloc_frame pa limit ft w = Some (max 1 (ft_used ft), ft', w')"
    using alloc_frame_grants [OF assms(1,2), of pa w] assms(3,4) by blast
  with alloc_frame_inv [OF assms(1,4) run] show ?thesis by blast
qed

text \<open>
  Freeing an allocated frame and allocating again gives the same frame back, and
  moves it to the end of the allocated list.
\<close>

lemma free_then_alloc_roundtrip:
  assumes "ft_inv limit ft fs al" and "r \<in> set al"
  shows "\<exists>ft' ft''. free_frame r ft = Some ft' \<and> alloc_frame pa limit ft' w = Some (r, ft'', w) \<and>
           ft_inv limit ft'' fs (remove1 r al @ [r])"
proof -
  obtain ft' where fr: "free_frame r ft = Some ft'" and inv: "ft_inv limit ft' (r # fs) (remove1 r al)"
    using free_frame_spec [OF assms] by blast
  with alloc_frame_reuse [OF inv, of pa w] show ?thesis by blast
qed

text \<open>
  C22. Freeing a frame that is not allocated (a double free, the sentinel's successor that
  was never handed out, or an index past the table) trips an assertion instead of
  corrupting the lists.
\<close>

theorem free_frame_rejects_unallocated:
  assumes "ft_inv limit ft fs al" and "r \<noteq> NULL_FRAME" and "r \<notin> set al"
  shows "free_frame r ft = None"
  using free_frame_unallocated [OF assms] .

text \<open>
  C28. When no frame is free and \<open>alloc_frame_at\<close> has no memory, \<open>alloc_frame\<close> does not return
  \<open>NULL_FRAME\<close>: it passes the null frame to \<open>ref_from_frame\<close>, whose assertion fails.
\<close>

theorem alloc_frame_out_of_memory:
  assumes "ft_inv limit ft [] al" and "\<And>v w. \<exists>w'. pa v w = Some (0, w')"
  shows "alloc_frame pa limit ft w = None"
  using alloc_frame_no_memory [OF assms(1), of pa w] assms(2) by blast

lemma ft_inv_example:
  obtains ft fs where "ft_inv 0 ft fs [2, 1]" "fs = []" "ft_used ft = 3"
proof -
  from ft_example obtain ft where run: "ft_run (\<lambda>v w. Some (7, w)) 0
      [Alloc_Frame, Alloc_Frame, Free_Frame 1, Alloc_Frame] (frame_table_0, (), []) = Some (ft, (), [2, 1])"
    and used: "ft_used ft = 3" by blast
  from ft_run_inv [OF run ft_inv_0] used obtain fs where inv: "ft_inv 0 ft fs [2, 1]" by auto
  have part: "set fs \<inter> set [2, 1] = {}" "set fs \<union> set [2, 1] = {1..<3}"
    using inv used by (auto simp: ft_inv_def)
  have "fs = []"
  proof (cases fs)
    case (Cons x xs)
    then have "x \<in> {1..<3}" "x \<noteq> 2" "x \<noteq> 1" using part by auto
    then show ?thesis by simp
  qed simp
  with inv used that show ?thesis by blast
qed

theorem alloc_frame_takes_free_head_witness:
  "\<exists>ft ft'. ft_inv 0 ft [1] [2] \<and> alloc_frame (\<lambda>v w. None) 0 ft () = Some (1, ft', ()) \<and>
     ft_inv 0 ft' [] [2, 1]"
proof -
  obtain ft fs where "ft_inv 0 ft fs [2, 1]" "fs = []" by (rule ft_inv_example)
  from free_frame_spec [OF this(1), of 1] this(2) obtain ft1 where inv: "ft_inv 0 ft1 [1] [2]" by auto
  with alloc_frame_takes_free_head [OF inv, of "\<lambda>v w. None" "()"] show ?thesis by auto
qed

theorem alloc_frame_grows_witness:
  "\<exists>ft' w' fs. alloc_frame (\<lambda>v w. Some (7, w)) 0 frame_table_0 () = Some (1, ft', w') \<and>
     ft_inv 0 ft' fs [1]"
  using alloc_frame_grows [OF ft_inv_0, of 0 "\<lambda>v w. Some (7, w)" "()"] by (simp add: frame_table_0_def)

theorem free_frame_rejects_unallocated_witness:
  "\<exists>ft. ft_inv 0 ft [1] [2] \<and> free_frame 1 ft = None"
proof -
  obtain ft fs where "ft_inv 0 ft fs [2, 1]" "fs = []" by (rule ft_inv_example)
  from free_frame_spec [OF this(1), of 1] this(2) obtain ft1 where inv: "ft_inv 0 ft1 [1] [2]" by auto
  with free_frame_rejects_unallocated [OF inv, of 1] show ?thesis by (auto simp: NULL_FRAME_def)
qed

theorem alloc_frame_out_of_memory_witness:
  "alloc_frame (\<lambda>v w. Some (0, w)) 0 frame_table_0 () = None"
  by (rule alloc_frame_out_of_memory [OF ft_inv_0]) simp

end
