(* ===== verification/Frame_Alloc.thy ===== *)
theory Frame_Alloc
  imports Env_Proofs Frame_Table_Proofs
begin

text \<open>
  The part of \<open>sos/src/frame_table.c\<close> that reaches the other allocators: \<open>alloc_frame_at\<close>, which makes a page from an untyped, a slot
  and a mapping, and the cache operations on frames. With it, the frame table, the capability space and the untyped table are
  shown to stay in order together over any sequence of frame allocations and frees.
\<close>

section \<open>Definitions\<close>

text \<open>What \<open>frame_table_init\<close> records: the address of the capability space and the address space capability.\<close>

record frame_table_ctx =
  ctx_cspace :: u64
  ctx_vspace :: cptr

definition frame_table_init :: "u64 \<Rightarrow> cptr \<Rightarrow> frame_table_ctx" where
  "frame_table_init cspace vspace = \<lparr>ctx_cspace = cspace, ctx_vspace = vspace\<rparr>"

definition frame_table_cspace :: "frame_table_ctx \<Rightarrow> u64" where
  "frame_table_cspace ctx = ctx_cspace ctx"

text \<open>The second half of \<open>alloc_frame_at\<close>: retype and map, with an untyped and a slot at hand.\<close>

definition make_page_at ::
    "'k sel4 \<Rightarrow> frame_table_ctx \<Rightarrow> u64 \<Rightarrow> u64 \<Rightarrow> cptr \<Rightarrow> 'k env cspace_t \<Rightarrow> 'k env \<Rightarrow>
     (cptr \<times> 'k env cspace_t \<times> 'k env) option" where
  "make_page_at S ctx vaddr ut cptr cs w = do {
     cap \<leftarrow> env_ut_cap w ut;
     let (err, w) = cspace_untyped_retype (env_call S) cs cap cptr seL4_ARM_SmallPageObject seL4_PageBits w;
     if err \<noteq> 0 then do {
       cs \<leftarrow> cspace_free_slot cs cptr;
       w \<leftarrow> env_ut_free ut w;
       Some (seL4_CapNull, cs, w)
     } else do {
       (err, cs, w) \<leftarrow> map_frame S cptr (ctx_vspace ctx) vaddr seL4_ReadWrite
                         (seL4_ARM_Default_VMAttributes OR seL4_ARM_ExecuteNever) cs w;
       if err \<noteq> 0 then do {
         let (_, w) = cspace_delete (env_call S) cs cptr w;
         cs \<leftarrow> cspace_free_slot cs cptr;
         w \<leftarrow> env_ut_free ut w;
         Some (seL4_CapNull, cs, w)
       } else Some (cptr, cs, w)
     }
   }"

definition alloc_frame_at ::
    "'k sel4 \<Rightarrow> frame_table_ctx \<Rightarrow> ('k env cspace_t \<times> 'k env) page_alloc" where
  "alloc_frame_at S ctx vaddr = (\<lambda>(cs, w). do {
     (ut, w) \<leftarrow> env_alloc_4k w;
     if ut = 0 then Some (seL4_CapNull, cs, w)
     else do {
       (cptr, cs, w) \<leftarrow> cspace_alloc_slot (env_call S) cs w;
       if cptr = seL4_CapNull then do {
         w \<leftarrow> env_ut_free ut w;
         Some (seL4_CapNull, cs, w)
       } else make_page_at S ctx vaddr ut cptr cs w
     }
   })"

definition flush_frame :: "'w kernel \<Rightarrow> frame_ref \<Rightarrow> frame_table_t \<Rightarrow> 'w \<Rightarrow> 'w option" where
  "flush_frame K r ft w = do {
     i \<leftarrow> frame_from_ref ft r;
     fr \<leftarrow> arr_get (frames ft) i;
     let (_, w) = K (ARM_Page_Clean_Data (sos_page fr) 0 (BIT seL4_PageBits)) w;
     let (_, w) = K (ARM_Page_Unify_Instruction (sos_page fr) 0 (BIT seL4_PageBits)) w;
     Some w
   }"

definition invalidate_frame :: "'w kernel \<Rightarrow> frame_ref \<Rightarrow> frame_table_t \<Rightarrow> 'w \<Rightarrow> 'w option" where
  "invalidate_frame K r ft w = do {
     i \<leftarrow> frame_from_ref ft r;
     fr \<leftarrow> arr_get (frames ft) i;
     let (_, w) = K (ARM_Page_Invalidate_Data (sos_page fr) 0 (BIT seL4_PageBits)) w;
     Some w
   }"

section \<open>Capability spaces with slots in use\<close>

text \<open>\<open>sos_cs S root held cs\<close>: a capability space of SOS below the cnode \<open>root\<close>, of which someone holds the slots \<open>held\<close>.\<close>

definition sos_cs :: "'k sel4 \<Rightarrow> cptr \<Rightarrow> cptr list \<Rightarrow> 'k env cspace_t \<Rightarrow> bool" where
  "sos_cs S root held cs \<longleftrightarrow> two.client_ok cs held \<and> root_cnode cs = root \<and> (\<exists>cookie. alloc cs = Some (bootstrap_alloc S cookie))"

lemma sos_cs_two_level: "sos_cs S root held cs \<Longrightarrow> two_level cs"
  by (simp add: sos_cs_def two.client_ok_def cs2_inv_def lvl_ok_def lvl_shape_def)

lemma sos_cs_alloc:
  assumes cs: "sos_cs S root held cs" and own: "owns_from S w0 w D (Suc k)"
    and run: "cspace_alloc_slot (env_call S) cs w = Some (c, cs', w')"
  shows "sos_cs S root (if c = 0 then held else held @ [c]) cs'" and "\<exists>D'. D \<subseteq> D' \<and> owns_from S w0 w' D' k"
proof -
  from cs obtain cookie where ok: "two.client_ok cs held" and al: "alloc cs = Some (bootstrap_alloc S cookie)"
    and root: "root_cnode cs = root" by (auto simp: sos_cs_def)
  then have lvl: "lvl_ok cs" by (simp add: two.client_ok_def cs2_inv_def)
  from alloc_slot_two_level [OF lvl run] al root have "alloc cs' = Some (bootstrap_alloc S cookie)" "root_cnode cs' = root"
    by (simp_all add: alloc_post_def same_rest_def)
  with two.client_ok_alloc [OF ok run] show "sos_cs S root (if c = 0 then held else held @ [c]) cs'"
    unfolding sos_cs_def by blast
  from boot.alloc_slot_owns [OF lvl al own run] show "\<exists>D'. D \<subseteq> D' \<and> owns_from S w0 w' D' k" .
qed

lemma sos_cs_free:
  assumes cs: "sos_cs S root held cs" and c: "c \<in> set held"
  shows "\<exists>cs'. cspace_free_slot cs c = Some cs' \<and> sos_cs S root (remove1 c held) cs'"
proof -
  from cs obtain cookie where ok: "two.client_ok cs held" and al: "alloc cs = Some (bootstrap_alloc S cookie)"
    and root: "root_cnode cs = root" by (auto simp: sos_cs_def)
  from two.client_ok_free [OF ok c] obtain cs' where f: "cspace_free_slot cs c = Some cs'"
    "two.client_ok cs' (remove1 c held)" by blast
  have "c \<noteq> 0" using ok c by (auto simp: two.client_ok_def)
  then have "alloc cs' = alloc cs" "root_cnode cs' = root_cnode cs" using f(1)
    by (auto simp: cspace_free_slot_def seL4_CapNull_def set_node_def Let_def elim!: bind_SomeE split: if_splits)
  with f al root show ?thesis by (auto simp: sos_cs_def)
qed

interpretation csrc: slots_ok S w0 "slots_from_cspace S" "sos_cs S root held" 1 for S w0 root held
proof
  fix s s' w w' D k i slot
  assume "sos_cs S root held s" and own: "owns_from S w0 w D (1 + k)" and "slots_from_cspace S i s w = Some (slot, s', w')"
  with sos_cs_alloc [of S root held s w0 w D k slot s' w'] show "sos_cs S root held s' \<and> (\<exists>D'. D \<subseteq> D' \<and> owns_from S w0 w' D' k)"
    by (auto simp: slots_from_cspace_def sos_cs_def two.client_ok_def split: if_splits)
qed

section \<open>Making a page\<close>

text \<open>The two calls that make a page: retyping an untyped into the slot \<open>p\<close>, and mapping the page at \<open>v\<close>.\<close>

definition page_retype :: "cptr \<Rightarrow> cptr \<Rightarrow> cptr \<Rightarrow> invocation" where
  "page_retype root cap p =
     Untyped_Retype cap seL4_ARM_SmallPageObject seL4_PageBits root (p div 2 ^ CNODE_SLOT_BITS CNODE_SIZE_BITS)
       (seL4_WordBits - CNODE_SLOT_BITS CNODE_SIZE_BITS) (p mod CNODE_SLOTS CNODE_SIZE_BITS) 1"

definition page_map :: "frame_table_ctx \<Rightarrow> cptr \<Rightarrow> u64 \<Rightarrow> invocation" where
  "page_map ctx p v = ARM_Page_Map p (ctx_vspace ctx) v seL4_ReadWrite (seL4_ARM_Default_VMAttributes OR seL4_ARM_ExecuteNever)"

text \<open>The kernel has made a page at \<open>v\<close>, with its capability in slot \<open>p\<close>, from the untyped with handle \<open>u\<close>.\<close>

definition page_made ::
    "frame_table_ctx \<Rightarrow> cptr \<Rightarrow> ('k \<times> (invocation \<times> int) list) env \<Rightarrow> u64 \<times> cptr \<times> u64 \<Rightarrow> bool" where
  "page_made ctx root w = (\<lambda>(v, p, u). \<exists>cap. env_ut_cap w u = Some cap \<and>
     (page_retype root cap p, 0) \<in> kernel_log w \<and> (page_map ctx p v, 0) \<in> kernel_log w)"

lemma page_made_evolves: "evolves (logged S) w w' \<Longrightarrow> page_made ctx root w g \<Longrightarrow> page_made ctx root w' g"
  by (auto simp: page_made_def dest!: evolves_logged)

text \<open>When mapping succeeds, the kernel has mapped the frame.\<close>

lemma map_frame_loop_maps:
  assumes "map_frame_loop (logged S) cs (slots_from_cspace (logged S)) mc vspace vaddr i err s w = Some (0, s', w')"
    and "sos_cs (logged S) root held s" and "ut_owns w D ((3 - i) + k)" and "err = 0 \<longrightarrow> (mc, 0) \<in> kernel_log w"
  shows "(mc, 0) \<in> kernel_log w'"
  using assms
proof (induction "3 - i" arbitrary: i err s w D)
  case 0
  then show ?case by (subst (asm) map_frame_loop.simps) auto
next
  case (Suc n)
  from Suc.hyps(2) have i: "i < 3" and n: "3 - Suc i = n" by simp_all
  have "(3 - i) + k = 1 + ((3 - Suc i) + k)" using i by arith
  with Suc.prems(3) have own: "owns_from (logged S) w w D (1 + ((3 - Suc i) + k))" by (simp only: owns_from_here)
  show ?case
  proof (cases "err = seL4_FailedLookup")
    case False
    with Suc.prems show ?thesis by (subst (asm) map_frame_loop.simps) auto
  next
    case True
    with Suc.prems(1) i obtain r1 s1 w1 where
      m: "map_missing (logged S) cs (slots_from_cspace (logged S)) vspace vaddr i s w = Some (r1, s1, w1)"
      by (subst (asm) map_frame_loop.simps) (auto split: option.splits)
    from csrc.map_missing_owns [OF Suc.prems(2) own m] obtain D1 where D1: "sos_cs (logged S) root held s1"
      "owns_from (logged S) w w1 D1 ((3 - Suc i) + k)" by blast
    show ?thesis
    proof (cases r1)
      case (Inl e)
      with Suc.prems(1) True i m have "e = 0" by (subst (asm) map_frame_loop.simps) simp
      moreover have "e = - 1" using m Inl by (auto simp: map_missing_def Let_def elim!: bind_SomeE split: if_splits prod.splits)
      ultimately show ?thesis by simp
    next
      case (Inr e)
      obtain e2 w2 where e2: "(if e = 0 then env_call (logged S) mc w1 else (e, w1)) = (e2, w2)" by fastforce
      have o2: "ut_owns w2 D1 ((3 - Suc i) + k)"
        using e2 D1(2) env_call_owns by (auto simp: owns_from_def split: if_splits)
      have rest: "map_frame_loop (logged S) cs (slots_from_cspace (logged S)) mc vspace vaddr (Suc i) e2 s1 w2 = Some (0, s', w')"
        using Suc.prems(1) True i m Inr e2 by (subst (asm) map_frame_loop.simps) simp
      have "e2 = 0 \<longrightarrow> (mc, 0) \<in> kernel_log w2" using e2 by (auto split: if_splits dest: logged_call)
      from Suc.hyps(1) [OF n [symmetric] rest D1(1) o2 this] show ?thesis .
    qed
  qed
qed

lemma map_frame_maps:
  assumes "map_frame (logged S) p vspace v rights attr cs w = Some (0, cs', w')" and "sos_cs (logged S) root held cs" and "ut_owns w D (3 + k)"
  shows "(ARM_Page_Map p vspace v rights attr, 0) \<in> kernel_log w'"
proof -
  let ?mc = "ARM_Page_Map p vspace v rights attr"
  obtain e w1 where e: "env_call (logged S) ?mc w = (e, w1)" by fastforce
  have "map_frame_loop (logged S) (root_cnode cs, two_level cs) (slots_from_cspace (logged S)) ?mc vspace v 0 e cs w1 = Some (0, cs', w')"
    using assms(1) e by (simp add: map_frame_def map_frame_impl_def)
  moreover have "ut_owns w1 D ((3 - 0) + k)" using env_call_owns [OF assms(3) e] by simp
  ultimately show ?thesis using map_frame_loop_maps [OF _ assms(2)] logged_call [OF e] by blast
qed

text \<open>
  \<open>alloc_frame_at\<close> keeps every untyped with its owner. On success it adds one slot, the page's, to those in use, and one untyped, from
  which the page is made, to those with an owner. On failure it gives back its slot and its untyped, though not what the mapping allocated.
\<close>

lemma give_back:
  assumes cs: "sos_cs S root (held @ [p]) cs" and own: "owns_from S w0 w D k" and u: "u \<in> D"
  shows "\<exists>cs' w'. cspace_free_slot cs p = Some cs' \<and> env_ut_free u w = Some w' \<and>
           sos_cs S root held cs' \<and> owns_from S w0 w' (D - {u}) k"
proof -
  have "distinct (held @ [p])" using cs by (simp add: sos_cs_def two.client_ok_def)
  then have "remove1 p (held @ [p]) = held" by (simp add: remove1_append)
  with sos_cs_free [OF cs, of p] owns_from_free [OF own u] show ?thesis by auto
qed

lemma make_page_at_ok:
  assumes cs: "sos_cs (logged S) root (held @ [p]) cs" and own: "owns_from (logged S) w0 w D (3 + k)" and u: "u \<in> D" and p: "p \<noteq> 0"
    and run: "make_page_at (logged S) ctx vaddr u p cs w = Some (c, cs', w')"
  shows "if c = 0 then sos_cs (logged S) root held cs' \<and> (\<exists>D'. D - {u} \<subseteq> D' \<and> owns_from (logged S) w0 w' D' k)
    else c = p \<and> sos_cs (logged S) root (held @ [p]) cs' \<and> (\<exists>D'. D \<subseteq> D' \<and> owns_from (logged S) w0 w' D' k) \<and>
      page_made ctx root w' (vaddr, p, u)"
proof -
  from run obtain cap where cap: "env_ut_cap w u = Some cap" by (auto simp: make_page_at_def elim!: bind_SomeE)
  obtain e w1 where r: "cspace_untyped_retype (env_call (logged S)) cs cap p seL4_ARM_SmallPageObject seL4_PageBits w = (e, w1)"
    by fastforce
  then have call: "env_call (logged S) (page_retype root cap p) w = (e, w1)"
    using cs sos_cs_two_level [OF cs] by (simp add: cspace_untyped_retype_def untyped_retype_at_def page_retype_def sos_cs_def)
  note o1 = owns_from_call [OF own call]
  show ?thesis
  proof (cases "e = 0")
    case False
    from give_back [OF cs o1 u] obtain cs2 w2 where g: "cspace_free_slot cs p = Some cs2" "env_ut_free u w1 = Some w2"
      "sos_cs (logged S) root held cs2" "owns_from (logged S) w0 w2 (D - {u}) (3 + k)" by blast
    then have "c = 0" "cs' = cs2" "w' = w2"
      using run cap r False by (auto simp: make_page_at_def seL4_CapNull_def)
    with g owns_from_less [OF g(4)] show ?thesis by auto
  next
    case True
    with run cap r obtain e2 cs2 w2 where m: "map_frame (logged S) p (ctx_vspace ctx) vaddr seL4_ReadWrite
        (seL4_ARM_Default_VMAttributes OR seL4_ARM_ExecuteNever) cs w1 = Some (e2, cs2, w2)"
      by (auto simp: make_page_at_def elim!: bind_SomeE)
    from csrc.map_frame_impl_owns [OF m [unfolded map_frame_def] cs, where D = D and k = k] o1 obtain D2 where
      D2: "sos_cs (logged S) root (held @ [p]) cs2" "D \<subseteq> D2" "owns_from (logged S) w0 w2 D2 k" by auto
    show ?thesis
    proof (cases "e2 = 0")
      case True
      with run cap r \<open>e = 0\<close> m have res: "c = p" "cs' = cs2" "w' = w2" by (auto simp: make_page_at_def)
      have own1: "ut_owns w1 D (3 + k)" using o1 by (simp add: owns_from_def)
      have "evolves (logged S) w1 w2"
        using csrc.map_frame_impl_owns [OF m [unfolded map_frame_def] cs, where D = D and k = k and ?w0.0 = w1] own1
        by (auto simp: owns_from_def)
      then have "kernel_log w1 \<subseteq> kernel_log w2" "env_ut_cap w2 = env_ut_cap w1" by (auto dest: evolves_logged)
      moreover have "env_ut_cap w1 = env_ut_cap w" "(page_retype root cap p, 0) \<in> kernel_log w1"
        using evolves_logged [OF evolves_call [OF evolves_refl call]] logged_call [OF call] \<open>e = 0\<close> by auto
      moreover have "(page_map ctx p vaddr, 0) \<in> kernel_log w2"
        using map_frame_maps [OF m [unfolded True] cs own1] by (simp add: page_map_def)
      ultimately have "page_made ctx root w2 (vaddr, p, u)" using cap by (auto simp: page_made_def)
      with D2 p res show ?thesis by auto
    next
      case False
      obtain e3 w3 where d: "cspace_delete (env_call (logged S)) cs2 p w2 = (e3, w3)" by fastforce
      have o3: "owns_from (logged S) w0 w3 D2 k" using owns_from_call [OF D2(3)] d by (simp add: cspace_delete_def)
      from give_back [OF D2(1) o3, of u] u D2(2) obtain cs4 w4 where g: "cspace_free_slot cs2 p = Some cs4"
        "env_ut_free u w3 = Some w4" "sos_cs (logged S) root held cs4" "owns_from (logged S) w0 w4 (D2 - {u}) k" by blast
      then have "c = 0" "cs' = cs4" "w' = w4"
        using run cap r \<open>e = 0\<close> m d False by (auto simp: make_page_at_def seL4_CapNull_def)
      moreover have "D - {u} \<subseteq> D2 - {u}" using D2(2) by blast
      ultimately show ?thesis using g by auto
    qed
  qed
qed

lemma alloc_frame_at_ok:
  assumes cs: "sos_cs (logged S) root held cs" and own: "owns_from (logged S) w0 w D (4 + k)"
    and run: "alloc_frame_at (logged S) ctx vaddr (cs, w) = Some (c, cs', w')"
  shows "if c = 0 then sos_cs (logged S) root held cs' \<and> (\<exists>D'. D \<subseteq> D' \<and> owns_from (logged S) w0 w' D' k)
    else sos_cs (logged S) root (held @ [c]) cs' \<and>
      (\<exists>u D'. u \<notin> D \<and> insert u D \<subseteq> D' \<and> owns_from (logged S) w0 w' D' k \<and> page_made ctx root w' (vaddr, c, u))"
proof -
  from run obtain u w1 where a: "env_alloc_4k w = Some (u, w1)"
    by (auto simp: alloc_frame_at_def elim!: bind_SomeE)
  note A = owns_from_alloc [OF own a]
  show ?thesis
  proof (cases "u = 0")
    case True
    with run a A cs show ?thesis by (auto simp: alloc_frame_at_def seL4_CapNull_def intro: owns_from_less)
  next
    case False
    with A have uD: "u \<notin> D" and "owns_from (logged S) w0 w1 (insert u D) (4 + k)" by simp_all
    then have o1: "owns_from (logged S) w0 w1 (insert u D) (Suc (3 + k))" by simp
    from run a False obtain p cs1 w2 where p: "cspace_alloc_slot (env_call (logged S)) cs w1 = Some (p, cs1, w2)"
      by (auto simp: alloc_frame_at_def elim!: bind_SomeE)
    note P = sos_cs_alloc [OF cs o1 p]
    from P(2) obtain D1 where D1: "insert u D \<subseteq> D1" "owns_from (logged S) w0 w2 D1 (3 + k)" by blast
    show ?thesis
    proof (cases "p = 0")
      case True
      from owns_from_free [OF D1(2), of u] D1(1) obtain w3 where f: "env_ut_free u w2 = Some w3"
        "owns_from (logged S) w0 w3 (D1 - {u}) (3 + k)" by blast
      then have "c = 0" "cs' = cs1" "w' = w3"
        using run a False p True by (auto simp: alloc_frame_at_def seL4_CapNull_def)
      moreover have "D \<subseteq> D1 - {u}" using D1(1) uD by blast
      ultimately show ?thesis using P(1) True owns_from_less [OF f(2)] by auto
    next
      case p0: False
      with P(1) have cs1: "sos_cs (logged S) root (held @ [p]) cs1" by simp
      have "make_page_at (logged S) ctx vaddr u p cs1 w2 = Some (c, cs', w')"
        using run a False p p0 by (simp add: alloc_frame_at_def seL4_CapNull_def)
      from make_page_at_ok [OF cs1 D1(2) _ p0 this] D1(1) have res: "if c = 0 then sos_cs (logged S) root held cs' \<and>
          (\<exists>D'. D1 - {u} \<subseteq> D' \<and> owns_from (logged S) w0 w' D' k)
        else c = p \<and> sos_cs (logged S) root (held @ [p]) cs' \<and> (\<exists>D'. D1 \<subseteq> D' \<and> owns_from (logged S) w0 w' D' k) \<and>
          page_made ctx root w' (vaddr, p, u)" by blast
      have "D \<subseteq> D1 - {u}" using D1(1) uD by blast
      with res D1(1) uD show ?thesis by (cases "c = 0") (simp, blast, simp, blast)
    qed
  qed
qed

section \<open>The pages of the frames\<close>

text \<open>Every frame in use has a page among \<open>pg\<close>, mapped at its address, and records its slot, of which there is room for 20 bits.\<close>

definition frame_pages :: "frame_table_t \<Rightarrow> (u64 \<times> cptr \<times> 'u) list \<Rightarrow> bool" where
  "frame_pages ft pg \<longleftrightarrow> (\<forall>r \<in> {1..<ft_used ft}. \<exists>p u. (SOS_FRAME_DATA + of_nat r * of_nat PAGE_SIZE_4K, p, u) \<in> set pg \<and>
     sos_page (frames ft ! r) = p mod 2 ^ 20)"

text \<open>Moving frames between lists keeps their pages.\<close>

lemma upd_frame_pages:
  "upd_frame f i ft = Some ft' \<Longrightarrow> (\<And>x. sos_page (f x) = sos_page x) \<Longrightarrow> map sos_page (frames ft') = map sos_page (frames ft)"
  by (auto simp: upd_frame_def map_update elim!: bind_SomeE) (metis arr_get_def list_update_id map_update nth_map option.distinct(1) option.inject)

lemma links_keep_page [simp]:
  "sos_page (set_prev r x) = sos_page x" "sos_page (set_next r x) = sos_page x" "sos_page (set_list_id l x) = sos_page x"
  by (simp_all add: set_prev_def set_next_def set_list_id_def)

lemma push_front_pages: "push_front ft l f = Some (ft', l') \<Longrightarrow> map sos_page (frames ft') = map sos_page (frames ft)"
  by (auto simp: push_front_def Let_def elim!: bind_SomeE split: if_splits dest!: upd_frame_pages)

lemma push_back_pages: "push_back ft l f = Some (ft', l') \<Longrightarrow> map sos_page (frames ft') = map sos_page (frames ft)"
  by (auto simp: push_back_def Let_def elim!: bind_SomeE split: if_splits dest!: upd_frame_pages push_front_pages)

lemma pop_front_pages: "pop_front ft l = Some (f, ft', l') \<Longrightarrow> map sos_page (frames ft') = map sos_page (frames ft)"
  by (auto simp: pop_front_def Let_def elim!: bind_SomeE split: if_splits dest!: upd_frame_pages)

lemma remove_frame_pages: "remove_frame ft l f = Some (ft', l') \<Longrightarrow> map sos_page (frames ft') = map sos_page (frames ft)"
  by (auto simp: remove_frame_def Let_def elim!: bind_SomeE split: if_splits dest!: upd_frame_pages)

lemma frame_pages_same:
  assumes "map sos_page (frames ft') = map sos_page (frames ft)" and "ft_used ft' = ft_used ft" and "ft_used ft \<le> length (frames ft)"
  shows "frame_pages ft' pg = frame_pages ft pg"
proof -
  have "length (frames ft') = length (frames ft)" using assms(1) by (metis length_map)
  with assms have "sos_page (frames ft' ! r) = sos_page (frames ft ! r)" if "r < ft_used ft" for r
    using that by (metis nth_map order_less_le_trans)
  with assms(2) show ?thesis by (simp add: frame_pages_def)
qed

lemma free_frame_pages:
  assumes "free_frame r ft = Some ft'" and "ft_used ft \<le> length (frames ft)"
  shows "frame_pages ft' pg = frame_pages ft pg"
proof (rule frame_pages_same [OF _ free_frame_used [OF assms(1)] assms(2)])
  show "map sos_page (frames ft') = map sos_page (frames ft)"
    using assms(1) by (auto simp: free_frame_def Let_def elim!: bind_SomeE split: if_splits dest!: remove_frame_pages push_front_pages)
qed

text \<open>
  What the frame table relies on: \<open>pa\<close> gives it pages. \<open>P w n pg\<close> is what holds of the rest of the system when the pages \<open>pg\<close> have been made;
  \<open>n\<close> more calls are possible.
\<close>

locale page_source =
  fixes pa :: "'w page_alloc" and P :: "'w \<Rightarrow> nat \<Rightarrow> (u64 \<times> cptr \<times> 'u) list \<Rightarrow> bool"
  assumes page_step: "P w (Suc n) pg \<Longrightarrow> pa v w = Some (p, w') \<Longrightarrow> if p = 0 then P w' n pg else \<exists>u. P w' n (pg @ [(v, p, u)])"
    and fewer: "P w (Suc n) pg \<Longrightarrow> P w n pg"
begin

lemma page_step_mono: "P w (Suc n) pg \<Longrightarrow> pa v w = Some (p, w') \<Longrightarrow> \<exists>pg'. set pg \<subseteq> set pg' \<and> P w' n pg'"
  using page_step [of w n pg v p w'] by (cases "p = 0") (fastforce, metis Un_upper1 set_append)

lemma bump_capacity_source:
  assumes "bump_capacity pa limit ft w = Some (e, ft', w')" and "P w (Suc n) pg"
  shows "\<exists>pg'. set pg \<subseteq> set pg' \<and> P w' n pg'"
  using assms fewer [OF assms(2)] page_step_mono [OF assms(2)]
  by (auto simp: bump_capacity_def Let_def elim!: bind_SomeE split: if_splits)

lemma frame_pages_mono: "frame_pages ft pg \<Longrightarrow> set pg \<subseteq> set pg' \<Longrightarrow> frame_pages ft pg'"
  unfolding frame_pages_def by blast

lemma alloc_fresh_frame_source:
  assumes inv: "ft_inv limit ft fs al" and run: "alloc_fresh_frame pa limit ft w = Some (f, ft', w')"
    and P: "P w (Suc (Suc n)) pg" and fp: "frame_pages ft pg"
  shows "\<exists>pg'. P w' n pg' \<and> frame_pages ft' pg'"
proof -
  obtain e ft1 w1 where bump: "(if ft_used ft = capacity ft then bump_capacity pa limit ft w else Some (0, ft, w)) = Some (e, ft1, w1)"
    using run by (auto simp: alloc_fresh_frame_def bind_eq_Some_conv split: if_splits)
  have ok: "ft_used ft \<le> length (frames ft)" using inv by (auto simp: ft_inv_def flist_def ft_ok_def)
  have "\<exists>pg1. set pg \<subseteq> set pg1 \<and> P w1 (Suc n) pg1"
  proof (cases "ft_used ft = capacity ft")
    case True
    with bump bump_capacity_source [OF _ P] show ?thesis by auto
  next
    case False
    with bump fewer [OF P] show ?thesis by auto
  qed
  then obtain pg1 where pg1: "set pg \<subseteq> set pg1" "P w1 (Suc n) pg1" by blast
  have used1: "ft_used ft1 = ft_used ft" and frames1: "\<forall>i < ft_used ft. frames ft1 ! i = frames ft ! i"
    using bump ok by (auto simp: bump_capacity_def Let_def nth_append elim!: bind_SomeE split: if_splits)
  have fp1: "frame_pages ft1 pg1" using fp frames1 used1 pg1(1) unfolding frame_pages_def by (simp, blast)
  show ?thesis
  proof (cases "e = 0")
    case False
    with run bump have "ft' = ft1" "w' = w1" by (auto simp: alloc_fresh_frame_def bind_eq_Some_conv split: if_splits)
    with fp1 fewer [OF pg1(2)] show ?thesis by blast
  next
    case True
    have pre: "ft_used ft \<le> capacity ft" "limit \<noteq> 0 \<longrightarrow> capacity ft \<le> limit"
      using inv by (auto simp: ft_inv_def flist_def ft_ok_def)
    define r where "r = max 1 (ft_used ft1)"
    note eq = alloc_fresh_frame_eq [OF pre bump [unfolded True] r_def]
    from run obtain page where pa: "pa (SOS_FRAME_DATA + of_nat r * of_nat PAGE_SIZE_4K) w1 = Some (page, w')"
      and ft': "if page = 0 then ft' = ft1\<lparr>ft_used := r\<rparr> else r < length (frames ft1) \<and> ft' = ft1\<lparr>ft_used := Suc r,
        frames := (frames ft1)[r := \<lparr>sos_page = page mod 2 ^ 20, f_prev = 0, f_next = 0, f_list_id = NO_LIST\<rparr>]\<rparr>"
      unfolding eq by (auto simp: upd_frame_def arr_get_def elim!: bind_SomeE split: if_splits)
    show ?thesis
    proof (cases "page = 0")
      case True
      have "{1..<r} = {1..<ft_used ft1}" by (auto simp: r_def)
      then have "frame_pages ft' pg1" using True ft' fp1 by (simp add: frame_pages_def)
      with page_step [OF pg1(2) pa] True show ?thesis by auto
    next
      case False
      with page_step [OF pg1(2) pa] obtain u where u: "P w' n (pg1 @ [(SOS_FRAME_DATA + of_nat r * of_nat PAGE_SIZE_4K, page, u)])" by auto
      have "frame_pages ft' (pg1 @ [(SOS_FRAME_DATA + of_nat r * of_nat PAGE_SIZE_4K, page, u)])"
        using False ft' fp1 unfolding frame_pages_def by (fastforce simp: nth_list_update r_def less_Suc_eq)
      with u show ?thesis by blast
    qed
  qed
qed

lemma alloc_frame_source:
  assumes inv: "ft_inv limit ft fs al" and run: "alloc_frame pa limit ft w = Some (r, ft', w')" and used: "ft_used ft' \<le> 2 ^ 19"
    and P: "P w (Suc (Suc n)) pg" and fp: "frame_pages ft pg"
  shows "\<exists>pg'. P w' n pg' \<and> frame_pages ft' pg'"
proof -
  have ok: "ft_used ft \<le> length (frames ft)" using inv by (auto simp: ft_inv_def flist_def ft_ok_def)
  from run obtain f ft1 l ft2 f2 where s: "pop_front ft (free_frames ft) = Some (f, ft1, l)"
    "(if f = None then alloc_fresh_frame pa limit (ft1\<lparr>free_frames := l\<rparr>) w else Some (f, ft1\<lparr>free_frames := l\<rparr>, w)) = Some (f2, ft2, w')"
    "(if f2 \<noteq> None then do { (ft, l) \<leftarrow> push_back ft2 (allocated_frames ft2) f2; Some (ft\<lparr>allocated_frames := l\<rparr>) } else Some ft2) = Some ft'"
    unfolding alloc_frame_def Let_def by (fastforce elim!: bind_SomeE)
  note pop = pop_front_frame [OF s(1)]
  let ?ft1 = "ft1\<lparr>free_frames := l\<rparr>"
  have fp1: "frame_pages ?ft1 pg"
    using frame_pages_same [of ?ft1 ft pg] pop_front_pages [OF s(1)] pop ok fp by (simp add: same_table_def)
  obtain pg2 where pg2: "P w' n pg2" "frame_pages ft2 pg2"
  proof (cases f)
    case None
    with inv s(1) have "?ft1 = ft" by (cases fs) (fastforce simp: ft_inv_def pop_front_Nil dest: fl.popf_law)+
    with s(2) None alloc_fresh_frame_source [OF inv _ P fp] that show ?thesis by auto
  next
    case (Some x)
    with s(2) fp1 fewer [OF fewer [OF P]] that show ?thesis by auto
  qed
  have push: "map sos_page (frames ft') = map sos_page (frames ft2)" "ft_used ft' = ft_used ft2"
    using s(3) by (auto simp: same_table_def elim!: bind_SomeE split: if_splits dest: push_back_pages push_back_frame)
  moreover have "ft_used ft' \<le> length (frames ft')"
    using alloc_frame_step [OF inv run used] by (auto simp: ft_inv_def flist_def ft_ok_def)
  moreover have "length (frames ft') = length (frames ft2)" using push(1) by (metis length_map)
  ultimately have "frame_pages ft' pg2" using frame_pages_same [of ft' ft2 pg2] pg2(2) by simp
  with pg2(1) show ?thesis by blast
qed

lemma ft_run_source:
  assumes "ft_run pa limit calls (ft, w, held) = Some (ft', w', held')" and "ft_inv limit ft fs held" and "ft_used ft' \<le> 2 ^ 19"
    and "P w (2 * length calls) pg" and "frame_pages ft pg"
  shows "\<exists>pg'. P w' 0 pg' \<and> frame_pages ft' pg'"
  using assms
proof (induction calls arbitrary: ft w held fs pg)
  case (Cons call calls)
  show ?case
  proof (cases call)
    case Alloc_Frame
    with Cons.prems(1) obtain r ft1 w1 where a: "alloc_frame pa limit ft w = Some (r, ft1, w1)"
      and rest: "ft_run pa limit calls (ft1, w1, held @ [r]) = Some (ft', w', held')" by (auto elim!: bind_SomeE)
    have used: "ft_used ft1 \<le> 2 ^ 19" using ft_run_used [OF rest] Cons.prems(3) by simp
    from Cons.prems(4) have "P w (Suc (Suc (2 * length calls))) pg" by simp
    with alloc_frame_source [OF Cons.prems(2) a used _ Cons.prems(5)] obtain pg1 where "P w1 (2 * length calls) pg1" "frame_pages ft1 pg1" by blast
    with Cons.IH [OF rest] alloc_frame_step [OF Cons.prems(2) a used] Cons.prems(3) show ?thesis by blast
  next
    case (Free_Frame r)
    with Cons.prems(1) obtain ft1 where f: "free_frame r ft = Some ft1"
      and rest: "ft_run pa limit calls (ft1, w, remove1 r held) = Some (ft', w', held')" by (auto elim!: bind_SomeE)
    have ok: "ft_used ft \<le> length (frames ft)" using Cons.prems(2) by (auto simp: ft_inv_def flist_def ft_ok_def)
    have fp: "frame_pages ft1 pg" using Cons.prems(5) by (simp add: free_frame_pages [OF f ok])
    have one: "ft_run pa limit [Free_Frame r] (ft, w, held) = Some (ft1, w, remove1 r held)" using f by simp
    have "ft_used ft1 \<le> 2 ^ 19" using ft_run_used [OF rest] Cons.prems(3) by simp
    from ft_run_inv [OF one Cons.prems(2) this] obtain fs1 where "ft_inv limit ft1 fs1 (remove1 r held)" by blast
    moreover have "P w (2 * length calls) pg" using Cons.prems(4) fewer by simp
    ultimately show ?thesis using Cons.IH [OF rest] Cons.prems(3) fp by blast
  qed
qed auto

end

section \<open>The allocators together\<close>

definition pages_ok ::
    "'k sel4 \<Rightarrow> frame_table_ctx \<Rightarrow> cptr \<Rightarrow> u64 set \<Rightarrow> nat \<Rightarrow> ('k \<times> (invocation \<times> int) list) env cspace_t \<Rightarrow>
     ('k \<times> (invocation \<times> int) list) env \<Rightarrow> (u64 \<times> cptr \<times> u64) list \<Rightarrow> bool" where
  "pages_ok S ctx root D k cs w pg \<longleftrightarrow> sos_cs (logged S) root (map (\<lambda>(v, p, u). p) pg) cs \<and>
     distinct (map (\<lambda>(v, p, u). u) pg) \<and> D \<inter> set (map (\<lambda>(v, p, u). u) pg) = {} \<and>
     ut_owns w (D \<union> set (map (\<lambda>(v, p, u). u) pg)) k \<and> (\<forall>g \<in> set pg. page_made ctx root w g)"

lemma ut_owns_sub:
  assumes "ut_owns w D k" and "D' \<subseteq> D"
  shows "ut_owns w D' k"
proof -
  have "ut_rep w D' F S" if "ut_rep w D F S" for F S using that assms(2) by (auto simp: ut_rep_def ut_known_def)
  with assms(1) show ?thesis unfolding ut_owns_def by blast
qed

lemma pages_ok_alloc:
  assumes "pages_ok S ctx root D (4 + k) cs w pg" and "alloc_frame_at (logged S) ctx v (cs, w) = Some (p, cs', w')"
  shows "if p = 0 then pages_ok S ctx root D k cs' w' pg else \<exists>u. pages_ok S ctx root D k cs' w' (pg @ [(v, p, u)])"
proof -
  let ?U = "D \<union> set (map (\<lambda>(v, p, u). u) pg)"
  have cs: "sos_cs (logged S) root (map (\<lambda>(v, p, u). p) pg) cs" and own: "owns_from (logged S) w w ?U (4 + k)"
    and made: "\<forall>g \<in> set pg. page_made ctx root w g" and dist: "distinct (map (\<lambda>(v, p, u). u) pg)" "D \<inter> set (map (\<lambda>(v, p, u). u) pg) = {}"
    using assms(1) by (auto simp: pages_ok_def owns_from_here)
  note ok = alloc_frame_at_ok [OF cs own assms(2)]
  show ?thesis
  proof (cases "p = 0")
    case True
    with ok obtain D' where D': "sos_cs (logged S) root (map (\<lambda>(v, p, u). p) pg) cs'" "?U \<subseteq> D'" "ut_owns w' D' k" "evolves (logged S) w w'"
      by (auto simp: owns_from_def)
    with True dist made page_made_evolves [OF D'(4)] ut_owns_sub [OF D'(3,2)] show ?thesis by (simp add: pages_ok_def)
  next
    case False
    with ok obtain u D' where D': "sos_cs (logged S) root (map (\<lambda>(v, p, u). p) pg @ [p]) cs'" "u \<notin> ?U" "insert u ?U \<subseteq> D'" "ut_owns w' D' k"
      "evolves (logged S) w w'" "page_made ctx root w' (v, p, u)" by (auto simp: owns_from_def)
    have "pages_ok S ctx root D k cs' w' (pg @ [(v, p, u)])"
      using D'(1,2,6) dist made page_made_evolves [OF D'(5)] ut_owns_sub [OF D'(4,3)] by (auto simp: pages_ok_def)
    with False show ?thesis by auto
  qed
qed

interpretation sos: page_source "alloc_frame_at (logged S) ctx" "\<lambda>cw n. pages_ok S ctx root D (4 * n) (fst cw) (snd cw)" for S ctx root D
proof
  fix cw :: "('a \<times> (invocation \<times> int) list) env cspace_t \<times> ('a \<times> (invocation \<times> int) list) env" and cw' n pg v p
  show "if p = 0 then pages_ok S ctx root D (4 * n) (fst cw') (snd cw') pg
      else \<exists>u. pages_ok S ctx root D (4 * n) (fst cw') (snd cw') (pg @ [(v, p, u)])"
    if "pages_ok S ctx root D (4 * Suc n) (fst cw) (snd cw) pg" "alloc_frame_at (logged S) ctx v cw = Some (p, cw')"
    using pages_ok_alloc [of S ctx root D "4 * n" "fst cw" "snd cw" pg v p "fst cw'" "snd cw'"] that by simp
  show "pages_ok S ctx root D (4 * n) (fst cw) (snd cw) pg" if "pages_ok S ctx root D (4 * Suc n) (fst cw) (snd cw) pg"
    using that ut_owns_less [of "snd cw" _ 4 "4 * n"] by (simp add: pages_ok_def)
qed

text \<open>
  C1. The three allocators of SOS together, and the pages they hand out. From the initial frame table, a well-formed capability space with the
  bootstrap callbacks and a well-formed untyped table, whatever the kernel answers and whatever frames are allocated and freed in whatever
  order, if the calls return then the frame table is well formed and its allocated frames are the ones handed out. Every frame has a page of
  its own: there are pages \<open>pg\<close> with pairwise distinct slots, all in use in a well-formed capability space, and with pairwise distinct
  untypeds, none of which had an owner before and none of which is on a free list of the untyped table, which is well formed; the kernel
  has made each page from its untyped, and mapped it; and each frame in use records the slot of the page that is mapped at the address
  of the frame. The untypeds that had an owner before are still off the free lists. Two bounds are assumed: frame references have 19
  bits, and each allocation maps at most eight pages of bookkeeping, which must fit below the end of the address space. The kernel is
  any kernel, with a record of its calls.
\<close>

theorem sos_allocators_in_order:
  assumes "ft_run (alloc_frame_at (logged S) ctx) limit calls (frame_table_0, (cs, w), []) = Some (ft, (cs', w'), held)"
    and "sos_cs (logged S) root [] cs" and "ut_owns w D (8 * length calls)" and "ft_used ft \<le> 2 ^ 19"
  shows "\<exists>fs pg. ft_inv limit ft fs held \<and> frame_pages ft pg \<and>
     distinct (map (\<lambda>(v, p, u). p) pg) \<and> sos_cs (logged S) root (map (\<lambda>(v, p, u). p) pg) cs' \<and>
     distinct (map (\<lambda>(v, p, u). u) pg) \<and> D \<inter> set (map (\<lambda>(v, p, u). u) pg) = {} \<and>
     ut_owns w' (D \<union> set (map (\<lambda>(v, p, u). u) pg)) 0 \<and> (\<forall>g \<in> set pg. page_made ctx root w' g)"
proof -
  have "pages_ok S ctx root D (4 * (2 * length calls)) cs w []" using assms(2,3) by (simp add: pages_ok_def)
  moreover have "frame_pages frame_table_0 ([] :: (u64 \<times> cptr \<times> u64) list)" by (simp add: frame_pages_def frame_table_0_def)
  ultimately obtain pg where "pages_ok S ctx root D 0 cs' w' pg" "frame_pages ft pg"
    using sos.ft_run_source [OF assms(1) ft_inv_0 assms(4), of root D "[]"] by auto
  moreover from ft_run_inv [OF assms(1) ft_inv_0 assms(4)] obtain fs where "ft_inv limit ft fs held" by blast
  ultimately show ?thesis by (auto simp: pages_ok_def sos_cs_def two.client_ok_def)
qed

section \<open>Witness\<close>

text \<open>A kernel that always succeeds, and a system with two free 4K untypeds.\<close>

definition sel4_ok :: "unit sel4" where
  "sel4_ok = \<lparr>sys_call = (\<lambda>i k. (0, k)), lookup_level = (\<lambda>_. 0)\<rparr>"

definition sos_example_env :: "unit env" where
  "sos_example_env =
     \<lparr>ut_tab = \<lparr>first_paddr = 0x10000, untypeds = 0x8000000000, free_untypeds = replicate 8 0 @ [0x8000000000],
        n_4k_untyped = 2, free_structures = 0,
        ut_mem = (\<lambda>_. None)(0x8000000000 \<mapsto> zero_ut\<lparr>ut_cap := 9, ut_size_bits := 12, ut_next := 0x8000000010\<rparr>,
                             0x8000000010 \<mapsto> zero_ut\<lparr>ut_cap := 10, ut_size_bits := 12\<rparr>)\<rparr>,
      next_free_vaddr = 0x8000100000, bs_vspace = 3, device_virt = SOS_DEVICE_START, kst = ()\<rparr>"

lemma sos_example_owns: "ut_owns sos_example_env {} 100"
proof -
  let ?F = "(\<lambda>_. [])(12 := [0x8000000000, 0x8000000010 :: u64])"
  have "ut_inv (ut_tab sos_example_env) ?F []"
    by (auto simp: ut_inv_def sos_example_env_def zero_ut_def nth_append)
  then have "ut_rep sos_example_env {} ?F []"
    by (auto simp: ut_rep_def ut_known_def sos_example_env_def split: if_splits)
  then show ?thesis unfolding ut_owns_def by (auto simp: sos_example_env_def)
qed

lemma sos_example_cs: "sos_cs S 2 [] (cs2_with 1 (bootstrap_alloc S cookie))"
  using cs2_start_ok [of "bootstrap_alloc S cookie"]
  by (auto simp: sos_cs_def two.client_ok_def cs2_inv_def cs2_reserved_def cs2_with_def cs2_start_def)

text \<open>The environment after one page.\<close>

definition sos_example_env_1 :: "unit env" where
  "sos_example_env_1 = sos_example_env\<lparr>ut_tab := (ut_tab sos_example_env)\<lparr>free_untypeds := replicate 8 0 @ [0x8000000010]\<rparr>\<rparr>"

lemma sel4_ok_call [simp]: "env_call sel4_ok i w = (0, w)"
  by (simp add: env_call_def sel4_ok_def)

lemma map_frame_first: "map_frame sel4_ok f v a r at cs w = Some (0, cs, w)"
  by (simp add: map_frame_def map_frame_impl_def map_frame_loop.simps seL4_FailedLookup_def)

lemmas page_eval = alloc_frame_at_def make_page_at_def env_alloc_4k_def env_ut_cap_def cspace_untyped_retype_def
  untyped_retype_at_def map_frame_first seL4_CapNull_def ut_alloc_4k_untyped_def get_list_def pop_list_def pop_def
  zero_ut_def nth_append list_update_append

text \<open>The same with a record of the calls.\<close>

definition with_log :: "(invocation \<times> int) list \<Rightarrow> unit env \<Rightarrow> (unit \<times> (invocation \<times> int) list) env" where
  "with_log l w = \<lparr>ut_tab = ut_tab w, next_free_vaddr = next_free_vaddr w, bs_vspace = bs_vspace w, device_virt = device_virt w, kst = ((), l)\<rparr>"

lemma with_log_call: "env_call (logged sel4_ok) i (with_log l w) = (0, with_log (l @ [(i, 0)]) w)"
  by (simp add: env_call_def logged_def sel4_ok_def with_log_def)

lemma with_log_map: "map_frame (logged sel4_ok) f v a r at cs (with_log l w) = Some (0, cs, with_log (l @ [(ARM_Page_Map f v a r at, 0)]) w)"
  by (simp add: map_frame_def map_frame_impl_def map_frame_loop.simps with_log_call seL4_FailedLookup_def)

lemma with_log_alloc: "env_alloc_4k w = Some (u, w') \<Longrightarrow> env_alloc_4k (with_log l w) = Some (u, with_log l w')"
  by (auto simp: env_alloc_4k_def with_log_def elim!: bind_SomeE)

lemma with_log_page:
  assumes "env_alloc_4k w = Some (u, w')" and "u \<noteq> 0" and "env_ut_cap w' u = Some cap"
    and "cspace_alloc_slot (env_call (logged sel4_ok)) cs (with_log l w') = Some (p, cs', with_log l w')" and "p \<noteq> 0"
  shows "\<exists>l'. alloc_frame_at (logged sel4_ok) ctx v (cs, with_log l w) = Some (p, cs', with_log l' w')"
proof -
  have "env_ut_cap (with_log l w') u = Some cap" using assms(3) by (simp add: env_ut_cap_def with_log_def)
  then show ?thesis using with_log_alloc [OF assms(1), of l] assms(2,4,5)
    by (simp add: alloc_frame_at_def make_page_at_def cspace_untyped_retype_def untyped_retype_at_def with_log_call with_log_map seL4_CapNull_def)
      blast
qed

lemma sos_example_pages:
  "\<exists>l'. alloc_frame_at (logged sel4_ok) ctx v (cs2_with 1 al, with_log l sos_example_env) = Some (1, cs2_with 3 al, with_log l' sos_example_env_1)"
  "\<exists>w'. alloc_frame_at (logged sel4_ok) ctx v (cs2_with 3 al, with_log l sos_example_env_1) = Some (2, cs2_with 7 al, w')"
proof -
  have 1: "env_alloc_4k sos_example_env = Some (0x8000000000, sos_example_env_1)"
    by (simp add: page_eval sos_example_env_def sos_example_env_1_def)
  then show "\<exists>l'. alloc_frame_at (logged sel4_ok) ctx v (cs2_with 1 al, with_log l sos_example_env) = Some (1, cs2_with 3 al, with_log l' sos_example_env_1)"
    by (rule with_log_page) (simp_all add: cs2_with_alloc page_eval sos_example_env_def sos_example_env_1_def)
  have "\<exists>w'. env_alloc_4k sos_example_env_1 = Some (0x8000000010, w') \<and> env_ut_cap w' 0x8000000010 = Some 10"
    by (simp add: page_eval sos_example_env_def sos_example_env_1_def)
  then obtain w' where "env_alloc_4k sos_example_env_1 = Some (0x8000000010, w')" "env_ut_cap w' 0x8000000010 = Some 10" by blast
  from with_log_page [OF this(1) _ this(2) cs2_with_alloc(2), of ctx v] show
    "\<exists>w'. alloc_frame_at (logged sel4_ok) ctx v (cs2_with 3 al, with_log l sos_example_env_1) = Some (2, cs2_with 7 al, w')" by auto
qed

lemma sos_example_run:
  "\<exists>ft cs' w'. ft_run (alloc_frame_at (logged sel4_ok) ctx) 0 [Alloc_Frame]
     (frame_table_0, (cs2_with 1 al, with_log [] sos_example_env), []) = Some (ft, (cs', w'), [1]) \<and> ft_used ft = 2"
proof -
  obtain l where 1: "alloc_frame_at (logged sel4_ok) ctx SOS_FRAME_TABLE (cs2_with 1 al, with_log [] sos_example_env) =
      Some (1, cs2_with 3 al, with_log l sos_example_env_1)" using sos_example_pages(1) by blast
  obtain w' where 2: "alloc_frame_at (logged sel4_ok) ctx (SOS_FRAME_DATA + 4096) (cs2_with 3 al, with_log l sos_example_env_1) =
      Some (2, cs2_with 7 al, w')" using sos_example_pages(2) by blast
  from 1 2 show ?thesis by (simp add: ft_eval)
qed

theorem sos_allocators_in_order_witness:
  "\<exists>ft cs' w' pg. ft_run (alloc_frame_at (logged sel4_ok) (frame_table_init 0x1000 3)) 0 [Alloc_Frame]
       (frame_table_0, (cs2_with 1 (bootstrap_alloc (logged sel4_ok) (Some (2, True))), with_log [] sos_example_env), []) = Some (ft, (cs', w'), [1]) \<and>
     frame_pages ft pg \<and> distinct (map (\<lambda>(v, p, u). u) pg) \<and> (\<forall>g \<in> set pg. page_made (frame_table_init 0x1000 3) 2 w' g)"
proof -
  obtain ft cs' w' where run: "ft_run (alloc_frame_at (logged sel4_ok) (frame_table_init 0x1000 3)) 0 [Alloc_Frame]
       (frame_table_0, (cs2_with 1 (bootstrap_alloc (logged sel4_ok) (Some (2, True))), with_log [] sos_example_env), []) = Some (ft, (cs', w'), [1])"
    and used: "ft_used ft = 2" using sos_example_run by blast
  have "ut_owns sos_example_env {} 8" using ut_owns_less [of sos_example_env "{}" 92 8] sos_example_owns by simp
  then have "ut_owns (with_log [] sos_example_env) {} (8 * length [Alloc_Frame])" by (simp add: ut_owns_def ut_rep_def with_log_def)
  from sos_allocators_in_order [OF run sos_example_cs this] used run show ?thesis by auto
qed

end
