(* ===== verification/Dma.thy ===== *)
theory Dma
  imports Sos_Env
begin

text \<open>
  The DMA memory of \<open>sos/src/dma.c\<close>: one large page, mapped once, from which aligned regions are cut off and never
  given back. The static structure \<open>dma\<close> is the record \<open>dma_t\<close>, passed explicitly.
\<close>

section \<open>Definitions\<close>

definition seL4_LargePageBits :: nat where "seL4_LargePageBits = 21"

definition DMA_ALIGN_BITS :: u64 where "DMA_ALIGN_BITS = 7"

definition DMA_ALIGN :: "u64 \<Rightarrow> u64 option" where
  "DMA_ALIGN a = ROUND_UP a DMA_ALIGN_BITS"

record dma_t =
  vstart :: u64
  pstart :: u64
  pnext :: u64
  pend :: u64
  dma_cap :: cptr
  dma_vspace :: cptr

record dma_addr_t =
  da_vaddr :: u64
  da_paddr :: u64

definition sos_dma_phys_to_virt :: "dma_t \<Rightarrow> u64 \<Rightarrow> u64" where
  "sos_dma_phys_to_virt d phys = vstart d + (phys - pstart d)"

definition sos_dma_virt_to_phys :: "dma_t \<Rightarrow> u64 \<Rightarrow> u64" where
  "sos_dma_virt_to_phys d vaddr = pstart d + (vaddr - vstart d)"

text \<open>\<open>dma_init\<close>; \<open>has_cspace\<close> tells whether the capability space it is given is there.\<close>

definition dma_init ::
    "'k sel4 \<Rightarrow> bool \<Rightarrow> cptr \<Rightarrow> cptr \<Rightarrow> u64 \<Rightarrow> u64 \<Rightarrow> dma_t \<Rightarrow> 'k env \<Rightarrow> (int \<times> dma_t \<times> 'k env) option" where
  "dma_init S has_cspace vspace ut ps vs d w =
     (if ut = seL4_CapNull \<or> vspace = seL4_CapNull \<or> \<not> has_cspace \<or> ps = 0 then Some (- 1, d, w)
      else do {
        let d = d\<lparr>pstart := ps, vstart := vs, pend := ps + BIT seL4_LargePageBits, pnext := ps, dma_vspace := vspace\<rparr>;
        let vaddr = sos_dma_phys_to_virt d (pstart d);
        (err, w) \<leftarrow> map_frame_null S ut (dma_vspace d) vaddr seL4_AllRights seL4_ARM_Default_VMAttributes w;
        Some (err, d, w)
      })"

definition sos_dma_cache_invalidate :: "'w kernel \<Rightarrow> dma_t \<Rightarrow> u64 \<Rightarrow> u64 \<Rightarrow> 'w \<Rightarrow> int \<times> 'w" where
  "sos_dma_cache_invalidate K d addr size_b w = K (ARM_PGD_Invalidate_Data (dma_vspace d) addr (addr + size_b)) w"

definition sos_dma_cache_clean :: "'w kernel \<Rightarrow> dma_t \<Rightarrow> u64 \<Rightarrow> u64 \<Rightarrow> 'w \<Rightarrow> int \<times> 'w" where
  "sos_dma_cache_clean K d addr size_b w = K (ARM_PGD_Clean_Data (dma_vspace d) addr (addr + size_b)) w"

definition sos_dma_cache_clean_invalidate :: "'w kernel \<Rightarrow> dma_t \<Rightarrow> u64 \<Rightarrow> u64 \<Rightarrow> 'w \<Rightarrow> int \<times> 'w" where
  "sos_dma_cache_clean_invalidate K d addr size_b w =
     K (ARM_PGD_CleanInvalidate_Data (dma_vspace d) addr (addr + size_b)) w"

text \<open>
  \<open>align\<close> is an \<open>int\<close>, which the arithmetic of \<open>ROUND_UP\<close> converts to 64 bits; \<open>size\<close> and the addresses are 64-bit words.
\<close>

definition sos_dma_malloc ::
    "'w kernel \<Rightarrow> u64 \<Rightarrow> int \<Rightarrow> dma_t \<Rightarrow> 'w \<Rightarrow> (dma_addr_t \<times> dma_t \<times> 'w) option" where
  "sos_dma_malloc K size_b align d w = do {
     p \<leftarrow> DMA_ALIGN (pnext d);
     p \<leftarrow> ROUND_UP p (of_int align);
     let d = d\<lparr>pnext := p\<rparr>;
     if pnext d + size_b \<ge> pend d then Some (\<lparr>da_vaddr = 0, da_paddr = 0\<rparr>, d, w)
     else do {
       let addr = \<lparr>da_vaddr = sos_dma_phys_to_virt d (pnext d), da_paddr = pnext d\<rparr>;
       let d = d\<lparr>pnext := pnext d + size_b\<rparr>;
       let (_, w) = sos_dma_cache_clean_invalidate K d (da_vaddr addr) size_b w;
       Some (addr, d, w)
     }
   }"

text \<open>A driver's requests one after another, with the regions that it was given as \<open>(address, size)\<close>.\<close>

fun dma_run ::
    "'w kernel \<Rightarrow> (u64 \<times> int) list \<Rightarrow> dma_t \<Rightarrow> 'w \<Rightarrow> ((dma_addr_t \<times> u64 \<times> int) list \<times> dma_t \<times> 'w) option" where
  "dma_run K [] d w = Some ([], d, w)"
| "dma_run K ((size_b, align) # reqs) d w = do {
     (addr, d, w) \<leftarrow> sos_dma_malloc K size_b align d w;
     (given, d, w) \<leftarrow> dma_run K reqs d w;
     Some (if da_paddr addr = 0 then given else (addr, size_b, align) # given, d, w)
   }"

section \<open>Rounding up\<close>

lemma ROUND_UP_unat:
  assumes "b \<noteq> 0" and "unat n + unat b \<le> 2 ^ 64"
  obtains m where "ROUND_UP n b = Some m" and "unat n \<le> unat m" and "unat m < unat n + unat b" and "unat b dvd unat m"
proof -
  let ?r = "unat n mod unat b"
  have b: "0 < unat b" using assms(1) by (simp add: unat_gt_0)
  then have r: "?r < unat b" by simp
  have r0: "n mod b = 0 \<longleftrightarrow> ?r = 0" by (simp add: unat_mod word_unat_eq_iff)
  show ?thesis
  proof (cases "?r = 0")
    case True
    then show ?thesis using b r0 assms(1) by (intro that [of n]) (auto simp: ROUND_UP_def)
  next
    case False
    have sub: "unat (b - n mod b) = unat b - ?r"
      using r by (subst unat_sub) (simp_all add: unat_mod word_le_nat_alt)
    have len: "unat n + (unat b - ?r) < 2 ^ 64"
      using assms(2) False r by linarith
    then have add: "unat (n + (b - n mod b)) = unat n + (unat b - ?r)"
      by (subst unat_add_lem [THEN iffD1]) (simp_all add: sub)
    have "unat n = unat b * (unat n div unat b) + ?r" by simp
    then have "unat n + (unat b - ?r) = unat b * (unat n div unat b) + unat b"
      using r by linarith
    then have "unat b dvd unat n + (unat b - ?r)" by (metis dvd_add_times_triv_left_iff dvd_refl mult.commute)
    then show ?thesis using False r0 assms(1) add r
      by (intro that [of "n + (b - n mod b)"]) (auto simp: ROUND_UP_def)
  qed
qed

lemma unat_of_int_u64: "0 \<le> a \<Longrightarrow> a < 2 ^ 64 \<Longrightarrow> unat (of_int a :: u64) = nat a"
  by (metis int_nat_eq nat_int nat_less_iff of_int_of_nat_eq of_nat_numeral of_nat_power unat_of_nat_u64)

text \<open>The two roundings of a request: past the padding, which is less than \<open>7 + align\<close> bytes, at a multiple of \<open>align\<close>.\<close>

lemma dma_round:
  assumes "0 < align" and "align < 2 ^ 31" and "unat n + 2 ^ 32 \<le> 2 ^ 63"
  obtains p q where "DMA_ALIGN n = Some p" and "ROUND_UP p (of_int align) = Some q"
    and "unat n \<le> unat q" and "unat q < unat n + 7 + nat align" and "nat align dvd unat q"
proof -
  have "unat n + unat DMA_ALIGN_BITS \<le> 2 ^ 64" using assms(3) by (simp add: DMA_ALIGN_BITS_def)
  then obtain p where p: "DMA_ALIGN n = Some p" "unat n \<le> unat p" "unat p < unat n + 7"
    using ROUND_UP_unat [of DMA_ALIGN_BITS n] by (auto simp: DMA_ALIGN_def DMA_ALIGN_BITS_def)
  have a: "unat (of_int align :: u64) = nat align" using assms by (simp add: unat_of_int_u64)
  moreover have "(of_int align :: u64) \<noteq> 0" using a assms(1) by auto
  moreover have "unat p + nat align \<le> 2 ^ 64" using p(3) assms(1,2,3) by simp
  ultimately obtain q where "ROUND_UP p (of_int align) = Some q" "unat p \<le> unat q" "unat q < unat p + nat align"
      "nat align dvd unat q"
    using ROUND_UP_unat [of "of_int align" p] by metis
  with p show ?thesis by (intro that [of p q]) auto
qed

section \<open>Requests\<close>

definition dma_request_ok :: "u64 \<times> int \<Rightarrow> bool" where
  "dma_request_ok = (\<lambda>(size_b, align). unat size_b < 2 ^ 63 \<and> 0 < align \<and> align < 2 ^ 31)"

text \<open>A request of an ordinary size either succeeds or finds too little memory; in both cases \<open>pnext\<close> only grows.\<close>

lemma dma_malloc_cases:
  assumes "dma_request_ok (size_b, align)" and "unat (pnext d) + 2 ^ 32 \<le> 2 ^ 63" and "0 < unat (pnext d)"
  obtains (fail) q where "sos_dma_malloc K size_b align d w = Some (\<lparr>da_vaddr = 0, da_paddr = 0\<rparr>, d\<lparr>pnext := q\<rparr>, w)"
      and "unat (pend d) \<le> unat q + unat size_b" and "unat (pnext d) \<le> unat q" and "unat q < unat (pnext d) + 7 + nat align"
    | (ok) p q w' where
      "sos_dma_malloc K size_b align d w = Some (\<lparr>da_vaddr = sos_dma_phys_to_virt d p, da_paddr = p\<rparr>, d\<lparr>pnext := q\<rparr>, w')"
      and "unat (pnext d) \<le> unat p" and "unat p < unat (pnext d) + 7 + nat align" and "nat align dvd unat p"
      and "unat q = unat p + unat size_b" and "unat q < unat (pend d)"
proof -
  have r: "0 < align" "align < 2 ^ 31" "unat size_b < 2 ^ 63" using assms(1) by (auto simp: dma_request_ok_def)
  from dma_round [OF r(1,2) assms(2)] obtain p p' where
    p': "DMA_ALIGN (pnext d) = Some p'" "ROUND_UP p' (of_int align) = Some p"
    and p: "unat (pnext d) \<le> unat p" "unat p < unat (pnext d) + 7 + nat align" "nat align dvd unat p" by metis
  have "unat p + unat size_b < 2 ^ 64" using p(2) assms(2) r by simp
  then have q: "unat (p + size_b) = unat p + unat size_b" by (subst unat_add_lem [THEN iffD1]) simp_all
  show ?thesis
  proof (cases "pend d \<le> p + size_b")
    case True
    then show ?thesis using p p' q
      by (intro fail [of p]) (simp_all add: sos_dma_malloc_def word_le_nat_alt)
  next
    case False
    then show ?thesis using p p' q
      by (intro ok [of p "p + size_b" "snd (K (ARM_PGD_CleanInvalidate_Data (dma_vspace d) (sos_dma_phys_to_virt d p)
                                (sos_dma_phys_to_virt d p + size_b)) w)"])
        (simp_all add: sos_dma_malloc_def sos_dma_cache_clean_invalidate_def sos_dma_phys_to_virt_def word_le_nat_alt
           split: prod.split)
  qed
qed

text \<open>A region of the page, between the addresses \<open>lo\<close> and \<open>hi\<close>.\<close>

definition dma_region_in :: "dma_t \<Rightarrow> nat \<Rightarrow> nat \<Rightarrow> dma_addr_t \<times> u64 \<times> int \<Rightarrow> bool" where
  "dma_region_in d lo hi = (\<lambda>(addr, size_b, align). lo \<le> unat (da_paddr addr) \<and>
     unat (da_paddr addr) + unat size_b < hi \<and> nat align dvd unat (da_paddr addr) \<and>
     sos_dma_virt_to_phys d (da_vaddr addr) = da_paddr addr)"

definition dma_before :: "dma_addr_t \<times> u64 \<times> int \<Rightarrow> dma_addr_t \<times> u64 \<times> int \<Rightarrow> bool" where
  "dma_before = (\<lambda>(a, s, _) (b, _, _). unat (da_paddr a) + unat s \<le> unat (da_paddr b))"

lemma dma_run_regions:
  assumes "\<forall>r \<in> set reqs. dma_request_ok r" and "0 < unat (pnext d)"
    and "unat (pnext d) \<le> B" and "unat (pend d) \<le> B" and "B + 2 ^ 32 * length reqs \<le> 2 ^ 63"
  shows "\<exists>given d' w'. dma_run K reqs d w = Some (given, d', w') \<and>
     (\<forall>r \<in> set given. dma_region_in d (unat (pnext d)) (unat (pend d)) r) \<and> sorted_wrt dma_before given"
  using assms
proof (induction reqs arbitrary: d w B)
  case Nil
  then show ?case by simp
next
  case (Cons r reqs)
  obtain s a where r: "r = (s, a)" by (cases r)
  have ok: "dma_request_ok (s, a)" and room: "unat (pnext d) + 2 ^ 32 \<le> 2 ^ 63" using Cons.prems r by auto
  from ok have a: "nat a < 2 ^ 31" by (auto simp: dma_request_ok_def)
  from ok room Cons.prems(2) show ?case
  proof (cases rule: dma_malloc_cases [of s a d K w])
    case (fail q)
    have "\<exists>given d' w'. dma_run K reqs (d\<lparr>pnext := q\<rparr>) w = Some (given, d', w') \<and>
       (\<forall>r \<in> set given. dma_region_in (d\<lparr>pnext := q\<rparr>) (unat q) (unat (pend d)) r) \<and> sorted_wrt dma_before given"
      using Cons.IH [of "d\<lparr>pnext := q\<rparr>" "B + 2 ^ 32" w] Cons.prems fail(3,4) a by simp
    then show ?thesis using fail(1,3)
      by (fastforce simp: r dma_region_in_def sos_dma_virt_to_phys_def)
  next
    case (ok p q w1)
    have "\<exists>given d' w'. dma_run K reqs (d\<lparr>pnext := q\<rparr>) w1 = Some (given, d', w') \<and>
       (\<forall>r \<in> set given. dma_region_in (d\<lparr>pnext := q\<rparr>) (unat q) (unat (pend d)) r) \<and> sorted_wrt dma_before given"
      using Cons.IH [of "d\<lparr>pnext := q\<rparr>" B w1] Cons.prems ok(2,5,6) by simp
    then obtain given d' w' where rest: "dma_run K reqs (d\<lparr>pnext := q\<rparr>) w1 = Some (given, d', w')"
      "\<forall>r \<in> set given. dma_region_in (d\<lparr>pnext := q\<rparr>) (unat q) (unat (pend d)) r" "sorted_wrt dma_before given" by blast
    have "p \<noteq> 0" using ok(2) Cons.prems(2) by auto
    then have run: "dma_run K (r # reqs) d w =
        Some ((\<lparr>da_vaddr = sos_dma_phys_to_virt d p, da_paddr = p\<rparr>, s, a) # given, d', w')"
      using ok(1) rest(1) by (simp add: r)
    show ?thesis unfolding run using rest(2,3) ok(2,4,5,6)
      by (fastforce simp: dma_region_in_def dma_before_def sos_dma_virt_to_phys_def sos_dma_phys_to_virt_def)
  qed
qed

section \<open>Properties\<close>

text \<open>
  C24. DMA regions never overlap. From a pool whose next address is not beyond its end, any sequence of requests with sizes below \<open>2 ^ 63\<close>
  and positive alignments returns, whether or not requests fail: every region given out lies inside the
  pool, starts at a multiple of the alignment that was asked for, has a virtual address that translates back to its physical address, and ends
  before the regions given out later begin. The last hypothesis keeps the pool away from the end of the 64-bit address range, by
  4 GiB for each request.
\<close>

theorem dma_regions_disjoint:
  assumes "\<forall>r \<in> set reqs. dma_request_ok r" and "0 < unat (pnext d)" and "unat (pnext d) \<le> unat (pend d)"
    and "unat (pend d) + 2 ^ 32 * length reqs \<le> 2 ^ 63"
  shows "\<exists>given d' w'. dma_run K reqs d w = Some (given, d', w') \<and>
     (\<forall>r \<in> set given. dma_region_in d (unat (pnext d)) (unat (pend d)) r) \<and> sorted_wrt dma_before given"
  using dma_run_regions [OF assms(1,2,3) order_refl assms(4)] .

definition dma_example :: dma_t where
  "dma_example = \<lparr>vstart = 0xB0000000, pstart = 0x10000000, pnext = 0x10000000, pend = 0x10200000, dma_cap = 0, dma_vspace = 3\<rparr>"

theorem dma_regions_disjoint_witness:
  "\<exists>given d' w'. dma_run (\<lambda>i w. (0, w)) [(0x1000, 64), (0x800000, 1), (16, 16)] dma_example () = Some (given, d', w') \<and>
     (\<forall>r \<in> set given. dma_region_in dma_example 0x10000000 0x10200000 r) \<and> sorted_wrt dma_before given"
  using dma_regions_disjoint [of "[(0x1000, 64), (0x800000, 1), (16, 16)]" dma_example "\<lambda>i w. (0, w)" "()"]
  by (simp add: dma_request_ok_def dma_example_def)

text \<open>
  A request that fits is granted: when the padding, of less than \<open>7 + align\<close> bytes, and the size leave the end of the pool
  beyond reach, \<open>sos_dma_malloc\<close> returns an address within the padding from \<open>pnext\<close> and moves \<open>pnext\<close> just past
  the region.
\<close>

lemma dma_malloc_grants:
  assumes "dma_request_ok (size_b, align)" and "unat (pnext d) + 2 ^ 32 \<le> 2 ^ 63" and "0 < unat (pnext d)"
    and "unat (pnext d) + 7 + nat align + unat size_b \<le> unat (pend d)"
  shows "\<exists>p w'. sos_dma_malloc K size_b align d w =
       Some (\<lparr>da_vaddr = sos_dma_phys_to_virt d p, da_paddr = p\<rparr>, d\<lparr>pnext := p + size_b\<rparr>, w') \<and>
     unat (pnext d) \<le> unat p \<and> unat p < unat (pnext d) + 7 + nat align \<and> nat align dvd unat p"
  using assms(1,2,3)
proof (cases rule: dma_malloc_cases [of size_b align d K w])
  case (fail q)
  then show ?thesis using assms(4) by linarith
next
  case (ok p q w')
  then have "unat p + unat size_b < 2 ^ 64" using unat_u64_less [of q] by simp
  then have "unat (p + size_b) = unat q" using ok(5) by (subst unat_add_lem [THEN iffD1]) simp_all
  then have "q = p + size_b" by (simp only: word_unat_eq_iff)
  with ok show ?thesis by auto
qed

text \<open>
  The test for the end of the pool wraps around: a request for \<open>- pnext\<close> bytes, which is nearly the whole address range, is granted at
  \<open>pnext\<close> (a multiple of 7, so that no padding is needed), and leaves \<open>pnext\<close> at address 0, outside the pool.
\<close>

lemma dma_malloc_wraps:
  assumes "pnext d mod 7 = 0" and "pnext d \<noteq> 0" and "pend d \<noteq> 0"
  shows "\<exists>w'. sos_dma_malloc K (- pnext d) 1 d w =
     Some (\<lparr>da_vaddr = sos_dma_phys_to_virt d (pnext d), da_paddr = pnext d\<rparr>, d\<lparr>pnext := 0\<rparr>, w')"
  using assms
  by (simp add: sos_dma_malloc_def DMA_ALIGN_def DMA_ALIGN_BITS_def ROUND_UP_def sos_dma_cache_clean_invalidate_def
      sos_dma_phys_to_virt_def split: prod.split)

end
