(* ===== verification/Errno.thy ===== *)
theory Errno
  imports Main
begin

text \<open>The error numbers of the C library (\<open>musllibc/arch/generic/bits/errno.h\<close>) that the modelled code returns.\<close>

definition ENOMEM :: int where "ENOMEM = 12"
definition EINVAL :: int where "EINVAL = 22"
definition EAGAIN :: int where "EAGAIN = 11"
definition EWOULDBLOCK :: int where "EWOULDBLOCK = EAGAIN"
definition ENOSYS :: int where "ENOSYS = 38"

lemmas errno_defs = ENOMEM_def EINVAL_def EAGAIN_def EWOULDBLOCK_def ENOSYS_def

end
