(* ===== verification/Irq.thy ===== *)
theory Irq
  imports Cspace_Slots Errno
begin

text \<open>
  The dispatch of interrupts, \<open>sos/src/irq.c\<close>: every registered interrupt has a bit of the badge that identifies it and an entry
  of \<open>irq_handlers\<close>; a notification is handled by calling the handlers of its bits in ascending order.

  The static structures \<open>irq_handlers\<close> and \<open>irq_dispatch\<close> are the record \<open>irq_state\<close>. The capability space that
  \<open>irq_dispatch.cspace\<close> points at is passed explicitly. A callback is a function pointer, a 64-bit word; what it
  does is the parameter \<open>call\<close>, which may change the whole state, the interrupt tables included.
\<close>

section \<open>Definitions\<close>

definition seL4_BadgeBits :: nat where "seL4_BadgeBits = 64"

record irq_handler_t =
  ih_irq :: u64
  ih_handler :: cptr
  ih_notification :: cptr
  ih_callback :: u64
  ih_data :: u64

record irq_state =
  irq_control :: cptr
  irq_notification :: cptr
  flag_bits :: u64
  ident_bits :: u64
  allocated_bits :: u64
  irq_handlers :: "irq_handler_t list"

type_synonym 'x irq_callback = "u64 \<Rightarrow> u64 \<Rightarrow> u64 \<Rightarrow> cptr \<Rightarrow> irq_state \<times> 'x \<Rightarrow> (int \<times> irq_state \<times> 'x) option"

definition sos_init_irq_dispatch :: "cptr \<Rightarrow> cptr \<Rightarrow> u64 \<Rightarrow> u64 \<Rightarrow> irq_state \<Rightarrow> irq_state option" where
  "sos_init_irq_dispatch control notif flags idents d = do {
     c_assert (flags AND idents = 0);
     Some (d\<lparr>irq_control := control, irq_notification := notif, flag_bits := flags, ident_bits := idents,
             allocated_bits := NOT idents\<rparr>)
   }"

definition alloc_irq_bit :: "irq_state \<Rightarrow> (nat \<times> irq_state) option" where
  "alloc_irq_bit d = do {
     b \<leftarrow> bf_first_free 1 [allocated_bits d];
     Some (b, d\<lparr>allocated_bits := allocated_bits d OR BIT b\<rparr>)
   }"

definition free_irq_bit :: "nat \<Rightarrow> irq_state \<Rightarrow> irq_state" where
  "free_irq_bit b d = d\<lparr>allocated_bits := allocated_bits d AND NOT (BIT b)\<rparr>"

text \<open>The end of the error paths that have two slots: both are freed, then the bit.\<close>

definition irq_undo ::
    "int \<Rightarrow> cptr \<Rightarrow> cptr \<Rightarrow> nat \<Rightarrow> irq_state \<Rightarrow> 'w cspace_t \<Rightarrow> 'w \<Rightarrow>
     (int \<times> cptr option \<times> irq_state \<times> 'w cspace_t \<times> 'w) option" where
  "irq_undo err handler_cptr notification_cptr b d cs w = do {
     cs \<leftarrow> cspace_free_slot cs handler_cptr;
     cs \<leftarrow> cspace_free_slot cs notification_cptr;
     Some (err, None, free_irq_bit b d, cs, w)
   }"

text \<open>The three kernel calls that connect an interrupt, with a bit and two slots at hand, and the new entry.\<close>

definition irq_connect ::
    "'w kernel \<Rightarrow> u64 \<Rightarrow> bool \<Rightarrow> u64 \<Rightarrow> u64 \<Rightarrow> bool \<Rightarrow> nat \<Rightarrow> cptr \<Rightarrow> cptr \<Rightarrow> irq_state \<Rightarrow> 'w cspace_t \<Rightarrow> 'w \<Rightarrow>
     (int \<times> cptr option \<times> irq_state \<times> 'w cspace_t \<times> 'w) option" where
  "irq_connect K irq edge_triggered callback data has_out b handler_cptr notification_cptr d cs w = do {
     let (err, w) = cspace_irq_control_get K cs handler_cptr (irq_control d) (sint (ucast irq :: u32)) (of_bool edge_triggered) w;
     if err \<noteq> 0 then irq_undo err handler_cptr notification_cptr b d cs w
     else do {
       let badge = flag_bits d OR BIT b;
       let (err, w) = cspace_mint K cs notification_cptr cs (irq_notification d) seL4_CanWrite badge w;
       if err \<noteq> 0 then do {
         let (_, w) = cspace_delete K cs handler_cptr w;
         irq_undo err handler_cptr notification_cptr b d cs w
       } else do {
         let (err, w) = K (IRQHandler_SetNotification handler_cptr notification_cptr) w;
         if err \<noteq> 0 then do {
           let (_, w) = cspace_delete K cs notification_cptr w;
           let (_, w) = cspace_delete K cs handler_cptr w;
           irq_undo err handler_cptr notification_cptr b d cs w
         } else do {
           hs \<leftarrow> arr_set (irq_handlers d) b
                  \<lparr>ih_irq = irq, ih_handler = handler_cptr, ih_notification = notification_cptr, ih_callback = callback,
                   ih_data = data\<rparr>;
           Some (0, if has_out then Some handler_cptr else None, d\<lparr>irq_handlers := hs\<rparr>, cs, w)
         }
       }
     }
   }"

text \<open>
  \<open>has_out\<close> tells whether \<open>irq_handler\<close> is not \<open>NULL\<close>; what is stored there is the second component of the result. The
  code tests \<open>handler_cptr\<close> again after allocating the second slot.
\<close>

definition sos_register_irq_handler ::
    "'w kernel \<Rightarrow> u64 \<Rightarrow> bool \<Rightarrow> u64 \<Rightarrow> u64 \<Rightarrow> bool \<Rightarrow> irq_state \<Rightarrow> 'w cspace_t \<Rightarrow> 'w \<Rightarrow>
     (int \<times> cptr option \<times> irq_state \<times> 'w cspace_t \<times> 'w) option" where
  "sos_register_irq_handler K irq edge_triggered callback data has_out d cs w = do {
     (ident_bit, d) \<leftarrow> alloc_irq_bit d;
     if ident_bit \<ge> seL4_BadgeBits then Some (ENOMEM, None, d, cs, w)
     else do {
       (handler_cptr, cs, w) \<leftarrow> cspace_alloc_slot K cs w;
       if handler_cptr = 0 then Some (ENOMEM, None, free_irq_bit ident_bit d, cs, w)
       else do {
         (notification_cptr, cs, w) \<leftarrow> cspace_alloc_slot K cs w;
         if handler_cptr = 0 then do {
           cs \<leftarrow> cspace_free_slot cs handler_cptr;
           Some (ENOMEM, None, free_irq_bit ident_bit d, cs, w)
         } else irq_connect K irq edge_triggered callback data has_out ident_bit handler_cptr notification_cptr d cs w
       }
     }
   }"

definition dispatch_irq :: "'x irq_callback \<Rightarrow> irq_handler_t \<Rightarrow> irq_state \<times> 'x \<Rightarrow> (int \<times> irq_state \<times> 'x) option" where
  "dispatch_irq call h s = call (ih_callback h) (ih_data h) (ih_irq h) (ih_handler h) s"

lemma CTZL_bit: "CTZL v = Some n \<Longrightarrow> n < 64 \<and> bit v n"
  by (simp add: CTZL_Some)

lemma clear_bit_less:
  assumes "bit (v :: u64) n"
  shows "card {m. bit (v AND (b AND NOT (BIT n))) m} < card {m. bit v m}"
proof (rule psubset_card_mono)
  show "finite {m. bit v m}" by (rule finite_subset [of _ "{..<64}"]) (auto dest: bit_imp_le_length)
  have "n < 64" using bit_imp_le_length [OF assms] by simp
  with assms show "{m. bit (v AND (b AND NOT (BIT n))) m} \<subset> {m. bit v m}" by (auto simp: bit_simps)
qed

text \<open>The loop of \<open>sos_handle_irq_notification\<close>.\<close>

function handle_irq_bits ::
    "'x irq_callback \<Rightarrow> u64 \<Rightarrow> u64 \<Rightarrow> irq_state \<times> 'x \<Rightarrow> (int \<times> u64 \<times> irq_state \<times> 'x) option" where
  "handle_irq_bits call unchecked_bits badge s =
     (if unchecked_bits = 0 then Some (0, badge, s)
      else (case CTZL unchecked_bits of
          None \<Rightarrow> None
        | Some b \<Rightarrow> do {
            h \<leftarrow> arr_get (irq_handlers (fst s)) b;
            (err, s) \<leftarrow> dispatch_irq call h s;
            if err \<noteq> 0 then Some (err, badge, s)
            else handle_irq_bits call (unchecked_bits AND (badge AND NOT (BIT b))) (badge AND NOT (BIT b)) s
          }))"
  by pat_completeness auto
termination
  by (relation "measure (\<lambda>(call, unchecked, badge, s). card {m. bit unchecked m})")
    (auto intro: clear_bit_less dest: CTZL_bit)

definition sos_handle_irq_notification ::
    "'x irq_callback \<Rightarrow> u64 \<Rightarrow> irq_state \<times> 'x \<Rightarrow> (int \<times> u64 \<times> irq_state \<times> 'x) option" where
  "sos_handle_irq_notification call badge s =
     handle_irq_bits call (badge AND allocated_bits (fst s) AND ident_bits (fst s)) badge s"

declare handle_irq_bits.simps [simp del]

section \<open>Bits of the badge\<close>

text \<open>
  The tables of \<open>irq_dispatch\<close> are well formed, and the abstract content: a finite map from bits to handlers.
\<close>

definition irq_inv :: "irq_state \<Rightarrow> bool" where
  "irq_inv d \<longleftrightarrow> length (irq_handlers d) = 64 \<and> flag_bits d AND ident_bits d = 0 \<and>
     (\<forall>b < 64. \<not> bit (ident_bits d) b \<longrightarrow> bit (allocated_bits d) b)"

definition irq_view :: "irq_state \<Rightarrow> nat \<Rightarrow> irq_handler_t option" where
  "irq_view d b = (if bit (allocated_bits d) b \<and> bit (ident_bits d) b then Some (irq_handlers d ! b) else None)"

lemma bf_bit_one_word: "bf_bit [v] n \<longleftrightarrow> n < 64 \<and> bit v n"
  by (auto simp: bf_bit_def)

lemma alloc_irq_bit_SomeD:
  assumes "alloc_irq_bit d = Some (b, d')"
  shows "b < 64" and "\<not> bit (allocated_bits d) b" and "d' = d\<lparr>allocated_bits := allocated_bits d OR BIT b\<rparr>"
proof -
  from assms have f: "bf_first_free 1 [allocated_bits d] = Some b"
    and "d' = d\<lparr>allocated_bits := allocated_bits d OR BIT b\<rparr>"
    by (auto simp: alloc_irq_bit_def elim!: bind_SomeE)
  then show "d' = d\<lparr>allocated_bits := allocated_bits d OR BIT b\<rparr>" by simp
  from bf_first_free_SomeD(1,2) [OF f] show "b < 64" "\<not> bit (allocated_bits d) b"
    by (auto simp: bf_bit_one_word)
qed

lemma set_clear_bit: "b < 64 \<Longrightarrow> \<not> bit v b \<Longrightarrow> (v OR BIT b) AND NOT (BIT b) = (v :: u64)"
  by (rule bit_eqI) (auto simp: bit_simps)

lemma free_alloc_irq_bit: "alloc_irq_bit d = Some (b, d') \<Longrightarrow> free_irq_bit b d' = d"
  using alloc_irq_bit_SomeD [of d b d'] by (simp add: free_irq_bit_def set_clear_bit)

section \<open>Registering a handler\<close>

text \<open>Both slots go undone to the capability space.\<close>

lemma irq_undo_ok:
  assumes cs: "two.client_ok cs (held @ [h] @ (if n = 0 then [] else [n]))" and h: "h \<noteq> 0"
  shows "\<exists>cs'. irq_undo err h n b d cs w = Some (err, None, free_irq_bit b d, cs', w) \<and> two.client_ok cs' held \<and>
           taken cs' = taken cs - ({h, n} - {seL4_CapNull})"
proof -
  let ?ns = "if n = 0 then [] else [n]"
  have dist: "distinct (held @ [h] @ ?ns)" using cs by (simp add: two.client_ok_def)
  then have "remove1 h (held @ [h] @ ?ns) = held @ ?ns" by (auto simp: remove1_append)
  with two.client_ok_free [OF cs, of h] obtain cs1 where
    c1: "cspace_free_slot cs h = Some cs1" "two.client_ok cs1 (held @ ?ns)" "taken cs1 = taken cs - {h}" by auto
  show ?thesis
  proof (cases "n = 0")
    case True
    with c1 h show ?thesis by (auto simp: irq_undo_def cspace_free_slot_def seL4_CapNull_def)
  next
    case False
    moreover from False dist have "remove1 n (held @ [n]) = held" by (simp add: remove1_append)
    ultimately show ?thesis using two.client_ok_free [OF c1(2), of n] c1(1,3) h by (auto simp: irq_undo_def seL4_CapNull_def)
  qed
qed

text \<open>The kernel may refuse any of the three calls; only when all succeed is the entry written.\<close>

lemma irq_connect_ok:
  assumes cs: "two.client_ok cs (held @ [h] @ (if n = 0 then [] else [n]))" and h: "h \<noteq> 0"
    and b: "b < length (irq_handlers d)"
  shows "\<exists>err cs' w'. err \<noteq> 0 \<and> two.client_ok cs' held \<and> taken cs' = taken cs - ({h, n} - {seL4_CapNull}) \<and>
           irq_connect K irq edge cb data op b h n d cs w = Some (err, None, free_irq_bit b d, cs', w') \<or>
         irq_connect K irq edge cb data op b h n d cs w =
           Some (0, if op then Some h else None, d\<lparr>irq_handlers := (irq_handlers d)[b := \<lparr>ih_irq = irq, ih_handler = h,
             ih_notification = n, ih_callback = cb, ih_data = data\<rparr>]\<rparr>, cs, w')"
proof -
  obtain e1 w1 where k1: "cspace_irq_control_get K cs h (irq_control d) (sint (ucast irq :: u32)) (of_bool edge) w = (e1, w1)"
    by fastforce
  obtain e2 w2 where k2: "cspace_mint K cs n cs (irq_notification d) seL4_CanWrite (flag_bits d OR BIT b) w1 = (e2, w2)"
    by fastforce
  obtain e3 w3 where k3: "K (IRQHandler_SetNotification h n) w2 = (e3, w3)" by fastforce
  note undo = irq_undo_ok [OF cs h]
  consider "e1 \<noteq> 0" | "e1 = 0" "e2 \<noteq> 0" | "e1 = 0" "e2 = 0" "e3 \<noteq> 0" | "e1 = 0" "e2 = 0" "e3 = 0" by blast
  then show ?thesis
  proof cases
    case 1
    then show ?thesis using undo [of e1 b d w1] by (auto simp: irq_connect_def k1)
  next
    case 2
    then show ?thesis using undo [of e2 b d "snd (cspace_delete K cs h w2)"]
      by (auto simp: irq_connect_def k1 k2 split: prod.split)
  next
    case 3
    then show ?thesis using undo [of e3 b d "snd (cspace_delete K cs h (snd (cspace_delete K cs n w3)))"]
      by (auto simp: irq_connect_def k1 k2 k3 split: prod.split)
  next
    case 4
    then show ?thesis using b by (auto simp: irq_connect_def k1 k2 k3)
  qed
qed

text \<open>
  C33. Registering an interrupt handler. Whatever the kernel answers: on success the handler is entered under an identifier bit
  that no handler had, all other handlers stay, and the handler has the slots that the two allocations gave, of which the caller gets the
  first; on failure the table of handlers is as before, and every slot that the two allocations gave is free again, while all others are
  as the allocations left them. In both cases the tables stay well formed. A second allocation that fails goes unnoticed: \<open>n\<close> is then 0.
\<close>

theorem irq_register_ok:
  assumes "irq_inv d" and "two.client_ok cs held"
    and "sos_register_irq_handler K irq edge cb data op d cs w = Some (err, out, d', cs', w')"
  shows "irq_inv d' \<and> (\<exists>h cs1 w1. cspace_alloc_slot K cs w = Some (h, cs1, w1) \<and>
    (if h = seL4_CapNull then err \<noteq> 0 \<and> d' = d \<and> out = None \<and> cs' = cs1 \<and> two.client_ok cs' held
     else \<exists>n cs2 w2. cspace_alloc_slot K cs1 w1 = Some (n, cs2, w2) \<and>
       (if err = 0 then cs' = cs2 \<and> out = (if op then Some h else None) \<and> two.client_ok cs' (held @ [h] @ (if n = 0 then [] else [n])) \<and>
          (\<exists>b. bit (ident_bits d) b \<and> irq_view d b = None \<and>
             irq_view d' = (irq_view d)(b \<mapsto> \<lparr>ih_irq = irq, ih_handler = h, ih_notification = n, ih_callback = cb, ih_data = data\<rparr>))
        else d' = d \<and> out = None \<and> two.client_ok cs' held \<and> taken cs' = taken cs2 - ({h, n} - {seL4_CapNull}))))"
proof -
  from assms(3) obtain b d1 where a: "alloc_irq_bit d = Some (b, d1)"
    by (auto simp: sos_register_irq_handler_def elim!: bind_SomeE)
  note bit = alloc_irq_bit_SomeD [OF a] and undone = free_alloc_irq_bit [OF a]
  from assms(3) a bit(1) obtain h cs1 w1 where h: "cspace_alloc_slot K cs w = Some (h, cs1, w1)"
    by (auto simp: sos_register_irq_handler_def seL4_BadgeBits_def elim!: bind_SomeE)
  have c1: "two.client_ok cs1 (if h = 0 then held else held @ [h])" by (rule two.client_ok_alloc [OF assms(2) h])
  show ?thesis
  proof (cases "h = 0")
    case True
    with assms a bit(1) h c1 undone show ?thesis
      by (auto simp: sos_register_irq_handler_def seL4_BadgeBits_def ENOMEM_def seL4_CapNull_def)
  next
    case False
    with assms(3) a bit(1) h obtain n cs2 w2 where n: "cspace_alloc_slot K cs1 w1 = Some (n, cs2, w2)"
      and run: "irq_connect K irq edge cb data op b h n d1 cs2 w2 = Some (err, out, d', cs', w')"
      by (auto simp: sos_register_irq_handler_def seL4_BadgeBits_def elim!: bind_SomeE)
    have c2: "two.client_ok cs2 (held @ [h] @ (if n = 0 then [] else [n]))"
      using two.client_ok_alloc [OF c1 n] False by (auto split: if_splits)
    have b: "b < length (irq_handlers d1)" using assms(1) bit by (simp add: irq_inv_def)
    have id: "bit (ident_bits d) b" using assms(1) bit(1,2) by (auto simp: irq_inv_def)
    from irq_connect_ok [OF c2 False b, of K irq edge cb data op w2] run undone
    consider "err \<noteq> 0" "d' = d" "out = None" "two.client_ok cs' held" "taken cs' = taken cs2 - ({h, n} - {seL4_CapNull})"
      | "err = 0" "out = (if op then Some h else None)" "cs' = cs2"
        "d' = d1\<lparr>irq_handlers := (irq_handlers d1)[b := \<lparr>ih_irq = irq, ih_handler = h,
             ih_notification = n, ih_callback = cb, ih_data = data\<rparr>]\<rparr>" by auto
    then show ?thesis
    proof cases
      case 1
      with assms(1) h n False show ?thesis by (simp add: seL4_CapNull_def)
    next
      case 2
      then have "irq_inv d'" using assms(1) bit(3) by (auto simp: irq_inv_def bit_simps)
      moreover have "irq_view d' = (irq_view d)(b \<mapsto> \<lparr>ih_irq = irq, ih_handler = h, ih_notification = n,
           ih_callback = cb, ih_data = data\<rparr>)"
        using 2(4) bit b id by (auto simp: irq_view_def fun_eq_iff bit_simps)
      moreover have "irq_view d b = None" using bit(2) by (simp add: irq_view_def)
      ultimately show ?thesis using 2(1-3) h n c2 id False by (auto simp: seL4_CapNull_def)
    qed
  qed
qed

definition irq_example :: irq_state where
  "irq_example = \<lparr>irq_control = 4, irq_notification = 9, flag_bits = 4, ident_bits = 3, allocated_bits = NOT 3,
     irq_handlers = replicate 64 \<lparr>ih_irq = 0, ih_handler = 0, ih_notification = 0, ih_callback = 0, ih_data = 0\<rparr>\<rparr>"

lemma irq_example_inv: "irq_inv irq_example"
proof -
  have "bit (NOT (3 :: u64)) b" if "b < 64" "\<not> bit (3 :: u64) b" for b
    using that by (simp only: bit_not_iff) simp
  then show ?thesis by (simp add: irq_inv_def irq_example_def)
qed

lemma cs2_start_client: "two.client_ok (cs2_with 1 al) []"
  using cs2_start_ok [of al]
  by (simp add: two.client_ok_def cs2_inv_def cs2_with_def cs2_start_def)

lemma irq_example_bit: "alloc_irq_bit irq_example = Some (0, irq_example\<lparr>allocated_bits := NOT 2\<rparr>)"
proof -
  have "(NOT 3 :: u64) OR BIT 0 = NOT 2" by (simp add: BIT_def)
  moreover have "bf_first_free 1 [NOT 3] = Some 0"
    by (simp add: bf_first_free_def bf_skip_full.simps CTZL_eval WORD_BITS_def)
  ultimately show ?thesis by (simp add: alloc_irq_bit_def irq_example_def)
qed

theorem irq_register_ok_witness:
  "\<forall>al. \<exists>d' cs' b n. sos_register_irq_handler K_succeeds 43 True 0x1000 0 True irq_example (cs2_with 1 al) () =
       Some (0, Some 1, d', cs', ()) \<and>
     irq_view d' = (irq_view irq_example)(b \<mapsto> \<lparr>ih_irq = 43, ih_handler = 1, ih_notification = n, ih_callback = 0x1000, ih_data = 0\<rparr>)"
proof
  fix al :: "unit cspace_alloc_t"
  obtain d' cs' where run: "sos_register_irq_handler K_succeeds 43 True 0x1000 0 True irq_example (cs2_with 1 al) () =
       Some (0, Some 1, d', cs', ())"
    by (simp add: sos_register_irq_handler_def irq_example_bit seL4_BadgeBits_def cs2_with_alloc irq_connect_def
        cspace_irq_control_get_def cspace_mint_def K_succeeds_def) (simp add: irq_example_def)
  from irq_register_ok [OF irq_example_inv cs2_start_client run] run show "\<exists>d' cs' b n.
     sos_register_irq_handler K_succeeds 43 True 0x1000 0 True irq_example (cs2_with 1 al) () = Some (0, Some 1, d', cs', ()) \<and>
     irq_view d' = (irq_view irq_example)(b \<mapsto> \<lparr>ih_irq = 43, ih_handler = 1, ih_notification = n, ih_callback = 0x1000, ih_data = 0\<rparr>)"
    by (auto split: if_splits)
qed

text \<open>
  When every identifier bit is in use, registering another handler does not return \<open>ENOMEM\<close> but leaves the defined behaviour of C:
  \<open>bf_first_free\<close> reads past its one word, before the test for an exhausted badge is reached.
\<close>

lemma irq_bits_exhausted:
  assumes "irq_inv d" and "\<forall>b < 64. bit (ident_bits d) b \<longrightarrow> irq_view d b \<noteq> None"
  shows "sos_register_irq_handler K irq edge cb data op d cs w = None"
proof -
  have "bit (allocated_bits d) b" if "b < 64" for b
    using assms that by (auto simp: irq_inv_def irq_view_def split: if_splits)
  then have "bf_first_free 1 [allocated_bits d] = None"
    by (intro bf_first_free_full) (auto simp: bf_bit_one_word)
  then show ?thesis by (simp add: sos_register_irq_handler_def alloc_irq_bit_def)
qed

section \<open>Handling a notification\<close>

text \<open>The reference: the handlers of a list of bits are called in order, and a bit is cleared when its handler succeeds.\<close>

fun irq_each :: "'x irq_callback \<Rightarrow> nat list \<Rightarrow> u64 \<Rightarrow> irq_state \<times> 'x \<Rightarrow> (int \<times> u64 \<times> irq_state \<times> 'x) option" where
  "irq_each call [] badge s = Some (0, badge, s)"
| "irq_each call (b # bs) badge s = do {
     h \<leftarrow> arr_get (irq_handlers (fst s)) b;
     (err, s) \<leftarrow> dispatch_irq call h s;
     if err \<noteq> 0 then Some (err, badge, s) else irq_each call bs (badge AND NOT (BIT b)) s
   }"

lemma lowest_bit_first:
  assumes "CTZL u = Some b"
  shows "filter (bit u) [0..<64] = b # filter (bit (u AND NOT (BIT b))) [0..<64]"
proof -
  from assms have b: "b < 64" "bit u b" "\<forall>m < b. \<not> bit u m" by (auto simp: CTZL_Some)
  then have split: "[0..<64] = [0..<b] @ b # [Suc b..<64]"
    by (metis less_imp_le_nat upt_add_eq_append upt_conv_Cons le0 ordered_cancel_comm_monoid_diff_class.add_diff_inverse)
  have none: "filter P [0..<b] = []" if "\<And>m. P m \<Longrightarrow> bit u m" for P
    using b(3) that by (auto simp: filter_empty_conv)
  have rest: "filter (bit (u AND NOT (BIT b))) [Suc b..<64] = filter (bit u) [Suc b..<64]"
    by (rule filter_cong) (auto simp: bit_simps)
  show ?thesis unfolding split using b none [of "bit u"] none [of "bit (u AND NOT (BIT b))"]
    by (simp add: rest bit_simps)
qed

lemma handle_irq_bits_each:
  "u AND badge = u \<Longrightarrow> handle_irq_bits call u badge s = irq_each call (filter (bit u) [0..<64]) badge s"
proof (induction call u badge s rule: handle_irq_bits.induct)
  case (1 call u badge s)
  show ?case
  proof (cases "u = 0")
    case True
    then show ?thesis by (simp add: handle_irq_bits.simps [of call 0])
  next
    case False
    then obtain b where b: "CTZL u = Some b" using CTZL_neq_0 by blast
    have next_u: "u AND (badge AND NOT (BIT b)) = u AND NOT (BIT b)"
      using "1.prems" by (metis and.assoc)
    have sub: "(u AND NOT (BIT b)) AND (badge AND NOT (BIT b)) = u AND NOT (BIT b)"
      using next_u by (metis and.assoc and.commute and.left_idem)
    show ?thesis
    proof (cases "arr_get (irq_handlers (fst s)) b \<bind> (\<lambda>h. dispatch_irq call h s)")
      case None
      then show ?thesis using False b
        by (cases "arr_get (irq_handlers (fst s)) b") (auto simp: handle_irq_bits.simps [of call u] lowest_bit_first)
    next
      case (Some r)
      then obtain h err s' where h: "arr_get (irq_handlers (fst s)) b = Some h" "dispatch_irq call h s = Some (err, s')"
        by (cases r) (auto elim!: bind_SomeE)
      have "err = 0 \<Longrightarrow> handle_irq_bits call (u AND NOT (BIT b)) (badge AND NOT (BIT b)) s' =
          irq_each call (filter (bit (u AND NOT (BIT b))) [0..<64]) (badge AND NOT (BIT b)) s'"
        using "1.IH" [OF False b h(1,2) refl] sub by (simp only: next_u)
      then show ?thesis using False b h
        by (simp add: handle_irq_bits.simps [of call u] lowest_bit_first next_u del: arr_get_Some)
    qed
  qed
qed

lemma irq_bits_ascending:
  "sos_handle_irq_notification call badge s =
     irq_each call (filter (\<lambda>b. bit badge b \<and> irq_view (fst s) b \<noteq> None) [0..<64]) badge s"
proof -
  let ?u = "badge AND allocated_bits (fst s) AND ident_bits (fst s)"
  have "?u AND badge = ?u" by (metis and.assoc and.commute and.left_idem)
  moreover have "filter (bit ?u) [0..<64] = filter (\<lambda>b. bit badge b \<and> irq_view (fst s) b \<noteq> None) [0..<64]"
    by (rule filter_cong) (auto simp: irq_view_def bit_simps)
  ultimately show ?thesis by (simp add: sos_handle_irq_notification_def handle_irq_bits_each)
qed

text \<open>
  C34. \<open>sos_handle_irq_notification\<close> is the loop over the bits of the badge that have a handler, in ascending order,
  which looks up each handler when its turn comes, stops at the first error and clears the bits of the handlers that succeeded.
\<close>

theorem irq_notification_in_order:
  "sos_handle_irq_notification call badge s =
     irq_each call (filter (\<lambda>b. bit badge b \<and> irq_view (fst s) b \<noteq> None) [0..<64]) badge s"
  by (rule irq_bits_ascending)

lemma irq_each_badge:
  assumes "irq_each call bs badge s = Some (err, badge', s')" and "distinct bs" and "set bs \<subseteq> {..<64}"
  shows "if err = 0 then \<forall>n. bit badge' n \<longleftrightarrow> bit badge n \<and> n \<notin> set bs
         else \<exists>dn b rest. bs = dn @ b # rest \<and> (\<forall>n. bit badge' n \<longleftrightarrow> bit badge n \<and> n \<notin> set dn)"
  using assms
proof (induction bs arbitrary: badge s)
  case (Cons b bs)
  from Cons.prems(1) obtain h e s1 where d: "dispatch_irq call h s = Some (e, s1)"
    "(if e \<noteq> 0 then Some (e, badge, s1) else irq_each call bs (badge AND NOT (BIT b)) s1) = Some (err, badge', s')"
    by (auto elim!: bind_SomeE)
  have clr: "bit (badge AND NOT (BIT b)) n \<longleftrightarrow> bit badge n \<and> n \<noteq> b" for n
    using Cons.prems(3) bit_imp_le_length [of badge n] by (auto simp: bit_simps)
  show ?case
  proof (cases "e = 0")
    case False
    with d have "err \<noteq> 0" "badge' = badge" by auto
    then show ?thesis by (auto intro!: exI [of _ "[]"])
  next
    case True
    with d(2) have "irq_each call bs (badge AND NOT (BIT b)) s1 = Some (err, badge', s')" by simp
    from Cons.IH [OF this, unfolded clr] Cons.prems(2,3) have
      IH: "if err = 0 then \<forall>n. bit badge' n \<longleftrightarrow> (bit badge n \<and> n \<noteq> b) \<and> n \<notin> set bs
           else \<exists>dn b' rest. bs = dn @ b' # rest \<and> (\<forall>n. bit badge' n \<longleftrightarrow> (bit badge n \<and> n \<noteq> b) \<and> n \<notin> set dn)"
      by simp
    show ?thesis
    proof (cases "err = 0")
      case True
      with IH show ?thesis by auto
    next
      case False
      with IH obtain dn b' rest where "bs = dn @ b' # rest"
        "\<forall>n. bit badge' n \<longleftrightarrow> (bit badge n \<and> n \<noteq> b) \<and> n \<notin> set dn" by auto
      then have "b # bs = (b # dn) @ b' # rest \<and> (\<forall>n. bit badge' n \<longleftrightarrow> bit badge n \<and> n \<notin> set (b # dn))" by auto
      then have "\<exists>dn b' rest. b # bs = dn @ b' # rest \<and> (\<forall>n. bit badge' n \<longleftrightarrow> bit badge n \<and> n \<notin> set dn)" by blast
      then show ?thesis unfolding if_not_P [OF False] .
    qed
  qed
qed simp

text \<open>
  What is left of the badge: after success, exactly the bits that have no handler; after an error, there is a bit \<open>b\<close> with a handler whose
  call failed, and the badge has lost exactly the bits with a handler below \<open>b\<close>.
\<close>

lemma irq_badge_left:
  assumes "sos_handle_irq_notification call badge s = Some (err, badge', s')"
  shows "if err = 0 then badge' = badge AND NOT (allocated_bits (fst s) AND ident_bits (fst s))
         else \<exists>b. bit badge b \<and> irq_view (fst s) b \<noteq> None \<and>
                (\<forall>n. bit badge' n \<longleftrightarrow> bit badge n \<and> (irq_view (fst s) n = None \<or> b \<le> n))"
proof -
  let ?P = "\<lambda>b. bit badge b \<and> irq_view (fst s) b \<noteq> None"
  let ?bs = "filter ?P [0..<64]"
  have run: "irq_each call ?bs badge s = Some (err, badge', s')" using assms irq_bits_ascending by metis
  have lim: "bit badge n \<Longrightarrow> n < 64" for n using bit_imp_le_length [of badge n] by simp
  note badge = irq_each_badge [OF run]
  show ?thesis
  proof (cases "err = 0")
    case True
    with badge have left: "bit badge' n \<longleftrightarrow> bit badge n \<and> irq_view (fst s) n = None" for n
      using lim by auto
    have "badge' = badge AND NOT (allocated_bits (fst s) AND ident_bits (fst s))"
    proof (rule bit_eqI)
      fix n
      assume "possible_bit TYPE(64 word) n"
      then have "n < 64" by simp
      then show "bit badge' n = bit (badge AND NOT (allocated_bits (fst s) AND ident_bits (fst s))) n"
        unfolding left bit_and_iff bit_not_iff by (simp add: irq_view_def)
    qed
    with True show ?thesis by simp
  next
    case False
    with badge obtain dn b rest where bs: "?bs = dn @ b # rest" "\<forall>n. bit badge' n \<longleftrightarrow> bit badge n \<and> n \<notin> set dn"
      by auto
    have sorted: "sorted_wrt (<) (dn @ b # rest)"
      unfolding bs(1) [symmetric] by (rule sorted_wrt_filter) (simp add: sorted_wrt_upt)
    have all: "set (dn @ b # rest) = {n. ?P n}" unfolding bs(1) [symmetric] using lim by auto
    then have "?P b" by auto
    moreover have dn: "n \<in> set dn \<longleftrightarrow> ?P n \<and> n < b" for n
    proof -
      have "?P n \<longleftrightarrow> n \<in> set dn \<or> n = b \<or> n \<in> set rest" using all by (auto simp: set_eq_iff)
      then show ?thesis using sorted by (auto simp: sorted_wrt_append)
    qed
    ultimately have "?P b \<and> (\<forall>n. bit badge' n \<longleftrightarrow> bit badge n \<and> (irq_view (fst s) n = None \<or> b \<le> n))"
      using bs(2) by (simp add: not_less, blast)
    then show ?thesis using False by auto
  qed
qed

end
