(* ===== verification/Morecore.thy ===== *)
theory Morecore
  imports SOS_Prelude Errno
begin

text \<open>
  The memory behind \<open>malloc\<close>: \<open>sos/src/sys/morecore.c\<close> and its copy for applications, \<open>libsosapi/src/sys_morecore.c\<close>. One static array is
  shared by a heap that \<open>brk\<close> grows from the bottom and by mappings that \<open>mmap\<close> takes from the top.

  The array's address, \<open>&morecore_area[0]\<close>, is the field \<open>morecore_area\<close>; the linker chooses it. A \<open>long\<close> result is the 64-bit
  word that the caller gets.
\<close>

section \<open>Definitions\<close>

definition MORECORE_AREA_BYTE_SIZE :: u64 where "MORECORE_AREA_BYTE_SIZE = 0x100000"

record morecore =
  morecore_area :: u64
  morecore_base :: u64
  morecore_top :: u64

definition morecore_0 :: "u64 \<Rightarrow> morecore" where
  "morecore_0 area = \<lparr>morecore_area = area, morecore_base = area, morecore_top = area + MORECORE_AREA_BYTE_SIZE\<rparr>"

definition sys_brk :: "u64 \<Rightarrow> morecore \<Rightarrow> u64 \<times> morecore" where
  "sys_brk newbrk m =
     (if newbrk = 0 then (morecore_base m, m)
      else if newbrk < morecore_top m \<and> newbrk > morecore_area m then (newbrk, m\<lparr>morecore_base := newbrk\<rparr>)
      else (0, m))"

definition MAP_ANONYMOUS :: u32 where "MAP_ANONYMOUS = 0x20"

text \<open>Only the arguments \<open>length\<close> and \<open>flags\<close> are read. \<open>ZF_LOGF\<close> does not return.\<close>

definition sys_mmap :: "u64 \<Rightarrow> u32 \<Rightarrow> morecore \<Rightarrow> (u64 \<times> morecore) option" where
  "sys_mmap len flags m =
     (if flags AND MAP_ANONYMOUS \<noteq> 0 then
        (if len > morecore_top m - morecore_base m then Some (of_int (- ENOMEM), m)
         else do {
           let m = m\<lparr>morecore_top := morecore_top m - len\<rparr>;
           Some (morecore_top m, m)
         })
      else None)"

definition sys_madvise :: "morecore \<Rightarrow> u64 \<times> morecore" where
  "sys_madvise m = (0, m)"

text \<open>The copies for applications are the same code.\<close>

definition sosapi_sys_brk :: "u64 \<Rightarrow> morecore \<Rightarrow> u64 \<times> morecore" where
  "sosapi_sys_brk = sys_brk"

definition sosapi_sys_mmap :: "u64 \<Rightarrow> u32 \<Rightarrow> morecore \<Rightarrow> (u64 \<times> morecore) option" where
  "sosapi_sys_mmap = sys_mmap"

section \<open>The C library as a client\<close>

text \<open>
  A client calls \<open>brk\<close> and anonymous \<open>mmap\<close> in any order and keeps the mappings it was given; as in musl, results from
  \<open>-4095\<close> up are error codes.
\<close>

datatype morecore_call = Brk u64 | Mmap u64

fun morecore_run :: "morecore_call list \<Rightarrow> morecore \<times> (u64 \<times> u64) list \<Rightarrow> (morecore \<times> (u64 \<times> u64) list) option" where
  "morecore_run [] st = Some st"
| "morecore_run (Brk newbrk # calls) (m, maps) = morecore_run calls (snd (sys_brk newbrk m), maps)"
| "morecore_run (Mmap len # calls) (m, maps) = do {
     (p, m) \<leftarrow> sys_mmap len MAP_ANONYMOUS m;
     morecore_run calls (m, if p > - 4096 then maps else (p, len) # maps)
   }"

text \<open>The heap is below the mappings, which lie one above the other.\<close>

definition morecore_inv :: "morecore \<times> (u64 \<times> u64) list \<Rightarrow> bool" where
  "morecore_inv = (\<lambda>(m, maps).
     unat (morecore_area m) + unat MORECORE_AREA_BYTE_SIZE < 2 ^ 64 - 4096 \<and>
     morecore_area m \<le> morecore_base m \<and> morecore_base m \<le> morecore_top m \<and>
     unat (morecore_top m) \<le> unat (morecore_area m) + unat MORECORE_AREA_BYTE_SIZE \<and>
     (\<forall>(p, len) \<in> set maps. morecore_top m \<le> p \<and>
        unat p + unat len \<le> unat (morecore_area m) + unat MORECORE_AREA_BYTE_SIZE) \<and>
     sorted_wrt (\<lambda>(p, len) (q, _). unat p + unat len \<le> unat q) maps)"

lemma sys_brk_inv:
  assumes "morecore_inv (m, maps)"
  shows "morecore_inv (snd (sys_brk b m), maps)"
  using assms by (auto simp: morecore_inv_def sys_brk_def)

lemma sys_mmap_cases:
  assumes "morecore_inv (m, maps)"
  obtains (full) "sys_mmap len MAP_ANONYMOUS m = Some (- 12, m)" and "unat (morecore_top m) < unat (morecore_base m) + unat len"
    | (ok) p where "sys_mmap len MAP_ANONYMOUS m = Some (p, m\<lparr>morecore_top := p\<rparr>)" and "unat p + unat len = unat (morecore_top m)"
        and "unat (morecore_base m) \<le> unat p" and "p < - 4096"
proof -
  have base: "morecore_base m \<le> morecore_top m" and top: "unat (morecore_top m) < 2 ^ 64 - 4096"
    using assms by (auto simp: morecore_inv_def)
  have sub: "unat (morecore_top m - morecore_base m) = unat (morecore_top m) - unat (morecore_base m)"
    using base by (rule unat_sub)
  have le: "unat (morecore_base m) \<le> unat (morecore_top m)" using base by (simp add: word_le_nat_alt)
  show ?thesis
  proof (cases "len > morecore_top m - morecore_base m")
    case True
    then show ?thesis using sub le
      by (intro full) (simp_all add: sys_mmap_def MAP_ANONYMOUS_def ENOMEM_def word_less_nat_alt)
  next
    case False
    then have len: "unat len \<le> unat (morecore_top m) - unat (morecore_base m)" using sub by (simp add: word_less_nat_alt)
    then have p: "unat (morecore_top m - len) = unat (morecore_top m) - unat len"
      using le by (intro unat_sub) (simp add: word_le_nat_alt)
    show ?thesis using False len le p top
      by (intro ok [of "morecore_top m - len"]) (simp_all add: sys_mmap_def MAP_ANONYMOUS_def word_less_nat_alt)
  qed
qed

lemma morecore_run_inv:
  assumes "morecore_inv (m, maps)"
  shows "\<exists>m' maps'. morecore_run calls (m, maps) = Some (m', maps') \<and> morecore_inv (m', maps') \<and>
           morecore_area m' = morecore_area m"
  using assms
proof (induction calls arbitrary: m maps)
  case (Cons call calls)
  show ?case
  proof (cases call)
    case (Brk b)
    moreover have "morecore_area (snd (sys_brk b m)) = morecore_area m" by (simp add: sys_brk_def)
    ultimately show ?thesis using Cons.IH [OF sys_brk_inv [OF Cons.prems, of b]] by simp
  next
    case (Mmap len)
    from Cons.prems show ?thesis
    proof (cases rule: sys_mmap_cases [of m maps len])
      case full
      then show ?thesis using Cons Mmap by simp
    next
      case (ok p)
      have "morecore_inv (m\<lparr>morecore_top := p\<rparr>, (p, len) # maps)"
        using Cons.prems ok(2,3) by (force simp: morecore_inv_def word_le_nat_alt)
      moreover have "\<not> - 4096 < p" using ok(4) by (rule order_less_not_sym)
      ultimately show ?thesis using Cons.IH [of "m\<lparr>morecore_top := p\<rparr>" "(p, len) # maps"] ok(1) Mmap by simp
    qed
  qed
qed simp

text \<open>
  C29. Heap and mappings never overlap. Wherever the linker puts the array, below the last page of the address range, any sequence of \<open>brk\<close> and
  anonymous \<open>mmap\<close> calls returns, and then the break is inside the array and not above any mapping, and the mappings are disjoint and end inside the
  array.
\<close>

theorem morecore_disjoint:
  assumes "unat area + unat MORECORE_AREA_BYTE_SIZE < 2 ^ 64 - 4096"
  shows "\<exists>m maps. morecore_run calls (morecore_0 area, []) = Some (m, maps) \<and>
     area \<le> morecore_base m \<and> morecore_base m \<le> morecore_top m \<and>
     (\<forall>(p, len) \<in> set maps. morecore_base m \<le> p \<and> unat p + unat len \<le> unat area + unat MORECORE_AREA_BYTE_SIZE) \<and>
     sorted_wrt (\<lambda>(p, len) (q, _). unat p + unat len \<le> unat q) maps"
proof -
  have "unat (area + MORECORE_AREA_BYTE_SIZE) = unat area + unat MORECORE_AREA_BYTE_SIZE"
    using assms by (subst unat_add_lem [THEN iffD1]) simp_all
  then have "morecore_inv (morecore_0 area, [])"
    using assms by (simp add: morecore_inv_def morecore_0_def word_le_nat_alt)
  from morecore_run_inv [OF this, of calls] obtain m maps where
    run: "morecore_run calls (morecore_0 area, []) = Some (m, maps)" "morecore_inv (m, maps)" "morecore_area m = area"
    by (auto simp: morecore_0_def)
  then show ?thesis by (fastforce simp: morecore_inv_def)
qed

theorem morecore_disjoint_witness:
  "\<exists>m maps. morecore_run [Brk 0x8800, Mmap 0x1000, Mmap 0x200000, Brk 0x9000] (morecore_0 0x8000, []) = Some (m, maps) \<and>
     0x8000 \<le> morecore_base m \<and> morecore_base m \<le> morecore_top m"
  using morecore_disjoint [of "0x8000" "[Brk 0x8800, Mmap 0x1000, Mmap 0x200000, Brk 0x9000]"]
  by (auto simp: MORECORE_AREA_BYTE_SIZE_def)

end
