(* ===== verification/Clock.thy ===== *)
theory Clock
  imports SOS_Prelude Errno
begin

text \<open>
  Time: the ARM generic timer (\<open>libclock/include/clock/timestamp.h\<close>), the Meson timer device (\<open>libclock/src/device.c\<close>, \<open>device.h\<close>), the watchdog
  (\<open>watchdog.h\<close>), the skeleton of the timer driver (\<open>clock.c\<close>) and the system calls for time (\<open>sos/src/sys/time.c\<close>).

  Hardware that changes by itself is a function of time: \<open>ticks i\<close> is the value that the \<open>i\<close>-th read of the counter register gives, and
  \<open>regs i\<close> are the device registers at the \<open>i\<close>-th access.
\<close>

section \<open>The generic timer\<close>

definition MS_IN_S :: u64 where "MS_IN_S = 1000"
definition US_IN_S :: u64 where "US_IN_S = 1000000"
definition NS_IN_US :: u64 where "NS_IN_US = 1000"
definition NS_IN_MS :: u64 where "NS_IN_MS = 1000000"

lemmas time_units = MS_IN_S_def US_IN_S_def NS_IN_US_def NS_IN_MS_def

text \<open>The argument \<open>t\<close> is what \<open>timestamp_ticks\<close> read. A division by zero is undefined.\<close>

definition timestamp_ms :: "u64 \<Rightarrow> u64 \<Rightarrow> u64 option" where
  "timestamp_ms t freq = do {
     c_assert (freq \<noteq> 0);
     c_assert (freq div MS_IN_S \<noteq> 0);
     Some (t div (freq div MS_IN_S))
   }"

definition timestamp_us :: "u64 \<Rightarrow> u64 \<Rightarrow> u64 option" where
  "timestamp_us t freq = do {
     c_assert (freq \<noteq> 0);
     Some ((US_IN_S * t) div freq)
   }"

text \<open>
  The loop \<open>while (timestamp_us(freq) - start < us)\<close> of \<open>udelay\<close> and \<open>sys_nanosleep\<close>; it starts with the \<open>i\<close>-th read and returns the number of the next read.
\<close>

partial_function (option) delay_loop :: "(nat \<Rightarrow> u64) \<Rightarrow> u64 \<Rightarrow> u64 \<Rightarrow> u64 \<Rightarrow> nat \<Rightarrow> nat option" where
  "delay_loop ticks freq start us i = do {
     now \<leftarrow> timestamp_us (ticks i) freq;
     if now - start < us then delay_loop ticks freq start us (Suc i) else Some (Suc i)
   }"

definition udelay :: "(nat \<Rightarrow> u64) \<Rightarrow> u64 \<Rightarrow> u64 \<Rightarrow> nat \<Rightarrow> nat option" where
  "udelay ticks us freq i = do {
     start \<leftarrow> timestamp_us (ticks i) freq;
     delay_loop ticks freq start us (Suc i)
   }"

section \<open>System calls for time\<close>

record timespec =
  tv_sec :: u64
  tv_nsec :: u64

text \<open>
  The static variable \<open>freq\<close> is read from the hardware, as \<open>hw_freq\<close>, when it is 0. The results are the return value, the variable and the number of the next
  read.
\<close>

definition sys_freq :: "u64 \<Rightarrow> u64 \<Rightarrow> u64" where
  "sys_freq hw_freq freq = (if freq = 0 then hw_freq else freq)"

definition sys_nanosleep :: "u64 \<Rightarrow> (nat \<Rightarrow> u64) \<Rightarrow> timespec \<Rightarrow> u64 \<Rightarrow> nat \<Rightarrow> (int \<times> u64 \<times> nat) option" where
  "sys_nanosleep hw_freq ticks req freq i = do {
     let freq = sys_freq hw_freq freq;
     let us = tv_sec req * US_IN_S;
     let us = us + tv_nsec req div NS_IN_US;
     start \<leftarrow> timestamp_us (ticks i) freq;
     j \<leftarrow> delay_loop ticks freq start us (Suc i);
     Some (0, freq, j)
   }"

definition CLOCK_REALTIME :: int where "CLOCK_REALTIME = 0"

definition sys_clock_gettime ::
    "u64 \<Rightarrow> (nat \<Rightarrow> u64) \<Rightarrow> int \<Rightarrow> timespec \<Rightarrow> u64 \<Rightarrow> nat \<Rightarrow> (int \<times> timespec \<times> u64 \<times> nat) option" where
  "sys_clock_gettime hw_freq ticks clk_id res freq i = do {
     let freq = sys_freq hw_freq freq;
     if clk_id \<noteq> CLOCK_REALTIME then Some (- EINVAL, res, freq, i)
     else do {
       micros \<leftarrow> timestamp_us (ticks i) freq;
       let res = res\<lparr>tv_sec := micros div US_IN_S\<rparr>;
       let res = res\<lparr>tv_nsec := (micros mod US_IN_S) * NS_IN_US\<rparr>;
       Some (0, res, freq, Suc i)
     }
   }"

section \<open>The Meson timer\<close>

datatype timeout_id_t = MESON_TIMER_A | MESON_TIMER_B | MESON_TIMER_C | MESON_TIMER_D

record meson_timer_reg_t =
  mux :: u32
  timer_a :: u32
  timer_b :: u32
  timer_c :: u32
  timer_d :: u32
  timer_e :: u32
  timer_e_hi :: u32
  mux1 :: u32
  timer_f :: u32
  timer_g :: u32
  timer_h :: u32
  timer_i :: u32

record timeout_info_t =
  ti_irq :: u64
  ti_input_clk :: nat
  ti_enable :: u64
  ti_mode :: u64

fun timeouts :: "timeout_id_t \<Rightarrow> timeout_info_t" where
  "timeouts MESON_TIMER_A = \<lparr>ti_irq = 42, ti_input_clk = 0, ti_enable = BIT 16, ti_mode = BIT 12\<rparr>"
| "timeouts MESON_TIMER_B = \<lparr>ti_irq = 43, ti_input_clk = 2, ti_enable = BIT 17, ti_mode = BIT 13\<rparr>"
| "timeouts MESON_TIMER_C = \<lparr>ti_irq = 38, ti_input_clk = 4, ti_enable = BIT 18, ti_mode = BIT 14\<rparr>"
| "timeouts MESON_TIMER_D = \<lparr>ti_irq = 61, ti_input_clk = 6, ti_enable = BIT 19, ti_mode = BIT 15\<rparr>"

definition TIMER_E_INPUT_CLK :: nat where "TIMER_E_INPUT_CLK = 8"

text \<open>\<open>MASK(3)\<close> and \<open>MASK(2)\<close>.\<close>

definition TIMESTAMP_TIMEBASE_MASK :: u64 where "TIMESTAMP_TIMEBASE_MASK = 7"
definition TIMEOUT_TIMEBASE_MASK :: u64 where "TIMEOUT_TIMEBASE_MASK = 3"

datatype timestamp_timebase_t =
    TIMESTAMP_TIMEBASE_SYSTEM
  | TIMESTAMP_TIMEBASE_1_US
  | TIMESTAMP_TIMEBASE_10_US
  | TIMESTAMP_TIMEBASE_100_US
  | TIMESTAMP_TIMEBASE_1_MS

fun timestamp_timebase :: "timestamp_timebase_t \<Rightarrow> u32" where
  "timestamp_timebase TIMESTAMP_TIMEBASE_SYSTEM = 0"
| "timestamp_timebase TIMESTAMP_TIMEBASE_1_US = 1"
| "timestamp_timebase TIMESTAMP_TIMEBASE_10_US = 2"
| "timestamp_timebase TIMESTAMP_TIMEBASE_100_US = 3"
| "timestamp_timebase TIMESTAMP_TIMEBASE_1_MS = 4"

datatype timeout_timebase_t =
    TIMEOUT_TIMEBASE_1_US
  | TIMEOUT_TIMEBASE_10_US
  | TIMEOUT_TIMEBASE_100_US
  | TIMEOUT_TIMEBASE_1_MS

fun timeout_timebase :: "timeout_timebase_t \<Rightarrow> u32" where
  "timeout_timebase TIMEOUT_TIMEBASE_1_US = 0"
| "timeout_timebase TIMEOUT_TIMEBASE_10_US = 1"
| "timeout_timebase TIMEOUT_TIMEBASE_100_US = 2"
| "timeout_timebase TIMEOUT_TIMEBASE_1_MS = 3"

text \<open>The 32-bit register is combined with \<open>unsigned long\<close> masks, and the result is truncated again.\<close>

definition configure_timestamp :: "timestamp_timebase_t \<Rightarrow> meson_timer_reg_t \<Rightarrow> meson_timer_reg_t" where
  "configure_timestamp timebase regs = (
     let m = mux regs;
         m = ucast ((ucast m :: u64) AND NOT (push_bit TIMER_E_INPUT_CLK TIMESTAMP_TIMEBASE_MASK));
         m = m OR push_bit TIMER_E_INPUT_CLK (timestamp_timebase timebase)
     in regs\<lparr>mux := m\<rparr>)"

definition read_timestamp :: "(nat \<Rightarrow> meson_timer_reg_t) \<Rightarrow> u64" where
  "read_timestamp regs = (
     let lo = ucast (timer_e (regs 0)) :: u64;
         hi = ucast (timer_e_hi (regs 1)) :: u64;
         new_lo = ucast (timer_e (regs 2)) :: u64;
         (lo, hi) = (if new_lo < lo then (new_lo, ucast (timer_e_hi (regs 3))) else (lo, hi));
         time = push_bit 32 hi
     in time OR (lo AND 0xFFFFFFFF))"

fun write_timeout :: "timeout_id_t \<Rightarrow> u16 \<Rightarrow> meson_timer_reg_t \<Rightarrow> meson_timer_reg_t" where
  "write_timeout MESON_TIMER_A v regs = regs\<lparr>timer_a := ucast v\<rparr>"
| "write_timeout MESON_TIMER_B v regs = regs\<lparr>timer_b := ucast v\<rparr>"
| "write_timeout MESON_TIMER_C v regs = regs\<lparr>timer_c := ucast v\<rparr>"
| "write_timeout MESON_TIMER_D v regs = regs\<lparr>timer_d := ucast v\<rparr>"

definition configure_timeout ::
    "timeout_id_t \<Rightarrow> bool \<Rightarrow> bool \<Rightarrow> timeout_timebase_t \<Rightarrow> u16 \<Rightarrow> meson_timer_reg_t \<Rightarrow> meson_timer_reg_t" where
  "configure_timeout timer enable periodic timebase timeout regs = (
     let info = timeouts timer;
         m = mux regs;
         m = ucast ((ucast m :: u64) AND NOT (ti_enable info));
         regs = regs\<lparr>mux := m\<rparr>
     in if \<not> enable then regs
        else
          let regs = write_timeout timer timeout regs;
              m = mux regs;
              m = ucast ((ucast m :: u64) OR ti_enable info) :: u32;
              m = (if periodic then ucast ((ucast m :: u64) OR ti_mode info)
                   else ucast ((ucast m :: u64) AND NOT (ti_mode info))) :: u32;
              m = ucast ((ucast m :: u64) AND NOT (push_bit (ti_input_clk info) TIMEOUT_TIMEBASE_MASK));
              m = m OR push_bit (ti_input_clk info) (timeout_timebase timebase)
          in regs\<lparr>mux := m\<rparr>)"

fun timeout_reg :: "timeout_id_t \<Rightarrow> meson_timer_reg_t \<Rightarrow> u32" where
  "timeout_reg MESON_TIMER_A regs = timer_a regs"
| "timeout_reg MESON_TIMER_B regs = timer_b regs"
| "timeout_reg MESON_TIMER_C regs = timer_c regs"
| "timeout_reg MESON_TIMER_D regs = timer_d regs"

definition read_timeout :: "timeout_id_t \<Rightarrow> meson_timer_reg_t \<Rightarrow> u16" where
  "read_timeout timer regs = ucast (drop_bit 16 (timeout_reg timer regs))"

definition meson_timeout_irq :: "timeout_id_t \<Rightarrow> u64" where
  "meson_timeout_irq timer = ti_irq (timeouts timer)"

section \<open>The driver skeleton and the watchdog\<close>

definition CLOCK_R_OK :: int where "CLOCK_R_OK = 0"
definition CLOCK_R_FAIL :: int where "CLOCK_R_FAIL = - 3"
definition TIMER_REG_START :: u64 where "TIMER_REG_START = 0x940"

definition stop_timer :: int where
  "stop_timer = CLOCK_R_FAIL"

text \<open>The result and the address \<open>clock.regs\<close>.\<close>

definition start_timer :: "u64 \<Rightarrow> u64 \<Rightarrow> int \<times> u64" where
  "start_timer timer_vaddr regs = (
     let err = stop_timer
     in if err \<noteq> 0 then (err, regs) else (CLOCK_R_OK, timer_vaddr + TIMER_REG_START))"

definition register_timer :: "u64 \<Rightarrow> u64 \<Rightarrow> u64 \<Rightarrow> u32" where
  "register_timer delay callback data = 0"

definition remove_timer :: "u32 \<Rightarrow> int" where
  "remove_timer timer = CLOCK_R_FAIL"

definition timer_irq :: "u64 \<Rightarrow> u64 \<Rightarrow> cptr \<Rightarrow> int" where
  "timer_irq data irq irq_handler = CLOCK_R_FAIL"

definition WDOG_OFFSET :: u64 where "WDOG_OFFSET = 0x8D0"
definition WDOG_CNTL :: u64 where "WDOG_CNTL = 0x0"
definition WDOG_TCNT :: u64 where "WDOG_TCNT = 0x8"
definition WDOG_RESET :: u64 where "WDOG_RESET = 0xC"
definition WDOG_CNTL_EN :: u64 where "WDOG_CNTL_EN = BIT 18"
definition WDOG_CNTL_INTERRUPT_EN :: u64 where "WDOG_CNTL_INTERRUPT_EN = BIT 23"
definition WDOG_CNTL_CLK_EN :: u64 where "WDOG_CNTL_CLK_EN = BIT 24"
definition WDOG_CNTL_CLK_DIV_EN :: u64 where "WDOG_CNTL_CLK_DIV_EN = BIT 25"

text \<open>The writes to the device, in order, and the pointer \<open>wdog\<close>.\<close>

definition watchdog_init :: "u64 \<Rightarrow> u16 \<Rightarrow> (u64 \<times> u32) list \<times> u64" where
  "watchdog_init timer_vaddr timeout_us = (
     let wdog = timer_vaddr + WDOG_OFFSET
     in ([(wdog + WDOG_CNTL, ucast (WDOG_CNTL_EN OR WDOG_CNTL_CLK_EN OR WDOG_CNTL_CLK_DIV_EN OR WDOG_CNTL_INTERRUPT_EN OR 24)),
          (wdog + WDOG_TCNT, ucast timeout_us),
          (wdog + WDOG_RESET, 0)], wdog))"

definition watchdog_reset :: "u64 \<Rightarrow> (u64 \<times> u32) list option" where
  "watchdog_reset wdog = do {
     c_assert (wdog \<noteq> 0);
     Some [(wdog + WDOG_RESET, 0)]
   }"

section \<open>Properties\<close>

subsection \<open>Waiting\<close>

lemma delay_loop_reaches:
  assumes "freq \<noteq> 0" and "i \<le> n" and "us \<le> (US_IN_S * ticks n) div freq - start"
  shows "\<exists>j. delay_loop ticks freq start us i = Some (Suc j) \<and> i \<le> j \<and> j \<le> n \<and>
           us \<le> (US_IN_S * ticks j) div freq - start"
  using assms(2)
proof (induction "n - i" arbitrary: i)
  case 0
  then have "\<not> (US_IN_S * ticks i) div freq - start < us" "n = i" using assms(3) by (auto simp: not_less)
  then show ?case using assms(1,3) by (subst delay_loop.simps) (simp add: timestamp_us_def)
next
  case (Suc k)
  show ?case
  proof (cases "(US_IN_S * ticks i) div freq - start < us")
    case True
    have "k = n - Suc i" "Suc i \<le> n" using Suc.hyps(2) by auto
    from Suc.hyps(1) [OF this] True assms(1) show ?thesis
      by (subst delay_loop.simps) (auto simp: timestamp_us_def Suc_le_eq intro: less_imp_le)
  next
    case False
    with assms(1) Suc.prems show ?thesis
      by (subst delay_loop.simps) (auto simp: timestamp_us_def)
  qed
qed

text \<open>
  \<open>sys_nanosleep\<close> sleeps long enough and wakes up: if the clock ever shows that the requested time has passed since the first read, the call returns 0
  no later than with that read, and the last reading it took is at least the requested time after the first.
\<close>

lemma sys_nanosleep_wakes:
  assumes "sys_freq hw_freq freq \<noteq> 0" and "i < n"
    and "us = tv_sec req * US_IN_S + tv_nsec req div NS_IN_US"
    and "us \<le> (US_IN_S * ticks n) div sys_freq hw_freq freq - (US_IN_S * ticks i) div sys_freq hw_freq freq"
  shows "\<exists>j. sys_nanosleep hw_freq ticks req freq i = Some (0, sys_freq hw_freq freq, Suc j) \<and> i < j \<and> j \<le> n \<and>
     us \<le> (US_IN_S * ticks j) div sys_freq hw_freq freq - (US_IN_S * ticks i) div sys_freq hw_freq freq"
  using delay_loop_reaches [where ticks = ticks, OF assms(1) Suc_leI [OF assms(2)] assms(4)] assms(1)
  by (auto simp: sys_nanosleep_def timestamp_us_def assms(3) Suc_le_eq)

lemma timestamp_us_exact:
  assumes "freq \<noteq> 0" and "1000000 * unat t < 2 ^ 64"
  shows "timestamp_us t freq = Some (of_nat (1000000 * unat t div unat freq))"
proof -
  have "unat (US_IN_S * t) = 1000000 * unat t"
    using assms(2) by (subst unat_mult_lem [THEN iffD1]) (simp_all add: US_IN_S_def)
  then have "(US_IN_S * t) div freq = of_nat (1000000 * unat t div unat freq)"
    by (simp add: word_arith_nat_div)
  with assms(1) show ?thesis by (simp add: timestamp_us_def)
qed

text \<open>
  \<open>sys_clock_gettime\<close> returns a normalised time, with less than \<open>10 ^ 9\<close> nanoseconds, that is the counter converted to microseconds, rounded down, as long as
  the counter is below \<open>2 ^ 64 / 10 ^ 6\<close>.
\<close>

lemma sys_clock_gettime_exact:
  assumes "sys_freq hw_freq freq = f" and "f \<noteq> 0" and "1000000 * unat (ticks i) < 2 ^ 64"
  shows "\<exists>r. sys_clock_gettime hw_freq ticks CLOCK_REALTIME res freq i = Some (0, r, f, Suc i) \<and>
     unat (tv_nsec r) < 10 ^ 9 \<and>
     unat (tv_sec r) * 10 ^ 9 + unat (tv_nsec r) = 1000 * (1000000 * unat (ticks i) div unat f)"
proof -
  let ?m = "1000000 * unat (ticks i) div unat f"
  have m: "?m < 2 ^ 64" using assms(3) by (meson div_le_dividend le_less_trans)
  then have u: "unat (of_nat ?m :: u64) = ?m" by (rule unat_of_nat_u64)
  have s: "unat ((of_nat ?m :: u64) div US_IN_S) = ?m div 1000000"
    by (simp only: unat_div u) (simp add: US_IN_S_def)
  have r: "unat ((of_nat ?m :: u64) mod US_IN_S) = ?m mod 1000000"
    by (simp only: unat_mod u) (simp add: US_IN_S_def)
  have n: "unat (((of_nat ?m :: u64) mod US_IN_S) * NS_IN_US) = ?m mod 1000000 * 1000"
    by (subst unat_mult_lem [THEN iffD1]) (simp_all only: r NS_IN_US_def, simp_all add: order_less_trans [OF mult_strict_right_mono])
  have "q * 10 ^ 9 + r * 1000 = 1000 * (q * 1000000 + r)" for q r :: nat by simp
  from this [of "x div 1000000" "x mod 1000000" for x]
  have "x div 1000000 * 10 ^ 9 + x mod 1000000 * 1000 = 1000 * x" for x :: nat by (simp only: div_mult_mod_eq)
  moreover have "x mod 1000000 * 1000 < 10 ^ 9" for x :: nat by simp
  ultimately show ?thesis
    using timestamp_us_exact [OF assms(2,3)] assms(1) s n
    by (simp add: sys_clock_gettime_def)
qed

text \<open>
  The product in \<open>timestamp_us\<close> wraps around when the counter reaches \<open>2 ^ 64 / 10 ^ 6\<close>, after nine days at 24 MHz, and the time starts again near 0.
\<close>

lemma timestamp_us_wraps:
  "timestamp_us 18446744073709 24000000 = Some 768614336404" "timestamp_us 18446744073710 24000000 = Some 0"
  by (simp_all add: timestamp_us_def US_IN_S_def)

subsection \<open>The 64-bit counter of the Meson timer\<close>

lemma join_halves:
  assumes "drop_bit 32 c = drop_bit 32 (d :: u64)"
  shows "push_bit 32 (ucast (ucast (drop_bit 32 c) :: u32)) OR (ucast (ucast d :: u32) AND 0xFFFFFFFF) = (d :: u64)"
proof (rule bit_eqI)
  fix n
  assume "possible_bit TYPE(64 word) n"
  then have n: "n < 64" by simp
  have "(0xFFFFFFFF :: u64) = mask 32" by (simp add: mask_eq_exp_minus_1)
  then have mask: "bit (0xFFFFFFFF :: u64) n \<longleftrightarrow> n < 32" using n by (simp only: bit_mask_iff possible_bit_word) simp
  have "bit c n = bit d n" if "32 \<le> n"
    using arg_cong [OF assms, of "\<lambda>w. bit w (n - 32)"] that by (simp add: bit_drop_bit_eq)
  then show "bit (push_bit 32 (ucast (ucast (drop_bit 32 c) :: u32)) OR (ucast (ucast d :: u32) AND 0xFFFFFFFF) :: u64) n = bit d n"
    using n mask by (cases "n < 32") (auto simp: bit_simps)
qed

text \<open>Reading the low half twice shows whether the carry into the high half happened in between.\<close>

lemma carry_cases:
  fixes a0 a1 a2 a3 :: nat
  assumes "a0 \<le> a1" and "a1 \<le> a2" and "a2 \<le> a3" and "a3 < a0 + 4294967296"
  shows "if a2 mod 4294967296 < a0 mod 4294967296 then a3 div 4294967296 = a2 div 4294967296
         else a1 div 4294967296 = a0 div 4294967296"
proof -
  have le: "a0 div 4294967296 \<le> a1 div 4294967296" "a1 div 4294967296 \<le> a2 div 4294967296"
    "a2 div 4294967296 \<le> a3 div 4294967296" using assms by (auto intro: div_le_mono)
  have eq: "a = a div 4294967296 * 4294967296 + a mod 4294967296" for a :: nat by simp
  have lt: "a mod 4294967296 < 4294967296" for a :: nat by simp
  note facts = le eq [of a0] eq [of a2] eq [of a3] lt [of a0] lt [of a2] lt [of a3] assms
  show ?thesis
  proof (cases "a2 mod 4294967296 < a0 mod 4294967296")
    case True
    then have "a0 div 4294967296 < a2 div 4294967296" using facts by linarith
    then have "a3 div 4294967296 = a2 div 4294967296" using facts by linarith
    with True show ?thesis by simp
  next
    case False
    then have "a2 div 4294967296 < a0 div 4294967296 + 1" using facts by linarith
    then have "a1 div 4294967296 = a0 div 4294967296" using facts by linarith
    with False show ?thesis by simp
  qed
qed

text \<open>
  C37. \<open>read_timestamp\<close> gives a value that the counter had during the call, although it reads the two 32-bit halves separately: when the registers hold the halves of
  a 64-bit counter \<open>c\<close> that grows by less than \<open>2 ^ 32\<close> during the call, the result is its value at the first or at the third access.
\<close>

theorem read_timestamp_consistent:
  assumes "\<And>i. timer_e (regs i) = ucast (c i)" and "\<And>i. timer_e_hi (regs i) = ucast (drop_bit 32 (c i))"
    and "c 0 \<le> c 1" and "c 1 \<le> c 2" and "c 2 \<le> c (3 :: nat)" and "unat (c 3 :: u64) < unat (c 0) + 2 ^ 32"
  shows "read_timestamp regs = (if ucast (c 2) < (ucast (c 0) :: u32) then c 2 else c 0)"
proof -
  let ?less = "(ucast (c 2) :: u32) < ucast (c 0)"
  have cond: "(ucast (ucast (c 2) :: u32) :: u64) < ucast (ucast (c 0) :: u32) \<longleftrightarrow> ?less"
    by (simp add: word_less_nat_alt unsigned_ucast_eq unsigned_take_bit_eq)
  have lo: "unat (ucast (c i) :: u32) = unat (c i) mod 4294967296" for i
    by (simp add: unsigned_ucast_eq take_bit_eq_mod)
  have hi: "drop_bit 32 (c i) = drop_bit 32 (c j)" if "unat (c i) div 4294967296 = unat (c j) div 4294967296" for i j
    using that by (simp add: word_unat_eq_iff drop_bit_eq_div unat_div)
  have "if ?less then drop_bit 32 (c 3) = drop_bit 32 (c 2) else drop_bit 32 (c 1) = drop_bit 32 (c 0)"
    using carry_cases [of "unat (c 0)" "unat (c 1)" "unat (c 2)" "unat (c 3)"] assms(3-6) hi [of 3 2] hi [of 1 0]
    by (auto simp: word_less_nat_alt word_le_nat_alt lo)
  then show ?thesis
    by (simp add: read_timestamp_def assms(1,2) cond join_halves split: if_splits del: One_nat_def)
qed

definition zero_regs :: meson_timer_reg_t where
  "zero_regs = \<lparr>mux = 0, timer_a = 0, timer_b = 0, timer_c = 0, timer_d = 0, timer_e = 0, timer_e_hi = 0, mux1 = 0,
     timer_f = 0, timer_g = 0, timer_h = 0, timer_i = 0\<rparr>"

theorem read_timestamp_consistent_witness:
  "read_timestamp (\<lambda>i. zero_regs\<lparr>timer_e := ucast (0x1FFFFFFFF + of_nat i :: u64), timer_e_hi := ucast (drop_bit 32 (0x1FFFFFFFF + of_nat i :: u64))\<rparr>) =
     0x200000001"
  by (subst read_timestamp_consistent [where c = "\<lambda>i. 0x1FFFFFFFF + of_nat i"]) (simp_all add: word_le_nat_alt)

subsection \<open>Configuring a timeout\<close>

lemma timer_mux_bits:
  "bit (ucast ((ucast (m :: u32) :: u64) AND NOT b) :: u32) n \<longleftrightarrow> bit m n \<and> \<not> bit b n"
  "bit (ucast ((ucast (m :: u32) :: u64) OR b) :: u32) n \<longleftrightarrow> n < 32 \<and> (bit m n \<or> bit b n)"
  using bit_imp_le_length [of m n] by (auto simp: bit_simps)

definition timer_number :: "timeout_id_t \<Rightarrow> nat" where
  "timer_number t = (case t of MESON_TIMER_A \<Rightarrow> 0 | MESON_TIMER_B \<Rightarrow> 1 | MESON_TIMER_C \<Rightarrow> 2 | MESON_TIMER_D \<Rightarrow> 3)"

lemma timeouts_number:
  "ti_input_clk (timeouts t) = 2 * timer_number t" "ti_enable (timeouts t) = BIT (16 + timer_number t)"
  "ti_mode (timeouts t) = BIT (12 + timer_number t)"
  by (cases t; simp add: timer_number_def)+

lemma timer_number_less: "timer_number t < 4"
  by (cases t) (simp_all add: timer_number_def)

lemma write_timeout_mux: "mux (write_timeout t v regs) = mux regs"
  by (cases t) simp_all

lemma timeout_timebase_bits: "bit (timeout_timebase tb) n \<Longrightarrow> n < 2"
proof -
  assume "bit (timeout_timebase tb) n"
  moreover have "take_bit 2 (timeout_timebase tb) = timeout_timebase tb" by (cases tb) simp_all
  ultimately show ?thesis by (metis bit_take_bit_iff)
qed

lemma timebase_mask_bits: "bit TIMEOUT_TIMEBASE_MASK i \<longleftrightarrow> i < 2"
proof -
  have "TIMEOUT_TIMEBASE_MASK = mask 2" by (simp add: TIMEOUT_TIMEBASE_MASK_def mask_eq_exp_minus_1)
  then have "bit TIMEOUT_TIMEBASE_MASK i \<longleftrightarrow> possible_bit TYPE(u64) i \<and> i < 2" by (metis bit_mask_iff)
  then show ?thesis by auto
qed

lemma configure_timeout_bits_aux:
  fixes t :: timeout_id_t
  assumes regs'_def: "regs' = configure_timeout t enable periodic timebase timeout regs" and k_def: "k = timer_number t"
  shows "if enable then
      (\<forall>n < 32. bit (mux regs') n \<longleftrightarrow>
         (if n = 16 + k then True else if n = 12 + k then periodic
          else if n = 2 * k \<or> n = 2 * k + 1 then bit (timeout_timebase timebase) (n - 2 * k) else bit (mux regs) n)) \<and>
      timeout_reg t regs' = ucast timeout \<and> (\<forall>t'. t' \<noteq> t \<longrightarrow> timeout_reg t' regs' = timeout_reg t' regs)
    else (\<forall>n. bit (mux regs') n \<longleftrightarrow> bit (mux regs) n \<and> n \<noteq> 16 + k) \<and> regs' = regs\<lparr>mux := mux regs'\<rparr>"
proof (cases enable)
  case False
  then have "regs' = regs\<lparr>mux := ucast ((ucast (mux regs) :: u64) AND NOT (BIT (16 + k)))\<rparr>"
    by (simp add: regs'_def k_def configure_timeout_def timeouts_number)
  with False timer_number_less [of t] show ?thesis by (simp add: timer_mux_bits k_def)
next
  case True
  have k: "k < 4" unfolding k_def by (rule timer_number_less)
  have "bit (mux regs') n \<longleftrightarrow>
         (if n = 16 + k then True else if n = 12 + k then periodic
          else if n = 2 * k \<or> n = 2 * k + 1 then bit (timeout_timebase timebase) (n - 2 * k) else bit (mux regs) n)"
    if "n < 32" for n
    using that k timeout_timebase_bits [of timebase "n - 2 * k"] True
    by (auto simp: regs'_def configure_timeout_def Let_def timeouts_number k_def [symmetric] write_timeout_mux
        timer_mux_bits timebase_mask_bits bit_or_iff bit_push_bit_iff)
  moreover have "timeout_reg t regs' = ucast timeout"
    using True by (cases t) (simp_all add: regs'_def configure_timeout_def Let_def)
  moreover have "timeout_reg t' regs' = timeout_reg t' regs" if "t' \<noteq> t" for t'
    using True that by (cases t; cases t') (simp_all add: regs'_def configure_timeout_def Let_def)
  ultimately show ?thesis using True by simp
qed

text \<open>
  Configuring a timer changes exactly its own bits. Enabling timer number \<open>k\<close> sets its enable bit, sets its mode bit as asked, writes the timebase into its two clock bits and the timeout
  into its register; all other bits of the multiplexer and the registers of all other timers stay. Disabling clears its enable bit and changes nothing else.
\<close>

lemma configure_timeout_bits:
  "let regs' = configure_timeout t enable periodic timebase timeout regs; k = timer_number t
   in if enable then
      (\<forall>n < 32. bit (mux regs') n \<longleftrightarrow>
         (if n = 16 + k then True else if n = 12 + k then periodic
          else if n = 2 * k \<or> n = 2 * k + 1 then bit (timeout_timebase timebase) (n - 2 * k) else bit (mux regs) n)) \<and>
      timeout_reg t regs' = ucast timeout \<and> (\<forall>t'. t' \<noteq> t \<longrightarrow> timeout_reg t' regs' = timeout_reg t' regs)
    else (\<forall>n. bit (mux regs') n \<longleftrightarrow> bit (mux regs) n \<and> n \<noteq> 16 + k) \<and> regs' = regs\<lparr>mux := mux regs'\<rparr>"
  unfolding Let_def by (rule configure_timeout_bits_aux) (rule refl)+

end
