(* ===== verification/C_Memory.thy ===== *)
theory C_Memory
  imports SOS_Prelude
begin

text \<open>
  Byte-addressed memory, as the code that parses files in memory sees it. A memory maps the addresses that may be accessed to bytes; an access elsewhere is undefined behaviour,
  \<open>None\<close>. Numbers are little endian.
\<close>

section \<open>Loads and stores\<close>

type_synonym byte = "8 word"
type_synonym mem = "u64 \<Rightarrow> byte option"

text \<open>The little-endian number in \<open>n\<close> bytes at \<open>a\<close>.\<close>

primrec load_le :: "mem \<Rightarrow> u64 \<Rightarrow> nat \<Rightarrow> nat option" where
  "load_le m a 0 = Some 0"
| "load_le m a (Suc n) = do {
     b \<leftarrow> m a;
     v \<leftarrow> load_le m (a + 1) n;
     Some (unat b + 256 * v)
   }"

definition ld :: "mem \<Rightarrow> u64 \<Rightarrow> nat \<Rightarrow> u64 option" where
  "ld m a n = do { v \<leftarrow> load_le m a n; Some (of_nat v) }"

primrec load_bytes :: "mem \<Rightarrow> u64 \<Rightarrow> nat \<Rightarrow> byte list option" where
  "load_bytes m a 0 = Some []"
| "load_bytes m a (Suc n) = do {
     b \<leftarrow> m a;
     bs \<leftarrow> load_bytes m (a + 1) n;
     Some (b # bs)
   }"

text \<open>Writing bytes, to memory that is there.\<close>

primrec store_bytes :: "mem \<Rightarrow> u64 \<Rightarrow> byte list \<Rightarrow> mem option" where
  "store_bytes m a [] = Some m"
| "store_bytes m a (b # bs) = do {
     _ \<leftarrow> m a;
     store_bytes (m(a \<mapsto> b)) (a + 1) bs
   }"

text \<open>\<open>memcmp(a, bytes, n)\<close> with a constant string, \<open>memcpy\<close> and \<open>memset\<close>.\<close>

definition memcmp_eq :: "mem \<Rightarrow> u64 \<Rightarrow> byte list \<Rightarrow> bool option" where
  "memcmp_eq m a bs = do { xs \<leftarrow> load_bytes m a (length bs); Some (xs = bs) }"

definition memcpy :: "u64 \<Rightarrow> u64 \<Rightarrow> nat \<Rightarrow> mem \<Rightarrow> mem option" where
  "memcpy dest src n m = do { bs \<leftarrow> load_bytes m src n; store_bytes m dest bs }"

definition memset :: "u64 \<Rightarrow> byte \<Rightarrow> nat \<Rightarrow> mem \<Rightarrow> mem option" where
  "memset dest b n m = store_bytes m dest (replicate n b)"

section \<open>Readable memory\<close>

definition readable :: "mem \<Rightarrow> u64 \<Rightarrow> nat \<Rightarrow> bool" where
  "readable m a n \<longleftrightarrow> (\<forall>i < n. m (a + of_nat i) \<noteq> None)"

lemma readable_Suc: "readable m a (Suc n) \<longleftrightarrow> m a \<noteq> None \<and> readable m (a + 1) n"
  by (auto simp: readable_def less_Suc_eq_0_disj algebra_simps all_conj_distrib)

lemma readable_0 [simp]: "readable m a 0"
  by (simp add: readable_def)

lemma readable_part:
  assumes "readable m a n" and "i + k \<le> n"
  shows "readable m (a + of_nat i) k"
  unfolding readable_def
proof (intro allI impI)
  fix j
  assume "j < k"
  then have "i + j < n" using assms(2) by simp
  then have "m (a + of_nat (i + j)) \<noteq> None" using assms(1) unfolding readable_def by blast
  then show "m (a + of_nat i + of_nat j) \<noteq> None" by (simp add: add.assoc)
qed

lemma load_le_readable: "readable m a n \<Longrightarrow> \<exists>v. load_le m a n = Some v"
proof (induction n arbitrary: a)
  case (Suc n)
  then obtain b where "m a = Some b" and "readable m (a + 1) n" by (auto simp: readable_Suc)
  moreover from this Suc.IH obtain v where "load_le m (a + 1) n = Some v" by blast
  ultimately show ?case by auto
qed simp

lemma ld_readable: "readable m a n \<Longrightarrow> \<exists>v. ld m a n = Some v"
  using load_le_readable by (fastforce simp: ld_def)

lemma load_le_less: "load_le m a n = Some v \<Longrightarrow> v < 256 ^ n"
proof (induction n arbitrary: a v)
  case (Suc n)
  then obtain b u where "v = unat (b :: byte) + 256 * u" "u < 256 ^ n"
    by (auto elim!: bind_SomeE)
  moreover have "unat b < 256" using unsigned_less [of b] by simp
  ultimately show ?case by auto
qed simp

lemma ld_less:
  assumes "ld m a n = Some v" and "n \<le> 8"
  shows "unat v < 256 ^ n"
proof -
  from assms(1) obtain u where u: "v = of_nat u" "u < 256 ^ n"
    by (auto simp: ld_def load_le_less elim!: bind_SomeE)
  moreover have "(256 :: nat) ^ n \<le> 256 ^ 8" using assms(2) by (intro power_increasing) auto
  ultimately show ?thesis by (simp add: unat_of_nat_u64)
qed

lemma load_bytes_readable: "readable m a n \<Longrightarrow> \<exists>bs. load_bytes m a n = Some bs \<and> length bs = n"
proof (induction n arbitrary: a)
  case (Suc n)
  then obtain b where "m a = Some b" and "readable m (a + 1) n" by (auto simp: readable_Suc)
  moreover from this Suc.IH obtain bs where "load_bytes m (a + 1) n = Some bs" "length bs = n" by blast
  ultimately show ?case by auto
qed simp

lemma ld_at:
  assumes "readable m a n" and "unat d + k \<le> n"
  shows "\<exists>v. ld m (a + d) k = Some v"
  using ld_readable [OF readable_part [OF assms]] by simp

lemma load_numeral:
  "load_le m a (numeral k) = do { b \<leftarrow> m a; v \<leftarrow> load_le m (a + 1) (pred_numeral k); Some (unat b + 256 * v) }"
  "load_bytes m a (numeral k) = do { b \<leftarrow> m a; bs \<leftarrow> load_bytes m (a + 1) (pred_numeral k); Some (b # bs) }"
  by (simp_all only: numeral_eq_Suc load_le.simps load_bytes.simps)

section \<open>Written memory\<close>

text \<open>\<open>put a bs m\<close> is the memory \<open>m\<close> after the bytes \<open>bs\<close> have been stored from address \<open>a\<close> on.\<close>

definition put :: "u64 \<Rightarrow> byte list \<Rightarrow> mem \<Rightarrow> mem" where
  "put a bs m x = (if unat (x - a) < length bs then Some (bs ! unat (x - a)) else m x)"

lemma put_Nil [simp]: "put a [] m = m"
  by (rule ext) (simp add: put_def)

lemma put_put:
  assumes "length xs + length ys \<le> 2 ^ 63"
  shows "put (a + of_nat (length xs)) ys (put a xs m) = put a (xs @ ys) m"
proof
  fix x
  let ?d = "unat (x - a)" and ?l = "of_nat (length xs) :: u64"
  have l: "unat ?l = length xs" using assms by (intro unat_of_nat_u64) simp
  have e: "x - (a + ?l) = (x - a) - ?l" by (simp add: algebra_simps)
  show "put (a + ?l) ys (put a xs m) x = put a (xs @ ys) m x"
  proof (cases "length xs \<le> ?d")
    case True
    then have "unat ((x - a) - ?l) = ?d - length xs" by (simp add: unat_sub word_le_nat_alt l)
    with True show ?thesis by (auto simp: put_def e nth_append)
  next
    case False
    then have lt: "x - a < ?l" by (simp add: word_less_nat_alt l)
    have "unat ((x - a) - ?l) = 2 ^ 64 + ?d - length xs"
      using lt l by (simp add: unat_sub_if' word_le_nat_alt word_less_nat_alt)
    then have "\<not> unat ((x - a) - ?l) < length ys" using assms by simp
    with False show ?thesis by (simp add: put_def e nth_append)
  qed
qed

text \<open>Bytes stored right below others.\<close>

lemma put_below:
  assumes "length xs + length ys \<le> 2 ^ 63"
  shows "put a xs (put (a + of_nat (length xs)) ys m) = put a (xs @ ys) m"
proof
  fix x
  let ?d = "x - a" and ?l = "of_nat (length xs) :: u64"
  have l: "unat ?l = length xs" using assms by (intro unat_of_nat_u64) simp
  have e: "x - (a + ?l) = ?d - ?l" by (simp add: algebra_simps)
  have "length ys \<le> unat (?d - ?l)" if "unat ?d < length xs"
    using that l assms unat_sub_if' [of ?d ?l] by (simp add: word_le_nat_alt)
  moreover have "put (a + ?l) ys (put a xs m) x = put a (xs @ ys) m x" using put_put [OF assms] by simp
  ultimately show "put a xs (put (a + ?l) ys m) x = put a (xs @ ys) m x"
    by (auto simp: put_def nth_append not_less e)
qed

lemma readable_put [simp]: "readable m a n \<Longrightarrow> readable (put b bs m) a n"
  by (simp add: readable_def put_def)

lemma store_bytes_put:
  "readable m a (length bs) \<Longrightarrow> length bs \<le> 2 ^ 63 \<Longrightarrow> store_bytes m a bs = Some (put a bs m)"
proof (induction bs arbitrary: a m)
  case (Cons b bs)
  have one: "m(a \<mapsto> b) = put a [b] m" by (rule ext) (auto simp: put_def unat_eq_zero)
  have "readable m (a + 1) (length bs)" and "m a \<noteq> None" using Cons.prems(1) by (auto simp: readable_Suc)
  then have "store_bytes (m(a \<mapsto> b)) (a + 1) bs = Some (put (a + 1) bs (put a [b] m))"
    unfolding one using Cons.prems(2) by (intro Cons.IH) auto
  also have "put (a + 1) bs (put a [b] m) = put a (b # bs) m"
    using put_put [of "[b]" bs a m] Cons.prems(2) by simp
  finally have "store_bytes (m(a \<mapsto> b)) (a + 1) bs = Some (put a (b # bs) m)" .
  moreover obtain c where "m a = Some c" using \<open>m a \<noteq> None\<close> by blast
  ultimately show ?case by (simp only: store_bytes.simps bind.bind_lunit)
qed simp

lemma load_bytes_cong:
  "(\<And>i. i < n \<Longrightarrow> m' (a + of_nat i) = m (a + of_nat i)) \<Longrightarrow> load_bytes m' a n = load_bytes m a n"
proof (induction n arbitrary: a)
  case (Suc n)
  have "m' a = m a" using Suc.prems [of 0] by simp
  moreover have "load_bytes m' (a + 1) n = load_bytes m (a + 1) n"
    using Suc.prems [of "Suc i" for i] by (intro Suc.IH) (simp add: algebra_simps)
  ultimately show ?case by simp
qed simp

lemma load_bytes_nth:
  "load_bytes m a n = Some bs \<Longrightarrow> length bs = n \<and> (\<forall>i < n. m (a + of_nat i) = Some (bs ! i))"
proof (induction n arbitrary: a bs)
  case (Suc n)
  then obtain b cs where "m a = Some b" "load_bytes m (a + 1) n = Some cs" "bs = b # cs" by (auto elim!: bind_SomeE)
  with Suc.IH [of "a + 1" cs] show ?case by (auto simp: less_Suc_eq_0_disj algebra_simps)
qed simp

lemma load_bytes_take: "load_bytes m a k = Some bs \<Longrightarrow> n \<le> k \<Longrightarrow> load_bytes m a n = Some (take n bs)"
proof (induction n arbitrary: a k bs)
  case (Suc n)
  then obtain j where k: "k = Suc j" by (cases k) auto
  with Suc.prems(1) obtain b cs where "m a = Some b" "load_bytes m (a + 1) j = Some cs" "bs = b # cs" by (auto elim!: bind_SomeE)
  with Suc.IH [of "a + 1" j cs] Suc.prems(2) k show ?case by simp
qed simp

lemma load_bytes_put:
  assumes "length bs \<le> 2 ^ 63"
  shows "load_bytes (put a bs m) a (length bs) = Some bs"
proof -
  have nth: "put a bs m (a + of_nat i) = Some (bs ! i)" if "i < length bs" for i
    using that assms unat_of_nat_u64 [of i] by (simp add: put_def)
  then have "readable (put a bs m) a (length bs)" by (simp add: readable_def)
  then obtain cs where cs: "load_bytes (put a bs m) a (length bs) = Some cs" using load_bytes_readable by blast
  from load_bytes_nth [OF cs] nth have "cs = bs" by (intro nth_equalityI) auto
  with cs show ?thesis by simp
qed

lemma load_bytes_shift: "load_bytes (\<lambda>x. m (x + d)) a n = load_bytes m (a + d) n"
  by (induction n arbitrary: a) (simp_all add: add.assoc add.commute [of 1])

lemma memset_put:
  "readable m a n \<Longrightarrow> n \<le> 2 ^ 63 \<Longrightarrow> memset a b n m = Some (put a (replicate n b) m)"
  by (simp add: memset_def store_bytes_put)

lemma memcpy_put:
  "load_bytes m src n = Some bs \<Longrightarrow> readable m a n \<Longrightarrow> n \<le> 2 ^ 63 \<Longrightarrow> memcpy a src n m = Some (put a bs m)"
  using load_bytes_nth [of m src n bs] by (simp add: memcpy_def store_bytes_put)

end
