(* ===== verification/Elf_File.thy ===== *)
theory Elf_File
  imports C_Memory
begin

text \<open>
  The ELF library, \<open>libelf/src/elf.c\<close>, \<open>elf32.c\<close>, \<open>elf64.c\<close> and the inline accessors of \<open>elf32.h\<close> and \<open>elf64.h\<close>, on the
  byte-addressed memory of \<open>C_Memory\<close>. Header fields are zero-extended to 64 bits; a pointer is its address, and \<open>NULL\<close> is 0.
\<close>

section \<open>The file and its header\<close>

record elf_t =
  elfFile :: u64
  elfSize :: u64
  elfClass :: u64

datatype elf_addr_type_t = VIRTUAL | PHYSICAL

definition EI_CLASS :: u64 where "EI_CLASS = 4"
definition ELFCLASS32 :: u64 where "ELFCLASS32 = 1"
definition ELFCLASS64 :: u64 where "ELFCLASS64 = 2"
definition SHT_STRTAB :: u64 where "SHT_STRTAB = 3"

definition ELFMAG :: "byte list" where "ELFMAG = [0x7f, 0x45, 0x4c, 0x46]"

text \<open>The header that \<open>elf32_getHeader\<close> and \<open>elf64_getHeader\<close> return by value.\<close>

record elf_ehdr =
  e_ident :: "byte list"
  e_type :: u64
  e_machine :: u64
  e_version :: u64
  e_entry :: u64
  e_phoff :: u64
  e_shoff :: u64
  e_flags :: u64
  e_ehsize :: u64
  e_phentsize :: u64
  e_phnum :: u64
  e_shentsize :: u64
  e_shnum :: u64
  e_shstrndx :: u64

definition elf_check_magic :: "mem \<Rightarrow> u64 \<Rightarrow> int option" where
  "elf_check_magic m file = do { ok \<leftarrow> memcmp_eq m file ELFMAG; Some (if ok then 0 else - 1) }"

section \<open>32-bit files\<close>

definition sizeof_Elf32_Ehdr :: nat where "sizeof_Elf32_Ehdr = 52"
definition sizeof_Elf32_Phdr :: nat where "sizeof_Elf32_Phdr = 32"
definition sizeof_Elf32_Shdr :: nat where "sizeof_Elf32_Shdr = 40"

definition elf_isElf32 :: "elf_t \<Rightarrow> bool" where
  "elf_isElf32 f \<longleftrightarrow> elfClass f = ELFCLASS32"

definition elf32_getHeader :: "mem \<Rightarrow> elf_t \<Rightarrow> elf_ehdr option" where
  "elf32_getHeader m f = do {
     let a = elfFile f;
     ident \<leftarrow> load_bytes m a 16;
     type_v \<leftarrow> ld m (a + 16) 2;
     machine_v \<leftarrow> ld m (a + 18) 2;
     version_v \<leftarrow> ld m (a + 20) 4;
     entry_v \<leftarrow> ld m (a + 24) 4;
     phoff_v \<leftarrow> ld m (a + 28) 4;
     shoff_v \<leftarrow> ld m (a + 32) 4;
     flags_v \<leftarrow> ld m (a + 36) 4;
     ehsize_v \<leftarrow> ld m (a + 40) 2;
     phentsize_v \<leftarrow> ld m (a + 42) 2;
     phnum_v \<leftarrow> ld m (a + 44) 2;
     shentsize_v \<leftarrow> ld m (a + 46) 2;
     shnum_v \<leftarrow> ld m (a + 48) 2;
     shstrndx_v \<leftarrow> ld m (a + 50) 2;
     Some \<lparr>e_ident = ident, e_type = type_v, e_machine = machine_v, e_version = version_v, e_entry = entry_v, e_phoff = phoff_v, e_shoff = shoff_v, e_flags = flags_v, e_ehsize = ehsize_v, e_phentsize = phentsize_v, e_phnum = phnum_v, e_shentsize = shentsize_v, e_shnum = shnum_v, e_shstrndx = shstrndx_v\<rparr>
   }"

text \<open>
  The checks read the fields of the header where they are. The result is the status and the class that is stored on success.
\<close>

definition elf32_checkFile :: "mem \<Rightarrow> elf_t \<Rightarrow> (int \<times> elf_t) option" where
  "elf32_checkFile m f =
     (if elfSize f < of_nat sizeof_Elf32_Ehdr then Some (- 1, f)
      else do {
        magic \<leftarrow> elf_check_magic m (elfFile f);
        if magic < 0 then Some (- 1, f)
        else do {
          let header = elfFile f;
          cls \<leftarrow> ld m (header + EI_CLASS) 1;
          if cls \<noteq> ELFCLASS32 then Some (- 1, f)
          else do {
            phentsize \<leftarrow> ld m (header + 42) 2;
            if phentsize \<noteq> of_nat sizeof_Elf32_Phdr then Some (- 1, f)
            else do {
              shentsize \<leftarrow> ld m (header + 46) 2;
              if shentsize \<noteq> of_nat sizeof_Elf32_Shdr then Some (- 1, f)
              else do {
                shstrndx \<leftarrow> ld m (header + 50) 2;
                shnum \<leftarrow> ld m (header + 48) 2;
                if shstrndx \<ge> shnum then Some (- 1, f)
                else Some (0, f\<lparr>elfClass := cls\<rparr>)
              }
            }
          }
        }
      })"

text \<open>
  The product of two 16-bit fields is computed as an \<open>int\<close>, and its overflow is undefined; the sum is computed with 32 bits.
\<close>

definition int_mult :: "u64 \<Rightarrow> u64 \<Rightarrow> u64 option" where
  "int_mult a b = (if unat a * unat b < 2 ^ 31 then Some (a * b) else None)"

definition elf32_checkProgramHeaderTable :: "mem \<Rightarrow> elf_t \<Rightarrow> int option" where
  "elf32_checkProgramHeaderTable m f = do {
     let header = elfFile f;
     off \<leftarrow> ld m (header + 28) 4;
     entsize \<leftarrow> ld m (header + 42) 2;
     num \<leftarrow> ld m (header + 44) 2;
     tab \<leftarrow> int_mult entsize num;
     let tab_end = (off + tab) AND 0xFFFFFFFF;
     if elfSize f < tab_end \<or> tab_end < off then Some (- 1) else Some 0
   }"

definition elf32_checkSectionTable :: "mem \<Rightarrow> elf_t \<Rightarrow> int option" where
  "elf32_checkSectionTable m f = do {
     let header = elfFile f;
     off \<leftarrow> ld m (header + 32) 4;
     entsize \<leftarrow> ld m (header + 46) 2;
     num \<leftarrow> ld m (header + 48) 2;
     tab \<leftarrow> int_mult entsize num;
     let tab_end = (off + tab) AND 0xFFFFFFFF;
     if elfSize f < tab_end \<or> tab_end < off then Some (- 1) else Some 0
   }"

definition elf32_getEntryPoint :: "mem \<Rightarrow> elf_t \<Rightarrow> u64 option" where
  "elf32_getEntryPoint m f = do { h \<leftarrow> elf32_getHeader m f; Some (e_entry h) }"

definition elf32_getNumProgramHeaders :: "mem \<Rightarrow> elf_t \<Rightarrow> u64 option" where
  "elf32_getNumProgramHeaders m f = do { h \<leftarrow> elf32_getHeader m f; Some (e_phnum h) }"

definition elf32_getNumSections :: "mem \<Rightarrow> elf_t \<Rightarrow> u64 option" where
  "elf32_getNumSections m f = do { h \<leftarrow> elf32_getHeader m f; Some (e_shnum h) }"

definition elf32_getSectionStringTableIndex :: "mem \<Rightarrow> elf_t \<Rightarrow> u64 option" where
  "elf32_getSectionStringTableIndex m f = do { h \<leftarrow> elf32_getHeader m f; Some (e_shstrndx h) }"

definition elf32_getProgramHeaderTable :: "mem \<Rightarrow> elf_t \<Rightarrow> u64 option" where
  "elf32_getProgramHeaderTable m f = do { h \<leftarrow> elf32_getHeader m f; Some (elfFile f + e_phoff h) }"

definition elf32_getSectionTable :: "mem \<Rightarrow> elf_t \<Rightarrow> u64 option" where
  "elf32_getSectionTable m f = do { h \<leftarrow> elf32_getHeader m f; Some (elfFile f + e_shoff h) }"

definition elf32_getSectionNameOffset :: "mem \<Rightarrow> elf_t \<Rightarrow> u64 \<Rightarrow> u64 option" where
  "elf32_getSectionNameOffset m f i = do { t \<leftarrow> elf32_getSectionTable m f; ld m (t + i * of_nat sizeof_Elf32_Shdr + 0) 4 }"

definition elf32_getSectionType :: "mem \<Rightarrow> elf_t \<Rightarrow> u64 \<Rightarrow> u64 option" where
  "elf32_getSectionType m f i = do { t \<leftarrow> elf32_getSectionTable m f; ld m (t + i * of_nat sizeof_Elf32_Shdr + 4) 4 }"

definition elf32_getSectionFlags :: "mem \<Rightarrow> elf_t \<Rightarrow> u64 \<Rightarrow> u64 option" where
  "elf32_getSectionFlags m f i = do { t \<leftarrow> elf32_getSectionTable m f; ld m (t + i * of_nat sizeof_Elf32_Shdr + 8) 4 }"

definition elf32_getSectionAddr :: "mem \<Rightarrow> elf_t \<Rightarrow> u64 \<Rightarrow> u64 option" where
  "elf32_getSectionAddr m f i = do { t \<leftarrow> elf32_getSectionTable m f; ld m (t + i * of_nat sizeof_Elf32_Shdr + 12) 4 }"

definition elf32_getSectionOffset :: "mem \<Rightarrow> elf_t \<Rightarrow> u64 \<Rightarrow> u64 option" where
  "elf32_getSectionOffset m f i = do { t \<leftarrow> elf32_getSectionTable m f; ld m (t + i * of_nat sizeof_Elf32_Shdr + 16) 4 }"

definition elf32_getSectionSize :: "mem \<Rightarrow> elf_t \<Rightarrow> u64 \<Rightarrow> u64 option" where
  "elf32_getSectionSize m f i = do { t \<leftarrow> elf32_getSectionTable m f; ld m (t + i * of_nat sizeof_Elf32_Shdr + 20) 4 }"

definition elf32_getSectionLink :: "mem \<Rightarrow> elf_t \<Rightarrow> u64 \<Rightarrow> u64 option" where
  "elf32_getSectionLink m f i = do { t \<leftarrow> elf32_getSectionTable m f; ld m (t + i * of_nat sizeof_Elf32_Shdr + 24) 4 }"

definition elf32_getSectionInfo :: "mem \<Rightarrow> elf_t \<Rightarrow> u64 \<Rightarrow> u64 option" where
  "elf32_getSectionInfo m f i = do { t \<leftarrow> elf32_getSectionTable m f; ld m (t + i * of_nat sizeof_Elf32_Shdr + 28) 4 }"

definition elf32_getSectionAddrAlign :: "mem \<Rightarrow> elf_t \<Rightarrow> u64 \<Rightarrow> u64 option" where
  "elf32_getSectionAddrAlign m f i = do { t \<leftarrow> elf32_getSectionTable m f; ld m (t + i * of_nat sizeof_Elf32_Shdr + 32) 4 }"

definition elf32_getSectionEntrySize :: "mem \<Rightarrow> elf_t \<Rightarrow> u64 \<Rightarrow> u64 option" where
  "elf32_getSectionEntrySize m f i = do { t \<leftarrow> elf32_getSectionTable m f; ld m (t + i * of_nat sizeof_Elf32_Shdr + 36) 4 }"

definition elf32_getProgramHeaderType :: "mem \<Rightarrow> elf_t \<Rightarrow> u64 \<Rightarrow> u64 option" where
  "elf32_getProgramHeaderType m f ph = do { t \<leftarrow> elf32_getProgramHeaderTable m f; ld m (t + ph * of_nat sizeof_Elf32_Phdr + 0) 4 }"

definition elf32_getProgramHeaderOffset :: "mem \<Rightarrow> elf_t \<Rightarrow> u64 \<Rightarrow> u64 option" where
  "elf32_getProgramHeaderOffset m f ph = do { t \<leftarrow> elf32_getProgramHeaderTable m f; ld m (t + ph * of_nat sizeof_Elf32_Phdr + 4) 4 }"

definition elf32_getProgramHeaderVaddr :: "mem \<Rightarrow> elf_t \<Rightarrow> u64 \<Rightarrow> u64 option" where
  "elf32_getProgramHeaderVaddr m f ph = do { t \<leftarrow> elf32_getProgramHeaderTable m f; ld m (t + ph * of_nat sizeof_Elf32_Phdr + 8) 4 }"

definition elf32_getProgramHeaderPaddr :: "mem \<Rightarrow> elf_t \<Rightarrow> u64 \<Rightarrow> u64 option" where
  "elf32_getProgramHeaderPaddr m f ph = do { t \<leftarrow> elf32_getProgramHeaderTable m f; ld m (t + ph * of_nat sizeof_Elf32_Phdr + 12) 4 }"

definition elf32_getProgramHeaderFileSize :: "mem \<Rightarrow> elf_t \<Rightarrow> u64 \<Rightarrow> u64 option" where
  "elf32_getProgramHeaderFileSize m f ph = do { t \<leftarrow> elf32_getProgramHeaderTable m f; ld m (t + ph * of_nat sizeof_Elf32_Phdr + 16) 4 }"

definition elf32_getProgramHeaderMemorySize :: "mem \<Rightarrow> elf_t \<Rightarrow> u64 \<Rightarrow> u64 option" where
  "elf32_getProgramHeaderMemorySize m f ph = do { t \<leftarrow> elf32_getProgramHeaderTable m f; ld m (t + ph * of_nat sizeof_Elf32_Phdr + 20) 4 }"

definition elf32_getProgramHeaderFlags :: "mem \<Rightarrow> elf_t \<Rightarrow> u64 \<Rightarrow> u64 option" where
  "elf32_getProgramHeaderFlags m f ph = do { t \<leftarrow> elf32_getProgramHeaderTable m f; ld m (t + ph * of_nat sizeof_Elf32_Phdr + 24) 4 }"

definition elf32_getProgramHeaderAlign :: "mem \<Rightarrow> elf_t \<Rightarrow> u64 \<Rightarrow> u64 option" where
  "elf32_getProgramHeaderAlign m f ph = do { t \<leftarrow> elf32_getProgramHeaderTable m f; ld m (t + ph * of_nat sizeof_Elf32_Phdr + 28) 4 }"

section \<open>64-bit files\<close>

definition sizeof_Elf64_Ehdr :: nat where "sizeof_Elf64_Ehdr = 64"
definition sizeof_Elf64_Phdr :: nat where "sizeof_Elf64_Phdr = 56"
definition sizeof_Elf64_Shdr :: nat where "sizeof_Elf64_Shdr = 64"

definition elf_isElf64 :: "elf_t \<Rightarrow> bool" where
  "elf_isElf64 f \<longleftrightarrow> elfClass f = ELFCLASS64"

definition elf64_getHeader :: "mem \<Rightarrow> elf_t \<Rightarrow> elf_ehdr option" where
  "elf64_getHeader m f = do {
     let a = elfFile f;
     ident \<leftarrow> load_bytes m a 16;
     type_v \<leftarrow> ld m (a + 16) 2;
     machine_v \<leftarrow> ld m (a + 18) 2;
     version_v \<leftarrow> ld m (a + 20) 4;
     entry_v \<leftarrow> ld m (a + 24) 8;
     phoff_v \<leftarrow> ld m (a + 32) 8;
     shoff_v \<leftarrow> ld m (a + 40) 8;
     flags_v \<leftarrow> ld m (a + 48) 4;
     ehsize_v \<leftarrow> ld m (a + 52) 2;
     phentsize_v \<leftarrow> ld m (a + 54) 2;
     phnum_v \<leftarrow> ld m (a + 56) 2;
     shentsize_v \<leftarrow> ld m (a + 58) 2;
     shnum_v \<leftarrow> ld m (a + 60) 2;
     shstrndx_v \<leftarrow> ld m (a + 62) 2;
     Some \<lparr>e_ident = ident, e_type = type_v, e_machine = machine_v, e_version = version_v, e_entry = entry_v, e_phoff = phoff_v, e_shoff = shoff_v, e_flags = flags_v, e_ehsize = ehsize_v, e_phentsize = phentsize_v, e_phnum = phnum_v, e_shentsize = shentsize_v, e_shnum = shnum_v, e_shstrndx = shstrndx_v\<rparr>
   }"

text \<open>
  The checks read the fields of the header where they are. The test for the width of pointers always passes on this architecture. The result is the status and the class that is stored on success.
\<close>

definition elf64_checkFile :: "mem \<Rightarrow> elf_t \<Rightarrow> (int \<times> elf_t) option" where
  "elf64_checkFile m f =
     (if elfSize f < of_nat sizeof_Elf64_Ehdr then Some (- 1, f)
      else do {
        magic \<leftarrow> elf_check_magic m (elfFile f);
        if magic < 0 then Some (- 1, f)
        else do {
          let header = elfFile f;
          cls \<leftarrow> ld m (header + EI_CLASS) 1;
          if cls \<noteq> ELFCLASS64 then Some (- 1, f)
          else do {
            phentsize \<leftarrow> ld m (header + 54) 2;
            if phentsize \<noteq> of_nat sizeof_Elf64_Phdr then Some (- 1, f)
            else do {
              shentsize \<leftarrow> ld m (header + 58) 2;
              if shentsize \<noteq> of_nat sizeof_Elf64_Shdr then Some (- 1, f)
              else do {
                shstrndx \<leftarrow> ld m (header + 62) 2;
                shnum \<leftarrow> ld m (header + 60) 2;
                if shstrndx \<ge> shnum then Some (- 1, f)
                else Some (0, f\<lparr>elfClass := cls\<rparr>)
              }
            }
          }
        }
      })"

definition elf64_checkProgramHeaderTable :: "mem \<Rightarrow> elf_t \<Rightarrow> int option" where
  "elf64_checkProgramHeaderTable m f = do {
     let header = elfFile f;
     off \<leftarrow> ld m (header + 32) 8;
     entsize \<leftarrow> ld m (header + 54) 2;
     num \<leftarrow> ld m (header + 56) 2;
     tab \<leftarrow> int_mult entsize num;
     let tab_end = off + tab;
     if elfSize f < tab_end \<or> tab_end < off then Some (- 1) else Some 0
   }"

definition elf64_checkSectionTable :: "mem \<Rightarrow> elf_t \<Rightarrow> int option" where
  "elf64_checkSectionTable m f = do {
     let header = elfFile f;
     off \<leftarrow> ld m (header + 40) 8;
     entsize \<leftarrow> ld m (header + 58) 2;
     num \<leftarrow> ld m (header + 60) 2;
     tab \<leftarrow> int_mult entsize num;
     let tab_end = off + tab;
     if elfSize f < tab_end \<or> tab_end < off then Some (- 1) else Some 0
   }"

definition elf64_getEntryPoint :: "mem \<Rightarrow> elf_t \<Rightarrow> u64 option" where
  "elf64_getEntryPoint m f = do { h \<leftarrow> elf64_getHeader m f; Some (e_entry h) }"

definition elf64_getNumProgramHeaders :: "mem \<Rightarrow> elf_t \<Rightarrow> u64 option" where
  "elf64_getNumProgramHeaders m f = do { h \<leftarrow> elf64_getHeader m f; Some (e_phnum h) }"

definition elf64_getNumSections :: "mem \<Rightarrow> elf_t \<Rightarrow> u64 option" where
  "elf64_getNumSections m f = do { h \<leftarrow> elf64_getHeader m f; Some (e_shnum h) }"

definition elf64_getSectionStringTableIndex :: "mem \<Rightarrow> elf_t \<Rightarrow> u64 option" where
  "elf64_getSectionStringTableIndex m f = do { h \<leftarrow> elf64_getHeader m f; Some (e_shstrndx h) }"

definition elf64_getProgramHeaderTable :: "mem \<Rightarrow> elf_t \<Rightarrow> u64 option" where
  "elf64_getProgramHeaderTable m f = do { h \<leftarrow> elf64_getHeader m f; Some (elfFile f + e_phoff h) }"

definition elf64_getSectionTable :: "mem \<Rightarrow> elf_t \<Rightarrow> u64 option" where
  "elf64_getSectionTable m f = do { h \<leftarrow> elf64_getHeader m f; Some (elfFile f + e_shoff h) }"

definition elf64_getSectionNameOffset :: "mem \<Rightarrow> elf_t \<Rightarrow> u64 \<Rightarrow> u64 option" where
  "elf64_getSectionNameOffset m f i = do { t \<leftarrow> elf64_getSectionTable m f; ld m (t + i * of_nat sizeof_Elf64_Shdr + 0) 4 }"

definition elf64_getSectionType :: "mem \<Rightarrow> elf_t \<Rightarrow> u64 \<Rightarrow> u64 option" where
  "elf64_getSectionType m f i = do { t \<leftarrow> elf64_getSectionTable m f; ld m (t + i * of_nat sizeof_Elf64_Shdr + 4) 4 }"

definition elf64_getSectionFlags :: "mem \<Rightarrow> elf_t \<Rightarrow> u64 \<Rightarrow> u64 option" where
  "elf64_getSectionFlags m f i = do { t \<leftarrow> elf64_getSectionTable m f; ld m (t + i * of_nat sizeof_Elf64_Shdr + 8) 8 }"

definition elf64_getSectionAddr :: "mem \<Rightarrow> elf_t \<Rightarrow> u64 \<Rightarrow> u64 option" where
  "elf64_getSectionAddr m f i = do { t \<leftarrow> elf64_getSectionTable m f; ld m (t + i * of_nat sizeof_Elf64_Shdr + 16) 8 }"

definition elf64_getSectionOffset :: "mem \<Rightarrow> elf_t \<Rightarrow> u64 \<Rightarrow> u64 option" where
  "elf64_getSectionOffset m f i = do { t \<leftarrow> elf64_getSectionTable m f; ld m (t + i * of_nat sizeof_Elf64_Shdr + 24) 8 }"

definition elf64_getSectionSize :: "mem \<Rightarrow> elf_t \<Rightarrow> u64 \<Rightarrow> u64 option" where
  "elf64_getSectionSize m f i = do { t \<leftarrow> elf64_getSectionTable m f; ld m (t + i * of_nat sizeof_Elf64_Shdr + 32) 8 }"

definition elf64_getSectionLink :: "mem \<Rightarrow> elf_t \<Rightarrow> u64 \<Rightarrow> u64 option" where
  "elf64_getSectionLink m f i = do { t \<leftarrow> elf64_getSectionTable m f; ld m (t + i * of_nat sizeof_Elf64_Shdr + 40) 4 }"

definition elf64_getSectionInfo :: "mem \<Rightarrow> elf_t \<Rightarrow> u64 \<Rightarrow> u64 option" where
  "elf64_getSectionInfo m f i = do { t \<leftarrow> elf64_getSectionTable m f; ld m (t + i * of_nat sizeof_Elf64_Shdr + 44) 4 }"

definition elf64_getSectionAddrAlign :: "mem \<Rightarrow> elf_t \<Rightarrow> u64 \<Rightarrow> u64 option" where
  "elf64_getSectionAddrAlign m f i = do { t \<leftarrow> elf64_getSectionTable m f; ld m (t + i * of_nat sizeof_Elf64_Shdr + 48) 8 }"

definition elf64_getSectionEntrySize :: "mem \<Rightarrow> elf_t \<Rightarrow> u64 \<Rightarrow> u64 option" where
  "elf64_getSectionEntrySize m f i = do { t \<leftarrow> elf64_getSectionTable m f; ld m (t + i * of_nat sizeof_Elf64_Shdr + 56) 8 }"

definition elf64_getProgramHeaderType :: "mem \<Rightarrow> elf_t \<Rightarrow> u64 \<Rightarrow> u64 option" where
  "elf64_getProgramHeaderType m f ph = do { t \<leftarrow> elf64_getProgramHeaderTable m f; ld m (t + ph * of_nat sizeof_Elf64_Phdr + 0) 4 }"

definition elf64_getProgramHeaderOffset :: "mem \<Rightarrow> elf_t \<Rightarrow> u64 \<Rightarrow> u64 option" where
  "elf64_getProgramHeaderOffset m f ph = do { t \<leftarrow> elf64_getProgramHeaderTable m f; ld m (t + ph * of_nat sizeof_Elf64_Phdr + 8) 8 }"

definition elf64_getProgramHeaderVaddr :: "mem \<Rightarrow> elf_t \<Rightarrow> u64 \<Rightarrow> u64 option" where
  "elf64_getProgramHeaderVaddr m f ph = do { t \<leftarrow> elf64_getProgramHeaderTable m f; ld m (t + ph * of_nat sizeof_Elf64_Phdr + 16) 8 }"

definition elf64_getProgramHeaderPaddr :: "mem \<Rightarrow> elf_t \<Rightarrow> u64 \<Rightarrow> u64 option" where
  "elf64_getProgramHeaderPaddr m f ph = do { t \<leftarrow> elf64_getProgramHeaderTable m f; ld m (t + ph * of_nat sizeof_Elf64_Phdr + 24) 8 }"

definition elf64_getProgramHeaderFileSize :: "mem \<Rightarrow> elf_t \<Rightarrow> u64 \<Rightarrow> u64 option" where
  "elf64_getProgramHeaderFileSize m f ph = do { t \<leftarrow> elf64_getProgramHeaderTable m f; ld m (t + ph * of_nat sizeof_Elf64_Phdr + 32) 8 }"

definition elf64_getProgramHeaderMemorySize :: "mem \<Rightarrow> elf_t \<Rightarrow> u64 \<Rightarrow> u64 option" where
  "elf64_getProgramHeaderMemorySize m f ph = do { t \<leftarrow> elf64_getProgramHeaderTable m f; ld m (t + ph * of_nat sizeof_Elf64_Phdr + 40) 8 }"

definition elf64_getProgramHeaderFlags :: "mem \<Rightarrow> elf_t \<Rightarrow> u64 \<Rightarrow> u64 option" where
  "elf64_getProgramHeaderFlags m f ph = do { t \<leftarrow> elf64_getProgramHeaderTable m f; ld m (t + ph * of_nat sizeof_Elf64_Phdr + 4) 4 }"

definition elf64_getProgramHeaderAlign :: "mem \<Rightarrow> elf_t \<Rightarrow> u64 \<Rightarrow> u64 option" where
  "elf64_getProgramHeaderAlign m f ph = do { t \<leftarrow> elf64_getProgramHeaderTable m f; ld m (t + ph * of_nat sizeof_Elf64_Phdr + 48) 8 }"

section \<open>Files of either class\<close>

definition elf_checkFile :: "mem \<Rightarrow> elf_t \<Rightarrow> (int \<times> elf_t) option" where
  "elf_checkFile m f = do {
     (res, f) \<leftarrow> elf32_checkFile m f;
     if res = 0 then Some (0, f)
     else do {
       (res, f) \<leftarrow> elf64_checkFile m f;
       if res = 0 then Some (0, f) else Some (- 1, f)
     }
   }"

definition elf_checkProgramHeaderTable :: "mem \<Rightarrow> elf_t \<Rightarrow> int option" where
  "elf_checkProgramHeaderTable m f =
     (if elf_isElf32 f then elf32_checkProgramHeaderTable m f else elf64_checkProgramHeaderTable m f)"

definition elf_checkSectionTable :: "mem \<Rightarrow> elf_t \<Rightarrow> int option" where
  "elf_checkSectionTable m f =
     (if elf_isElf32 f then elf32_checkSectionTable m f else elf64_checkSectionTable m f)"

text \<open>The file that is stored at \<open>res\<close>, when the checks pass, is the second component of the result.\<close>

definition elf_newFile_maybe_unsafe :: "mem \<Rightarrow> u64 \<Rightarrow> u64 \<Rightarrow> bool \<Rightarrow> bool \<Rightarrow> (int \<times> elf_t option) option" where
  "elf_newFile_maybe_unsafe m file size_b check_pht check_st = do {
     let f = \<lparr>elfFile = file, elfSize = size_b, elfClass = 0\<rparr>;
     (status, f) \<leftarrow> elf_checkFile m f;
     if status < 0 then Some (status, None)
     else do {
       status \<leftarrow> (if check_pht then elf_checkProgramHeaderTable m f else Some status);
       if status < 0 then Some (status, None)
       else do {
         status \<leftarrow> (if check_st then elf_checkSectionTable m f else Some status);
         if status < 0 then Some (status, None) else Some (status, Some f)
       }
     }
   }"

definition elf_newFile :: "mem \<Rightarrow> u64 \<Rightarrow> u64 \<Rightarrow> (int \<times> elf_t option) option" where
  "elf_newFile m file size_b = elf_newFile_maybe_unsafe m file size_b True True"

definition elf_getEntryPoint :: "mem \<Rightarrow> elf_t \<Rightarrow> u64 option" where
  "elf_getEntryPoint m f = (if elf_isElf32 f then elf32_getEntryPoint m f else elf64_getEntryPoint m f)"

definition elf_getNumProgramHeaders :: "mem \<Rightarrow> elf_t \<Rightarrow> u64 option" where
  "elf_getNumProgramHeaders m f = (if elf_isElf32 f then elf32_getNumProgramHeaders m f else elf64_getNumProgramHeaders m f)"

definition elf_getNumSections :: "mem \<Rightarrow> elf_t \<Rightarrow> u64 option" where
  "elf_getNumSections m f = (if elf_isElf32 f then elf32_getNumSections m f else elf64_getNumSections m f)"

definition elf_getSectionStringTableIndex :: "mem \<Rightarrow> elf_t \<Rightarrow> u64 option" where
  "elf_getSectionStringTableIndex m f = (if elf_isElf32 f then elf32_getSectionStringTableIndex m f else elf64_getSectionStringTableIndex m f)"

definition elf_getSectionNameOffset :: "mem \<Rightarrow> elf_t \<Rightarrow> u64 \<Rightarrow> u64 option" where
  "elf_getSectionNameOffset m f i = (if elf_isElf32 f then elf32_getSectionNameOffset m f i else elf64_getSectionNameOffset m f i)"

definition elf_getSectionType :: "mem \<Rightarrow> elf_t \<Rightarrow> u64 \<Rightarrow> u64 option" where
  "elf_getSectionType m f i = (if elf_isElf32 f then elf32_getSectionType m f i else elf64_getSectionType m f i)"

definition elf_getSectionFlags :: "mem \<Rightarrow> elf_t \<Rightarrow> u64 \<Rightarrow> u64 option" where
  "elf_getSectionFlags m f i = (if elf_isElf32 f then elf32_getSectionFlags m f i else elf64_getSectionFlags m f i)"

definition elf_getSectionAddr :: "mem \<Rightarrow> elf_t \<Rightarrow> u64 \<Rightarrow> u64 option" where
  "elf_getSectionAddr m f i = (if elf_isElf32 f then elf32_getSectionAddr m f i else elf64_getSectionAddr m f i)"

definition elf_getSectionOffset :: "mem \<Rightarrow> elf_t \<Rightarrow> u64 \<Rightarrow> u64 option" where
  "elf_getSectionOffset m f i = (if elf_isElf32 f then elf32_getSectionOffset m f i else elf64_getSectionOffset m f i)"

definition elf_getSectionSize :: "mem \<Rightarrow> elf_t \<Rightarrow> u64 \<Rightarrow> u64 option" where
  "elf_getSectionSize m f i = (if elf_isElf32 f then elf32_getSectionSize m f i else elf64_getSectionSize m f i)"

definition elf_getSectionLink :: "mem \<Rightarrow> elf_t \<Rightarrow> u64 \<Rightarrow> u64 option" where
  "elf_getSectionLink m f i = (if elf_isElf32 f then elf32_getSectionLink m f i else elf64_getSectionLink m f i)"

definition elf_getSectionInfo :: "mem \<Rightarrow> elf_t \<Rightarrow> u64 \<Rightarrow> u64 option" where
  "elf_getSectionInfo m f i = (if elf_isElf32 f then elf32_getSectionInfo m f i else elf64_getSectionInfo m f i)"

definition elf_getSectionAddrAlign :: "mem \<Rightarrow> elf_t \<Rightarrow> u64 \<Rightarrow> u64 option" where
  "elf_getSectionAddrAlign m f i = (if elf_isElf32 f then elf32_getSectionAddrAlign m f i else elf64_getSectionAddrAlign m f i)"

definition elf_getSectionEntrySize :: "mem \<Rightarrow> elf_t \<Rightarrow> u64 \<Rightarrow> u64 option" where
  "elf_getSectionEntrySize m f i = (if elf_isElf32 f then elf32_getSectionEntrySize m f i else elf64_getSectionEntrySize m f i)"

definition elf_getProgramHeaderType :: "mem \<Rightarrow> elf_t \<Rightarrow> u64 \<Rightarrow> u64 option" where
  "elf_getProgramHeaderType m f ph = (if elf_isElf32 f then elf32_getProgramHeaderType m f ph else elf64_getProgramHeaderType m f ph)"

definition elf_getProgramHeaderOffset :: "mem \<Rightarrow> elf_t \<Rightarrow> u64 \<Rightarrow> u64 option" where
  "elf_getProgramHeaderOffset m f ph = (if elf_isElf32 f then elf32_getProgramHeaderOffset m f ph else elf64_getProgramHeaderOffset m f ph)"

definition elf_getProgramHeaderVaddr :: "mem \<Rightarrow> elf_t \<Rightarrow> u64 \<Rightarrow> u64 option" where
  "elf_getProgramHeaderVaddr m f ph = (if elf_isElf32 f then elf32_getProgramHeaderVaddr m f ph else elf64_getProgramHeaderVaddr m f ph)"

definition elf_getProgramHeaderPaddr :: "mem \<Rightarrow> elf_t \<Rightarrow> u64 \<Rightarrow> u64 option" where
  "elf_getProgramHeaderPaddr m f ph = (if elf_isElf32 f then elf32_getProgramHeaderPaddr m f ph else elf64_getProgramHeaderPaddr m f ph)"

definition elf_getProgramHeaderFileSize :: "mem \<Rightarrow> elf_t \<Rightarrow> u64 \<Rightarrow> u64 option" where
  "elf_getProgramHeaderFileSize m f ph = (if elf_isElf32 f then elf32_getProgramHeaderFileSize m f ph else elf64_getProgramHeaderFileSize m f ph)"

definition elf_getProgramHeaderMemorySize :: "mem \<Rightarrow> elf_t \<Rightarrow> u64 \<Rightarrow> u64 option" where
  "elf_getProgramHeaderMemorySize m f ph = (if elf_isElf32 f then elf32_getProgramHeaderMemorySize m f ph else elf64_getProgramHeaderMemorySize m f ph)"

definition elf_getProgramHeaderFlags :: "mem \<Rightarrow> elf_t \<Rightarrow> u64 \<Rightarrow> u64 option" where
  "elf_getProgramHeaderFlags m f ph = (if elf_isElf32 f then elf32_getProgramHeaderFlags m f ph else elf64_getProgramHeaderFlags m f ph)"

definition elf_getProgramHeaderAlign :: "mem \<Rightarrow> elf_t \<Rightarrow> u64 \<Rightarrow> u64 option" where
  "elf_getProgramHeaderAlign m f ph = (if elf_isElf32 f then elf32_getProgramHeaderAlign m f ph else elf64_getProgramHeaderAlign m f ph)"

section \<open>Sections and segments\<close>

definition elf_getSection :: "mem \<Rightarrow> elf_t \<Rightarrow> u64 \<Rightarrow> u64 option" where
  "elf_getSection m f i = do {
     num \<leftarrow> elf_getNumSections m f;
     if i = 0 \<or> i \<ge> num then Some 0
     else do {
       section_offset \<leftarrow> elf_getSectionOffset m f i;
       section_size \<leftarrow> elf_getSectionSize m f i;
       if section_size = 0 then Some 0
       else do {
         let section_end = section_offset + section_size;
         if section_end > elfSize f \<or> section_end < section_offset then Some 0
         else Some (elfFile f + section_offset)
       }
     }
   }"

definition elf_getStringTable :: "mem \<Rightarrow> elf_t \<Rightarrow> u64 \<Rightarrow> u64 option" where
  "elf_getStringTable m f string_segment = do {
     string_table \<leftarrow> elf_getSection m f string_segment;
     if string_table = 0 then Some 0
     else do {
       type \<leftarrow> elf_getSectionType m f string_segment;
       if type \<noteq> SHT_STRTAB then Some 0
       else do {
         size_b \<leftarrow> elf_getSectionSize m f string_segment;
         last_b \<leftarrow> m (string_table + (size_b - 1));
         if last_b \<noteq> 0 then Some 0 else Some string_table
       }
     }
   }"

definition elf_getSectionStringTable :: "mem \<Rightarrow> elf_t \<Rightarrow> u64 option" where
  "elf_getSectionStringTable m f = do {
     index \<leftarrow> elf_getSectionStringTableIndex m f;
     elf_getStringTable m f index
   }"

text \<open>A string is an address, or the literal that \<open>elf_getSectionName\<close> returns for a corrupted table.\<close>

datatype c_string = Ptr u64 | Literal "byte list"

definition corrupted_name :: "byte list" where
  "corrupted_name = [0x3c, 0x63, 0x6f, 0x72, 0x72, 0x75, 0x70, 0x74, 0x65, 0x64, 0x3e]"

definition elf_getSectionName :: "mem \<Rightarrow> elf_t \<Rightarrow> u64 \<Rightarrow> c_string option" where
  "elf_getSectionName m f i = do {
     str_table_idx \<leftarrow> elf_getSectionStringTableIndex m f;
     str_table \<leftarrow> elf_getStringTable m f str_table_idx;
     offset \<leftarrow> elf_getSectionNameOffset m f i;
     size_b \<leftarrow> elf_getSectionSize m f str_table_idx;
     if str_table = 0 \<or> offset > size_b then Some (Literal corrupted_name)
     else Some (Ptr (str_table + offset))
   }"

text \<open>\<open>strcmp(str, name) == 0\<close>, for a string \<open>str\<close> given by its characters.\<close>

fun strcmp_at :: "mem \<Rightarrow> byte list \<Rightarrow> u64 \<Rightarrow> bool option" where
  "strcmp_at m [] a = do { b \<leftarrow> m a; Some (b = 0) }"
| "strcmp_at m (c # cs) a = do { b \<leftarrow> m a; if b = c then strcmp_at m cs (a + 1) else Some False }"

fun strcmp_eq :: "mem \<Rightarrow> byte list \<Rightarrow> c_string \<Rightarrow> bool option" where
  "strcmp_eq m str (Ptr a) = strcmp_at m str a"
| "strcmp_eq m str (Literal s) = Some (str = s)"

text \<open>The loop over the sections; the result is the address and the index that is stored at \<open>id\<close>.\<close>

function section_named_from :: "mem \<Rightarrow> elf_t \<Rightarrow> byte list \<Rightarrow> nat \<Rightarrow> nat \<Rightarrow> (u64 \<times> nat option) option" where
  "section_named_from m f str num i =
     (if i < num then do {
        name \<leftarrow> elf_getSectionName m f (of_nat i);
        found \<leftarrow> strcmp_eq m str name;
        if found then do { s \<leftarrow> elf_getSection m f (of_nat i); Some (s, Some i) }
        else section_named_from m f str num (Suc i)
      } else Some (0, None))"
  by pat_completeness auto
termination
  by (relation "measure (\<lambda>(m, f, str, num, i). num - i)") auto

definition elf_getSectionNamed :: "mem \<Rightarrow> elf_t \<Rightarrow> byte list \<Rightarrow> (u64 \<times> nat option) option" where
  "elf_getSectionNamed m f str = do {
     num \<leftarrow> elf_getNumSections m f;
     section_named_from m f str (unat num) 0
   }"

definition elf_getProgramSegment :: "mem \<Rightarrow> elf_t \<Rightarrow> u64 \<Rightarrow> u64 option" where
  "elf_getProgramSegment m f ph = do {
     offset \<leftarrow> elf_getProgramHeaderOffset m f ph;
     file_size \<leftarrow> elf_getProgramHeaderFileSize m f ph;
     let segment_end = offset + file_size;
     if elfSize f < segment_end \<or> segment_end < offset then Some 0
     else Some (elfFile f + offset)
   }"

section \<open>Utilities\<close>

definition elf_getHeaderAddr :: "elf_addr_type_t \<Rightarrow> mem \<Rightarrow> elf_t \<Rightarrow> u64 \<Rightarrow> u64 option" where
  "elf_getHeaderAddr addr_type m f i =
     (if addr_type = PHYSICAL then elf_getProgramHeaderPaddr m f i else elf_getProgramHeaderVaddr m f i)"

text \<open>One round of the loop of \<open>elf_getMemoryBounds\<close> on \<open>(mem_min, mem_max)\<close>.\<close>

definition memory_bounds_step :: "elf_addr_type_t \<Rightarrow> mem \<Rightarrow> elf_t \<Rightarrow> nat \<Rightarrow> u64 \<times> u64 \<Rightarrow> (u64 \<times> u64) option" where
  "memory_bounds_step addr_type m f i = (\<lambda>(mem_min, mem_max). do {
     memsz \<leftarrow> elf_getProgramHeaderMemorySize m f (of_nat i);
     if memsz = 0 then Some (mem_min, mem_max)
     else do {
       sect_min \<leftarrow> elf_getHeaderAddr addr_type m f (of_nat i);
       let sect_max = sect_min + memsz;
       Some (if sect_min < mem_min then sect_min else mem_min, if sect_max > mem_max then sect_max else mem_max)
     }
   })"

definition elf_getMemoryBounds :: "mem \<Rightarrow> elf_t \<Rightarrow> elf_addr_type_t \<Rightarrow> (int \<times> u64 \<times> u64) option" where
  "elf_getMemoryBounds m f addr_type = do {
     num \<leftarrow> elf_getNumProgramHeaders m f;
     bounds \<leftarrow> for_each (memory_bounds_step addr_type m f) [0..<unat num] (- 1, 0);
     Some (1, bounds)
   }"

definition elf_vaddrInProgramHeader :: "mem \<Rightarrow> elf_t \<Rightarrow> u64 \<Rightarrow> u64 \<Rightarrow> int option" where
  "elf_vaddrInProgramHeader m f ph vaddr = do {
     lo \<leftarrow> elf_getProgramHeaderVaddr m f ph;
     memsz \<leftarrow> elf_getProgramHeaderMemorySize m f ph;
     let hi = lo + memsz;
     Some (if vaddr \<ge> lo \<and> vaddr < hi then 1 else 0)
   }"

definition elf_vtopProgramHeader :: "mem \<Rightarrow> elf_t \<Rightarrow> u64 \<Rightarrow> u64 \<Rightarrow> u64 option" where
  "elf_vtopProgramHeader m f ph vaddr = do {
     ph_phys \<leftarrow> elf_getProgramHeaderPaddr m f ph;
     ph_virt \<leftarrow> elf_getProgramHeaderVaddr m f ph;
     Some (vaddr - ph_virt + ph_phys)
   }"

text \<open>One round of the loop of \<open>elf_loadFile\<close>: the content of the file, then zeros.\<close>

definition load_one_segment :: "elf_addr_type_t \<Rightarrow> elf_t \<Rightarrow> nat \<Rightarrow> mem \<Rightarrow> mem option" where
  "load_one_segment addr_type f i m = do {
     dest \<leftarrow> elf_getHeaderAddr addr_type m f (of_nat i);
     len \<leftarrow> elf_getProgramHeaderFileSize m f (of_nat i);
     offset \<leftarrow> elf_getProgramHeaderOffset m f (of_nat i);
     let src = elfFile f + offset;
     m \<leftarrow> memcpy dest src (unat len) m;
     let dest = dest + len;
     memsz \<leftarrow> elf_getProgramHeaderMemorySize m f (of_nat i);
     memset dest 0 (unat (memsz - len)) m
   }"

text \<open>The number of program headers is read again in every round, as the code does; a segment may overwrite the header.\<close>

partial_function (option) elf_load_from :: "elf_addr_type_t \<Rightarrow> elf_t \<Rightarrow> nat \<Rightarrow> mem \<Rightarrow> mem option" where
  "elf_load_from addr_type f i m = do {
     num \<leftarrow> elf_getNumProgramHeaders m f;
     if i < unat num then do {
       m \<leftarrow> load_one_segment addr_type f i m;
       elf_load_from addr_type f (Suc i) m
     } else Some m
   }"

definition elf_loadFile :: "elf_t \<Rightarrow> elf_addr_type_t \<Rightarrow> mem \<Rightarrow> (int \<times> mem) option" where
  "elf_loadFile f addr_type m = do { m \<leftarrow> elf_load_from addr_type f 0 m; Some (1, m) }"

declare section_named_from.simps [simp del]

end
