(* ===== verification/Elf_Proofs.thy ===== *)
theory Elf_Proofs
  imports Elf_File
begin

text \<open>
  What the checks of \<open>elf_newFile\<close> are good for: in a file that passed them, every accessor of the library reads inside the file, and the sections and segments
  that it hands out lie inside the file.
\<close>

section \<open>Fields of tables\<close>

text \<open>A field of an entry of a table inside the file.\<close>

lemma ld_entry:
  assumes "readable m a n" and "unat off + unat num * sz \<le> n" and "i < num" and "unat d + k \<le> sz"
  shows "\<exists>v. ld m (a + off + i * of_nat sz + d) k = Some v"
proof -
  have "unat i + 1 \<le> unat num" using assms(3) by (simp add: word_less_nat_alt)
  then have "(unat i + 1) * sz \<le> unat num * sz" by (rule mult_le_mono1)
  then have "unat off + unat i * sz + unat d + k \<le> n" using assms(2,4) by simp
  from ld_readable [OF readable_part [OF assms(1) this]] show ?thesis by (simp add: algebra_simps)
qed

section \<open>Files that passed the checks\<close>

definition elf_section_fields :: "(mem \<Rightarrow> elf_t \<Rightarrow> u64 \<Rightarrow> u64 option) list" where
  "elf_section_fields = [elf_getSectionNameOffset, elf_getSectionType, elf_getSectionFlags, elf_getSectionAddr, elf_getSectionOffset,
     elf_getSectionSize, elf_getSectionLink, elf_getSectionInfo, elf_getSectionAddrAlign, elf_getSectionEntrySize]"

definition elf_program_fields :: "(mem \<Rightarrow> elf_t \<Rightarrow> u64 \<Rightarrow> u64 option) list" where
  "elf_program_fields = [elf_getProgramHeaderType, elf_getProgramHeaderOffset, elf_getProgramHeaderVaddr, elf_getProgramHeaderPaddr,
     elf_getProgramHeaderFileSize, elf_getProgramHeaderMemorySize, elf_getProgramHeaderFlags, elf_getProgramHeaderAlign]"

lemmas elf_sizes = sizeof_Elf32_Ehdr_def sizeof_Elf32_Phdr_def sizeof_Elf32_Shdr_def
  sizeof_Elf64_Ehdr_def sizeof_Elf64_Phdr_def sizeof_Elf64_Shdr_def

lemmas elf_section_defs = elf_section_fields_def elf_getSectionNameOffset_def elf_getSectionType_def elf_getSectionFlags_def
  elf_getSectionAddr_def elf_getSectionOffset_def elf_getSectionSize_def elf_getSectionLink_def elf_getSectionInfo_def
  elf_getSectionAddrAlign_def elf_getSectionEntrySize_def

lemmas elf32_section_defs = elf32_getSectionNameOffset_def elf32_getSectionType_def elf32_getSectionFlags_def
  elf32_getSectionAddr_def elf32_getSectionOffset_def elf32_getSectionSize_def elf32_getSectionLink_def elf32_getSectionInfo_def
  elf32_getSectionAddrAlign_def elf32_getSectionEntrySize_def elf32_getSectionTable_def

lemmas elf64_section_defs = elf64_getSectionNameOffset_def elf64_getSectionType_def elf64_getSectionFlags_def
  elf64_getSectionAddr_def elf64_getSectionOffset_def elf64_getSectionSize_def elf64_getSectionLink_def elf64_getSectionInfo_def
  elf64_getSectionAddrAlign_def elf64_getSectionEntrySize_def elf64_getSectionTable_def

lemmas elf_program_defs = elf_program_fields_def elf_getProgramHeaderType_def elf_getProgramHeaderOffset_def
  elf_getProgramHeaderVaddr_def elf_getProgramHeaderPaddr_def elf_getProgramHeaderFileSize_def elf_getProgramHeaderMemorySize_def
  elf_getProgramHeaderFlags_def elf_getProgramHeaderAlign_def

lemmas elf32_program_defs = elf32_getProgramHeaderType_def elf32_getProgramHeaderOffset_def
  elf32_getProgramHeaderVaddr_def elf32_getProgramHeaderPaddr_def elf32_getProgramHeaderFileSize_def elf32_getProgramHeaderMemorySize_def
  elf32_getProgramHeaderFlags_def elf32_getProgramHeaderAlign_def elf32_getProgramHeaderTable_def

lemmas elf64_program_defs = elf64_getProgramHeaderType_def elf64_getProgramHeaderOffset_def
  elf64_getProgramHeaderVaddr_def elf64_getProgramHeaderPaddr_def elf64_getProgramHeaderFileSize_def elf64_getProgramHeaderMemorySize_def
  elf64_getProgramHeaderFlags_def elf64_getProgramHeaderAlign_def elf64_getProgramHeaderTable_def

text \<open>The header, whole, and its tables inside the file.\<close>

definition elf_getHeader :: "mem \<Rightarrow> elf_t \<Rightarrow> elf_ehdr option" where
  "elf_getHeader m f = (if elf_isElf32 f then elf32_getHeader m f else elf64_getHeader m f)"

definition elf_valid :: "mem \<Rightarrow> elf_t \<Rightarrow> bool" where
  "elf_valid m f \<longleftrightarrow> readable m (elfFile f) (unat (elfSize f)) \<and> (elfClass f = ELFCLASS32 \<or> elfClass f = ELFCLASS64) \<and>
     (\<exists>h. elf_getHeader m f = Some h \<and> e_shstrndx h < e_shnum h \<and>
        unat (e_phoff h) + unat (e_phnum h) * (if elf_isElf32 f then 32 else 56) \<le> unat (elfSize f) \<and>
        unat (e_shoff h) + unat (e_shnum h) * (if elf_isElf32 f then 40 else 64) \<le> unat (elfSize f))"

lemma elf_validE:
  assumes "elf_valid m f"
  obtains h where "readable m (elfFile f) (unat (elfSize f))" and "elf_getHeader m f = Some h"
    and "e_shstrndx h < e_shnum h"
    and "unat (e_phoff h) + unat (e_phnum h) * (if elf_isElf32 f then 32 else 56) \<le> unat (elfSize f)"
    and "unat (e_shoff h) + unat (e_shnum h) * (if elf_isElf32 f then 40 else 64) \<le> unat (elfSize f)"
  using assms by (auto simp: elf_valid_def)

lemma elf_valid_counts:
  assumes "elf_valid m f" and "elf_getHeader m f = Some h"
  shows "elf_getNumProgramHeaders m f = Some (e_phnum h)" and "elf_getNumSections m f = Some (e_shnum h)"
    and "elf_getSectionStringTableIndex m f = Some (e_shstrndx h)" and "elf_getEntryPoint m f = Some (e_entry h)"
  using assms(2)
  by (simp_all add: elf_getHeader_def elf_getNumProgramHeaders_def elf32_getNumProgramHeaders_def elf64_getNumProgramHeaders_def
      elf_getNumSections_def elf32_getNumSections_def elf64_getNumSections_def elf_getEntryPoint_def elf32_getEntryPoint_def
      elf64_getEntryPoint_def elf_getSectionStringTableIndex_def elf32_getSectionStringTableIndex_def
      elf64_getSectionStringTableIndex_def split: if_splits)

lemma elf_program_field:
  assumes v: "elf_valid m f" and n: "elf_getNumProgramHeaders m f = Some n" and i: "i < n" and g: "g \<in> set elf_program_fields"
  shows "\<exists>x. g m f i = Some x"
proof -
  from v obtain h where r: "readable m (elfFile f) (unat (elfSize f))" and h: "elf_getHeader m f = Some h"
    and t: "unat (e_phoff h) + unat (e_phnum h) * (if elf_isElf32 f then 32 else 56) \<le> unat (elfSize f)"
    by (rule elf_validE)
  have i: "i < e_phnum h" using elf_valid_counts(1) [OF v h] n i by simp
  show ?thesis
  proof (cases "elf_isElf32 f")
    case True
    with t have "unat (e_phoff h) + unat (e_phnum h) * 32 \<le> unat (elfSize f)" by simp
    note e = ld_entry [OF r this i]
    from g show ?thesis using True h e [where k = 4] e [of 0 4]
      by (auto simp: elf_program_defs elf32_program_defs elf_getHeader_def elf_sizes add.assoc [of _ "_ * _"])
  next
    case False
    with t have "unat (e_phoff h) + unat (e_phnum h) * 56 \<le> unat (elfSize f)" by simp
    note e = ld_entry [OF r this i]
    from g show ?thesis using False h e [where k = 4] e [where k = 8] e [of 0 4]
      by (auto simp: elf_program_defs elf64_program_defs elf_getHeader_def elf_sizes add.assoc [of _ "_ * _"])
  qed
qed

lemma elf_section_field:
  assumes v: "elf_valid m f" and n: "elf_getNumSections m f = Some n" and i: "i < n" and g: "g \<in> set elf_section_fields"
  shows "\<exists>x. g m f i = Some x"
proof -
  from v obtain h where r: "readable m (elfFile f) (unat (elfSize f))" and h: "elf_getHeader m f = Some h"
    and t: "unat (e_shoff h) + unat (e_shnum h) * (if elf_isElf32 f then 40 else 64) \<le> unat (elfSize f)"
    by (rule elf_validE)
  have i: "i < e_shnum h" using elf_valid_counts(2) [OF v h] n i by simp
  show ?thesis
  proof (cases "elf_isElf32 f")
    case True
    with t have "unat (e_shoff h) + unat (e_shnum h) * 40 \<le> unat (elfSize f)" by simp
    note e = ld_entry [OF r this i]
    from g show ?thesis using True h e [where k = 4] e [of 0 4]
      by (auto simp: elf_section_defs elf32_section_defs elf_getHeader_def elf_sizes add.assoc [of _ "_ * _"])
  next
    case False
    with t have "unat (e_shoff h) + unat (e_shnum h) * 64 \<le> unat (elfSize f)" by simp
    note e = ld_entry [OF r this i]
    from g show ?thesis using False h e [where k = 4] e [where k = 8] e [of 0 4]
      by (auto simp: elf_section_defs elf64_section_defs elf_getHeader_def elf_sizes add.assoc [of _ "_ * _"])
  qed
qed

section \<open>The checks establish validity\<close>

lemma elf_check_magic_total:
  assumes "readable m a n" and "4 \<le> n"
  shows "\<exists>r. elf_check_magic m a = Some r"
proof -
  have "readable m a 4" using readable_part [OF assms(1), of 0 4] assms(2) by simp
  then obtain bs where "load_bytes m a 4 = Some bs" using load_bytes_readable by blast
  moreover have "length ELFMAG = 4" by (simp add: ELFMAG_def)
  ultimately show ?thesis by (simp add: elf_check_magic_def memcmp_eq_def)
qed

lemma elf64_getHeader_total:
  assumes r: "readable m (elfFile f) (unat (elfSize f))" and s: "64 \<le> unat (elfSize f)"
  shows "\<exists>h. elf64_getHeader m f = Some h"
proof -
  let ?a = "elfFile f"
  have "readable m ?a 16" using readable_part [OF r, of 0 16] s by simp
  then obtain ident where "load_bytes m ?a 16 = Some ident" using load_bytes_readable by blast
  moreover have "\<exists>v. ld m (?a + d) k = Some v" if "unat d + k \<le> 64" for d k
    using ld_at [OF r] that s by simp
  note this [of 16 2, simplified] this [of 18 2, simplified] this [of 20 4, simplified] this [of 24 8, simplified]
    this [of 32 8, simplified] this [of 40 8, simplified] this [of 48 4, simplified] this [of 52 2, simplified]
    this [of 54 2, simplified] this [of 56 2, simplified] this [of 58 2, simplified] this [of 60 2, simplified]
    this [of 62 2, simplified]
  ultimately show ?thesis by (auto simp: elf64_getHeader_def)
qed

lemma elf32_getHeader_total:
  assumes r: "readable m (elfFile f) (unat (elfSize f))" and s: "52 \<le> unat (elfSize f)"
  shows "\<exists>h. elf32_getHeader m f = Some h"
proof -
  let ?a = "elfFile f"
  have "readable m ?a 16" using readable_part [OF r, of 0 16] s by simp
  then obtain ident where "load_bytes m ?a 16 = Some ident" using load_bytes_readable by blast
  moreover have "\<exists>v. ld m (?a + d) k = Some v" if "unat d + k \<le> 52" for d k
    using ld_at [OF r] that s by simp
  note this [of 16 2, simplified] this [of 18 2, simplified] this [of 20 4, simplified] this [of 24 4, simplified]
    this [of 28 4, simplified] this [of 32 4, simplified] this [of 36 4, simplified] this [of 40 2, simplified]
    this [of 42 2, simplified] this [of 44 2, simplified] this [of 46 2, simplified] this [of 48 2, simplified]
    this [of 50 2, simplified]
  ultimately show ?thesis by (auto simp: elf32_getHeader_def)
qed

lemma elf64_checkFile_cases:
  assumes r: "readable m (elfFile f) (unat (elfSize f))"
  obtains "elf64_checkFile m f = Some (- 1, f)"
    | h where "elf64_checkFile m f = Some (0, f\<lparr>elfClass := ELFCLASS64\<rparr>)" and "elf64_getHeader m f = Some h" and
      "e_phentsize h = 56" and "e_shentsize h = 64" and "e_shstrndx h < e_shnum h" and "64 \<le> unat (elfSize f)"
proof (cases "elfSize f < of_nat sizeof_Elf64_Ehdr")
  case True
  then show ?thesis using that(1) by (simp add: elf64_checkFile_def)
next
  case False
  then have s: "64 \<le> unat (elfSize f)" by (simp add: elf_sizes word_less_nat_alt)
  from elf64_getHeader_total [OF r s] obtain h where h: "elf64_getHeader m f = Some h" by blast
  from elf_check_magic_total [OF r] s obtain c where c: "elf_check_magic m (elfFile f) = Some c" by auto
  from ld_at [OF r, of EI_CLASS 1] s obtain cls where cls: "ld m (elfFile f + EI_CLASS) 1 = Some cls"
    by (auto simp: EI_CLASS_def)
  have "ld m (elfFile f + 54) 2 = Some (e_phentsize h)" "ld m (elfFile f + 58) 2 = Some (e_shentsize h)"
    "ld m (elfFile f + 62) 2 = Some (e_shstrndx h)" "ld m (elfFile f + 60) 2 = Some (e_shnum h)"
    using h by (auto simp: elf64_getHeader_def Let_def elim!: bind_SomeE)
  then have eq: "elf64_checkFile m f =
      (if c < 0 \<or> cls \<noteq> ELFCLASS64 \<or> e_phentsize h \<noteq> 56 \<or> e_shentsize h \<noteq> 64 \<or> e_shstrndx h \<ge> e_shnum h then Some (- 1, f)
       else Some (0, f\<lparr>elfClass := ELFCLASS64\<rparr>))"
    using False c cls by (simp add: elf64_checkFile_def Let_def elf_sizes)
  show ?thesis
    by (cases "c < 0 \<or> cls \<noteq> ELFCLASS64 \<or> e_phentsize h \<noteq> 56 \<or> e_shentsize h \<noteq> 64 \<or> e_shstrndx h \<ge> e_shnum h")
      (use that(1) that(2) [of h] eq h s in \<open>auto simp: not_le\<close>)
qed

lemma elf32_checkFile_cases:
  assumes r: "readable m (elfFile f) (unat (elfSize f))"
  obtains "elf32_checkFile m f = Some (- 1, f)"
    | h where "elf32_checkFile m f = Some (0, f\<lparr>elfClass := ELFCLASS32\<rparr>)" and "elf32_getHeader m f = Some h" and
      "e_phentsize h = 32" and "e_shentsize h = 40" and "e_shstrndx h < e_shnum h" and "52 \<le> unat (elfSize f)"
proof (cases "elfSize f < of_nat sizeof_Elf32_Ehdr")
  case True
  then show ?thesis using that(1) by (simp add: elf32_checkFile_def)
next
  case False
  then have s: "52 \<le> unat (elfSize f)" by (simp add: elf_sizes word_less_nat_alt)
  from elf32_getHeader_total [OF r s] obtain h where h: "elf32_getHeader m f = Some h" by blast
  from elf_check_magic_total [OF r] s obtain c where c: "elf_check_magic m (elfFile f) = Some c" by auto
  from ld_at [OF r, of EI_CLASS 1] s obtain cls where cls: "ld m (elfFile f + EI_CLASS) 1 = Some cls"
    by (auto simp: EI_CLASS_def)
  have "ld m (elfFile f + 42) 2 = Some (e_phentsize h)" "ld m (elfFile f + 46) 2 = Some (e_shentsize h)"
    "ld m (elfFile f + 50) 2 = Some (e_shstrndx h)" "ld m (elfFile f + 48) 2 = Some (e_shnum h)"
    using h by (auto simp: elf32_getHeader_def Let_def elim!: bind_SomeE)
  then have eq: "elf32_checkFile m f =
      (if c < 0 \<or> cls \<noteq> ELFCLASS32 \<or> e_phentsize h \<noteq> 32 \<or> e_shentsize h \<noteq> 40 \<or> e_shstrndx h \<ge> e_shnum h then Some (- 1, f)
       else Some (0, f\<lparr>elfClass := ELFCLASS32\<rparr>))"
    using False c cls by (simp add: elf32_checkFile_def Let_def elf_sizes)
  show ?thesis
    by (cases "c < 0 \<or> cls \<noteq> ELFCLASS32 \<or> e_phentsize h \<noteq> 32 \<or> e_shentsize h \<noteq> 40 \<or> e_shstrndx h \<ge> e_shnum h")
      (use that(1) that(2) [of h] eq h s in \<open>auto simp: not_le\<close>)
qed

text \<open>The tables: their end is computed without losing an overflow.\<close>

lemma table_fits_64:
  assumes "unat num < 65536" and "sz \<le> 64"
  shows "int_mult (of_nat sz) num = Some (of_nat sz * num)"
    and "\<not> (size_b < off + of_nat sz * num \<or> off + of_nat sz * num < off) \<longleftrightarrow> unat off + unat num * sz \<le> unat size_b"
proof -
  have u: "unat (of_nat sz :: u64) = sz" using assms(2) by (intro unat_of_nat_u64) simp
  have b: "sz * unat num \<le> 64 * 65536" using assms by (intro mult_le_mono) auto
  then show "int_mult (of_nat sz) num = Some (of_nat sz * num)" by (simp add: int_mult_def u)
  have t: "unat (of_nat sz * num) = sz * unat num"
    using b u by (subst unat_mult_lem [THEN iffD1]) simp_all
  show "\<not> (size_b < off + of_nat sz * num \<or> off + of_nat sz * num < off) \<longleftrightarrow> unat off + unat num * sz \<le> unat size_b"
  proof (cases "unat off + sz * unat num < 2 ^ 64")
    case True
    then have s: "unat (off + of_nat sz * num) = unat off + sz * unat num"
      using t by (subst unat_add_lem [THEN iffD1]) simp_all
    then have "\<not> off + of_nat sz * num < off" by (simp add: word_less_nat_alt)
    with s show ?thesis by (simp add: word_less_nat_alt not_less mult.commute [of "unat num"])
  next
    case False
    then have "\<not> off \<le> off + of_nat sz * num" using t by (simp add: no_olen_add_nat)
    moreover have "\<not> unat off + unat num * sz \<le> unat size_b"
      using False unat_u64_less [of size_b] by (simp add: mult.commute [of "unat num"])
    ultimately show ?thesis by (simp add: not_le)
  qed
qed

lemma unat_and_32: "unat (w AND 0xFFFFFFFF :: u64) = unat w mod 2 ^ 32"
proof -
  have "(0xFFFFFFFF :: u64) = mask 32" by (simp add: mask_eq_exp_minus_1)
  then have "w AND 0xFFFFFFFF = take_bit 32 w" by (simp add: take_bit_eq_mask)
  then show ?thesis by (simp add: take_bit_eq_mod unat_mod)
qed

lemma table_fits_32:
  fixes num off size_b :: u64
  assumes "unat num < 65536" and "sz \<le> 64" and "unat off < 2 ^ 32"
  shows "\<not> (size_b < (off + of_nat sz * num) AND 0xFFFFFFFF \<or> (off + of_nat sz * num) AND 0xFFFFFFFF < off) \<longleftrightarrow>
     unat off + unat num * sz \<le> unat size_b \<and> unat off + unat num * sz < 2 ^ 32"
proof -
  have u: "unat (of_nat sz :: u64) = sz" using assms(2) by (intro unat_of_nat_u64) simp
  have b: "sz * unat num \<le> 64 * 65536" using assms by (intro mult_le_mono) auto
  have t: "unat (of_nat sz * num) = sz * unat num"
    using b u by (subst unat_mult_lem [THEN iffD1]) simp_all
  have s: "unat (off + of_nat sz * num) = unat off + sz * unat num"
    using t b assms(3) by (subst unat_add_lem [THEN iffD1]) simp_all
  show ?thesis
  proof (cases "unat off + sz * unat num < 2 ^ 32")
    case True
    then show ?thesis by (simp add: word_less_nat_alt unat_and_32 s not_less mult.commute [of "unat num"])
  next
    case False
    then have "(unat off + sz * unat num) mod 2 ^ 32 = unat off + sz * unat num - 2 ^ 32"
      using b assms(3) by (simp add: le_mod_geq)
    then have "(unat off + sz * unat num) mod 2 ^ 32 < unat off" using b False assms(3) by simp
    with False show ?thesis by (simp add: word_less_nat_alt unat_and_32 s mult.commute [of "unat num"])
  qed
qed

lemma elf64_tables:
  assumes h: "elf64_getHeader m f = Some h" and "e_phentsize h = 56" and "e_shentsize h = 64"
  shows "elf64_checkProgramHeaderTable m f =
       Some (if unat (e_phoff h) + unat (e_phnum h) * 56 \<le> unat (elfSize f) then 0 else - 1)"
    and "elf64_checkSectionTable m f =
       Some (if unat (e_shoff h) + unat (e_shnum h) * 64 \<le> unat (elfSize f) then 0 else - 1)"
proof -
  from h have l: "ld m (elfFile f + 32) 8 = Some (e_phoff h)" "ld m (elfFile f + 40) 8 = Some (e_shoff h)"
    "ld m (elfFile f + 54) 2 = Some (e_phentsize h)" "ld m (elfFile f + 58) 2 = Some (e_shentsize h)"
    "ld m (elfFile f + 56) 2 = Some (e_phnum h)" "ld m (elfFile f + 60) 2 = Some (e_shnum h)"
    by (auto simp: elf64_getHeader_def Let_def elim!: bind_SomeE)
  have n: "unat (e_phnum h) < 65536" "unat (e_shnum h) < 65536" using ld_less l(5,6) by fastforce+
  show "elf64_checkProgramHeaderTable m f =
       Some (if unat (e_phoff h) + unat (e_phnum h) * 56 \<le> unat (elfSize f) then 0 else - 1)"
    using table_fits_64(1) [OF n(1), of 56] table_fits_64(2) [OF n(1), of 56 "elfSize f" "e_phoff h"] l assms(2) by (auto simp: elf64_checkProgramHeaderTable_def Let_def)
  show "elf64_checkSectionTable m f =
       Some (if unat (e_shoff h) + unat (e_shnum h) * 64 \<le> unat (elfSize f) then 0 else - 1)"
    using table_fits_64(1) [OF n(2), of 64] table_fits_64(2) [OF n(2), of 64 "elfSize f" "e_shoff h"] l assms(3) by (auto simp: elf64_checkSectionTable_def Let_def)
qed

lemma elf32_tables:
  assumes h: "elf32_getHeader m f = Some h" and "e_phentsize h = 32" and "e_shentsize h = 40"
  shows "\<exists>r. elf32_checkProgramHeaderTable m f = Some r \<and> (r = 0 \<or> r = - 1) \<and>
       (r = 0 \<longrightarrow> unat (e_phoff h) + unat (e_phnum h) * 32 \<le> unat (elfSize f))"
    and "\<exists>r. elf32_checkSectionTable m f = Some r \<and> (r = 0 \<or> r = - 1) \<and>
       (r = 0 \<longrightarrow> unat (e_shoff h) + unat (e_shnum h) * 40 \<le> unat (elfSize f))"
proof -
  from h have l: "ld m (elfFile f + 28) 4 = Some (e_phoff h)" "ld m (elfFile f + 32) 4 = Some (e_shoff h)"
    "ld m (elfFile f + 42) 2 = Some (e_phentsize h)" "ld m (elfFile f + 46) 2 = Some (e_shentsize h)"
    "ld m (elfFile f + 44) 2 = Some (e_phnum h)" "ld m (elfFile f + 48) 2 = Some (e_shnum h)"
    by (auto simp: elf32_getHeader_def Let_def elim!: bind_SomeE)
  have n: "unat (e_phnum h) < 65536" "unat (e_shnum h) < 65536" using ld_less l(5,6) by fastforce+
  have o32: "unat (e_phoff h) < 2 ^ 32" "unat (e_shoff h) < 2 ^ 32" using ld_less l(1,2) by fastforce+
  show "\<exists>r. elf32_checkProgramHeaderTable m f = Some r \<and> (r = 0 \<or> r = - 1) \<and>
       (r = 0 \<longrightarrow> unat (e_phoff h) + unat (e_phnum h) * 32 \<le> unat (elfSize f))"
    using table_fits_64(1) [OF n(1), of 32] table_fits_32 [OF n(1) _ o32(1), of 32 "elfSize f"] l assms(2)
    by (auto simp: elf32_checkProgramHeaderTable_def Let_def)
  show "\<exists>r. elf32_checkSectionTable m f = Some r \<and> (r = 0 \<or> r = - 1) \<and>
       (r = 0 \<longrightarrow> unat (e_shoff h) + unat (e_shnum h) * 40 \<le> unat (elfSize f))"
    using table_fits_64(1) [OF n(2), of 40] table_fits_32 [OF n(2) _ o32(2), of 40 "elfSize f"] l assms(3)
    by (auto simp: elf32_checkSectionTable_def Let_def)
qed

text \<open>\<open>elf_newFile\<close> on readable memory returns, and a file that it accepts is valid.\<close>

lemma elf_header_class: "elf64_getHeader m (f\<lparr>elfClass := c\<rparr>) = elf64_getHeader m f"
  "elf32_getHeader m (f\<lparr>elfClass := c\<rparr>) = elf32_getHeader m f"
  by (simp_all add: elf64_getHeader_def elf32_getHeader_def)

lemma elf_newFile_cases:
  assumes r: "readable m file (unat size_b)"
  obtains status where "elf_newFile m file size_b = Some (status, None)" and "status < 0"
    | f where "elf_newFile m file size_b = Some (0, Some f)" and "elf_valid m f" and "elfFile f = file" and "elfSize f = size_b"
proof -
  let ?f = "\<lparr>elfFile = file, elfSize = size_b, elfClass = 0\<rparr>"
  let ?f32 = "?f\<lparr>elfClass := ELFCLASS32\<rparr>" and ?f64 = "?f\<lparr>elfClass := ELFCLASS64\<rparr>"
  have r': "readable m (elfFile ?f) (unat (elfSize ?f))" using r by simp
  from r' show ?thesis
  proof (cases rule: elf32_checkFile_cases)
    case (2 h)
    have h: "elf32_getHeader m ?f32 = Some h" using 2(2) elf_header_class(2) [where f = ?f and c = ELFCLASS32] by simp
    from elf32_tables [OF h 2(3,4)] obtain p s where
      p: "elf32_checkProgramHeaderTable m ?f32 = Some p" "p = 0 \<or> p = - 1"
        "p = 0 \<longrightarrow> unat (e_phoff h) + unat (e_phnum h) * 32 \<le> unat size_b"
      and s: "elf32_checkSectionTable m ?f32 = Some s" "s = 0 \<or> s = - 1"
        "s = 0 \<longrightarrow> unat (e_shoff h) + unat (e_shnum h) * 40 \<le> unat size_b" by auto
    have "elf_newFile m file size_b = (if p < 0 then Some (p, None) else if s < 0 then Some (s, None) else Some (s, Some ?f32))"
      using 2(1) p(1) s(1) by (simp add: elf_newFile_def elf_newFile_maybe_unsafe_def elf_checkFile_def
          elf_checkProgramHeaderTable_def elf_checkSectionTable_def elf_isElf32_def)
    moreover have "elf_valid m ?f32" if "p = 0" "s = 0"
      using that p s h 2(5) r by (simp add: elf_valid_def elf_getHeader_def elf_isElf32_def)
    ultimately show ?thesis using p(2) s(2) that(1) [of p] that(1) [of s] that(2) [of ?f32] by auto
  next
    case 1
    note c32 = this
    from r' show ?thesis
    proof (cases rule: elf64_checkFile_cases)
      case 1
      then have "elf_newFile m file size_b = Some (- 1, None)"
        using c32 by (simp add: elf_newFile_def elf_newFile_maybe_unsafe_def elf_checkFile_def)
      then show ?thesis using that(1) [of "- 1"] by simp
    next
      case (2 h)
      have h: "elf64_getHeader m ?f64 = Some h" using 2(2) elf_header_class(1) [where f = ?f and c = ELFCLASS64] by simp
      have n32: "\<not> elf_isElf32 ?f64" by (simp add: elf_isElf32_def ELFCLASS32_def ELFCLASS64_def)
      let ?p = "unat (e_phoff h) + unat (e_phnum h) * 56 \<le> unat size_b"
      let ?s = "unat (e_shoff h) + unat (e_shnum h) * 64 \<le> unat size_b"
      have "elf_newFile m file size_b = (if \<not> ?p \<or> \<not> ?s then Some (- 1, None) else Some (0, Some ?f64))"
        using c32 2(1) elf64_tables [OF h 2(3,4)] n32
        by (simp add: elf_newFile_def elf_newFile_maybe_unsafe_def elf_checkFile_def
            elf_checkProgramHeaderTable_def elf_checkSectionTable_def)
      moreover have "elf_valid m ?f64" if "?p" "?s"
        using that h 2(5) r n32 by (simp add: elf_valid_def elf_getHeader_def)
      ultimately show ?thesis using that(1) [of "- 1"] that(2) [of ?f64] by (auto split: if_splits)
    qed
  qed
qed

section \<open>Sections and segments\<close>

text \<open>The test of the end of a part of the file, with its wrap-around.\<close>

lemma part_fits: "\<not> (size_b < off + n \<or> off + n < off) \<longleftrightarrow> unat off + unat n \<le> unat (size_b :: u64)"
proof (cases "unat off + unat n < 2 ^ 64")
  case True
  then have "unat (off + n) = unat off + unat n" by (subst unat_add_lem [THEN iffD1]) simp_all
  then show ?thesis by (auto simp: word_less_nat_alt)
next
  case False
  then have "off + n < off" using no_olen_add_nat [of off n] by (simp add: not_less)
  moreover have "unat size_b < 2 ^ 64" using unsigned_less [of size_b, where ?'a = nat] by simp
  ultimately show ?thesis using False by auto
qed

lemma getProgramSegment_exact:
  assumes "elf_getProgramHeaderOffset m f i = Some off" and "elf_getProgramHeaderFileSize m f i = Some n"
  shows "elf_getProgramSegment m f i = Some (if unat off + unat n \<le> unat (elfSize f) then elfFile f + off else 0)"
  using assms by (simp add: elf_getProgramSegment_def Let_def part_fits [symmetric] del: de_Morgan_disj)

lemma getSection_exact:
  assumes "elf_getNumSections m f = Some ns" and "i \<noteq> 0" and "i < ns"
    and "elf_getSectionOffset m f i = Some off" and "elf_getSectionSize m f i = Some n"
  shows "elf_getSection m f i = Some (if n \<noteq> 0 \<and> unat off + unat n \<le> unat (elfSize f) then elfFile f + off else 0)"
proof -
  have "\<not> (i = 0 \<or> ns \<le> i)" using assms(2,3) by auto
  with assms(1,4,5) show ?thesis by (simp add: elf_getSection_def Let_def part_fits [symmetric] del: de_Morgan_disj)
qed

lemma section_inside:
  assumes "elf_getSection m f i = Some p" and "p \<noteq> 0"
  shows "\<exists>off n. elf_getSectionOffset m f i = Some off \<and> elf_getSectionSize m f i = Some n \<and> n \<noteq> 0 \<and>
     p = elfFile f + off \<and> unat off + unat n \<le> unat (elfSize f)"
proof -
  from assms obtain num where num: "elf_getNumSections m f = Some num" "\<not> (i = 0 \<or> num \<le> i)"
    by (auto simp: elf_getSection_def elim!: bind_SomeE split: if_splits)
  with assms(1) obtain off n where s: "elf_getSectionOffset m f i = Some off" "elf_getSectionSize m f i = Some n"
    by (auto simp: elf_getSection_def elim!: bind_SomeE split: if_splits)
  with getSection_exact [OF num(1) _ _ s] num(2) assms show ?thesis by (auto simp: not_le split: if_splits)
qed

lemma part_readable:
  assumes "readable m file (unat size_b)" and "unat (off :: u64) + unat (n :: u64) \<le> unat size_b"
  shows "readable m (file + off) (unat n)"
  using readable_part [OF assms] by simp

section \<open>Properties\<close>

text \<open>
  C30. \<open>elf_newFile\<close> protects its callers. Given a file whose bytes can all be read, it returns, without reading anything else. If it accepts the file, then every field of every program header and
  of every section header is inside the file, so that no accessor reads out of bounds. \<open>elf_getProgramSegment\<close> and \<open>elf_getSection\<close> hand out the address of a segment or section exactly when all of
  its bytes are inside the file, with sums that do not wrap around, and these bytes can then be read; otherwise, and for section 0, for an index past the last section and for an empty section, they hand out \<open>NULL\<close>.
\<close>

theorem elf_newFile_protects:
  assumes "readable m file (unat size_b)"
  shows "\<exists>status res. elf_newFile m file size_b = Some (status, res) \<and>
     (case res of
        None \<Rightarrow> status < 0
      | Some f \<Rightarrow> status = 0 \<and>
          (\<exists>np ns. elf_getNumProgramHeaders m f = Some np \<and> elf_getNumSections m f = Some ns \<and>
             (\<forall>i < np. \<forall>g \<in> set elf_program_fields. g m f i \<noteq> None) \<and>
             (\<forall>i < ns. \<forall>g \<in> set elf_section_fields. g m f i \<noteq> None) \<and>
             (\<forall>i < np. \<exists>off n. elf_getProgramHeaderOffset m f i = Some off \<and> elf_getProgramHeaderFileSize m f i = Some n \<and>
                (if unat off + unat n \<le> unat size_b then elf_getProgramSegment m f i = Some (file + off) \<and> readable m (file + off) (unat n)
                 else elf_getProgramSegment m f i = Some 0)) \<and>
             (\<forall>i. if i = 0 \<or> ns \<le> i then elf_getSection m f i = Some 0
                  else \<exists>off n. elf_getSectionOffset m f i = Some off \<and> elf_getSectionSize m f i = Some n \<and>
                    (if n \<noteq> 0 \<and> unat off + unat n \<le> unat size_b then elf_getSection m f i = Some (file + off) \<and> readable m (file + off) (unat n)
                     else elf_getSection m f i = Some 0))))"
  using assms
proof (cases rule: elf_newFile_cases)
  case (1 status)
  then show ?thesis by simp
next
  case (2 f)
  from 2(2) obtain h where h: "elf_getHeader m f = Some h" by (rule elf_validE)
  note counts = elf_valid_counts(1,2) [OF 2(2) h]
  have ph: "\<exists>x. g m f i = Some x" if "i < e_phnum h" "g \<in> set elf_program_fields" for i g
    using elf_program_field [OF 2(2) counts(1) that] .
  have sh: "\<exists>x. g m f i = Some x" if "i < e_shnum h" "g \<in> set elf_section_fields" for i g
    using elf_section_field [OF 2(2) counts(2) that] .
  have "\<exists>off n. elf_getProgramHeaderOffset m f i = Some off \<and> elf_getProgramHeaderFileSize m f i = Some n \<and>
      (if unat off + unat n \<le> unat size_b then elf_getProgramSegment m f i = Some (file + off) \<and> readable m (file + off) (unat n)
       else elf_getProgramSegment m f i = Some 0)" if i: "i < e_phnum h" for i
  proof -
    obtain off n where "elf_getProgramHeaderOffset m f i = Some off" "elf_getProgramHeaderFileSize m f i = Some n"
      using ph [OF i, of elf_getProgramHeaderOffset] ph [OF i, of elf_getProgramHeaderFileSize] by (auto simp: elf_program_fields_def)
    with getProgramSegment_exact [OF this] part_readable [OF assms] 2(3,4) show ?thesis by auto
  qed
  moreover have "\<exists>off n. elf_getSectionOffset m f i = Some off \<and> elf_getSectionSize m f i = Some n \<and>
      (if n \<noteq> 0 \<and> unat off + unat n \<le> unat size_b then elf_getSection m f i = Some (file + off) \<and> readable m (file + off) (unat n)
       else elf_getSection m f i = Some 0)" if i: "i \<noteq> 0" "i < e_shnum h" for i
  proof -
    obtain off n where "elf_getSectionOffset m f i = Some off" "elf_getSectionSize m f i = Some n"
      using sh [OF i(2), of elf_getSectionOffset] sh [OF i(2), of elf_getSectionSize] by (auto simp: elf_section_fields_def)
    with getSection_exact [OF counts(2) i this] part_readable [OF assms] 2(3,4) show ?thesis by auto
  qed
  moreover have "elf_getSection m f i = Some 0" if "i = 0 \<or> e_shnum h \<le> i" for i using that counts(2) by (simp add: elf_getSection_def)
  ultimately show ?thesis using 2(1) counts ph sh by (simp add: not_le [symmetric])
qed

text \<open>A small file: a 64-bit header without program headers, and two section headers, of which the second is a string table with one byte.\<close>

definition elf_example :: mem where
  "elf_example a = Some (
     if a = 0x1000 then 0x7f else if a = 0x1001 then 0x45 else if a = 0x1002 then 0x4c else if a = 0x1003 then 0x46
     else if a = 0x1004 then 2 else if a = 0x1020 then 64 else if a = 0x1028 then 64 else if a = 0x1036 then 56
     else if a = 0x103a then 64 else if a = 0x103c then 2 else if a = 0x103e then 1
     else if a = 0x1084 then 3 else if a = 0x1098 then 192 else if a = 0x10a0 then 1 else 0)"

lemma elf_example_loads:
  "load_bytes elf_example 0x1000 4 = Some ELFMAG" "ld elf_example 0x1004 (Suc 0) = Some 2"
  "ld elf_example 0x1020 8 = Some 64" "ld elf_example 0x1028 8 = Some 64" "ld elf_example 0x1036 2 = Some 56" "ld elf_example 0x1038 2 = Some 0"
  "ld elf_example 0x103a 2 = Some 64" "ld elf_example 0x103c 2 = Some 2" "ld elf_example 0x103e 2 = Some 1"
  by (simp_all add: elf_example_def ELFMAG_def ld_def load_numeral)

lemma elf_example_newFile:
  "elf_newFile elf_example 0x1000 193 = Some (0, Some \<lparr>elfFile = 0x1000, elfSize = 193, elfClass = 2\<rparr>)"
proof -
  have "length ELFMAG = 4" by (simp add: ELFMAG_def)
  then have magic: "elf_check_magic elf_example 0x1000 = Some 0"
    by (simp add: elf_check_magic_def memcmp_eq_def elf_example_loads)
  show ?thesis
    by (simp add: elf_newFile_def elf_newFile_maybe_unsafe_def elf_checkFile_def elf32_checkFile_def elf64_checkFile_def
        magic elf_sizes EI_CLASS_def ELFCLASS32_def ELFCLASS64_def elf_example_loads elf_checkProgramHeaderTable_def
        elf_checkSectionTable_def elf64_checkProgramHeaderTable_def elf64_checkSectionTable_def int_mult_def elf_isElf32_def Let_def word_le_nat_alt)
qed

lemma elf_example_readable: "readable elf_example a n"
  by (simp add: readable_def elf_example_def)

theorem elf_newFile_protects_witness:
  "\<exists>f. elf_newFile elf_example 0x1000 193 = Some (0, Some f) \<and>
     (\<exists>ns. elf_getNumSections elf_example f = Some ns \<and> (\<forall>i < ns. \<forall>g \<in> set elf_section_fields. g elf_example f i \<noteq> None))"
  using elf_newFile_protects [OF elf_example_readable, of "0x1000" 193] elf_example_newFile by auto

lemma strcmp_at_terminated:
  assumes "readable m a (Suc k)" and "m (a + of_nat k) = Some 0" and "0 \<notin> set str"
  shows "\<exists>b. strcmp_at m str a = Some b"
  using assms
proof (induction str arbitrary: a k)
  case Nil
  then show ?case by (auto simp: readable_Suc)
next
  case (Cons c str)
  from Cons.prems(1) obtain b where b: "m a = Some b" by (auto simp: readable_Suc)
  show ?case
  proof (cases k)
    case 0
    then show ?thesis using b Cons.prems(2,3) by auto
  next
    case (Suc k')
    then show ?thesis using b Cons.IH [of "a + 1" k'] Cons.prems by (auto simp: readable_Suc algebra_simps)
  qed
qed

lemma string_table_cases:
  assumes v: "elf_valid m f" and n: "elf_getNumSections m f = Some ns" and i: "ix < ns"
  obtains "elf_getStringTable m f ix = Some 0"
    | p sz where "elf_getStringTable m f ix = Some p" and "elf_getSectionSize m f ix = Some sz" and "sz \<noteq> 0"
      and "readable m p (unat sz)" and "m (p + (sz - 1)) = Some 0"
proof -
  have r: "readable m (elfFile f) (unat (elfSize f))" using v by (simp add: elf_valid_def)
  note field = elf_section_field [OF v n i]
  from field [of elf_getSectionOffset] obtain so where so: "elf_getSectionOffset m f ix = Some so"
    by (auto simp: elf_section_fields_def)
  from field [of elf_getSectionSize] obtain sz where sz: "elf_getSectionSize m f ix = Some sz"
    by (auto simp: elf_section_fields_def)
  from field [of elf_getSectionType] obtain ty where ty: "elf_getSectionType m f ix = Some ty"
    by (auto simp: elf_section_fields_def)
  have "\<exists>p. elf_getSection m f ix = Some p" using n so sz by (simp add: elf_getSection_def Let_def)
  then obtain p where p: "elf_getSection m f ix = Some p" by blast
  show ?thesis
  proof (cases "p = 0 \<or> ty \<noteq> SHT_STRTAB")
    case True
    then show ?thesis using that(1) p ty by (auto simp: elf_getStringTable_def)
  next
    case False
    with section_inside [OF p] sz obtain off where ins: "p = elfFile f + off" "unat off + unat sz \<le> unat (elfSize f)" "sz \<noteq> 0" by auto
    have rp: "readable m p (unat sz)" using readable_part [OF r ins(2)] ins(1) by simp
    have sz1: "unat (sz - 1) < unat sz" using ins(3) by (simp add: unat_gt_0 unat_minus_one)
    then have "m (p + of_nat (unat (sz - 1))) \<noteq> None" using rp unfolding readable_def by blast
    then obtain b where b: "m (p + (sz - 1)) = Some b" by auto
    then have "elf_getStringTable m f ix = Some (if b \<noteq> 0 then 0 else p)"
      using False p ty sz by (simp add: elf_getStringTable_def)
    then show ?thesis using that(1) that(2) [of p sz] sz ins(3) rp b by (cases "b = 0") auto
  qed
qed

text \<open>
  The names of sections can be used as strings: in a valid file, \<open>elf_getSectionName\<close> returns for every section whose name offset is below the size of the string table,
  and comparing the name with any string stays inside the file, because the string table ends with a 0.
\<close>

lemma elf_section_name_usable:
  assumes "elf_valid m f" and "elf_getNumSections m f = Some ns" and "i < ns"
    and "elf_getSectionNameOffset m f i = Some offset"
    and "elf_getSectionStringTableIndex m f = Some ix" and "elf_getSectionSize m f ix = Some sz" and "offset < sz" and "0 \<notin> set str"
  shows "\<exists>name b. elf_getSectionName m f i = Some name \<and> strcmp_eq m str name = Some b"
proof -
  from assms(1) obtain h where h: "elf_getHeader m f = Some h" "e_shstrndx h < e_shnum h" by (rule elf_validE)
  have "ix < ns" using elf_valid_counts(2,3) [OF assms(1) h(1)] assms(2,5) h(2) by simp
  with assms(1,2) show ?thesis
  proof (cases rule: string_table_cases)
    case 1
    then show ?thesis using assms(4,5,6) by (simp add: elf_getSectionName_def)
  next
    case (2 p sz')
    have sz: "sz' = sz" using 2(2) assms(6) by simp
    have o: "unat offset < unat sz" using assms(7) by (simp add: word_less_nat_alt)
    define k where "k = unat sz - 1 - unat offset"
    have "unat offset + Suc k \<le> unat sz" using o by (simp add: k_def)
    from readable_part [OF 2(4) [unfolded sz] this] have r: "readable m (p + offset) (Suc k)" by simp
    have "unat (sz - 1) = unat sz - 1" using 2(3) sz by (simp add: unat_minus_one)
    then have "sz - 1 = of_nat (unat offset + k)" using o by (simp add: k_def word_unat_eq_iff unat_of_nat_u64 [symmetric])
    then have e: "p + offset + of_nat k = p + (sz - 1)" by (simp add: add.assoc)
    have z: "m (p + offset + of_nat k) = Some 0" unfolding e using 2(5) sz by simp
    from strcmp_at_terminated [OF r z assms(8)] obtain b where b: "strcmp_at m str (p + offset) = Some b" by blast
    show ?thesis
    proof (cases "p = 0")
      case True
      then show ?thesis using 2(1) assms(4,5,6) by (simp add: elf_getSectionName_def)
    next
      case False
      then have "elf_getSectionName m f i = Some (Ptr (p + offset))"
        using 2(1) assms(4-7) by (simp add: elf_getSectionName_def)
      with b show ?thesis by simp
    qed
  qed
qed

definition elf_example_file :: elf_t where
  "elf_example_file = \<lparr>elfFile = 0x1000, elfSize = 193, elfClass = 2\<rparr>"

lemma elf_example_valid: "elf_valid elf_example elf_example_file"
proof -
  have "readable elf_example 0x1000 (unat (193 :: u64))" by (rule elf_example_readable)
  then show ?thesis
    by (cases rule: elf_newFile_cases) (auto simp: elf_example_newFile elf_example_file_def)
qed

lemma elf_example_fields:
  "elf_getNumSections elf_example elf_example_file = Some 2" "elf_getSectionStringTableIndex elf_example elf_example_file = Some 1"
  "elf_getSectionNameOffset elf_example elf_example_file 1 = Some 0" "elf_getSectionSize elf_example elf_example_file 1 = Some 1"
proof -
  obtain h where h: "elf_getHeader elf_example elf_example_file = Some h" using elf_example_valid by (rule elf_validE)
  then have h64: "elf64_getHeader elf_example elf_example_file = Some h"
    by (simp add: elf_getHeader_def elf_isElf32_def elf_example_file_def ELFCLASS32_def)
  then have "e_shnum h = 2" "e_shstrndx h = 1" and sh: "e_shoff h = 64"
    by (auto simp: elf64_getHeader_def Let_def elf_example_file_def elf_example_loads elim!: bind_SomeE)
  with elf_valid_counts(2,3) [OF elf_example_valid h] show
    "elf_getNumSections elf_example elf_example_file = Some 2" "elf_getSectionStringTableIndex elf_example elf_example_file = Some 1"
    by auto
  have "ld elf_example 0x1080 4 = Some 0" "ld elf_example 0x10a0 8 = Some 1"
    by (simp_all add: elf_example_def ld_def load_numeral)
  then show "elf_getSectionNameOffset elf_example elf_example_file 1 = Some 0" "elf_getSectionSize elf_example elf_example_file 1 = Some 1"
    using h64 sh
    by (simp_all add: elf_getSectionNameOffset_def elf64_getSectionNameOffset_def elf_getSectionSize_def elf64_getSectionSize_def
        elf64_getSectionTable_def elf_isElf32_def elf_example_file_def ELFCLASS32_def elf_sizes)
qed

end
