(* ===== verification/Cpio.thy ===== *)
theory Cpio
  imports C_Memory
begin

text \<open>
  Archives in memory, \<open>libcpio/src/cpio.c\<close>: SOS finds the programs that are linked into its image with \<open>cpio_get_file\<close>. Pointers are addresses; a string that the caller passes is given by
  its bytes, with the terminating 0.
\<close>

section \<open>Definitions\<close>

definition CPIO_HEADER_MAGIC :: "byte list" where
  "CPIO_HEADER_MAGIC = [0x30, 0x37, 0x30, 0x37, 0x30, 0x31, 0]"

definition CPIO_FOOTER_MAGIC :: "byte list" where
  "CPIO_FOOTER_MAGIC = [0x54, 0x52, 0x41, 0x49, 0x4c, 0x45, 0x52, 0x21, 0x21, 0x21, 0]"

definition CPIO_ALIGNMENT :: u64 where "CPIO_ALIGNMENT = 4"

text \<open>\<open>struct cpio_header\<close>: its size and the offsets of the fields that are read.\<close>

definition sizeof_cpio_header :: u64 where "sizeof_cpio_header = 110"
definition c_filesize :: u64 where "c_filesize = 54"
definition c_namesize :: u64 where "c_namesize = 94"

record cpio_header_info =
  hi_filename :: u64
  hi_filesize :: u64
  hi_data :: u64
  hi_next :: u64

definition align_up :: "u64 \<Rightarrow> u64 \<Rightarrow> u64" where
  "align_up n align = (n + align - 1) AND NOT (align - 1)"

text \<open>The loop of \<open>parse_hex_str\<close>, with \<open>n\<close> characters left. A character that is no digit ends it, after \<open>r\<close> was multiplied.\<close>

fun parse_hex_from :: "mem \<Rightarrow> u64 \<Rightarrow> nat \<Rightarrow> u64 \<Rightarrow> u64 option" where
  "parse_hex_from m s 0 r = Some r"
| "parse_hex_from m s (Suc n) r = do {
     c \<leftarrow> m s;
     let r = r * 16;
     if 0x30 \<le> c \<and> c \<le> 0x39 then parse_hex_from m (s + 1) n (r + ucast (c - 0x30))
     else if 0x61 \<le> c \<and> c \<le> 0x66 then parse_hex_from m (s + 1) n (r + ucast (c - 0x61) + 10)
     else if 0x41 \<le> c \<and> c \<le> 0x46 then parse_hex_from m (s + 1) n (r + ucast (c - 0x41) + 10)
     else Some r
   }"

definition parse_hex_str :: "mem \<Rightarrow> u64 \<Rightarrow> nat \<Rightarrow> u64 option" where
  "parse_hex_str m s max_len = parse_hex_from m s max_len 0"

fun cpio_strncmp :: "mem \<Rightarrow> u64 \<Rightarrow> byte list \<Rightarrow> nat \<Rightarrow> int option" where
  "cpio_strncmp m a [] n = (if n = 0 then Some 0 else None)"
| "cpio_strncmp m a (b # bs) n =
     (if n = 0 then Some 0
      else do {
        x \<leftarrow> m a;
        if x \<noteq> b then Some (uint x - uint b)
        else if x = 0 then Some 0
        else cpio_strncmp m (a + 1) bs (n - 1)
      })"

partial_function (option) cpio_strcpy :: "u64 \<Rightarrow> u64 \<Rightarrow> mem \<Rightarrow> mem option" where
  "cpio_strcpy to from m = do {
     b \<leftarrow> m from;
     if b \<noteq> 0 then do {
       m \<leftarrow> store_bytes m to [b];
       cpio_strcpy (to + 1) (from + 1) m
     } else Some m
   }"

partial_function (option) cpio_strlen_from :: "mem \<Rightarrow> u64 \<Rightarrow> u64 \<Rightarrow> u64 option" where
  "cpio_strlen_from m s n = do {
     b \<leftarrow> m s;
     if b \<noteq> 0 then cpio_strlen_from m (s + 1) (n + 1) else Some n
   }"

text \<open>The length, as an \<open>unsigned int\<close>.\<close>

definition cpio_strlen :: "mem \<Rightarrow> u64 \<Rightarrow> u64 option" where
  "cpio_strlen m str = do { n \<leftarrow> cpio_strlen_from m str 0; Some (n AND 0xFFFFFFFF) }"

definition cpio_len_next :: "u64 \<Rightarrow> u64 \<Rightarrow> u64 \<Rightarrow> u64" where
  "cpio_len_next len prev next_p = (
     let diff = next_p - prev
     in if len < diff then 0 else len)"

text \<open>The status, and with status 0 what is stored at \<open>info\<close>.\<close>

definition cpio_parse_header :: "mem \<Rightarrow> u64 \<Rightarrow> u64 \<Rightarrow> (int \<times> cpio_header_info option) option" where
  "cpio_parse_header m archive len =
     (if len < sizeof_cpio_header then Some (- 1, None)
      else do {
        cmp \<leftarrow> cpio_strncmp m archive CPIO_HEADER_MAGIC 6;
        if cmp \<noteq> 0 then Some (- 1, None)
        else do {
          filesize \<leftarrow> parse_hex_str m (archive + c_filesize) 8;
          filename_length \<leftarrow> parse_hex_str m (archive + c_namesize) 8;
          if len < sizeof_cpio_header + filename_length + filesize then Some (- 1, None)
          else do {
            let filename = archive + sizeof_cpio_header;
            last_b \<leftarrow> m (filename + (filename_length - 1));
            if last_b \<noteq> 0 then Some (- 1, None)
            else do {
              footer \<leftarrow> (if filename_length \<ge> 11 then do { c \<leftarrow> cpio_strncmp m filename CPIO_FOOTER_MAGIC 11; Some (c = 0) }
                         else Some False);
              if footer then Some (1, None)
              else do {
                let data = align_up (archive + sizeof_cpio_header + filename_length) CPIO_ALIGNMENT;
                let next_p = align_up (data + filesize) CPIO_ALIGNMENT;
                Some (0, Some \<lparr>hi_filename = filename, hi_filesize = filesize, hi_data = data, hi_next = next_p\<rparr>)
              }
            }
          }
        }
      })"

text \<open>
  The loop of \<open>cpio_get_entry\<close>, with \<open>n\<close> more entries to skip. The result is the address of the data, the name and the size. A negative index returns what is in
  uninitialised variables.
\<close>

fun cpio_entry_from :: "mem \<Rightarrow> u64 \<Rightarrow> u64 \<Rightarrow> nat \<Rightarrow> (u64 \<times> u64 \<times> u64) option" where
  "cpio_entry_from m header len n = do {
     (error, hi) \<leftarrow> cpio_parse_header m header len;
     case hi of
       None \<Rightarrow> Some (0, 0, 0)
     | Some info \<Rightarrow>
         (case n of
            0 \<Rightarrow> Some (hi_data info, hi_filename info, hi_filesize info)
          | Suc n \<Rightarrow> cpio_entry_from m (hi_next info) (cpio_len_next len header (hi_next info)) n)
   }"

definition cpio_get_entry :: "mem \<Rightarrow> u64 \<Rightarrow> u64 \<Rightarrow> int \<Rightarrow> (u64 \<times> u64 \<times> u64) option" where
  "cpio_get_entry m archive len n = (if n < 0 then None else cpio_entry_from m archive len (nat n))"

text \<open>The third argument of \<open>cpio_strncmp\<close> is \<open>-1\<close>, the largest \<open>unsigned long\<close>. The result is the address of the data, or 0, and the size.\<close>

partial_function (option) cpio_get_file :: "mem \<Rightarrow> u64 \<Rightarrow> u64 \<Rightarrow> byte list \<Rightarrow> (u64 \<times> u64) option" where
  "cpio_get_file m header len name = do {
     (error, hi) \<leftarrow> cpio_parse_header m header len;
     case hi of
       None \<Rightarrow> Some (0, 0)
     | Some info \<Rightarrow> do {
         cmp \<leftarrow> cpio_strncmp m (hi_filename info) name 18446744073709551615;
         if cmp = 0 then Some (hi_data info, hi_filesize info)
         else cpio_get_file m (hi_next info) (cpio_len_next len header (hi_next info)) name
       }
   }"

record cpio_info_t =
  file_count :: u32
  max_path_sz :: u32

partial_function (option) cpio_info_from :: "mem \<Rightarrow> u64 \<Rightarrow> u64 \<Rightarrow> cpio_info_t \<Rightarrow> (int \<times> cpio_info_t) option" where
  "cpio_info_from m header len info = do {
     (error, hi) \<leftarrow> cpio_parse_header m header len;
     case hi of
       None \<Rightarrow> Some (if error = - 1 then error else 0, info)
     | Some h \<Rightarrow> do {
         let info = info\<lparr>file_count := file_count info + 1\<rparr>;
         current_path_sz \<leftarrow> cpio_strlen m (hi_filename h);
         let info = (if current_path_sz > ucast (max_path_sz info) then info\<lparr>max_path_sz := ucast current_path_sz\<rparr> else info);
         cpio_info_from m (hi_next h) (cpio_len_next len header (hi_next h)) info
       }
   }"

text \<open>\<open>info\<close> is \<open>None\<close> for a \<open>NULL\<close> pointer.\<close>

definition cpio_info :: "mem \<Rightarrow> u64 \<Rightarrow> u64 \<Rightarrow> cpio_info_t option \<Rightarrow> (int \<times> cpio_info_t option) option" where
  "cpio_info m archive len info =
     (case info of
        None \<Rightarrow> Some (1, None)
      | Some i \<Rightarrow> do {
          (r, i) \<leftarrow> cpio_info_from m archive len (i\<lparr>file_count := 0, max_path_sz := 0\<rparr>);
          Some (r, Some i)
        })"

text \<open>\<open>buf\<close> is the list of the buffers' addresses.\<close>

fun cpio_ls :: "u64 \<Rightarrow> u64 \<Rightarrow> u64 list \<Rightarrow> mem \<Rightarrow> mem option" where
  "cpio_ls header len [] m = Some m"
| "cpio_ls header len (b # buf) m = do {
     (error, hi) \<leftarrow> cpio_parse_header m header len;
     case hi of
       None \<Rightarrow> Some m
     | Some h \<Rightarrow> do {
         m \<leftarrow> cpio_strcpy b (hi_filename h) m;
         cpio_ls (hi_next h) (cpio_len_next len header (hi_next h)) buf m
       }
   }"

declare cpio_entry_from.simps [simp del]

end
