(* ===== verification/Cpio_Proofs.thy ===== *)
theory Cpio_Proofs
  imports Cpio
begin

text \<open>
  \<open>cpio_get_file\<close> finds the files of a well-formed archive. What an archive is, is said by \<open>archive_at\<close>: headers with the sizes in eight hexadecimal digits, names and contents,
  each padded to a multiple of four bytes, and the trailer.
\<close>

section \<open>Hexadecimal numbers\<close>

definition hex_digit :: "nat \<Rightarrow> byte" where
  "hex_digit d = (if d < 10 then of_nat (0x30 + d) else of_nat (0x61 + (d - 10)))"

text \<open>The lowest \<open>k\<close> hexadecimal digits of \<open>n\<close>, the highest first.\<close>

primrec hex :: "nat \<Rightarrow> nat \<Rightarrow> byte list" where
  "hex 0 n = []"
| "hex (Suc k) n = hex k (n div 16) @ [hex_digit (n mod 16)]"

lemma length_hex [simp]: "length (hex k n) = k"
  by (induction k arbitrary: n) auto

text \<open>Reading known bytes.\<close>

definition bytes_at :: "mem \<Rightarrow> u64 \<Rightarrow> byte list \<Rightarrow> bool" where
  "bytes_at m a bs \<longleftrightarrow> load_bytes m a (length bs) = Some bs"

lemma bytes_at_Nil [simp]: "bytes_at m a []"
  by (simp add: bytes_at_def)

lemma bytes_at_Cons [simp]: "bytes_at m a (b # bs) \<longleftrightarrow> m a = Some b \<and> bytes_at m (a + 1) bs"
  by (auto simp: bytes_at_def bind_eq_Some_conv)

lemma bytes_at_append: "bytes_at m a (xs @ ys) \<longleftrightarrow> bytes_at m a xs \<and> bytes_at m (a + of_nat (length xs)) ys"
  by (induction xs arbitrary: a) (auto simp: algebra_simps)

lemma parse_hex_digit:
  assumes "d < 16" and "m s = Some (hex_digit d)"
  shows "parse_hex_from m s (Suc k) r = parse_hex_from m (s + 1) k (r * 16 + of_nat d)"
proof -
  have "d = 0 \<or> d = 1 \<or> d = 2 \<or> d = 3 \<or> d = 4 \<or> d = 5 \<or> d = 6 \<or> d = 7 \<or> d = 8 \<or> d = 9 \<or> d = 10 \<or> d = 11 \<or> d = 12 \<or> d = 13 \<or> d = 14 \<or> d = 15"
    using assms(1) by arith
  then show ?thesis using assms(2)
    by (elim disjE) (simp_all add: hex_digit_def Let_def, simp_all only: add.commute)
qed

lemma parse_hex_append:
  "bytes_at m s (hex k n) \<Longrightarrow>
   parse_hex_from m s (k + l) r = parse_hex_from m (s + of_nat k) l (r * 16 ^ k + of_nat (n mod 16 ^ k))"
proof (induction k arbitrary: n l)
  case (Suc k)
  from Suc.prems have b: "bytes_at m s (hex k (n div 16))" and d: "m (s + of_nat k) = Some (hex_digit (n mod 16))"
    by (auto simp: bytes_at_append)
  have n: "n mod 16 ^ Suc k = 16 * (n div 16 mod 16 ^ k) + n mod 16"
    using mod_mult2_eq [of n 16 "16 ^ k"] by simp
  have "parse_hex_from m s (k + Suc l) r = parse_hex_from m (s + of_nat k) (Suc l) (r * 16 ^ k + of_nat (n div 16 mod 16 ^ k))"
    by (rule Suc.IH [OF b])
  also have "\<dots> = parse_hex_from m (s + of_nat k + 1) l ((r * 16 ^ k + of_nat (n div 16 mod 16 ^ k)) * 16 + of_nat (n mod 16))"
    using d by (intro parse_hex_digit) simp_all
  also have "(r * 16 ^ k + of_nat (n div 16 mod 16 ^ k)) * 16 + of_nat (n mod 16) = r * 16 ^ Suc k + of_nat (n mod 16 ^ Suc k)"
    unfolding n by (simp add: algebra_simps)
  finally show ?case by (simp add: algebra_simps)
qed simp

lemma parse_hex_str_hex:
  assumes "bytes_at m s (hex 8 n)" and "n < 2 ^ 32"
  shows "parse_hex_str m s 8 = Some (of_nat n)"
  using parse_hex_append [OF assms(1), of 0 0] assms(2) by (simp add: parse_hex_str_def)

section \<open>Comparing strings\<close>

lemma strncmp_same:
  assumes "bytes_at m a (xs @ [0])" and "length xs < n"
  shows "cpio_strncmp m a (xs @ [0]) n = Some 0"
  using assms by (induction xs arbitrary: a n) auto

lemma uint_byte_eq: "uint (x :: byte) = uint y \<longleftrightarrow> x = y" "uint (x :: byte) = 0 \<longleftrightarrow> x = 0" "0 = uint (x :: byte) \<longleftrightarrow> x = 0"
  by (auto simp: word_uint_eq_iff)

lemma strncmp_neq:
  assumes "bytes_at m a (xs @ [0])" and "xs \<noteq> ys" and "length ys < n" and "0 \<notin> set xs" and "0 \<notin> set ys"
  shows "\<exists>c. cpio_strncmp m a (ys @ [0]) n = Some c \<and> c \<noteq> 0"
  using assms
proof (induction ys arbitrary: xs a n)
  case Nil
  then obtain x xs' where "xs = x # xs'" by (cases xs) auto
  with Nil show ?case by (auto simp: uint_byte_eq)
next
  case (Cons y ys)
  show ?case
  proof (cases xs)
    case Nil
    with Cons.prems show ?thesis by (auto simp: uint_byte_eq)
  next
    case (Cons x xs')
    with Cons.prems Cons.IH [of "a + 1" xs' "n - 1"] show ?thesis by (auto simp: uint_byte_eq)
  qed
qed

section \<open>Alignment\<close>

definition al4 :: "nat \<Rightarrow> nat" where
  "al4 n = (n + 3) div 4 * 4"

lemma al4_bounds: "n \<le> al4 n" "al4 n < n + 4" "4 dvd al4 n"
  unfolding al4_def by presburger+

lemma and_not_3: "(w :: u64) AND NOT 3 = push_bit 2 (drop_bit 2 w)"
proof (rule bit_eqI)
  fix n
  assume "possible_bit TYPE(64 word) n"
  then have n: "n < 64" by simp
  have m3: "(3 :: u64) = mask 2" by (simp add: mask_eq_exp_minus_1)
  have b3: "bit (3 :: u64) n \<longleftrightarrow> n < 2" unfolding m3 bit_mask_iff using n by auto
  have e: "\<not> n < 2 \<Longrightarrow> Suc (Suc (n - 2)) = n" by arith
  show "bit (w AND NOT 3) n = bit (push_bit 2 (drop_bit 2 w)) n"
    using n by (cases "n < 2") (simp_all only: bit_and_iff bit_not_iff bit_push_bit_iff bit_drop_bit_eq b3, simp_all add: e)
qed

lemma align_up_add:
  assumes "4 dvd unat a" and "unat a + n + 3 < 2 ^ 64"
  shows "align_up (a + of_nat n) CPIO_ALIGNMENT = a + of_nat (al4 n)"
proof -
  let ?w = "a + of_nat n + 3"
  have "?w AND NOT 3 = push_bit 2 (drop_bit 2 ?w)" by (rule and_not_3)
  also have "\<dots> = (?w div 4) * 4" by (simp add: push_bit_eq_mult drop_bit_eq_div)
  finally have eq: "align_up (a + of_nat n) CPIO_ALIGNMENT = (?w div 4) * 4"
    by (simp add: align_up_def CPIO_ALIGNMENT_def algebra_simps)
  have w: "?w = of_nat (unat a + n + 3)" by simp
  have uw: "unat ?w = unat a + n + 3" unfolding w using assms(2) by (intro unat_of_nat_u64) simp
  have "?w div 4 = of_nat ((unat a + n + 3) div 4)" by (simp add: word_arith_nat_div uw)
  moreover obtain k where k: "unat a = 4 * k" using assms(1) by (auto elim: dvdE)
  ultimately have "(?w div 4) * 4 = of_nat ((4 * k + n + 3) div 4 * 4)" by simp
  also have "(4 * k + n + 3) div 4 * 4 = 4 * k + al4 n" unfolding al4_def by presburger
  also have "of_nat (4 * k + al4 n) = a + of_nat (al4 n)" unfolding k [symmetric] by simp
  finally show ?thesis using eq by simp
qed

section \<open>Archives\<close>

definition trailer :: "byte list" where
  "trailer = butlast CPIO_FOOTER_MAGIC"

text \<open>An entry at \<open>a\<close>; the sizes bound what the eight digits can express.\<close>

definition data_offset :: "byte list \<Rightarrow> nat" where
  "data_offset name = al4 (110 + (length name + 1))"

definition entry_size :: "byte list \<Rightarrow> byte list \<Rightarrow> nat" where
  "entry_size name content = al4 (data_offset name + length content)"

definition entry_at :: "mem \<Rightarrow> u64 \<Rightarrow> byte list \<Rightarrow> byte list \<Rightarrow> bool" where
  "entry_at m a name content \<longleftrightarrow>
     bytes_at m a (butlast CPIO_HEADER_MAGIC) \<and> bytes_at m (a + 54) (hex 8 (length content)) \<and>
     bytes_at m (a + 94) (hex 8 (length name + 1)) \<and> bytes_at m (a + 110) (name @ [0]) \<and>
     bytes_at m (a + of_nat (data_offset name)) content \<and>
     0 \<notin> set name \<and> length name + 1 < 2 ^ 32 \<and> length content < 2 ^ 32"

text \<open>\<open>archive_at m a files n\<close>: at \<open>a\<close>, in \<open>n\<close> bytes, there is an archive of \<open>files\<close>, each a name and a content.\<close>

fun archive_at :: "mem \<Rightarrow> u64 \<Rightarrow> (byte list \<times> byte list) list \<Rightarrow> nat \<Rightarrow> bool" where
  "archive_at m a [] n \<longleftrightarrow> entry_at m a trailer [] \<and> 121 \<le> n"
| "archive_at m a ((name, content) # files) n \<longleftrightarrow>
     entry_at m a name content \<and> name \<noteq> trailer \<and> entry_size name content \<le> n \<and>
     archive_at m (a + of_nat (entry_size name content)) files (n - entry_size name content)"

lemma strncmp_magic: "bytes_at m a (butlast CPIO_HEADER_MAGIC) \<Longrightarrow> cpio_strncmp m a CPIO_HEADER_MAGIC 6 = Some 0"
  by (simp add: CPIO_HEADER_MAGIC_def)

lemma footer_trailer: "CPIO_FOOTER_MAGIC = trailer @ [0]" "length trailer = 10" "0 \<notin> set trailer"
  by (simp_all add: trailer_def CPIO_FOOTER_MAGIC_def)

lemma bytes_at_last: "bytes_at m a (xs @ [x]) \<Longrightarrow> m (a + of_nat (length xs)) = Some x"
  by (simp add: bytes_at_append)

text \<open>What \<open>cpio_parse_header\<close> makes of an entry: the trailer ends the archive, any other entry gives its parts.\<close>

lemma cpio_parse_entry:
  assumes e: "entry_at m a name content" and al: "4 dvd unat a" and fit: "unat a + n < 2 ^ 64 - 4"
    and n: "if name = trailer then 110 + (length name + 1) + length content \<le> n else entry_size name content \<le> n"
    and len: "n \<le> unat len"
  shows "cpio_parse_header m a len =
     (if name = trailer then Some (1, None)
      else Some (0, Some \<lparr>hi_filename = a + 110, hi_filesize = of_nat (length content), hi_data = a + of_nat (data_offset name),
        hi_next = a + of_nat (entry_size name content)\<rparr>))"
proof -
  define nl cl where "nl = length name + 1" and "cl = length content"
  have small: "nl < 2 ^ 32" "cl < 2 ^ 32" and z: "0 \<notin> set name" and nm: "bytes_at m (a + 110) (name @ [0])"
    and hex: "bytes_at m (a + 54) (hex 8 cl)" "bytes_at m (a + 94) (hex 8 nl)"
    using e by (auto simp: entry_at_def nl_def cl_def)
  have off: "data_offset name = al4 (110 + nl)" and es: "entry_size name content = al4 (data_offset name + cl)"
    by (simp_all add: data_offset_def entry_size_def nl_def cl_def)
  have need: "110 + nl + cl \<le> n" and need': "name \<noteq> trailer \<Longrightarrow> data_offset name + cl \<le> n"
    using n al4_bounds(1) [of "110 + nl"] al4_bounds(1) [of "data_offset name + cl"]
    by (auto simp: es off nl_def cl_def split: if_splits)
  have u: "unat (of_nat nl :: u64) = nl" using small(1) by (intro unat_of_nat_u64) simp
  have "(110 :: u64) + of_nat nl + of_nat cl = of_nat (110 + nl + cl)" by simp
  moreover have "unat (of_nat (110 + nl + cl) :: u64) = 110 + nl + cl"
    using small by (intro unat_of_nat_u64) simp
  ultimately have fits: "\<not> len < 110 + of_nat nl + of_nat cl" "\<not> len < 110"
    using need len by (simp_all add: word_less_nat_alt)
  have "a + 110 + (of_nat nl - 1) = a + 110 + of_nat (length name)" by (simp add: nl_def)
  then have last: "m (a + 110 + (of_nat nl - 1)) = Some 0" using bytes_at_last [OF nm] by simp
  have foot: "(if (11 :: u64) \<le> of_nat nl then do { c \<leftarrow> cpio_strncmp m (a + 110) CPIO_FOOTER_MAGIC 11; Some (c = 0) }
      else Some False) = Some (name = trailer)"
  proof (cases "name = trailer")
    case True
    then have "nl = 11" using footer_trailer(2) by (simp add: nl_def)
    with True show ?thesis using strncmp_same [OF nm, of 11] footer_trailer by simp
  next
    case False
    obtain c where "cpio_strncmp m (a + 110) (trailer @ [0]) 11 = Some c" "c \<noteq> 0"
      using strncmp_neq [OF nm False, of 11] footer_trailer z by auto
    with False show ?thesis by (simp add: footer_trailer)
  qed
  have data: "align_up (a + 110 + of_nat nl) CPIO_ALIGNMENT = a + of_nat (data_offset name)"
    using align_up_add [OF al, of "110 + nl"] need fit by (simp add: off add.assoc)
  have nxt: "align_up (a + of_nat (data_offset name) + of_nat cl) CPIO_ALIGNMENT = a + of_nat (entry_size name content)"
    if "name \<noteq> trailer"
    using align_up_add [OF al, of "data_offset name + cl"] fit need' [OF that] by (simp add: es add.assoc)
  have magic: "cpio_strncmp m a CPIO_HEADER_MAGIC 6 = Some 0" using e by (simp add: entry_at_def strncmp_magic)
  show ?thesis
    using magic parse_hex_str_hex [OF hex(1) small(2)] parse_hex_str_hex [OF hex(2) small(1)] fits last foot data nxt
    by (simp add: cpio_parse_header_def sizeof_cpio_header_def c_filesize_def c_namesize_def Let_def cl_def [symmetric])
qed

lemma entry_size_dvd: "4 dvd entry_size name content"
  by (simp add: entry_size_def al4_bounds(3))

lemma cpio_len_next_entry:
  assumes "k \<le> unat len"
  shows "cpio_len_next len a (a + of_nat k) = len"
proof -
  have "unat (of_nat k :: u64) = k" using assms unat_u64_less [of len] by (intro unat_of_nat_u64) simp
  then show ?thesis using assms by (simp add: cpio_len_next_def word_less_nat_alt)
qed

lemma cpio_get_file_archive:
  assumes "archive_at m a files n" and "4 dvd unat a" and "unat a + n < 2 ^ 64 - 4" and "n \<le> unat len"
    and z: "0 \<notin> set name" and l: "length name < 18446744073709551615"
  shows "\<exists>p sz. cpio_get_file m a len (name @ [0]) = Some (p, sz) \<and>
     (case map_of files name of
        None \<Rightarrow> p = 0
      | Some content \<Rightarrow> p \<noteq> 0 \<and> sz = of_nat (length content) \<and> bytes_at m p content)"
  using assms(1-4)
proof (induction files arbitrary: a n)
  case Nil
  then have "cpio_parse_header m a len = Some (1, None)"
    using cpio_parse_entry [of m a trailer "[]" n len] footer_trailer(2) by simp
  then show ?case by (subst cpio_get_file.simps) simp
next
  case (Cons fl files)
  obtain nm ct where fl: "fl = (nm, ct)" by (cases fl)
  let ?k = "entry_size nm ct"
  from Cons.prems(1) have e: "entry_at m a nm ct" "nm \<noteq> trailer" "?k \<le> n"
    "archive_at m (a + of_nat ?k) files (n - ?k)" by (auto simp: fl)
  have hd: "cpio_parse_header m a len = Some (0, Some \<lparr>hi_filename = a + 110, hi_filesize = of_nat (length ct),
      hi_data = a + of_nat (data_offset nm), hi_next = a + of_nat ?k\<rparr>)"
    using cpio_parse_entry [OF e(1) Cons.prems(2,3) _ Cons.prems(4)] e(2,3) by simp
  have nmz: "bytes_at m (a + 110) (nm @ [0])" "0 \<notin> set nm" using e(1) by (auto simp: entry_at_def)
  have add: "unat (a + of_nat d) = unat a + d" if "d \<le> n" for d
  proof -
    have "a + of_nat d = of_nat (unat a + d)" by simp
    then show ?thesis using that Cons.prems(3) by (simp only:) (subst unat_of_nat_u64, simp_all)
  qed
  show ?case
  proof (cases "nm = name")
    case True
    have "110 < data_offset nm" "data_offset nm \<le> ?k"
      using al4_bounds(1) [of "110 + (length nm + 1)"] al4_bounds(1) [of "data_offset nm + length ct"]
      by (simp_all add: data_offset_def entry_size_def)
    then have "unat (a + of_nat (data_offset nm)) \<noteq> 0" using add [of "data_offset nm"] e(3) by simp
    then have "a + of_nat (data_offset nm) \<noteq> 0" by (metis unat_0)
    moreover have "cpio_strncmp m (a + 110) (name @ [0]) 18446744073709551615 = Some 0"
      using strncmp_same [of m "a + 110" name] nmz(1) l True by blast
    moreover have "bytes_at m (a + of_nat (data_offset nm)) ct" using e(1) by (simp add: entry_at_def)
    ultimately show ?thesis using hd True by (subst cpio_get_file.simps) (simp add: fl)
  next
    case False
    then obtain c where c: "cpio_strncmp m (a + 110) (name @ [0]) 18446744073709551615 = Some c" "c \<noteq> 0"
      using strncmp_neq [OF nmz(1) _ l nmz(2) z] by blast
    have k: "?k \<le> unat len" using e(3) Cons.prems(4) by simp
    have "4 dvd unat (a + of_nat ?k)" using add [OF e(3)] Cons.prems(2) entry_size_dvd by simp
    moreover have "unat (a + of_nat ?k) + (n - ?k) < 2 ^ 64 - 4" using add [OF e(3)] e(3) Cons.prems(3) by simp
    moreover have "n - ?k \<le> unat len" using Cons.prems(4) by simp
    ultimately show ?thesis using Cons.IH [OF e(4)] False c hd cpio_len_next_entry [OF k, of a]
      by (subst cpio_get_file.simps) (simp add: fl)
  qed
qed

section \<open>Writing archives\<close>

text \<open>The archive of a list of files, as a tool like \<open>cpio -o -H newc\<close> writes it; the fields that nobody reads are zeros.\<close>

definition cpio_entry :: "byte list \<Rightarrow> byte list \<Rightarrow> byte list" where
  "cpio_entry name content =
     butlast CPIO_HEADER_MAGIC @ replicate 48 0x30 @ hex 8 (length content) @ replicate 32 0x30 @ hex 8 (length name + 1) @
     replicate 8 0x30 @ (name @ [0]) @ replicate (data_offset name - (110 + (length name + 1))) 0 @
     content @ replicate (entry_size name content - (data_offset name + length content)) 0"

definition cpio_archive :: "(byte list \<times> byte list) list \<Rightarrow> byte list" where
  "cpio_archive files = concat (map (\<lambda>(name, content). cpio_entry name content) files) @ cpio_entry trailer []"

definition file_ok :: "byte list \<times> byte list \<Rightarrow> bool" where
  "file_ok = (\<lambda>(name, content). 0 \<notin> set name \<and> name \<noteq> trailer \<and> length name + 1 < 2 ^ 32 \<and> length content < 2 ^ 32)"

lemma data_offset_ge: "110 + (length name + 1) \<le> data_offset name" "data_offset name + length content \<le> entry_size name content"
  unfolding data_offset_def entry_size_def by (rule al4_bounds(1))+

lemma length_cpio_entry: "length (cpio_entry name content) = entry_size name content"
proof -
  have "110 + (length name + 1) \<le> data_offset name" "data_offset name + length content \<le> entry_size name content"
    by (rule data_offset_ge)+
  then show ?thesis by (simp add: cpio_entry_def CPIO_HEADER_MAGIC_def)
qed

lemma entry_at_entry:
  assumes b: "bytes_at m a (cpio_entry name content)" and "0 \<notin> set name" and "length name + 1 < 2 ^ 32" and "length content < 2 ^ 32"
  shows "entry_at m a name content"
proof -
  have "of_nat (data_offset name) = (111 + of_nat (length name) + of_nat (data_offset name - (110 + (length name + 1))) :: u64)"
    using arg_cong [OF le_add_diff_inverse [OF data_offset_ge(1), of name], of "of_nat :: nat \<Rightarrow> u64"] by simp
  then have off: "a + 110 + (1 + of_nat (length name)) + of_nat (data_offset name - (110 + (length name + 1))) =
      a + of_nat (data_offset name)" by (simp add: algebra_simps)
  have parts: "bytes_at m a (butlast CPIO_HEADER_MAGIC)" "bytes_at m (a + 54) (hex 8 (length content))"
    "bytes_at m (a + 94) (hex 8 (length name + 1))" "bytes_at m (a + 110) (name @ [0])"
    "bytes_at m (a + 110 + (1 + of_nat (length name)) + of_nat (data_offset name - (110 + (length name + 1)))) content"
    using b by (simp_all add: cpio_entry_def bytes_at_append [of _ _ "_ @ _"] bytes_at_append CPIO_HEADER_MAGIC_def add.assoc)
  then show ?thesis using assms(2-4) by (simp only: off entry_at_def) simp
qed

lemma archive_at_archive:
  assumes "bytes_at m a (cpio_archive files)" and "\<forall>f \<in> set files. file_ok f"
  shows "archive_at m a files (length (cpio_archive files))"
  using assms
proof (induction files arbitrary: a)
  case Nil
  then have "bytes_at m a (cpio_entry trailer [])" by (simp add: cpio_archive_def)
  then have "entry_at m a trailer []" using footer_trailer by (intro entry_at_entry) simp_all
  moreover have "121 \<le> entry_size trailer []"
    using data_offset_ge(1) [of trailer] data_offset_ge(2) [of trailer "[]"] footer_trailer(2) by simp
  ultimately show ?case by (simp add: cpio_archive_def length_cpio_entry)
next
  case (Cons fl files)
  obtain nm ct where fl: "fl = (nm, ct)" by (cases fl)
  have split: "cpio_archive (fl # files) = cpio_entry nm ct @ cpio_archive files" by (simp add: cpio_archive_def fl)
  from Cons.prems have b: "bytes_at m a (cpio_entry nm ct)" "bytes_at m (a + of_nat (entry_size nm ct)) (cpio_archive files)"
    by (simp_all add: split bytes_at_append length_cpio_entry)
  have ok: "0 \<notin> set nm" "nm \<noteq> trailer" "length nm + 1 < 2 ^ 32" "length ct < 2 ^ 32"
    using Cons.prems(2) by (auto simp: fl file_ok_def)
  show ?case using entry_at_entry [OF b(1) ok(1,3,4)] Cons.IH [OF b(2)] Cons.prems(2) ok(2)
    by (simp add: split [unfolded fl] fl length_cpio_entry)
qed

text \<open>
  C38. Files are found by name. When memory holds the archive of \<open>files\<close> at an aligned address, \<open>cpio_get_file\<close> returns for every name: the address and the size of the content of the first file with that name,
  or \<open>NULL\<close> when there is no such file. The length passed may be any that covers the archive.
\<close>

theorem cpio_get_file_finds:
  assumes "bytes_at m a (cpio_archive files)" and "\<forall>f \<in> set files. file_ok f" and "4 dvd unat a"
    and "unat a + length (cpio_archive files) < 2 ^ 64 - 4" and "length (cpio_archive files) \<le> unat len"
    and "0 \<notin> set name" and "length name < 2 ^ 64 - 1"
  shows "\<exists>p sz. cpio_get_file m a len (name @ [0]) = Some (p, sz) \<and>
     (case map_of files name of
        None \<Rightarrow> p = 0
      | Some content \<Rightarrow> p \<noteq> 0 \<and> sz = of_nat (length content) \<and> bytes_at m p content)"
  using cpio_get_file_archive [OF archive_at_archive [OF assms(1,2)] assms(3-6)] assms(7) by simp

text \<open>A memory that holds one list of bytes.\<close>

definition mem_of :: "u64 \<Rightarrow> byte list \<Rightarrow> mem" where
  "mem_of a bs x = (if unat (x - a) < length bs then Some (bs ! unat (x - a)) else None)"

lemma bytes_at_mem_of_drop:
  "i + length xs = length bs \<Longrightarrow> drop i bs = xs \<Longrightarrow> length bs < 2 ^ 64 \<Longrightarrow> bytes_at (mem_of a bs) (a + of_nat i) xs"
proof (induction xs arbitrary: i)
  case (Cons x xs)
  have "unat (of_nat i :: u64) = i" using Cons.prems by (intro unat_of_nat_u64) simp
  moreover have "bs ! i = x" using Cons.prems(2) by (metis nth_via_drop)
  moreover have "drop (Suc i) bs = xs" using Cons.prems(2) by (metis drop_Suc drop_tl list.sel(3))
  ultimately show ?case using Cons.IH [of "Suc i"] Cons.prems(1,3) by (simp add: mem_of_def algebra_simps)
qed simp

lemma bytes_at_mem_of: "length bs < 2 ^ 64 \<Longrightarrow> bytes_at (mem_of a bs) a bs"
  using bytes_at_mem_of_drop [of 0 bs bs a] by simp

theorem cpio_get_file_finds_witness:
  "\<exists>p sz. cpio_get_file (mem_of 0x1000 (cpio_archive [([0x61], [42, 43])])) 0x1000 1000 ([0x61] @ [0]) = Some (p, sz) \<and>
     sz = 2 \<and> bytes_at (mem_of 0x1000 (cpio_archive [([0x61], [42, 43])])) p [42, 43]"
proof -
  let ?files = "[([0x61], [42, 43])] :: (byte list \<times> byte list) list"
  have len: "length (cpio_archive ?files) = 240"
    using footer_trailer(2) by (simp add: cpio_archive_def length_cpio_entry entry_size_def data_offset_def al4_def)
  have "file_ok ([0x61], [42, 43])" by (simp add: file_ok_def trailer_def CPIO_FOOTER_MAGIC_def)
  then show ?thesis
    using cpio_get_file_finds [OF bytes_at_mem_of [of "cpio_archive ?files" "0x1000"], of "1000" "[0x61]"] len by auto
qed

text \<open>
  The remaining length is not reduced: \<open>cpio_len_next\<close> returns the old length whenever the entry fits. A second header is therefore checked against the length of the whole archive, so that an
  archive that is cut off after its first entry is read beyond its end.
\<close>

lemma cpio_len_next_keeps: "next_p - prev \<le> len \<Longrightarrow> cpio_len_next len prev next_p = len"
  by (auto simp: cpio_len_next_def)

end
