(* ===== verification/Elf_Load.thy ===== *)
theory Elf_Load
  imports Frame_Alloc Elf_Proofs Cpio_Proofs
begin

text \<open>
  The loader of SOS, \<open>sos/src/elf.c\<close>: it copies the loadable segments of a file into frames of the frame table and maps these frames into an address space. Every frame of the frame table
  is also mapped in SOS, in the window of \<open>frame_data\<close>, where the loader writes it.
\<close>

section \<open>Definitions\<close>

definition PF_X :: u64 where "PF_X = 1"
definition PF_W :: u64 where "PF_W = 2"
definition PF_R :: u64 where "PF_R = 4"
definition PT_LOAD :: u64 where "PT_LOAD = 1"

definition get_sel4_rights_from_elf :: "u64 \<Rightarrow> cap_rights" where
  "get_sel4_rights_from_elf permissions =
     (let can_read = permissions AND PF_R \<noteq> 0 \<or> permissions AND PF_X \<noteq> 0;
          can_write = permissions AND PF_W \<noteq> 0
      in if \<not> can_read \<and> \<not> can_write then seL4_AllRights else CapRights False False can_read can_write)"

text \<open>The part of \<open>load_segment_into_vspace\<close> that writes one page at \<open>loader_data\<close>.\<close>

definition fill_page :: "u64 \<Rightarrow> u64 \<Rightarrow> u64 \<Rightarrow> u64 \<Rightarrow> u32 \<Rightarrow> mem \<Rightarrow> mem option" where
  "fill_page loader_data src file_size dst pos m = do {
     let leading_zeroes = dst mod of_nat PAGE_SIZE_4K;
     m \<leftarrow> memset loader_data 0 (unat leading_zeroes) m;
     let loader_data = loader_data + leading_zeroes;
     let segment_bytes = of_nat PAGE_SIZE_4K - leading_zeroes;
     let file_bytes = min segment_bytes (file_size - ucast pos);
     m \<leftarrow> (if ucast pos < file_size then memcpy loader_data src (unat file_bytes) m
           else memset loader_data 0 (unat file_bytes) m);
     let loader_data = loader_data + file_bytes;
     let trailing_zeroes = of_nat PAGE_SIZE_4K - (leading_zeroes + file_bytes);
     memset loader_data 0 (unat trailing_zeroes) m
   }"

text \<open>What the loader changes: the frame table, the capability space with the rest of the system, and the memory.\<close>

type_synonym 'k loader = "frame_table_t \<times> ('k env cspace_t \<times> 'k env) \<times> mem"

text \<open>
  One round of the loop, for the page of \<open>dst\<close>. The capability space of the frame table is that of the loader. The result is the value returned early, or 0 to go on.
\<close>

definition load_page ::
    "'k sel4 \<Rightarrow> frame_table_ctx \<Rightarrow> nat \<Rightarrow> cptr \<Rightarrow> u64 \<Rightarrow> u64 \<Rightarrow> u64 \<Rightarrow> cap_rights \<Rightarrow> u32 \<Rightarrow>
     'k loader \<Rightarrow> (int \<times> 'k loader) option" where
  "load_page S ctx limit loadee src file_size dst permissions pos = (\<lambda>(ft, (cs, w), m). do {
     loadee_vaddr \<leftarrow> ROUND_DOWN dst (of_nat PAGE_SIZE_4K);
     (loadee_frame, cs, w) \<leftarrow> cspace_alloc_slot (env_call S) cs w;
     if loadee_frame = seL4_CapNull then Some (- 1, ft, (cs, w), m)
     else do {
       (frame, ft, cs, w) \<leftarrow> alloc_frame (alloc_frame_at S ctx) limit ft (cs, w);
       if frame = NULL_FRAME then Some (- 1, ft, (cs, w), m)
       else do {
         page \<leftarrow> frame_page ft frame;
         let (err, w) = cspace_copy (env_call S) cs loadee_frame cs page seL4_AllRights w;
         if err \<noteq> seL4_NoError then Some (- 1, ft, (cs, w), m)
         else do {
           (err, cs, w) \<leftarrow> map_frame S loadee_frame loadee loadee_vaddr permissions seL4_ARM_Default_VMAttributes cs w;
           let already_mapped = (err = seL4_DeleteFirst);
           (ft, cs, w) \<leftarrow> (if already_mapped then do {
                              let (_, w) = cspace_delete (env_call S) cs loadee_frame w;
                              cs \<leftarrow> cspace_free_slot cs loadee_frame;
                              ft \<leftarrow> free_frame frame ft;
                              Some (ft, cs, w)
                            } else Some (ft, cs, w));
           if \<not> already_mapped \<and> err \<noteq> seL4_NoError then Some (- 1, ft, (cs, w), m)
           else do {
             loader_data \<leftarrow> frame_data ft frame;
             m \<leftarrow> fill_page loader_data src file_size dst pos m;
             w \<leftarrow> flush_frame (env_call S) frame ft w;
             let w = (if canWrite permissions
                      then snd (env_call S (ARM_Page_Invalidate_Data loadee_frame 0 (of_nat PAGE_SIZE_4K)) w) else w);
             let w = snd (env_call S (ARM_Page_Unify_Instruction loadee_frame 0 (of_nat PAGE_SIZE_4K)) w);
             Some (0, ft, (cs, w), m)
           }
         }
       }
     }
   })"

text \<open>\<open>pos\<close> is an \<open>unsigned int\<close>: the sum is cut to 32 bits.\<close>

partial_function (option) load_segment_loop ::
    "'k sel4 \<Rightarrow> frame_table_ctx \<Rightarrow> nat \<Rightarrow> cptr \<Rightarrow> u64 \<Rightarrow> u64 \<Rightarrow> u64 \<Rightarrow> u64 \<Rightarrow> cap_rights \<Rightarrow> u32 \<Rightarrow>
     'k loader \<Rightarrow> (int \<times> 'k loader) option" where
  "load_segment_loop S ctx limit loadee src segment_size file_size dst permissions pos s =
     (if ucast pos < segment_size then do {
        (err, s) \<leftarrow> load_page S ctx limit loadee src file_size dst permissions pos s;
        if err \<noteq> 0 then Some (err, s)
        else do {
          let segment_bytes = of_nat PAGE_SIZE_4K - dst mod of_nat PAGE_SIZE_4K;
          load_segment_loop S ctx limit loadee (src + segment_bytes) segment_size file_size
            (dst + segment_bytes) permissions (ucast (ucast pos + segment_bytes :: u64)) s
        }
      } else Some (0, s))"

definition load_segment_into_vspace ::
    "'k sel4 \<Rightarrow> frame_table_ctx \<Rightarrow> nat \<Rightarrow> cptr \<Rightarrow> u64 \<Rightarrow> u64 \<Rightarrow> u64 \<Rightarrow> u64 \<Rightarrow> cap_rights \<Rightarrow>
     'k loader \<Rightarrow> (int \<times> 'k loader) option" where
  "load_segment_into_vspace S ctx limit loadee src segment_size file_size dst permissions s = do {
     c_assert (file_size \<le> segment_size);
     load_segment_loop S ctx limit loadee src segment_size file_size dst permissions 0 s
   }"

text \<open>The loop of \<open>elf_load\<close> over the program headers, from header \<open>i\<close>.\<close>

fun elf_load_headers ::
    "'k sel4 \<Rightarrow> frame_table_ctx \<Rightarrow> nat \<Rightarrow> cptr \<Rightarrow> elf_t \<Rightarrow> nat list \<Rightarrow> 'k loader \<Rightarrow> (int \<times> 'k loader) option" where
  "elf_load_headers S ctx limit loadee f [] s = Some (0, s)"
| "elf_load_headers S ctx limit loadee f (i # is) s = do {
     let m = snd (snd s);
     typ \<leftarrow> elf_getProgramHeaderType m f (of_nat i);
     if typ \<noteq> PT_LOAD then elf_load_headers S ctx limit loadee f is s
     else do {
       offset \<leftarrow> elf_getProgramHeaderOffset m f (of_nat i);
       file_size \<leftarrow> elf_getProgramHeaderFileSize m f (of_nat i);
       segment_size \<leftarrow> elf_getProgramHeaderMemorySize m f (of_nat i);
       vaddr \<leftarrow> elf_getProgramHeaderVaddr m f (of_nat i);
       flags \<leftarrow> elf_getProgramHeaderFlags m f (of_nat i);
       (err, s) \<leftarrow> load_segment_into_vspace S ctx limit loadee (elfFile f + offset) segment_size file_size vaddr
                      (get_sel4_rights_from_elf flags) s;
       if err \<noteq> 0 then Some (- 1, s) else elf_load_headers S ctx limit loadee f is s
     }
   }"

definition elf_load ::
    "'k sel4 \<Rightarrow> frame_table_ctx \<Rightarrow> nat \<Rightarrow> cptr \<Rightarrow> elf_t \<Rightarrow> 'k loader \<Rightarrow> (int \<times> 'k loader) option" where
  "elf_load S ctx limit loadee_vspace f s = do {
     num_headers \<leftarrow> elf_getNumProgramHeaders (snd (snd s)) f;
     elf_load_headers S ctx limit loadee_vspace f [0..<unat num_headers] s
   }"

section \<open>One page\<close>

text \<open>How many bytes of the file go into the page of \<open>dst\<close>, when \<open>pos\<close> bytes of the segment are loaded.\<close>

definition page_file_bytes :: "u64 \<Rightarrow> u64 \<Rightarrow> u32 \<Rightarrow> nat" where
  "page_file_bytes file_size dst pos = min (4096 - unat dst mod 4096) (unat file_size - unat pos)"

lemma unat_ucast_pos [simp]: "unat (ucast (pos :: u32) :: u64) = unat pos"
  by (simp add: unsigned_ucast_eq take_bit_nat_eq_self_iff) (rule order.strict_trans [OF unsigned_less], simp)

lemma put_replicate: "put (base + of_nat n) (replicate k b) (put base bs m) = put base (bs @ replicate k b) m"
  if "n = length bs" "n + k \<le> 2 ^ 63"
  using put_put [of bs "replicate k b" base m] that by simp

lemma min_of_nat_u64: "a < 2 ^ 64 \<Longrightarrow> b < 2 ^ 64 \<Longrightarrow> min (of_nat a) (of_nat b :: u64) = of_nat (min a b)"
  by (auto simp: min_def word_le_nat_alt unat_of_nat_u64)

lemma file_rest:
  assumes "ucast (pos :: u32) < (file_size :: u64)"
  shows "file_size - ucast pos = of_nat (unat file_size - unat pos)"
proof -
  have "unat (file_size - ucast pos) = unat file_size - unat pos"
    using assms by (subst unat_sub) auto
  then show ?thesis by (metis of_nat_unat ucast_id)
qed

lemma fill_page_put:
  assumes rd: "readable m base 4096" and ld: "load_bytes m src (page_file_bytes file_size dst pos) = Some bs"
    and apart: "\<And>i. i < page_file_bytes file_size dst pos \<Longrightarrow> 4096 \<le> unat (src + of_nat i - base)"
  shows "fill_page base src file_size dst pos m =
     Some (put base (replicate (unat dst mod 4096) 0 @ bs @
             replicate (4096 - unat dst mod 4096 - page_file_bytes file_size dst pos) 0) m)"
proof -
  define L n where "L = unat dst mod 4096" and "n = page_file_bytes file_size dst pos"
  have L: "L < 4096" and n: "n \<le> 4096 - L" by (simp_all add: L_def n_def page_file_bytes_def)
  have len: "length bs = n" using load_bytes_nth [OF ld] by (simp add: n_def)
  have lz: "dst mod 4096 = of_nat L" by (simp add: L_def unat_mod word_unat_eq_iff unat_of_nat_u64)
  have small: "unat (of_nat i :: u64) = i" if "i \<le> 4096" for i using that by (intro unat_of_nat_u64) simp
  let ?m1 = "put base (replicate L 0) m"
  have m1: "memset base 0 L m = Some ?m1"
    using readable_part [OF rd, of 0 L] L by (intro memset_put) auto
  have rdL: "readable (put base xs m) (base + of_nat i) k" if "i + k \<le> 4096" for xs i k
    using readable_part [OF rd that] by simp
  have sb: "(4096 - of_nat L :: u64) = of_nat (4096 - L)" using L by simp
  have tz: "(4096 - (of_nat L + of_nat k) :: u64) = of_nat (4096 - L - k)" if "k \<le> 4096 - L" for k
    using L that by (simp add: algebra_simps)
  have fin: "memset (base + of_nat L + of_nat k) 0 (4096 - L - k) (put base xs m) =
      Some (put base (xs @ replicate (4096 - L - k) 0) m)" if "k \<le> 4096 - L" "length xs = L + k" for k xs
  proof -
    have "memset (base + of_nat (L + k)) 0 (4096 - L - k) (put base xs m) =
        Some (put (base + of_nat (L + k)) (replicate (4096 - L - k) 0) (put base xs m))"
      using that L by (intro memset_put rdL) auto
    then show ?thesis using that L put_replicate [of "L + k" xs "4096 - L - k" base 0 m] by (simp add: add.assoc)
  qed
  show ?thesis
  proof (cases "ucast pos < file_size")
    case True
    have fs: "unat file_size < 2 ^ 64" using unsigned_less [of file_size] by simp
    have nn: "min (of_nat (4096 - L)) (file_size - ucast pos) = (of_nat n :: u64)"
      unfolding file_rest [OF True] n_def page_file_bytes_def L_def [symmetric]
      using L fs by (intro min_of_nat_u64) auto
    have "load_bytes ?m1 src n = load_bytes m src n"
      using apart L by (intro load_bytes_cong) (auto simp: put_def n_def dest!: apart)
    then have "memcpy (base + of_nat L) src n ?m1 = Some (put (base + of_nat L) bs ?m1)"
      using ld n L by (intro memcpy_put rdL) (auto simp: n_def)
    moreover have "put (base + of_nat L) bs ?m1 = put base (replicate L 0 @ bs) m"
      using put_put [of "replicate L 0" bs base m] len n L by simp
    ultimately show ?thesis
      using m1 fin [of n "replicate L 0 @ bs"] n L len True
      by (simp add: fill_page_def PAGE_SIZE_4K_def lz sb nn small tz n_def [symmetric] L_def [symmetric] del: of_nat_diff)
  next
    case False
    define k where "k = unat (min (of_nat (4096 - L)) (file_size - ucast pos))"
    have fb: "min (of_nat (4096 - L)) (file_size - ucast pos) = (of_nat k :: u64)" by (simp add: k_def)
    have "k \<le> unat (of_nat (4096 - L) :: u64)" unfolding k_def word_le_nat_alt [symmetric] by simp
    then have k: "k \<le> 4096 - L" by (simp add: small del: of_nat_diff)
    have n0: "n = 0" using False by (simp add: n_def page_file_bytes_def word_less_nat_alt)
    have "memset (base + of_nat L) 0 k ?m1 = Some (put (base + of_nat L) (replicate k 0) ?m1)"
      using k L by (intro memset_put rdL) auto
    also have "put (base + of_nat L) (replicate k 0) ?m1 = put base (replicate (L + k) 0) m"
      using put_replicate [of L "replicate L 0" k base 0 m] k L by (simp add: replicate_add)
    finally have m2: "memset (base + of_nat L) 0 k ?m1 = Some (put base (replicate (L + k) 0) m)" .
    have m3: "memset (base + of_nat L + of_nat k) 0 (4096 - L - k) (put base (replicate (L + k) 0) m) =
        Some (put base (replicate L 0 @ replicate (4096 - L) 0) m)"
      using fin [OF k, of "replicate (L + k) 0"] k L by (simp add: replicate_add [symmetric])
    have "bs = []" using len n0 by simp
    then show ?thesis
      using m1 m2 m3 k L False n0
      by (simp add: fill_page_def PAGE_SIZE_4K_def lz sb fb small tz n_def [symmetric] L_def [symmetric] del: of_nat_diff)
  qed
qed

text \<open>The bytes of a segment: the file, then zeros.\<close>

definition segment_byte :: "mem \<Rightarrow> u64 \<Rightarrow> nat \<Rightarrow> nat \<Rightarrow> byte option" where
  "segment_byte m src sz i = (if i < sz then m (src + of_nat i) else Some 0)"

definition page_byte :: "mem \<Rightarrow> u64 \<Rightarrow> nat \<Rightarrow> nat \<Rightarrow> nat \<Rightarrow> byte option" where
  "page_byte m src sz lead p = (if p < lead then Some 0 else segment_byte m src sz (p - lead))"

lemma fill_page_spec:
  assumes rd: "readable m base 4096" and src: "readable m src (unat file_size - unat pos)"
    and apart: "\<And>i. i < unat file_size - unat pos \<Longrightarrow> 4096 \<le> unat (src + of_nat i - base)"
  shows "\<exists>m'. fill_page base src file_size dst pos m = Some m' \<and>
           (\<forall>p < 4096. m' (base + of_nat p) = page_byte m src (unat file_size - unat pos) (unat dst mod 4096) p) \<and>
           (\<forall>x. 4096 \<le> unat (x - base) \<longrightarrow> m' x = m x) \<and> (\<forall>x. m x \<noteq> None \<longrightarrow> m' x \<noteq> None)"
proof -
  define L n where "L = unat dst mod 4096" and "n = page_file_bytes file_size dst pos"
  have L: "L < 4096" and n: "n = min (4096 - L) (unat file_size - unat pos)"
    by (simp_all add: L_def n_def page_file_bytes_def)
  have "readable m src n" using src n by (simp add: readable_def)
  then obtain bs where ld: "load_bytes m src n = Some bs" using load_bytes_readable by blast
  note bs = load_bytes_nth [OF ld]
  let ?pg = "replicate L 0 @ bs @ replicate (4096 - L - n) 0"
  have "fill_page base src file_size dst pos m = Some (put base ?pg m)"
    using fill_page_put [OF rd ld [unfolded n_def]] apart n by (simp add: L_def n_def)
  moreover have len: "length ?pg = 4096" using bs L n by simp
  moreover have "put base ?pg m (base + of_nat p) = page_byte m src (unat file_size - unat pos) L p" if p: "p < 4096" for p
  proof -
    have "unat (of_nat p :: u64) = p" using p by (intro unat_of_nat_u64) simp
    with p len have "put base ?pg m (base + of_nat p) = Some (?pg ! p)" by (simp add: put_def)
    also have "\<dots> = page_byte m src (unat file_size - unat pos) L p"
      using p L n bs by (auto simp: nth_append page_byte_def segment_byte_def)
    finally show ?thesis .
  qed
  moreover have "put base ?pg m x = m x" if "4096 \<le> unat (x - base)" for x
    using that len by (simp only: put_def if_False not_less [symmetric] simp_thms)
  moreover have "put base ?pg m x \<noteq> None" if "m x \<noteq> None" for x using that by (simp add: put_def)
  ultimately show ?thesis unfolding L_def by blast
qed

section \<open>One round\<close>

text \<open>A kernel for which no page is mapped yet where the loader maps one.\<close>

definition never_mapped :: "'k sel4 \<Rightarrow> bool" where
  "never_mapped S \<longleftrightarrow> (\<forall>i k. fst (sys_call S i k) \<noteq> seL4_DeleteFirst)"

lemma never_mapped_call: "never_mapped S \<Longrightarrow> env_call S i w = (e, w') \<Longrightarrow> e \<noteq> seL4_DeleteFirst"
  by (auto simp: never_mapped_def env_call_def split: prod.splits) (metis fst_conv)

lemma map_missing_fresh:
  assumes "never_mapped S" and "map_missing S cs ns vspace vaddr i s w = Some (Inr e, s', w')"
  shows "e \<noteq> seL4_DeleteFirst"
  using assms never_mapped_call [OF assms(1), unfolded seL4_DeleteFirst_def]
  by (auto simp: map_missing_def retype_map_pt_def retype_map_pd_def retype_map_pud_def untyped_retype_at_def Let_def
      seL4_FailedLookup_def seL4_DeleteFirst_def elim!: bind_SomeE split: if_splits prod.splits; blast)

lemma map_missing_fails:
  "map_missing S cs ns vspace vaddr i s w = Some (Inl e, s', w') \<Longrightarrow> e = - 1"
  by (auto simp: map_missing_def Let_def elim!: bind_SomeE split: if_splits prod.splits)

lemma map_frame_loop_fresh:
  assumes "never_mapped S" and "map_frame_loop S cs ns mc vspace vaddr i err s w = Some (e, s', w')" and "err \<noteq> seL4_DeleteFirst"
  shows "e \<noteq> seL4_DeleteFirst"
  using assms
proof (induction S cs ns mc vspace vaddr i err s w rule: map_frame_loop.induct)
  case (1 S cs ns mc vspace vaddr i err s w)
  show ?case
  proof (cases "i < MAPPING_SLOTS \<and> err = seL4_FailedLookup")
    case True
    with 1(3) obtain r s1 w1 where mm: "map_missing S cs ns vspace vaddr i s w = Some (r, s1, w1)"
      by (auto simp: map_frame_loop.simps split: option.splits)
    show ?thesis
    proof (cases r)
      case (Inl e1)
      with mm 1(3) True map_missing_fails [OF mm [unfolded Inl]] show ?thesis
        by (auto simp: map_frame_loop.simps seL4_DeleteFirst_def)
    next
      case (Inr e1)
      obtain e2 w2 where c: "(if e1 = 0 then env_call S mc w1 else (e1, w1)) = (e2, w2)" by fastforce
      then have e2: "e2 \<noteq> seL4_DeleteFirst"
        using map_missing_fresh [OF 1(2) mm [unfolded Inr]] never_mapped_call [OF 1(2)] by (auto split: if_splits)
      have "map_frame_loop S cs ns mc vspace vaddr (i + 1) e2 s1 w2 = Some (e, s', w')"
        using 1(3) True mm Inr c by (simp add: map_frame_loop.simps [of S cs ns mc vspace vaddr i])
      from 1(1) [OF True mm refl Inr refl refl c [symmetric] 1(2) this e2] show ?thesis .
    qed
  next
    case False
    with 1 show ?thesis by (auto simp: map_frame_loop.simps)
  qed
qed

lemma map_frame_fresh:
  assumes "never_mapped S" and "map_frame S f vspace vaddr rights attr cs w = Some (e, cs', w')"
  shows "e \<noteq> seL4_DeleteFirst"
proof -
  obtain e1 w1 where c: "env_call S (ARM_Page_Map f vspace vaddr rights attr) w = (e1, w1)" by fastforce
  with assms(2) have "map_frame_loop S (root_cnode cs, two_level cs) (slots_from_cspace S)
      (ARM_Page_Map f vspace vaddr rights attr) vspace vaddr 0 e1 cs w1 = Some (e, cs', w')"
    by (simp add: map_frame_def map_frame_impl_def Let_def)
  from map_frame_loop_fresh [OF assms(1) this never_mapped_call [OF assms(1) c]] show ?thesis .
qed

text \<open>A round that succeeds has allocated one frame and written its page.\<close>

lemma load_page_ok:
  assumes S: "never_mapped S" and inv: "ft_inv limit ft fs al" and bound: "max 1 (ft_used ft) < 2 ^ 19"
    and run: "load_page S ctx limit loadee src file_size dst perms pos (ft, (cs, w), m) = Some (0, ft', cw', m')"
  shows "\<exists>r fs'. ft_inv limit ft' fs' (al @ [r]) \<and> ft_used ft' \<le> Suc (max 1 (ft_used ft)) \<and>
           fill_page (SOS_FRAME_DATA + of_nat r * 4096) src file_size dst pos m = Some m'"
proof -
  obtain c cs1 w1 where slot: "cspace_alloc_slot (env_call S) cs w = Some (c, cs1, w1)" and c: "c \<noteq> seL4_CapNull"
    using run by (auto simp: load_page_def elim!: bind_SomeE split: if_splits)
  obtain r ft2 cs2 w2 where fr: "alloc_frame (alloc_frame_at S ctx) limit ft (cs1, w1) = Some (r, ft2, cs2, w2)"
    using run slot c by (auto simp: load_page_def elim!: bind_SomeE)
  from alloc_frame_inv [OF inv bound fr] obtain fs' where a: "ft_inv limit ft2 fs' (al @ [r])" "0 < r"
    "ft_used ft2 \<le> Suc (max 1 (ft_used ft))" by blast
  then have r: "r \<noteq> NULL_FRAME" by (simp add: NULL_FRAME_def)
  obtain v page where vp: "ROUND_DOWN dst (of_nat PAGE_SIZE_4K) = Some v" "frame_page ft2 r = Some page"
    using run slot c fr r by (auto simp: load_page_def elim!: bind_SomeE)
  obtain w3 where cp: "cspace_copy (env_call S) cs2 c cs2 page seL4_AllRights w2 = (seL4_NoError, w3)"
    using run slot c fr r vp by (auto simp: load_page_def split: prod.splits if_splits)
  obtain e cs3 w4 where mf: "map_frame S c loadee v perms seL4_ARM_Default_VMAttributes cs2 w3 = Some (e, cs3, w4)"
    using run slot c fr r vp cp by (auto simp: load_page_def elim!: bind_SomeE)
  with map_frame_fresh [OF S] have "e \<noteq> seL4_DeleteFirst" by blast
  then have "do { d \<leftarrow> frame_data ft2 r; fill_page d src file_size dst pos m } = Some m'" and "ft' = ft2"
    using run slot c fr r vp cp mf by (auto simp: load_page_def Let_def elim!: bind_SomeE split: if_splits)
  then have "fill_page (SOS_FRAME_DATA + of_nat r * 4096) src file_size dst pos m = Some m'"
    by (auto simp: frame_data_def c_assert_def PAGE_SIZE_4K_def split: if_splits)
  with a \<open>ft' = ft2\<close> show ?thesis by blast
qed

section \<open>A segment\<close>

text \<open>The address in SOS of byte \<open>p\<close> of the pages \<open>refs\<close>, and whether an address lies in one of these pages.\<close>

definition page_addr :: "nat list \<Rightarrow> nat \<Rightarrow> u64" where
  "page_addr refs p = SOS_FRAME_DATA + of_nat (refs ! (p div 4096)) * 4096 + of_nat (p mod 4096)"

definition in_pages :: "nat list \<Rightarrow> u64 \<Rightarrow> bool" where
  "in_pages refs x \<longleftrightarrow> (\<exists>r \<in> set refs. unat (x - (SOS_FRAME_DATA + of_nat r * 4096)) < 4096)"

text \<open>The window of frames is mapped in SOS, and the \<open>n\<close> bytes at \<open>src\<close> are readable and outside of it.\<close>

definition loader_mem :: "mem \<Rightarrow> u64 \<Rightarrow> nat \<Rightarrow> bool" where
  "loader_mem m src n \<longleftrightarrow> readable m SOS_FRAME_DATA (2 ^ 31) \<and> readable m src n \<and>
     (\<forall>i < n. 2 ^ 31 \<le> unat (src + of_nat i - SOS_FRAME_DATA))"

lemma window_offset:
  assumes "r < 2 ^ 19"
  shows "unat (of_nat r * 4096 :: u64) = r * 4096"
proof -
  have "unat (of_nat (r * 4096) :: u64) = r * 4096" using assms by (intro unat_of_nat_u64) simp
  then show ?thesis by simp
qed

lemma window_readable:
  assumes "readable m SOS_FRAME_DATA (2 ^ 31)" and "r < 2 ^ 19"
  shows "readable m (SOS_FRAME_DATA + of_nat r * 4096) 4096"
  using readable_part [OF assms(1), of "r * 4096" 4096] assms(2) by simp

lemma outside_window:
  assumes "2 ^ 31 \<le> unat (x - SOS_FRAME_DATA)" and "r < 2 ^ 19"
  shows "4096 \<le> unat (x - (SOS_FRAME_DATA + of_nat r * 4096))"
proof -
  have "unat (x - SOS_FRAME_DATA - of_nat r * 4096) = unat (x - SOS_FRAME_DATA) - r * 4096"
    using assms by (subst unat_sub) (simp_all add: word_le_nat_alt window_offset)
  then show ?thesis using assms by (simp add: diff_diff_eq)
qed

lemma pages_apart:
  assumes "r < 2 ^ 19" and "q < 2 ^ 19" and "q \<noteq> r" and "j < 4096"
  shows "4096 \<le> unat (SOS_FRAME_DATA + of_nat q * 4096 + of_nat j - (SOS_FRAME_DATA + of_nat r * 4096))"
proof -
  let ?a = "of_nat (q * 4096 + j) :: u64" and ?b = "of_nat (r * 4096) :: u64"
  have e: "SOS_FRAME_DATA + of_nat q * 4096 + of_nat j - (SOS_FRAME_DATA + of_nat r * 4096) = ?a - ?b" by simp
  have u: "unat ?a = q * 4096 + j" "unat ?b = r * 4096" using assms by (intro unat_of_nat_u64; simp)+
  show ?thesis unfolding e using assms u
    by (cases "q < r") (auto simp: unat_sub_if' simp del: of_nat_add of_nat_mult)
qed

lemma next_multiple: "0 < b \<Longrightarrow> (n + (b - n mod b)) mod b = (0 :: nat)"
proof -
  assume b: "0 < b"
  then have "n mod b \<le> b" "n mod b \<le> n" by (simp_all add: less_imp_le)
  then have "n + (b - n mod b) = (n - n mod b) + b" by simp
  then show ?thesis by (simp add: minus_mod_eq_mult_div)
qed

lemma next_page_mod: "unat (dst + (4096 - dst mod 4096) :: u64) mod 4096 = 0"
proof -
  let ?L = "unat dst mod 4096"
  have "dst mod 4096 \<le> 4096" by (simp add: word_le_nat_alt unat_mod)
  then have u: "unat (4096 - dst mod 4096) = 4096 - ?L" by (subst unat_sub) (simp_all add: unat_mod)
  have "unat (dst + (4096 - dst mod 4096)) mod 4096 = (unat dst + (4096 - ?L)) mod 4096"
    unfolding unat_word_ariths(1) u by (simp add: mod_mod_cancel)
  also have "\<dots> = 0" by (rule next_multiple) simp
  finally show ?thesis .
qed

text \<open>The pages that hold \<open>sz\<close> bytes at \<open>dst\<close>.\<close>

definition pages_of :: "u64 \<Rightarrow> nat \<Rightarrow> nat" where
  "pages_of dst sz = (if sz = 0 then 0 else (unat dst mod 4096 + sz + 4095) div 4096)"

lemma page_byte_next:
  assumes "4096 \<le> p" and "lead < 4096"
  shows "page_byte m src sz lead p = page_byte m (src + of_nat (4096 - lead)) (sz - (4096 - lead)) 0 (p - 4096)"
  using assms by (auto simp: page_byte_def segment_byte_def algebra_simps)

lemma pages_of_next:
  assumes "0 < sz"
  shows "pages_of dst sz = Suc (pages_of (dst + (4096 - dst mod 4096)) (sz - (4096 - unat dst mod 4096)))"
proof -
  define L where "L = unat dst mod 4096"
  have L: "L < 4096" by (simp add: L_def)
  have "(L + sz + 4095) div 4096 = Suc (if sz - (4096 - L) = 0 then 0 else (sz - (4096 - L) + 4095) div 4096)"
  proof (cases "sz \<le> 4096 - L")
    case True
    then have "(L + sz + 4095) div 4096 = 1" using assms L by (intro div_nat_eqI) auto
    with True show ?thesis by simp
  next
    case False
    define k where "k = sz - (4096 - L)"
    have "L + sz + 4095 = 4096 + (k + 4095)" and "k \<noteq> 0" using False L by (auto simp: k_def)
    then show ?thesis unfolding k_def [symmetric] by (simp only: div_add_self1) simp
  qed
  with assms show ?thesis unfolding pages_of_def next_page_mod L_def [symmetric] by simp
qed

lemma next_pos:
  assumes "unat (pos :: u32) + 4096 < 2 ^ 32"
  shows "unat (ucast (ucast pos + (4096 - dst mod 4096) :: u64) :: u32) = unat pos + (4096 - unat dst mod 4096)"
proof -
  have "dst mod 4096 \<le> 4096" by (simp add: word_le_nat_alt unat_mod)
  then have u: "unat (4096 - dst mod 4096) = 4096 - unat dst mod 4096" by (subst unat_sub) (simp_all add: unat_mod)
  have "unat (ucast pos + (4096 - dst mod 4096) :: u64) = unat pos + (4096 - unat dst mod 4096)"
    using assms by (subst unat_add_lem [THEN iffD1]) (simp_all add: u)
  then show ?thesis using assms by (simp add: unsigned_ucast_eq unsigned_take_bit_eq take_bit_nat_eq_self_iff)
qed

lemma fill_window:
  assumes mem: "loader_mem m src (unat file_size - unat pos)" and r: "r < 2 ^ 19"
    and fill: "fill_page (SOS_FRAME_DATA + of_nat r * 4096) src file_size dst pos m = Some m1"
  shows "p < 4096 \<Longrightarrow> m1 (page_addr [r] p) = page_byte m src (unat file_size - unat pos) (unat dst mod 4096) p"
    and "\<not> in_pages [r] x \<Longrightarrow> m1 x = m x" and "m x \<noteq> None \<Longrightarrow> m1 x \<noteq> None"
proof -
  let ?n = "unat file_size - unat pos"
  have "readable m SOS_FRAME_DATA (2 ^ 31)" "readable m src ?n"
    "\<And>i. i < ?n \<Longrightarrow> 2 ^ 31 \<le> unat (src + of_nat i - SOS_FRAME_DATA)" using mem by (auto simp: loader_mem_def)
  from fill_page_spec [OF window_readable [OF this(1) r] this(2) outside_window [OF this(3) r], of dst] fill
  have "(\<forall>p < 4096. m1 (SOS_FRAME_DATA + of_nat r * 4096 + of_nat p) = page_byte m src ?n (unat dst mod 4096) p) \<and>
      (\<forall>x. 4096 \<le> unat (x - (SOS_FRAME_DATA + of_nat r * 4096)) \<longrightarrow> m1 x = m x) \<and> (\<forall>x. m x \<noteq> None \<longrightarrow> m1 x \<noteq> None)"
    by auto
  then show "p < 4096 \<Longrightarrow> m1 (page_addr [r] p) = page_byte m src ?n (unat dst mod 4096) p"
    and "\<not> in_pages [r] x \<Longrightarrow> m1 x = m x" and "m x \<noteq> None \<Longrightarrow> m1 x \<noteq> None"
    by (simp_all add: page_addr_def in_pages_def)
qed

lemma loader_mem_step:
  assumes "loader_mem m src n" and "r < 2 ^ 19" and "\<And>x. \<not> in_pages [r] x \<Longrightarrow> m1 x = m x"
    and "\<And>x. m x \<noteq> None \<Longrightarrow> m1 x \<noteq> None"
  shows "loader_mem m1 (src + of_nat k) (n - k)" and "i < n \<Longrightarrow> m1 (src + of_nat i) = m (src + of_nat i)"
proof -
  have rd: "readable m1 a l" if "readable m a l" for a l using that assms(4) by (simp add: readable_def)
  have "readable m (src + of_nat k) (n - k)"
    using assms(1) readable_part [of m src n k "n - k"] by (cases "k \<le> n") (auto simp: loader_mem_def)
  moreover have "2 ^ 31 \<le> unat (src + of_nat k + of_nat i - SOS_FRAME_DATA)" if "i < n - k" for i
  proof -
    have "k + i < n" using that by simp
    then have "2 ^ 31 \<le> unat (src + of_nat (k + i) - SOS_FRAME_DATA)" using assms(1) unfolding loader_mem_def by blast
    then show ?thesis by (simp add: add.assoc)
  qed
  ultimately show "loader_mem m1 (src + of_nat k) (n - k)" using assms(1) rd by (simp add: loader_mem_def)
  assume "i < n"
  then have "2 ^ 31 \<le> unat (src + of_nat i - SOS_FRAME_DATA)" using assms(1) by (simp add: loader_mem_def)
  from outside_window [OF this assms(2)] assms(3) show "m1 (src + of_nat i) = m (src + of_nat i)"
    by (simp add: in_pages_def)
qed

text \<open>The contents after a page \<open>r\<close> and the pages \<open>refs\<close> that follow it.\<close>

lemma pages_Cons:
  assumes first: "\<And>p. p < 4096 \<Longrightarrow> m1 (page_addr [r] p) = page_byte m src n lead p"
    and keep: "\<And>x. \<not> in_pages [r] x \<Longrightarrow> m1 x = m x"
    and rest: "\<And>p. p < 4096 * length refs \<Longrightarrow>
        m' (page_addr refs p) = page_byte m1 (src + of_nat (4096 - lead)) (n - (4096 - lead)) 0 p"
    and keep': "\<And>x. \<not> in_pages refs x \<Longrightarrow> m' x = m1 x"
    and src: "\<And>i. i < n \<Longrightarrow> m1 (src + of_nat i) = m (src + of_nat i)"
    and refs: "distinct (r # refs)" "\<And>q. q \<in> set (r # refs) \<Longrightarrow> q < 2 ^ 19" and lead: "lead < 4096"
  shows "(\<forall>p < 4096 * length (r # refs). m' (page_addr (r # refs) p) = page_byte m src n lead p) \<and>
     (\<forall>x. \<not> in_pages (r # refs) x \<longrightarrow> m' x = m x)"
proof (intro conjI allI impI)
  fix p
  assume p: "p < 4096 * length (r # refs)"
  show "m' (page_addr (r # refs) p) = page_byte m src n lead p"
  proof (cases "p < 4096")
    case True
    have "\<not> in_pages refs (page_addr [r] p)"
      using pages_apart [of _ r p] refs True by (auto simp: in_pages_def page_addr_def not_less)
    with keep' first True show ?thesis by (simp add: page_addr_def)
  next
    case False
    then have pa: "page_addr (r # refs) p = page_addr refs (p - 4096)"
      by (simp add: page_addr_def le_div_geq le_mod_geq)
    have "page_byte m1 src n lead p = page_byte m src n lead p"
      using src by (simp add: page_byte_def segment_byte_def del: of_nat_diff)
    with rest [of "p - 4096"] p False pa page_byte_next [of p lead m1 src n] lead show ?thesis by simp
  qed
next
  fix x
  assume "\<not> in_pages (r # refs) x"
  with keep keep' show "m' x = m x" by (simp add: in_pages_def)
qed

lemma load_segment_loop_ok:
  assumes "never_mapped S" and "unat segment_size \<le> 2 ^ 31"
    and "load_segment_loop S ctx limit loadee src segment_size file_size dst perms pos (ft, cw, m) = Some (0, ft', cw', m')"
    and "ft_inv limit ft fs al" and "max 1 (ft_used ft) + pages_of dst (unat segment_size - unat pos) \<le> 2 ^ 19"
    and "loader_mem m src (unat file_size - unat pos)"
  shows "\<exists>refs fs'. ft_inv limit ft' fs' (al @ refs) \<and> length refs = pages_of dst (unat segment_size - unat pos) \<and>
     (\<forall>p < 4096 * length refs. m' (page_addr refs p) =
        page_byte m src (unat file_size - unat pos) (unat dst mod 4096) p) \<and>
     (\<forall>x. \<not> in_pages refs x \<longrightarrow> m' x = m x)"
  using assms(3-6)
proof (induction "unat segment_size - unat pos" arbitrary: src dst pos ft cw m fs al rule: less_induct)
  case less
  show ?case
  proof (cases "unat pos < unat segment_size")
    case False
    then have "pages_of dst (unat segment_size - unat pos) = 0" by (simp add: pages_of_def)
    moreover from False less.prems(1) have "ft' = ft" "m' = m"
      by (auto simp: load_segment_loop.simps [of S ctx limit loadee src] word_less_nat_alt)
    ultimately show ?thesis using less.prems(2) by (intro exI [of _ "[]"] exI [of _ fs]) (simp add: in_pages_def)
  next
    case True
    define L where "L = unat dst mod 4096"
    let ?src = "src + (4096 - dst mod 4096)" and ?dst = "dst + (4096 - dst mod 4096)"
    let ?pos = "ucast (ucast pos + (4096 - dst mod 4096) :: u64) :: u32"
    obtain ft1 cw1 m1 where round: "load_page S ctx limit loadee src file_size dst perms pos (ft, cw, m) = Some (0, ft1, cw1, m1)"
      and rest: "load_segment_loop S ctx limit loadee ?src segment_size file_size ?dst perms ?pos (ft1, cw1, m1) = Some (0, ft', cw', m')"
      using less.prems(1) True
      by (auto simp: load_segment_loop.simps [of S ctx limit loadee src] word_less_nat_alt PAGE_SIZE_4K_def Let_def
          elim!: bind_SomeE split: if_splits)
    obtain cs w where cw: "cw = (cs, w)" by fastforce
    have more: "max 1 (ft_used ft) < 2 ^ 19" using less.prems(3) True by (simp add: pages_of_next)
    obtain r fs1 where inv1: "ft_inv limit ft1 fs1 (al @ [r])" and used: "ft_used ft1 \<le> Suc (max 1 (ft_used ft))"
      and fill: "fill_page (SOS_FRAME_DATA + of_nat r * 4096) src file_size dst pos m = Some m1"
      using load_page_ok [OF assms(1) less.prems(2) more round [unfolded cw]] by blast
    have ok: "q < 2 ^ 19" if "ft_inv limit f xs ys" "q \<in> set ys" for f xs ys q
      using that by (fastforce simp: ft_inv_def flist_def ft_ok_def)
    have r: "r < 2 ^ 19" using ok [OF inv1] by simp
    let ?n = "unat file_size - unat pos" and ?k = "4096 - L"
    note page = fill_window [OF less.prems(4) r fill, folded L_def]
    note step = loader_mem_step [OF less.prems(4) r page(2,3)]
    have pos': "unat ?pos = unat pos + ?k" unfolding L_def using True assms(2) by (intro next_pos) simp
    have L: "L < 4096" by (simp add: L_def)
    have "dst mod 4096 = of_nat L" by (simp add: L_def unat_mod word_unat_eq_iff unat_of_nat_u64)
    then have k: "(4096 - dst mod 4096 :: u64) = of_nat ?k" using L by simp
    have pages: "pages_of dst (unat segment_size - unat pos) = Suc (pages_of ?dst (unat segment_size - unat ?pos))"
      using pages_of_next [of "unat segment_size - unat pos" dst] True pos' by (simp add: L_def diff_diff_eq)
    have "unat segment_size - unat ?pos < unat segment_size - unat pos" using pos' True L by linarith
    moreover have "max 1 (ft_used ft1) + pages_of ?dst (unat segment_size - unat ?pos) \<le> 2 ^ 19"
      using less.prems(3) used pages by linarith
    moreover have "loader_mem m1 ?src (unat file_size - unat ?pos)"
      using step(1) [of ?k] unfolding pos' unfolding k by (simp add: diff_diff_eq del: of_nat_diff)
    ultimately obtain refs fs' where R: "ft_inv limit ft' fs' (al @ r # refs)"
      "length refs = pages_of ?dst (unat segment_size - unat ?pos)"
      "\<And>p. p < 4096 * length refs \<Longrightarrow> m' (page_addr refs p) = page_byte m1 ?src (unat file_size - unat ?pos) (unat ?dst mod 4096) p"
      "\<And>x. \<not> in_pages refs x \<Longrightarrow> m' x = m1 x"
      using less.hyps [OF _ rest inv1] by (metis append.assoc append_Cons append_Nil)
    have "page_byte m1 ?src (unat file_size - unat ?pos) (unat ?dst mod 4096) p =
        page_byte m1 (src + of_nat ?k) (unat file_size - unat pos - ?k) 0 p" for p
      unfolding pos' next_page_mod unfolding k by (simp add: diff_diff_eq del: of_nat_diff)
    note R3 = R(3) [unfolded this]
    have "distinct (r # refs)" using R(1) by (simp add: ft_inv_def flist_def)
    moreover have "q < 2 ^ 19" if "q \<in> set (r # refs)" for q using ok [OF R(1), of q] that by auto
    ultimately have "(\<forall>p < 4096 * length (r # refs). m' (page_addr (r # refs) p) =
        page_byte m src (unat file_size - unat pos) L p) \<and> (\<forall>x. \<not> in_pages (r # refs) x \<longrightarrow> m' x = m x)"
      using page(1,2) R3 R(4) step(2) L by (intro pages_Cons)
    then show ?thesis using R(1,2) pages by (intro exI [of _ "r # refs"] exI [of _ fs']) (simp add: L_def)
  qed
qed

text \<open>
  C15. Loading a segment. When \<open>load_segment_into_vspace\<close> reports success, and no page of the segment was mapped before, it has allocated one frame for every page that the segment touches, and these frames, seen in SOS
  through \<open>frame_data\<close>, hold the image of the segment: zeros up to the offset of the segment in its first page, the bytes of the file, and zeros up to the end of the last page, so that nothing of the earlier
  contents of a frame is left over. No other memory has changed, and the frame table is well formed, with exactly the new frames allocated in addition. The bounds say that the frames fit in the table, whose
  references have 19 bits; then \<open>pos\<close> does not wrap around.
\<close>

theorem load_segment_content:
  assumes "load_segment_into_vspace S ctx limit loadee src segment_size file_size dst perms (ft, cw, m) = Some (0, ft', cw', m')"
    and "never_mapped S" and "ft_inv limit ft fs al"
    and "max 1 (ft_used ft) + pages_of dst (unat segment_size) \<le> 2 ^ 19" and "unat segment_size \<le> 2 ^ 31"
    and "loader_mem m src (unat file_size)"
  shows "\<exists>refs fs'. ft_inv limit ft' fs' (al @ refs) \<and> length refs = pages_of dst (unat segment_size) \<and>
     (\<forall>p < 4096 * length refs. m' (page_addr refs p) = page_byte m src (unat file_size) (unat dst mod 4096) p) \<and>
     (\<forall>x. \<not> in_pages refs x \<longrightarrow> m' x = m x)"
  using load_segment_loop_ok [OF assms(2,5) _ assms(3), of ctx loadee src file_size dst perms 0 cw m ft' cw' m'] assms(1,4,6)
  by (simp add: load_segment_into_vspace_def c_assert_def split: if_splits)

section \<open>Witness\<close>

text \<open>A window of frames that holds old contents, and a file of three bytes.\<close>

definition example_mem :: mem where
  "example_mem x = (if unat (x - SOS_FRAME_DATA) < 2 ^ 31 then Some 7 else mem_of 0x1000 [1, 2, 3] x)"

lemma example_loader_mem: "loader_mem example_mem 0x1000 3"
proof -
  have *: "2 ^ 31 \<le> unat (0x1000 + of_nat i - SOS_FRAME_DATA) \<and> example_mem (0x1000 + of_nat i) \<noteq> None" if i: "i < 3" for i
  proof -
    consider "i = 0" | "i = 1" | "i = 2" using i by linarith
    then show ?thesis by cases (simp_all add: SOS_FRAME_DATA_def example_mem_def mem_of_def)
  qed
  have "example_mem (SOS_FRAME_DATA + of_nat i) \<noteq> None" if "i < 2 ^ 31" for i
    using that by (simp add: example_mem_def unat_of_nat_u64)
  with * show ?thesis by (simp add: loader_mem_def readable_def)
qed

lemma example_fill: "\<exists>m'. fill_page (SOS_FRAME_DATA + 4096) 0x1000 3 0x400010 0 example_mem = Some m'"
proof -
  have mem: "readable example_mem SOS_FRAME_DATA (2 ^ 31)" "readable example_mem 0x1000 3"
    "\<And>i. i < 3 \<Longrightarrow> 2 ^ 31 \<le> unat (0x1000 + of_nat i - SOS_FRAME_DATA)"
    using example_loader_mem by (simp_all add: loader_mem_def)
  have "\<exists>m'. fill_page (SOS_FRAME_DATA + of_nat 1 * 4096) 0x1000 3 0x400010 0 example_mem = Some m'"
    using fill_page_spec [OF window_readable [OF mem(1), of 1], of "0x1000" 3 0 "0x400010"] mem(2)
      outside_window [OF mem(3), of _ 1] by (auto simp del: of_nat_1)
  then show ?thesis by simp
qed

lemma example_load:
  assumes inv: "ft_inv 0 ft [1] [2]"
  shows "\<exists>ft' cw' m'. load_segment_into_vspace sel4_ok ctx 0 5 0x1000 5 3 0x400010 seL4_AllRights
     (ft, (cs2_with 1 al, sos_example_env), example_mem) = Some (0, ft', cw', m')"
proof -
  obtain ft' where a: "alloc_frame (alloc_frame_at sel4_ok ctx) 0 ft (cs2_with 3 al, sos_example_env) =
      Some (1, ft', (cs2_with 3 al, sos_example_env))" "ft_inv 0 ft' [] [2, 1]"
    using alloc_frame_reuse [OF inv] by fastforce
  have page: "frame_page ft' 1 = Some (sos_page (frames ft' ! 1))" and data: "frame_data ft' 1 = Some (SOS_FRAME_DATA + 4096)"
    and idx: "frame_from_ref ft' 1 = Some 1" "arr_get (frames ft') 1 = Some (frames ft' ! 1)"
    using a(2) by (auto simp: ft_inv_def flist_def ft_ok_def frame_page_def frame_from_ref_def frame_data_def arr_get_def c_assert_def
        NULL_FRAME_def PAGE_SIZE_4K_def)
  obtain m' where m': "fill_page (SOS_FRAME_DATA + 4096) 0x1000 3 0x400010 0 example_mem = Some m'"
    using example_fill by blast
  show ?thesis
    by (simp add: load_segment_into_vspace_def c_assert_def load_segment_loop.simps load_page_def ROUND_DOWN_def PAGE_SIZE_4K_def
       cs2_with_alloc a page cspace_copy_def seL4_NoError_def map_frame_first seL4_DeleteFirst_def data m' flush_frame_def idx
       seL4_CapNull_def NULL_FRAME_def del: One_nat_def)
qed

theorem load_segment_content_witness:
  "\<exists>ft ft' cw' m' refs fs'. ft_inv 0 ft [1] [2] \<and>
     load_segment_into_vspace sel4_ok (frame_table_init 0x1000 3) 0 5 0x1000 5 3 0x400010 seL4_AllRights
       (ft, (cs2_with 1 (bootstrap_alloc sel4_ok None), sos_example_env), example_mem) = Some (0, ft', cw', m') \<and>
     ft_inv 0 ft' fs' ([2] @ refs) \<and> length refs = 1 \<and> m' (page_addr refs 16) = Some 1 \<and> m' (page_addr refs 20) = Some 0"
proof -
  obtain ft0 fs where "ft_inv 0 ft0 fs [2, 1]" "fs = []" by (rule ft_inv_example)
  from free_frame_spec [OF this(1), of 1] this(2) obtain ft where inv: "ft_inv 0 ft [1] [2]" by auto
  then have parts: "{1, 2} = {1..<ft_used ft}" unfolding ft_inv_def by auto
  have "ft_used ft = 3"
  proof -
    from parts have "card {1, 2 :: nat} = card {1..<ft_used ft}" by simp
    then show ?thesis by simp
  qed
  moreover from example_load [OF inv] obtain ft' cw' m' where
    run: "load_segment_into_vspace sel4_ok (frame_table_init 0x1000 3) 0 5 0x1000 5 3 0x400010 seL4_AllRights
       (ft, (cs2_with 1 (bootstrap_alloc sel4_ok None), sos_example_env), example_mem) = Some (0, ft', cw', m')" by blast
  have "never_mapped sel4_ok" by (simp add: never_mapped_def sel4_ok_def seL4_DeleteFirst_def)
  ultimately obtain refs fs' where R: "ft_inv 0 ft' fs' ([2] @ refs)" "length refs = 1"
    "\<forall>p < 4096 * length refs. m' (page_addr refs p) = page_byte example_mem 0x1000 3 16 p"
    using load_segment_content [OF run _ inv] example_loader_mem by (auto simp: pages_of_def)
  from R(2,3) have "m' (page_addr refs 16) = Some 1" "m' (page_addr refs 20) = Some 0"
    by (simp_all add: page_byte_def segment_byte_def example_mem_def mem_of_def SOS_FRAME_DATA_def)
  with inv run R(1,2) show ?thesis by blast
qed

end
