(* ===== verification/Bootstrap.thy ===== *)
theory Bootstrap
  imports Cspace_Slots Dma
begin

text \<open>
  \<open>sos/src/bootstrap.c\<close>: from what the kernel gives to the initial task, SOS builds its two level capability space, the untyped table and the DMA region. The static variables \<open>bootstrap_data\<close> are the fields
  \<open>next_free_vaddr\<close> and \<open>bs_vspace\<close> of the environment, \<open>boot_info_avail_bytes\<close> is the list \<open>avail\<close>. \<open>ZF_LOGF\<close> ends in \<open>UNREACHABLE\<close>: a condition for which the code logs a fatal error is undefined behaviour.
\<close>

section \<open>What the kernel tells the initial task\<close>

record seL4_UntypedDesc =
  ud_paddr :: u64
  ud_sizeBits :: nat
  ud_isDevice :: bool

record seL4_BootInfo =
  bi_empty_start :: cptr
  bi_empty_end :: cptr
  bi_untyped_start :: cptr
  bi_untyped_end :: cptr
  bi_untypedList :: "seL4_UntypedDesc list"

definition bi_untypeds :: "seL4_BootInfo \<Rightarrow> nat list" where
  "bi_untypeds bi = [0..<bi_untyped_end bi - bi_untyped_start bi]"

definition CONFIG_MAX_NUM_BOOTINFO_UNTYPED_CAPS :: nat where "CONFIG_MAX_NUM_BOOTINFO_UNTYPED_CAPS = 230"
definition CONFIG_RETYPE_FAN_OUT_LIMIT :: nat where "CONFIG_RETYPE_FAN_OUT_LIMIT = 256"
definition INITIAL_TASK_CNODE_SIZE_BITS :: nat where "INITIAL_TASK_CNODE_SIZE_BITS = 18"
definition INITIAL_TASK_CSPACE_SLOTS :: nat where
  "INITIAL_TASK_CSPACE_SLOTS = 2 ^ (CNODE_SLOT_BITS INITIAL_TASK_CNODE_SIZE_BITS + CNODE_SLOT_BITS CNODE_SIZE_BITS)"
definition seL4_PageTableIndexBits :: nat where "seL4_PageTableIndexBits = 9"
definition seL4_PageTableBits :: nat where "seL4_PageTableBits = 12"
definition seL4_PageDirBits :: nat where "seL4_PageDirBits = 12"
definition seL4_PUDBits :: nat where "seL4_PUDBits = 12"
definition seL4_MaxUntypedBits :: nat where "seL4_MaxUntypedBits = 47"
definition SOS_UT_TABLE :: u64 where "SOS_UT_TABLE = 0x8000000000"
definition SOS_DMA_SIZE_BITS :: nat where "SOS_DMA_SIZE_BITS = seL4_LargePageBits"
definition seL4_CapIOPortControl :: cptr where "seL4_CapIOPortControl = 7"
definition seL4_CapIOSpace :: cptr where "seL4_CapIOSpace = 8"

definition ALIGN_UP :: "u64 \<Rightarrow> u64 \<Rightarrow> u64" where
  "ALIGN_UP x n = (x + n - 1) AND NOT (n - 1)"

text \<open>\<open>LOG_BASE_2\<close>; counting the leading zeros of 0 is undefined.\<close>

definition LOG_BASE_2 :: "u64 \<Rightarrow> nat option" where
  "LOG_BASE_2 n = (if n = 0 then None else Some (last (filter (bit n) [0..<64])))"

section \<open>Untypeds of the initial task\<close>

definition calculate_ut_caps :: "seL4_BootInfo \<Rightarrow> nat \<Rightarrow> u64 list \<Rightarrow> (u64 \<times> u64 list) option" where
  "calculate_ut_caps bi size_bits avail =
     for_each (\<lambda>i (n_caps, avail). do {
       u \<leftarrow> arr_get (bi_untypedList bi) i;
       avail \<leftarrow> arr_set avail i (BIT (ud_sizeBits u));
       Some (if ud_sizeBits u \<ge> size_bits then n_caps + BIT (ud_sizeBits u - size_bits) else n_caps, avail)
     }) (bi_untypeds bi) (0, avail)"

definition paddr_from_avail_bytes :: "seL4_BootInfo \<Rightarrow> nat \<Rightarrow> nat \<Rightarrow> u64 list \<Rightarrow> u64 option" where
  "paddr_from_avail_bytes bi i size_bits avail = do {
     u \<leftarrow> arr_get (bi_untypedList bi) i;
     a \<leftarrow> arr_get avail i;
     let taken = BIT (ud_sizeBits u) - a;
     taken \<leftarrow> ROUND_UP taken (BIT size_bits);
     Some (ud_paddr u + taken)
   }"

text \<open>The loop of \<open>steal_untyped\<close>. A null \<open>paddr\<close> is \<open>None\<close>, otherwise it is the value stored there.\<close>

fun steal_from :: "seL4_BootInfo \<Rightarrow> nat \<Rightarrow> u64 option \<Rightarrow> nat list \<Rightarrow> u64 list \<Rightarrow> (cptr \<times> u64 option \<times> u64 list) option" where
  "steal_from bi size_bits paddr [] avail = Some (seL4_CapNull, paddr, avail)"
| "steal_from bi size_bits paddr (i # is) avail = do {
     a \<leftarrow> arr_get avail i;
     if a \<ge> BIT size_bits then do {
       paddr \<leftarrow> (if paddr \<noteq> None then do {
                   p \<leftarrow> paddr_from_avail_bytes bi i size_bits avail;
                   Some (Some p)
                 } else Some None);
       avail \<leftarrow> arr_set avail i (a - BIT size_bits);
       Some (i + bi_untyped_start bi, paddr, avail)
     } else steal_from bi size_bits paddr is avail
   }"

definition steal_untyped ::
    "seL4_BootInfo \<Rightarrow> nat \<Rightarrow> u64 option \<Rightarrow> u64 list \<Rightarrow> (cptr \<times> u64 option \<times> u64 list) option" where
  "steal_untyped bi size_bits paddr avail = do {
     c_assert (size_bits \<ge> seL4_PageBits);
     c_assert (size_bits \<le> seL4_MaxUntypedBits);
     steal_from bi size_bits paddr (bi_untypeds bi) avail
   }"

definition find_memory_bounds :: "seL4_BootInfo \<Rightarrow> ut_region_t option" where
  "find_memory_bounds bi = do {
     memory \<leftarrow> for_each (\<lambda>i memory. do {
       u \<leftarrow> arr_get (bi_untypedList bi) i;
       let end_p = ud_paddr u + BIT (ud_sizeBits u);
       Some \<lparr>rg_start = min (rg_start memory) (ud_paddr u), rg_end = max end_p (rg_end memory)\<rparr>
     }) (bi_untypeds bi) \<lparr>rg_start = - 1, rg_end = 0\<rparr>;
     c_assert (rg_end memory > rg_start memory);
     Some memory
   }"

section \<open>Setting up the capability space\<close>

text \<open>\<open>err = call; ZF_LOGF_IFERR(err, ...)\<close>.\<close>

definition must :: "int \<times> 'k env \<Rightarrow> 'k env option" where
  "must r = (if fst r \<noteq> seL4_NoError then None else Some (snd r))"

text \<open>How much memory and how many second level cnodes are needed: pages of the untyped table, cnodes, bytes.\<close>

definition bootstrap_needs :: "seL4_BootInfo \<Rightarrow> ut_region_t \<Rightarrow> u64 list \<Rightarrow> (nat \<times> nat \<times> u64 \<times> u64 list) option" where
  "bootstrap_needs bi memory avail = do {
     let n_slots = (of_nat (bi_empty_start bi) - 1 :: u64);
     let ut_pages = ut_pages_for_region memory;
     let n_slots = n_slots + of_nat ut_pages;
     let size_b = (of_nat ut_pages * of_nat PAGE_SIZE_4K :: u64);
     let n_pts = (drop_bit seL4_PageTableIndexBits (of_nat ut_pages) + 1 :: u64);
     let size_b = size_b + n_pts * BIT seL4_PageTableBits;
     let n_slots = n_slots + n_pts;
     let size_b = size_b + BIT seL4_PUDBits;
     let size_b = size_b + BIT seL4_PageDirBits;
     let n_slots = n_slots + 2;
     let n_slots = n_slots + 1;
     (n_caps, avail) \<leftarrow> calculate_ut_caps bi seL4_PageBits avail;
     let n_slots = n_slots + n_caps;
     let n_slots = n_slots - BIT (SOS_DMA_SIZE_BITS - seL4_PageBits);
     let n_cnodes = n_slots div of_nat (CNODE_SLOTS CNODE_SIZE_BITS) + 2;
     let size_b = size_b + (n_cnodes * BIT CNODE_SIZE_BITS + BIT INITIAL_TASK_CNODE_SIZE_BITS);
     c_assert (unat n_cnodes \<le> CNODE_SLOTS INITIAL_TASK_CNODE_SIZE_BITS);
     Some (ut_pages, unat n_cnodes, size_b, avail)
   }"

text \<open>The second level cnodes, in chunks: \<open>rest\<close> are still to be made.\<close>

function bootstrap_cnodes :: "'k sel4 \<Rightarrow> cptr \<Rightarrow> cptr \<Rightarrow> nat \<Rightarrow> nat \<Rightarrow> 'k env \<Rightarrow> 'k env option" where
  "bootstrap_cnodes S ut_cptr level1_cptr count rest w =
     (if rest > 0 then do {
        let chunk = min CONFIG_RETYPE_FAN_OUT_LIMIT rest;
        w \<leftarrow> must (env_call S (Untyped_Retype ut_cptr seL4_CapTableObject (CNODE_SLOT_BITS CNODE_SIZE_BITS)
                                 level1_cptr 0 0 (count - rest) chunk) w);
        bootstrap_cnodes S ut_cptr level1_cptr count (rest - chunk) w
      } else Some w)"
  by pat_completeness auto
termination
  by (relation "measure (\<lambda>(S, u, l, n, rest, w). rest)") (auto simp: CONFIG_RETYPE_FAN_OUT_LIMIT_def)

text \<open>The new root cnode, and the switch to it.\<close>

definition bootstrap_root :: "'k sel4 \<Rightarrow> cptr \<Rightarrow> cptr \<Rightarrow> nat \<Rightarrow> 'k env \<Rightarrow> 'k env option" where
  "bootstrap_root S ut_cptr level1_cptr count w = do {
     let boot_cptr = 0;
     w \<leftarrow> must (env_call S (Untyped_Retype ut_cptr seL4_CapTableObject (CNODE_SLOT_BITS INITIAL_TASK_CNODE_SIZE_BITS)
                              seL4_CapInitThreadCNode 0 0 level1_cptr 1) w);
     w \<leftarrow> bootstrap_cnodes S ut_cptr level1_cptr count count w;
     let depth = CNODE_SLOT_BITS INITIAL_TASK_CNODE_SIZE_BITS + CNODE_SLOT_BITS CNODE_SIZE_BITS;
     w \<leftarrow> must (env_call S (CNode_Copy level1_cptr boot_cptr depth
                              seL4_CapInitThreadCNode seL4_CapInitThreadCNode seL4_WordBits seL4_AllRights) w);
     let guard = seL4_CNode_CapData_new 0 (seL4_WordBits - depth);
     w \<leftarrow> must (env_call S (CNode_Mint level1_cptr seL4_CapInitThreadCNode depth
                              seL4_CapInitThreadCNode level1_cptr seL4_WordBits seL4_AllRights guard) w);
     must (env_call S (TCB_SetSpace seL4_CapInitThreadTCB 0 level1_cptr guard seL4_CapInitThreadVSpace 0) w)
   }"

text \<open>The capabilities of the initial task move to the new capability space; then its old cnode is deleted.\<close>

definition bootstrap_move_caps :: "'k sel4 \<Rightarrow> seL4_BootInfo \<Rightarrow> 'k env \<Rightarrow> 'k env option" where
  "bootstrap_move_caps S bi w = do {
     let boot_cptr = 0;
     w \<leftarrow> for_each (\<lambda>i w.
            if i = seL4_CapInitThreadCNode \<or> i = seL4_CapIOPortControl \<or> i = seL4_CapIOSpace then Some w
            else must (env_call S (CNode_Move seL4_CapInitThreadCNode i seL4_WordBits boot_cptr i seL4_WordBits) w))
          [1..<bi_empty_start bi] w;
     must (env_call S (CNode_Delete seL4_CapInitThreadCNode boot_cptr seL4_WordBits) w)
   }"

text \<open>The paging structures below which the untyped table is mapped; the result is the first free slot.\<close>

definition bootstrap_page_table ::
    "'k sel4 \<Rightarrow> 'k env cspace_t \<Rightarrow> cptr \<Rightarrow> nat \<Rightarrow> cptr \<times> 'k env \<Rightarrow> (cptr \<times> 'k env) option" where
  "bootstrap_page_table S cs ut_cptr i = (\<lambda>(first_free_slot, w). do {
     w \<leftarrow> must (cspace_untyped_retype (env_call S) cs ut_cptr first_free_slot seL4_ARM_PageTableObject seL4_PageBits w);
     let vaddr = SOS_UT_TABLE + of_nat i * BIT (seL4_PageTableIndexBits + seL4_PageBits);
     w \<leftarrow> must (env_call S (ARM_PageTable_Map first_free_slot seL4_CapInitThreadVSpace vaddr seL4_ARM_Default_VMAttributes) w);
     Some (first_free_slot + 1, w)
   })"

definition bootstrap_paging ::
    "'k sel4 \<Rightarrow> seL4_BootInfo \<Rightarrow> 'k env cspace_t \<Rightarrow> cptr \<Rightarrow> nat \<Rightarrow> 'k env \<Rightarrow> (cptr \<times> 'k env) option" where
  "bootstrap_paging S bi cs ut_cptr ut_pages w = do {
     let first_free_slot = bi_empty_start bi;
     w \<leftarrow> must (cspace_untyped_retype (env_call S) cs ut_cptr first_free_slot seL4_ARM_PageUpperDirectoryObject seL4_PageBits w);
     w \<leftarrow> must (env_call S (ARM_PageUpperDirectory_Map first_free_slot seL4_CapInitThreadVSpace SOS_UT_TABLE
                              seL4_ARM_Default_VMAttributes) w);
     let first_free_slot = first_free_slot + 1;
     w \<leftarrow> must (cspace_untyped_retype (env_call S) cs ut_cptr first_free_slot seL4_ARM_PageDirectoryObject seL4_PageBits w);
     w \<leftarrow> must (env_call S (ARM_PageDirectory_Map first_free_slot seL4_CapInitThreadVSpace SOS_UT_TABLE
                              seL4_ARM_Default_VMAttributes) w);
     let first_free_slot = first_free_slot + 1;
     for_each (bootstrap_page_table S cs ut_cptr) [0..<ut_pages div 2 ^ seL4_PageTableIndexBits + 1] (first_free_slot, w)
   }"

text \<open>The pages of the untyped table. A page that the kernel makes is zeroed, an array of zeroed \<open>ut_t\<close>.\<close>

definition bootstrap_ut_page ::
    "'k sel4 \<Rightarrow> 'k env cspace_t \<Rightarrow> cptr \<Rightarrow> nat \<Rightarrow> cptr \<times> 'k env \<Rightarrow> (cptr \<times> 'k env) option" where
  "bootstrap_ut_page S cs ut_cptr i = (\<lambda>(first_free_slot, w). do {
     w \<leftarrow> must (cspace_untyped_retype (env_call S) cs ut_cptr first_free_slot seL4_ARM_SmallPageObject seL4_PageBits w);
     w \<leftarrow> must (env_call S (ARM_Page_Map first_free_slot seL4_CapInitThreadVSpace (next_free_vaddr w) seL4_AllRights
                              seL4_ARM_Default_VMAttributes) w);
     let w = env_new_uts (next_free_vaddr w) w;
     Some (first_free_slot + 1, w\<lparr>next_free_vaddr := next_free_vaddr w + of_nat PAGE_SIZE_4K\<rparr>)
   })"

definition bootstrap_ut_pages ::
    "'k sel4 \<Rightarrow> 'k env cspace_t \<Rightarrow> cptr \<Rightarrow> nat \<Rightarrow> cptr \<Rightarrow> 'k env \<Rightarrow> (cptr \<times> 'k env) option" where
  "bootstrap_ut_pages S cs ut_cptr ut_pages first_free_slot w = do {
     let w = w\<lparr>bs_vspace := seL4_CapInitThreadVSpace, next_free_vaddr := SOS_UT_TABLE\<rparr>;
     for_each (bootstrap_ut_page S cs ut_cptr) [0..<ut_pages] (first_free_slot, w)
   }"

text \<open>
  Retyping one untyped of the kernel into \<open>n_caps\<close> untypeds of 4K, as many at a time as fit in a second level cnode.
\<close>

function bootstrap_retype :: "'k sel4 \<Rightarrow> cptr \<Rightarrow> nat \<Rightarrow> cptr \<Rightarrow> 'k env \<Rightarrow> (cptr \<times> 'k env) option" where
  "bootstrap_retype S ut n_caps first_free_slot w =
     (if n_caps > 0 then do {
        let slots_per_cnode = CNODE_SLOTS CNODE_SIZE_BITS;
        let cnode = first_free_slot div slots_per_cnode;
        let retype = min CONFIG_RETYPE_FAN_OUT_LIMIT (min n_caps (slots_per_cnode - first_free_slot mod slots_per_cnode));
        w \<leftarrow> must (env_call S (Untyped_Retype ut seL4_UntypedObject seL4_PageBits seL4_CapInitThreadCNode cnode
                                 (seL4_WordBits - CNODE_SLOT_BITS CNODE_SIZE_BITS) (first_free_slot mod slots_per_cnode) retype) w);
        bootstrap_retype S ut (n_caps - retype) (first_free_slot + retype) w
      } else Some (first_free_slot, w))"
  by pat_completeness auto
termination
  by (relation "measure (\<lambda>(S, u, n, f, w). n)")
    (auto simp: CONFIG_RETYPE_FAN_OUT_LIMIT_def min_def CNODE_SLOTS_def)

definition bootstrap_untyped ::
    "'k sel4 \<Rightarrow> seL4_BootInfo \<Rightarrow> u64 list \<Rightarrow> nat \<Rightarrow> cptr \<times> 'k env \<Rightarrow> (cptr \<times> 'k env) option" where
  "bootstrap_untyped S bi avail i = (\<lambda>(first_free_slot, w). do {
     a \<leftarrow> arr_get avail i;
     let n_caps = unat a div PAGE_SIZE_4K;
     paddr \<leftarrow> paddr_from_avail_bytes bi i seL4_PageBits avail;
     u \<leftarrow> arr_get (bi_untypedList bi) i;
     w \<leftarrow> (if n_caps > 0 then do {
             T \<leftarrow> ut_add_untyped_range paddr first_free_slot n_caps (ud_isDevice u) (ut_tab w);
             Some (w\<lparr>ut_tab := T\<rparr>)
           } else Some w);
     bootstrap_retype S (bi_untyped_start bi + i) n_caps first_free_slot w
   })"

text \<open>One frame for the bookkeeping of second level cnodes.\<close>

definition bootstrap_node ::
    "'k sel4 \<Rightarrow> nat \<Rightarrow> cptr \<times> 'k env cspace_t \<times> 'k env \<Rightarrow> (cptr \<times> 'k env cspace_t \<times> 'k env) option" where
  "bootstrap_node S i = (\<lambda>(first_free_slot, cs, w). do {
     (ut, w) \<leftarrow> env_alloc_4k w;
     cap \<leftarrow> env_ut_cap w ut;
     w \<leftarrow> must (cspace_untyped_retype (env_call S) cs cap first_free_slot seL4_ARM_SmallPageObject seL4_PageBits w);
     w \<leftarrow> must (env_call S (ARM_Page_Map first_free_slot seL4_CapInitThreadVSpace (next_free_vaddr w) seL4_AllRights
                              seL4_ARM_Default_VMAttributes) w);
     let w = w\<lparr>next_free_vaddr := next_free_vaddr w + of_nat PAGE_SIZE_4K\<rparr>;
     cs \<leftarrow> set_node cs i (Some (zero_node\<lparr>bn_untyped := ut, bn_frame := first_free_slot\<rparr>));
     Some (first_free_slot + 1, cs\<lparr>n_bot_lvl_nodes := n_bot_lvl_nodes cs + 1\<rparr>, w)
   })"

section \<open>Recording the slots in use\<close>

text \<open>
  The cnode of slot \<open>i\<close> is full. The inner loop of the code has a variable \<open>i\<close> of its own, so its \<open>CNODE_INDEX(i)\<close> is that of the word number, here \<open>k\<close>.
\<close>

definition fill_word :: "nat \<Rightarrow> bot_lvl_node_t \<Rightarrow> bot_lvl_node_t option" where
  "fill_word k node = do {
     c \<leftarrow> arr_get (cnodes node) (CNODE_INDEX k);
     b \<leftarrow> arr_set (bl_bf c) k (- 1);
     cns \<leftarrow> arr_set (cnodes node) (CNODE_INDEX k) (c\<lparr>bl_bf := b\<rparr>);
     Some (node\<lparr>cnodes := cns\<rparr>)
   }"

definition record_full_cnode :: "cptr \<Rightarrow> 'w cspace_t \<Rightarrow> 'w cspace_t option" where
  "record_full_cnode i cs = do {
     node \<leftarrow> get_node cs (NODE_INDEX i);
     let node = node\<lparr>n_cnodes := n_cnodes node + 1\<rparr>;
     node \<leftarrow> for_each fill_word [0..<CNODE_SLOTS CNODE_SIZE_BITS div seL4_WordBits] node;
     cs \<leftarrow> set_node cs (NODE_INDEX i) (Some node);
     bf \<leftarrow> bf_set_bit (top_bf cs) (TOP_LVL_INDEX i);
     Some (cs\<lparr>top_bf := bf\<rparr>)
   }"

definition record_slot :: "cptr \<Rightarrow> bot_lvl_node_t \<Rightarrow> bot_lvl_node_t option" where
  "record_slot i node = do {
     c \<leftarrow> arr_get (cnodes node) (CNODE_INDEX i);
     b \<leftarrow> bf_set_bit (bl_bf c) (BOT_LVL_INDEX i);
     cns \<leftarrow> arr_set (cnodes node) (CNODE_INDEX i) (c\<lparr>bl_bf := b\<rparr>);
     Some (node\<lparr>cnodes := cns\<rparr>)
   }"

definition record_cnode :: "nat \<Rightarrow> 'w cspace_t \<Rightarrow> 'w cspace_t option" where
  "record_cnode i cs = do {
     node \<leftarrow> get_node cs (i div BOT_LVL_PER_NODE);
     set_node cs (i div BOT_LVL_PER_NODE) (Some (node\<lparr>n_cnodes := n_cnodes node + 1\<rparr>))
   }"

text \<open>The slots below \<open>first_free_slot\<close>, and the cnodes beyond it that exist already.\<close>

definition bootstrap_record :: "cptr \<Rightarrow> nat \<Rightarrow> 'w cspace_t \<Rightarrow> 'w cspace_t option" where
  "bootstrap_record first_free_slot count cs = do {
     let slots_per_cnode = CNODE_SLOTS CNODE_SIZE_BITS;
     let used_cnodes = first_free_slot div slots_per_cnode;
     cs \<leftarrow> for_each record_full_cnode (map (\<lambda>n. n * slots_per_cnode) [0..<used_cnodes]) cs;
     node \<leftarrow> get_node cs (used_cnodes div BOT_LVL_PER_NODE);
     let node = node\<lparr>n_cnodes := n_cnodes node + 1\<rparr>;
     node \<leftarrow> for_each record_slot [used_cnodes * slots_per_cnode..<first_free_slot] node;
     cs \<leftarrow> set_node cs (used_cnodes div BOT_LVL_PER_NODE) (Some node);
     for_each record_cnode [used_cnodes + 1..<count] cs
   }"

definition bootstrap_watermark ::
    "'k sel4 \<Rightarrow> nat \<Rightarrow> 'k env cspace_t \<times> 'k env \<Rightarrow> ('k env cspace_t \<times> 'k env) option" where
  "bootstrap_watermark S i = (\<lambda>(cs, w). do {
     (slot, cs, w) \<leftarrow> cspace_alloc_slot (env_call S) cs w;
     wm \<leftarrow> arr_set (watermark cs) i slot;
     c_assert (slot \<noteq> seL4_CapNull);
     Some (cs\<lparr>watermark := wm\<rparr>, w)
   })"

section \<open>The whole\<close>

text \<open>The zeroed capability space, with the static arrays of the file.\<close>

definition bootstrap_cspace_0 :: "'w cspace_t" where
  "bootstrap_cspace_0 =
     \<lparr>root_cnode = 0, two_level = False, top_lvl_size_bits = 0, top_bf_ptr = 0,
      top_bf = replicate (BITFIELD_SIZE INITIAL_TASK_CNODE_SIZE_BITS) 0, bot_lvl_nodes_ptr = 0,
      bot_lvl_nodes = replicate (INITIAL_TASK_CSPACE_SLOTS div BOT_LVL_PER_NODE + 1) None, n_bot_lvl_nodes = 0,
      cs_untyped = 0, has_bootstrap = False, alloc = None, watermark = replicate WATERMARK_SLOTS 0\<rparr>"

text \<open>\<open>bfp\<close> and \<open>nodesp\<close> are the addresses of the static arrays \<open>top_bf\<close> and \<open>bot_lvl_nodes\<close>.\<close>

definition sos_bootstrap ::
    "'k sel4 \<Rightarrow> u64 \<Rightarrow> u64 \<Rightarrow> seL4_BootInfo \<Rightarrow> dma_t \<Rightarrow> 'k env \<Rightarrow> ('k env cspace_t \<times> dma_t \<times> 'k env) option" where
  "sos_bootstrap S bfp nodesp bi d w = do {
     let cs = bootstrap_cspace_0;
     c_assert (of_nat (bi_empty_end bi) - of_nat (bi_empty_start bi) \<ge> (2 :: u64));
     memory \<leftarrow> find_memory_bounds bi;
     (ut_pages, count, size_b, avail) \<leftarrow> bootstrap_needs bi memory (replicate CONFIG_MAX_NUM_BOOTINFO_UNTYPED_CAPS 0);
     bits \<leftarrow> LOG_BASE_2 size_b;
     (ut_cptr, _, avail) \<leftarrow> steal_untyped bi (bits + 1) None avail;
     c_assert (ut_cptr \<noteq> seL4_CapNull);
     let cs = cs\<lparr>root_cnode := seL4_CapInitThreadCNode\<rparr>;
     w \<leftarrow> bootstrap_root S ut_cptr (bi_empty_start bi) count w;
     w \<leftarrow> bootstrap_move_caps S bi w;
     let cs = cs\<lparr>two_level := True\<rparr>;
     (first_free_slot, w) \<leftarrow> bootstrap_paging S bi cs ut_cptr ut_pages w;
     (first_free_slot, w) \<leftarrow> bootstrap_ut_pages S cs ut_cptr ut_pages first_free_slot w;
     (dma_ut, dma_paddr, avail) \<leftarrow> steal_untyped bi SOS_DMA_SIZE_BITS (Some 0) avail;
     c_assert (dma_ut \<noteq> seL4_CapNull);
     dma_paddr \<leftarrow> dma_paddr;
     w \<leftarrow> must (cspace_untyped_retype (env_call S) cs dma_ut first_free_slot seL4_ARM_LargePageObject SOS_DMA_SIZE_BITS w);
     let dma_cptr = first_free_slot;
     let first_free_slot = first_free_slot + 1;
     let w = w\<lparr>ut_tab := ut_init SOS_UT_TABLE memory (ut_tab w)\<rparr>;
     (first_free_slot, w) \<leftarrow> for_each (bootstrap_untyped S bi avail) (bi_untypeds bi) (first_free_slot, w);
     let cs = cs\<lparr>top_lvl_size_bits := INITIAL_TASK_CNODE_SIZE_BITS, top_bf_ptr := bfp, n_bot_lvl_nodes := 0,
                 bot_lvl_nodes_ptr := nodesp,
                 alloc := Some (bootstrap_alloc S (Some (root_cnode cs, two_level cs)))\<rparr>;
     let n_bot_lvl = max (first_free_slot div CNODE_SLOTS CNODE_SIZE_BITS + 1) count div BOT_LVL_PER_NODE + 1;
     (first_free_slot, cs, w) \<leftarrow> for_each (bootstrap_node S) [0..<n_bot_lvl] (first_free_slot, cs, w);
     let dma_vaddr = ALIGN_UP (next_free_vaddr w + of_nat PAGE_SIZE_4K) (BIT seL4_LargePageBits);
     (err, d, w) \<leftarrow> dma_init S True seL4_CapInitThreadVSpace dma_cptr dma_paddr dma_vaddr d w;
     c_assert (err = 0);
     let w = w\<lparr>next_free_vaddr := dma_vaddr + BIT seL4_LargePageBits + of_nat PAGE_SIZE_4K\<rparr>;
     cs \<leftarrow> bootstrap_record first_free_slot count cs;
     (cs, w) \<leftarrow> for_each (bootstrap_watermark S) [0..<WATERMARK_SLOTS] (cs, w);
     Some (cs, d, w)
   }"

end
