(* ===== verification/Bootstrap_Proofs.thy ===== *)
theory Bootstrap_Proofs
  imports Bootstrap
begin

text \<open>
  What bootstrapping does with the memory of the machine, and with the slots it uses. The memory that the kernel hands over is divided exactly between the early structures of SOS, the DMA region and the untyped
  table. The slots in use are not all recorded.
\<close>

section \<open>Dividing the memory\<close>

lemma BIT_nat: "BIT n = of_nat (2 ^ n)"
  by (simp add: BIT_def push_bit_eq_mult)

lemma unat_BIT: "n < 64 \<Longrightarrow> unat (BIT n) = 2 ^ n"
  unfolding BIT_nat by (intro unat_of_nat_u64 power_strict_increasing) auto

lemma calculate_ut_caps_avail:
  assumes "calculate_ut_caps bi b av0 = Some (n_caps, av)"
  shows "\<forall>i \<in> set (bi_untypeds bi). i < length (bi_untypedList bi) \<and> i < length av \<and> av ! i = BIT (ud_sizeBits (bi_untypedList bi ! i))"
proof -
  let ?step = "\<lambda>i (n_caps :: u64, avail). do {
       u \<leftarrow> arr_get (bi_untypedList bi) i;
       avail \<leftarrow> arr_set avail i (BIT (ud_sizeBits u));
       Some (if ud_sizeBits u \<ge> b then n_caps + BIT (ud_sizeBits u - b) else n_caps, avail)
     }"
  have *: "for_each ?step [0..<n] (0, av0) = Some (k, av) \<Longrightarrow>
      \<forall>i < n. i < length (bi_untypedList bi) \<and> i < length av \<and> av ! i = BIT (ud_sizeBits (bi_untypedList bi ! i))" for n k av
  proof (induction n arbitrary: k av)
    case (Suc n)
    from Suc.prems obtain k1 av1 where p: "for_each ?step [0..<n] (0, av0) = Some (k1, av1)"
      and q: "?step n (k1, av1) = Some (k, av)" by (auto simp: for_each_append elim!: bind_SomeE)
    from q have n: "n < length (bi_untypedList bi)" "n < length av1" "av = av1[n := BIT (ud_sizeBits (bi_untypedList bi ! n))]"
      by (auto simp: arr_get_def arr_set_def split: if_splits)
    from Suc.IH [OF p] n show ?case by (auto simp: less_Suc_eq)
  qed simp
  from * [OF assms [unfolded calculate_ut_caps_def bi_untypeds_def]] show ?thesis by (auto simp: bi_untypeds_def)
qed

lemma steal_from_spec:
  assumes "steal_from bi b p is av = Some (c, p', av')" and "c \<noteq> 0"
  shows "\<exists>i \<in> set is. i < length av \<and> BIT b \<le> av ! i \<and> c = bi_untyped_start bi + i \<and> av' = av[i := av ! i - BIT b] \<and>
           (p = None \<longrightarrow> p' = None) \<and> (p \<noteq> None \<longrightarrow> p' = paddr_from_avail_bytes bi i b av)"
  using assms
proof (induction "is")
  case (Cons i "is")
  show ?case
  proof (cases "i < length av \<and> BIT b \<le> av ! i")
    case True
    with Cons.prems show ?thesis
      by (auto simp: arr_get_def arr_set_def elim!: bind_SomeE split: if_splits)
  next
    case False
    with Cons.prems have "steal_from bi b p is av = Some (c, p', av')"
      by (auto simp: arr_get_def split: if_splits)
    with Cons.IH Cons.prems(2) show ?thesis by auto
  qed
qed (simp add: seL4_CapNull_def)

text \<open>With \<open>t\<close> bytes taken from an untyped, the next object lies right behind them if \<open>t\<close> is a multiple of its size.\<close>

lemma paddr_behind:
  assumes i: "i < length (bi_untypedList bi)" "i < length av" and s: "s = ud_sizeBits (bi_untypedList bi ! i)" "s < 64"
    and av: "unat (av ! i) = 2 ^ s - t" "t \<le> 2 ^ s" and b: "b < 64" "2 ^ b dvd t"
  shows "paddr_from_avail_bytes bi i b av = Some (ud_paddr (bi_untypedList bi ! i) + of_nat t)"
proof -
  have "unat (BIT s - av ! i) = t"
    using av s(2) by (subst unat_sub) (simp_all add: word_le_nat_alt unat_BIT)
  then have taken: "BIT s - av ! i = of_nat t" by (metis of_nat_unat ucast_id)
  have t: "unat (of_nat t :: u64) = t"
    using av(2) s(2) power_strict_increasing [of s 64 "2 :: nat"] by (intro unat_of_nat_u64) simp
  have "(of_nat t :: u64) mod BIT b = 0"
    using b by (simp add: word_unat_eq_iff unat_mod unat_BIT t)
  moreover have "BIT b \<noteq> 0" using b(1) by simp
  ultimately show ?thesis using i taken by (simp add: paddr_from_avail_bytes_def ROUND_UP_def Let_def s(1))
qed

text \<open>The bytes of untyped \<open>i\<close> that bootstrapping takes: \<open>2 ^ b\<close> from untyped \<open>i1\<close>, and the DMA region from \<open>i2\<close>.\<close>

definition stolen :: "nat \<Rightarrow> nat \<Rightarrow> nat \<Rightarrow> nat \<Rightarrow> nat" where
  "stolen b i1 i2 i = (if i = i1 then 2 ^ b else 0) + (if i = i2 then 2 ^ SOS_DMA_SIZE_BITS else 0)"

text \<open>If the first piece is at least as large as a DMA region, every untyped is divided exactly.\<close>

lemma memory_split:
  assumes "calculate_ut_caps bi seL4_PageBits av = Some (n_caps, av0)"
    and "steal_untyped bi b None av0 = Some (c1, q, av1)" and "c1 \<noteq> 0"
    and "steal_untyped bi SOS_DMA_SIZE_BITS (Some 0) av1 = Some (c2, p, av2)" and "c2 \<noteq> 0"
    and "SOS_DMA_SIZE_BITS \<le> b"
    and "\<forall>i \<in> set (bi_untypeds bi). ud_sizeBits (bi_untypedList bi ! i) \<le> seL4_MaxUntypedBits"
  shows "\<exists>i1 i2. i1 \<in> set (bi_untypeds bi) \<and> i2 \<in> set (bi_untypeds bi) \<and>
     c1 = bi_untyped_start bi + i1 \<and> c2 = bi_untyped_start bi + i2 \<and>
     p = Some (ud_paddr (bi_untypedList bi ! i2) + (if i1 = i2 then BIT b else 0)) \<and>
     (\<forall>i \<in> set (bi_untypeds bi).
        paddr_from_avail_bytes bi i seL4_PageBits av2 = Some (ud_paddr (bi_untypedList bi ! i) + of_nat (stolen b i1 i2 i)) \<and>
        stolen b i1 i2 i + PAGE_SIZE_4K * (unat (av2 ! i) div PAGE_SIZE_4K) =
          (if ud_sizeBits (bi_untypedList bi ! i) < seL4_PageBits then 0 else 2 ^ ud_sizeBits (bi_untypedList bi ! i)))"
proof -
  let ?s = "\<lambda>i. ud_sizeBits (bi_untypedList bi ! i)"
  have b: "12 \<le> b" "b < 64" "21 \<le> b"
    using assms(2,6) by (auto simp: steal_untyped_def c_assert_def SOS_DMA_SIZE_BITS_def seL4_LargePageBits_def
        seL4_MaxUntypedBits_def split: if_splits)
  have av0: "i < length (bi_untypedList bi)" "i < length av0" "av0 ! i = BIT (?s i)" "?s i < 64"
    if "i \<in> set (bi_untypeds bi)" for i
    using calculate_ut_caps_avail [OF assms(1)] assms(7) that by (auto simp: seL4_MaxUntypedBits_def seL4_PageBits_def)
  from assms(2) have "steal_from bi b None (bi_untypeds bi) av0 = Some (c1, q, av1)"
    by (auto simp: steal_untyped_def c_assert_def split: if_splits)
  from steal_from_spec [OF this assms(3)] obtain i1 where i1: "i1 \<in> set (bi_untypeds bi)" "BIT b \<le> av0 ! i1"
    "c1 = bi_untyped_start bi + i1" "av1 = av0[i1 := av0 ! i1 - BIT b]" by blast
  from assms(4) have "steal_from bi 21 (Some 0) (bi_untypeds bi) av1 = Some (c2, p, av2)"
    by (auto simp: steal_untyped_def c_assert_def SOS_DMA_SIZE_BITS_def seL4_LargePageBits_def split: if_splits)
  from steal_from_spec [OF this assms(5)] obtain i2 where i2: "i2 \<in> set (bi_untypeds bi)" "BIT 21 \<le> av1 ! i2"
    "c2 = bi_untyped_start bi + i2" "av2 = av1[i2 := av1 ! i2 - BIT 21]" "p = paddr_from_avail_bytes bi i2 21 av1" by auto
  let ?t1 = "\<lambda>i. if i = i1 then 2 ^ b else 0 :: nat"
  have av1: "unat (av1 ! i) = 2 ^ ?s i - ?t1 i \<and> ?t1 i \<le> 2 ^ ?s i" if "i \<in> set (bi_untypeds bi)" for i
    using i1 av0 [OF that] av0(2) [OF i1(1)] b by (auto simp: unat_BIT unat_sub word_le_nat_alt)
  have av2: "unat (av2 ! i) = 2 ^ ?s i - stolen b i1 i2 i \<and> stolen b i1 i2 i \<le> 2 ^ ?s i" if "i \<in> set (bi_untypeds bi)" for i
    using i1(4) i2 av0(2) [OF i2(1)] av1 [OF i2(1)] av1 [OF that]
    by (auto simp: unat_BIT unat_sub word_le_nat_alt stolen_def SOS_DMA_SIZE_BITS_def seL4_LargePageBits_def nth_list_update)
  have "p = Some (ud_paddr (bi_untypedList bi ! i2) + of_nat (?t1 i2))"
    unfolding i2(5) using av0 [OF i2(1)] av1 [OF i2(1)] i1(4) le_imp_power_dvd [OF b(3), of "2 :: nat"]
    by (intro paddr_behind [OF _ _ refl]) auto
  moreover have "paddr_from_avail_bytes bi i seL4_PageBits av2 = Some (ud_paddr (bi_untypedList bi ! i) + of_nat (stolen b i1 i2 i)) \<and>
        stolen b i1 i2 i + PAGE_SIZE_4K * (unat (av2 ! i) div PAGE_SIZE_4K) = (if ?s i < seL4_PageBits then 0 else 2 ^ ?s i)" if "i \<in> set (bi_untypeds bi)" for i
  proof
    have d: "2 ^ 12 dvd stolen b i1 i2 i"
      using b le_imp_power_dvd [of 12 b "2 :: nat"] le_imp_power_dvd [of 12 21 "2 :: nat"]
      by (auto simp: stolen_def SOS_DMA_SIZE_BITS_def seL4_LargePageBits_def intro: dvd_add)
    show "paddr_from_avail_bytes bi i seL4_PageBits av2 = Some (ud_paddr (bi_untypedList bi ! i) + of_nat (stolen b i1 i2 i))"
      using av0 [OF that] av2 [OF that] i1(4) i2(4) d
      by (intro paddr_behind [OF _ _ refl]) (auto simp: seL4_PageBits_def)
    show "stolen b i1 i2 i + PAGE_SIZE_4K * (unat (av2 ! i) div PAGE_SIZE_4K) = (if ?s i < seL4_PageBits then 0 else 2 ^ ?s i)"
    proof (cases "?s i < 12")
      case True
      then have "2 ^ ?s i < (2 ^ 12 :: nat)" by (intro power_strict_increasing) simp_all
      with av2 [OF that] d have "stolen b i1 i2 i = 0" "unat (av2 ! i) < 4096" by (auto dest: dvd_imp_le)
      with True show ?thesis by (simp add: PAGE_SIZE_4K_def seL4_PageBits_def)
    next
      case False
      then have "2 ^ 12 dvd unat (av2 ! i)"
        using av2 [OF that] d le_imp_power_dvd [of 12 "?s i" "2 :: nat"] by (auto intro: dvd_diff_nat)
      with False show ?thesis using av2 [OF that] by (simp add: PAGE_SIZE_4K_def seL4_PageBits_def)
    qed
  qed
  ultimately show ?thesis using i1(1,3) i2(1,3) by (intro exI [of _ i1] exI [of _ i2]) (auto simp: BIT_nat)
qed

definition boot_example :: seL4_BootInfo where
  "boot_example = \<lparr>bi_empty_start = 200, bi_empty_end = 4000, bi_untyped_start = 100, bi_untyped_end = 101,
     bi_untypedList = [\<lparr>ud_paddr = 0x10000000, ud_sizeBits = 24, ud_isDevice = False\<rparr>]\<rparr>"

lemmas boot_eval = calculate_ut_caps_def steal_untyped_def bi_untypeds_def boot_example_def paddr_from_avail_bytes_def ROUND_UP_def
  seL4_PageBits_def seL4_MaxUntypedBits_def SOS_DMA_SIZE_BITS_def seL4_LargePageBits_def c_assert_def BIT_def

text \<open>How much bootstrapping needs grows with the memory: the untyped table has 16 bytes for every 4K page.\<close>

lemma unat_ut_pages:
  "unat (rg_end memory - rg_start memory) div 2 ^ 20 \<le> ut_pages_for_region memory" "ut_pages_for_region memory \<le> 2 ^ 44"
proof -
  let ?n = "unat (rg_end memory - rg_start memory)"
  have n: "?n < 2 ^ 64" using unsigned_less [of "rg_end memory - rg_start memory", where ?'a = nat] by simp
  then have "?n div 4096 * 16 < 2 ^ 64" by simp
  then have "unat ((rg_end memory - rg_start memory) div 4096 * 16) = ?n div 4096 * 16" by (simp add: unat_word_ariths unat_div)
  then have "ut_pages_for_region memory = ?n div 4096 * 16 div 4096 + (if ?n div 4096 * 16 mod 4096 > 0 then 1 else 0)"
    by (simp add: ut_pages_for_region_def BYTES_TO_4K_PAGES_def PAGE_SIZE_4K_def ut_t_size_def)
  then show "?n div 2 ^ 20 \<le> ut_pages_for_region memory" "ut_pages_for_region memory \<le> 2 ^ 44" using n by auto
qed

lemma bootstrap_needs_size:
  assumes "bootstrap_needs bi memory av = Some (ut_pages, count, size_b, av0)" and "2 ^ 28 \<le> unat (rg_end memory - rg_start memory)"
  shows "2 ^ 20 \<le> unat size_b" and "\<exists>n_caps. calculate_ut_caps bi seL4_PageBits av = Some (n_caps, av0)"
proof -
  let ?P = "ut_pages_for_region memory"
  from assms(1) obtain n_caps c where c: "calculate_ut_caps bi seL4_PageBits av = Some (n_caps, av0)" "unat c \<le> CNODE_SLOTS INITIAL_TASK_CNODE_SIZE_BITS"
    and s: "size_b = of_nat ?P * of_nat PAGE_SIZE_4K + (drop_bit seL4_PageTableIndexBits (of_nat ?P) + 1) * BIT seL4_PageTableBits + BIT seL4_PUDBits +
       BIT seL4_PageDirBits + (c * BIT CNODE_SIZE_BITS + BIT INITIAL_TASK_CNODE_SIZE_BITS)"
    by (auto simp: bootstrap_needs_def Let_def c_assert_def elim!: bind_SomeE split: if_splits)
  show "\<exists>n_caps. calculate_ut_caps bi seL4_PageBits av = Some (n_caps, av0)" using c(1) by blast
  have P: "?P \<le> 2 ^ 44" "256 \<le> ?P" using unat_ut_pages [of memory] assms(2) by auto
  have uP: "unat (of_nat ?P :: u64) = ?P" using P(1) by (intro unat_of_nat_u64) simp
  have uc: "unat c \<le> 2 ^ 13" using c(2) by (simp add: CNODE_SLOTS_def CNODE_SLOT_BITS_def INITIAL_TASK_CNODE_SIZE_BITS_def seL4_SlotBits_def)
  have "unat (drop_bit 9 (of_nat ?P :: u64)) = ?P div 512" by (simp only: unat_drop_bit_eq uP) (simp add: drop_bit_eq_div)
  then have d: "drop_bit 9 (of_nat ?P :: u64) = of_nat (?P div 512)" by (metis of_nat_unat ucast_id)
  have "size_b = of_nat (?P * 4096 + (?P div 512 + 1) * 4096 + 8192 + unat c * 4096 + 262144)"
    by (simp add: s d seL4_PageTableIndexBits_def seL4_PageTableBits_def seL4_PUDBits_def seL4_PageDirBits_def CNODE_SIZE_BITS_def
        INITIAL_TASK_CNODE_SIZE_BITS_def PAGE_SIZE_4K_def BIT_def algebra_simps)
  moreover have "?P * 4096 + (?P div 512 + 1) * 4096 + 8192 + unat c * 4096 + 262144 < 2 ^ 64" using P uc by simp
  ultimately have "unat size_b = ?P * 4096 + (?P div 512 + 1) * 4096 + 8192 + unat c * 4096 + 262144" by (simp only: unat_of_nat_u64)
  then show "2 ^ 20 \<le> unat size_b" using P(2) by simp
qed

lemma le_last: "sorted xs \<Longrightarrow> x \<in> set xs \<Longrightarrow> x \<le> last xs"
  by (induction xs) auto

lemma LOG_BASE_2_least:
  assumes "LOG_BASE_2 n = Some k" and "2 ^ 20 \<le> unat n"
  shows "20 \<le> k"
proof -
  have "unat (drop_bit 20 n) = unat n div 2 ^ 20" by (simp only: unat_drop_bit_eq) (simp only: drop_bit_eq_div)
  then have "drop_bit 20 n \<noteq> 0" using assms(2) by auto
  then obtain j where j: "bit n (20 + j)" by (auto simp: bit_eq_iff bit_drop_bit_eq)
  have sorted: "sorted (filter (bit n) [0..<64])" by (simp add: sorted_wrt_filter)
  have mem: "20 + j \<in> set (filter (bit n) [0..<64])" using j bit_imp_le_length [OF j] by auto
  with le_last [OF sorted] have "20 + j \<le> last (filter (bit n) [0..<64])" .
  then show ?thesis using assms(1) by (auto simp: LOG_BASE_2_def split: if_splits)
qed

text \<open>
  C18. The division of the memory, on a machine whose memory spans at least 256 MiB. \<open>sos_bootstrap\<close> computes how much memory it needs, takes that much for its own structures and then a DMA region,
  and makes 4K untypeds of what is left. Every untyped of the kernel is divided exactly, in this order: the first piece if it was taken here, the DMA region if it was taken here, and the 4K untypeds up
  to the end; the physical addresses that are recorded for the DMA region and for the first 4K untyped are those of this division. So no byte is used twice and none is lost, but for untypeds below 4K, which are left alone. With so much memory the
  first piece is at least as large as the DMA region, which the code relies on.
\<close>

theorem bootstrap_memory_split:
  assumes "find_memory_bounds bi = Some memory" and "2 ^ 28 \<le> unat (rg_end memory - rg_start memory)"
    and "bootstrap_needs bi memory av = Some (ut_pages, count, size_b, av0)" and "LOG_BASE_2 size_b = Some bits"
    and "steal_untyped bi (bits + 1) None av0 = Some (c1, q, av1)" and "c1 \<noteq> seL4_CapNull"
    and "steal_untyped bi SOS_DMA_SIZE_BITS (Some 0) av1 = Some (c2, p, av2)" and "c2 \<noteq> seL4_CapNull"
    and "\<forall>i \<in> set (bi_untypeds bi). ud_sizeBits (bi_untypedList bi ! i) \<le> seL4_MaxUntypedBits"
  shows "\<exists>i1 i2. i1 \<in> set (bi_untypeds bi) \<and> i2 \<in> set (bi_untypeds bi) \<and>
     c1 = bi_untyped_start bi + i1 \<and> c2 = bi_untyped_start bi + i2 \<and>
     p = Some (ud_paddr (bi_untypedList bi ! i2) + (if i1 = i2 then BIT (bits + 1) else 0)) \<and>
     (\<forall>i \<in> set (bi_untypeds bi).
        paddr_from_avail_bytes bi i seL4_PageBits av2 = Some (ud_paddr (bi_untypedList bi ! i) + of_nat (stolen (bits + 1) i1 i2 i)) \<and>
        stolen (bits + 1) i1 i2 i + PAGE_SIZE_4K * (unat (av2 ! i) div PAGE_SIZE_4K) =
          (if ud_sizeBits (bi_untypedList bi ! i) < seL4_PageBits then 0 else 2 ^ ud_sizeBits (bi_untypedList bi ! i)))"
proof -
  note n = bootstrap_needs_size [OF assms(3,2)]
  from n(2) obtain n_caps where "calculate_ut_caps bi seL4_PageBits av = Some (n_caps, av0)" by blast
  from memory_split [OF this assms(5) _ assms(7) _ _ assms(9)] assms(6,8) LOG_BASE_2_least [OF assms(4) n(1)]
  show ?thesis by (simp add: seL4_CapNull_def SOS_DMA_SIZE_BITS_def seL4_LargePageBits_def)
qed

text \<open>A machine with one untyped of 512 MiB.\<close>

definition boot_example_512M :: seL4_BootInfo where
  "boot_example_512M = \<lparr>bi_empty_start = 200, bi_empty_end = 4000, bi_untyped_start = 100, bi_untyped_end = 101,
     bi_untypedList = [\<lparr>ud_paddr = 0x10000000, ud_sizeBits = 29, ud_isDevice = False\<rparr>]\<rparr>"

lemma boot_512M:
  "find_memory_bounds boot_example_512M = Some \<lparr>rg_start = 0x10000000, rg_end = 0x30000000\<rparr>"
  "bootstrap_needs boot_example_512M \<lparr>rg_start = 0x10000000, rg_end = 0x30000000\<rparr> [0] = Some (512, 1027, 0x647000, [0x20000000])"
  "LOG_BASE_2 0x647000 = Some 22"
  "steal_untyped boot_example_512M 23 None [0x20000000] = Some (100, None, [0x1F800000])"
  "steal_untyped boot_example_512M SOS_DMA_SIZE_BITS (Some 0) [0x1F800000] = Some (100, Some 0x10800000, [0x1F600000])"
  by (simp_all add: boot_eval boot_example_512M_def find_memory_bounds_def bootstrap_needs_def ut_pages_for_region_def BYTES_TO_4K_PAGES_def
      PAGE_SIZE_4K_def ut_t_size_def seL4_PageTableIndexBits_def seL4_PageTableBits_def seL4_PUDBits_def seL4_PageDirBits_def CNODE_SIZE_BITS_def
      INITIAL_TASK_CNODE_SIZE_BITS_def CNODE_SLOTS_def CNODE_SLOT_BITS_def seL4_SlotBits_def LOG_BASE_2_def upt_rec)

theorem bootstrap_memory_split_witness:
  "paddr_from_avail_bytes boot_example_512M 0 seL4_PageBits [0x1F600000] = Some (0x10000000 + of_nat (stolen 23 0 0 0)) \<and>
     stolen 23 0 0 0 + PAGE_SIZE_4K * (0x1F600000 div PAGE_SIZE_4K) = 2 ^ 29"
proof -
  have "steal_untyped boot_example_512M (22 + 1) None [0x20000000] = Some (100, None, [0x1F800000])" using boot_512M(4) by simp
  from bootstrap_memory_split [OF boot_512M(1) _ boot_512M(2,3) this _ boot_512M(5)] show ?thesis
    by (auto simp: bi_untypeds_def boot_example_512M_def seL4_CapNull_def seL4_PageBits_def seL4_MaxUntypedBits_def)
qed

text \<open>
  The size of the memory matters. When the first piece is smaller and comes from the same untyped, the DMA region is aligned upwards but the gap is not subtracted from the bytes left, so that the 4K untypeds are recorded at
  addresses inside the DMA region.
\<close>

lemma steal_untyped_gap:
  "steal_untyped boot_example 12 None [0x1000000] = Some (100, None, [0xFFF000])"
  "steal_untyped boot_example SOS_DMA_SIZE_BITS (Some 0) [0xFFF000] = Some (100, Some 0x10200000, [0xDFF000])"
  "paddr_from_avail_bytes boot_example 0 seL4_PageBits [0xDFF000] = Some 0x10201000"
  by (simp_all add: boot_eval)

section \<open>Recording the slots\<close>

lemma fill_words:
  assumes "for_each fill_word [0..<CNODE_SLOTS CNODE_SIZE_BITS div seL4_WordBits] nd = Some nd'"
  shows "n_cnodes nd' = n_cnodes nd \<and> length (cnodes nd') = length (cnodes nd) \<and> (\<forall>k > 0. cnodes nd' ! k = cnodes nd ! k)"
proof -
  have step: "n_cnodes b = n_cnodes a \<and> length (cnodes b) = length (cnodes a) \<and> (\<forall>k > 0. cnodes b ! k = cnodes a ! k)"
    if "fill_word w a = Some b" "w < 128" for w a b
    using that by (auto simp: fill_word_def CNODE_INDEX_def arr_set_def elim!: bind_SomeE split: if_splits)
  show ?thesis
    by (rule for_each_invariant [OF assms]) (auto simp: seL4_WordBits_def dest!: step)
qed

text \<open>
  The state of the recording after \<open>n\<close> cnodes: their top level bits are set, and they are counted; only the first cnode of each node has bits.
\<close>

definition recorded :: "nat \<Rightarrow> 'w cspace_t \<Rightarrow> bool" where
  "recorded n cs \<longleftrightarrow> two_level cs \<and> top_lvl_size_bits cs = INITIAL_TASK_CNODE_SIZE_BITS \<and>
     length (top_bf cs) = BITFIELD_SIZE INITIAL_TASK_CNODE_SIZE_BITS \<and> (\<forall>t. bf_bit (top_bf cs) t \<longleftrightarrow> t < n) \<and>
     (\<forall>m < n_bot_lvl_nodes cs. \<exists>nd. get_node cs m = Some nd \<and> length (cnodes nd) = 169 \<and>
        (\<forall>j < n. j div 169 = m \<longrightarrow> j mod 169 < n_cnodes nd) \<and> (\<forall>k. 0 < k \<and> k < 169 \<longrightarrow> cnodes nd ! k = zero_bot_lvl))"

lemma count_step:
  fixes n c :: nat
  assumes "\<forall>j < n. j div 169 = n div 169 \<longrightarrow> j mod 169 < c"
  shows "n mod 169 < c + 1"
proof (cases "n mod 169")
  case (Suc k)
  with pred_div_mod [OF Suc] assms have "k < c" by (cases n) auto
  with Suc show ?thesis by simp
qed simp

lemma record_full_cnode_recorded:
  assumes rec: "recorded n cs" and run: "record_full_cnode (n * 128) cs = Some cs'" and m: "n div 169 < n_bot_lvl_nodes cs"
  shows "recorded (Suc n) cs' \<and> n_bot_lvl_nodes cs' = n_bot_lvl_nodes cs"
proof -
  obtain nd where nd: "get_node cs (n div 169) = Some nd" "length (cnodes nd) = 169"
    "\<forall>j < n. j div 169 = n div 169 \<longrightarrow> j mod 169 < n_cnodes nd" "\<forall>k. 0 < k \<and> k < 169 \<longrightarrow> cnodes nd ! k = zero_bot_lvl"
    using rec m unfolding recorded_def by blast
  obtain nd' cs1 bf where f: "for_each fill_word [0..<CNODE_SLOTS CNODE_SIZE_BITS div seL4_WordBits] (nd\<lparr>n_cnodes := n_cnodes nd + 1\<rparr>) = Some nd'"
    and s: "set_node cs (n div 169) (Some nd') = Some cs1" and b: "bf_set_bit (top_bf cs1) n = Some bf" and cs': "cs' = cs1\<lparr>top_bf := bf\<rparr>"
    using run nd(1) by (auto simp: record_full_cnode_def elim!: bind_SomeE)
  note nd' = fill_words [OF f, simplified] and g = get_node_set_node [OF s]
  have same: "top_bf cs1 = top_bf cs" "n_bot_lvl_nodes cs1 = n_bot_lvl_nodes cs" "two_level cs1 = two_level cs"
    "top_lvl_size_bits cs1 = top_lvl_size_bits cs" by (subst g(2), simp)+
  note bits = bf_set_bit_SomeD [OF b]
  have "\<exists>nd. get_node cs1 k = Some nd \<and> length (cnodes nd) = 169 \<and>
        (\<forall>j < Suc n. j div 169 = k \<longrightarrow> j mod 169 < n_cnodes nd) \<and> (\<forall>k. 0 < k \<and> k < 169 \<longrightarrow> cnodes nd ! k = zero_bot_lvl)"
    if k: "k < n_bot_lvl_nodes cs" for k
  proof (cases "k = n div 169")
    case True
    with nd nd' count_step [OF nd(3)] show ?thesis by (auto simp: g(1) less_Suc_eq)
  next
    case False
    then have "\<not> (n div 169 = k)" by simp
    with rec k show ?thesis unfolding recorded_def g(1) less_Suc_eq using False by fastforce
  qed
  moreover have "\<forall>t. bf_bit bf t \<longleftrightarrow> t < Suc n" using bits(3) rec same by (auto simp: recorded_def)
  ultimately show ?thesis using rec same bits(2) by (simp add: recorded_def cs')
qed

lemma record_full_cnodes:
  assumes "for_each record_full_cnode (map (\<lambda>n. n * 128) [0..<n]) cs = Some cs'" and "recorded 0 cs"
    and "n div 169 < n_bot_lvl_nodes cs"
  shows "recorded n cs' \<and> n_bot_lvl_nodes cs' = n_bot_lvl_nodes cs"
  using assms
proof (induction n arbitrary: cs')
  case (Suc n)
  from Suc.prems(1) obtain cs1 where a: "for_each record_full_cnode (map (\<lambda>n. n * 128) [0..<n]) cs = Some cs1"
    and b: "record_full_cnode (n * 128) cs1 = Some cs'" by (auto simp: for_each_append elim!: bind_SomeE)
  have "n div 169 \<le> Suc n div 169" by (rule div_le_mono) simp
  with Suc.prems(3) have "n div 169 < n_bot_lvl_nodes cs" by simp
  with Suc.IH [OF a Suc.prems(2)] record_full_cnode_recorded [OF _ b] show ?case by auto
qed simp

text \<open>Cnode \<open>j\<close> is counted, but none of its slots is marked.\<close>

definition unmarked :: "'w cspace_t \<Rightarrow> nat \<Rightarrow> bool" where
  "unmarked cs j \<longleftrightarrow> (\<exists>nd. get_node cs (j div 169) = Some nd \<and> length (cnodes nd) = 169 \<and>
     j mod 169 < n_cnodes nd \<and> cnodes nd ! (j mod 169) = zero_bot_lvl)"

definition top_view :: "'w cspace_t \<Rightarrow> u64 list \<times> nat \<times> bool \<times> nat" where
  "top_view cs = (top_bf cs, n_bot_lvl_nodes cs, two_level cs, top_lvl_size_bits cs)"

lemma set_node_top_view: "set_node cs i nd = Some cs' \<Longrightarrow> top_view cs' = top_view cs"
  by (auto simp: set_node_def top_view_def elim!: bind_SomeE)

lemma record_slots:
  assumes "for_each record_slot [u * 128..<ffs] nd = Some nd'" and "ffs < u * 128 + 128"
  shows "n_cnodes nd' = n_cnodes nd \<and> length (cnodes nd') = length (cnodes nd) \<and>
    (\<forall>k. k \<noteq> u mod 169 \<longrightarrow> cnodes nd' ! k = cnodes nd ! k)"
proof -
  have step: "n_cnodes b = n_cnodes a \<and> length (cnodes b) = length (cnodes a) \<and> (\<forall>k. k \<noteq> u mod 169 \<longrightarrow> cnodes b ! k = cnodes a ! k)"
    if "record_slot i a = Some b" "u * 128 \<le> i" "i < ffs" for i a b
  proof -
    have "i - u * 128 < 128" using that assms(2) by linarith
    from cptr_indices(2) [OF this, of u] have "CNODE_INDEX i = u mod 169" using that(2) by simp
    with that(1) show ?thesis by (auto simp: record_slot_def arr_set_def elim!: bind_SomeE split: if_splits)
  qed
  show ?thesis by (rule for_each_invariant [OF assms(1)]) (auto dest!: step)
qed

lemma record_cnodes:
  assumes "for_each record_cnode is cs = Some cs'" and "unmarked cs j"
  shows "unmarked cs' j \<and> top_view cs' = top_view cs"
proof -
  have "unmarked c' j \<and> top_view c' = top_view cs" if "unmarked c j \<and> top_view c = top_view cs" "record_cnode i c = Some c'" for i c c'
  proof -
    from that(2) obtain nd where g: "get_node c (i div 169) = Some nd"
      and s: "set_node c (i div 169) (Some (nd\<lparr>n_cnodes := n_cnodes nd + 1\<rparr>)) = Some c'"
      by (auto simp: record_cnode_def elim!: bind_SomeE)
    from that(1) g have "unmarked c' j" unfolding unmarked_def get_node_set_node(1) [OF s] by auto
    with set_node_top_view [OF s] that(1) show ?thesis by simp
  qed
  then show ?thesis using for_each_invariant [OF assms(1), of "\<lambda>c. unmarked c j \<and> top_view c = top_view cs"] assms(2) by blast
qed

lemma bootstrap_record_unmarked:
  assumes run: "bootstrap_record ffs count cs = Some cs'" and rec: "recorded 0 cs" and nodes: "ffs div 128 div 169 < n_bot_lvl_nodes cs"
    and j: "j < ffs div 128" "j mod 169 \<noteq> 0"
  shows "unmarked cs' j \<and> top_view cs' = (top_bf cs', n_bot_lvl_nodes cs, True, INITIAL_TASK_CNODE_SIZE_BITS) \<and>
    length (top_bf cs') = BITFIELD_SIZE INITIAL_TASK_CNODE_SIZE_BITS \<and> (\<forall>t. bf_bit (top_bf cs') t \<longleftrightarrow> t < ffs div 128)"
proof -
  let ?u = "ffs div 128"
  obtain cs1 nd nd1 cs2 where f: "for_each record_full_cnode (map (\<lambda>n. n * 128) [0..<?u]) cs = Some cs1"
    and g: "get_node cs1 (?u div 169) = Some nd"
    and s: "for_each record_slot [?u * 128..<ffs] (nd\<lparr>n_cnodes := n_cnodes nd + 1\<rparr>) = Some nd1"
    and st: "set_node cs1 (?u div 169) (Some nd1) = Some cs2" and c: "for_each record_cnode [?u + 1..<count] cs2 = Some cs'"
    using run by (auto simp: bootstrap_record_def Let_def elim!: bind_SomeE)
  from record_full_cnodes [OF f rec nodes] have r: "recorded ?u cs1" "n_bot_lvl_nodes cs1 = n_bot_lvl_nodes cs" by auto
  have "ffs < ?u * 128 + 128" using div_mult_mod_eq [of ffs 128] mod_less_divisor [of 128 ffs] by linarith
  note slots = record_slots [OF s this, simplified]
  have "j div 169 \<le> ?u div 169" using j(1) by (intro div_le_mono) simp
  then have "j div 169 < n_bot_lvl_nodes cs1" using nodes r(2) by simp
  with r(1) obtain nj where n: "get_node cs1 (j div 169) = Some nj" "length (cnodes nj) = 169"
    "\<forall>i < ?u. i div 169 = j div 169 \<longrightarrow> i mod 169 < n_cnodes nj" "\<forall>k. 0 < k \<and> k < 169 \<longrightarrow> cnodes nj ! k = zero_bot_lvl"
    unfolding recorded_def by blast
  have nj: "j mod 169 < n_cnodes nj" "cnodes nj ! (j mod 169) = zero_bot_lvl" using n(3,4) j by simp_all
  have "unmarked cs2 j"
  proof (cases "j div 169 = ?u div 169")
    case True
    then have "j mod 169 \<noteq> ?u mod 169" using j(1) by (metis div_mult_mod_eq less_irrefl)
    with True n(1,2) nj g slots show ?thesis unfolding unmarked_def get_node_set_node(1) [OF st] by auto
  qed (use n(1,2) nj in \<open>simp add: unmarked_def get_node_set_node(1) [OF st]\<close>)
  with record_cnodes [OF c] set_node_top_view [OF st] r show ?thesis by (auto simp: top_view_def recorded_def)
qed

lemma initial_sizes [simp]: "BITFIELD_SIZE INITIAL_TASK_CNODE_SIZE_BITS = 128" "CNODE_SLOTS INITIAL_TASK_CNODE_SIZE_BITS = 8192"
  by (simp_all add: BITFIELD_SIZE_def CNODE_SLOTS_def CNODE_SLOT_BITS_def INITIAL_TASK_CNODE_SIZE_BITS_def seL4_SlotBits_def seL4_WordBits_def)

lemma clear_empty_bf:
  assumes "x < 128"
  shows "bf_clr_bit [0, 0] x = Some [0, 0]"
proof -
  have "x div 64 = 0 \<or> x div 64 = 1" using assms by (auto simp: less_mult_imp_div_less)
  then show ?thesis by (auto simp: bf_clr_bit_def bf_index_defs arr_get_def arr_set_def)
qed

lemma empty_bf_eval: "bf_first_free 2 [0, 0] = Some 0" "bf_set_bit [0, 0] 0 = Some [1, 0]" "bf_first_free 2 [1, 0] = Some 1"
  by (simp_all add: cs_eval)

text \<open>Freeing a slot of an unmarked cnode below which all are full, and allocating the next.\<close>

lemma unmarked_free_alloc:
  assumes un: "unmarked cs j" and top: "top_view cs = (top_bf cs, n, True, INITIAL_TASK_CNODE_SIZE_BITS)" "length (top_bf cs) = 128"
    and full: "\<And>t. t < j \<Longrightarrow> bf_bit (top_bf cs) t" and j: "0 < j" "j < 8192" "j div 169 < n" and x: "x < 128"
  shows "\<exists>cs1 cs2. cspace_free_slot cs (j * 128 + x) = Some cs1 \<and> cspace_alloc_slot K cs1 w = Some (j * 128, cs2, w)"
proof -
  obtain nd where nd: "get_node cs (j div 169) = Some nd" "length (cnodes nd) = 169" "j mod 169 < n_cnodes nd"
    "cnodes nd ! (j mod 169) = zero_bot_lvl" using un unfolding unmarked_def by blast
  have top': "n_bot_lvl_nodes cs = n" "two_level cs" "top_lvl_size_bits cs = INITIAL_TASK_CNODE_SIZE_BITS"
    using top(1) by (auto simp: top_view_def)
  define tb where "tb = bf_del j (top_bf cs)"
  have tb: "bf_clr_bit (top_bf cs) j = Some tb" using j top(2) by (simp add: bf_clr_del tb_def)
  have bits: "bf_bit tb t \<longleftrightarrow> t \<noteq> j \<and> bf_bit (top_bf cs) t" for t using j top(2) by (simp add: tb_def bf_bit_del)
  have "bf_first_free 128 tb = Some (LEAST t. \<not> bf_bit tb t)"
    using top(2) j bits by (intro bf_first_free_Some) (auto simp: tb_def)
  also have "(LEAST t. \<not> bf_bit tb t) = j" using bits full by (intro Least_equality) (auto simp: not_less [symmetric])
  finally have ff: "bf_first_free 128 tb = Some j" .
  let ?nd = "nd\<lparr>cnodes := (cnodes nd)[j mod 169 := zero_bot_lvl\<lparr>bl_bf := [0, 0]\<rparr>]\<rparr>"
  have len: "j div 169 < length (bot_lvl_nodes cs)" using get_node_length [OF nd(1)] .
  then obtain cs1 where s: "set_node (cs\<lparr>top_bf := tb\<rparr>) (j div 169) (Some ?nd) = Some cs1"
    using set_node_Some [of "j div 169" "cs\<lparr>top_bf := tb\<rparr>"] by auto
  have free: "cspace_free_slot cs (j * 128 + x) = Some cs1"
    using j x top' tb nd s by (simp add: cspace_free_slot_def seL4_CapNull_def zero_bot_lvl_bf clear_empty_bf)
  have top1: "top_bf cs1 = tb" "n_bot_lvl_nodes cs1 = n" "two_level cs1" "top_lvl_size_bits cs1 = INITIAL_TASK_CNODE_SIZE_BITS"
    using set_node_top_view [OF s] top' by (simp_all add: top_view_def)
  have g1: "get_node cs1 (j div 169) = Some ?nd" using get_node_set_node(1) [OF s] by simp
  have "j div 169 < length (bot_lvl_nodes cs1)" using get_node_length [OF g1] .
  then obtain cs2 where s2: "set_node cs1 (j div 169)
      (Some (nd\<lparr>cnodes := (cnodes nd)[j mod 169 := zero_bot_lvl\<lparr>bl_bf := [1, 0]\<rparr>]\<rparr>)) = Some cs2"
    using set_node_Some by blast
  have "\<exists>cs2. cspace_alloc_slot K cs1 w = Some (j * 128, cs2, w)"
    using j nd(2,3) s2 empty_bf_eval(3)
    by (subst cspace_alloc_slot.simps) (simp add: ff top1 needs_levels_def g1 take_bot_slot_def empty_bf_eval refill_watermark_def find_upt)
  with free show ?thesis by blast
qed

text \<open>
  C39. The slots that bootstrapping uses are not all recorded. The loop that marks the slots of full cnodes uses the number of the word where it means the slot, so that it marks the first cnode of each bookkeeping node again and again
  and leaves the others empty, with only their top level bit set. When any slot of such a cnode is freed, the next allocation hands out the first slot of that cnode, which bootstrapping has filled, whatever slot was freed.
\<close>

theorem bootstrap_slots_reused:
  assumes "bootstrap_record first_free_slot count cs = Some cs'" and "recorded 0 cs"
    and "first_free_slot div 128 div 169 < n_bot_lvl_nodes cs" and "first_free_slot \<le> INITIAL_TASK_CSPACE_SLOTS"
    and "j < first_free_slot div 128" and "j mod 169 \<noteq> 0" and "x < 128"
  shows "\<exists>cs1 cs2. cspace_free_slot cs' (j * 128 + x) = Some cs1 \<and> cspace_alloc_slot K cs1 w = Some (j * 128, cs2, w)"
proof -
  note r = bootstrap_record_unmarked [OF assms(1-3,5,6)]
  have "first_free_slot div 128 \<le> 8192"
    using assms(4) by (simp add: INITIAL_TASK_CSPACE_SLOTS_def INITIAL_TASK_CNODE_SIZE_BITS_def CNODE_SLOT_BITS_def CNODE_SIZE_BITS_def seL4_SlotBits_def
        div_le_mono [of _ 1048576 128, simplified])
  moreover have "j div 169 \<le> first_free_slot div 128 div 169" using assms(5) by (intro div_le_mono) simp
  ultimately show ?thesis using r assms(3,5-7)
    by (intro unmarked_free_alloc [where n = "n_bot_lvl_nodes cs"]) (auto intro!: Nat.gr0I)
qed

definition boot_cs_example :: "unit cspace_t" where
  "boot_cs_example = bootstrap_cspace_0\<lparr>two_level := True, top_lvl_size_bits := INITIAL_TASK_CNODE_SIZE_BITS,
     bot_lvl_nodes := [Some zero_node], n_bot_lvl_nodes := 1\<rparr>"

lemma boot_cs_example_recorded: "recorded 0 boot_cs_example"
  by (simp add: recorded_def boot_cs_example_def bootstrap_cspace_0_def get_node_def zero_node_def)

lemma boot_cs_example_run: "\<exists>cs'. bootstrap_record 256 3 boot_cs_example = Some cs'"
proof -
  have [simp]: "[0..<2] = [0, Suc 0]" by (simp add: upt_rec)
  have [simp]: "CNODE_INDEX 0 = 0" "CNODE_INDEX (Suc 0) = 0" "NODE_INDEX 0 = 0" "NODE_INDEX 128 = 0" "TOP_LVL_INDEX 0 = 0" "TOP_LVL_INDEX 128 = Suc 0"
    by (simp_all add: CNODE_INDEX_def NODE_INDEX_def TOP_LVL_INDEX_def)
  show ?thesis
    by (simp add: bootstrap_record_def boot_cs_example_def bootstrap_cspace_0_def record_full_cnode_def fill_word_def get_node_def set_node_def
        zero_node_def zero_bot_lvl_def seL4_WordBits_def bf_set_bit_def bf_index_defs)
qed

theorem bootstrap_slots_reused_witness:
  "\<exists>cs' cs1 cs2. bootstrap_record 256 3 boot_cs_example = Some cs' \<and>
     cspace_free_slot cs' 133 = Some cs1 \<and> cspace_alloc_slot K_succeeds cs1 () = Some (128, cs2, ())"
proof -
  obtain cs' where run: "bootstrap_record 256 3 boot_cs_example = Some cs'" using boot_cs_example_run by blast
  have n: "n_bot_lvl_nodes boot_cs_example = 1" by (simp add: boot_cs_example_def)
  from bootstrap_slots_reused [OF run boot_cs_example_recorded, of 1 5 K_succeeds "()"] run n show ?thesis
    by (auto simp: INITIAL_TASK_CSPACE_SLOTS_def INITIAL_TASK_CNODE_SIZE_BITS_def CNODE_SLOT_BITS_def CNODE_SIZE_BITS_def seL4_SlotBits_def)
qed

end
