(* ===== verification/Stdio.thy ===== *)
theory Stdio
  imports C_Memory Errno Sos_Env
begin

text \<open>
  The system calls that the C library makes on behalf of SOS itself: \<open>sos/src/sys/stdio.c\<close>, \<open>sys/exit.c\<close> and \<open>sys/thread.c\<close>, and the serial port that shows their output, \<open>sos/src/drivers/uart.c\<close>.

  \<^item> The state \<open>'w posix\<close> has \<open>errno\<close>, the memory and the rest. The network stack is a parameter \<open>P\<close>: it maps a call of its socket interface, one constructor of \<open>pico_call\<close> each, to the value returned.
  \<^item> \<open>vputchar\<close>, a function pointer in the code, is a parameter; it may not return.
  \<^item> The arrays that are passed by address are lists. An \<open>int\<close> that overflows is undefined behaviour.
\<close>

section \<open>The interface of the network stack\<close>

datatype pico_call =
    Pico_Newsocket int int int
  | Pico_Bind int u64 int
  | Pico_Listen int int
  | Pico_Connect int u64 int
  | Pico_Accept int u64 u64
  | Pico_Write int u64 u64
  | Pico_Read int u64 u64
  | Pico_Sendto int u64 int int u64 int
  | Pico_Recvfrom int u64 int int u64 u64
  | Pico_Close int
  | Pico_Getsockname int u64 u64
  | Pico_Getpeername int u64 u64
  | Pico_Fcntl int int int
  | Pico_Setsockopt int int int u64 int
  | Pico_Getsockopt int int int u64 u64

record 'w posix =
  px_errno :: int
  px_mem :: mem
  px_rest :: 'w

type_synonym 'w pico = "pico_call \<Rightarrow> 'w posix \<Rightarrow> int \<times> 'w posix"

text \<open>The result of a system call; \<open>None\<close> is undefined behaviour, or that the call does not return.\<close>

type_synonym 'w sys = "'w posix \<Rightarrow> (int \<times> 'w posix) option"

definition STDOUT_FD :: int where "STDOUT_FD = 1"
definition STDERR_FD :: int where "STDERR_FD = 2"
definition PICO_FD_START :: int where "PICO_FD_START = 3"
definition IOV_MAX :: int where "IOV_MAX = 1024"
definition SSIZE_MAX :: int where "SSIZE_MAX = 2 ^ 63 - 1"
definition RLIMIT_NOFILE :: nat where "RLIMIT_NOFILE = 7"

record iovec =
  iov_base :: u64
  iov_len :: u64

section \<open>Output\<close>

type_synonym 'w putchar = "byte \<Rightarrow> 'w \<Rightarrow> 'w option"

definition output_chars :: "'w putchar \<Rightarrow> u64 \<Rightarrow> u64 \<Rightarrow> 'w posix \<Rightarrow> (u64 \<times> 'w posix) option" where
  "output_chars vputchar data count s = do {
     w \<leftarrow> for_each (\<lambda>i w. do { c \<leftarrow> px_mem s (data + of_nat i); vputchar c w }) [0..<unat count] (px_rest s);
     Some (count, s\<lparr>px_rest := w\<rparr>)
   }"

text \<open>The sum of the lengths, as \<open>long long\<close>; the test in the loop compares it with the largest \<open>ssize_t\<close>.\<close>

fun writev_sum :: "iovec list \<Rightarrow> int \<Rightarrow> (int + int) option" where
  "writev_sum [] acc = Some (Inr acc)"
| "writev_sum (v # vs) acc = do {
     acc \<leftarrow> sadd 64 acc (sint (iov_len v));
     if acc > SSIZE_MAX then Some (Inl (- EINVAL)) else writev_sum vs acc
   }"

fun writev_console :: "'w putchar \<Rightarrow> iovec list \<Rightarrow> int \<Rightarrow> 'w sys" where
  "writev_console vputchar [] ret s = Some (ret, s)"
| "writev_console vputchar (v # vs) ret s = do {
     (n, s) \<leftarrow> output_chars vputchar (iov_base v) (iov_len v) s;
     writev_console vputchar vs (sint (of_int ret + n)) s
   }"

fun writev_socket :: "'w pico \<Rightarrow> int \<Rightarrow> iovec list \<Rightarrow> int \<Rightarrow> 'w sys" where
  "writev_socket P fd [] ret s = Some (ret, s)"
| "writev_socket P fd (v # vs) ret s = do {
     let (res, s) = P (Pico_Write fd (iov_base v) (iov_len v)) s;
     if res = - 1 then Some (- px_errno s, s)
     else do { ret \<leftarrow> sadd 64 ret res; writev_socket P fd vs ret s }
   }"

definition sys_writev :: "'w pico \<Rightarrow> 'w putchar \<Rightarrow> int \<Rightarrow> iovec list \<Rightarrow> int \<Rightarrow> 'w sys" where
  "sys_writev P vputchar fildes iov iovcnt s =
     (if iovcnt \<le> 0 \<or> iovcnt > IOV_MAX then Some (- EINVAL, s)
      else do {
        c_assert (nat iovcnt \<le> length iov);
        let vs = take (nat iovcnt) iov;
        r \<leftarrow> writev_sum vs 0;
        case r of
          Inl e \<Rightarrow> Some (e, s)
        | Inr total_len \<Rightarrow>
            if total_len = 0 then Some (0, s)
            else if fildes = STDOUT_FD \<or> fildes = STDERR_FD then writev_console vputchar vs 0 s
            else if fildes \<ge> PICO_FD_START then writev_socket P (fildes - PICO_FD_START) vs 0 s
            else Some (0, s)
      })"

section \<open>Input\<close>

fun readv_socket :: "'w pico \<Rightarrow> int \<Rightarrow> iovec list \<Rightarrow> int \<Rightarrow> 'w sys" where
  "readv_socket P fd [] acc s = Some (acc, s)"
| "readv_socket P fd (v # vs) acc s = do {
     let (ret, s) = P (Pico_Read fd (iov_base v) (iov_len v)) s;
     if ret = - 1 then Some (acc, s)
     else do { acc \<leftarrow> sadd 32 acc ret; readv_socket P fd vs acc s }
   }"

definition sys_readv :: "'w pico \<Rightarrow> int \<Rightarrow> iovec list \<Rightarrow> int \<Rightarrow> 'w sys" where
  "sys_readv P fd iov iovcnt s =
     (if fd \<ge> PICO_FD_START then do {
        c_assert (nat iovcnt \<le> length iov);
        (acc, s) \<leftarrow> readv_socket P (fd - PICO_FD_START) (take (nat iovcnt) iov) 0 s;
        Some (if acc = 0 then - px_errno s else acc, s)
      } else Some (- EINVAL, s))"

text \<open>\<open>sys_read\<close> calls \<open>readv\<close> of the C library, which makes the system call and moves an error to \<open>errno\<close>.\<close>

definition syscall_ret :: "int \<times> 'w posix \<Rightarrow> int \<times> 'w posix" where
  "syscall_ret r = (let (v, s) = r in if - 4096 < v \<and> v < 0 then (- 1, s\<lparr>px_errno := - v\<rparr>) else (v, s))"

definition sys_read :: "'w pico \<Rightarrow> int \<Rightarrow> u64 \<Rightarrow> u64 \<Rightarrow> 'w sys" where
  "sys_read P fd buf count s = do {
     r \<leftarrow> sys_readv P fd [\<lparr>iov_base = buf, iov_len = count\<rparr>] 1 s;
     Some (syscall_ret r)
   }"

section \<open>Sockets\<close>

text \<open>\<open>ret == 0 ? 0 : -errno\<close> for a call on a descriptor of the network stack, \<open>-EINVAL\<close> for any other.\<close>

definition on_socket :: "'w pico \<Rightarrow> (int \<Rightarrow> pico_call) \<Rightarrow> int \<Rightarrow> 'w sys" where
  "on_socket P call fd s =
     (if fd \<ge> PICO_FD_START then
        (let (ret, s) = P (call (fd - PICO_FD_START)) s in Some (if ret = 0 then 0 else - px_errno s, s))
      else Some (- EINVAL, s))"

definition sys_socket :: "'w pico \<Rightarrow> int \<Rightarrow> int \<Rightarrow> int \<Rightarrow> 'w sys" where
  "sys_socket P domain typ protocol s =
     (let (new_sd, s) = P (Pico_Newsocket domain typ protocol) s
      in if new_sd < 0 then Some (- px_errno s, s)
         else do { new_sd \<leftarrow> sadd 32 new_sd PICO_FD_START; Some (new_sd, s) })"

definition sys_bind :: "'w pico \<Rightarrow> int \<Rightarrow> u64 \<Rightarrow> int \<Rightarrow> 'w sys" where
  "sys_bind P sd local_addr socklen = on_socket P (\<lambda>sd. Pico_Bind sd local_addr socklen) sd"

definition sys_listen :: "'w pico \<Rightarrow> int \<Rightarrow> int \<Rightarrow> 'w sys" where
  "sys_listen P sd backlog = on_socket P (\<lambda>sd. Pico_Listen sd backlog) sd"

definition sys_connect :: "'w pico \<Rightarrow> int \<Rightarrow> u64 \<Rightarrow> int \<Rightarrow> 'w sys" where
  "sys_connect P sd saddr socklen = on_socket P (\<lambda>sd. Pico_Connect sd saddr socklen) sd"

definition sys_accept :: "'w pico \<Rightarrow> int \<Rightarrow> u64 \<Rightarrow> u64 \<Rightarrow> 'w sys" where
  "sys_accept P sd orig socklen = on_socket P (\<lambda>sd. Pico_Accept sd orig socklen) sd"

definition sys_sendto :: "'w pico \<Rightarrow> int \<Rightarrow> u64 \<Rightarrow> int \<Rightarrow> int \<Rightarrow> u64 \<Rightarrow> int \<Rightarrow> 'w sys" where
  "sys_sendto P sd buf len flags dst socklen s =
     (if sd \<ge> PICO_FD_START then
        (let (ret, s) = P (Pico_Sendto (sd - PICO_FD_START) buf len flags dst socklen) s
         in if ret = 0 then Some (- EWOULDBLOCK, s) else Some (if ret < 0 then - px_errno s else ret, s))
      else Some (- EINVAL, s))"

definition sys_recvfrom :: "'w pico \<Rightarrow> int \<Rightarrow> u64 \<Rightarrow> int \<Rightarrow> int \<Rightarrow> u64 \<Rightarrow> u64 \<Rightarrow> 'w sys" where
  "sys_recvfrom P sd buf len flags addr socklen s =
     (if sd \<ge> PICO_FD_START then
        (let (ret, s) = P (Pico_Recvfrom (sd - PICO_FD_START) buf len flags addr socklen) s
         in Some (if ret \<ge> 0 then ret else - px_errno s, s))
      else Some (- EINVAL, s))"

definition sys_close :: "'w pico \<Rightarrow> int \<Rightarrow> 'w sys" where
  "sys_close P sockfd = on_socket P Pico_Close sockfd"

definition sys_getsockname :: "'w pico \<Rightarrow> int \<Rightarrow> u64 \<Rightarrow> u64 \<Rightarrow> 'w sys" where
  "sys_getsockname P sd local_addr socklen = on_socket P (\<lambda>sd. Pico_Getsockname sd local_addr socklen) sd"

definition sys_getpeername :: "'w pico \<Rightarrow> int \<Rightarrow> u64 \<Rightarrow> u64 \<Rightarrow> 'w sys" where
  "sys_getpeername P sd remote_addr socklen = on_socket P (\<lambda>sd. Pico_Getpeername sd remote_addr socklen) sd"

definition sys_fcntl :: "'w pico \<Rightarrow> int \<Rightarrow> int \<Rightarrow> int \<Rightarrow> 'w sys" where
  "sys_fcntl P sockfd cmd arg = on_socket P (\<lambda>sd. Pico_Fcntl sd cmd arg) sockfd"

definition sys_setsockopt :: "'w pico \<Rightarrow> int \<Rightarrow> int \<Rightarrow> int \<Rightarrow> u64 \<Rightarrow> int \<Rightarrow> 'w sys" where
  "sys_setsockopt P sockfd level optname optval optlen =
     on_socket P (\<lambda>sd. Pico_Setsockopt sd level optname optval optlen) sockfd"

definition sys_getsockopt :: "'w pico \<Rightarrow> int \<Rightarrow> int \<Rightarrow> int \<Rightarrow> u64 \<Rightarrow> u64 \<Rightarrow> 'w sys" where
  "sys_getsockopt P sockfd level optname optval optlen =
     on_socket P (\<lambda>sd. Pico_Getsockopt sd level optname optval optlen) sockfd"

text \<open>
  \<open>sys_ppoll\<close> works on the array of descriptors in place. The call of the network stack is a parameter of its own, because it writes the array.
\<close>

record pollfd =
  pfd_fd :: int
  pfd_events :: int
  pfd_revents :: int

type_synonym 'w pico_ppoll = "pollfd list \<Rightarrow> u64 \<Rightarrow> 'w posix \<Rightarrow> int \<times> pollfd list \<times> 'w posix"

text \<open>The first loop, from entry \<open>i\<close> on; the first component tells whether the function goes on.\<close>

fun ppoll_shift :: "nat list \<Rightarrow> pollfd list \<Rightarrow> (bool \<times> pollfd list) option" where
  "ppoll_shift [] pfd = Some (True, pfd)"
| "ppoll_shift (i # is) pfd = do {
     p \<leftarrow> arr_get pfd i;
     if pfd_fd p \<ge> PICO_FD_START then do {
       pfd \<leftarrow> arr_set pfd i (p\<lparr>pfd_fd := pfd_fd p - PICO_FD_START\<rparr>);
       ppoll_shift is pfd
     } else Some (False, pfd)
   }"

definition ppoll_unshift :: "nat \<Rightarrow> pollfd list \<Rightarrow> pollfd list option" where
  "ppoll_unshift i pfd = do {
     p \<leftarrow> arr_get pfd i;
     fd \<leftarrow> sadd 32 (pfd_fd p) PICO_FD_START;
     arr_set pfd i (p\<lparr>pfd_fd := fd\<rparr>)
   }"

definition sys_ppoll ::
    "'w pico_ppoll \<Rightarrow> pollfd list \<Rightarrow> nat \<Rightarrow> u64 \<Rightarrow> 'w posix \<Rightarrow> (int \<times> pollfd list \<times> 'w posix) option" where
  "sys_ppoll P pfd npfd tmo_p s =
     (if npfd > RLIMIT_NOFILE then Some (- EINVAL, pfd, s)
      else do {
        (ok, pfd) \<leftarrow> ppoll_shift [0..<npfd] pfd;
        if \<not> ok then Some (- EINVAL, pfd, s)
        else do {
          let (ret, pfd, s) = P pfd tmo_p s;
          pfd \<leftarrow> for_each ppoll_unshift [0..<npfd] pfd;
          Some (if ret \<ge> 0 then ret else - px_errno s, pfd, s)
        }
      })"

section \<open>Calls with a fixed answer\<close>

definition sys_ioctl :: "int \<Rightarrow> int \<Rightarrow> 'w sys" where
  "sys_ioctl fd request s = (if fd = STDOUT_FD then Some (0, s) else None)"

definition sys_getuid :: "'w sys" where "sys_getuid s = Some (0, s)"
definition sys_getgid :: "'w sys" where "sys_getgid s = Some (0, s)"
definition sys_openat :: "'w sys" where "sys_openat s = Some (ENOSYS, s)"
definition sys_set_tid_address :: "'w sys" where "sys_set_tid_address s = Some (- ENOSYS, s)"
definition sys_rt_sigprocmask :: "'w sys" where "sys_rt_sigprocmask s = Some (0, s)"
definition sys_gettid :: "'w sys" where "sys_gettid s = Some (0, s)"
definition sys_getpid :: "'w sys" where "sys_getpid s = Some (0, s)"
definition sys_exit_group :: "'w sys" where "sys_exit_group s = Some (0, s)"

text \<open>\<open>sos_abort\<close> prints and then yields for ever; \<open>abort\<close> does not return either.\<close>

definition sos_abort :: "'w posix \<Rightarrow> 'w posix option" where "sos_abort s = None"

definition sys_exit :: "'w sys" where "sys_exit s = None"
definition sys_tgkill :: "'w sys" where "sys_tgkill s = do { s \<leftarrow> sos_abort s; Some (0, s) }"
definition sys_tkill :: "'w sys" where "sys_tkill s = do { s \<leftarrow> sos_abort s; Some (0, s) }"

end
