(* ===== verification/Uart.thy ===== *)
theory Uart
  imports Stdio
begin

text \<open>
  The serial port, \<open>sos/src/drivers/uart.c\<close>, and output to the console through it: what \<open>sys_writev\<close> sends to the device when \<open>vputchar\<close> is \<open>uart_putchar\<close>. The status register changes by itself, so it is a function of the number of
  times it has been read; the words written to the transmit register are recorded.
\<close>

section \<open>Definitions\<close>

definition UART_PADDR :: u64 where "UART_PADDR = 0xc81004c0"
definition UART_STATUS_TX_FIFO_FULL :: u32 where "UART_STATUS_TX_FIFO_FULL = push_bit 21 1"
definition UART_CONTROL_TX_ENABLE :: u32 where "UART_CONTROL_TX_ENABLE = push_bit 12 1"

record uart_t =
  u_control :: u32
  u_reads :: nat
  u_written :: "u32 list"

text \<open>\<open>uart_init\<close>; the result has the address of the registers.\<close>

definition uart_init ::
    "'k sel4 \<Rightarrow> uart_t \<Rightarrow> 'k env cspace_t \<Rightarrow> 'k env \<Rightarrow> (u64 \<times> uart_t \<times> 'k env cspace_t \<times> 'k env) option" where
  "uart_init S u cs w = do {
     (uart_vaddr, cs, w) \<leftarrow> sos_map_device S (UART_PADDR AND NOT (of_nat PAGE_SIZE_4K - 1)) (of_nat PAGE_SIZE_4K) cs w;
     c_assert (uart_vaddr \<noteq> 0);
     mask \<leftarrow> MASK seL4_PageBits;
     let uart = uart_vaddr + (UART_PADDR AND mask);
     Some (uart, u\<lparr>u_control := u_control u OR UART_CONTROL_TX_ENABLE\<rparr>, cs, w)
   }"

text \<open>Reading the status until there is room; the result is the number of reads made.\<close>

partial_function (option) uart_wait :: "(nat \<Rightarrow> u32) \<Rightarrow> nat \<Rightarrow> nat option" where
  "uart_wait status i =
     (if status i AND UART_STATUS_TX_FIFO_FULL \<noteq> 0 then uart_wait status (Suc i) else Some (Suc i))"

partial_function (option) uart_putchar :: "(nat \<Rightarrow> u32) \<Rightarrow> byte \<Rightarrow> uart_t \<Rightarrow> uart_t option" where
  "uart_putchar status c u = do {
     i \<leftarrow> uart_wait status (u_reads u);
     let u = u\<lparr>u_reads := i, u_written := u_written u @ [ucast c]\<rparr>;
     if c = 10 then uart_putchar status 13 u else Some u
   }"

section \<open>Output to the console\<close>

text \<open>The device takes characters again and again.\<close>

definition uart_live :: "(nat \<Rightarrow> u32) \<Rightarrow> bool" where
  "uart_live status \<longleftrightarrow> (\<forall>i. \<exists>j \<ge> i. status j AND UART_STATUS_TX_FIFO_FULL = 0)"

text \<open>What a character becomes on the line: a newline is followed by a carriage return.\<close>

definition on_line :: "byte \<Rightarrow> u32 list" where
  "on_line c = (if c = 10 then [10, 13] else [ucast c])"

lemma uart_wait_returns:
  assumes "uart_live status"
  shows "\<exists>k. uart_wait status i = Some k"
proof -
  obtain j where "i \<le> j" "status j AND UART_STATUS_TX_FIFO_FULL = 0" using assms by (auto simp: uart_live_def)
  then show ?thesis
  proof (induction "j - i" arbitrary: i)
    case 0
    then show ?case by (simp add: uart_wait.simps)
  next
    case (Suc n)
    then have "n = j - Suc i" "Suc i \<le> j" by auto
    with Suc show ?case by (subst uart_wait.simps) auto
  qed
qed

lemma uart_putchar_on_line:
  assumes "uart_live status"
  shows "\<exists>u'. uart_putchar status c u = Some u' \<and> u_written u' = u_written u @ on_line c"
proof -
  have one: "\<exists>u'. uart_putchar status c u = Some u' \<and> u_written u' = u_written u @ [ucast c]" if "c \<noteq> 10" for c u
    using that uart_wait_returns [OF assms, of "u_reads u"] by (auto simp: uart_putchar.simps)
  show ?thesis
  proof (cases "c = 10")
    case True
    obtain k where "uart_wait status (u_reads u) = Some k" using uart_wait_returns [OF assms] by blast
    with one [of 13] True show ?thesis by (subst uart_putchar.simps) (fastforce simp: on_line_def)
  qed (use one in \<open>auto simp: on_line_def\<close>)
qed

lemma output_on_line:
  assumes live: "uart_live status" and ld: "load_bytes (px_mem s) data (unat count) = Some bs"
  shows "\<exists>u. output_chars (uart_putchar status) data count s = Some (count, s\<lparr>px_rest := u\<rparr>) \<and>
     u_written u = u_written (px_rest s) @ concat (map on_line bs)"
proof -
  have len: "length bs = unat count" and nth: "\<And>i. i < unat count \<Longrightarrow> px_mem s (data + of_nat i) = Some (bs ! i)"
    using load_bytes_nth [OF ld] by auto
  have "n \<le> unat count \<Longrightarrow>
     \<exists>u. for_each (\<lambda>i w. do { c \<leftarrow> px_mem s (data + of_nat i); uart_putchar status c w }) [0..<n] (px_rest s) = Some u \<and>
       u_written u = u_written (px_rest s) @ concat (map on_line (take n bs))" for n
  proof (induction n)
    case (Suc n)
    then obtain u where u: "for_each (\<lambda>i w. do { c \<leftarrow> px_mem s (data + of_nat i); uart_putchar status c w }) [0..<n] (px_rest s) = Some u"
      "u_written u = u_written (px_rest s) @ concat (map on_line (take n bs))" by auto
    obtain u' where "uart_putchar status (bs ! n) u = Some u'" "u_written u' = u_written u @ on_line (bs ! n)"
      using uart_putchar_on_line [OF live] by blast
    with u Suc.prems nth [of n] len show ?case by (auto simp: for_each_append take_Suc_conv_app_nth)
  qed simp
  from this [of "unat count"] len show ?thesis by (auto simp: output_chars_def)
qed

text \<open>The buffers that the vector describes hold the bytes \<open>bss\<close>.\<close>

definition iov_holds :: "mem \<Rightarrow> iovec list \<Rightarrow> byte list list \<Rightarrow> bool" where
  "iov_holds m iov bss \<longleftrightarrow> list_all2 (\<lambda>v bs. load_bytes m (iov_base v) (unat (iov_len v)) = Some bs) iov bss"

lemma sint_small:
  assumes "unat w = k" and "k < 2 ^ 63"
  shows "sint (w :: u64) = int k"
proof -
  from assms have u: "uint w < 2 ^ 63" by (metis nat_less_iff of_nat_numeral of_nat_power unat_eq_nat_uint unsigned_greater_eq)
  have "0 \<le> uint w" by simp
  then have "- (2 ^ 63) \<le> uint w" by (rule order_trans [rotated]) simp
  with u have "signed_take_bit 63 (uint w) = uint w" by (intro signed_take_bit_int_eq_self)
  then show ?thesis using assms(1) by (simp add: sint_uint flip: assms(1))
qed

lemma iov_len_bytes:
  fixes len :: u64
  assumes "load_bytes m a (unat len) = Some bs" and "n + length bs < 2 ^ 63"
  shows "sint len = int (length bs)" and "sint (of_int (int n) + len) = int (n + length bs)"
proof -
  have len: "unat len = length bs" using load_bytes_nth [OF assms(1)] by simp
  then show "sint len = int (length bs)" using assms(2) by (intro sint_small) auto
  have n: "unat (of_nat n :: u64) = n" using assms(2) by (intro unat_of_nat_u64) simp
  have "unat (of_nat n + len) = n + length bs" using assms(2) by (simp add: unat_word_ariths(1) n len)
  then show "sint (of_int (int n) + len) = int (n + length bs)" using assms(2) by (intro sint_small) auto
qed

lemma writev_console_on_line:
  assumes "uart_live status" and "iov_holds (px_mem s) iov bss" and "n + length (concat bss) < 2 ^ 63"
  shows "\<exists>u. writev_console (uart_putchar status) iov (int n) s = Some (int (n + length (concat bss)), s\<lparr>px_rest := u\<rparr>) \<and>
     u_written u = u_written (px_rest s) @ concat (map on_line (concat bss))"
  using assms(2,3)
proof (induction iov arbitrary: bss n s)
  case Nil
  then show ?case by (auto simp: iov_holds_def intro!: exI [of _ "px_rest s"])
next
  case (Cons v vs)
  then obtain bs bss' where bss: "bss = bs # bss'" and ld: "load_bytes (px_mem s) (iov_base v) (unat (iov_len v)) = Some bs"
    and rest: "iov_holds (px_mem s) vs bss'" by (auto simp: iov_holds_def list_all2_Cons1)
  from output_on_line [OF assms(1) ld] obtain u where
    u: "output_chars (uart_putchar status) (iov_base v) (iov_len v) s = Some (iov_len v, s\<lparr>px_rest := u\<rparr>)"
      "u_written u = u_written (px_rest s) @ concat (map on_line bs)" by blast
  have "sint (of_int (int n) + iov_len v) = int (n + length bs)"
    using iov_len_bytes(2) [OF ld, of n] Cons.prems(2) bss by simp
  with Cons.IH [of "s\<lparr>px_rest := u\<rparr>" bss' "n + length bs"] rest u Cons.prems(2) show ?case
    by (auto simp: bss add.assoc)
qed

lemma writev_sum_ok:
  assumes "iov_holds m iov bss" and "n + length (concat bss) < 2 ^ 63"
  shows "writev_sum iov (int n) = Some (Inr (int (n + length (concat bss))))"
  using assms
proof (induction iov arbitrary: bss n)
  case Nil
  then show ?case by (simp add: iov_holds_def)
next
  case (Cons v vs)
  then obtain bs bss' where bss: "bss = bs # bss'" and ld: "load_bytes m (iov_base v) (unat (iov_len v)) = Some bs"
    and rest: "iov_holds m vs bss'" by (auto simp: iov_holds_def list_all2_Cons1)
  have "sint (iov_len v) = int (length bs)" using iov_len_bytes(1) [OF ld, of n] Cons.prems(2) bss by simp
  with Cons.IH [OF rest, of "n + length bs"] Cons.prems(2) show ?case
    by (simp add: bss sadd_def SSIZE_MAX_def)
qed

text \<open>
  C35. Output to the console. With \<open>uart_putchar\<close> as the output function and a device that takes characters again and again, \<open>sys_writev\<close> to the standard output or the standard error of up to 1024 buffers returns, with the
  number of bytes of the buffers, and the device has received exactly these bytes in order, with a carriage return after every newline.
\<close>

theorem console_writev:
  assumes "uart_live status" and "iov_holds (px_mem s) iov bss" and "length (concat bss) < 2 ^ 63"
    and "iov \<noteq> []" and "length iov \<le> 1024" and "fd = STDOUT_FD \<or> fd = STDERR_FD"
  shows "\<exists>u. sys_writev P (uart_putchar status) fd iov (int (length iov)) s =
       Some (int (length (concat bss)), s\<lparr>px_rest := u\<rparr>) \<and>
     u_written u = u_written (px_rest s) @ concat (map on_line (concat bss))"
proof (cases "length (concat bss) = 0")
  case True
  then have "concat bss = []" by blast
  moreover from this have "writev_sum iov 0 = Some (Inr 0)" using writev_sum_ok [OF assms(2), of 0] unfolding True by simp
  ultimately show ?thesis using assms(4,5)
    by (intro exI [of _ "px_rest s"]) (simp add: sys_writev_def IOV_MAX_def c_assert_def del: concat_eq_Nil_conv)
next
  case False
  then show ?thesis using assms writev_sum_ok [OF assms(2), of 0] writev_console_on_line [OF assms(1,2), of 0]
    by (auto simp: sys_writev_def IOV_MAX_def c_assert_def)
qed

text \<open>A file vector of two buffers in one line of text, on a device that is busy every other time.\<close>

definition line_mem :: mem where
  "line_mem = (\<lambda>_. None)(0x100 := Some 0x68, 0x101 := Some 0x69, 0x200 := Some 10)"

theorem console_writev_witness:
  "\<exists>u. sys_writev (\<lambda>_ s. (- 1, s)) (uart_putchar (\<lambda>i. if even i then UART_STATUS_TX_FIFO_FULL else 0)) STDOUT_FD
       [\<lparr>iov_base = 0x100, iov_len = 2\<rparr>, \<lparr>iov_base = 0x200, iov_len = 1\<rparr>] 2
       \<lparr>px_errno = 0, px_mem = line_mem, px_rest = \<lparr>u_control = 0, u_reads = 0, u_written = []\<rparr>\<rparr> =
     Some (3, \<lparr>px_errno = 0, px_mem = line_mem, px_rest = u\<rparr>) \<and> u_written u = [0x68, 0x69, 10, 13]"
proof -
  have live: "uart_live (\<lambda>i. if even i then UART_STATUS_TX_FIFO_FULL else 0)"
    unfolding uart_live_def
  proof
    fix i :: nat
    show "\<exists>j \<ge> i. (if even j then UART_STATUS_TX_FIFO_FULL else 0) AND UART_STATUS_TX_FIFO_FULL = 0"
      by (rule exI [of _ "2 * i + 1"]) simp
  qed
  have mem: "iov_holds line_mem [\<lparr>iov_base = 0x100, iov_len = 2\<rparr>, \<lparr>iov_base = 0x200, iov_len = 1\<rparr>] [[0x68, 0x69], [10]]"
    by (simp add: iov_holds_def line_mem_def load_numeral)
  show ?thesis
    using console_writev [OF live, of "\<lparr>px_errno = 0, px_mem = line_mem, px_rest = \<lparr>u_control = 0, u_reads = 0, u_written = []\<rparr>\<rparr>"
        "[\<lparr>iov_base = 0x100, iov_len = 2\<rparr>, \<lparr>iov_base = 0x200, iov_len = 1\<rparr>]" "[[0x68, 0x69], [10]]" STDOUT_FD "\<lambda>_ s. (- 1, s)"] mem
    by (simp add: on_line_def)
qed

text \<open>
  The test that rejects vectors whose lengths add up to more than the largest \<open>ssize_t\<close> never succeeds: the sum has that very type. Lengths with the top bit set count as negative.
\<close>

lemma writev_sum_never_rejects: "writev_sum iov n \<noteq> Some (Inl e)"
  by (induction iov n rule: writev_sum.induct) (auto simp: sadd_def SSIZE_MAX_def bind_eq_Some_conv split: if_splits)

end
