(* ===== verification/Process.thy ===== *)
theory Process
  imports Elf_Load Irq Uart Bootstrap
begin

text \<open>
  \<open>sos/src/main.c\<close>: how SOS starts, and how it starts the first process. The capability space \<open>cspace\<close> of SOS and the environment are passed along; \<open>tty_test_process\<close> is a record. The stack page of the process is written through a
  second mapping in SOS, at \<open>SOS_SCRATCH\<close>; its contents as the process finds them are kept in \<open>p_stack_mem\<close>.
  This field has no counterpart in the code: both mappings are of one frame, since the capability that is mapped in SOS is a copy of the one that is mapped in the process, so the field is
  the page at \<open>SOS_SCRATCH\<close> read at the addresses of the process.
\<close>

section \<open>Definitions\<close>

definition seL4_PGDBits :: nat where "seL4_PGDBits = 12"
definition seL4_TCBBits :: nat where "seL4_TCBBits = 11"
definition seL4_NotificationBits :: nat where "seL4_NotificationBits = 5"
definition TTY_PRIORITY :: nat where "TTY_PRIORITY = 0"
definition TTY_EP_BADGE :: u64 where "TTY_EP_BADGE = 101"
definition SOS_SCRATCH :: u64 where "SOS_SCRATCH = 0xA0000000"
definition SOS_STACK :: u64 where "SOS_STACK = 0xC0000000"
definition SOS_STACK_PAGES :: nat where "SOS_STACK_PAGES = 100"
definition PROCESS_STACK_TOP :: u64 where "PROCESS_STACK_TOP = 0x90000000"
definition PROCESS_IPC_BUFFER :: u64 where "PROCESS_IPC_BUFFER = 0xA0000000"
definition AT_PAGESZ :: u64 where "AT_PAGESZ = 6"
definition AT_SYSINFO :: u64 where "AT_SYSINFO = 32"
definition IRQ_EP_BADGE :: u64 where "IRQ_EP_BADGE = BIT (seL4_BadgeBits - 1)"
definition IRQ_IDENT_BADGE_BITS :: "u64 option" where "IRQ_IDENT_BADGE_BITS = MASK (seL4_BadgeBits - 1)"

text \<open>\<open>"__vsyscall"\<close>.\<close>

definition vsyscall_name :: "byte list" where
  "vsyscall_name = [0x5f, 0x5f, 0x76, 0x73, 0x79, 0x73, 0x63, 0x61, 0x6c, 0x6c]"

record 'k process =
  p_tcb_ut :: u64
  p_tcb :: cptr
  p_vspace_ut :: u64
  p_vspace :: cptr
  p_ipc_buffer_ut :: u64
  p_ipc_buffer :: cptr
  p_cspace :: "'k env cspace_t"
  p_stack_ut :: u64
  p_stack :: cptr
  p_stack_mem :: mem

text \<open>\<open>old\<close> is what \<open>*cptr\<close> holds before; the result has the untyped, \<open>*cptr\<close> and the state.\<close>

definition alloc_retype ::
    "'k sel4 \<Rightarrow> cptr \<Rightarrow> object_type \<Rightarrow> nat \<Rightarrow> 'k env cspace_t \<Rightarrow> 'k env \<Rightarrow> (u64 \<times> cptr \<times> 'k env cspace_t \<times> 'k env) option" where
  "alloc_retype S old typ size_bits cs w = do {
     (ut, cs, w) \<leftarrow> ut_alloc S size_bits cs w;
     if ut = 0 then Some (0, old, cs, w)
     else do {
       (cptr, cs, w) \<leftarrow> cspace_alloc_slot (env_call S) cs w;
       if cptr = seL4_CapNull then do {
         w \<leftarrow> env_ut_free ut w;
         Some (0, cptr, cs, w)
       } else do {
         cap \<leftarrow> env_ut_cap w ut;
         let (err, w) = cspace_untyped_retype (env_call S) cs cap cptr typ size_bits w;
         if err \<noteq> seL4_NoError then do {
           w \<leftarrow> env_ut_free ut w;
           cs \<leftarrow> cspace_free_slot cs cptr;
           Some (0, cptr, cs, w)
         } else Some (ut, cptr, cs, w)
       }
     }
   }"

text \<open>The little-endian bytes of a word, and storing one in the stack at an index.\<close>

definition word_bytes :: "u64 \<Rightarrow> byte list" where
  "word_bytes v = map (\<lambda>i. ucast (drop_bit (8 * i) v)) [0..<8]"

definition stack_write :: "u64 \<Rightarrow> int \<Rightarrow> u64 \<Rightarrow> mem \<Rightarrow> (int \<times> mem) option" where
  "stack_write mapped_stack index val m = do {
     m \<leftarrow> store_bytes m (mapped_stack + of_int index * 8) (word_bytes val);
     Some (index - 1, m)
   }"

text \<open>The words of the initial stack; the index of the last one is the result.\<close>

definition write_initial_stack :: "u64 \<Rightarrow> u64 \<Rightarrow> mem \<Rightarrow> (int \<times> mem) option" where
  "write_initial_stack local_stack_top sysinfo m = do {
     let index = - 2;
     (index, m) \<leftarrow> stack_write local_stack_top index 0 m;
     (index, m) \<leftarrow> stack_write local_stack_top index 0 m;
     (index, m) \<leftarrow> stack_write local_stack_top index (of_nat PAGE_SIZE_4K) m;
     (index, m) \<leftarrow> stack_write local_stack_top index AT_PAGESZ m;
     (index, m) \<leftarrow> stack_write local_stack_top index sysinfo m;
     (index, m) \<leftarrow> stack_write local_stack_top index AT_SYSINFO m;
     (index, m) \<leftarrow> stack_write local_stack_top index 0 m;
     (index, m) \<leftarrow> stack_write local_stack_top index 0 m;
     (_, m) \<leftarrow> stack_write local_stack_top index 0 m;
     Some (index, m)
   }"

text \<open>A page of zeros, as the kernel makes it, at \<open>a\<close>; and a memory without that page.\<close>

definition map_page :: "u64 \<Rightarrow> mem \<Rightarrow> mem" where
  "map_page a m = put a (replicate PAGE_SIZE_4K 0) m"

definition unmap_page :: "u64 \<Rightarrow> mem \<Rightarrow> mem" where
  "unmap_page a m x = (if unat (x - a) < PAGE_SIZE_4K then None else m x)"

text \<open>The second half of \<open>init_process_stack\<close>, with the stack mapped in the process: write it through a mapping in SOS.\<close>

definition fill_process_stack ::
    "'k sel4 \<Rightarrow> cptr \<Rightarrow> u64 \<Rightarrow> 'k process \<Rightarrow> mem \<Rightarrow> 'k env cspace_t \<Rightarrow> 'k env \<Rightarrow>
     (u64 \<times> 'k process \<times> mem \<times> 'k env cspace_t \<times> 'k env) option" where
  "fill_process_stack S local_vspace sysinfo p m cs w = do {
     let local_stack_top = SOS_SCRATCH;
     let local_stack_bottom = SOS_SCRATCH - of_nat PAGE_SIZE_4K;
     (local_stack_cptr, cs, w) \<leftarrow> cspace_alloc_slot (env_call S) cs w;
     if local_stack_cptr = seL4_CapNull then Some (0, p, m, cs, w)
     else do {
       let (err, w) = cspace_copy (env_call S) cs local_stack_cptr cs (p_stack p) seL4_AllRights w;
       if err \<noteq> seL4_NoError then do {
         cs \<leftarrow> cspace_free_slot cs local_stack_cptr;
         Some (0, p, m, cs, w)
       } else do {
         (err, cs, w) \<leftarrow> map_frame S local_stack_cptr local_vspace local_stack_bottom seL4_AllRights
                           seL4_ARM_Default_VMAttributes cs w;
         if err \<noteq> seL4_NoError then do {
           let (_, w) = cspace_delete (env_call S) cs local_stack_cptr w;
           cs \<leftarrow> cspace_free_slot cs local_stack_cptr;
           Some (0, p, m, cs, w)
         } else do {
           (index, m) \<leftarrow> write_initial_stack local_stack_top sysinfo (map_page local_stack_bottom m);
           let stack_top = PROCESS_STACK_TOP + of_int index * 8;
           c_assert (index mod 2 = 0);
           c_assert (stack_top mod 16 = 0);
           let p = p\<lparr>p_stack_mem := (\<lambda>x. m (x - PROCESS_STACK_TOP + SOS_SCRATCH))\<rparr>;
           let (err, w) = env_call S (ARM_Page_Unmap local_stack_cptr) w;
           let m = unmap_page local_stack_bottom m;
           c_assert (err = seL4_NoError);
           let (err, w) = cspace_delete (env_call S) cs local_stack_cptr w;
           c_assert (err = seL4_NoError);
           cs \<leftarrow> cspace_free_slot cs local_stack_cptr;
           Some (stack_top, p, m, cs, w)
         }
       }
     }
   }"

text \<open>A section that is not there is address 0, which is dereferenced.\<close>

definition init_process_stack ::
    "'k sel4 \<Rightarrow> cptr \<Rightarrow> elf_t \<Rightarrow> 'k process \<Rightarrow> mem \<Rightarrow> 'k env cspace_t \<Rightarrow> 'k env \<Rightarrow>
     (u64 \<times> 'k process \<times> mem \<times> 'k env cspace_t \<times> 'k env) option" where
  "init_process_stack S local_vspace f p m cs w = do {
     (ut, cptr, cs, w) \<leftarrow> alloc_retype S (p_stack p) seL4_ARM_SmallPageObject seL4_PageBits cs w;
     let p = p\<lparr>p_stack_ut := ut, p_stack := cptr\<rparr>;
     if ut = 0 then Some (0, p, m, cs, w)
     else do {
       let stack_bottom = PROCESS_STACK_TOP - of_nat PAGE_SIZE_4K;
       (section_addr, _) \<leftarrow> elf_getSectionNamed m f vsyscall_name;
       c_assert (section_addr \<noteq> 0);
       sysinfo \<leftarrow> ld m section_addr 8;
       if sysinfo = 0 then Some (0, p, m, cs, w)
       else do {
         (err, cs, w) \<leftarrow> map_frame S (p_stack p) (p_vspace p) stack_bottom seL4_AllRights
                           seL4_ARM_Default_VMAttributes cs w;
         if err \<noteq> 0 then Some (0, p, m, cs, w)
         else fill_process_stack S local_vspace sysinfo p m cs w
       }
     }
   }"

text \<open>
  The objects of the process: address space, capability space, IPC buffer, endpoint and thread. The result tells whether to go on; naming the thread is a debug call and is left out.
\<close>

definition create_thread ::
    "'k sel4 \<Rightarrow> cptr \<Rightarrow> 'k process \<Rightarrow> 'k env cspace_t \<Rightarrow> 'k env \<Rightarrow> (bool \<times> 'k process \<times> 'k env cspace_t \<times> 'k env) option" where
  "create_thread S ep p cs w = do {
     (user_ep, pcs, w) \<leftarrow> cspace_alloc_slot (env_call S) (p_cspace p) w;
     let p = p\<lparr>p_cspace := pcs\<rparr>;
     if user_ep = seL4_CapNull then Some (False, p, cs, w)
     else do {
       let (err, w) = cspace_mint (env_call S) (p_cspace p) user_ep cs ep seL4_AllRights TTY_EP_BADGE w;
       if err \<noteq> 0 then Some (False, p, cs, w)
       else do {
         (ut, cptr, cs, w) \<leftarrow> alloc_retype S (p_tcb p) seL4_TCBObject seL4_TCBBits cs w;
         let p = p\<lparr>p_tcb_ut := ut, p_tcb := cptr\<rparr>;
         if ut = 0 then Some (False, p, cs, w)
         else do {
           let (err, w) = env_call S (TCB_Configure (p_tcb p) user_ep (root_cnode (p_cspace p)) 0 (p_vspace p) 0
                                        PROCESS_IPC_BUFFER (p_ipc_buffer p)) w;
           if err \<noteq> seL4_NoError then Some (False, p, cs, w)
           else do {
             let (err, w) = env_call S (TCB_SetPriority (p_tcb p) seL4_CapInitThreadTCB TTY_PRIORITY) w;
             Some (err = seL4_NoError, p, cs, w)
           }
         }
       }
     }
   }"

definition create_process ::
    "'k sel4 \<Rightarrow> 'k env libc \<Rightarrow> cptr \<Rightarrow> 'k process \<Rightarrow> 'k env cspace_t \<Rightarrow> 'k env \<Rightarrow>
     (bool \<times> 'k process \<times> 'k env cspace_t \<times> 'k env) option" where
  "create_process S L ep p cs w = do {
     (ut, cptr, cs, w) \<leftarrow> alloc_retype S (p_vspace p) seL4_ARM_PageGlobalDirectoryObject seL4_PGDBits cs w;
     let p = p\<lparr>p_vspace_ut := ut, p_vspace := cptr\<rparr>;
     if ut = 0 then Some (False, p, cs, w)
     else do {
       let (err, w) = env_call S (ARM_ASIDPool_Assign seL4_CapInitThreadASIDPool (p_vspace p)) w;
       if err \<noteq> seL4_NoError then Some (False, p, cs, w)
       else do {
         (err, pcs, cs, w) \<leftarrow> cspace_create_one_level (env_call S) L cs w;
         let p = p\<lparr>p_cspace := pcs\<rparr>;
         if err \<noteq> CSPACE_NOERROR then Some (False, p, cs, w)
         else do {
           (ut, cptr, cs, w) \<leftarrow> alloc_retype S (p_ipc_buffer p) seL4_ARM_SmallPageObject seL4_PageBits cs w;
           let p = p\<lparr>p_ipc_buffer_ut := ut, p_ipc_buffer := cptr\<rparr>;
           if ut = 0 then Some (False, p, cs, w) else create_thread S ep p cs w
         }
       }
     }
   }"

text \<open>
  The image: find the file, set up the stack, load the segments, map the IPC buffer and start the thread. A file that is not an ELF file makes the function return \<open>-1\<close>, which is true.
\<close>

definition load_process ::
    "'k sel4 \<Rightarrow> frame_table_ctx \<Rightarrow> nat \<Rightarrow> u64 \<Rightarrow> u64 \<Rightarrow> byte list \<Rightarrow> 'k process \<Rightarrow> 'k loader \<Rightarrow>
     (bool \<times> 'k process \<times> 'k loader) option" where
  "load_process S ctx limit archive cpio_len app_name p = (\<lambda>(ft, (cs, w), m). do {
     (elf_base, elf_size) \<leftarrow> cpio_get_file m archive cpio_len app_name;
     if elf_base = 0 then Some (False, p, ft, (cs, w), m)
     else do {
       (err, f) \<leftarrow> elf_newFile m elf_base elf_size;
       if err \<noteq> 0 then Some (True, p, ft, (cs, w), m)
       else do {
         f \<leftarrow> f;
         (sp, p, m, cs, w) \<leftarrow> init_process_stack S seL4_CapInitThreadVSpace f p m cs w;
         (err, ft, (cs, w), m) \<leftarrow> elf_load S ctx limit (p_vspace p) f (ft, (cs, w), m);
         if err \<noteq> 0 then Some (False, p, ft, (cs, w), m)
         else do {
           (err, cs, w) \<leftarrow> map_frame S (p_ipc_buffer p) (p_vspace p) PROCESS_IPC_BUFFER seL4_AllRights
                             seL4_ARM_Default_VMAttributes cs w;
           if err \<noteq> 0 then Some (False, p, ft, (cs, w), m)
           else do {
             pc \<leftarrow> elf_getEntryPoint m f;
             let (err, w) = env_call S (TCB_WriteRegisters (p_tcb p) True pc sp) w;
             Some (err = seL4_NoError, p, ft, (cs, w), m)
           }
         }
       }
     }
   })"

definition start_first_process ::
    "'k sel4 \<Rightarrow> 'k env libc \<Rightarrow> frame_table_ctx \<Rightarrow> nat \<Rightarrow> u64 \<Rightarrow> u64 \<Rightarrow> byte list \<Rightarrow> cptr \<Rightarrow> 'k process \<Rightarrow> 'k loader \<Rightarrow>
     (bool \<times> 'k process \<times> 'k loader) option" where
  "start_first_process S L ctx limit archive cpio_len app_name ep p = (\<lambda>(ft, (cs, w), m). do {
     (ok, p, cs, w) \<leftarrow> create_process S L ep p cs w;
     if \<not> ok then Some (False, p, ft, (cs, w), m)
     else load_process S ctx limit archive cpio_len app_name p (ft, (cs, w), m)
   })"

text \<open>The endpoint and the notification of SOS.\<close>

definition sos_ipc_init ::
    "'k sel4 \<Rightarrow> 'k env cspace_t \<Rightarrow> 'k env \<Rightarrow> (cptr \<times> cptr \<times> 'k env cspace_t \<times> 'k env) option" where
  "sos_ipc_init S cs w = do {
     (ut, ntfn, cs, w) \<leftarrow> alloc_retype S 0 seL4_NotificationObject seL4_NotificationBits cs w;
     c_assert (ut \<noteq> 0);
     w \<leftarrow> must (env_call S (TCB_BindNotification seL4_CapInitThreadTCB ntfn) w);
     (ut, ipc_ep, cs, w) \<leftarrow> alloc_retype S 0 seL4_EndpointObject seL4_EndpointBits cs w;
     c_assert (ut \<noteq> 0);
     Some (ipc_ep, ntfn, cs, w)
   }"

definition get_seL4_CapInitThreadTCB :: cptr where
  "get_seL4_CapInitThreadTCB = seL4_CapInitThreadTCB"

text \<open>The stack of SOS itself, a page at a time.\<close>

definition main_stack_page ::
    "'k sel4 \<Rightarrow> nat \<Rightarrow> u64 \<times> 'k env cspace_t \<times> 'k env \<Rightarrow> (u64 \<times> 'k env cspace_t \<times> 'k env) option" where
  "main_stack_page S i = (\<lambda>(vaddr, cs, w). do {
     (frame, frame_cap, cs, w) \<leftarrow> alloc_retype S 0 seL4_ARM_SmallPageObject seL4_PageBits cs w;
     c_assert (frame \<noteq> 0);
     (err, cs, w) \<leftarrow> map_frame S frame_cap seL4_CapInitThreadVSpace vaddr seL4_AllRights seL4_ARM_Default_VMAttributes cs w;
     c_assert (err = seL4_NoError);
     Some (vaddr + of_nat PAGE_SIZE_4K, cs, w)
   })"

text \<open>
  \<open>main\<close>, up to the switch to the new stack, whose top is the first component; and the start of \<open>main_continued\<close>, up to the initialisation of the frame table. The serial port and the capability space are the results of \<open>main\<close> before.
\<close>

definition main ::
    "'k sel4 \<Rightarrow> u64 \<Rightarrow> u64 \<Rightarrow> seL4_BootInfo \<Rightarrow> uart_t \<Rightarrow> dma_t \<Rightarrow> 'k env \<Rightarrow>
     (u64 \<times> uart_t \<times> dma_t \<times> 'k env cspace_t \<times> 'k env) option" where
  "main S bfp nodesp boot_info u d w = do {
     (cs, d, w) \<leftarrow> sos_bootstrap S bfp nodesp boot_info d w;
     (_, u, cs, w) \<leftarrow> uart_init S u cs w;
     (vaddr, cs, w) \<leftarrow> for_each (main_stack_page S) [0..<SOS_STACK_PAGES] (SOS_STACK, cs, w);
     Some (vaddr, u, d, cs, w)
   }"

definition main_continued_init ::
    "'k sel4 \<Rightarrow> u64 \<Rightarrow> irq_state \<Rightarrow> 'k env cspace_t \<Rightarrow> 'k env \<Rightarrow>
     (cptr \<times> irq_state \<times> frame_table_ctx \<times> 'k env cspace_t \<times> 'k env) option" where
  "main_continued_init S cspace_addr d cs w = do {
     (ipc_ep, ntfn, cs, w) \<leftarrow> sos_ipc_init S cs w;
     idents \<leftarrow> IRQ_IDENT_BADGE_BITS;
     d \<leftarrow> sos_init_irq_dispatch seL4_CapIRQControl ntfn IRQ_EP_BADGE idents d;
     let ctx = frame_table_init cspace_addr seL4_CapInitThreadVSpace;
     Some (ipc_ep, d, ctx, cs, w)
   }"

section \<open>The initial stack\<close>

lemma length_word_bytes [simp]: "length (word_bytes v) = 8"
  by (simp add: word_bytes_def)

text \<open>A word written below what has been written so far.\<close>

lemma stack_write_below:
  assumes "readable m (base + of_int index * 8) 8" and "length ys \<le> 4096"
  shows "stack_write base index v (put (base + of_int (index + 1) * 8) ys m) =
     Some (index - 1, put (base + of_int index * 8) (word_bytes v @ ys) m)"
  using assms put_below [of "word_bytes v" ys "base + of_int index * 8" m]
  by (simp add: stack_write_def store_bytes_put algebra_simps)

definition initial_words :: "u64 \<Rightarrow> u64 list" where
  "initial_words sysinfo = [0, 0, 0, AT_SYSINFO, sysinfo, AT_PAGESZ, 4096, 0, 0]"

lemma write_initial_stack_put:
  assumes rd: "readable m (base - 80) 80"
  shows "write_initial_stack base sysinfo m = Some (- 10, put (base - 80) (concat (map word_bytes (initial_words sysinfo))) m)"
proof -
  have r: "readable m (base + of_int i * 8) 8" if "- 10 \<le> i" "i < 0" for i
    using readable_part [OF rd, of "nat (8 * (i + 10))" 8] that by (simp add: algebra_simps)
  have w: "stack_write base i v (put (base + of_int (i + 1) * 8) ys m) = Some (i - 1, put (base + of_int i * 8) (word_bytes v @ ys) m)"
    if "- 10 \<le> i" "i < 0" "length ys \<le> 4096" for i v ys
    using stack_write_below [OF r [OF that(1,2)] that(3)] .
  have w0: "stack_write base (- 2) v m = Some (- 3, put (base - 16) (word_bytes v) m)" for v
    using w [of "- 2" "[]" v] by simp
  show ?thesis
    unfolding write_initial_stack_def initial_words_def
    using w [of "- 3"] w [of "- 4"] w [of "- 5"] w [of "- 6"] w [of "- 7"] w [of "- 8"] w [of "- 9"] w [of "- 10"]
    by (simp add: w0 PAGE_SIZE_4K_def)
qed

lemma stack_page_readable: "readable (map_page (SOS_SCRATCH - of_nat PAGE_SIZE_4K) m) (SOS_SCRATCH - 80) 80"
proof -
  have "readable (map_page (SOS_SCRATCH - of_nat PAGE_SIZE_4K) m) (SOS_SCRATCH - of_nat PAGE_SIZE_4K) 4096"
    by (simp add: readable_def map_page_def put_def PAGE_SIZE_4K_def unat_of_nat_u64)
  from readable_part [OF this, of 4016 80] show ?thesis by (simp add: PAGE_SIZE_4K_def)
qed

lemma fill_process_stack_layout:
  assumes "fill_process_stack S local_vspace sysinfo p m cs w = Some (sp, p', m', cs', w')" and "sp \<noteq> 0"
  shows "sp = PROCESS_STACK_TOP - 80 \<and> sp mod 16 = 0 \<and>
    load_bytes (p_stack_mem p') sp 72 = Some (concat (map word_bytes (initial_words sysinfo)))"
proof -
  define m1 where "m1 = put (SOS_SCRATCH - 80) (concat (map word_bytes (initial_words sysinfo)))
      (map_page (SOS_SCRATCH - of_nat PAGE_SIZE_4K) m)"
  have w: "write_initial_stack SOS_SCRATCH sysinfo (map_page (SOS_SCRATCH - of_nat PAGE_SIZE_4K) m) = Some (- 10, m1)"
    unfolding m1_def by (rule write_initial_stack_put [OF stack_page_readable])
  from assms have r: "sp = PROCESS_STACK_TOP - 80" "p_stack_mem p' = (\<lambda>x. m1 (x - PROCESS_STACK_TOP + SOS_SCRATCH))"
    by (auto simp: fill_process_stack_def Let_def w c_assert_def elim!: bind_SomeE split: if_splits prod.splits)
  have len: "length (concat (map word_bytes (initial_words sysinfo))) = 72" by (simp add: initial_words_def)
  have "load_bytes (p_stack_mem p') sp 72 = load_bytes m1 (sp + (SOS_SCRATCH - PROCESS_STACK_TOP)) 72"
    unfolding r(2) by (subst load_bytes_shift [symmetric]) (simp add: algebra_simps)
  also have "sp + (SOS_SCRATCH - PROCESS_STACK_TOP) = SOS_SCRATCH - 80" by (simp add: r(1))
  also have "load_bytes m1 (SOS_SCRATCH - 80) 72 = Some (concat (map word_bytes (initial_words sysinfo)))"
    using load_bytes_put [of "concat (map word_bytes (initial_words sysinfo))"] len by (simp add: m1_def)
  finally show ?thesis using r(1) by (simp add: PROCESS_STACK_TOP_def)
qed

text \<open>
  C31. The initial stack of a process. When \<open>init_process_stack\<close> returns an address, it is the same for every process and aligned to 16 bytes, and the process finds there what the C library expects: no arguments, no environment, and an auxiliary
  vector with the address of the system call function, which is the word at the start of the section \<open>__vsyscall\<close> of its image, and the page size.
\<close>

theorem init_process_stack_layout:
  assumes "init_process_stack S local_vspace f p m cs w = Some (sp, p', m', cs', w')" and "sp \<noteq> 0"
  shows "\<exists>a i sysinfo. elf_getSectionNamed m f vsyscall_name = Some (a, i) \<and> ld m a 8 = Some sysinfo \<and> sysinfo \<noteq> 0 \<and>
     sp = PROCESS_STACK_TOP - 80 \<and> sp mod 16 = 0 \<and>
     load_bytes (p_stack_mem p') sp 72 =
       Some (concat (map word_bytes [0, 0, 0, AT_SYSINFO, sysinfo, AT_PAGESZ, of_nat PAGE_SIZE_4K, 0, 0]))"
proof -
  from assms obtain a i sysinfo p1 cs1 w1 where s: "elf_getSectionNamed m f vsyscall_name = Some (a, i)" "ld m a 8 = Some sysinfo" "sysinfo \<noteq> 0"
    and r: "fill_process_stack S local_vspace sysinfo p1 m cs1 w1 = Some (sp, p', m', cs', w')"
    by (auto simp: init_process_stack_def Let_def elim!: bind_SomeE split: if_splits)
  have l: "sp = PROCESS_STACK_TOP - 80" "sp mod 16 = 0"
    "load_bytes (p_stack_mem p') sp 72 = Some (concat (map word_bytes (initial_words sysinfo)))"
    using fill_process_stack_layout [OF r assms(2)] by blast+
  have "initial_words sysinfo = [0, 0, 0, AT_SYSINFO, sysinfo, AT_PAGESZ, of_nat PAGE_SIZE_4K, 0, 0]"
    by (simp add: initial_words_def PAGE_SIZE_4K_def)
  note l3 = l(3) [unfolded this]
  show ?thesis by (intro exI [of _ a] exI [of _ i] exI [of _ sysinfo] conjI s l(1,2) l3)
qed

text \<open>A 64-bit file with three sections: the null section, \<open>__vsyscall\<close>, which holds the word \<open>0x400000\<close>, and the table of names.\<close>

definition vsyscall_mem :: mem where
  "vsyscall_mem a = Some (
     if a = 0x1028 then 64 else if a = 0x103c then 3 else if a = 0x103e then 2
     else if a = 0x1080 then 1 else if a = 0x1098 then 0x10 else if a = 0x1099 then 1 else if a = 0x10a0 then 8
     else if a = 0x10c4 then 3 else if a = 0x10d9 then 1 else if a = 0x10e0 then 12
     else if a = 0x1101 then 0x5f else if a = 0x1102 then 0x5f else if a = 0x1103 then 0x76 else if a = 0x1104 then 0x73
     else if a = 0x1105 then 0x79 else if a = 0x1106 then 0x73 else if a = 0x1107 then 0x63 else if a = 0x1108 then 0x61
     else if a = 0x1109 then 0x6c else if a = 0x110a then 0x6c else if a = 0x1112 then 0x40 else 0)"

definition vsyscall_file :: elf_t where
  "vsyscall_file = \<lparr>elfFile = 0x1000, elfSize = 280, elfClass = 2\<rparr>"

lemma vsyscall_loads:
  "ld vsyscall_mem 0x1028 8 = Some 64" "ld vsyscall_mem 0x103c 2 = Some 3" "ld vsyscall_mem 0x103e 2 = Some 2"
  "ld vsyscall_mem 0x1040 4 = Some 0" "ld vsyscall_mem 0x1080 4 = Some 1" "ld vsyscall_mem 0x1098 8 = Some 272"
  "ld vsyscall_mem 0x10a0 8 = Some 8" "ld vsyscall_mem 0x10c4 4 = Some 3" "ld vsyscall_mem 0x10d8 8 = Some 256"
  "ld vsyscall_mem 0x10e0 8 = Some 12" "ld vsyscall_mem 0x1110 8 = Some 0x400000"
  by (simp_all add: vsyscall_mem_def ld_def load_numeral)

lemma vsyscall_header:
  "\<exists>h. elf64_getHeader vsyscall_mem vsyscall_file = Some h \<and> e_shoff h = 64 \<and> e_shnum h = 3 \<and> e_shstrndx h = 2"
proof -
  have ld: "\<exists>v. ld vsyscall_mem a n = Some v" for a n
    by (rule ld_readable) (simp add: readable_def vsyscall_mem_def)
  have lb: "\<exists>v. load_bytes vsyscall_mem a n = Some v" for a n
    using load_bytes_readable [of vsyscall_mem a n] by (auto simp: readable_def vsyscall_mem_def)
  show ?thesis
    using lb [of "0x1000" 16] ld [of "0x1010" 2] ld [of "0x1012" 2] ld [of "0x1014" 4] ld [of "0x1018" 8] ld [of "0x1020" 8]
      ld [of "0x1030" 4] ld [of "0x1034" 2] ld [of "0x1036" 2] ld [of "0x1038" 2] ld [of "0x103a" 2]
    by (auto simp: elf64_getHeader_def vsyscall_file_def vsyscall_loads)
qed

lemma vsyscall_section: "elf_getSectionNamed vsyscall_mem vsyscall_file vsyscall_name = Some (0x1110, Some 1)"
proof -
  obtain h where h: "elf64_getHeader vsyscall_mem vsyscall_file = Some h" "e_shoff h = 64" "e_shnum h = 3" "e_shstrndx h = 2"
    using vsyscall_header by blast
  have f: "elfFile vsyscall_file = 0x1000" "elfSize vsyscall_file = 280" "\<not> elf_isElf32 vsyscall_file"
    by (simp_all add: vsyscall_file_def elf_isElf32_def ELFCLASS32_def)
  note ev = elf_getSection_def elf_getNumSections_def elf64_getNumSections_def elf_getSectionOffset_def elf64_getSectionOffset_def elf_getSectionSize_def
    elf64_getSectionSize_def elf_getSectionType_def elf64_getSectionType_def elf_getSectionNameOffset_def elf64_getSectionNameOffset_def elf64_getSectionTable_def
    elf_getSectionStringTableIndex_def elf64_getSectionStringTableIndex_def elf_sizes h f vsyscall_loads SHT_STRTAB_def
  have tab: "elf_getStringTable vsyscall_mem vsyscall_file 2 = Some 0x1100"
    by (simp add: elf_getStringTable_def ev) (simp add: vsyscall_mem_def)
  have name: "elf_getSectionName vsyscall_mem vsyscall_file 0 = Some (Ptr 0x1100)" "elf_getSectionName vsyscall_mem vsyscall_file 1 = Some (Ptr 0x1101)"
    by (simp_all add: elf_getSectionName_def tab ev)
  have cmp: "strcmp_eq vsyscall_mem vsyscall_name (Ptr 0x1100) = Some False" "strcmp_eq vsyscall_mem vsyscall_name (Ptr 0x1101) = Some True"
    by (simp_all add: vsyscall_name_def vsyscall_mem_def)
  have sec: "elf_getSection vsyscall_mem vsyscall_file 1 = Some 0x1110"
    by (simp add: ev) (simp add: word_le_nat_alt)
  show ?thesis
    using name cmp sec by (simp add: elf_getSectionNamed_def section_named_from.simps [of _ _ _ _ 0] section_named_from.simps [of _ _ _ _ "Suc 0"] ev)
qed

definition example_process :: "unit process" where
  "example_process = \<lparr>p_tcb_ut = 0, p_tcb = 0, p_vspace_ut = 0, p_vspace = 20, p_ipc_buffer_ut = 0, p_ipc_buffer = 0,
     p_cspace = cs2_start (bootstrap_alloc sel4_ok None), p_stack_ut = 0, p_stack = 0, p_stack_mem = (\<lambda>_. None)\<rparr>"

lemma example_stack_retype:
  "alloc_retype sel4_ok old seL4_ARM_SmallPageObject 12 (cs2_with 1 al) sos_example_env =
     Some (0x8000000000, 1, cs2_with 3 al, sos_example_env_1)"
  by (simp add: alloc_retype_def ut_alloc.simps page_eval cs2_with_alloc sos_example_env_def sos_example_env_1_def seL4_PageBits_def seL4_NoError_def)

lemma example_stack_fill:
  "\<exists>p' m' cs'. fill_process_stack sel4_ok 3 sysinfo p m (cs2_with 3 al) w = Some (PROCESS_STACK_TOP - 80, p', m', cs', w)"
proof -
  have free: "\<exists>cs'. cspace_free_slot (cs2_with 7 al) 2 = Some cs'"
    by (simp add: cspace_free_slot_def cs2_with_def cs2_start_def cs_eval bf_clr_bit_def bf_index_defs TOP_LVL_INDEX_def BOT_LVL_INDEX_def)
  have "PROCESS_STACK_TOP + of_int (- 10) * 8 = PROCESS_STACK_TOP - 80" by simp
  then show ?thesis
    using free by (auto simp: fill_process_stack_def cs2_with_alloc map_frame_first cspace_copy_def cspace_delete_def c_assert_def
        write_initial_stack_put [OF stack_page_readable] seL4_CapNull_def seL4_NoError_def PROCESS_STACK_TOP_def Let_def)
qed

theorem init_process_stack_layout_witness:
  "\<exists>sp p' m' cs' w'. init_process_stack sel4_ok 3 vsyscall_file example_process vsyscall_mem
       (cs2_with 1 (bootstrap_alloc sel4_ok None)) sos_example_env = Some (sp, p', m', cs', w') \<and> sp \<noteq> 0 \<and>
     load_bytes (p_stack_mem p') sp 72 =
       Some (concat (map word_bytes [0, 0, 0, AT_SYSINFO, 0x400000, AT_PAGESZ, of_nat PAGE_SIZE_4K, 0, 0]))"
proof -
  obtain p' m' cs' where run: "init_process_stack sel4_ok 3 vsyscall_file example_process vsyscall_mem
       (cs2_with 1 (bootstrap_alloc sel4_ok None)) sos_example_env = Some (PROCESS_STACK_TOP - 80, p', m', cs', sos_example_env_1)"
    using example_stack_fill [of "0x400000" "example_process\<lparr>p_stack_ut := 0x8000000000, p_stack := 1\<rparr>" vsyscall_mem "bootstrap_alloc sel4_ok None" sos_example_env_1]
    by (auto simp: init_process_stack_def example_stack_retype vsyscall_section vsyscall_loads map_frame_first c_assert_def Let_def)
  have "PROCESS_STACK_TOP - 80 \<noteq> 0" by (simp add: PROCESS_STACK_TOP_def)
  with init_process_stack_layout [OF run this] run show ?thesis by (auto simp: vsyscall_section vsyscall_loads)
qed

end
