(* ===== verification/Pico_Tree.thy ===== *)
theory Pico_Tree
  imports SOS_Prelude "HOL-Library.Tree"
begin

text \<open>
  \<open>picotcp/stack/pico_tree.c\<close>: the red-black tree in which the network stack keeps its tables (devices, protocols, sockets, routes, timers).

  \<^item> A node is an object in a heap, with pointers to its parent and children; \<open>LEAF\<close>, the node that stands for the empty tree, is one object shared by all trees. Its colour may be written like that of any other node.
  \<^item> A key is the pointer that the caller hands in. The comparison function of the tree is a parameter \<open>compare\<close> of the operations, as is the allocator \<open>zalloc\<close>, which returns 0 when there is no memory.
  \<^item> The stack is built without its own memory manager, so nodes come from and go to the allocator of the C library, and \<open>create_node\<close> fails for any other allocator.
\<close>

section \<open>Nodes\<close>

text \<open>The values \<open>RED\<close> and \<open>BLACK\<close> of the field \<open>color\<close>, and the address of \<open>LEAF\<close>: the linker chooses it; only that it is not null matters.\<close>

datatype node_color = RED | BLACK

definition LEAF :: u64 where "LEAF = 8"

definition USE_PICO_ZALLOC :: nat where "USE_PICO_ZALLOC = 2"

definition PICO_ERR_ENOMEM :: nat where "PICO_ERR_ENOMEM = 12"
definition PICO_ERR_EEXIST :: nat where "PICO_ERR_EEXIST = 17"

record pico_tree_node =
  keyValue :: u64
  parent :: u64
  leftChild :: u64
  rightChild :: u64
  color :: node_color

type_synonym node_heap = "u64 \<Rightarrow> pico_tree_node option"

record pico_tree =
  root :: u64
  nodes :: node_heap
  pico_err :: nat

type_synonym comparison = "u64 \<Rightarrow> u64 \<Rightarrow> int"
type_synonym allocator = "node_heap \<Rightarrow> u64"

definition LEAF_node :: pico_tree_node where
  "LEAF_node = \<lparr>keyValue = 0, parent = LEAF, leftChild = LEAF, rightChild = LEAF, color = BLACK\<rparr>"

text \<open>Reading and writing a field of the node at an address.\<close>

definition rd :: "(pico_tree_node \<Rightarrow> 'a) \<Rightarrow> pico_tree \<Rightarrow> u64 \<Rightarrow> 'a option" where
  "rd field s p = map_option field (nodes s p)"

definition wr :: "(pico_tree_node \<Rightarrow> pico_tree_node) \<Rightarrow> u64 \<Rightarrow> pico_tree \<Rightarrow> pico_tree option" where
  "wr f p s = do {
     n \<leftarrow> nodes s p;
     Some (s\<lparr>nodes := (nodes s)(p \<mapsto> f n)\<rparr>)
   }"

abbreviation set_parent :: "u64 \<Rightarrow> pico_tree_node \<Rightarrow> pico_tree_node" where
  "set_parent v \<equiv> parent_update (\<lambda>_. v)"

abbreviation set_left :: "u64 \<Rightarrow> pico_tree_node \<Rightarrow> pico_tree_node" where
  "set_left v \<equiv> leftChild_update (\<lambda>_. v)"

abbreviation set_right :: "u64 \<Rightarrow> pico_tree_node \<Rightarrow> pico_tree_node" where
  "set_right v \<equiv> rightChild_update (\<lambda>_. v)"

abbreviation set_color :: "node_color \<Rightarrow> pico_tree_node \<Rightarrow> pico_tree_node" where
  "set_color v \<equiv> color_update (\<lambda>_. v)"

definition AM_I_LEFT_CHILD :: "pico_tree \<Rightarrow> u64 \<Rightarrow> bool option" where
  "AM_I_LEFT_CHILD s x = do { p \<leftarrow> rd parent s x; l \<leftarrow> rd leftChild s p; Some (x = l) }"

definition AM_I_RIGHT_CHILD :: "pico_tree \<Rightarrow> u64 \<Rightarrow> bool option" where
  "AM_I_RIGHT_CHILD s x = do { p \<leftarrow> rd parent s x; r \<leftarrow> rd rightChild s p; Some (x = r) }"

definition GRANPA :: "pico_tree \<Rightarrow> u64 \<Rightarrow> u64 option" where
  "GRANPA s x = do { p \<leftarrow> rd parent s x; rd parent s p }"

section \<open>Walking the tree\<close>

partial_function (option) pico_tree_firstNode :: "pico_tree \<Rightarrow> u64 \<Rightarrow> u64 option" where
  "pico_tree_firstNode s node = do {
     l \<leftarrow> rd leftChild s node;
     if l \<noteq> LEAF then pico_tree_firstNode s l else Some node
   }"

partial_function (option) pico_tree_lastNode :: "pico_tree \<Rightarrow> u64 \<Rightarrow> u64 option" where
  "pico_tree_lastNode s node = do {
     r \<leftarrow> rd rightChild s node;
     if r \<noteq> LEAF then pico_tree_lastNode s r else Some node
   }"

text \<open>The loops that climb while the node is a right, or a left, child.\<close>

partial_function (option) climb_right :: "pico_tree \<Rightarrow> u64 \<Rightarrow> u64 option" where
  "climb_right s node = do {
     p \<leftarrow> rd parent s node;
     if p = LEAF then Some node
     else do {
       b \<leftarrow> AM_I_RIGHT_CHILD s node;
       if b then climb_right s p else Some node
     }
   }"

partial_function (option) climb_left :: "pico_tree \<Rightarrow> u64 \<Rightarrow> u64 option" where
  "climb_left s node = (if node = LEAF then Some node
     else do {
       b \<leftarrow> AM_I_LEFT_CHILD s node;
       if b then do { p \<leftarrow> rd parent s node; climb_left s p } else Some node
     })"

definition pico_tree_next :: "pico_tree \<Rightarrow> u64 \<Rightarrow> u64 option" where
  "pico_tree_next s node =
     (if node = 0 then Some 0
      else do {
        r \<leftarrow> rd rightChild s node;
        if r \<noteq> LEAF then pico_tree_firstNode s r
        else do {
          p \<leftarrow> rd parent s node;
          b \<leftarrow> (if p \<noteq> LEAF then AM_I_LEFT_CHILD s node else Some False);
          if b then Some p
          else do { n \<leftarrow> climb_right s node; rd parent s n }
        }
      })"

definition pico_tree_prev :: "pico_tree \<Rightarrow> u64 \<Rightarrow> u64 option" where
  "pico_tree_prev s node = do {
     l \<leftarrow> rd leftChild s node;
     if l \<noteq> LEAF then pico_tree_lastNode s l
     else do {
       p \<leftarrow> rd parent s node;
       b \<leftarrow> (if p \<noteq> LEAF then AM_I_RIGHT_CHILD s node else Some False);
       if b then Some p
       else do { n \<leftarrow> climb_left s node; rd parent s n }
     }
   }"

text \<open>\<open>pico_tree_foreach\<close>: the nodes that the loop visits.\<close>

partial_function (option) foreach_from :: "pico_tree \<Rightarrow> u64 \<Rightarrow> u64 list option" where
  "foreach_from s idx = (if idx = LEAF then Some []
     else do {
       n \<leftarrow> pico_tree_next s idx;
       ns \<leftarrow> foreach_from s n;
       Some (idx # ns)
     })"

definition pico_tree_foreach :: "pico_tree \<Rightarrow> u64 list option" where
  "pico_tree_foreach s = do { n \<leftarrow> pico_tree_firstNode s (root s); foreach_from s n }"

section \<open>Searching\<close>

partial_function (option) find_from :: "comparison \<Rightarrow> pico_tree \<Rightarrow> u64 \<Rightarrow> u64 \<Rightarrow> u64 option" where
  "find_from compare s key found = (if found = LEAF then Some 0
     else do {
       k \<leftarrow> rd keyValue s found;
       let result = compare k key;
       if result = 0 then Some found
       else if result < 0 then do { r \<leftarrow> rd rightChild s found; find_from compare s key r }
       else do { l \<leftarrow> rd leftChild s found; find_from compare s key l }
     })"

definition pico_tree_findNode :: "comparison \<Rightarrow> pico_tree \<Rightarrow> u64 \<Rightarrow> u64 option" where
  "pico_tree_findNode compare s key = find_from compare s key (root s)"

definition pico_tree_findKey :: "comparison \<Rightarrow> pico_tree \<Rightarrow> u64 \<Rightarrow> u64 option" where
  "pico_tree_findKey compare s key = do {
     found \<leftarrow> pico_tree_findNode compare s key;
     if found = 0 then Some 0 else rd keyValue s found
   }"

definition pico_tree_first :: "pico_tree \<Rightarrow> u64 option" where
  "pico_tree_first s = do { n \<leftarrow> pico_tree_firstNode s (root s); rd keyValue s n }"

definition pico_tree_last :: "pico_tree \<Rightarrow> u64 option" where
  "pico_tree_last s = do { n \<leftarrow> pico_tree_lastNode s (root s); rd keyValue s n }"

definition pico_tree_empty :: "pico_tree \<Rightarrow> bool" where
  "pico_tree_empty s \<longleftrightarrow> root s = 0 \<or> root s = LEAF"

section \<open>Rotations\<close>

text \<open>\<open>replace_child s node fst set_fst set_snd temp\<close>: the parent of \<open>node\<close>, or the root, points at \<open>temp\<close> instead; \<open>fst\<close> is the child that is looked at first.\<close>

definition replace_child ::
    "(pico_tree_node \<Rightarrow> u64) \<Rightarrow> (u64 \<Rightarrow> pico_tree_node \<Rightarrow> pico_tree_node) \<Rightarrow> (u64 \<Rightarrow> pico_tree_node \<Rightarrow> pico_tree_node) \<Rightarrow>
     u64 \<Rightarrow> u64 \<Rightarrow> pico_tree \<Rightarrow> pico_tree option" where
  "replace_child child set_child set_other node temp s = do {
     p \<leftarrow> rd parent s node;
     if p = LEAF then Some (s\<lparr>root := temp\<rparr>)
     else do {
       c \<leftarrow> rd child s p;
       if node = c then wr (set_child temp) p s else wr (set_other temp) p s
     }
   }"

definition rotateToLeft :: "pico_tree \<Rightarrow> u64 \<Rightarrow> pico_tree option" where
  "rotateToLeft s node = do {
     temp \<leftarrow> rd rightChild s node;
     if temp = LEAF then Some s
     else do {
       l \<leftarrow> rd leftChild s temp;
       s \<leftarrow> wr (set_right l) node s;
       l \<leftarrow> rd leftChild s temp;
       s \<leftarrow> (if l \<noteq> LEAF then wr (set_parent node) l s else Some s);
       p \<leftarrow> rd parent s node;
       s \<leftarrow> wr (set_parent p) temp s;
       s \<leftarrow> replace_child leftChild set_left set_right node temp s;
       s \<leftarrow> wr (set_left node) temp s;
       wr (set_parent temp) node s
     }
   }"

definition rotateToRight :: "pico_tree \<Rightarrow> u64 \<Rightarrow> pico_tree option" where
  "rotateToRight s node = do {
     temp \<leftarrow> rd leftChild s node;
     r \<leftarrow> rd rightChild s temp;
     s \<leftarrow> wr (set_left r) node s;
     if temp = LEAF then Some s
     else do {
       r \<leftarrow> rd rightChild s temp;
       s \<leftarrow> (if r \<noteq> LEAF then wr (set_parent node) r s else Some s);
       p \<leftarrow> rd parent s node;
       s \<leftarrow> wr (set_parent p) temp s;
       s \<leftarrow> replace_child rightChild set_right set_left node temp s;
       s \<leftarrow> wr (set_right node) temp s;
       wr (set_parent temp) node s
     }
   }"

section \<open>Insertion\<close>

definition create_node :: "allocator \<Rightarrow> u64 \<Rightarrow> nat \<Rightarrow> pico_tree \<Rightarrow> u64 \<times> pico_tree" where
  "create_node zalloc key allocator s =
     (let temp = (if allocator = USE_PICO_ZALLOC then zalloc (nodes s) else 0)
      in if temp = 0 then (0, s)
         else (temp, s\<lparr>nodes := (nodes s)(temp \<mapsto>
                 \<lparr>keyValue = key, parent = LEAF, leftChild = LEAF, rightChild = LEAF, color = RED\<rparr>)\<rparr>))"

text \<open>The loop that looks for the place of the new node; the result is the last node before a leaf.\<close>

partial_function (option) insert_place :: "comparison \<Rightarrow> pico_tree \<Rightarrow> u64 \<Rightarrow> u64 \<Rightarrow> u64 \<Rightarrow> u64 option" where
  "insert_place compare s new_node temp last_node = (if temp = LEAF then Some last_node
     else do {
       k \<leftarrow> rd keyValue s new_node;
       tk \<leftarrow> rd keyValue s temp;
       c \<leftarrow> (if compare k tk < 0 then rd leftChild s temp else rd rightChild s temp);
       insert_place compare s new_node c temp
     })"

definition pico_tree_insert_node :: "comparison \<Rightarrow> u64 \<Rightarrow> pico_tree \<Rightarrow> pico_tree option" where
  "pico_tree_insert_node compare new_node s = do {
     last_node \<leftarrow> insert_place compare s new_node (root s) LEAF;
     s \<leftarrow> wr (set_parent last_node) new_node s;
     if last_node = LEAF then Some (s\<lparr>root := new_node\<rparr>)
     else do {
       k \<leftarrow> rd keyValue s new_node;
       lk \<leftarrow> rd keyValue s last_node;
       if compare k lk < 0 then wr (set_left new_node) last_node s else wr (set_right new_node) last_node s
     }
   }"

text \<open>One iteration of \<open>fix_insert_collisions\<close>, when the parent is a right or a left child.\<close>

definition fix_insert_right :: "u64 \<Rightarrow> pico_tree \<Rightarrow> (u64 \<times> pico_tree) option" where
  "fix_insert_right node s = do {
     g \<leftarrow> GRANPA s node;
     temp \<leftarrow> rd leftChild s g;
     c \<leftarrow> rd color s temp;
     if c = RED then do {
       p \<leftarrow> rd parent s node;
       s \<leftarrow> wr (set_color BLACK) p s;
       s \<leftarrow> wr (set_color BLACK) temp s;
       g \<leftarrow> GRANPA s node;
       s \<leftarrow> wr (set_color RED) g s;
       g \<leftarrow> GRANPA s node;
       Some (g, s)
     } else do {
       b \<leftarrow> AM_I_LEFT_CHILD s node;
       (node, s) \<leftarrow> (if b then do {
                       p \<leftarrow> rd parent s node;
                       s \<leftarrow> rotateToRight s p;
                       Some (p, s)
                     } else Some (node, s));
       p \<leftarrow> rd parent s node;
       s \<leftarrow> wr (set_color BLACK) p s;
       g \<leftarrow> GRANPA s node;
       s \<leftarrow> wr (set_color RED) g s;
       g \<leftarrow> GRANPA s node;
       s \<leftarrow> rotateToLeft s g;
       Some (node, s)
     }
   }"

definition fix_insert_left :: "u64 \<Rightarrow> pico_tree \<Rightarrow> (u64 \<times> pico_tree) option" where
  "fix_insert_left node s = do {
     g \<leftarrow> GRANPA s node;
     temp \<leftarrow> rd rightChild s g;
     c \<leftarrow> rd color s temp;
     if c = RED then do {
       p \<leftarrow> rd parent s node;
       s \<leftarrow> wr (set_color BLACK) p s;
       s \<leftarrow> wr (set_color BLACK) temp s;
       g \<leftarrow> GRANPA s node;
       s \<leftarrow> wr (set_color RED) g s;
       g \<leftarrow> GRANPA s node;
       Some (g, s)
     } else do {
       b \<leftarrow> AM_I_RIGHT_CHILD s node;
       (node, s) \<leftarrow> (if b then do {
                       p \<leftarrow> rd parent s node;
                       s \<leftarrow> rotateToLeft s p;
                       Some (p, s)
                     } else Some (node, s));
       p \<leftarrow> rd parent s node;
       s \<leftarrow> wr (set_color BLACK) p s;
       g \<leftarrow> GRANPA s node;
       s \<leftarrow> wr (set_color RED) g s;
       g \<leftarrow> GRANPA s node;
       s \<leftarrow> rotateToRight s g;
       Some (node, s)
     }
   }"

partial_function (option) fix_insert_loop :: "u64 \<Rightarrow> pico_tree \<Rightarrow> pico_tree option" where
  "fix_insert_loop node s = do {
     p \<leftarrow> rd parent s node;
     c \<leftarrow> rd color s p;
     g \<leftarrow> rd parent s p;
     if c = RED \<and> g \<noteq> LEAF then do {
       b \<leftarrow> AM_I_RIGHT_CHILD s p;
       if b then do { (node, s) \<leftarrow> fix_insert_right node s; fix_insert_loop node s }
       else do {
         b \<leftarrow> AM_I_LEFT_CHILD s p;
         if b then do { (node, s) \<leftarrow> fix_insert_left node s; fix_insert_loop node s }
         else fix_insert_loop node s
       }
     } else Some s
   }"

definition fix_insert_collisions :: "u64 \<Rightarrow> pico_tree \<Rightarrow> pico_tree option" where
  "fix_insert_collisions node s = do {
     s \<leftarrow> fix_insert_loop node s;
     wr (set_color BLACK) (root s) s
   }"

definition pico_tree_insert_implementation ::
    "comparison \<Rightarrow> allocator \<Rightarrow> u64 \<Rightarrow> nat \<Rightarrow> pico_tree \<Rightarrow> (u64 \<times> pico_tree) option" where
  "pico_tree_insert_implementation compare zalloc key allocator s = do {
     LocalKey \<leftarrow> (if root s \<noteq> LEAF then pico_tree_findKey compare s key else Some 0);
     if LocalKey \<noteq> 0 then Some (LocalKey, s\<lparr>pico_err := PICO_ERR_EEXIST\<rparr>)
     else do {
       let (new_node, s) = create_node zalloc key allocator s;
       if new_node = 0 then Some (LEAF, s\<lparr>pico_err := PICO_ERR_ENOMEM\<rparr>)
       else do {
         s \<leftarrow> pico_tree_insert_node compare new_node s;
         s \<leftarrow> fix_insert_collisions new_node s;
         Some (0, s)
       }
     }
   }"

definition pico_tree_insert :: "comparison \<Rightarrow> allocator \<Rightarrow> u64 \<Rightarrow> pico_tree \<Rightarrow> (u64 \<times> pico_tree) option" where
  "pico_tree_insert compare zalloc key s = pico_tree_insert_implementation compare zalloc key USE_PICO_ZALLOC s"

section \<open>Deletion\<close>

definition switchNodes :: "u64 \<Rightarrow> u64 \<Rightarrow> pico_tree \<Rightarrow> pico_tree option" where
  "switchNodes nodeA nodeB s = do {
     p \<leftarrow> rd parent s nodeA;
     s \<leftarrow> (if p = LEAF then Some (s\<lparr>root := nodeB\<rparr>)
           else if nodeA \<noteq> LEAF then do {
             b \<leftarrow> AM_I_LEFT_CHILD s nodeA;
             if b then wr (set_left nodeB) p s else wr (set_right nodeB) p s
           } else Some s);
     if nodeB \<noteq> LEAF then do { p \<leftarrow> rd parent s nodeA; wr (set_parent p) nodeB s } else Some s
   }"

text \<open>The result has the colour that leaves the tree and \<open>*temp\<close>.\<close>

definition pico_tree_delete_node :: "u64 \<Rightarrow> pico_tree \<Rightarrow> (node_color \<times> u64 \<times> pico_tree) option" where
  "pico_tree_delete_node d s = do {
     r \<leftarrow> rd rightChild s d;
     min \<leftarrow> pico_tree_firstNode s r;
     nodeColor \<leftarrow> rd color s min;
     temp \<leftarrow> rd rightChild s min;
     p \<leftarrow> rd parent s min;
     s \<leftarrow> (if p = d \<and> temp \<noteq> LEAF then wr (set_parent min) temp s
           else do {
             r \<leftarrow> rd rightChild s min;
             s \<leftarrow> switchNodes min r s;
             r \<leftarrow> rd rightChild s d;
             s \<leftarrow> wr (set_right r) min s;
             if r \<noteq> LEAF then wr (set_parent min) r s else Some s
           });
     s \<leftarrow> switchNodes d min s;
     l \<leftarrow> rd leftChild s d;
     s \<leftarrow> wr (set_left l) min s;
     s \<leftarrow> (if l \<noteq> LEAF then wr (set_parent min) l s else Some s);
     c \<leftarrow> rd color s d;
     s \<leftarrow> wr (set_color c) min s;
     Some (nodeColor, temp, s)
   }"

definition pico_tree_delete_check_switch :: "u64 \<Rightarrow> pico_tree \<Rightarrow> (node_color \<times> u64 \<times> pico_tree) option" where
  "pico_tree_delete_check_switch delete s = do {
     nodeColor \<leftarrow> rd color s delete;
     l \<leftarrow> rd leftChild s delete;
     r \<leftarrow> rd rightChild s delete;
     if l = LEAF then do { s \<leftarrow> switchNodes delete r s; Some (nodeColor, r, s) }
     else if r = LEAF then do { s \<leftarrow> switchNodes delete l s; Some (nodeColor, l, s) }
     else pico_tree_delete_node delete s
   }"

definition both_black :: "u64 \<Rightarrow> pico_tree \<Rightarrow> bool option" where
  "both_black temp s = do {
     l \<leftarrow> rd leftChild s temp;
     cl \<leftarrow> rd color s l;
     r \<leftarrow> rd rightChild s temp;
     cr \<leftarrow> rd color s r;
     Some (cl = BLACK \<and> cr = BLACK)
   }"

text \<open>One iteration of \<open>fix_delete_collisions\<close>, when the node is a left or a right child.\<close>

definition fix_delete_left :: "u64 \<Rightarrow> pico_tree \<Rightarrow> (u64 \<times> pico_tree) option" where
  "fix_delete_left node s = do {
     p \<leftarrow> rd parent s node;
     temp \<leftarrow> rd rightChild s p;
     c \<leftarrow> rd color s temp;
     (temp, s) \<leftarrow> (if c = RED then do {
                     s \<leftarrow> wr (set_color BLACK) temp s;
                     s \<leftarrow> wr (set_color RED) p s;
                     s \<leftarrow> rotateToLeft s p;
                     p \<leftarrow> rd parent s node;
                     temp \<leftarrow> rd rightChild s p;
                     Some (temp, s)
                   } else Some (temp, s));
     b \<leftarrow> both_black temp s;
     if b then do {
       s \<leftarrow> wr (set_color RED) temp s;
       p \<leftarrow> rd parent s node;
       Some (p, s)
     } else do {
       r \<leftarrow> rd rightChild s temp;
       c \<leftarrow> rd color s r;
       (temp, s) \<leftarrow> (if c = BLACK then do {
                       l \<leftarrow> rd leftChild s temp;
                       s \<leftarrow> wr (set_color BLACK) l s;
                       s \<leftarrow> wr (set_color RED) temp s;
                       s \<leftarrow> rotateToRight s temp;
                       p \<leftarrow> rd parent s temp;
                       temp \<leftarrow> rd rightChild s p;
                       Some (temp, s)
                     } else Some (temp, s));
       p \<leftarrow> rd parent s node;
       c \<leftarrow> rd color s p;
       s \<leftarrow> wr (set_color c) temp s;
       s \<leftarrow> wr (set_color BLACK) p s;
       r \<leftarrow> rd rightChild s temp;
       s \<leftarrow> wr (set_color BLACK) r s;
       s \<leftarrow> rotateToLeft s p;
       Some (root s, s)
     }
   }"

definition fix_delete_right :: "u64 \<Rightarrow> pico_tree \<Rightarrow> (u64 \<times> pico_tree) option" where
  "fix_delete_right node s = do {
     p \<leftarrow> rd parent s node;
     temp \<leftarrow> rd leftChild s p;
     c \<leftarrow> rd color s temp;
     (temp, s) \<leftarrow> (if c = RED then do {
                     s \<leftarrow> wr (set_color BLACK) temp s;
                     s \<leftarrow> wr (set_color RED) p s;
                     s \<leftarrow> rotateToRight s p;
                     p \<leftarrow> rd parent s node;
                     temp \<leftarrow> rd leftChild s p;
                     Some (temp, s)
                   } else Some (temp, s));
     b \<leftarrow> both_black temp s;
     if b then do {
       s \<leftarrow> wr (set_color RED) temp s;
       p \<leftarrow> rd parent s node;
       Some (p, s)
     } else do {
       l \<leftarrow> rd leftChild s temp;
       c \<leftarrow> rd color s l;
       (temp, s) \<leftarrow> (if c = BLACK then do {
                       r \<leftarrow> rd rightChild s temp;
                       s \<leftarrow> wr (set_color BLACK) r s;
                       s \<leftarrow> wr (set_color RED) temp s;
                       s \<leftarrow> rotateToLeft s temp;
                       p \<leftarrow> rd parent s temp;
                       temp \<leftarrow> rd leftChild s p;
                       Some (temp, s)
                     } else Some (temp, s));
       p \<leftarrow> rd parent s node;
       c \<leftarrow> rd color s p;
       s \<leftarrow> wr (set_color c) temp s;
       s \<leftarrow> wr (set_color BLACK) p s;
       l \<leftarrow> rd leftChild s temp;
       s \<leftarrow> wr (set_color BLACK) l s;
       s \<leftarrow> rotateToRight s p;
       Some (root s, s)
     }
   }"

partial_function (option) fix_delete_loop :: "u64 \<Rightarrow> pico_tree \<Rightarrow> (u64 \<times> pico_tree) option" where
  "fix_delete_loop node s = do {
     c \<leftarrow> rd color s node;
     if node \<noteq> root s \<and> c = BLACK \<and> node \<noteq> LEAF then do {
       b \<leftarrow> AM_I_LEFT_CHILD s node;
       (node, s) \<leftarrow> (if b then fix_delete_left node s else fix_delete_right node s);
       fix_delete_loop node s
     } else Some (node, s)
   }"

definition fix_delete_collisions :: "u64 \<Rightarrow> pico_tree \<Rightarrow> pico_tree option" where
  "fix_delete_collisions node s = do {
     (node, s) \<leftarrow> fix_delete_loop node s;
     wr (set_color BLACK) node s
   }"

definition if_nodecolor_black_fix_collisions :: "u64 \<Rightarrow> node_color \<Rightarrow> pico_tree \<Rightarrow> pico_tree option" where
  "if_nodecolor_black_fix_collisions temp nodeColor s =
     (if nodeColor = BLACK then fix_delete_collisions temp s else Some s)"

definition pico_tree_delete_implementation :: "comparison \<Rightarrow> u64 \<Rightarrow> nat \<Rightarrow> pico_tree \<Rightarrow> (u64 \<times> pico_tree) option" where
  "pico_tree_delete_implementation compare key allocator s =
     (if key = 0 then Some (0, s)
      else do {
        delete \<leftarrow> pico_tree_findNode compare s key;
        if delete = 0 then Some (0, s)
        else do {
          lkey \<leftarrow> rd keyValue s delete;
          (nodeColor, temp, s) \<leftarrow> pico_tree_delete_check_switch delete s;
          s \<leftarrow> if_nodecolor_black_fix_collisions temp nodeColor s;
          let s = (if allocator = USE_PICO_ZALLOC then s\<lparr>nodes := (nodes s)(delete := None)\<rparr> else s);
          Some (lkey, s)
        }
      })"

definition pico_tree_delete :: "comparison \<Rightarrow> u64 \<Rightarrow> pico_tree \<Rightarrow> (u64 \<times> pico_tree) option" where
  "pico_tree_delete compare key s = pico_tree_delete_implementation compare key USE_PICO_ZALLOC s"

text \<open>\<open>PICO_TREE_DECLARE\<close>: an empty tree.\<close>

definition pico_tree_0 :: pico_tree where
  "pico_tree_0 = \<lparr>root = LEAF, nodes = [LEAF \<mapsto> LEAF_node], pico_err = 0\<rparr>"

declare pico_tree_firstNode.simps [code] pico_tree_lastNode.simps [code] climb_right.simps [code] climb_left.simps [code] foreach_from.simps [code] find_from.simps [code]
declare insert_place.simps [code] fix_insert_loop.simps [code] fix_delete_loop.simps [code]

end
