(* ===== verification/Pico_Tree_Shape.thy ===== *)
theory Pico_Tree_Shape
  imports Pico_Tree
begin

text \<open>
  What the nodes in the heap form: \<open>tree_ok s t\<close> says that the pointers of the tree \<open>s\<close> draw the binary tree \<open>t\<close> of addresses, in both directions. A path from a subtree up to the root is a list of frames, innermost first.
  Rotations move between trees with the same in-order list, and leave keys and colours alone.
\<close>

section \<open>The tree that the pointers draw\<close>

fun root_of :: "u64 tree \<Rightarrow> u64" where
  "root_of Leaf = LEAF"
| "root_of (Node l a r) = a"

fun ptree :: "node_heap \<Rightarrow> u64 \<Rightarrow> u64 tree \<Rightarrow> bool" where
  "ptree h p Leaf = True"
| "ptree h p (Node l a r) \<longleftrightarrow> (\<exists>n. h a = Some n \<and> parent n = p \<and> leftChild n = root_of l \<and> rightChild n = root_of r) \<and>
     ptree h a l \<and> ptree h a r"

definition leaf_ok :: "node_heap \<Rightarrow> bool" where
  "leaf_ok h \<longleftrightarrow> (\<exists>n. h LEAF = Some n \<and> parent n = LEAF \<and> leftChild n = LEAF \<and> rightChild n = LEAF)"

definition tree_ok :: "pico_tree \<Rightarrow> u64 tree \<Rightarrow> bool" where
  "tree_ok s t \<longleftrightarrow> root s = root_of t \<and> ptree (nodes s) LEAF t \<and> leaf_ok (nodes s) \<and>
     distinct (inorder t) \<and> LEAF \<notin> set_tree t \<and> 0 \<notin> set_tree t"

text \<open>A frame: whether the hole is the left child, the node, and its other child.\<close>

type_synonym frame = "bool \<times> u64 \<times> u64 tree"

fun plug :: "frame list \<Rightarrow> u64 tree \<Rightarrow> u64 tree" where
  "plug [] t = t"
| "plug ((b, a, s) # C) t = plug C (if b then Node t a s else Node s a t)"

fun up :: "frame list \<Rightarrow> u64" where
  "up [] = LEAF"
| "up ((b, a, s) # C) = a"

fun before :: "frame list \<Rightarrow> u64 list" where
  "before [] = []"
| "before ((b, a, s) # C) = before C @ (if b then [] else inorder s @ [a])"

fun after :: "frame list \<Rightarrow> u64 list" where
  "after [] = []"
| "after ((b, a, s) # C) = (if b then a # inorder s else []) @ after C"

fun pctx :: "node_heap \<Rightarrow> frame list \<Rightarrow> u64 \<Rightarrow> bool" where
  "pctx h [] p = True"
| "pctx h ((b, a, s) # C) p \<longleftrightarrow> (\<exists>n. h a = Some n \<and> parent n = up C \<and> (if b then leftChild n = p \<and> rightChild n = root_of s
       else leftChild n = root_of s \<and> rightChild n = p)) \<and> ptree h a s \<and> pctx h C a"

lemma inorder_plug [simp]: "inorder (plug C t) = before C @ inorder t @ after C"
  by (induction C t rule: plug.induct) auto

lemma set_inorder_tree [simp]: "set (inorder t) = set_tree t"
  by (induction t) auto

lemma set_plug [simp]: "set_tree (plug C t) = set (before C) \<union> set_tree t \<union> set (after C)"
  using inorder_plug [of C t] by (simp flip: set_inorder_tree) auto

lemma ptree_plug: "ptree h LEAF (plug C t) \<longleftrightarrow> ptree h (up C) t \<and> pctx h C (root_of t)"
  by (induction C t rule: plug.induct) auto

lemma root_plug: "root_of (plug C t) = (if C = [] then root_of t else fst (snd (last C)))"
  by (induction C t rule: plug.induct) auto

lemma root_of_in: "t \<noteq> Leaf \<Longrightarrow> root_of t \<in> set_tree t"
  by (cases t) auto

lemma root_of_LEAF: "LEAF \<notin> set_tree t \<Longrightarrow> root_of t = LEAF \<longleftrightarrow> t = Leaf"
  by (cases t) auto

text \<open>Every node of a tree is at a place.\<close>

lemma plug_split:
  assumes "x \<in> set_tree t"
  shows "\<exists>C l r. t = plug C (Node l x r)"
proof -
  have "\<exists>C' l r. plug C t = plug C' (Node l x r)" for C
    using assms
  proof (induction t arbitrary: C)
    case (Node l a r)
    then consider "x = a" | "x \<in> set_tree l" | "x \<in> set_tree r" by auto
    then show ?case
    proof cases
      case 2
      with Node.IH(1) [of "(True, a, r) # C"] show ?thesis by simp
    next
      case 3
      with Node.IH(2) [of "(False, a, l) # C"] show ?thesis by simp
    qed auto
  qed simp
  from this [of "[]"] show ?thesis by simp
qed

section \<open>Changes that do not touch a tree\<close>

definition links :: "node_heap \<Rightarrow> u64 \<Rightarrow> (u64 \<times> u64 \<times> u64) option" where
  "links h a = map_option (\<lambda>n. (parent n, leftChild n, rightChild n)) (h a)"

lemma ptree_links: "ptree h p (Node l a r) \<longleftrightarrow> links h a = Some (p, root_of l, root_of r) \<and> ptree h a l \<and> ptree h a r"
  by (auto simp: links_def)

lemma ptree_cong: "\<forall>a \<in> set_tree t. links h a = links h' a \<Longrightarrow> ptree h p t \<Longrightarrow> ptree h' p t"
proof (induction t arbitrary: p)
  case (Node l a r)
  then have "ptree h' a l" "ptree h' a r" "links h' a = links h a" by (auto simp del: ptree.simps simp: ptree_links)
  with Node.prems(2) show ?case unfolding ptree_links by simp
qed simp

lemma pctx_links: "pctx h ((b, a, s) # C) p \<longleftrightarrow>
    links h a = Some (up C, if b then p else root_of s, if b then root_of s else p) \<and> ptree h a s \<and> pctx h C a"
  by (auto simp: links_def)

lemma pctx_cong: "\<forall>a \<in> set (before C) \<union> set (after C). links h a = links h' a \<Longrightarrow> pctx h C p \<Longrightarrow> pctx h' C p"
proof (induction C arbitrary: p)
  case (Cons f C)
  obtain b a s where f: "f = (b, a, s)" by (cases f)
  have "\<forall>x \<in> set_tree s. links h x = links h' x" using Cons.prems(1) by (auto simp: f split: if_splits)
  then have "ptree h' a s" using ptree_cong [of s h h' a] Cons.prems(2) by (simp add: f)
  moreover have "pctx h' C a" using Cons by (auto simp: f)
  moreover have "links h' a = links h a" using Cons.prems(1) by (auto simp: f split: if_splits)
  ultimately show ?case using Cons.prems(2) unfolding f pctx_links by simp
qed simp

lemma ptree_reparent:
  assumes "ptree h p t" and "distinct (inorder t)" and "\<forall>a \<in> set_tree t - {root_of t}. links h' a = links h a"
    and "t \<noteq> Leaf \<Longrightarrow> links h' (root_of t) = map_option (\<lambda>(_, c). (q, c)) (links h (root_of t))"
  shows "ptree h' q t"
proof (cases t)
  case (Node l a r)
  with assms(2,3) have "\<forall>x \<in> set_tree l. links h x = links h' x" "\<forall>x \<in> set_tree r. links h x = links h' x" by auto
  with assms(1) Node have "ptree h' a l" "ptree h' a r" using ptree_cong by auto
  with assms(1,4) Node show ?thesis by (simp add: ptree_links del: ptree.simps)
qed simp

definition retarget :: "bool \<Rightarrow> u64 \<Rightarrow> u64 \<times> u64 \<times> u64 \<Rightarrow> u64 \<times> u64 \<times> u64" where
  "retarget b q = (\<lambda>(p, l, r). if b then (p, q, r) else (p, l, q))"

lemma pctx_rechild:
  assumes "pctx h C p" and "distinct (before C @ after C)" and "\<forall>a \<in> set (before C) \<union> set (after C) - {up C}. links h' a = links h a"
    and "C \<noteq> [] \<Longrightarrow> links h' (up C) = map_option (retarget (fst (hd C)) q) (links h (up C))"
  shows "pctx h' C q"
proof (cases C)
  case (Cons f C')
  obtain b a s where f: "f = (b, a, s)" by (cases f)
  let ?X = "set_tree s \<union> set (before C') \<union> set (after C')"
  have "a \<notin> ?X" "?X \<subseteq> set (before C) \<union> set (after C)" "up C = a"
    using assms(2) by (cases b; auto simp: Cons f)+
  then have "?X \<subseteq> set (before C) \<union> set (after C) - {up C}" by blast
  with assms(3) have "\<forall>x \<in> ?X. links h' x = links h x" by (meson in_mono)
  then have "ptree h' a s" "pctx h' C' a"
    using assms(1) ptree_cong [of s h h' a] pctx_cong [of C' h h' a] by (auto simp: Cons f)
  with assms(1,4) show ?thesis by (auto simp: Cons f pctx_links retarget_def simp del: pctx.simps)
qed simp

section \<open>Rotations\<close>

definition attrs :: "node_heap \<Rightarrow> u64 \<Rightarrow> (u64 \<times> node_color) option" where
  "attrs h a = map_option (\<lambda>n. (keyValue n, color n)) (h a)"

lemma links_upd [simp]: "links (h(p \<mapsto> n)) = (links h)(p \<mapsto> (parent n, leftChild n, rightChild n))"
  by (auto simp: links_def)

lemma attrs_upd [simp]: "attrs (h(p \<mapsto> n)) = (attrs h)(p \<mapsto> (keyValue n, color n))"
  by (auto simp: attrs_def)

lemma attrs_at: "h p = Some n \<Longrightarrow> attrs h p = Some (keyValue n, color n)"
  by (simp add: attrs_def)

lemma links_at: "h p = Some n \<Longrightarrow> links h p = Some (parent n, leftChild n, rightChild n)"
  by (simp add: links_def)

lemma rotateToLeft_links:
  assumes "nodes s x = Some nx" and "rightChild nx = y" and "y \<noteq> LEAF" and "nodes s y = Some ny" and "leftChild ny = b"
    and "b \<noteq> LEAF \<Longrightarrow> nodes s b = Some nb" and "parent nx = p" and "p \<noteq> LEAF \<Longrightarrow> nodes s p = Some np"
    and "x \<noteq> y" and "x \<noteq> LEAF" and "b \<noteq> x" and "b \<noteq> y" and "p \<noteq> x" and "p \<noteq> y" and "b \<noteq> LEAF \<Longrightarrow> b \<noteq> p"
  shows "\<exists>s'. rotateToLeft s x = Some s' \<and> attrs (nodes s') = attrs (nodes s) \<and> pico_err s' = pico_err s \<and>
    root s' = (if p = LEAF then y else root s) \<and>
    links (nodes s') = (links (nodes s))(b := if b = LEAF then links (nodes s) b else Some (x, leftChild nb, rightChild nb),
      p := if p = LEAF then links (nodes s) p else Some (retarget (x = leftChild np) y (parent np, leftChild np, rightChild np)),
      x := Some (y, leftChild nx, b), y := Some (p, x, rightChild ny))"
  using assms
  by (cases "b = LEAF"; cases "p = LEAF"; cases "x = leftChild np";
      simp add: rotateToLeft_def replace_child_def rd_def wr_def retarget_def;
      intro conjI ext; simp add: attrs_at)

lemma rotateToRight_links:
  assumes "nodes s x = Some nx" and "leftChild nx = y" and "y \<noteq> LEAF" and "nodes s y = Some ny" and "rightChild ny = b"
    and "b \<noteq> LEAF \<Longrightarrow> nodes s b = Some nb" and "parent nx = p" and "p \<noteq> LEAF \<Longrightarrow> nodes s p = Some np"
    and "x \<noteq> y" and "x \<noteq> LEAF" and "b \<noteq> x" and "b \<noteq> y" and "p \<noteq> x" and "p \<noteq> y" and "b \<noteq> LEAF \<Longrightarrow> b \<noteq> p"
  shows "\<exists>s'. rotateToRight s x = Some s' \<and> attrs (nodes s') = attrs (nodes s) \<and> pico_err s' = pico_err s \<and>
    root s' = (if p = LEAF then y else root s) \<and>
    links (nodes s') = (links (nodes s))(b := if b = LEAF then links (nodes s) b else Some (x, leftChild nb, rightChild nb),
      p := if p = LEAF then links (nodes s) p else Some (retarget (x \<noteq> rightChild np) y (parent np, leftChild np, rightChild np)),
      x := Some (y, b, rightChild nx), y := Some (p, leftChild ny, x))"
  using assms
  by (cases "b = LEAF"; cases "p = LEAF"; cases "x = rightChild np";
      simp add: rotateToRight_def replace_child_def rd_def wr_def retarget_def;
      intro conjI ext; simp add: attrs_at)

text \<open>The node above a place, and the first node of a subtree.\<close>

lemma pctx_up:
  assumes "pctx h C p" and "C \<noteq> []"
  shows "\<exists>n. h (up C) = Some n \<and> (if fst (hd C) then leftChild n = p else rightChild n = p)"
  using assms by (cases C) (auto split: if_splits)

lemma ptree_root:
  assumes "ptree h p t" and "t \<noteq> Leaf"
  shows "\<exists>n. h (root_of t) = Some n \<and> parent n = p"
  using assms by (cases t) auto

lemma up_in: "C \<noteq> [] \<Longrightarrow> up C \<in> set (before C) \<union> set (after C)"
  by (cases C) auto

lemma up_LEAF: "LEAF \<notin> set (before C) \<union> set (after C) \<Longrightarrow> up C = LEAF \<longleftrightarrow> C = []"
  using up_in [of C] by (cases "C = []") auto

text \<open>The other child of the node above is not the node itself.\<close>

lemma pctx_other:
  assumes "pctx h C x" and "C \<noteq> []" and "h (up C) = Some n" and "x \<notin> set (before C) \<union> set (after C)" and "x \<noteq> LEAF"
  shows "(x = leftChild n) = fst (hd C)" and "(x = rightChild n) = (\<not> fst (hd C))"
proof -
  obtain b a u C' where C: "C = (b, a, u) # C'" using assms(2) by (cases C) auto
  have "x \<notin> set_tree u" using assms(4) by (auto simp: C split: if_splits)
  then have "root_of u \<noteq> x" using assms(5) by (cases u) auto
  with assms(1,3) show "(x = leftChild n) = fst (hd C)" "(x = rightChild n) = (\<not> fst (hd C))" by (auto simp: C split: if_splits)
qed

lemma tree_ok_links:
  assumes "tree_ok s t" and "links (nodes s') = links (nodes s)" and "root s' = root s"
  shows "tree_ok s' t"
proof -
  have "links h LEAF = Some (LEAF, LEAF, LEAF) \<longleftrightarrow> leaf_ok h" for h by (auto simp: leaf_ok_def links_def)
  then have "leaf_ok (nodes s') = leaf_ok (nodes s)" using assms(2) by metis
  moreover have "ptree (nodes s') LEAF t" using assms(1,2) ptree_cong [of t "nodes s" "nodes s'"] by (simp add: tree_ok_def)
  ultimately show ?thesis using assms(1,3) by (simp add: tree_ok_def)
qed

text \<open>What holds of a place in a tree.\<close>

lemma tree_ok_at:
  assumes "tree_ok s (plug C t)"
  shows "ptree (nodes s) (up C) t" "pctx (nodes s) C (root_of t)" "distinct (before C @ inorder t @ after C)"
    "LEAF \<notin> set (before C) \<union> set_tree t \<union> set (after C)" "0 \<notin> set (before C) \<union> set_tree t \<union> set (after C)"
    "root s = root_of (plug C t)" "leaf_ok (nodes s)"
  using assms by (auto simp: tree_ok_def ptree_plug)

subsection \<open>The part of a tree above a place\<close>

definition ctx_ok :: "pico_tree \<Rightarrow> frame list \<Rightarrow> u64 \<Rightarrow> bool" where
  "ctx_ok s C p \<longleftrightarrow> pctx (nodes s) C p \<and> leaf_ok (nodes s) \<and> distinct (before C @ after C) \<and> LEAF \<notin> set (before C) \<union> set (after C) \<and>
     0 \<notin> set (before C) \<union> set (after C) \<and> (C = [] \<longrightarrow> root s = p) \<and> (C \<noteq> [] \<longrightarrow> root s = fst (snd (last C)))"

lemma tree_ok_ctx: "tree_ok s (plug C t) \<Longrightarrow> ctx_ok s C (root_of t)"
  using tree_ok_at [of s C t] by (auto simp: ctx_ok_def root_plug)

lemma ctx_up_LEAF: "ctx_ok s C p \<Longrightarrow> up C = LEAF \<longleftrightarrow> C = []"
  by (intro up_LEAF) (simp add: ctx_ok_def)

lemma ctx_replace:
  assumes ok: "ctx_ok s C p" and sub: "ptree (nodes s') (up C) t'"
    and rest: "\<And>a. a \<in> set (before C) \<union> set (after C) \<union> {LEAF} \<Longrightarrow> a \<noteq> up C \<or> C = [] \<Longrightarrow> links (nodes s') a = links (nodes s) a"
    and above: "C \<noteq> [] \<Longrightarrow> links (nodes s') (up C) = map_option (retarget (fst (hd C)) (root_of t')) (links (nodes s) (up C))"
    and root: "root s' = (if C = [] then root_of t' else root s)"
    and new: "distinct (inorder t')" "set_tree t' \<inter> (set (before C) \<union> set (after C) \<union> {LEAF, 0}) = {}"
  shows "tree_ok s' (plug C t')"
proof -
  let ?X = "set (before C) \<union> set (after C)"
  from ok have old: "pctx (nodes s) C p" "leaf_ok (nodes s)" "distinct (before C @ after C)" "LEAF \<notin> ?X" "0 \<notin> ?X"
    by (auto simp: ctx_ok_def)
  have same: "\<forall>a \<in> ?X - {up C}. links (nodes s') a = links (nodes s) a" using rest by blast
  have "pctx (nodes s') C (root_of t')" by (rule pctx_rechild [OF old(1,3) same above])
  moreover have "leaf_ok (nodes s')"
  proof -
    have "links (nodes s') LEAF = links (nodes s) LEAF" using rest [of LEAF] ctx_up_LEAF [OF ok] by (metis UnI2 singletonI)
    with old(2) show ?thesis by (auto simp: leaf_ok_def links_def)
  qed
  moreover have "root s' = root_of (plug C t')" using root ok by (simp add: root_plug ctx_ok_def)
  moreover have "distinct (inorder (plug C t'))" using old(3) new by auto
  ultimately show ?thesis using sub old(4,5) new(2) by (auto simp: tree_ok_def ptree_plug)
qed

text \<open>Another subtree at a place.\<close>

lemma tree_ok_replace:
  assumes ok: "tree_ok s (plug C t)" and sub: "ptree (nodes s') (up C) t'"
    and rest: "\<And>a. a \<notin> set_tree t \<union> set_tree t' \<Longrightarrow> a \<noteq> up C \<or> C = [] \<Longrightarrow> links (nodes s') a = links (nodes s) a"
    and above: "C \<noteq> [] \<Longrightarrow> links (nodes s') (up C) = map_option (retarget (fst (hd C)) (root_of t')) (links (nodes s) (up C))"
    and root: "root s' = (if C = [] then root_of t' else root s)"
    and new: "distinct (inorder t')" "set_tree t' \<inter> (set (before C) \<union> set (after C) \<union> {LEAF, 0}) = {}"
  shows "tree_ok s' (plug C t')"
proof (rule ctx_replace [OF tree_ok_ctx [OF ok] sub _ above root new])
  fix a
  assume "a \<in> set (before C) \<union> set (after C) \<union> {LEAF}" and a: "a \<noteq> up C \<or> C = []"
  then have "a \<notin> set_tree t \<union> set_tree t'" using tree_ok_at(3,4) [OF ok] new(2) by auto
  then show "links (nodes s') a = links (nodes s) a" using a by (rule rest)
qed

subsection \<open>Rotated trees\<close>

definition same_attrs :: "pico_tree \<Rightarrow> pico_tree \<Rightarrow> bool" where
  "same_attrs s s' \<longleftrightarrow> attrs (nodes s') = attrs (nodes s) \<and> pico_err s' = pico_err s"

text \<open>A tree with the same nodes in its place, after the links of three of them and of the node above have changed.\<close>

lemma tree_ok_rotate:
  assumes ok: "tree_ok s (plug C t)" and sub: "ptree (nodes s') (up C) t'" and io: "inorder t' = inorder t"
    and above: "C \<noteq> [] \<Longrightarrow> nodes s (up C) = Some np" "C \<noteq> [] \<Longrightarrow> d = fst (hd C)"
    and root: "root s' = (if up C = LEAF then root_of t' else root s)"
    and new: "links (nodes s') = (links (nodes s))(b := if b = LEAF then links (nodes s) b else vb,
       up C := if up C = LEAF then links (nodes s) (up C) else Some (retarget d (root_of t') (parent np, leftChild np, rightChild np)), x := vx, y := vy)"
    and inside: "b = LEAF \<or> b \<in> set_tree t" "x \<in> set_tree t" "y \<in> set_tree t"
  shows "tree_ok s' (plug C t')"
proof -
  note at = tree_ok_at [OF ok]
  have sets: "set_tree t' = set_tree t" using io by (metis set_inorder_tree)
  have C: "up C = LEAF \<longleftrightarrow> C = []" using at(4) by (intro up_LEAF) auto
  show ?thesis
  proof (rule tree_ok_replace [OF ok sub])
    fix a
    assume "a \<notin> set_tree t \<union> set_tree t'" and "a \<noteq> up C \<or> C = []"
    with inside show "links (nodes s') a = links (nodes s) a" by (auto simp: new)
  next
    assume "C \<noteq> []"
    moreover from this up_in have "up C \<noteq> x" "up C \<noteq> y" using at(3) inside(2,3) by auto
    ultimately show "links (nodes s') (up C) = map_option (retarget (fst (hd C)) (root_of t')) (links (nodes s) (up C))"
      using above C by (simp add: new links_at)
  next
    show "set_tree t' \<inter> (set (before C) \<union> set (after C) \<union> {LEAF, 0}) = {}" using at(3,4,5) by (auto simp: sets)
  qed (use root C at(3) in \<open>auto simp: io\<close>)
qed

lemma rotateToLeft_ok:
  assumes ok: "tree_ok s (plug C (Node A x (Node B y D)))"
  shows "\<exists>s'. rotateToLeft s x = Some s' \<and> tree_ok s' (plug C (Node (Node A x B) y D)) \<and> same_attrs s s'"
proof -
  note at = tree_ok_at [OF ok]
  let ?h = "nodes s"
  obtain nx ny where n: "?h x = Some nx" "parent nx = up C" "leftChild nx = root_of A" "rightChild nx = y"
      "?h y = Some ny" "parent ny = x" "leftChild ny = root_of B" "rightChild ny = root_of D"
    using at(1) by auto
  have sub: "ptree ?h x A" "ptree ?h y B" "ptree ?h y D" using at(1) by auto
  have ne: "x \<noteq> y" "x \<noteq> LEAF" "y \<noteq> LEAF" "root_of B \<noteq> x" "root_of B \<noteq> y" "up C \<noteq> x" "up C \<noteq> y" "root_of B \<noteq> LEAF \<Longrightarrow> root_of B \<noteq> up C"
    using at(3,4) up_in [of C] root_of_in [of B] by (cases "B = Leaf"; cases "C = []"; auto)+
  obtain nb where nb: "root_of B \<noteq> LEAF \<Longrightarrow> ?h (root_of B) = Some nb"
    using ptree_root [OF sub(2)] by (cases "B = Leaf") auto
  obtain np where np: "up C \<noteq> LEAF \<Longrightarrow> ?h (up C) = Some np"
    using pctx_up [OF at(2)] by (cases "C = []") auto
  have C: "up C = LEAF \<longleftrightarrow> C = []" using at(4) by (intro up_LEAF) auto
  obtain s' where s': "rotateToLeft s x = Some s'" "same_attrs s s'" "root s' = (if up C = LEAF then y else root s)"
    and new: "links (nodes s') = (links ?h)(root_of B := if root_of B = LEAF then links ?h (root_of B) else Some (x, leftChild nb, rightChild nb),
      up C := if up C = LEAF then links ?h (up C) else Some (retarget (x = leftChild np) y (parent np, leftChild np, rightChild np)),
      x := Some (y, root_of A, root_of B), y := Some (up C, x, root_of D))"
    using rotateToLeft_links [OF n(1,4) ne(3) n(5,7) nb n(2) np ne(1,2,4,5,6,7,8)] by (auto simp: n same_attrs_def)
  have keep: "links (nodes s') a = links ?h a" if "a \<in> set_tree A \<union> set_tree D \<union> (set_tree B - {root_of B})" for a
    using that at(3,4) up_in [of C] root_of_in [of B] by (cases "B = Leaf"; cases "C = []") (auto simp: new)
  have "ptree (nodes s') x B"
  proof (rule ptree_reparent [OF sub(2)])
    assume "B \<noteq> Leaf"
    with nb ne root_of_LEAF [of B] at(4) show "links (nodes s') (root_of B) = map_option (\<lambda>(_, c). (x, c)) (links ?h (root_of B))"
      by (auto simp: new links_at)
  qed (use keep at(3) in auto)
  then have "ptree (nodes s') (up C) (Node (Node A x B) y D)"
    using keep ne(1) sub ptree_cong [of A ?h "nodes s'"] ptree_cong [of D ?h "nodes s'"] by (simp add: ptree_links new del: ptree.simps)
  then have "tree_ok s' (plug C (Node (Node A x B) y D))"
  proof (rule tree_ok_rotate [OF ok])
    show "C \<noteq> [] \<Longrightarrow> (x = leftChild np) = fst (hd C)" using pctx_other(1) [OF at(2) _ np] at(3) ne(2) C by auto
    show "links (nodes s') = (links ?h)(root_of B := if root_of B = LEAF then links ?h (root_of B) else Some (x, leftChild nb, rightChild nb),
      up C := if up C = LEAF then links ?h (up C) else Some (retarget (x = leftChild np) (root_of (Node (Node A x B) y D)) (parent np, leftChild np, rightChild np)),
      x := Some (y, root_of A, root_of B), y := Some (up C, x, root_of D))" using new by simp
    show "root_of B = LEAF \<or> root_of B \<in> set_tree (Node A x (Node B y D))" using root_of_in [of B] by (cases "B = Leaf") auto
  qed (use np C s'(3) in auto)
  with s'(1,2) show ?thesis by blast
qed

lemma rotateToRight_ok:
  assumes ok: "tree_ok s (plug C (Node (Node A y B) x D))"
  shows "\<exists>s'. rotateToRight s x = Some s' \<and> tree_ok s' (plug C (Node A y (Node B x D))) \<and> same_attrs s s'"
proof -
  note at = tree_ok_at [OF ok]
  let ?h = "nodes s"
  obtain nx ny where n: "?h x = Some nx" "parent nx = up C" "leftChild nx = y" "rightChild nx = root_of D"
      "?h y = Some ny" "parent ny = x" "leftChild ny = root_of A" "rightChild ny = root_of B"
    using at(1) by auto
  have sub: "ptree ?h y A" "ptree ?h y B" "ptree ?h x D" using at(1) by auto
  have ne: "x \<noteq> y" "x \<noteq> LEAF" "y \<noteq> LEAF" "root_of B \<noteq> x" "root_of B \<noteq> y" "up C \<noteq> x" "up C \<noteq> y" "root_of B \<noteq> LEAF \<Longrightarrow> root_of B \<noteq> up C"
    using at(3,4) up_in [of C] root_of_in [of B] by (cases "B = Leaf"; cases "C = []"; auto)+
  obtain nb where nb: "root_of B \<noteq> LEAF \<Longrightarrow> ?h (root_of B) = Some nb"
    using ptree_root [OF sub(2)] by (cases "B = Leaf") auto
  obtain np where np: "up C \<noteq> LEAF \<Longrightarrow> ?h (up C) = Some np"
    using pctx_up [OF at(2)] by (cases "C = []") auto
  have C: "up C = LEAF \<longleftrightarrow> C = []" using at(4) by (intro up_LEAF) auto
  obtain s' where s': "rotateToRight s x = Some s'" "same_attrs s s'" "root s' = (if up C = LEAF then y else root s)"
    and new: "links (nodes s') = (links ?h)(root_of B := if root_of B = LEAF then links ?h (root_of B) else Some (x, leftChild nb, rightChild nb),
      up C := if up C = LEAF then links ?h (up C) else Some (retarget (x \<noteq> rightChild np) y (parent np, leftChild np, rightChild np)),
      x := Some (y, root_of B, root_of D), y := Some (up C, root_of A, x))"
    using rotateToRight_links [OF n(1,3) ne(3) n(5,8) nb n(2) np ne(1,2,4,5,6,7,8)] by (auto simp: n same_attrs_def)
  have keep: "links (nodes s') a = links ?h a" if "a \<in> set_tree A \<union> set_tree D \<union> (set_tree B - {root_of B})" for a
    using that at(3,4) up_in [of C] root_of_in [of B] by (cases "B = Leaf"; cases "C = []") (auto simp: new)
  have "ptree (nodes s') x B"
  proof (rule ptree_reparent [OF sub(2)])
    assume "B \<noteq> Leaf"
    with nb ne root_of_LEAF [of B] at(4) show "links (nodes s') (root_of B) = map_option (\<lambda>(_, c). (x, c)) (links ?h (root_of B))"
      by (auto simp: new links_at)
  qed (use keep at(3) in auto)
  then have "ptree (nodes s') (up C) (Node A y (Node B x D))"
    using keep ne(1) sub ptree_cong [of A ?h "nodes s'"] ptree_cong [of D ?h "nodes s'"] by (simp add: ptree_links new del: ptree.simps)
  then have "tree_ok s' (plug C (Node A y (Node B x D)))"
  proof (rule tree_ok_rotate [OF ok])
    show "C \<noteq> [] \<Longrightarrow> (x \<noteq> rightChild np) = fst (hd C)" using pctx_other(2) [OF at(2) _ np] at(3) ne(2) C by auto
    show "links (nodes s') = (links ?h)(root_of B := if root_of B = LEAF then links ?h (root_of B) else Some (x, leftChild nb, rightChild nb),
      up C := if up C = LEAF then links ?h (up C) else Some (retarget (x \<noteq> rightChild np) (root_of (Node A y (Node B x D))) (parent np, leftChild np, rightChild np)),
      x := Some (y, root_of B, root_of D), y := Some (up C, root_of A, x))" using new by simp
    show "root_of B = LEAF \<or> root_of B \<in> set_tree (Node (Node A y B) x D)" using root_of_in [of B] by (cases "B = Leaf") auto
  qed (use np C s'(3) in auto)
  with s'(1,2) show ?thesis by blast
qed

end
