(* ===== verification/Pico_Compare.thy ===== *)
theory Pico_Compare
  imports Pico_Tree "HOL-Library.Product_Lexorder"
begin

text \<open>
  The comparison functions of the trees of the network stack, and what the tree needs of them. A key points at a structure; the fields that are compared are given by functions of the key.
  The tables of devices, protocols, ports, addresses, name servers, queries, routes and pings are ordered. The comparison of sockets is not: it subtracts addresses modulo \<open>2^32\<close>.
\<close>

section \<open>Comparison functions\<close>

text \<open>\<open>pico_device.c\<close>, \<open>pico_protocol.c\<close> and \<open>pico_socket.c\<close>: by hash value, or by port number.\<close>

definition pico_dev_cmp :: "(u64 \<Rightarrow> u32) \<Rightarrow> comparison" where
  "pico_dev_cmp hash ka kb = (if hash ka < hash kb then - 1 else if hash ka > hash kb then 1 else 0)"

definition pico_proto_cmp :: "(u64 \<Rightarrow> u32) \<Rightarrow> comparison" where
  "pico_proto_cmp hash ka kb = (if hash ka < hash kb then - 1 else if hash ka > hash kb then 1 else 0)"

definition sockport_cmp :: "(u64 \<Rightarrow> u16) \<Rightarrow> comparison" where
  "sockport_cmp number ka kb = (if number ka < number kb then - 1 else if number ka > number kb then 1 else 0)"

text \<open>\<open>pico_ipv4.c\<close>: addresses, links and routes. \<open>long_be\<close> swaps the bytes of a word.\<close>

definition pico_ipv4_compare :: "u32 \<Rightarrow> u32 \<Rightarrow> int" where
  "pico_ipv4_compare a b = (if a < b then - 1 else if a > b then 1 else 0)"

definition arp_compare :: "(u64 \<Rightarrow> u32) \<Rightarrow> comparison" where
  "arp_compare ipv4 ka kb = pico_ipv4_compare (ipv4 ka) (ipv4 kb)"

definition dns_ns_cmp :: "(u64 \<Rightarrow> u32) \<Rightarrow> comparison" where
  "dns_ns_cmp ns ka kb = pico_ipv4_compare (ns ka) (ns kb)"

definition PICO_IP4_ANY :: u32 where "PICO_IP4_ANY = 0"

record pico_ipv4_link =
  l_address :: u32
  l_dev :: u64

definition ipv4_link_compare :: "(u64 \<Rightarrow> pico_ipv4_link) \<Rightarrow> comparison" where
  "ipv4_link_compare lk ka kb =
     (let a = lk ka; b = lk kb; cmp = pico_ipv4_compare (l_address a) (l_address b)
      in if cmp \<noteq> 0 then cmp
         else if l_dev a \<noteq> 0 \<and> l_dev b \<noteq> 0 \<and> l_address a = PICO_IP4_ANY \<and> l_address b = PICO_IP4_ANY then
           (if l_dev a < l_dev b then - 1 else if l_dev a > l_dev b then 1 else 0)
         else 0)"

definition long_be :: "u32 \<Rightarrow> u32" where
  "long_be le =
     (let b = (\<lambda>i. drop_bit (8 * i) le AND 0xff)
      in b 3 + push_bit 8 (b 2) + push_bit 16 (b 1) + push_bit 24 (b 0))"

record pico_ipv4_route =
  r_dest :: u32
  r_netmask :: u32
  r_metric :: u32

definition ipv4_route_compare :: "(u64 \<Rightarrow> pico_ipv4_route) \<Rightarrow> comparison" where
  "ipv4_route_compare rt ka kb =
     (let a = rt ka; b = rt kb; a_nm = long_be (r_netmask a); b_nm = long_be (r_netmask b)
      in if a_nm < b_nm then - 1
         else if b_nm < a_nm then 1
         else let cmp = pico_ipv4_compare (r_dest a) (r_dest b)
              in if cmp \<noteq> 0 then cmp
                 else if r_metric a < r_metric b then - 1
                 else if r_metric a > r_metric b then 1
                 else 0)"

text \<open>\<open>pico_dns_client.c\<close> and \<open>pico_icmp4.c\<close>: queries and pings.\<close>

definition dns_query_cmp :: "(u64 \<Rightarrow> u16) \<Rightarrow> comparison" where
  "dns_query_cmp qid ka kb = (if qid ka = qid kb then 0 else if qid ka < qid kb then - 1 else 1)"

definition cookie_compare :: "(u64 \<Rightarrow> u16) \<Rightarrow> (u64 \<Rightarrow> u16) \<Rightarrow> comparison" where
  "cookie_compare cid seq ka kb =
     (if cid ka < cid kb then - 1
      else if cid ka > cid kb then 1
      else uint (seq ka) - uint (seq kb))"

text \<open>
  \<open>pico_socket.c\<close>: sockets. An address is a union of 16 bytes; its IPv4 part is the word in the first four. \<open>memcmp\<close> of two addresses is the order of the first bytes that differ.
\<close>

datatype sock_net = pico_proto_ipv4 | pico_proto_ipv6

record pico_socket =
  sock_net :: sock_net
  local_addr :: "8 word list"
  remote_addr :: "8 word list"
  remote_port :: u16

definition ip4_addr :: "8 word list \<Rightarrow> u32" where
  "ip4_addr a = foldr (\<lambda>b v. ucast b + 256 * v) (take 4 a) 0"

fun memcmp :: "8 word list \<Rightarrow> 8 word list \<Rightarrow> int" where
  "memcmp (a # as) (b # bs) = (if a = b then memcmp as bs else uint a - uint b)"
| "memcmp _ _ = 0"

definition PICO_IP6_ANY :: "8 word list" where "PICO_IP6_ANY = replicate 16 0"

definition socket_cmp_family :: "pico_socket \<Rightarrow> pico_socket \<Rightarrow> int" where
  "socket_cmp_family a b =
     (let a_is_ip6 = (if sock_net a = pico_proto_ipv6 then 1 else 0 :: nat); b_is_ip6 = (if sock_net b = pico_proto_ipv6 then 1 else 0)
      in if a_is_ip6 < b_is_ip6 then - 1 else if a_is_ip6 > b_is_ip6 then 1 else 0)"

definition socket_cmp_ipv6 :: "pico_socket \<Rightarrow> pico_socket \<Rightarrow> int" where
  "socket_cmp_ipv6 a b =
     (if sock_net a \<noteq> pico_proto_ipv6 \<or> sock_net b \<noteq> pico_proto_ipv6 then 0
      else if memcmp (local_addr a) PICO_IP6_ANY = 0 \<or> memcmp (local_addr b) PICO_IP6_ANY = 0 then 0
      else memcmp (local_addr a) (local_addr b))"

definition socket_cmp_ipv4 :: "pico_socket \<Rightarrow> pico_socket \<Rightarrow> int" where
  "socket_cmp_ipv4 a b =
     (if sock_net a \<noteq> pico_proto_ipv4 \<or> sock_net b \<noteq> pico_proto_ipv4 then 0
      else if ip4_addr (local_addr a) = PICO_IP4_ANY \<or> ip4_addr (local_addr b) = PICO_IP4_ANY then 0
      else sint (ip4_addr (local_addr a) - ip4_addr (local_addr b)))"

definition socket_cmp_remotehost :: "pico_socket \<Rightarrow> pico_socket \<Rightarrow> int" where
  "socket_cmp_remotehost a b =
     (if sock_net a = pico_proto_ipv6 then memcmp (remote_addr a) (remote_addr b)
      else sint (ip4_addr (remote_addr a) - ip4_addr (remote_addr b)))"

definition socket_cmp_addresses :: "pico_socket \<Rightarrow> pico_socket \<Rightarrow> int" where
  "socket_cmp_addresses a b =
     (let ret = socket_cmp_ipv6 a b;
          ret = (if ret = 0 then socket_cmp_ipv4 a b else ret)
      in if ret = 0 then socket_cmp_remotehost a b else ret)"

definition socket_cmp :: "(u64 \<Rightarrow> pico_socket) \<Rightarrow> comparison" where
  "socket_cmp sk ka kb =
     (let a = sk ka; b = sk kb;
          ret = socket_cmp_family a b;
          ret = (if ret = 0 then socket_cmp_addresses a b else ret)
      in if ret = 0 then uint (remote_port b) - uint (remote_port a) else ret)"

section \<open>Orders\<close>

locale key_order =
  fixes compare :: comparison
  assumes anti: "compare a b < 0 \<longleftrightarrow> compare b a > 0"
    and trans: "compare a b < 0 \<Longrightarrow> compare b c < 0 \<Longrightarrow> compare a c < 0"
    and eq_less: "compare a b = 0 \<Longrightarrow> compare b c < 0 \<Longrightarrow> compare a c < 0"
begin

lemma eq_sym: "compare a b = 0 \<longleftrightarrow> compare b a = 0"
  using anti [of a b] anti [of b a] by linarith

lemma eq_greater: "compare a b = 0 \<Longrightarrow> compare c b < 0 \<Longrightarrow> compare c a < 0"
  using eq_less [of a b c] anti [of c b] anti [of a c] trans [of c b a] eq_sym [of a b] eq_less [of a c b] anti [of b c]
  by (metis linorder_less_linear less_irrefl eq_less eq_sym trans)

end

text \<open>A comparison of two measures, one after the other.\<close>

lemma measure_order:
  fixes f :: "u64 \<Rightarrow> 'a :: linorder" and g :: "u64 \<Rightarrow> 'b :: linorder"
  assumes "\<And>a b. compare a b < 0 \<longleftrightarrow> f a < f b \<or> f a = f b \<and> g a < g b"
    and "\<And>a b. compare a b > 0 \<longleftrightarrow> f b < f a \<or> f a = f b \<and> g b < g a"
  shows "key_order compare"
proof
  fix a b c
  have eq: "compare a b = 0 \<longleftrightarrow> f a = f b \<and> g a = g b" for a b
  proof -
    have "compare a b = 0 \<longleftrightarrow> \<not> compare a b < 0 \<and> \<not> compare a b > 0" by auto
    then show ?thesis unfolding assms by auto
  qed
  show "compare a b < 0 \<longleftrightarrow> compare b a > 0" unfolding assms by auto
  show "compare a b < 0 \<Longrightarrow> compare b c < 0 \<Longrightarrow> compare a c < 0" unfolding assms by auto
  show "compare a b = 0 \<Longrightarrow> compare b c < 0 \<Longrightarrow> compare a c < 0" unfolding eq assms by auto
qed

interpretation dev: key_order "pico_dev_cmp hash" for hash
  by (rule measure_order [of _ hash "\<lambda>_. ()"]) (auto simp: pico_dev_cmp_def)

interpretation proto: key_order "pico_proto_cmp hash" for hash
  by (rule measure_order [of _ hash "\<lambda>_. ()"]) (auto simp: pico_proto_cmp_def)

interpretation port: key_order "sockport_cmp number" for number
  by (rule measure_order [of _ number "\<lambda>_. ()"]) (auto simp: sockport_cmp_def)

interpretation arp: key_order "arp_compare ipv4" for ipv4
  by (rule measure_order [of _ ipv4 "\<lambda>_. ()"]) (auto simp: arp_compare_def pico_ipv4_compare_def)

interpretation ns: key_order "dns_ns_cmp server" for server
  by (rule measure_order [of _ server "\<lambda>_. ()"]) (auto simp: dns_ns_cmp_def pico_ipv4_compare_def)

interpretation query: key_order "dns_query_cmp qid" for qid
  by (rule measure_order [of _ qid "\<lambda>_. ()"]) (auto simp: dns_query_cmp_def)

interpretation ping: key_order "cookie_compare cid seq" for cid seq
  by (rule measure_order [of _ cid seq]) (auto simp: cookie_compare_def word_less_def word_uint_eq_iff)

interpretation route: key_order "ipv4_route_compare rt" for rt
  by (rule measure_order [of _ "\<lambda>k. long_be (r_netmask (rt k))" "\<lambda>k. (r_dest (rt k), r_metric (rt k))"])
    (auto simp: ipv4_route_compare_def pico_ipv4_compare_def Let_def)

text \<open>Links are ordered as long as each has its device.\<close>

lemma ipv4_link_order:
  assumes "\<And>k. l_dev (lk k) \<noteq> 0"
  shows "key_order (ipv4_link_compare lk)"
  by (rule measure_order [of _ "\<lambda>k. l_address (lk k)" "\<lambda>k. if l_address (lk k) = PICO_IP4_ANY then l_dev (lk k) else 0"])
    (use assms in \<open>auto simp: ipv4_link_compare_def pico_ipv4_compare_def Let_def\<close>)

text \<open>The comparison of sockets is not an order: three connections may each come before the next in a circle.\<close>

lemma socket_cmp_circle:
  defines "sk \<equiv> (\<lambda>k. \<lparr>sock_net = pico_proto_ipv4, local_addr = [10, 0, 0, 1], remote_addr = [0, 0, 0, if k = 1 then 0 else if k = 2 then 0x60 else 0xc0], remote_port = 80\<rparr>)"
  shows "socket_cmp sk 1 2 < 0" "socket_cmp sk 2 3 < 0" "socket_cmp sk 3 1 < 0" "\<not> key_order (socket_cmp sk)"
proof -
  show c: "socket_cmp sk 1 2 < 0" "socket_cmp sk 2 3 < 0" "socket_cmp sk 3 1 < 0"
    by (simp_all add: socket_cmp_def sk_def socket_cmp_family_def socket_cmp_addresses_def socket_cmp_ipv6_def socket_cmp_ipv4_def
        socket_cmp_remotehost_def ip4_addr_def PICO_IP4_ANY_def)
  have "socket_cmp sk 1 1 = 0"
    by (simp add: socket_cmp_def sk_def socket_cmp_family_def socket_cmp_addresses_def socket_cmp_ipv6_def socket_cmp_ipv4_def
        socket_cmp_remotehost_def ip4_addr_def PICO_IP4_ANY_def)
  then show "\<not> key_order (socket_cmp sk)"
    using c key_order.trans [of "socket_cmp sk" 1 2 3] key_order.trans [of "socket_cmp sk" 1 3 1] by auto
qed

end
