(* ===== verification/Pico_Tree_Search.thy ===== *)
theory Pico_Tree_Search
  imports Pico_Tree_Shape Pico_Compare
begin

text \<open>
  Searching a tree, and linking a new node into it: what the loops find in a tree whose keys are in order, for any comparison that is an order.
\<close>

section \<open>Keys in order\<close>

definition key_of :: "node_heap \<Rightarrow> u64 \<Rightarrow> u64" where
  "key_of h a = (case h a of Some n \<Rightarrow> keyValue n | None \<Rightarrow> 0)"

definition col :: "node_heap \<Rightarrow> u64 \<Rightarrow> node_color" where
  "col h a = (case h a of Some n \<Rightarrow> color n | None \<Rightarrow> BLACK)"

definition ordered :: "comparison \<Rightarrow> node_heap \<Rightarrow> u64 list \<Rightarrow> bool" where
  "ordered compare h = sorted_wrt (\<lambda>a b. compare (key_of h a) (key_of h b) < 0)"

lemma attrs_key_of: "attrs h' a = attrs h a \<Longrightarrow> key_of h' a = key_of h a"
  by (auto simp: attrs_def key_of_def split: option.splits)

lemma attrs_col: "attrs h' a = attrs h a \<Longrightarrow> col h' a = col h a"
  by (auto simp: attrs_def col_def split: option.splits)

lemma same_attrs_key_of: "same_attrs s s' \<Longrightarrow> key_of (nodes s') = key_of (nodes s)"
  by (rule ext, rule attrs_key_of) (simp add: same_attrs_def)

lemma same_attrs_col: "same_attrs s s' \<Longrightarrow> col (nodes s') = col (nodes s)"
  by (rule ext, rule attrs_col) (simp add: same_attrs_def)

lemma ordered_cong: "\<forall>a \<in> set xs. key_of h' a = key_of h a \<Longrightarrow> ordered compare h xs \<Longrightarrow> ordered compare h' xs"
  unfolding ordered_def by (erule sorted_wrt_mono_rel [rotated]) simp

lemma ptree_at:
  assumes "ptree h p (Node l a r)"
  obtains n where "h a = Some n" "parent n = p" "leftChild n = root_of l" "rightChild n = root_of r" "key_of h a = keyValue n" "col h a = color n"
  using assms by (auto simp: key_of_def col_def)

section \<open>Finding a key\<close>

context key_order
begin

lemma find_from_ok:
  assumes "ptree (nodes s) p t" and "LEAF \<notin> set_tree t" and "ordered compare (nodes s) (inorder t)"
  shows "(\<exists>a \<in> set_tree t. find_from compare s key (root_of t) = Some a \<and> compare (key_of (nodes s) a) key = 0) \<or>
    (find_from compare s key (root_of t) = Some 0 \<and> (\<forall>a \<in> set_tree t. compare (key_of (nodes s) a) key \<noteq> 0))"
  using assms
proof (induction t arbitrary: p)
  case Leaf
  then show ?case by (subst find_from.simps) simp
next
  case (Node l a r)
  let ?k = "key_of (nodes s)"
  from Node.prems(1) obtain n where n: "nodes s a = Some n" "leftChild n = root_of l" "rightChild n = root_of r" "?k a = keyValue n"
    by (rule ptree_at)
  have run: "find_from compare s key a = (if compare (?k a) key = 0 then Some a
      else if compare (?k a) key < 0 then find_from compare s key (root_of r) else find_from compare s key (root_of l))"
    using Node.prems(2) n by (subst find_from.simps) (auto simp: rd_def)
  have ord: "\<forall>x \<in> set_tree l. compare (?k x) (?k a) < 0" "\<forall>x \<in> set_tree r. compare (?k a) (?k x) < 0"
    "ordered compare (nodes s) (inorder l)" "ordered compare (nodes s) (inorder r)"
    using Node.prems(3) by (auto simp: ordered_def sorted_wrt_append)
  consider "compare (?k a) key = 0" | "compare (?k a) key < 0" | "compare (?k a) key > 0" by linarith
  then show ?case
  proof cases
    case 2
    then have "\<forall>x \<in> insert a (set_tree l). compare (?k x) key < 0" using ord(1) trans by blast
    then have no: "compare (?k x) key \<noteq> 0" if "x \<in> insert a (set_tree l)" for x using that by fastforce
    have "find_from compare s key a = find_from compare s key (root_of r)" using run 2 by simp
    with Node.IH(2) [of a] Node.prems(1,2) ord(4) no show ?thesis by (simp, blast)
  next
    case 3
    then have "\<forall>x \<in> insert a (set_tree r). compare key (?k x) < 0" using ord(2) trans anti by blast
    then have no: "compare (?k x) key \<noteq> 0" if "x \<in> insert a (set_tree r)" for x using that anti [of key "?k x"] by fastforce
    have "find_from compare s key a = find_from compare s key (root_of l)" using run 3 by simp
    with Node.IH(1) [of a] Node.prems(1,2) ord(3) no show ?thesis by (simp, blast)
  qed (simp add: run)
qed

lemma pico_tree_findNode_ok:
  assumes "tree_ok s t" and "ordered compare (nodes s) (inorder t)"
  shows "(\<exists>a \<in> set_tree t. pico_tree_findNode compare s key = Some a \<and> compare (key_of (nodes s) a) key = 0) \<or>
    (pico_tree_findNode compare s key = Some 0 \<and> (\<forall>a \<in> set_tree t. compare (key_of (nodes s) a) key \<noteq> 0))"
  using find_from_ok [of s LEAF t] assms by (simp add: tree_ok_def pico_tree_findNode_def)

lemma pico_tree_findKey_ok:
  assumes "tree_ok s t" and "ordered compare (nodes s) (inorder t)"
  shows "(\<exists>a \<in> set_tree t. pico_tree_findKey compare s key = Some (key_of (nodes s) a) \<and> compare (key_of (nodes s) a) key = 0) \<or>
    (pico_tree_findKey compare s key = Some 0 \<and> (\<forall>a \<in> set_tree t. compare (key_of (nodes s) a) key \<noteq> 0))"
proof -
  have "a \<noteq> 0 \<and> rd keyValue s a = Some (key_of (nodes s) a)" if "a \<in> set_tree t" for a
  proof -
    from plug_split [OF that] obtain C l r where "t = plug C (Node l a r)" by blast
    with tree_ok_at(1,5) [of s C "Node l a r"] assms(1) show ?thesis by (auto simp: rd_def key_of_def)
  qed
  with pico_tree_findNode_ok [OF assms, of key] show ?thesis unfolding pico_tree_findKey_def by auto
qed

section \<open>Linking a new node\<close>

lemma insert_place_ok:
  assumes "ptree (nodes s) p t" and "LEAF \<notin> set_tree t" and "ordered compare (nodes s) (inorder t)"
    and "nodes s new = Some nn" and "keyValue nn = k" and "\<forall>a \<in> set_tree t. compare (key_of (nodes s) a) k \<noteq> 0"
    and "\<forall>a \<in> set (before C0). compare (key_of (nodes s) a) k < 0" and "\<forall>a \<in> set (after C0). compare k (key_of (nodes s) a) < 0"
    and "C0 \<noteq> [] \<Longrightarrow> fst (hd C0) = (compare k (key_of (nodes s) (up C0)) < 0)"
  shows "\<exists>C. plug C Leaf = plug C0 t \<and> insert_place compare s new (root_of t) (up C0) = Some (up C) \<and>
    (\<forall>a \<in> set (before C). compare (key_of (nodes s) a) k < 0) \<and> (\<forall>a \<in> set (after C). compare k (key_of (nodes s) a) < 0) \<and>
    (C \<noteq> [] \<longrightarrow> fst (hd C) = (compare k (key_of (nodes s) (up C)) < 0))"
  using assms
proof (induction t arbitrary: p C0)
  case Leaf
  then show ?case by (intro exI [of _ C0]) (simp add: insert_place.simps [of _ _ _ LEAF])
next
  case (Node l a r)
  let ?k = "key_of (nodes s)"
  from Node.prems(1) obtain n where n: "nodes s a = Some n" "leftChild n = root_of l" "rightChild n = root_of r" "?k a = keyValue n"
    by (rule ptree_at)
  have run: "insert_place compare s new a (up C0) = (if compare k (?k a) < 0 then insert_place compare s new (root_of l) a else insert_place compare s new (root_of r) a)"
    using Node.prems(2,4,5) n by (subst insert_place.simps) (auto simp: rd_def)
  have ord: "\<forall>x \<in> set_tree l. compare (?k x) (?k a) < 0" "\<forall>x \<in> set_tree r. compare (?k a) (?k x) < 0"
    "ordered compare (nodes s) (inorder l)" "ordered compare (nodes s) (inorder r)"
    using Node.prems(3) by (auto simp: ordered_def sorted_wrt_append)
  show ?case
  proof (cases "compare k (?k a) < 0")
    case True
    then have "\<forall>x \<in> set_tree r. compare k (?k x) < 0" using ord(2) trans by blast
    then have "\<forall>x \<in> set (after ((True, a, r) # C0)). compare k (?k x) < 0" using Node.prems(8) True by auto
    with Node.IH(1) [of a "(True, a, r) # C0"] Node.prems ord(3) True show ?thesis by (simp add: run)
  next
    case False
    then have less: "compare (?k a) k < 0" using Node.prems(6) anti [of "?k a" k] eq_sym [of "?k a" k] by auto
    then have "\<forall>x \<in> set_tree l. compare (?k x) k < 0" using ord(1) trans by blast
    then have "\<forall>x \<in> set (before ((False, a, l) # C0)). compare (?k x) k < 0" using Node.prems(7) less by auto
    with Node.IH(2) [of a "(False, a, l) # C0"] Node.prems ord(4) False show ?thesis by (simp add: run)
  qed
qed

lemma insert_at_place:
  assumes ok: "tree_ok s (plug C Leaf)" and new: "nodes s new = Some nn" "leftChild nn = LEAF" "rightChild nn = LEAF"
    "new \<notin> set_tree (plug C Leaf)" "new \<noteq> LEAF" "new \<noteq> 0"
    and place: "insert_place compare s new (root s) LEAF = Some (up C)"
    and dir: "C \<noteq> [] \<Longrightarrow> fst (hd C) = (compare (keyValue nn) (key_of (nodes s) (up C)) < 0)"
  shows "\<exists>s'. pico_tree_insert_node compare new s = Some s' \<and> tree_ok s' (plug C (Node Leaf new Leaf)) \<and> same_attrs s s'"
proof -
  note at = tree_ok_at [OF ok]
  have C: "up C = LEAF \<longleftrightarrow> C = []" using at(4) by (intro up_LEAF) auto
  have ne: "up C \<noteq> new" using new(4,5) up_in [of C] by (cases "C = []") auto
  obtain na where na: "C \<noteq> [] \<Longrightarrow> nodes s (up C) = Some na" using pctx_up [OF at(2)] by (cases "C = []") auto
  have key: "C \<noteq> [] \<Longrightarrow> key_of (nodes s) (up C) = keyValue na" using na by (simp add: key_of_def)
  let ?h = "(nodes s)(new \<mapsto> set_parent (up C) nn)"
  define s' where "s' = (if C = [] then s\<lparr>nodes := ?h, root := new\<rparr>
      else s\<lparr>nodes := ?h(up C \<mapsto> if fst (hd C) then set_left new na else set_right new na)\<rparr>)"
  have run: "pico_tree_insert_node compare new s = Some s'"
    using place new(1) C ne na dir key by (cases "C = []") (simp_all add: pico_tree_insert_node_def wr_def rd_def s'_def)
  have "tree_ok s' (plug C (Node Leaf new Leaf))"
  proof (rule tree_ok_replace [OF ok])
    show "ptree (nodes s') (up C) (Node Leaf new Leaf)" using new ne by (simp add: s'_def)
    show "links (nodes s') a = links (nodes s) a" if "a \<notin> set_tree Leaf \<union> set_tree (Node Leaf new Leaf)" "a \<noteq> up C \<or> C = []" for a
      using that by (auto simp: s'_def)
    show "C \<noteq> [] \<Longrightarrow> links (nodes s') (up C) = map_option (retarget (fst (hd C)) (root_of (Node Leaf new Leaf))) (links (nodes s) (up C))"
      using na by (auto simp: s'_def retarget_def links_at)
  qed (use new(4,5,6) in \<open>auto simp: s'_def\<close>)
  moreover have "same_attrs s s'"
    using new(1) na ne unfolding same_attrs_def by (auto simp: s'_def attrs_at fun_eq_iff)
  ultimately show ?thesis using run by blast
qed

lemma pico_tree_insert_node_ok:
  assumes ok: "tree_ok s t" and ord: "ordered compare (nodes s) (inorder t)"
    and new: "nodes s new = Some nn" "leftChild nn = LEAF" "rightChild nn = LEAF" "new \<notin> set_tree t" "new \<noteq> LEAF" "new \<noteq> 0"
    and fresh: "\<forall>a \<in> set_tree t. compare (key_of (nodes s) a) (keyValue nn) \<noteq> 0"
  shows "\<exists>s' C. pico_tree_insert_node compare new s = Some s' \<and> t = plug C Leaf \<and> tree_ok s' (plug C (Node Leaf new Leaf)) \<and>
    same_attrs s s' \<and> ordered compare (nodes s') (inorder (plug C (Node Leaf new Leaf)))"
proof -
  let ?k = "key_of (nodes s)"
  have "ptree (nodes s) LEAF t" "LEAF \<notin> set_tree t" using ok by (simp_all add: tree_ok_def)
  from insert_place_ok [OF this ord new(1) refl fresh, of "[]"] obtain C where C: "plug C Leaf = t"
    "insert_place compare s new (root_of t) LEAF = Some (up C)" "\<forall>a \<in> set (before C). compare (?k a) (keyValue nn) < 0"
    "\<forall>a \<in> set (after C). compare (keyValue nn) (?k a) < 0" "C \<noteq> [] \<longrightarrow> fst (hd C) = (compare (keyValue nn) (?k (up C)) < 0)"
    by auto
  from ok C(1,2) have "tree_ok s (plug C Leaf)" "insert_place compare s new (root s) LEAF = Some (up C)" by (auto simp: tree_ok_def)
  from insert_at_place [OF this(1) new(1,2,3) _ new(5,6) this(2)] C(1,5) new(4) obtain s' where s':
    "pico_tree_insert_node compare new s = Some s'" "tree_ok s' (plug C (Node Leaf new Leaf))" "same_attrs s s'" by auto
  have "ordered compare (nodes s) (before C @ after C)" using ord C(1) inorder_plug [of C Leaf] by simp
  then have "ordered compare (nodes s') (inorder (plug C (Node Leaf new Leaf)))"
    using C(3,4) new(1) by (auto simp: ordered_def sorted_wrt_append same_attrs_key_of [OF s'(3)] key_of_def [of _ new])
  with s' C(1) show ?thesis by blast
qed

end

end
