(* ===== verification/Pico_Tree_Insert.thy ===== *)
theory Pico_Tree_Insert
  imports Pico_Tree_Search "HOL-Library.Multiset"
begin

text \<open>
  Insertion into the tree: the loop that repairs the colours ends, keeps the in-order list of nodes, and keeps the tree balanced if it was.
\<close>

section \<open>Reading and colouring nodes\<close>

lemma plug_not_Leaf: "plug C (Node l x r) \<noteq> Leaf"
proof
  assume "plug C (Node l x r) = Leaf"
  then have "set_tree (plug C (Node l x r)) = {}" by simp
  then show False by simp
qed

text \<open>The pointers of a tree as facts on \<open>rd\<close>.\<close>

lemma ptree_rd:
  "ptree (nodes s) p (Node l a r) \<longleftrightarrow> rd parent s a = Some p \<and> rd leftChild s a = Some (root_of l) \<and> rd rightChild s a = Some (root_of r) \<and>
     ptree (nodes s) a l \<and> ptree (nodes s) a r"
  by (auto simp: rd_def)

lemma tree_ok_dom:
  assumes "tree_ok s t" and "a \<in> set_tree t \<or> a = LEAF"
  shows "\<exists>n. nodes s a = Some n"
proof (cases "a = LEAF")
  case False
  with assms(2) obtain C l r where "t = plug C (Node l a r)" using plug_split by blast
  with assms(1) tree_ok_at(1) [of s C "Node l a r"] show ?thesis by auto
qed (use assms(1) in \<open>auto simp: tree_ok_def leaf_ok_def\<close>)

lemma rd_color: "tree_ok s t \<Longrightarrow> a \<in> set_tree t \<or> a = LEAF \<Longrightarrow> rd color s a = Some (col (nodes s) a)"
  using tree_ok_dom [of s t a] by (auto simp: rd_def col_def)

lemma rd_LEAF: "tree_ok s t \<Longrightarrow> rd parent s LEAF = Some LEAF \<and> rd leftChild s LEAF = Some LEAF \<and> rd rightChild s LEAF = Some LEAF"
  by (auto simp: tree_ok_def leaf_ok_def rd_def)

text \<open>What every step of the repair keeps.\<close>

definition keeps :: "pico_tree \<Rightarrow> pico_tree \<Rightarrow> bool" where
  "keeps s s' \<longleftrightarrow> key_of (nodes s') = key_of (nodes s) \<and> dom (nodes s') = dom (nodes s) \<and> pico_err s' = pico_err s"

lemma keeps_refl [simp]: "keeps s s"
  by (simp add: keeps_def)

lemma keeps_trans: "keeps s s' \<Longrightarrow> keeps s' s'' \<Longrightarrow> keeps s s''"
  by (simp add: keeps_def)

lemma same_attrs_keeps: "same_attrs s s' \<Longrightarrow> keeps s s'"
proof -
  assume a: "same_attrs s s'"
  have "nodes s' a = None \<longleftrightarrow> nodes s a = None" for a
    using a unfolding same_attrs_def by (metis attrs_def option.map_disc_iff)
  then have "dom (nodes s') = dom (nodes s)" by (simp add: dom_def)
  then show "keeps s s'" using a same_attrs_key_of [OF a] by (simp add: keeps_def same_attrs_def)
qed

lemma wr_color:
  assumes "tree_ok s t" and "a \<in> set_tree t \<or> a = LEAF"
  shows "\<exists>s'. wr (set_color c) a s = Some s' \<and> tree_ok s' t \<and> keeps s s' \<and> col (nodes s') = (col (nodes s))(a := c) \<and> root s' = root s"
proof -
  from tree_ok_dom [OF assms] obtain n where n: "nodes s a = Some n" by blast
  define s' where "s' = s\<lparr>nodes := (nodes s)(a \<mapsto> set_color c n)\<rparr>"
  have "links (nodes s') = links (nodes s)" using n by (auto simp: s'_def links_at)
  then have "tree_ok s' t" by (rule tree_ok_links [OF assms(1)]) (simp add: s'_def)
  moreover have "keeps s s'" using n by (auto simp: keeps_def s'_def key_of_def fun_eq_iff)
  moreover have "col (nodes s') = (col (nodes s))(a := c)" by (auto simp: s'_def col_def fun_eq_iff)
  ultimately show ?thesis using n by (simp add: wr_def s'_def)
qed

section \<open>Balanced trees\<close>

fun black :: "(u64 \<Rightarrow> node_color) \<Rightarrow> u64 tree \<Rightarrow> bool" where
  "black c Leaf = True"
| "black c (Node l a r) = (c a = BLACK)"

text \<open>No red node has a red child, and every path down passes \<open>n\<close> black nodes.\<close>

fun rb :: "(u64 \<Rightarrow> node_color) \<Rightarrow> nat \<Rightarrow> u64 tree \<Rightarrow> bool" where
  "rb c n Leaf = (n = 0)"
| "rb c n (Node l a r) = (if c a = BLACK then n > 0 \<and> rb c (n - 1) l \<and> rb c (n - 1) r
     else rb c n l \<and> rb c n r \<and> black c l \<and> black c r)"

fun rbctx :: "(u64 \<Rightarrow> node_color) \<Rightarrow> nat \<Rightarrow> frame list \<Rightarrow> bool" where
  "rbctx c n [] = True"
| "rbctx c n ((b, a, s) # C) = (rb c n s \<and>
     (if c a = BLACK then rbctx c (Suc n) C else black c s \<and> (C \<noteq> [] \<longrightarrow> c (up C) = BLACK) \<and> rbctx c n C))"

lemma black_cong: "\<forall>a \<in> set_tree t. c a = c' a \<Longrightarrow> black c t = black c' t"
  by (cases t) auto

lemma rb_cong: "\<forall>a \<in> set_tree t. c a = c' a \<Longrightarrow> rb c n t = rb c' n t"
proof (induction t arbitrary: n)
  case (Node l a r)
  then have "rb c m l = rb c' m l" "rb c m r = rb c' m r" for m by auto
  moreover have "black c l = black c' l" "black c r = black c' r" using Node.prems black_cong [of l c c'] black_cong [of r c c'] by auto
  ultimately show ?case using Node.prems by simp
qed simp

lemma rbctx_cong: "\<forall>a \<in> set (before C) \<union> set (after C). c a = c' a \<Longrightarrow> rbctx c n C = rbctx c' n C"
proof (induction C arbitrary: n)
  case (Cons f C)
  obtain b a s where f: "f = (b, a, s)" by (cases f)
  have "\<forall>x \<in> set_tree s. c x = c' x" "c a = c' a" "\<forall>x \<in> set (before C) \<union> set (after C). c x = c' x"
    using Cons.prems by (auto simp: f split: if_splits)
  moreover from this(3) have "C \<noteq> [] \<Longrightarrow> c (up C) = c' (up C)" using up_in by blast
  ultimately show ?case using Cons.IH rb_cong [of s c c'] black_cong [of s c c'] by (simp add: f)
qed simp

lemma rb_plug:
  assumes "rb c n t" and "rbctx c n C" and "C \<noteq> [] \<Longrightarrow> black c t \<or> c (up C) = BLACK"
  shows "\<exists>m. rb c m (plug C t)"
  using assms
proof (induction C arbitrary: t n)
  case (Cons f C)
  obtain b a s where f: "f = (b, a, s)" by (cases f)
  show ?case
  proof (cases "c a")
    case RED
    with Cons.prems have "rb c n (if b then Node t a s else Node s a t)" by (auto simp: f)
    with Cons.IH [of n "if b then Node t a s else Node s a t"] Cons.prems(2) RED show ?thesis by (auto simp: f)
  next
    case BLACK
    with Cons.prems have "rb c (Suc n) (if b then Node t a s else Node s a t)" by (auto simp: f)
    with Cons.IH [of "Suc n" "if b then Node t a s else Node s a t"] Cons.prems(2) BLACK show ?thesis by (auto simp: f)
  qed
qed auto

lemma rb_paint:
  assumes "rb c n t" and "t \<noteq> Leaf" and "distinct (inorder t)"
  shows "\<exists>m. rb (c(root_of t := BLACK)) m t"
proof (cases t)
  case (Node l a r)
  with assms(3) have "\<forall>x \<in> set_tree l. c x = (c(a := BLACK)) x" "\<forall>x \<in> set_tree r. c x = (c(a := BLACK)) x" by auto
  then have "rb (c(a := BLACK)) m l = rb c m l" "rb (c(a := BLACK)) m r = rb c m r" for m
    using rb_cong [of l c "c(a := BLACK)"] rb_cong [of r c "c(a := BLACK)"] by auto
  with assms(1) Node show ?thesis by (intro exI [of _ "if c a = BLACK then n else Suc n"]) auto
qed (use assms in simp)

section \<open>One iteration of the repair\<close>

lemma rd_wr_color: "wr (set_color c) a s = Some s' \<Longrightarrow> rd parent s' = rd parent s \<and> rd leftChild s' = rd leftChild s \<and> rd rightChild s' = rd rightChild s"
  by (auto simp: wr_def rd_def fun_eq_iff elim!: bind_SomeE)

text \<open>The uncle is red: colours move up.\<close>

lemma recolor_ok:
  assumes ok: "tree_ok s t" and "p \<in> set_tree t \<or> p = LEAF" "q \<in> set_tree t \<or> q = LEAF" "g \<in> set_tree t \<or> g = LEAF"
    and "rd parent s x = Some p" and "rd parent s p = Some g"
  shows "\<exists>s'. (do { s \<leftarrow> wr (set_color BLACK) p s; s \<leftarrow> wr (set_color BLACK) q s; g \<leftarrow> GRANPA s x;
      s \<leftarrow> wr (set_color RED) g s; g \<leftarrow> GRANPA s x; Some (g, s) }) = Some (g, s') \<and>
    tree_ok s' t \<and> keeps s s' \<and> col (nodes s') = (col (nodes s))(p := BLACK, q := BLACK, g := RED)"
proof -
  obtain s1 where s1: "wr (set_color BLACK) p s = Some s1" "tree_ok s1 t" "keeps s s1" "col (nodes s1) = (col (nodes s))(p := BLACK)"
    using wr_color [OF ok assms(2)] by blast
  obtain s2 where s2: "wr (set_color BLACK) q s1 = Some s2" "tree_ok s2 t" "keeps s1 s2" "col (nodes s2) = (col (nodes s1))(q := BLACK)"
    using wr_color [OF s1(2) assms(3)] by blast
  obtain s3 where s3: "wr (set_color RED) g s2 = Some s3" "tree_ok s3 t" "keeps s2 s3" "col (nodes s3) = (col (nodes s2))(g := RED)"
    using wr_color [OF s2(2) assms(4)] by blast
  have "GRANPA s2 x = Some g" "GRANPA s3 x = Some g"
    using assms(5,6) rd_wr_color [OF s1(1)] rd_wr_color [OF s2(1)] rd_wr_color [OF s3(1)] by (simp_all add: GRANPA_def)
  with s1 s2 s3 show ?thesis by (auto intro: keeps_trans)
qed

text \<open>The uncle is black: the parent and the grandparent change colours, and the tree is rotated at the grandparent.\<close>

lemma rotate_left_ok:
  assumes ok: "tree_ok s (plug C (Node v g (Node u p w)))" and "rd parent s x = Some p"
  shows "\<exists>s'. (do { p \<leftarrow> rd parent s x; s \<leftarrow> wr (set_color BLACK) p s; g \<leftarrow> GRANPA s x; s \<leftarrow> wr (set_color RED) g s; g \<leftarrow> GRANPA s x;
      s \<leftarrow> rotateToLeft s g; Some (x, s) }) = Some (x, s') \<and>
    tree_ok s' (plug C (Node (Node v g u) p w)) \<and> keeps s s' \<and> col (nodes s') = (col (nodes s))(p := BLACK, g := RED)"
proof -
  let ?t = "plug C (Node v g (Node u p w))"
  obtain s1 where s1: "wr (set_color BLACK) p s = Some s1" "tree_ok s1 ?t" "keeps s s1" "col (nodes s1) = (col (nodes s))(p := BLACK)"
    using wr_color [OF ok, of p BLACK] by auto
  obtain s2 where s2: "wr (set_color RED) g s1 = Some s2" "tree_ok s2 ?t" "keeps s1 s2" "col (nodes s2) = (col (nodes s1))(g := RED)"
    using wr_color [OF s1(2), of g RED] by auto
  obtain s3 where s3: "rotateToLeft s2 g = Some s3" "tree_ok s3 (plug C (Node (Node v g u) p w))" "same_attrs s2 s3"
    using rotateToLeft_ok [OF s2(2)] by blast
  have "rd parent s p = Some g" using tree_ok_at(1) [OF ok] by (simp add: ptree_rd del: ptree.simps(2))
  then have "GRANPA s1 x = Some g" "GRANPA s2 x = Some g"
    using assms(2) rd_wr_color [OF s1(1)] rd_wr_color [OF s2(1)] by (simp_all add: GRANPA_def)
  with assms(2) s1 s2 s3 same_attrs_keeps [OF s3(3)] same_attrs_col [OF s3(3)] show ?thesis by (auto intro: keeps_trans)
qed

lemma rotate_right_ok:
  assumes ok: "tree_ok s (plug C (Node (Node w p u) g v))" and "rd parent s x = Some p"
  shows "\<exists>s'. (do { p \<leftarrow> rd parent s x; s \<leftarrow> wr (set_color BLACK) p s; g \<leftarrow> GRANPA s x; s \<leftarrow> wr (set_color RED) g s; g \<leftarrow> GRANPA s x;
      s \<leftarrow> rotateToRight s g; Some (x, s) }) = Some (x, s') \<and>
    tree_ok s' (plug C (Node w p (Node u g v))) \<and> keeps s s' \<and> col (nodes s') = (col (nodes s))(p := BLACK, g := RED)"
proof -
  let ?t = "plug C (Node (Node w p u) g v)"
  obtain s1 where s1: "wr (set_color BLACK) p s = Some s1" "tree_ok s1 ?t" "keeps s s1" "col (nodes s1) = (col (nodes s))(p := BLACK)"
    using wr_color [OF ok, of p BLACK] by auto
  obtain s2 where s2: "wr (set_color RED) g s1 = Some s2" "tree_ok s2 ?t" "keeps s1 s2" "col (nodes s2) = (col (nodes s1))(g := RED)"
    using wr_color [OF s1(2), of g RED] by auto
  obtain s3 where s3: "rotateToRight s2 g = Some s3" "tree_ok s3 (plug C (Node w p (Node u g v)))" "same_attrs s2 s3"
    using rotateToRight_ok [OF s2(2)] by blast
  have "rd parent s p = Some g" using tree_ok_at(1) [OF ok] by (simp add: ptree_rd del: ptree.simps(2))
  then have "GRANPA s1 x = Some g" "GRANPA s2 x = Some g"
    using assms(2) rd_wr_color [OF s1(1)] rd_wr_color [OF s2(1)] by (simp_all add: GRANPA_def)
  with assms(2) s1 s2 s3 same_attrs_keeps [OF s3(3)] same_attrs_col [OF s3(3)] show ?thesis by (auto intro: keeps_trans)
qed

lemma fix_insert_right_ok:
  assumes ok: "tree_ok s (plug ((b, p, u) # (False, g, v) # C) (Node l x r))"
  shows "\<exists>x' s' t'. fix_insert_right x s = Some (x', s') \<and> tree_ok s' t' \<and> keeps s s' \<and>
    (if col (nodes s) (root_of v) = RED
     then x' = g \<and> t' = plug ((b, p, u) # (False, g, v) # C) (Node l x r) \<and> col (nodes s') = (col (nodes s))(p := BLACK, root_of v := BLACK, g := RED)
     else if b then x' = p \<and> t' = plug C (Node (Node v g l) x (Node r p u)) \<and> col (nodes s') = (col (nodes s))(x := BLACK, g := RED)
     else x' = x \<and> t' = plug C (Node (Node v g u) p (Node l x r)) \<and> col (nodes s') = (col (nodes s))(p := BLACK, g := RED))"
proof -
  let ?q = "if b then Node (Node l x r) p u else Node u p (Node l x r)"
  have okq: "tree_ok s (plug C (Node v g ?q))" using ok by simp
  note rds = tree_ok_at(1) [OF okq] rd_color [OF ok]
  have par: "rd parent s x = Some p" "rd parent s p = Some g" "rd leftChild s g = Some (root_of v)"
    using rds(1) by (cases b; simp add: ptree_rd del: ptree.simps(2))+
  have in_v: "root_of v \<in> set_tree (plug ((b, p, u) # (False, g, v) # C) (Node l x r)) \<or> root_of v = LEAF"
    using root_of_in [of v] by (cases "v = Leaf") auto
  have start: "GRANPA s x = Some g" "rd color s (root_of v) = Some (col (nodes s) (root_of v))" using par rd_color [OF ok in_v] by (simp_all add: GRANPA_def)
  have left: "AM_I_LEFT_CHILD s x = Some b"
  proof -
    have "root_of u \<noteq> x" using tree_ok_at(3,4) [OF okq] root_of_in [of u] by (cases "u = Leaf"; cases b) auto
    then show ?thesis using rds(1) by (cases b; simp add: AM_I_LEFT_CHILD_def ptree_rd del: ptree.simps(2))
  qed
  consider (red) "col (nodes s) (root_of v) = RED" | (inner) "col (nodes s) (root_of v) \<noteq> RED" b | (outer) "col (nodes s) (root_of v) \<noteq> RED" "\<not> b" by blast
  then show ?thesis
  proof cases
    case red
    have "p \<in> set_tree (plug C (Node v g ?q))" "g \<in> set_tree (plug C (Node v g ?q))" by auto
    with recolor_ok [OF ok _ in_v, of p g x] par red start show ?thesis by (auto simp: fix_insert_right_def)
  next
    case inner
    have "tree_ok s (plug ((False, g, v) # C) (Node (Node l x r) p u))" using okq inner by simp
    from rotateToRight_ok [OF this] obtain s1 where s1: "rotateToRight s p = Some s1" "tree_ok s1 (plug C (Node v g (Node l x (Node r p u))))" "same_attrs s s1"
      by auto
    have "rd parent s1 p = Some x" using tree_ok_at(1) [OF s1(2)] by (simp add: ptree_rd del: ptree.simps(2))
    from rotate_left_ok [OF s1(2) this] same_attrs_keeps [OF s1(3)] same_attrs_col [OF s1(3)] show ?thesis
      using inner start left par s1(1) by (auto simp: fix_insert_right_def intro: keeps_trans)
  next
    case outer
    have "tree_ok s (plug C (Node v g (Node u p (Node l x r))))" using okq outer by simp
    from rotate_left_ok [OF this par(1)] show ?thesis using outer start left par by (auto simp: fix_insert_right_def)
  qed
qed

lemma fix_insert_left_ok:
  assumes ok: "tree_ok s (plug ((b, p, u) # (True, g, v) # C) (Node l x r))"
  shows "\<exists>x' s' t'. fix_insert_left x s = Some (x', s') \<and> tree_ok s' t' \<and> keeps s s' \<and>
    (if col (nodes s) (root_of v) = RED
     then x' = g \<and> t' = plug ((b, p, u) # (True, g, v) # C) (Node l x r) \<and> col (nodes s') = (col (nodes s))(p := BLACK, root_of v := BLACK, g := RED)
     else if b then x' = x \<and> t' = plug C (Node (Node l x r) p (Node u g v)) \<and> col (nodes s') = (col (nodes s))(p := BLACK, g := RED)
     else x' = p \<and> t' = plug C (Node (Node u p l) x (Node r g v)) \<and> col (nodes s') = (col (nodes s))(x := BLACK, g := RED))"
proof -
  let ?q = "if b then Node (Node l x r) p u else Node u p (Node l x r)"
  have okq: "tree_ok s (plug C (Node ?q g v))" using ok by simp
  note rds = tree_ok_at(1) [OF okq] rd_color [OF ok]
  have par: "rd parent s x = Some p" "rd parent s p = Some g" "rd rightChild s g = Some (root_of v)"
    using rds(1) by (cases b; simp add: ptree_rd del: ptree.simps(2))+
  have in_v: "root_of v \<in> set_tree (plug ((b, p, u) # (True, g, v) # C) (Node l x r)) \<or> root_of v = LEAF"
    using root_of_in [of v] by (cases "v = Leaf") auto
  have start: "GRANPA s x = Some g" "rd color s (root_of v) = Some (col (nodes s) (root_of v))" using par rd_color [OF ok in_v] by (simp_all add: GRANPA_def)
  have right: "AM_I_RIGHT_CHILD s x = Some (\<not> b)"
  proof -
    have "root_of u \<noteq> x" using tree_ok_at(3,4) [OF okq] root_of_in [of u] by (cases "u = Leaf"; cases b) auto
    then show ?thesis using rds(1) by (cases b; simp add: AM_I_RIGHT_CHILD_def ptree_rd del: ptree.simps(2))
  qed
  consider (red) "col (nodes s) (root_of v) = RED" | (inner) "col (nodes s) (root_of v) \<noteq> RED" "\<not> b" | (outer) "col (nodes s) (root_of v) \<noteq> RED" b by blast
  then show ?thesis
  proof cases
    case red
    have "p \<in> set_tree (plug C (Node ?q g v))" "g \<in> set_tree (plug C (Node ?q g v))" by auto
    with recolor_ok [OF ok _ in_v, of p g x] par red start show ?thesis by (auto simp: fix_insert_left_def)
  next
    case inner
    have "tree_ok s (plug ((True, g, v) # C) (Node u p (Node l x r)))" using okq inner by simp
    from rotateToLeft_ok [OF this] obtain s1 where s1: "rotateToLeft s p = Some s1" "tree_ok s1 (plug C (Node (Node (Node u p l) x r) g v))" "same_attrs s s1"
      by auto
    have "rd parent s1 p = Some x" using tree_ok_at(1) [OF s1(2)] by (simp add: ptree_rd del: ptree.simps(2))
    from rotate_right_ok [OF s1(2) this] same_attrs_keeps [OF s1(3)] same_attrs_col [OF s1(3)] show ?thesis
      using inner start right par s1(1) by (auto simp: fix_insert_left_def intro: keeps_trans)
  next
    case outer
    have "tree_ok s (plug C (Node (Node (Node l x r) p u) g v))" using okq outer by simp
    from rotate_right_ok [OF this par(1)] show ?thesis using outer start right par by (auto simp: fix_insert_left_def)
  qed
qed

section \<open>The loop\<close>

lemma fix_insert_loop_exit:
  assumes "rd parent s x = Some p" and "rd color s p = Some c" and "rd parent s p = Some g" and "c \<noteq> RED \<or> g = LEAF"
  shows "fix_insert_loop x s = Some s"
  using assms by (subst fix_insert_loop.simps) auto

text \<open>The tree before an iteration: balanced, but for the red node and its parent.\<close>

definition almost_rb :: "node_heap \<Rightarrow> frame list \<Rightarrow> u64 tree \<Rightarrow> u64 \<Rightarrow> u64 tree \<Rightarrow> bool" where
  "almost_rb h C l x r \<longleftrightarrow> col h LEAF = BLACK \<and> col h x = RED \<and> black (col h) l \<and> black (col h) r \<and>
     (\<exists>n. rb (col h) n l \<and> rb (col h) n r \<and> rbctx (col h) n C)"

definition rb_but_root :: "node_heap \<Rightarrow> u64 tree \<Rightarrow> bool" where
  "rb_but_root h t \<longleftrightarrow> col h LEAF = BLACK \<and> (\<exists>n. rb ((col h)(root_of t := BLACK)) n t)"

lemma almost_rb_done:
  assumes "almost_rb h C l x r" and "distinct (inorder (plug C (Node l x r)))" and "C \<noteq> [] \<Longrightarrow> col h (up C) = BLACK"
  shows "rb_but_root h (plug C (Node l x r))"
proof -
  from assms(1) obtain n where "rb (col h) n (Node l x r)" "rbctx (col h) n C" by (auto simp: almost_rb_def)
  from rb_plug [OF this] assms(3) obtain m where "rb (col h) m (plug C (Node l x r))" by blast
  moreover have "plug C (Node l x r) \<noteq> Leaf" by (rule plug_not_Leaf)
  ultimately show ?thesis using rb_paint assms(1,2) by (auto simp: rb_but_root_def almost_rb_def)
qed

lemma almost_rb_root:
  assumes "almost_rb h [(b, p, u)] l x r" and "distinct (inorder (plug [(b, p, u)] (Node l x r)))"
  shows "rb_but_root h (plug [(b, p, u)] (Node l x r))"
proof -
  from assms(1) obtain n where n: "rb (col h) n (Node l x r)" "rb (col h) n u" by (auto simp: almost_rb_def)
  let ?c = "(col h)(p := BLACK)"
  have "\<forall>a \<in> set_tree (Node l x r). col h a = ?c a" "\<forall>a \<in> set_tree u. col h a = ?c a" using assms(2) by (cases b; auto)+
  with n rb_cong [of "Node l x r" "col h" ?c] rb_cong [of u "col h" ?c] have "rb ?c n (Node l x r)" "rb ?c n u" by blast+
  then have "rb ?c (Suc n) (plug [(b, p, u)] (Node l x r))" by (cases b) (simp_all del: rb.simps, simp_all)
  with assms(1) show ?thesis by (cases b) (auto simp: rb_but_root_def almost_rb_def)
qed

lemma almost_rbE:
  assumes "almost_rb h ((b, p, u) # (d, g, v) # C) l x r" and "col h p = RED"
  obtains n where "rb (col h) n l" "rb (col h) n r" "rb (col h) n u" "rb (col h) n v" "black (col h) l" "black (col h) r" "black (col h) u"
    "col h x = RED" "col h g = BLACK" "rbctx (col h) (Suc n) C" "col h LEAF = BLACK"
  using assms by (auto simp: almost_rb_def)

text \<open>After colours moved up, the grandparent is the red node.\<close>

lemma almost_rb_up:
  assumes al: "almost_rb h ((b, p, u) # (d, g, v) # C) l x r" and red: "col h p = RED" "col h (root_of v) = RED"
    and c: "col h' = (col h)(p := BLACK, root_of v := BLACK, g := RED)"
    and P: "P = (if b then Node (Node l x r) p u else Node u p (Node l x r))"
    and dis: "distinct (inorder (plug C (Node P g v)))" "LEAF \<notin> set_tree (plug C (Node P g v))"
  shows "almost_rb h' C P g v" "almost_rb h' C v g P"
proof -
  from al red(1) obtain n where n: "rb (col h) n l" "rb (col h) n r" "rb (col h) n u" "rb (col h) n v" "black (col h) l" "black (col h) r" "black (col h) u"
    "col h x = RED" "col h g = BLACK" "rbctx (col h) (Suc n) C" "col h LEAF = BLACK" by (rule almost_rbE)
  obtain vl a vr where v: "v = Node vl a vr" using red(2) n(11) by (cases v) auto
  have ne: "x \<noteq> p" "x \<noteq> a" "x \<noteq> g" "p \<noteq> a" "p \<noteq> g" "a \<noteq> g" "LEAF \<noteq> p" "LEAF \<noteq> a" "LEAF \<noteq> g"
    using dis by (cases b; auto simp: P v)+
  have same: "col h' y = col h y" if "y \<in> set_tree l \<union> set_tree r \<union> set_tree u \<union> set_tree vl \<union> set_tree vr \<union> set (before C) \<union> set (after C)" for y
    using that dis by (cases b) (auto simp: P v c)
  have sub: "rb (col h') n l" "rb (col h') n r" "rb (col h') n u" "rb (col h') n vl" "rb (col h') n vr" "black (col h') l" "black (col h') r" "rbctx (col h') (Suc n) C"
    using n red(2) same rb_cong [of l "col h" "col h'"] rb_cong [of r "col h" "col h'"] rb_cong [of u "col h" "col h'"]
      rb_cong [of vl "col h" "col h'"] rb_cong [of vr "col h" "col h'"] black_cong [of l "col h" "col h'"] black_cong [of r "col h" "col h'"]
      rbctx_cong [of C "col h" "col h'"] by (simp_all add: v)
  have "rb (col h') (Suc n) P" "black (col h') P" "rb (col h') (Suc n) v" "black (col h') v" "col h' g = RED" "col h' LEAF = BLACK"
    using sub n(8,11) ne by (simp_all add: P v c)
  with sub(8) show "almost_rb h' C P g v" "almost_rb h' C v g P" by (auto simp: almost_rb_def)
qed

text \<open>After a rotation the tree is balanced.\<close>

lemma rotated_rb:
  assumes "rb c n A" "rb c n B" "rb c n D" "rb c n E" "black c A" "black c B" "black c D" "black c E" "rbctx c (Suc n) C"
    and same: "\<forall>a \<in> set_tree A \<union> set_tree B \<union> set_tree D \<union> set_tree E \<union> set (before C) \<union> set (after C). c a = col h a"
    and new: "col h y = RED" "col h z = BLACK" "col h w = RED" "col h LEAF = BLACK"
    and dis: "distinct (inorder (plug C (Node (Node A y B) z (Node D w E))))"
  shows "rb_but_root h (plug C (Node (Node A y B) z (Node D w E)))"
proof -
  have "rb (col h) n A" "rb (col h) n B" "rb (col h) n D" "rb (col h) n E" "black (col h) A" "black (col h) B" "black (col h) D" "black (col h) E" "rbctx (col h) (Suc n) C"
    using assms(1-9) same rb_cong [of A c "col h"] rb_cong [of B c "col h"] rb_cong [of D c "col h"] rb_cong [of E c "col h"]
      black_cong [of A c "col h"] black_cong [of B c "col h"] black_cong [of D c "col h"] black_cong [of E c "col h"] rbctx_cong [of C c "col h"]
    by simp_all
  with new have "rb (col h) (Suc n) (Node (Node A y B) z (Node D w E))" "rbctx (col h) (Suc n) C" by simp_all
  from rb_plug [OF this] new(2) obtain m where "rb (col h) m (plug C (Node (Node A y B) z (Node D w E)))" by auto
  with new(4) dis rb_paint plug_not_Leaf show ?thesis by (auto simp: rb_but_root_def)
qed

text \<open>The result of an iteration: the repair goes on at the grandparent, or it is done. \<open>al\<close> tells that the tree was almost balanced before.\<close>

definition insert_goes_on :: "frame list \<Rightarrow> u64 tree \<Rightarrow> u64 \<Rightarrow> bool \<Rightarrow> pico_tree \<Rightarrow> bool" where
  "insert_goes_on C t x al s' \<longleftrightarrow> (\<exists>L R. tree_ok s' (plug C (Node L x R)) \<and> inorder (plug C (Node L x R)) = inorder t \<and>
     (al \<longrightarrow> almost_rb (nodes s') C L x R))"

definition insert_done :: "u64 tree \<Rightarrow> u64 \<Rightarrow> bool \<Rightarrow> pico_tree \<Rightarrow> bool" where
  "insert_done t x al s' \<longleftrightarrow> fix_insert_loop x s' = Some s' \<and> (\<exists>t'. tree_ok s' t' \<and> inorder t' = inorder t \<and> (al \<longrightarrow> rb_but_root (nodes s') t'))"

lemma recolored_goes_on:
  assumes ok: "tree_ok s' t" and t: "t = plug C (if d then Node P g v else Node v g P)"
    and P: "P = (if b then Node (Node l x r) p u else Node u p (Node l x r))"
    and al: "al \<longrightarrow> almost_rb h ((b, p, u) # (d, g, v) # C) l x r" and red: "col h p = RED" "col h (root_of v) = RED"
    and c: "col (nodes s') = (col h)(p := BLACK, root_of v := BLACK, g := RED)"
  shows "insert_goes_on C t g al s'"
proof -
  have "mset (inorder (plug C (Node P g v))) = mset (inorder t)" by (simp add: t)
  then have "distinct (inorder (plug C (Node P g v)))" "LEAF \<notin> set_tree (plug C (Node P g v))"
    using ok mset_eq_imp_distinct_iff [of "inorder (plug C (Node P g v))"] by (auto simp: tree_ok_def t split: if_splits)
  with almost_rb_up [OF _ red c P] al have "al \<longrightarrow> almost_rb (nodes s') C P g v \<and> almost_rb (nodes s') C v g P" by blast
  with ok show ?thesis unfolding insert_goes_on_def t by (cases d) (auto simp del: inorder_plug intro: exI)
qed

lemma rotated_done:
  assumes ok: "tree_ok s' (plug C (Node (Node A y B) z (Node D w E)))" and io: "inorder (plug C (Node (Node A y B) z (Node D w E))) = inorder t"
    and x: "x = y \<or> x = w" and al: "al \<longrightarrow> almost_rb h ((b, p, u) # (d, g, v) # C) l q r" and red: "col h p = RED" "col h (root_of v) \<noteq> RED"
    and c: "col (nodes s') = (col h)(z := BLACK, g := RED)" and parts: "{A, B, D, E} = {l, r, u, v}" "{y, z, w} = {p, q, g}" "z \<noteq> g"
  shows "insert_done t x al s'"
proof -
  let ?T = "plug C (Node (Node A y B) z (Node D w E))"
  note at = tree_ok_at [OF ok]
  have z: "col (nodes s') z = BLACK" using parts(3) by (simp add: c)
  have "rd parent s' x = Some z" "rd parent s' z = Some (up C)" using at(1) x by (auto simp: ptree_rd simp del: ptree.simps(2))
  moreover have "rd color s' z = Some BLACK" using rd_color [OF ok, of z] z by simp
  ultimately have exit: "fix_insert_loop x s' = Some s'" using fix_insert_loop_exit by blast
  have "al \<longrightarrow> rb_but_root (nodes s') ?T"
  proof
    assume al
    with al have "almost_rb h ((b, p, u) # (d, g, v) # C) l q r" by simp
    then obtain n where n: "rb (col h) n l" "rb (col h) n r" "rb (col h) n u" "rb (col h) n v" "black (col h) l" "black (col h) r" "black (col h) u"
      "col h q = RED" "col h g = BLACK" "rbctx (col h) (Suc n) C" "col h LEAF = BLACK" using red(1) by (rule almost_rbE)
    have "black (col h) v" using red(2) by (cases v) (auto intro: node_color.exhaust)
    with n parts(1) have sub: "\<forall>X \<in> {A, B, D, E}. rb (col h) n X \<and> black (col h) X" by auto
    show "rb_but_root (nodes s') ?T"
    proof (rule rotated_rb [of "col h" n])
      have "z \<notin> set_tree A \<union> set_tree B \<union> set_tree D \<union> set_tree E \<union> set (before C) \<union> set (after C)"
        "y \<notin> set_tree A \<union> set_tree B \<union> set_tree D \<union> set_tree E \<union> set (before C) \<union> set (after C)"
        "w \<notin> set_tree A \<union> set_tree B \<union> set_tree D \<union> set_tree E \<union> set (before C) \<union> set (after C)"
        using at(3) by auto
      moreover have "g \<in> {y, z, w}" using parts(2) by auto
      ultimately show "\<forall>a \<in> set_tree A \<union> set_tree B \<union> set_tree D \<union> set_tree E \<union> set (before C) \<union> set (after C). col h a = col (nodes s') a"
        by (auto simp: c)
      have "y \<noteq> z" "w \<noteq> z" "LEAF \<noteq> z" using at(3,4) by auto
      moreover have "{y, w} \<subseteq> {p, q, g}" using parts(2) by auto
      ultimately show "col (nodes s') y = RED" "col (nodes s') w = RED" using red(1) n(8) by (auto simp: c)
      show "col (nodes s') LEAF = BLACK" using n(11) at(4) parts(2) by (auto simp: c)
      show "distinct (inorder ?T)" using ok by (simp only: tree_ok_def)
    qed (use sub n(10) z in auto)
  qed
  with ok io exit show ?thesis unfolding insert_done_def by blast
qed

lemma fix_insert_step:
  assumes ok: "tree_ok s t" and t: "t = plug ((b, p, u) # (d, g, v) # C) (Node l x r)" and red: "col (nodes s) p = RED"
    and al: "al \<longrightarrow> almost_rb (nodes s) ((b, p, u) # (d, g, v) # C) l x r"
  shows "\<exists>x' s'. (if d then fix_insert_left x s else fix_insert_right x s) = Some (x', s') \<and> keeps s s' \<and>
    (x' = g \<and> insert_goes_on C t g al s' \<or> insert_done t x' al s')"
proof -
  let ?P = "if b then Node (Node l x r) p u else Node u p (Node l x r)"
  have tP: "t = plug C (if d then Node ?P g v else Node v g ?P)" by (simp add: t)
  have "distinct (inorder t)" using ok by (simp add: tree_ok_def)
  then have ne: "x \<noteq> g" "p \<noteq> g" by (auto simp: t split: if_splits)
  show ?thesis
  proof (cases d)
    case True
    with ok t fix_insert_left_ok [of s b p u g v C l x r] obtain x' s' t' where
      run: "fix_insert_left x s = Some (x', s')" "tree_ok s' t'" "keeps s s'"
      and cs: "if col (nodes s) (root_of v) = RED then x' = g \<and> t' = t \<and> col (nodes s') = (col (nodes s))(p := BLACK, root_of v := BLACK, g := RED)
       else if b then x' = x \<and> t' = plug C (Node (Node l x r) p (Node u g v)) \<and> col (nodes s') = (col (nodes s))(p := BLACK, g := RED)
       else x' = p \<and> t' = plug C (Node (Node u p l) x (Node r g v)) \<and> col (nodes s') = (col (nodes s))(x := BLACK, g := RED)" by auto
    consider (red) "col (nodes s) (root_of v) = RED" | (outer) "col (nodes s) (root_of v) \<noteq> RED" b | (inner) "col (nodes s) (root_of v) \<noteq> RED" "\<not> b" by blast
    then have "x' = g \<and> insert_goes_on C t g al s' \<or> insert_done t x' al s'"
    proof cases
      case red
      with cs run(2) recolored_goes_on [OF _ tP refl al \<open>col (nodes s) p = RED\<close> red] show ?thesis by auto
    next
      case outer
      with cs run(2) ne True rotated_done [of s' C l x r p u g v t x' al, OF _ _ _ al \<open>col (nodes s) p = RED\<close> outer(1)] show ?thesis by (auto simp: t)
    next
      case inner
      with cs run(2) ne True rotated_done [of s' C u p l x r g v t x' al, OF _ _ _ al \<open>col (nodes s) p = RED\<close> inner(1)] show ?thesis by (auto simp: t)
    qed
    with run True show ?thesis by auto
  next
    case False
    with ok t fix_insert_right_ok [of s b p u g v C l x r] obtain x' s' t' where
      run: "fix_insert_right x s = Some (x', s')" "tree_ok s' t'" "keeps s s'"
      and cs: "if col (nodes s) (root_of v) = RED then x' = g \<and> t' = t \<and> col (nodes s') = (col (nodes s))(p := BLACK, root_of v := BLACK, g := RED)
       else if b then x' = p \<and> t' = plug C (Node (Node v g l) x (Node r p u)) \<and> col (nodes s') = (col (nodes s))(x := BLACK, g := RED)
       else x' = x \<and> t' = plug C (Node (Node v g u) p (Node l x r)) \<and> col (nodes s') = (col (nodes s))(p := BLACK, g := RED)" by auto
    consider (red) "col (nodes s) (root_of v) = RED" | (inner) "col (nodes s) (root_of v) \<noteq> RED" b | (outer) "col (nodes s) (root_of v) \<noteq> RED" "\<not> b" by blast
    then have "x' = g \<and> insert_goes_on C t g al s' \<or> insert_done t x' al s'"
    proof cases
      case red
      with cs run(2) recolored_goes_on [OF _ tP refl al \<open>col (nodes s) p = RED\<close> red] show ?thesis by auto
    next
      case inner
      with cs run(2) ne False rotated_done [of s' C v g l x r p u t x' al, OF _ _ _ al \<open>col (nodes s) p = RED\<close> inner(1)] show ?thesis by (auto simp: t)
    next
      case outer
      with cs run(2) ne False rotated_done [of s' C v g u p l x r t x' al, OF _ _ _ al \<open>col (nodes s) p = RED\<close> outer(1)] show ?thesis by (auto simp: t)
    qed
    with run False show ?thesis by auto
  qed
qed

text \<open>Reading at the node above a place.\<close>

lemma rd_up:
  assumes ok: "tree_ok s (plug C t)"
  shows "rd parent s (up C) = Some (up (tl C))"
    and "t \<noteq> Leaf \<Longrightarrow> C \<noteq> [] \<Longrightarrow> AM_I_LEFT_CHILD s (root_of t) = Some (fst (hd C)) \<and> AM_I_RIGHT_CHILD s (root_of t) = Some (\<not> fst (hd C))"
proof -
  note at = tree_ok_at [OF ok]
  show "rd parent s (up C) = Some (up (tl C))"
    using at(2) rd_LEAF [OF ok] by (cases C) (auto simp: rd_def)
  assume t: "t \<noteq> Leaf" and C: "C \<noteq> []"
  obtain n where n: "nodes s (up C) = Some n" using pctx_up [OF at(2) C] by blast
  have "rd parent s (root_of t) = Some (up C)" using ptree_root [OF at(1) t] by (auto simp: rd_def)
  moreover have "root_of t \<notin> set (before C) \<union> set (after C)" "root_of t \<noteq> LEAF" using root_of_in [OF t] at(3,4) by auto
  ultimately show "AM_I_LEFT_CHILD s (root_of t) = Some (fst (hd C)) \<and> AM_I_RIGHT_CHILD s (root_of t) = Some (\<not> fst (hd C))"
    using n pctx_other [OF at(2) C n] by (auto simp: AM_I_LEFT_CHILD_def AM_I_RIGHT_CHILD_def rd_def)
qed

lemma fix_insert_loop_ok:
  assumes "tree_ok s t" and "t = plug C (Node l x r)" and "al \<longrightarrow> almost_rb (nodes s) C l x r"
  shows "\<exists>s' t'. fix_insert_loop x s = Some s' \<and> tree_ok s' t' \<and> inorder t' = inorder t \<and> keeps s s' \<and> (al \<longrightarrow> rb_but_root (nodes s') t')"
  using assms
proof (induction "length C" arbitrary: C l x r s t rule: less_induct)
  case less
  note ok = less.prems(1) [unfolded less.prems(2)]
  have p: "rd parent s x = Some (up C)" using tree_ok_at(1) [OF ok] by (simp add: ptree_rd del: ptree.simps(2))
  have c: "rd color s (up C) = Some (col (nodes s) (up C))" using rd_color [OF ok, of "up C"] up_in [of C] by (cases "C = []") auto
  have dis: "distinct (inorder (plug C (Node l x r)))" using ok by (simp only: tree_ok_def)
  show ?case
  proof (cases "\<exists>b p u d g v C'. C = (b, p, u) # (d, g, v) # C' \<and> col (nodes s) p = RED")
    case True
    then obtain b p u d g v C' where C: "C = (b, p, u) # (d, g, v) # C'" "col (nodes s) p = RED" by blast
    have pg: "rd parent s p = Some g" "g \<noteq> LEAF" "AM_I_RIGHT_CHILD s p = Some (\<not> d)" "AM_I_LEFT_CHILD s p = Some d"
    proof -
      have "tree_ok s (plug ((d, g, v) # C') (if b then Node (Node l x r) p u else Node u p (Node l x r)))" using ok by (simp add: C(1))
      from rd_up(2) [OF this] show "AM_I_RIGHT_CHILD s p = Some (\<not> d)" "AM_I_LEFT_CHILD s p = Some d" by (cases b; simp)+
      show "rd parent s p = Some g" "g \<noteq> LEAF" using rd_up(1) [OF ok] tree_ok_at(4) [OF ok] by (auto simp: C(1) split: if_splits)
    qed
    from fix_insert_step [OF less.prems(1) less.prems(2) [unfolded C(1)] C(2) less.prems(3) [unfolded C(1)]]
    obtain x' s1 where s1: "(if d then fix_insert_left x s else fix_insert_right x s) = Some (x', s1)" "keeps s s1"
      "x' = g \<and> insert_goes_on C' t g al s1 \<or> insert_done t x' al s1" by blast
    have run: "fix_insert_loop x s = fix_insert_loop x' s1"
      using p c pg s1(1) C by (subst fix_insert_loop.simps) (simp split: if_splits)
    from s1(3) show ?thesis
    proof
      assume "x' = g \<and> insert_goes_on C' t g al s1"
      then obtain L R where LR: "x' = g" "tree_ok s1 (plug C' (Node L g R))" "inorder (plug C' (Node L g R)) = inorder t" "al \<longrightarrow> almost_rb (nodes s1) C' L g R"
        by (auto simp: insert_goes_on_def simp del: inorder_plug)
      from less.hyps [OF _ LR(2) refl LR(4)] obtain s' t' where "fix_insert_loop g s1 = Some s'" "tree_ok s' t'" "inorder t' = inorder t" "keeps s1 s'"
        "al \<longrightarrow> rb_but_root (nodes s') t'" by (auto simp: C(1) LR(3) simp del: inorder_plug)
      with run LR(1) s1(2) show ?thesis by (metis keeps_trans)
    next
      assume "insert_done t x' al s1"
      with run s1(2) show ?thesis by (auto simp: insert_done_def)
    qed
  next
    case False
    consider "C = []" | b q u where "C = [(b, q, u)]" | b q u d g v C' where "C = (b, q, u) # (d, g, v) # C'" "col (nodes s) q = BLACK"
    proof (cases C)
      case (Cons f D)
      with False that show ?thesis by (cases f; cases D) (auto intro: node_color.exhaust)
    qed
    then have "fix_insert_loop x s = Some s \<and> (al \<longrightarrow> rb_but_root (nodes s) t)"
    proof cases
      case 1
      with less.prems(2,3) almost_rb_done [OF _ dis] fix_insert_loop_exit [OF p c rd_up(1) [OF ok]] show ?thesis by auto
    next
      case 2
      with less.prems(2,3) almost_rb_root [of _ b q u l x r] dis fix_insert_loop_exit [OF p c rd_up(1) [OF ok]] show ?thesis by auto
    next
      case 3
      with less.prems(2,3) almost_rb_done [OF _ dis] fix_insert_loop_exit [OF p c rd_up(1) [OF ok]] show ?thesis by auto
    qed
    then show ?thesis using less.prems(1) by auto
  qed
qed

section \<open>Insertion\<close>

lemma rb_plugD: "rb c m (plug C t) \<Longrightarrow> \<exists>n. rb c n t \<and> rbctx c n C \<and> (C \<noteq> [] \<longrightarrow> black c t \<or> c (up C) = BLACK)"
proof (induction C arbitrary: t)
  case (Cons f C)
  obtain b a u where f: "f = (b, a, u)" by (cases f)
  from Cons.IH [of "if b then Node t a u else Node u a t"] Cons.prems obtain n where
    n: "rb c n (if b then Node t a u else Node u a t)" "rbctx c n C" "C \<noteq> [] \<longrightarrow> black c (if b then Node t a u else Node u a t) \<or> c (up C) = BLACK"
    by (auto simp: f)
  show ?case
  proof (cases "c a")
    case RED
    with n show ?thesis by (intro exI [of _ n]) (cases b; auto simp: f)
  next
    case BLACK
    with n show ?thesis by (intro exI [of _ "n - 1"]) (cases b; auto simp: f)
  qed
qed auto

definition balanced :: "pico_tree \<Rightarrow> u64 tree \<Rightarrow> bool" where
  "balanced s t \<longleftrightarrow> col (nodes s) LEAF = BLACK \<and> black (col (nodes s)) t \<and> (\<exists>n. rb (col (nodes s)) n t)"

lemma fix_insert_collisions_ok:
  assumes ok: "tree_ok s (plug C (Node l x r))" and al: "al \<longrightarrow> almost_rb (nodes s) C l x r"
  shows "\<exists>s' t'. fix_insert_collisions x s = Some s' \<and> tree_ok s' t' \<and> inorder t' = inorder (plug C (Node l x r)) \<and> keeps s s' \<and> (al \<longrightarrow> balanced s' t')"
proof -
  from fix_insert_loop_ok [OF ok refl al] obtain s1 t' where s1: "fix_insert_loop x s = Some s1" "tree_ok s1 t'" "inorder t' = inorder (plug C (Node l x r))"
    "keeps s s1" "al \<longrightarrow> rb_but_root (nodes s1) t'" by blast
  have t': "t' \<noteq> Leaf" using s1(3) by (cases t') auto
  then have in_t: "root s1 \<in> set_tree t'" "root s1 = root_of t'" using s1(2) root_of_in by (auto simp: tree_ok_def)
  from wr_color [OF s1(2) disjI1 [OF in_t(1)], of BLACK] obtain s' where s': "wr (set_color BLACK) (root s1) s1 = Some s'" "tree_ok s' t'" "keeps s1 s'"
    "col (nodes s') = (col (nodes s1))(root s1 := BLACK)" by blast
  have "al \<longrightarrow> balanced s' t'"
    using s1(5) t' in_t s'(4) by (cases t') (auto simp: balanced_def rb_but_root_def)
  with s1 s' show ?thesis by (auto simp: fix_insert_collisions_def intro: keeps_trans)
qed

lemma new_node_almost_rb:
  assumes "balanced s (plug C Leaf)" and "new \<notin> set_tree (plug C Leaf)" and "new \<noteq> LEAF" and "col h = (col (nodes s))(new := RED)"
  shows "almost_rb h C Leaf new Leaf"
proof -
  from assms(1) rb_plugD [of "col (nodes s)" _ C Leaf] have "rbctx (col (nodes s)) 0 C" by (auto simp: balanced_def)
  moreover have "\<forall>a \<in> set (before C) \<union> set (after C). col (nodes s) a = col h a" using assms(2,4) by auto
  ultimately have "rbctx (col h) 0 C" using rbctx_cong by blast
  with assms show ?thesis by (auto simp: almost_rb_def balanced_def)
qed

context key_order
begin

text \<open>The new node is linked in and the tree repaired.\<close>

lemma insert_new_ok:
  assumes ok: "tree_ok s t" and ord: "ordered compare (nodes s) (inorder t)" and fresh: "nodes s new = None" "new \<noteq> 0"
    and absent: "\<forall>a \<in> set_tree t. compare (key_of (nodes s) a) key \<noteq> 0"
    and s1: "s1 = s\<lparr>nodes := (nodes s)(new \<mapsto> \<lparr>keyValue = key, parent = LEAF, leftChild = LEAF, rightChild = LEAF, color = RED\<rparr>)\<rparr>"
  shows "\<exists>s' t' xs ys. (do { s \<leftarrow> pico_tree_insert_node compare new s1; s \<leftarrow> fix_insert_collisions new s; Some (0 :: u64, s) }) = Some (0, s') \<and>
    tree_ok s' t' \<and> ordered compare (nodes s') (inorder t') \<and> inorder t = xs @ ys \<and> inorder t' = xs @ new # ys \<and>
    key_of (nodes s') = (key_of (nodes s))(new := key) \<and> dom (nodes s') = insert new (dom (nodes s)) \<and> pico_err s' = pico_err s \<and>
    (balanced s t \<longrightarrow> balanced s' t')"
proof -
  have new: "new \<notin> set_tree t" "new \<noteq> LEAF" using fresh tree_ok_dom [OF ok, of new] by auto
  have "\<forall>a \<in> set_tree t. links (nodes s) a = links (nodes s1) a" "links (nodes s1) LEAF = links (nodes s) LEAF" using new by (auto simp: s1)
  then have ok1: "tree_ok s1 t"
    using ok ptree_cong [of t "nodes s" "nodes s1"] by (auto simp: tree_ok_def leaf_ok_def links_def s1)
  have k1: "key_of (nodes s1) = (key_of (nodes s))(new := key)" and c1: "col (nodes s1) = (col (nodes s))(new := RED)"
    by (auto simp: s1 key_of_def col_def fun_eq_iff)
  have "ordered compare (nodes s1) (inorder t)"
    using ord new(1) ordered_cong [of "inorder t" "nodes s1" "nodes s" compare] by (auto simp: k1)
  moreover have "\<forall>a \<in> set_tree t. compare (key_of (nodes s1) a) key \<noteq> 0" using absent new(1) by (auto simp: k1)
  ultimately obtain s2 C where s2: "pico_tree_insert_node compare new s1 = Some s2" "t = plug C Leaf" "tree_ok s2 (plug C (Node Leaf new Leaf))"
    "same_attrs s1 s2" "ordered compare (nodes s2) (inorder (plug C (Node Leaf new Leaf)))"
    using pico_tree_insert_node_ok [OF ok1, of new "\<lparr>keyValue = key, parent = LEAF, leftChild = LEAF, rightChild = LEAF, color = RED\<rparr>"] new fresh(2)
    by (auto simp: s1 simp del: inorder_plug)
  have "balanced s t \<longrightarrow> almost_rb (nodes s2) C Leaf new Leaf"
    using new_node_almost_rb [of s C new "nodes s2"] new s2(2) same_attrs_col [OF s2(4)] c1 by simp
  from fix_insert_collisions_ok [OF s2(3) this] obtain s' t' where s': "fix_insert_collisions new s2 = Some s'" "tree_ok s' t'"
    "inorder t' = inorder (plug C (Node Leaf new Leaf))" "keeps s2 s'" "balanced s t \<longrightarrow> balanced s' t'" by blast
  have "keeps s1 s'" using keeps_trans [OF same_attrs_keeps [OF s2(4)] s'(4)] .
  then have "key_of (nodes s') = (key_of (nodes s))(new := key)" "dom (nodes s') = insert new (dom (nodes s))" "pico_err s' = pico_err s"
    "key_of (nodes s') = key_of (nodes s2)"
    using s'(4) k1 by (auto simp: keeps_def s1)
  with s2 s' show ?thesis
    by (intro exI [of _ s'] exI [of _ t'] exI [of _ "before C"] exI [of _ "after C"]) (simp add: ordered_def)
qed

end

end
