(* ===== verification/Pico_Tree_Delete.thy ===== *)
theory Pico_Tree_Delete
  imports Pico_Tree_Insert
begin

text \<open>
  Deletion from the tree: exactly the node that was found leaves the in-order list, whatever the colours are, and the loop that repairs the colours ends.
\<close>

section \<open>Replacing a node\<close>

lemma switchNodes_links:
  assumes ctx: "ctx_ok s C a" and a: "nodes s a = Some na" "parent na = up C" "a \<noteq> LEAF" "a \<notin> set (before C) \<union> set (after C)"
    and b: "b \<noteq> LEAF \<Longrightarrow> nodes s b = Some nb" "b \<notin> set (before C) \<union> set (after C)" "b \<noteq> a"
  shows "\<exists>s'. switchNodes a b s = Some s' \<and> same_attrs s s' \<and> root s' = (if C = [] then b else root s) \<and>
    links (nodes s') = (links (nodes s))(up C := if C = [] then links (nodes s) LEAF else map_option (retarget (fst (hd C)) b) (links (nodes s) (up C)),
      b := if b = LEAF then links (nodes s) LEAF else Some (up C, leftChild nb, rightChild nb))"
proof (cases "C = []")
  case True
  then show ?thesis using a b
    by (cases "b = LEAF") (auto simp: switchNodes_def rd_def wr_def same_attrs_def fun_eq_iff attrs_at)
next
  case False
  have up: "up C \<noteq> LEAF" "up C \<noteq> a" "up C \<noteq> b" using False ctx_up_LEAF [OF ctx] up_in [OF False] a(4) b(2) by auto
  obtain np where np: "nodes s (up C) = Some np" using pctx_up [of "nodes s" C a] ctx False by (auto simp: ctx_ok_def)
  have "pctx (nodes s) C a" using ctx by (simp add: ctx_ok_def)
  from pctx_other(1) [OF this False np a(4,3)] have left: "(a = leftChild np) = fst (hd C)" .
  show ?thesis using False up np a b left
    by (cases "b = LEAF"; cases "fst (hd C)";
        simp add: switchNodes_def AM_I_LEFT_CHILD_def rd_def wr_def same_attrs_def retarget_def links_at;
        intro conjI ext; simp add: attrs_at)
qed

text \<open>A node with at most one child is cut out.\<close>

lemma switchNodes_cut:
  assumes ok: "tree_ok s (plug C (Node l d r))" and t': "l = Leaf \<and> t' = r \<or> r = Leaf \<and> t' = l"
  shows "\<exists>s'. switchNodes d (root_of t') s = Some s' \<and> tree_ok s' (plug C t') \<and> same_attrs s s'"
proof -
  note at = tree_ok_at [OF ok]
  have ctx: "ctx_ok s C d" using tree_ok_ctx [OF ok] by simp
  obtain na where na: "nodes s d = Some na" "parent na = up C" and sub: "ptree (nodes s) d t'" using at(1) t' by auto
  have d: "d \<noteq> LEAF" "d \<notin> set (before C) \<union> set (after C)" using at(3,4) by auto
  have dis: "distinct (inorder t')" "set_tree t' \<inter> (set (before C) \<union> set (after C) \<union> {LEAF, 0, d}) = {}" using at(3,4,5) t' by auto
  have b: "root_of t' \<notin> set (before C) \<union> set (after C)" "root_of t' \<noteq> d"
    using dis(2) d(1) at(4) root_of_in [of t'] by (cases "t' = Leaf"; auto)+
  obtain nb where nb: "root_of t' \<noteq> LEAF \<Longrightarrow> nodes s (root_of t') = Some nb" using ptree_root [OF sub] by (cases "t' = Leaf") auto
  from switchNodes_links [OF ctx na d nb b] obtain s' where s': "switchNodes d (root_of t') s = Some s'" "same_attrs s s'"
    "root s' = (if C = [] then root_of t' else root s)"
    and new: "links (nodes s') = (links (nodes s))(up C := if C = [] then links (nodes s) LEAF else map_option (retarget (fst (hd C)) (root_of t')) (links (nodes s) (up C)),
      root_of t' := if root_of t' = LEAF then links (nodes s) LEAF else Some (up C, leftChild nb, rightChild nb))" by blast
  have up: "C \<noteq> [] \<Longrightarrow> up C \<notin> set_tree t' \<and> up C \<noteq> root_of t' \<and> up C \<noteq> LEAF"
    using up_in [of C] dis(2) b(1) ctx_up_LEAF [OF ctx] by auto
  have "tree_ok s' (plug C t')"
  proof (rule ctx_replace [OF ctx])
    show "ptree (nodes s') (up C) t'"
    proof (rule ptree_reparent [OF sub dis(1)])
      show "\<forall>a \<in> set_tree t' - {root_of t'}. links (nodes s') a = links (nodes s) a" using up dis(2) by (auto simp: new)
      show "t' \<noteq> Leaf \<Longrightarrow> links (nodes s') (root_of t') = map_option (\<lambda>(_, c). (up C, c)) (links (nodes s) (root_of t'))"
        using nb root_of_LEAF [of t'] dis(2) by (auto simp: new links_at)
    qed
    show "links (nodes s') a = links (nodes s) a" if "a \<in> set (before C) \<union> set (after C) \<union> {LEAF}" "a \<noteq> up C \<or> C = []" for a
      using that b(1) by (auto simp: new)
    show "C \<noteq> [] \<Longrightarrow> links (nodes s') (up C) = map_option (retarget (fst (hd C)) (root_of t')) (links (nodes s) (up C))" using up by (simp add: new)
  qed (use s'(3) dis in auto)
  with s' show ?thesis by blast
qed

text \<open>A node \<open>m\<close> that is not in the tree takes the place of \<open>d\<close>: its right child is set already, the left child is that of \<open>d\<close>.\<close>

lemma links_obtain: "links h a = Some (p, l, r) \<Longrightarrow> \<exists>n. h a = Some n \<and> parent n = p \<and> leftChild n = l \<and> rightChild n = r"
  by (auto simp: links_def)

lemma adopt_left:
  assumes m: "links (nodes s) m = Some (p, v, r)" and d: "links (nodes s) d = Some (q, l, w)" and l: "l \<noteq> LEAF \<Longrightarrow> links (nodes s) l = Some (x, y, z)"
    and ne: "d \<noteq> m" "l \<noteq> m" "l \<noteq> d"
  shows "\<exists>s'. (do { l \<leftarrow> rd leftChild s d; s \<leftarrow> wr (set_left l) m s; s \<leftarrow> (if l \<noteq> LEAF then wr (set_parent m) l s else Some s);
      c \<leftarrow> rd color s d; wr (set_color c) m s }) = Some s' \<and> keeps s s' \<and> root s' = root s \<and> col (nodes s') = (col (nodes s))(m := col (nodes s) d) \<and>
    links (nodes s') = (links (nodes s))(m := Some (p, l, r), l := if l = LEAF then links (nodes s) l else Some (m, y, z))"
proof -
  obtain nm nd where n: "nodes s m = Some nm" "parent nm = p" "rightChild nm = r" "nodes s d = Some nd" "leftChild nd = l"
    using links_obtain [OF m] links_obtain [OF d] by auto
  obtain nl where nl: "l \<noteq> LEAF \<Longrightarrow> nodes s l = Some nl \<and> leftChild nl = y \<and> rightChild nl = z" using links_obtain [OF l] by (cases "l = LEAF") auto
  let ?h = "(nodes s)(m \<mapsto> set_left l nm)"
  define h' where "h' = (if l = LEAF then ?h else ?h(l \<mapsto> set_parent m nl))(m \<mapsto> set_color (color nd) (set_left l nm))"
  have "(do { l \<leftarrow> rd leftChild s d; s \<leftarrow> wr (set_left l) m s; s \<leftarrow> (if l \<noteq> LEAF then wr (set_parent m) l s else Some s);
      c \<leftarrow> rd color s d; wr (set_color c) m s }) = Some (s\<lparr>nodes := h'\<rparr>)"
    using n nl ne by (cases "l = LEAF") (simp_all add: rd_def wr_def h'_def)
  moreover have "links h' = (links (nodes s))(m := Some (p, l, r), l := if l = LEAF then links (nodes s) l else Some (m, y, z))"
    using n nl ne by (cases "l = LEAF") (auto simp: h'_def)
  moreover have "keeps s (s\<lparr>nodes := h'\<rparr>)"
    using n nl ne by (cases "l = LEAF") (auto simp: h'_def keeps_def key_of_def fun_eq_iff)
  moreover have "col h' = (col (nodes s))(m := col (nodes s) d)"
    using n nl ne by (cases "l = LEAF") (auto simp: h'_def col_def fun_eq_iff)
  ultimately show ?thesis by simp
qed

lemma take_place:
  assumes ctx: "ctx_ok s C d" and d: "nodes s d = Some nd" "parent nd = up C" "leftChild nd = root_of l" "ptree (nodes s) d l"
    and m: "nodes s m = Some nm" "rightChild nm = root_of r" "ptree (nodes s) m r"
    and dis: "distinct (before C @ inorder l @ d # m # inorder r @ after C)" "LEAF \<notin> set_tree l \<union> {d, m} \<union> set_tree r" "0 \<notin> set_tree l \<union> {d, m} \<union> set_tree r"
  shows "\<exists>s'. (do { s \<leftarrow> switchNodes d m s; l \<leftarrow> rd leftChild s d; s \<leftarrow> wr (set_left l) m s; s \<leftarrow> (if l \<noteq> LEAF then wr (set_parent m) l s else Some s);
      c \<leftarrow> rd color s d; wr (set_color c) m s }) = Some s' \<and>
    tree_ok s' (plug C (Node l m r)) \<and> keeps s s' \<and> col (nodes s') = (col (nodes s))(m := col (nodes s) d)"
proof -
  have ne: "d \<noteq> LEAF" "d \<notin> set (before C) \<union> set (after C)" "m \<notin> set (before C) \<union> set (after C)" "m \<noteq> d" "m \<noteq> LEAF" "root_of l \<noteq> m" "root_of l \<noteq> d"
    using dis root_of_in [of l] by (cases "l = Leaf"; auto)+
  from switchNodes_links [OF ctx d(1,2) ne(1,2) m(1) ne(3,4)] ne(5) obtain s1 where s1: "switchNodes d m s = Some s1" "same_attrs s s1"
    "root s1 = (if C = [] then m else root s)"
    and l1: "links (nodes s1) = (links (nodes s))(up C := if C = [] then links (nodes s) LEAF else map_option (retarget (fst (hd C)) m) (links (nodes s) (up C)),
      m := Some (up C, leftChild nm, rightChild nm))" by auto
  have up: "C \<noteq> [] \<Longrightarrow> up C \<notin> set_tree l \<union> set_tree r \<union> {d, m, LEAF}" using up_in [of C] dis ctx_up_LEAF [OF ctx] by auto
  have lr: "root_of l \<noteq> LEAF \<Longrightarrow> l \<noteq> Leaf" by (cases l) auto
  obtain y z where yz: "root_of l \<noteq> LEAF \<Longrightarrow> links (nodes s) (root_of l) = Some (d, y, z)"
    using ptree_root [OF d(4)] lr by (cases "root_of l = LEAF") (auto simp: links_def)
  have old: "links (nodes s1) a = links (nodes s) a" if "a \<in> set_tree l \<union> set_tree r \<union> {d} \<union> {LEAF}" for a
    using that up dis ctx_up_LEAF [OF ctx] by (auto simp: l1)
  have "links (nodes s1) m = Some (up C, leftChild nm, root_of r)" "links (nodes s1) d = Some (up C, root_of l, rightChild nd)"
    "root_of l \<noteq> LEAF \<Longrightarrow> links (nodes s1) (root_of l) = Some (d, y, z)"
    using old [of d] old [of "root_of l"] d(1,2,3) m(2) yz root_of_in [OF lr] by (auto simp: l1 links_at)
  from adopt_left [OF this] ne obtain s' where s': "(do { l \<leftarrow> rd leftChild s1 d; s \<leftarrow> wr (set_left l) m s1; s \<leftarrow> (if l \<noteq> LEAF then wr (set_parent m) l s else Some s);
      c \<leftarrow> rd color s d; wr (set_color c) m s }) = Some s'" "keeps s1 s'" "root s' = root s1" "col (nodes s') = (col (nodes s1))(m := col (nodes s1) d)"
    and l': "links (nodes s') = (links (nodes s1))(m := Some (up C, root_of l, root_of r), root_of l := if root_of l = LEAF then links (nodes s1) (root_of l) else Some (m, y, z))"
    by blast
  have keep: "links (nodes s') a = links (nodes s) a" if "a \<in> set_tree l - {root_of l} \<union> set_tree r" for a
    using that dis old [of a] root_of_in [of l] by (cases "l = Leaf") (auto simp: l')
  have "tree_ok s' (plug C (Node l m r))"
  proof (rule ctx_replace [OF ctx])
    have "ptree (nodes s') m l"
    proof (rule ptree_reparent [OF d(4)])
      show "l \<noteq> Leaf \<Longrightarrow> links (nodes s') (root_of l) = map_option (\<lambda>(_, c). (m, c)) (links (nodes s) (root_of l))"
        using yz root_of_LEAF [of l] dis(2) by (simp add: l')
    qed (use keep dis in auto)
    moreover have "ptree (nodes s') m r" using ptree_cong [OF _ m(3), of "nodes s'"] keep by auto
    ultimately show "ptree (nodes s') (up C) (Node l m r)" using ne(6) by (simp add: ptree_links l' del: ptree.simps(2))
    show "links (nodes s') a = links (nodes s) a" if "a \<in> set (before C) \<union> set (after C) \<union> {LEAF}" "a \<noteq> up C \<or> C = []" for a
      using that ne dis root_of_in [of l] by (cases "l = Leaf") (auto simp: l' l1)
    show "C \<noteq> [] \<Longrightarrow> links (nodes s') (up C) = map_option (retarget (fst (hd C)) (root_of (Node l m r))) (links (nodes s) (up C))"
      using up root_of_in [of l] by (cases "l = Leaf") (auto simp: l' l1)
    show "set_tree (Node l m r) \<inter> (set (before C) \<union> set (after C) \<union> {LEAF, 0}) = {}" using dis by auto
  qed (use s1(3) s'(3) dis in auto)
  with s1 s' same_attrs_keeps [OF s1(2)] same_attrs_col [OF s1(2)] show ?thesis by (auto intro: keeps_trans)
qed

section \<open>The successor takes the place of the node\<close>

lemma before_append: "before (D @ E) = before E @ before D"
  by (induction D rule: before.induct) auto

lemma plug_append: "plug (D @ E) t = plug E (plug D t)"
  by (induction D t rule: plug.induct) auto

lemma pico_tree_firstNode_ok:
  assumes "ptree (nodes s) p t" and "t \<noteq> Leaf" and "LEAF \<notin> set_tree t"
  shows "\<exists>D m r. t = plug D (Node Leaf m r) \<and> before D = [] \<and> pico_tree_firstNode s (root_of t) = Some m"
  using assms
proof (induction t arbitrary: p)
  case (Node l a r)
  from Node.prems(1) have l: "rd leftChild s a = Some (root_of l)" "ptree (nodes s) a l" by (auto simp: rd_def)
  show ?case
  proof (cases "l = Leaf")
    case True
    with l(1) show ?thesis by (intro exI [of _ "[]"] exI [of _ a] exI [of _ r]) (simp add: pico_tree_firstNode.simps [of s a])
  next
    case False
    with Node.IH(1) [OF l(2)] Node.prems(3) obtain D m r' where IH: "l = plug D (Node Leaf m r')" "before D = []" "pico_tree_firstNode s (root_of l) = Some m" by auto
    have "root_of l \<noteq> LEAF" using False Node.prems(3) root_of_LEAF by auto
    with IH l(1) have "pico_tree_firstNode s a = Some m" by (simp add: pico_tree_firstNode.simps [of s a])
    with IH show ?thesis
      by (intro exI [of _ "D @ [(True, a, r)]"] exI [of _ m] exI [of _ r']) (simp add: plug_append before_append)
  qed
qed simp

lemma ctx_ok_cong:
  assumes "ctx_ok s C p" and "\<And>a. a \<in> set (before C) \<union> set (after C) \<union> {LEAF} \<Longrightarrow> links (nodes s') a = links (nodes s) a" and "root s' = root s"
  shows "ctx_ok s' C p"
proof -
  have "pctx (nodes s') C p" using assms(1,2) pctx_cong [of C "nodes s" "nodes s'" p] by (simp add: ctx_ok_def)
  moreover have "leaf_ok (nodes s')" using assms(1) assms(2) [of LEAF] by (auto simp: ctx_ok_def leaf_ok_def links_def)
  ultimately show ?thesis using assms(1,3) by (simp add: ctx_ok_def)
qed

text \<open>The minimum, cut out of the right subtree, adopts what is left of it.\<close>

lemma adopt_right:
  assumes ok: "tree_ok s (plug C (Node l d r))" and m: "nodes s m = Some nm" "m \<notin> set_tree (plug C (Node l d r))" "m \<noteq> LEAF"
  shows "\<exists>s' nd' nm'. (do { r \<leftarrow> rd rightChild s d; s \<leftarrow> wr (set_right r) m s; if r \<noteq> LEAF then wr (set_parent m) r s else Some s }) = Some s' \<and> same_attrs s s' \<and>
    ctx_ok s' C d \<and> nodes s' d = Some nd' \<and> parent nd' = up C \<and> leftChild nd' = root_of l \<and> ptree (nodes s') d l \<and>
    nodes s' m = Some nm' \<and> rightChild nm' = root_of r \<and> ptree (nodes s') m r"
proof -
  note at = tree_ok_at [OF ok]
  obtain nd where nd: "nodes s d = Some nd" "parent nd = up C" "leftChild nd = root_of l" "rightChild nd = root_of r" using at(1) by auto
  have sub: "ptree (nodes s) d l" "ptree (nodes s) d r" using at(1) by auto
  obtain nr where nr: "root_of r \<noteq> LEAF \<Longrightarrow> nodes s (root_of r) = Some nr \<and> root_of r \<in> set_tree r"
    using ptree_root [OF sub(2)] root_of_in [of r] by (cases "r = Leaf") auto
  have ne: "m \<noteq> d" "root_of r \<noteq> m" "root_of r \<noteq> d" using m(2,3) at(3,4) nr by (cases "root_of r = LEAF"; auto)+
  let ?h = "(nodes s)(m \<mapsto> set_right (root_of r) nm)"
  define s' where "s' = s\<lparr>nodes := (if root_of r = LEAF then ?h else ?h(root_of r \<mapsto> set_parent m nr))\<rparr>"
  have run: "(do { r \<leftarrow> rd rightChild s d; s \<leftarrow> wr (set_right r) m s; if r \<noteq> LEAF then wr (set_parent m) r s else Some s }) = Some s'"
    using nd nr m ne by (cases "root_of r = LEAF") (simp_all add: rd_def wr_def s'_def)
  have l': "links (nodes s') = (links (nodes s))(m := Some (parent nm, leftChild nm, root_of r), root_of r := if root_of r = LEAF then links (nodes s) (root_of r) else Some (m, leftChild nr, rightChild nr))"
    using ne by (cases "root_of r = LEAF") (auto simp: s'_def)
  have "same_attrs s s'" using nr m ne by (cases "root_of r = LEAF") (auto simp: same_attrs_def s'_def fun_eq_iff attrs_at)
  moreover have "ctx_ok s' C d"
  proof (rule ctx_ok_cong)
    show "ctx_ok s C d" using tree_ok_ctx [OF ok] by simp
    show "links (nodes s') a = links (nodes s) a" if "a \<in> set (before C) \<union> set (after C) \<union> {LEAF}" for a
      using that m(2,3) at(3,4) nr by (cases "root_of r = LEAF") (auto simp: l')
  qed (simp add: s'_def)
  moreover have "nodes s' d = Some nd" using ne nd by (simp add: s'_def)
  moreover have "ptree (nodes s') d l"
  proof (rule ptree_cong [OF _ sub(1)])
    show "\<forall>a \<in> set_tree l. links (nodes s) a = links (nodes s') a"
      using m(2) at(3,4) nr by (cases "root_of r = LEAF") (auto simp: l')
  qed
  moreover have "ptree (nodes s') m r"
  proof (rule ptree_reparent [OF sub(2)])
    show "\<forall>a \<in> set_tree r - {root_of r}. links (nodes s') a = links (nodes s) a" using m(2) by (auto simp: l')
    show "r \<noteq> Leaf \<Longrightarrow> links (nodes s') (root_of r) = map_option (\<lambda>(_, c). (m, c)) (links (nodes s) (root_of r))"
      using nr root_of_LEAF [of r] at(4) by (auto simp: l' links_at)
  qed (use at(3) in auto)
  moreover have "nodes s' m = Some (set_right (root_of r) nm)" using ne by (simp add: s'_def)
  ultimately show ?thesis using run nd by auto
qed

lemma keeps_some: "keeps s s' \<Longrightarrow> nodes s a = Some n \<Longrightarrow> \<exists>n'. nodes s' a = Some n'"
  unfolding keeps_def by blast

lemma wr_idle: "nodes s a = Some n \<Longrightarrow> f n = n \<Longrightarrow> wr f a s = Some s"
  by (simp add: wr_def fun_upd_idem)

lemma min_at:
  assumes ok: "tree_ok s (plug C (Node l d (plug D (Node Leaf m rr))))"
  shows "\<exists>nm. nodes s m = Some nm \<and> leftChild nm = LEAF \<and> rightChild nm = root_of rr \<and> parent nm = up (D @ (False, d, l) # C) \<and> ptree (nodes s) m rr"
    and "up (D @ (False, d, l) # C) = d \<longleftrightarrow> D = []" and "m \<noteq> d" and "m \<notin> set_tree (plug C (Node l d (plug D rr)))"
proof -
  have "tree_ok s (plug (D @ (False, d, l) # C) (Node Leaf m rr))" using ok by (simp add: plug_append)
  note at = tree_ok_at [OF this]
  show "\<exists>nm. nodes s m = Some nm \<and> leftChild nm = LEAF \<and> rightChild nm = root_of rr \<and> parent nm = up (D @ (False, d, l) # C) \<and> ptree (nodes s) m rr"
    using at(1) by auto
  have "distinct (inorder (plug C (Node l d (plug D (Node Leaf m rr)))))" using ok by (simp add: tree_ok_def)
  then have dis: "distinct (before C @ inorder l @ d # before D @ m # inorder rr @ after D @ after C)" by (simp add: inorder_plug)
  show "up (D @ (False, d, l) # C) = d \<longleftrightarrow> D = []" using dis up_in [of D] by (cases D) (auto split: prod.splits)
  show "m \<noteq> d" and "m \<notin> set_tree (plug C (Node l d (plug D rr)))" using dis by (auto simp: set_plug)
qed

lemma cut_min:
  assumes ok: "tree_ok s (plug C (Node l d (plug D (Node Leaf m rr))))"
    and p: "rd parent s m = Some p" and temp: "rd rightChild s m = Some temp"
  shows "\<exists>s' nd nm. (if p = d \<and> temp \<noteq> LEAF then wr (set_parent m) temp s
      else do { r \<leftarrow> rd rightChild s m; s \<leftarrow> switchNodes m r s; r \<leftarrow> rd rightChild s d; s \<leftarrow> wr (set_right r) m s; if r \<noteq> LEAF then wr (set_parent m) r s else Some s }) = Some s' \<and>
    same_attrs s s' \<and> ctx_ok s' C d \<and> nodes s' d = Some nd \<and> parent nd = up C \<and> leftChild nd = root_of l \<and> ptree (nodes s') d l \<and>
    nodes s' m = Some nm \<and> rightChild nm = root_of (plug D rr) \<and> ptree (nodes s') m (plug D rr)"
proof -
  note m = min_at [OF ok]
  obtain nm where nm: "nodes s m = Some nm" "rightChild nm = root_of rr" "parent nm = up (D @ (False, d, l) # C)" and sub: "ptree (nodes s) m rr" using m(1) by auto
  have pt: "p = d \<longleftrightarrow> D = []" "temp = root_of rr" using p temp nm m(2) by (auto simp: rd_def)
  have mL: "m \<noteq> LEAF" using ok by (auto simp: tree_ok_def set_plug)
  show ?thesis
  proof (cases "D = [] \<and> temp \<noteq> LEAF")
    case True
    note at = tree_ok_at [OF ok]
    have "wr (set_parent m) temp s = Some s" using ptree_root [OF sub] True pt(2) by (cases "rr = Leaf") (auto intro!: wr_idle)
    moreover have "ctx_ok s C d" using tree_ok_ctx [OF ok] by simp
    ultimately show ?thesis using True at(1) nm sub pt by (auto simp: same_attrs_def)
  next
    case False
    have "tree_ok s (plug (D @ (False, d, l) # C) (Node Leaf m rr))" using ok by (simp add: plug_append)
    from switchNodes_cut [OF this, of rr] obtain s1 where s1: "switchNodes m (root_of rr) s = Some s1" "same_attrs s s1"
      and ok1: "tree_ok s1 (plug C (Node l d (plug D rr)))" by (auto simp: plug_append)
    obtain nm1 where "nodes s1 m = Some nm1" using keeps_some [OF same_attrs_keeps [OF s1(2)] nm(1)] by blast
    from adopt_right [OF ok1 this m(4) mL] s1 False pt temp show ?thesis
      by (fastforce simp: same_attrs_def)
  qed
qed

lemma pico_tree_delete_node_run:
  assumes "rd rightChild s d = Some r" and "pico_tree_firstNode s r = Some m" and "rd color s m = Some c" and "rd rightChild s m = Some temp" and "rd parent s m = Some p"
    and cut: "(if p = d \<and> temp \<noteq> LEAF then wr (set_parent m) temp s
      else do { r \<leftarrow> rd rightChild s m; s \<leftarrow> switchNodes m r s; r \<leftarrow> rd rightChild s d; s \<leftarrow> wr (set_right r) m s; if r \<noteq> LEAF then wr (set_parent m) r s else Some s }) = Some s1"
    and place: "(do { s \<leftarrow> switchNodes d m s1; l \<leftarrow> rd leftChild s d; s \<leftarrow> wr (set_left l) m s; s \<leftarrow> (if l \<noteq> LEAF then wr (set_parent m) l s else Some s);
      c \<leftarrow> rd color s d; wr (set_color c) m s }) = Some s'"
  shows "pico_tree_delete_node d s = Some (c, temp, s')"
proof -
  have "pico_tree_delete_node d s = do {
    s \<leftarrow> (if p = d \<and> temp \<noteq> LEAF then wr (set_parent m) temp s
      else do { r \<leftarrow> rd rightChild s m; s \<leftarrow> switchNodes m r s; r \<leftarrow> rd rightChild s d; s \<leftarrow> wr (set_right r) m s; if r \<noteq> LEAF then wr (set_parent m) r s else Some s });
    s \<leftarrow> do { s \<leftarrow> switchNodes d m s; l \<leftarrow> rd leftChild s d; s \<leftarrow> wr (set_left l) m s; s \<leftarrow> (if l \<noteq> LEAF then wr (set_parent m) l s else Some s);
      c \<leftarrow> rd color s d; wr (set_color c) m s };
    Some (c, temp, s) }"
    using assms(1-5) by (simp add: pico_tree_delete_node_def del: if_split cong: if_cong)
  then show ?thesis unfolding cut bind.bind_lunit place by simp
qed

lemma pico_tree_delete_node_ok:
  assumes ok: "tree_ok s (plug C (Node l d r))" and r: "r \<noteq> Leaf"
  shows "\<exists>c temp s' m r'. pico_tree_delete_node d s = Some (c, temp, s') \<and> tree_ok s' (plug C (Node l m r')) \<and> inorder r = m # inorder r' \<and>
    temp \<in> insert LEAF (set_tree r') \<and> keeps s s'"
proof -
  note at = tree_ok_at [OF ok]
  have sub: "ptree (nodes s) d r" "rd rightChild s d = Some (root_of r)" using at(1) by (auto simp: rd_def)
  from pico_tree_firstNode_ok [OF sub(1) r] at(4) obtain D m rr where D: "r = plug D (Node Leaf m rr)" "before D = []" "pico_tree_firstNode s (root_of r) = Some m" by auto
  have ok': "tree_ok s (plug C (Node l d (plug D (Node Leaf m rr))))" using ok D(1) by simp
  obtain nm where nm: "nodes s m = Some nm" "rightChild nm = root_of rr" using min_at(1) [OF ok'] by auto
  then have rd: "rd color s m = Some (color nm)" "rd rightChild s m = Some (root_of rr)" "rd parent s m = Some (parent nm)" by (simp_all add: rd_def)
  from cut_min [OF ok' rd(3,2)] obtain s1 nd1 nm1 where s1: "(if parent nm = d \<and> root_of rr \<noteq> LEAF then wr (set_parent m) (root_of rr) s
      else do { r \<leftarrow> rd rightChild s m; s \<leftarrow> switchNodes m r s; r \<leftarrow> rd rightChild s d; s \<leftarrow> wr (set_right r) m s; if r \<noteq> LEAF then wr (set_parent m) r s else Some s }) = Some s1"
    "same_attrs s s1" and ctx: "ctx_ok s1 C d" and d1: "nodes s1 d = Some nd1" "parent nd1 = up C" "leftChild nd1 = root_of l" "ptree (nodes s1) d l"
    and m1: "nodes s1 m = Some nm1" "rightChild nm1 = root_of (plug D rr)" "ptree (nodes s1) m (plug D rr)" by blast
  have dis: "distinct (before C @ inorder l @ d # m # inorder (plug D rr) @ after C)"
    "LEAF \<notin> set_tree l \<union> {d, m} \<union> set_tree (plug D rr)" "0 \<notin> set_tree l \<union> {d, m} \<union> set_tree (plug D rr)"
    using ok' D(2) by (auto simp: tree_ok_def inorder_plug set_plug)
  from take_place [OF ctx d1 m1 dis] obtain s' where s': "(do { s \<leftarrow> switchNodes d m s1; l \<leftarrow> rd leftChild s d; s \<leftarrow> wr (set_left l) m s; s \<leftarrow> (if l \<noteq> LEAF then wr (set_parent m) l s else Some s);
      c \<leftarrow> rd color s d; wr (set_color c) m s }) = Some s'" "tree_ok s' (plug C (Node l m (plug D rr)))" "keeps s1 s'" by blast
  have "pico_tree_delete_node d s = Some (color nm, root_of rr, s')"
    by (rule pico_tree_delete_node_run [OF sub(2) D(3) rd s1(1) s'(1)])
  moreover have "inorder r = m # inorder (plug D rr)" using D by (simp add: inorder_plug)
  moreover have "root_of rr \<in> insert LEAF (set_tree (plug D rr))" using root_of_in [of rr] by (cases "rr = Leaf") (auto simp: set_plug)
  moreover have "keeps s s'" using keeps_trans [OF same_attrs_keeps [OF s1(2)] s'(3)] .
  ultimately show ?thesis using s'(2) by blast
qed

lemma pico_tree_delete_check_switch_ok:
  assumes ok: "tree_ok s (plug C (Node l d r))"
  shows "\<exists>c temp s' t'. pico_tree_delete_check_switch d s = Some (c, temp, s') \<and> tree_ok s' t' \<and> inorder t' = before C @ inorder l @ inorder r @ after C \<and>
    temp \<in> insert LEAF (set_tree t') \<and> keeps s s'"
proof -
  note at = tree_ok_at [OF ok]
  obtain c where rd: "rd color s d = Some c" "rd leftChild s d = Some (root_of l)" "rd rightChild s d = Some (root_of r)" using at(1) by (auto simp: rd_def)
  have L: "root_of l = LEAF \<longleftrightarrow> l = Leaf" "root_of r = LEAF \<longleftrightarrow> r = Leaf" using at(4) root_of_LEAF [of l] root_of_LEAF [of r] by auto
  consider "l = Leaf" | "l \<noteq> Leaf" "r = Leaf" | "l \<noteq> Leaf" "r \<noteq> Leaf" by blast
  then show ?thesis
  proof cases
    case 1
    from switchNodes_cut [OF ok, of r] 1 obtain s' where "switchNodes d (root_of r) s = Some s'" "tree_ok s' (plug C r)" "same_attrs s s'" by auto
    with 1 root_of_in [of r] rd L same_attrs_keeps show ?thesis
      by (intro exI [of _ c] exI [of _ "root_of r"] exI [of _ s'] exI [of _ "plug C r"]) (cases "r = Leaf"; simp add: pico_tree_delete_check_switch_def inorder_plug set_plug)
  next
    case 2
    from switchNodes_cut [OF ok, of l] 2 obtain s' where "switchNodes d (root_of l) s = Some s'" "tree_ok s' (plug C l)" "same_attrs s s'" by auto
    with 2 root_of_in [of l] rd L same_attrs_keeps show ?thesis
      by (intro exI [of _ c] exI [of _ "root_of l"] exI [of _ s'] exI [of _ "plug C l"]) (simp add: pico_tree_delete_check_switch_def inorder_plug set_plug)
  next
    case 3
    from pico_tree_delete_node_ok [OF ok 3(2)] obtain c' temp s' m r' where "pico_tree_delete_node d s = Some (c', temp, s')" "tree_ok s' (plug C (Node l m r'))"
      "inorder r = m # inorder r'" "temp \<in> insert LEAF (set_tree r')" "keeps s s'" by blast
    with 3 rd L show ?thesis
      by (intro exI [of _ c'] exI [of _ temp] exI [of _ s'] exI [of _ "plug C (Node l m r')"]) (auto simp: pico_tree_delete_check_switch_def inorder_plug set_plug)
  qed
qed

end
