(* ===== verification/Pico_Tree_Repair.thy ===== *)
theory Pico_Tree_Repair
  imports Pico_Tree_Delete
begin

text \<open>
  The loop \<open>fix_delete_collisions\<close>: for any colouring it ends and it only rotates, so that the in-order list of the nodes stays, and the deletion as a whole.
\<close>

section \<open>Rules for the operations of the repair\<close>

definition safe :: "'a option \<Rightarrow> ('a \<Rightarrow> bool) \<Rightarrow> bool" where
  "safe m P \<longleftrightarrow> (\<exists>x. m = Some x \<and> P x)"

text \<open>The nodes \<open>xs\<close>, in order, make up the tree, and nothing else of the state \<open>s0\<close> has changed.\<close>

definition shape :: "pico_tree \<Rightarrow> u64 list \<Rightarrow> pico_tree \<Rightarrow> bool" where
  "shape s0 xs s \<longleftrightarrow> (\<exists>t. tree_ok s t \<and> inorder t = xs) \<and> keeps s0 s"

lemma safe_Some [simp]: "safe (Some x) P = P x"
  by (simp add: safe_def)

lemma safe_bind: "safe m Q \<Longrightarrow> (\<And>x. Q x \<Longrightarrow> safe (f x) P) \<Longrightarrow> safe (m \<bind> f) P"
  by (auto simp: safe_def)

lemma safe_bind_pair: "safe m (\<lambda>(a, s). Q a s) \<Longrightarrow> (\<And>a s. Q a s \<Longrightarrow> safe (f (a, s)) P) \<Longrightarrow> safe (m \<bind> f) P"
  by (auto simp: safe_def)

lemma shape_keep: "tree_ok s t \<Longrightarrow> shape s (inorder t) s"
  by (auto simp: shape_def)

lemma shape_step:
  assumes "shape s0 xs s" and "\<exists>s'. m = Some s' \<and> tree_ok s' t \<and> same_attrs s s'" and "inorder t = xs"
  shows "safe m (shape s0 xs)"
  using assms keeps_trans same_attrs_keeps unfolding safe_def shape_def by blast

lemma shape_place:
  assumes "shape s0 xs s" and "a \<in> set xs"
  shows "\<exists>C l r. tree_ok s (plug C (Node l a r)) \<and> inorder (plug C (Node l a r)) = xs"
proof -
  obtain t where t: "tree_ok s t" "inorder t = xs" using assms(1) by (auto simp: shape_def)
  with assms(2) obtain C l r where "t = plug C (Node l a r)" using plug_split [of a t] by (auto simp: set_inorder_tree)
  with t show ?thesis by blast
qed

lemma rd_place:
  assumes "shape s0 xs s" and a: "a \<in> insert LEAF (set xs)"
  shows "safe (rd parent s a) (\<lambda>b. b \<in> insert LEAF (set xs))" and "safe (rd leftChild s a) (\<lambda>b. b \<in> insert LEAF (set xs))"
    and "safe (rd rightChild s a) (\<lambda>b. b \<in> insert LEAF (set xs))" and "safe (rd color s a) (\<lambda>b. True)"
proof -
  obtain t where t: "tree_ok s t" "inorder t = xs" using assms(1) by (auto simp: shape_def)
  show "safe (rd color s a) (\<lambda>b. True)" using rd_color [OF t(1)] a t(2) by (auto simp: safe_def)
  have "safe (rd parent s a) (\<lambda>b. b \<in> insert LEAF (set xs)) \<and> safe (rd leftChild s a) (\<lambda>b. b \<in> insert LEAF (set xs)) \<and>
    safe (rd rightChild s a) (\<lambda>b. b \<in> insert LEAF (set xs))"
  proof (cases "a = LEAF")
    case True
    with rd_LEAF [OF t(1)] show ?thesis by simp
  next
    case False
    with a have "a \<in> set xs" by simp
    from shape_place [OF assms(1) this] obtain C l r where C: "tree_ok s (plug C (Node l a r))" "inorder (plug C (Node l a r)) = xs" by blast
    have rd: "rd parent s a = Some (up C)" "rd leftChild s a = Some (root_of l)" "rd rightChild s a = Some (root_of r)"
      using tree_ok_at(1) [OF C(1)] by (auto simp: ptree_rd simp del: ptree.simps)
    have "set xs = set (before C) \<union> set_tree l \<union> {a} \<union> set_tree r \<union> set (after C)" using C(2) by (auto simp: inorder_plug)
    then show ?thesis using rd up_in [of C] root_of_in [of l] root_of_in [of r] by (cases "C = []"; cases "l = Leaf"; cases "r = Leaf"; auto)
  qed
  then show "safe (rd parent s a) (\<lambda>b. b \<in> insert LEAF (set xs))" and "safe (rd leftChild s a) (\<lambda>b. b \<in> insert LEAF (set xs))"
    and "safe (rd rightChild s a) (\<lambda>b. b \<in> insert LEAF (set xs))" by auto
qed

lemma wr_color_place:
  assumes "shape s0 xs s" and "a \<in> insert LEAF (set xs)"
  shows "safe (wr (set_color c) a s) (shape s0 xs)"
proof -
  obtain t where t: "tree_ok s t" "inorder t = xs" using assms(1) by (auto simp: shape_def)
  have "a \<in> set_tree t \<or> a = LEAF" using assms(2) t(2) by (auto simp: set_inorder_tree)
  from wr_color [OF t(1) this, of c] t(2) assms(1) show ?thesis unfolding safe_def shape_def using keeps_trans by blast
qed

text \<open>A rotation around a node without the child that would come up leaves the tree as it is.\<close>

lemma rotate_place:
  assumes "shape s0 xs s" and a: "a \<in> insert LEAF (set xs)"
  shows "safe (rotateToLeft s a) (shape s0 xs)" and "safe (rotateToRight s a) (shape s0 xs)"
proof -
  obtain t where t: "tree_ok s t" "inorder t = xs" "keeps s0 s" using assms(1) by (auto simp: shape_def)
  obtain nl where nl: "nodes s LEAF = Some nl" "leftChild nl = LEAF" "rightChild nl = LEAF" using t(1) by (auto simp: tree_ok_def leaf_ok_def)
  consider "a = LEAF" | C l r where "tree_ok s (plug C (Node l a r))" "inorder (plug C (Node l a r)) = xs" using a shape_place [OF assms(1)] by blast
  then have "safe (rotateToLeft s a) (shape s0 xs) \<and> safe (rotateToRight s a) (shape s0 xs)"
  proof cases
    case 1
    have "wr (set_left LEAF) LEAF s = Some s" using nl by (intro wr_idle) auto
    with 1 nl assms(1) show ?thesis by (simp add: rotateToLeft_def rotateToRight_def rd_def)
  next
    case 2
    obtain n where n: "nodes s a = Some n" "leftChild n = root_of l" "rightChild n = root_of r" using tree_ok_at(1) [OF 2(1)] by auto
    have "safe (rotateToLeft s a) (shape s0 xs)"
    proof (cases r)
      case Leaf
      with n assms(1) show ?thesis by (simp add: rotateToLeft_def rd_def)
    next
      case (Node B y D)
      with shape_step [OF assms(1) rotateToLeft_ok [of s C l a B y D]] 2 show ?thesis by (simp add: inorder_plug)
    qed
    moreover have "safe (rotateToRight s a) (shape s0 xs)"
    proof (cases l)
      case Leaf
      have "wr (set_left LEAF) a s = Some s" using n Leaf by (intro wr_idle) auto
      with n nl Leaf assms(1) show ?thesis by (simp add: rotateToRight_def rd_def)
    next
      case (Node B y D)
      with shape_step [OF assms(1) rotateToRight_ok [of s C B y D a r]] 2 show ?thesis by (simp add: inorder_plug)
    qed
    ultimately show ?thesis ..
  qed
  then show "safe (rotateToLeft s a) (shape s0 xs)" and "safe (rotateToRight s a) (shape s0 xs)" by auto
qed

lemmas safe_rules = rd_place [THEN safe_bind] wr_color_place [THEN safe_bind] rotate_place [THEN safe_bind]

section \<open>One iteration\<close>

lemma both_black_place:
  assumes "shape s0 xs s" and "a \<in> insert LEAF (set xs)"
  shows "safe (both_black a s) (\<lambda>b. True)"
  unfolding both_black_def using assms by (intro safe_rules) (assumption | simp)+

text \<open>The case that ends the loop: whatever the colours of the sibling's children are, the state keeps its shape.\<close>

lemma far_left_safe:
  assumes s: "shape s0 xs s" and node: "node \<in> insert LEAF (set xs)" and temp: "temp \<in> insert LEAF (set xs)"
  shows "safe (do {
       r \<leftarrow> rd rightChild s temp;
       c \<leftarrow> rd color s r;
       (temp, s) \<leftarrow> (if c = BLACK then do {
                       l \<leftarrow> rd leftChild s temp;
                       s \<leftarrow> wr (set_color BLACK) l s;
                       s \<leftarrow> wr (set_color RED) temp s;
                       s \<leftarrow> rotateToRight s temp;
                       p \<leftarrow> rd parent s temp;
                       temp \<leftarrow> rd rightChild s p;
                       Some (temp, s)
                     } else Some (temp, s));
       p \<leftarrow> rd parent s node;
       c \<leftarrow> rd color s p;
       s \<leftarrow> wr (set_color c) temp s;
       s \<leftarrow> wr (set_color BLACK) p s;
       r \<leftarrow> rd rightChild s temp;
       s \<leftarrow> wr (set_color BLACK) r s;
       s \<leftarrow> rotateToLeft s p;
       Some (root s, s)
     }) (\<lambda>(x, s). x = root s \<and> shape s0 xs s)"
proof -
  note R = safe_rules [of s0 xs]
  have near: "safe (if c = BLACK then do {
                       l \<leftarrow> rd leftChild s temp;
                       s \<leftarrow> wr (set_color BLACK) l s;
                       s \<leftarrow> wr (set_color RED) temp s;
                       s \<leftarrow> rotateToRight s temp;
                       p \<leftarrow> rd parent s temp;
                       temp \<leftarrow> rd rightChild s p;
                       Some (temp, s)
                     } else Some (temp, s)) (\<lambda>(temp, s). temp \<in> insert LEAF (set xs) \<and> shape s0 xs s)" for c
    using s temp by (cases "c = BLACK") (simp_all only: if_True if_False refl node_color.distinct, (intro R, (assumption | simp)+)?, (simp add: safe_def)?)
  show ?thesis using s node temp
    apply (intro R)
    apply assumption+
    apply (rule safe_bind_pair [OF near])
    apply (simp only: prod.case)
    apply (elim conjE)
    apply (intro R)
    apply (assumption | simp)+
    done
qed

lemma far_right_safe:
  assumes s: "shape s0 xs s" and node: "node \<in> insert LEAF (set xs)" and temp: "temp \<in> insert LEAF (set xs)"
  shows "safe (do {
       l \<leftarrow> rd leftChild s temp;
       c \<leftarrow> rd color s l;
       (temp, s) \<leftarrow> (if c = BLACK then do {
                       r \<leftarrow> rd rightChild s temp;
                       s \<leftarrow> wr (set_color BLACK) r s;
                       s \<leftarrow> wr (set_color RED) temp s;
                       s \<leftarrow> rotateToLeft s temp;
                       p \<leftarrow> rd parent s temp;
                       temp \<leftarrow> rd leftChild s p;
                       Some (temp, s)
                     } else Some (temp, s));
       p \<leftarrow> rd parent s node;
       c \<leftarrow> rd color s p;
       s \<leftarrow> wr (set_color c) temp s;
       s \<leftarrow> wr (set_color BLACK) p s;
       l \<leftarrow> rd leftChild s temp;
       s \<leftarrow> wr (set_color BLACK) l s;
       s \<leftarrow> rotateToRight s p;
       Some (root s, s)
     }) (\<lambda>(x, s). x = root s \<and> shape s0 xs s)"
proof -
  note R = safe_rules [of s0 xs]
  have near: "safe (if c = BLACK then do {
                       r \<leftarrow> rd rightChild s temp;
                       s \<leftarrow> wr (set_color BLACK) r s;
                       s \<leftarrow> wr (set_color RED) temp s;
                       s \<leftarrow> rotateToLeft s temp;
                       p \<leftarrow> rd parent s temp;
                       temp \<leftarrow> rd leftChild s p;
                       Some (temp, s)
                     } else Some (temp, s)) (\<lambda>(temp, s). temp \<in> insert LEAF (set xs) \<and> shape s0 xs s)" for c
    using s temp by (cases "c = BLACK") (simp_all only: if_True if_False refl node_color.distinct, (intro R, (assumption | simp)+)?, (simp add: safe_def)?)
  show ?thesis using s node temp
    apply (intro R)
    apply assumption+
    apply (rule safe_bind_pair [OF near])
    apply (simp only: prod.case)
    apply (elim conjE)
    apply (intro R)
    apply (assumption | simp)+
    done
qed

text \<open>A red sibling: it is rotated up, and the parent of the node is red from then on.\<close>

lemma red_sibling_left:
  assumes ok: "tree_ok s (plug ((True, p, u) # C) (Node l x r))"
  shows "\<exists>s' u' C'. (do { s \<leftarrow> wr (set_color BLACK) (root_of u) s; s \<leftarrow> wr (set_color RED) p s; s \<leftarrow> rotateToLeft s p;
      p \<leftarrow> rd parent s x; temp \<leftarrow> rd rightChild s p; Some (temp, s) }) = Some (root_of u', s') \<and>
    tree_ok s' (plug ((True, p, u') # C') (Node l x r)) \<and> inorder (plug ((True, p, u') # C') (Node l x r)) = inorder (plug ((True, p, u) # C) (Node l x r)) \<and>
    keeps s s' \<and> col (nodes s') p = RED"
proof -
  let ?t = "plug ((True, p, u) # C) (Node l x r)"
  have u: "root_of u \<in> set_tree ?t \<or> root_of u = LEAF" using root_of_in [of u] by (cases "u = Leaf") (auto simp: set_plug)
  from wr_color [OF ok u, of BLACK] obtain s1 where s1: "wr (set_color BLACK) (root_of u) s = Some s1" "tree_ok s1 ?t" "keeps s s1" by blast
  have p: "p \<in> set_tree ?t \<or> p = LEAF" by (simp add: set_plug)
  from wr_color [OF s1(2) p, of RED] obtain s2 where s2: "wr (set_color RED) p s1 = Some s2" "tree_ok s2 ?t" "keeps s1 s2" "col (nodes s2) p = RED" by auto
  have "\<exists>s' u' C'. rotateToLeft s2 p = Some s' \<and> tree_ok s' (plug ((True, p, u') # C') (Node l x r)) \<and> keeps s2 s' \<and> col (nodes s') p = RED \<and>
    inorder (plug ((True, p, u') # C') (Node l x r)) = inorder ?t"
  proof (cases u)
    case Leaf
    have "rd rightChild s2 p = Some LEAF" using tree_ok_at(1) [of s2 C "Node (Node l x r) p u"] s2(2) Leaf by (auto simp: rd_def)
    with s2 show ?thesis by (intro exI [of _ s2] exI [of _ u] exI [of _ C]) (simp add: rotateToLeft_def)
  next
    case (Node A y B)
    with rotateToLeft_ok [of s2 C "Node l x r" p A y B] s2(2) obtain s' where s': "rotateToLeft s2 p = Some s'"
      "tree_ok s' (plug C (Node (Node (Node l x r) p A) y B))" "same_attrs s2 s'" by auto
    with s2(4) same_attrs_keeps [OF s'(3)] same_attrs_col [OF s'(3)] Node show ?thesis
      by (intro exI [of _ s'] exI [of _ A] exI [of _ "(True, y, B) # C"]) (simp add: inorder_plug)
  qed
  then obtain s' u' C' where s': "rotateToLeft s2 p = Some s'" "tree_ok s' (plug ((True, p, u') # C') (Node l x r))" "keeps s2 s'" "col (nodes s') p = RED"
    "inorder (plug ((True, p, u') # C') (Node l x r)) = inorder ?t" by blast
  have "rd parent s' x = Some p" "rd rightChild s' p = Some (root_of u')"
    using tree_ok_at(1) [of s' C' "Node (Node l x r) p u'"] s'(2) by (auto simp: rd_def)
  moreover have "keeps s s'" using s1(3) s2(3) s'(3) keeps_trans by blast
  ultimately show ?thesis using s1 s2 s' by (intro exI [of _ s'] exI [of _ u'] exI [of _ C']) simp
qed

lemma red_sibling_right:
  assumes ok: "tree_ok s (plug ((False, p, u) # C) (Node l x r))"
  shows "\<exists>s' u' C'. (do { s \<leftarrow> wr (set_color BLACK) (root_of u) s; s \<leftarrow> wr (set_color RED) p s; s \<leftarrow> rotateToRight s p;
      p \<leftarrow> rd parent s x; temp \<leftarrow> rd leftChild s p; Some (temp, s) }) = Some (root_of u', s') \<and>
    tree_ok s' (plug ((False, p, u') # C') (Node l x r)) \<and> inorder (plug ((False, p, u') # C') (Node l x r)) = inorder (plug ((False, p, u) # C) (Node l x r)) \<and>
    keeps s s' \<and> col (nodes s') p = RED"
proof -
  let ?t = "plug ((False, p, u) # C) (Node l x r)"
  have u: "root_of u \<in> set_tree ?t \<or> root_of u = LEAF" using root_of_in [of u] by (cases "u = Leaf") (auto simp: set_plug)
  from wr_color [OF ok u, of BLACK] obtain s1 where s1: "wr (set_color BLACK) (root_of u) s = Some s1" "tree_ok s1 ?t" "keeps s s1" by blast
  have p: "p \<in> set_tree ?t \<or> p = LEAF" by (simp add: set_plug)
  from wr_color [OF s1(2) p, of RED] obtain s2 where s2: "wr (set_color RED) p s1 = Some s2" "tree_ok s2 ?t" "keeps s1 s2" "col (nodes s2) p = RED" by auto
  have "\<exists>s' u' C'. rotateToRight s2 p = Some s' \<and> tree_ok s' (plug ((False, p, u') # C') (Node l x r)) \<and> keeps s2 s' \<and> col (nodes s') p = RED \<and>
    inorder (plug ((False, p, u') # C') (Node l x r)) = inorder ?t"
  proof (cases u)
    case Leaf
    obtain n where "nodes s2 p = Some n" "leftChild n = LEAF" using tree_ok_at(1) [of s2 C "Node u p (Node l x r)"] s2(2) Leaf by auto
    then have "rd leftChild s2 p = Some LEAF" "rd rightChild s2 LEAF = Some LEAF" "wr (set_left LEAF) p s2 = Some s2"
      using rd_LEAF [OF s2(2)] by (auto simp: rd_def intro!: wr_idle)
    with s2 show ?thesis by (intro exI [of _ s2] exI [of _ u] exI [of _ C]) (simp add: rotateToRight_def)
  next
    case (Node A y B)
    with rotateToRight_ok [of s2 C A y B p "Node l x r"] s2(2) obtain s' where s': "rotateToRight s2 p = Some s'"
      "tree_ok s' (plug C (Node A y (Node B p (Node l x r))))" "same_attrs s2 s'" by auto
    with s2(4) same_attrs_keeps [OF s'(3)] same_attrs_col [OF s'(3)] Node show ?thesis
      by (intro exI [of _ s'] exI [of _ B] exI [of _ "(False, y, A) # C"]) (simp add: inorder_plug)
  qed
  then obtain s' u' C' where s': "rotateToRight s2 p = Some s'" "tree_ok s' (plug ((False, p, u') # C') (Node l x r))" "keeps s2 s'" "col (nodes s') p = RED"
    "inorder (plug ((False, p, u') # C') (Node l x r)) = inorder ?t" by blast
  have "rd parent s' x = Some p" "rd leftChild s' p = Some (root_of u')"
    using tree_ok_at(1) [of s' C' "Node u' p (Node l x r)"] s'(2) by (auto simp: rd_def)
  moreover have "keeps s s'" using s1(3) s2(3) s'(3) keeps_trans by blast
  ultimately show ?thesis using s1 s2 s' by (intro exI [of _ s'] exI [of _ u'] exI [of _ C']) simp
qed

text \<open>What an iteration does to the node: the loop ends with the next test, or the node is nearer to the root.\<close>

definition goes_up :: "pico_tree \<Rightarrow> u64 list \<Rightarrow> nat \<Rightarrow> u64 \<times> pico_tree \<Rightarrow> bool" where
  "goes_up s0 xs n = (\<lambda>(x, s). shape s0 xs s \<and> (x = root s \<or> (\<exists>C l r. tree_ok s (plug C (Node l x r)) \<and> inorder (plug C (Node l x r)) = xs \<and>
     (length C < n \<or> col (nodes s) x = RED))))"

lemma root_of_place: "root_of u \<in> insert LEAF (set_tree u)"
  by (cases u) auto

lemma shape_intro: "tree_ok s t \<Longrightarrow> inorder t = xs \<Longrightarrow> keeps s0 s \<Longrightarrow> shape s0 xs s"
  by (auto simp: shape_def)

lemma paint_sibling:
  assumes ok: "tree_ok s (plug C (Node l p r))" "inorder (plug C (Node l p r)) = xs" "keeps s0 s" and temp: "temp \<in> insert LEAF (set xs)"
    and x: "rd parent s x = Some p" and n: "length C < n \<or> col (nodes s) p = RED"
  shows "safe (do { s \<leftarrow> wr (set_color RED) temp s; p \<leftarrow> rd parent s x; Some (p, s) }) (goes_up s0 xs n)"
proof -
  have "temp \<in> set_tree (plug C (Node l p r)) \<or> temp = LEAF" using temp ok(2) by auto
  from wr_color [OF ok(1) this, of RED] obtain s' where s': "wr (set_color RED) temp s = Some s'" "tree_ok s' (plug C (Node l p r))" "keeps s s'"
    "col (nodes s') = (col (nodes s))(temp := RED)" by blast
  moreover have "rd parent s' x = Some p" using x rd_wr_color [OF s'(1)] by simp
  moreover have "shape s0 xs s'" using s' ok(2) keeps_trans [OF ok(3)] by (intro shape_intro) auto
  ultimately show ?thesis using n ok(2) by (auto simp: goes_up_def)
qed

text \<open>The state after the first part of an iteration; \<open>temp\<close> is the sibling of the node \<open>x\<close>.\<close>

definition sibling_ready :: "pico_tree \<Rightarrow> u64 list \<Rightarrow> nat \<Rightarrow> u64 \<Rightarrow> u64 \<Rightarrow> pico_tree \<Rightarrow> bool" where
  "sibling_ready s0 xs n x temp s \<longleftrightarrow> keeps s0 s \<and> x \<in> insert LEAF (set xs) \<and> temp \<in> insert LEAF (set xs) \<and>
     (\<exists>C l p r. tree_ok s (plug C (Node l p r)) \<and> inorder (plug C (Node l p r)) = xs \<and> rd parent s x = Some p \<and> (length C < n \<or> col (nodes s) p = RED))"

lemma sibling_readyI:
  assumes "tree_ok s (plug C (Node l p r))" and "inorder (plug C (Node l p r)) = xs" and "rd parent s x = Some p" and "length C < n \<or> col (nodes s) p = RED"
    and "keeps s0 s" and "x \<in> set xs" and "temp \<in> insert LEAF (set xs)"
  shows "sibling_ready s0 xs n x temp s"
  unfolding sibling_ready_def using assms by blast

lemma sibling_rest:
  assumes ready: "sibling_ready s0 xs n x temp s"
    and far: "shape s0 xs s \<Longrightarrow> x \<in> insert LEAF (set xs) \<Longrightarrow> temp \<in> insert LEAF (set xs) \<Longrightarrow> safe far (\<lambda>(x, s). x = root s \<and> shape s0 xs s)"
  shows "safe (do { b \<leftarrow> both_black temp s; if b then do { s \<leftarrow> wr (set_color RED) temp s; p \<leftarrow> rd parent s x; Some (p, s) } else far }) (goes_up s0 xs n)"
proof -
  from ready obtain C l p r where Q: "tree_ok s (plug C (Node l p r))" "inorder (plug C (Node l p r)) = xs" "rd parent s x = Some p" "length C < n \<or> col (nodes s) p = RED"
    "keeps s0 s" "x \<in> insert LEAF (set xs)" "temp \<in> insert LEAF (set xs)" by (auto simp: sibling_ready_def)
  have sh: "shape s0 xs s" using Q by (intro shape_intro)
  from both_black_place [OF sh Q(7)] obtain b where b: "both_black temp s = Some b" by (auto simp: safe_def)
  show ?thesis
  proof (cases b)
    case True
    with paint_sibling [OF Q(1,2,5,7,3,4)] b show ?thesis by simp
  next
    case False
    with far [OF sh Q(6,7)] b show ?thesis by (auto simp: safe_def goes_up_def)
  qed
qed

lemma fix_delete_left_ok:
  assumes ok: "tree_ok s (plug ((True, p, u) # C) (Node l x r))" and xs: "xs = inorder (plug ((True, p, u) # C) (Node l x r))"
  shows "safe (fix_delete_left x s) (goes_up s xs (Suc (length C)))"
proof -
  have at: "rd parent s x = Some p" "rd rightChild s p = Some (root_of u)"
    using tree_ok_at(1) [of s C "Node (Node l x r) p u"] ok by (auto simp: rd_def)
  have u: "root_of u \<in> set_tree (plug ((True, p, u) # C) (Node l x r)) \<or> root_of u = LEAF" using root_of_in [of u] by (cases "u = Leaf") (auto simp: set_plug)
  obtain c where c: "rd color s (root_of u) = Some c" using rd_color [OF ok u] by blast
  have ready: "sibling_ready s xs (Suc (length C)) x (root_of u') s'" if "tree_ok s' (plug ((True, p, u') # C') (Node l x r))"
    "inorder (plug ((True, p, u') # C') (Node l x r)) = xs" "keeps s s'" "C' = C \<or> col (nodes s') p = RED" for u' C' s'
    by (rule sibling_readyI [of s' C' "Node l x r" p u']) (use that tree_ok_at(1) [of s' C' "Node (Node l x r) p u'"] root_of_place [of u'] in \<open>auto simp: rd_def inorder_plug\<close>)
  have "safe (if c = RED then do { s \<leftarrow> wr (set_color BLACK) (root_of u) s; s \<leftarrow> wr (set_color RED) p s; s \<leftarrow> rotateToLeft s p;
      p \<leftarrow> rd parent s x; temp \<leftarrow> rd rightChild s p; Some (temp, s) } else Some (root_of u, s))
    (\<lambda>(temp, s'). sibling_ready s xs (Suc (length C)) x temp s')"
  proof (cases "c = RED")
    case True
    with red_sibling_left [OF ok] xs ready show ?thesis unfolding safe_def by (simp only: if_True) fastforce
  next
    case False
    with ready [of s u C] ok xs show ?thesis by simp
  qed
  then show ?thesis
    unfolding fix_delete_left_def at bind.bind_lunit c
    by (rule safe_bind_pair) (simp only: prod.case, rule sibling_rest, assumption, rule far_left_safe)
qed

lemma fix_delete_right_ok:
  assumes ok: "tree_ok s (plug ((False, p, u) # C) (Node l x r))" and xs: "xs = inorder (plug ((False, p, u) # C) (Node l x r))"
  shows "safe (fix_delete_right x s) (goes_up s xs (Suc (length C)))"
proof -
  have at: "rd parent s x = Some p" "rd leftChild s p = Some (root_of u)"
    using tree_ok_at(1) [of s C "Node u p (Node l x r)"] ok by (auto simp: rd_def)
  have u: "root_of u \<in> set_tree (plug ((False, p, u) # C) (Node l x r)) \<or> root_of u = LEAF" using root_of_in [of u] by (cases "u = Leaf") (auto simp: set_plug)
  obtain c where c: "rd color s (root_of u) = Some c" using rd_color [OF ok u] by blast
  have ready: "sibling_ready s xs (Suc (length C)) x (root_of u') s'" if "tree_ok s' (plug ((False, p, u') # C') (Node l x r))"
    "inorder (plug ((False, p, u') # C') (Node l x r)) = xs" "keeps s s'" "C' = C \<or> col (nodes s') p = RED" for u' C' s'
    by (rule sibling_readyI [of s' C' u' p "Node l x r"]) (use that tree_ok_at(1) [of s' C' "Node u' p (Node l x r)"] root_of_place [of u'] in \<open>auto simp: rd_def inorder_plug\<close>)
  have "safe (if c = RED then do { s \<leftarrow> wr (set_color BLACK) (root_of u) s; s \<leftarrow> wr (set_color RED) p s; s \<leftarrow> rotateToRight s p;
      p \<leftarrow> rd parent s x; temp \<leftarrow> rd leftChild s p; Some (temp, s) } else Some (root_of u, s))
    (\<lambda>(temp, s'). sibling_ready s xs (Suc (length C)) x temp s')"
  proof (cases "c = RED")
    case True
    with red_sibling_right [OF ok] xs ready show ?thesis unfolding safe_def by (simp only: if_True) fastforce
  next
    case False
    with ready [of s u C] ok xs show ?thesis by simp
  qed
  then show ?thesis
    unfolding fix_delete_right_def at bind.bind_lunit c
    by (rule safe_bind_pair) (simp only: prod.case, rule sibling_rest, assumption, rule far_right_safe)
qed

section \<open>The loop ends\<close>

lemma goes_up_place:
  assumes "goes_up s0 xs n (x, s)"
  shows "x \<in> insert LEAF (set xs)"
proof (cases "x = root s")
  case True
  from assms obtain t where "tree_ok s t" "inorder t = xs" by (auto simp: goes_up_def shape_def)
  with True root_of_place [of t] show ?thesis by (auto simp: tree_ok_def)
next
  case False
  with assms obtain C l r where "inorder (plug C (Node l x r)) = xs" by (auto simp: goes_up_def)
  then show ?thesis by (auto simp: inorder_plug)
qed

lemma fix_delete_step:
  assumes ok: "tree_ok s (plug C (Node l x r))" and xs: "xs = inorder (plug C (Node l x r))" and C: "C \<noteq> []"
  shows "safe (do { b \<leftarrow> AM_I_LEFT_CHILD s x; if b then fix_delete_left x s else fix_delete_right x s }) (goes_up s xs (length C))"
proof -
  obtain d p u C' where f: "C = (d, p, u) # C'" using C by (cases C) auto
  have "AM_I_LEFT_CHILD s x = Some d"
  proof (cases d)
    case True
    with tree_ok_at(1) [of s C' "Node (Node l x r) p u"] ok show ?thesis by (auto simp: AM_I_LEFT_CHILD_def rd_def f)
  next
    case False
    with tree_ok_at(1,3,4) [of s C' "Node u p (Node l x r)"] ok root_of_place [of u] show ?thesis by (auto simp: AM_I_LEFT_CHILD_def rd_def f)
  qed
  then show ?thesis using fix_delete_left_ok [of s p u C' l x r xs] fix_delete_right_ok [of s p u C' l x r xs] ok xs by (cases d) (simp_all add: f)
qed

lemma fix_delete_loop_exit:
  assumes "shape s0 xs s" and "x \<in> insert LEAF (set xs)" and "x = root s \<or> x = LEAF \<or> col (nodes s) x = RED"
  shows "fix_delete_loop x s = Some (x, s)"
proof -
  obtain t where "tree_ok s t" "inorder t = xs" using assms(1) by (auto simp: shape_def)
  with rd_color [of s t x] assms(2) have "rd color s x = Some (col (nodes s) x)" by auto
  with assms(3) show ?thesis by (auto simp: fix_delete_loop.simps [of x s])
qed

lemma fix_delete_loop_ok:
  assumes "tree_ok s (plug C (Node l x r))" and "xs = inorder (plug C (Node l x r))"
  shows "safe (fix_delete_loop x s) (\<lambda>(x, s'). x \<in> insert LEAF (set xs) \<and> shape s xs s')"
  using assms
proof (induction "length C" arbitrary: C l x r s rule: less_induct)
  case less
  let ?done = "\<lambda>s (x, s'). x \<in> insert LEAF (set xs) \<and> shape s xs s'"
  have sh: "shape s xs s" "x \<in> insert LEAF (set xs)" using less.prems by (auto simp: shape_def inorder_plug)
  show ?case
  proof (cases "x = root s \<or> x = LEAF \<or> col (nodes s) x = RED")
    case True
    with fix_delete_loop_exit [OF sh] sh show ?thesis by simp
  next
    case False
    then have "C \<noteq> []" using less.prems(1) by (auto simp: tree_ok_def)
    from fix_delete_step [OF less.prems this] obtain x' s' where s': "(do { b \<leftarrow> AM_I_LEFT_CHILD s x; if b then fix_delete_left x s else fix_delete_right x s }) = Some (x', s')"
      "goes_up s xs (length C) (x', s')" by (auto simp: safe_def)
    have "rd color s x = Some (col (nodes s) x)" using rd_color [OF less.prems(1), of x] by (simp add: set_plug)
    then have loop: "fix_delete_loop x s = fix_delete_loop x' s'"
      using False s'(1) by (cases "col (nodes s) x") (auto simp: fix_delete_loop.simps [of x s] split: bind_splits)
    have sh': "shape s xs s'" "shape s' xs s'" using s'(2) by (auto simp: goes_up_def shape_def)
    have x': "x' \<in> insert LEAF (set xs)" by (rule goes_up_place [OF s'(2)])
    have "safe (fix_delete_loop x' s') (?done s')"
    proof (cases "x' = root s' \<or> col (nodes s') x' = RED")
      case True
      with fix_delete_loop_exit [OF sh'(2) x'] x' sh' show ?thesis by auto
    next
      case False
      with s'(2) obtain C' l' r' where up: "tree_ok s' (plug C' (Node l' x' r'))" "xs = inorder (plug C' (Node l' x' r'))" "length C' < length C"
        by (auto simp: goes_up_def)
      show ?thesis by (rule less.hyps [OF up(3,1,2)])
    qed
    with sh' keeps_trans show ?thesis unfolding loop by (fastforce simp: safe_def shape_def)
  qed
qed

lemma fix_delete_collisions_ok:
  assumes "tree_ok s t" and "x \<in> insert LEAF (set_tree t)"
  shows "safe (fix_delete_collisions x s) (shape s (inorder t))"
proof -
  have sh: "shape s (inorder t) s" using assms by (auto simp: shape_def)
  have "safe (fix_delete_loop x s) (\<lambda>(x, s'). x \<in> insert LEAF (set (inorder t)) \<and> shape s (inorder t) s')"
  proof (cases "x = LEAF")
    case True
    with fix_delete_loop_exit [OF sh] sh show ?thesis by simp
  next
    case False
    with assms(2) obtain C l r where "t = plug C (Node l x r)" using plug_split [of x t] by auto
    with fix_delete_loop_ok [of s C l x r] assms(1) show ?thesis by blast
  qed
  then show ?thesis
    unfolding fix_delete_collisions_def by (rule safe_bind_pair) (auto intro: wr_color_place)
qed

end
