(* ===== verification/Pico_Tree_Walk.thy ===== *)
theory Pico_Tree_Walk
  imports Pico_Tree_Repair
begin

text \<open>
  Walking a tree: \<open>pico_tree_next\<close> goes to the next node of the in-order list, so that \<open>pico_tree_foreach\<close> visits the nodes in the order of their keys;
  \<open>pico_tree_first\<close> and \<open>pico_tree_last\<close> return the ends of it.
\<close>

definition first_or_leaf :: "u64 list \<Rightarrow> u64" where
  "first_or_leaf xs = (case xs of [] \<Rightarrow> LEAF | a # _ \<Rightarrow> a)"

lemma first_or_leaf_simps [simp]: "first_or_leaf [] = LEAF" "first_or_leaf (a # xs) = a"
  by (simp_all add: first_or_leaf_def)

lemma frame_rd:
  assumes "tree_ok s (plug ((b, p, u) # C) (Node l x r))"
  shows "rd parent s x = Some p" and "AM_I_LEFT_CHILD s x = Some b" and "AM_I_RIGHT_CHILD s x = Some (\<not> b)" and "p \<noteq> LEAF"
proof -
  have "rd parent s x = Some p \<and> AM_I_LEFT_CHILD s x = Some b \<and> AM_I_RIGHT_CHILD s x = Some (\<not> b) \<and> p \<noteq> LEAF"
  proof (cases b)
    case True
    with tree_ok_at(1,3,4) [of s C "Node (Node l x r) p u"] assms root_of_place [of u] show ?thesis
      by (auto simp: AM_I_LEFT_CHILD_def AM_I_RIGHT_CHILD_def rd_def)
  next
    case False
    with tree_ok_at(1,3,4) [of s C "Node u p (Node l x r)"] assms root_of_place [of u] show ?thesis
      by (auto simp: AM_I_LEFT_CHILD_def AM_I_RIGHT_CHILD_def rd_def)
  qed
  then show "rd parent s x = Some p" and "AM_I_LEFT_CHILD s x = Some b" and "AM_I_RIGHT_CHILD s x = Some (\<not> b)" and "p \<noteq> LEAF" by auto
qed

lemma climb_right_ok:
  assumes "tree_ok s (plug C (Node l x r))"
  shows "\<exists>n. climb_right s x = Some n \<and> rd parent s n = Some (first_or_leaf (after C))"
  using assms
proof (induction C arbitrary: l x r)
  case Nil
  then have "rd parent s x = Some LEAF" by (auto simp: tree_ok_def rd_def)
  then show ?case by (subst climb_right.simps) simp
next
  case (Cons f C)
  obtain b p u where f: "f = (b, p, u)" by (cases f)
  note rd = frame_rd [OF Cons.prems [unfolded f]]
  show ?case
  proof (cases b)
    case True
    with rd show ?thesis by (intro exI [of _ x]) (simp add: f climb_right.simps [of s x])
  next
    case False
    with rd Cons.IH [of u p "Node l x r"] Cons.prems show ?thesis by (simp add: f climb_right.simps [of s x])
  qed
qed

lemma distinct_split: "distinct (xs @ d # ys) \<Longrightarrow> us @ d # vs = xs @ d # ys \<Longrightarrow> us = xs \<and> vs = ys"
  by (metis append_Cons_eq_iff distinct_append distinct.simps(2) not_distinct_conv_prefix append_Cons disjoint_iff list.set_intros(1))

lemma pico_tree_next_ok:
  assumes ok: "tree_ok s t" and xs: "inorder t = xs @ x # ys"
  shows "pico_tree_next s x = Some (first_or_leaf ys)"
proof -
  have "x \<in> set_tree t" using xs by (metis in_set_conv_decomp set_inorder)
  then obtain C l r where t: "t = plug C (Node l x r)" using plug_split by blast
  note at = tree_ok_at [OF ok [unfolded t]]
  have d: "distinct (xs @ x # ys)" using ok xs by (simp add: tree_ok_def)
  have e: "(before C @ inorder l) @ x # (inorder r @ after C) = xs @ x # ys" using xs t by (simp add: inorder_plug)
  have ys: "ys = inorder r @ after C" using distinct_split [OF d e] by simp
  have x: "x \<noteq> 0" "rd rightChild s x = Some (root_of r)" "ptree (nodes s) x r" "rd parent s x = Some (up C)" using at(1,5) by (auto simp: rd_def)
  show ?thesis
  proof (cases "r = Leaf")
    case True
    from climb_right_ok [OF ok [unfolded t]] obtain n where n: "climb_right s x = Some n" "rd parent s n = Some (first_or_leaf (after C))" by blast
    show ?thesis
    proof (cases C)
      case Nil
      with True n x ys show ?thesis by (simp add: pico_tree_next_def)
    next
      case (Cons f C')
      obtain b p u where f: "f = (b, p, u)" by (cases f)
      note rd = frame_rd [OF ok [unfolded t Cons f]]
      from True n x ys rd Cons f show ?thesis by (cases b) (simp_all add: pico_tree_next_def)
    qed
  next
    case False
    from pico_tree_firstNode_ok [OF x(3) False] at(4) obtain D m rr where D: "r = plug D (Node Leaf m rr)" "before D = []" "pico_tree_firstNode s (root_of r) = Some m" by auto
    have "root_of r \<noteq> LEAF" using False at(4) root_of_LEAF [of r] by auto
    with D x ys show ?thesis by (simp add: pico_tree_next_def inorder_plug)
  qed
qed

lemma foreach_from_ok:
  assumes "tree_ok s t" and "inorder t = xs @ ys"
  shows "foreach_from s (first_or_leaf ys) = Some ys"
  using assms(2)
proof (induction ys arbitrary: xs)
  case Nil
  then show ?case by (subst foreach_from.simps) simp
next
  case (Cons y ys)
  have "y \<noteq> LEAF" using assms(1) Cons.prems by (metis first_or_leaf_simps in_set_conv_decomp set_inorder tree_ok_def)
  with pico_tree_next_ok [OF assms(1) Cons.prems] Cons.IH [of "xs @ [y]"] Cons.prems show ?case
    by (subst foreach_from.simps) simp
qed

lemma firstNode_first:
  assumes "tree_ok s t"
  shows "pico_tree_firstNode s (root s) = Some (first_or_leaf (inorder t))"
proof (cases "t = Leaf")
  case True
  with assms rd_LEAF [OF assms] show ?thesis by (auto simp: tree_ok_def pico_tree_firstNode.simps [of s LEAF])
next
  case False
  with assms pico_tree_firstNode_ok [of s LEAF t] show ?thesis by (auto simp: tree_ok_def inorder_plug)
qed

lemma pico_tree_foreach_ok: "tree_ok s t \<Longrightarrow> pico_tree_foreach s = Some (inorder t)"
  using firstNode_first [of s t] foreach_from_ok [of s t "[]"] by (simp add: pico_tree_foreach_def)

lemma rd_key: "tree_ok s t \<Longrightarrow> a \<in> insert LEAF (set_tree t) \<Longrightarrow> rd keyValue s a = Some (key_of (nodes s) a)"
  using tree_ok_dom [of s t a] by (auto simp: rd_def key_of_def)

lemma pico_tree_first_ok: "tree_ok s t \<Longrightarrow> pico_tree_first s = Some (key_of (nodes s) (first_or_leaf (inorder t)))"
  using firstNode_first [of s t] rd_key [of s t "first_or_leaf (inorder t)"]
  by (cases "inorder t") (auto simp: pico_tree_first_def simp flip: set_inorder)

section \<open>Walking backwards\<close>

definition last_or_leaf :: "u64 list \<Rightarrow> u64" where
  "last_or_leaf xs = (if xs = [] then LEAF else last xs)"

lemma last_or_leaf_simps [simp]: "last_or_leaf [] = LEAF" "last_or_leaf (xs @ a # ys) = (if ys = [] then a else last_or_leaf ys)"
  by (simp_all add: last_or_leaf_def)

lemma lastNode_last:
  assumes "ptree (nodes s) p t" and "t \<noteq> Leaf" and "LEAF \<notin> set_tree t"
  shows "pico_tree_lastNode s (root_of t) = Some (last_or_leaf (inorder t))"
  using assms
proof (induction t arbitrary: p)
  case (Node l a r)
  from Node.prems(1) have r: "rd rightChild s a = Some (root_of r)" "ptree (nodes s) a r" by (auto simp: rd_def)
  show ?case
  proof (cases "r = Leaf")
    case True
    with r show ?thesis by (simp add: pico_tree_lastNode.simps [of s a])
  next
    case False
    moreover have "root_of r \<noteq> LEAF" using False Node.prems(3) root_of_LEAF [of r] by auto
    moreover have "inorder r \<noteq> []" using False by (cases r) auto
    ultimately show ?thesis using Node.IH(2) [OF r(2)] Node.prems(3) r(1) by (simp add: pico_tree_lastNode.simps [of s a])
  qed
qed simp

lemma climb_left_ok:
  assumes "tree_ok s (plug C (Node l x r))"
  shows "\<exists>n. climb_left s x = Some n \<and> rd parent s n = Some (last_or_leaf (before C))"
  using assms
proof (induction C arbitrary: l x r)
  case Nil
  then have "rd parent s x = Some LEAF" "rd leftChild s LEAF = Some LEAF" "x \<noteq> LEAF" using rd_LEAF [OF Nil] by (auto simp: tree_ok_def rd_def)
  then show ?case by (intro exI [of _ x]) (simp add: climb_left.simps [of s x] AM_I_LEFT_CHILD_def)
next
  case (Cons f C)
  obtain b p u where f: "f = (b, p, u)" by (cases f)
  note rd = frame_rd [OF Cons.prems [unfolded f]]
  have x: "x \<noteq> LEAF" using tree_ok_at(4) [OF Cons.prems] by auto
  show ?case
  proof (cases b)
    case True
    with rd x Cons.IH [of "Node l x r" p u] Cons.prems show ?thesis by (simp add: f climb_left.simps [of s x])
  next
    case False
    with rd x show ?thesis by (intro exI [of _ x]) (simp add: f climb_left.simps [of s x] last_or_leaf_def)
  qed
qed

lemma pico_tree_prev_ok:
  assumes ok: "tree_ok s (plug C (Node l x r))"
  shows "pico_tree_prev s x = Some (last_or_leaf (before C @ inorder l))"
proof -
  note at = tree_ok_at [OF ok]
  have x: "rd leftChild s x = Some (root_of l)" "ptree (nodes s) x l" "rd parent s x = Some (up C)" using at(1) by (auto simp: rd_def)
  show ?thesis
  proof (cases "l = Leaf")
    case True
    from climb_left_ok [OF ok] obtain n where n: "climb_left s x = Some n" "rd parent s n = Some (last_or_leaf (before C))" by blast
    show ?thesis
    proof (cases C)
      case Nil
      with True n x show ?thesis by (simp add: pico_tree_prev_def)
    next
      case (Cons f C')
      obtain b p u where f: "f = (b, p, u)" by (cases f)
      note rd = frame_rd [OF ok [unfolded Cons f]]
      from True n x rd Cons f show ?thesis by (cases b) (simp_all add: pico_tree_prev_def last_or_leaf_def)
    qed
  next
    case False
    moreover have "root_of l \<noteq> LEAF" using False at(4) root_of_LEAF [of l] by auto
    moreover have "inorder l \<noteq> []" using False by (cases l) auto
    moreover have "last_or_leaf (before C @ inorder l) = last_or_leaf (inorder l)" using \<open>inorder l \<noteq> []\<close> by (simp add: last_or_leaf_def)
    ultimately show ?thesis using lastNode_last [OF x(2)] at(4) x(1) by (simp add: pico_tree_prev_def)
  qed
qed

lemma pico_tree_last_ok: "tree_ok s t \<Longrightarrow> pico_tree_last s = Some (key_of (nodes s) (last_or_leaf (inorder t)))"
proof (cases "t = Leaf")
  case True
  assume "tree_ok s t"
  with True rd_LEAF [of s t] rd_key [of s t LEAF] show ?thesis by (auto simp: pico_tree_last_def tree_ok_def pico_tree_lastNode.simps [of s LEAF])
next
  case False
  assume ok: "tree_ok s t"
  have "last_or_leaf (inorder t) \<in> set_tree t" using False by (cases t) (auto simp: last_or_leaf_def simp flip: set_inorder)
  with lastNode_last [of s LEAF t] False rd_key [OF ok] ok show ?thesis by (auto simp: pico_tree_last_def tree_ok_def)
qed

end
