(* ===== verification/Pico_Tree_Set.thy ===== *)
theory Pico_Tree_Set
  imports Pico_Tree_Walk
begin

text \<open>
  The tree as a set: what \<open>pico_tree.h\<close> promises, as a step relation on the list of the keys in their order, and the proof that every sequence of insertions, deletions and searches
  follows it.  The second part is about the colours: insertion keeps the tree balanced, deletion does not.
\<close>

section \<open>Calls and their contract\<close>

datatype tree_op = Insert u64 | Delete u64 | Find u64

primrec op_key :: "tree_op \<Rightarrow> u64" where
  "op_key (Insert k) = k"
| "op_key (Delete k) = k"
| "op_key (Find k) = k"

primrec do_op :: "comparison \<Rightarrow> allocator \<Rightarrow> tree_op \<Rightarrow> pico_tree \<Rightarrow> (u64 \<times> pico_tree) option" where
  "do_op compare zalloc (Insert k) s = pico_tree_insert compare zalloc k s"
| "do_op compare zalloc (Delete k) s = pico_tree_delete compare k s"
| "do_op compare zalloc (Find k) s = do { r \<leftarrow> pico_tree_findKey compare s k; Some (r, s) }"

primrec do_ops :: "comparison \<Rightarrow> allocator \<Rightarrow> tree_op list \<Rightarrow> pico_tree \<Rightarrow> (u64 list \<times> pico_tree) option" where
  "do_ops compare zalloc [] s = Some ([], s)"
| "do_ops compare zalloc (x # xs) s = do {
     (r, s) \<leftarrow> do_op compare zalloc x s;
     (rs, s) \<leftarrow> do_ops compare zalloc xs s;
     Some (r # rs, s)
   }"

text \<open>The contract of an operation on the keys in the set; \<open>m\<close> tells whether there is memory for one more node.\<close>

definition put_key :: "comparison \<Rightarrow> u64 \<Rightarrow> u64 list \<Rightarrow> u64 list" where
  "put_key compare k K = takeWhile (\<lambda>x. compare x k < 0) K @ k # dropWhile (\<lambda>x. compare x k < 0) K"

inductive set_op :: "comparison \<Rightarrow> bool \<Rightarrow> u64 list \<Rightarrow> tree_op \<Rightarrow> u64 \<Rightarrow> u64 list \<Rightarrow> bool" for compare m where
  inserted: "m \<Longrightarrow> \<forall>x \<in> set K. compare x k \<noteq> 0 \<Longrightarrow> set_op compare m K (Insert k) 0 (put_key compare k K)"
| no_memory: "\<not> m \<Longrightarrow> \<forall>x \<in> set K. compare x k \<noteq> 0 \<Longrightarrow> set_op compare m K (Insert k) LEAF K"
| exists_already: "x \<in> set K \<Longrightarrow> compare x k = 0 \<Longrightarrow> set_op compare m K (Insert k) x K"
| deleted: "x \<in> set K \<Longrightarrow> compare x k = 0 \<Longrightarrow> set_op compare m K (Delete k) x (remove1 x K)"
| delete_absent: "\<forall>x \<in> set K. compare x k \<noteq> 0 \<Longrightarrow> set_op compare m K (Delete k) 0 K"
| found: "x \<in> set K \<Longrightarrow> compare x k = 0 \<Longrightarrow> set_op compare m K (Find k) x K"
| find_absent: "\<forall>x \<in> set K. compare x k \<noteq> 0 \<Longrightarrow> set_op compare m K (Find k) 0 K"

inductive set_ops :: "comparison \<Rightarrow> bool list \<Rightarrow> u64 list \<Rightarrow> tree_op list \<Rightarrow> u64 list \<Rightarrow> u64 list \<Rightarrow> bool" for compare where
  "set_ops compare [] K [] [] K"
| "set_op compare m K x r K1 \<Longrightarrow> set_ops compare ms K1 xs rs K2 \<Longrightarrow> set_ops compare (m # ms) K (x # xs) (r # rs) K2"

text \<open>Before which operations of a sequence the allocator has a node to give.\<close>

primrec memory :: "comparison \<Rightarrow> allocator \<Rightarrow> tree_op list \<Rightarrow> pico_tree \<Rightarrow> bool list" where
  "memory compare zalloc [] s = []"
| "memory compare zalloc (x # xs) s = (zalloc (nodes s) \<noteq> 0) # (case do_op compare zalloc x s of Some (_, s) \<Rightarrow> memory compare zalloc xs s | None \<Rightarrow> [])"

definition zalloc_ok :: "allocator \<Rightarrow> bool" where
  "zalloc_ok zalloc \<longleftrightarrow> (\<forall>h. zalloc h \<noteq> 0 \<longrightarrow> h (zalloc h) = None)"

text \<open>The tree holds the keys \<open>K\<close>, and the heap exactly its nodes and the sentinel.\<close>

definition holds :: "comparison \<Rightarrow> pico_tree \<Rightarrow> u64 tree \<Rightarrow> u64 list \<Rightarrow> bool" where
  "holds compare s t K \<longleftrightarrow> tree_ok s t \<and> ordered compare (nodes s) (inorder t) \<and> K = map (key_of (nodes s)) (inorder t) \<and>
     dom (nodes s) = insert LEAF (set_tree t) \<and> 0 \<notin> set K"

section \<open>Deletion\<close>

lemma shape_free:
  assumes "tree_ok s t" and "a \<notin> set_tree t" and "a \<noteq> LEAF"
  shows "tree_ok (s\<lparr>nodes := (nodes s)(a := None)\<rparr>) t"
proof -
  have "\<forall>x \<in> set_tree t. links (nodes s) x = links ((nodes s)(a := None)) x" using assms(2) by (auto simp: links_def)
  with assms ptree_cong [of t "nodes s" "(nodes s)(a := None)" LEAF] show ?thesis by (auto simp: tree_ok_def leaf_ok_def)
qed

lemma delete_found_ok:
  assumes ok: "tree_ok s t" and xs: "inorder t = xs @ d # ys"
  shows "\<exists>s' t'. (do { (nodeColor, temp, s) \<leftarrow> pico_tree_delete_check_switch d s; if_nodecolor_black_fix_collisions temp nodeColor s }) = Some s' \<and>
    tree_ok s' t' \<and> inorder t' = xs @ ys \<and> keeps s s'"
proof -
  have "d \<in> set_tree t" using xs by (metis in_set_conv_decomp set_inorder)
  then obtain C l r where t: "t = plug C (Node l d r)" using plug_split by blast
  have "distinct (xs @ d # ys)" using ok xs by (simp add: tree_ok_def)
  moreover have "(before C @ inorder l) @ d # (inorder r @ after C) = xs @ d # ys" using xs t by (simp add: inorder_plug)
  ultimately have split: "before C @ inorder l = xs" "inorder r @ after C = ys" using distinct_split by metis+
  from pico_tree_delete_check_switch_ok [OF ok [unfolded t]] obtain c temp s1 t1 where s1: "pico_tree_delete_check_switch d s = Some (c, temp, s1)" "tree_ok s1 t1"
    "inorder t1 = xs @ ys" "temp \<in> insert LEAF (set_tree t1)" "keeps s s1" using split by auto
  have "safe (if_nodecolor_black_fix_collisions temp c s1) (shape s1 (xs @ ys))"
    using fix_delete_collisions_ok [OF s1(2,4)] shape_keep [OF s1(2)] s1(3) by (simp add: if_nodecolor_black_fix_collisions_def)
  with s1 keeps_trans show ?thesis unfolding safe_def shape_def by fastforce
qed

lemma key_of_free: "x \<noteq> a \<Longrightarrow> key_of (h(a := None)) x = key_of h x"
  by (simp add: key_of_def)

section \<open>Every operation follows the contract\<close>

context key_order
begin

lemma refl_0: "compare a a = 0"
  using anti [of a a] by linarith

lemma ordered_split:
  assumes "ordered compare h (xs @ a # ys)"
  shows "\<forall>x \<in> set xs. compare (key_of h x) (key_of h a) < 0" and "\<forall>y \<in> set ys. compare (key_of h a) (key_of h y) < 0" and "ordered compare h (xs @ ys)"
  using assms trans by (auto simp: ordered_def sorted_wrt_append)

lemma delete_follows:
  assumes "holds compare s t K" and "k \<noteq> 0"
  shows "\<exists>r s' t' K'. pico_tree_delete compare k s = Some (r, s') \<and> holds compare s' t' K' \<and> set_op compare m K (Delete k) r K'"
proof -
  let ?k = "key_of (nodes s)"
  have h: "tree_ok s t" "ordered compare (nodes s) (inorder t)" "K = map ?k (inorder t)" "dom (nodes s) = insert LEAF (set_tree t)" "0 \<notin> set K"
    using assms(1) unfolding holds_def by blast+
  from pico_tree_findNode_ok [OF h(1,2), of k] show ?thesis
  proof (elim disjE bexE conjE)
    assume none: "pico_tree_findNode compare s k = Some 0" "\<forall>a \<in> set_tree t. compare (?k a) k \<noteq> 0"
    then have "set_op compare m K (Delete k) 0 K" by (intro delete_absent) (simp add: h(3))
    with none(1) assms show ?thesis
      by (intro exI [of _ 0] exI [of _ s] exI [of _ t] exI [of _ K]) (simp add: pico_tree_delete_def pico_tree_delete_implementation_def)
  next
    fix d
    assume d: "d \<in> set_tree t" "pico_tree_findNode compare s k = Some d" "compare (?k d) k = 0"
    from d(1) obtain xs ys where xs: "inorder t = xs @ d # ys" by (metis set_inorder split_list)
    from delete_found_ok [OF h(1) xs] obtain s1 t' where s1: "(do { (nodeColor, temp, s) \<leftarrow> pico_tree_delete_check_switch d s; if_nodecolor_black_fix_collisions temp nodeColor s }) = Some s1"
      "tree_ok s1 t'" "inorder t' = xs @ ys" "keeps s s1" by blast
    define s' where "s' = s1\<lparr>nodes := (nodes s1)(d := None)\<rparr>"
    have dd: "d \<noteq> 0" "d \<noteq> LEAF" "d \<notin> set_tree t'" "distinct (xs @ d # ys)" using h(1) d(1) xs s1(3) by (auto simp: tree_ok_def simp flip: set_inorder)
    have rd: "rd keyValue s d = Some (?k d)" using tree_ok_dom [OF h(1), of d] d(1) by (auto simp: rd_def key_of_def)
    have run: "pico_tree_delete compare k s = Some (?k d, s')"
      using assms(2) d(2) dd(1) rd s1(1) by (auto simp: pico_tree_delete_def pico_tree_delete_implementation_def s'_def split: bind_splits)
    have k': "key_of (nodes s') x = ?k x" if "x \<in> set (xs @ ys)" for x
    proof -
      have "x \<noteq> d" using that dd(4) by auto
      with s1(4) key_of_free [of x d "nodes s1"] show ?thesis by (simp add: s'_def keeps_def)
    qed
    note o = ordered_split [OF h(2) [unfolded xs]]
    have K': "remove1 (?k d) K = map ?k (xs @ ys)" using o(1) refl_0 by (auto simp: h(3) xs remove1_append)
    have "holds compare s' t' (remove1 (?k d) K)" unfolding holds_def
    proof (intro conjI)
      show "tree_ok s' t'" unfolding s'_def by (rule shape_free [OF s1(2) dd(3,2)])
      show "ordered compare (nodes s') (inorder t')" unfolding s1(3) using ordered_cong [OF _ o(3)] k' by blast
      show "remove1 (?k d) K = map (key_of (nodes s')) (inorder t')" using k' by (simp add: K' s1(3))
      show "dom (nodes s') = insert LEAF (set_tree t')" using s1(3,4) h(4) xs dd by (auto simp: s'_def keeps_def simp flip: set_inorder)
      show "0 \<notin> set (remove1 (?k d) K)" using h(5) by (meson notin_set_remove1)
    qed
    moreover have "set_op compare m K (Delete k) (?k d) (remove1 (?k d) K)" using d by (intro deleted) (auto simp: h(3))
    ultimately show ?thesis using run by blast
  qed
qed

lemma ordered_inj:
  assumes "ordered compare h xs" and "a \<in> set xs" and "b \<in> set xs" and "compare (key_of h a) (key_of h b) = 0"
  shows "a = b"
  using assms
proof (induction xs)
  case (Cons x xs)
  then show ?case using eq_sym [of "key_of h a" "key_of h b"] by (auto simp: ordered_def)
qed simp

lemma findNode_at:
  assumes "tree_ok s t" and "ordered compare (nodes s) (inorder t)" and "a \<in> set_tree t"
  shows "pico_tree_findNode compare s (key_of (nodes s) a) = Some a"
  using pico_tree_findNode_ok [OF assms(1,2), of "key_of (nodes s) a"] ordered_inj [OF assms(2)] assms(3) refl_0 [of "key_of (nodes s) a"] by fastforce

lemma put_key_split:
  assumes "\<forall>x \<in> set A. compare x k < 0" and "\<forall>y \<in> set B. compare k y < 0"
  shows "put_key compare k (A @ B) = A @ k # B"
proof -
  have "\<not> compare y k < 0" if "y \<in> set B" for y using assms(2) that anti [of k y] by auto
  then have "takeWhile (\<lambda>x. compare x k < 0) B = []" "dropWhile (\<lambda>x. compare x k < 0) B = B" by (cases B; simp)+
  then show ?thesis using assms(1) by (simp add: put_key_def)
qed

lemma insert_follows:
  assumes "holds compare s t K" and "k \<noteq> 0" and z: "zalloc_ok zalloc"
  shows "\<exists>r s' t' K'. pico_tree_insert compare zalloc k s = Some (r, s') \<and> holds compare s' t' K' \<and> set_op compare (zalloc (nodes s) \<noteq> 0) K (Insert k) r K' \<and> (balanced s t \<longrightarrow> balanced s' t')"
proof -
  let ?k = "key_of (nodes s)"
  have h: "tree_ok s t" "ordered compare (nodes s) (inorder t)" "K = map ?k (inorder t)" "dom (nodes s) = insert LEAF (set_tree t)" "0 \<notin> set K"
    using assms(1) unfolding holds_def by blast+
  have err: "holds compare (s\<lparr>pico_err := e\<rparr>) t K \<and> (balanced s t \<longrightarrow> balanced (s\<lparr>pico_err := e\<rparr>) t)" for e
    using h by (simp add: holds_def tree_ok_def balanced_def)
  from pico_tree_findKey_ok [OF h(1,2), of k] show ?thesis
  proof (elim disjE bexE conjE)
    fix a
    assume a: "a \<in> set_tree t" "pico_tree_findKey compare s k = Some (?k a)" "compare (?k a) k = 0"
    have "root s \<noteq> LEAF" using a(1) h(1) by (cases t) (auto simp: tree_ok_def)
    moreover have "?k a \<noteq> 0" using h(3,5) a(1) by force
    moreover have "set_op compare (zalloc (nodes s) \<noteq> 0) K (Insert k) (?k a) K" using a by (intro exists_already) (auto simp: h(3))
    ultimately show ?thesis using err a(2)
      by (intro exI [of _ "?k a"] exI [of _ "s\<lparr>pico_err := PICO_ERR_EEXIST\<rparr>"] exI [of _ t] exI [of _ K])
        (simp add: pico_tree_insert_def pico_tree_insert_implementation_def)
  next
    assume none: "pico_tree_findKey compare s k = Some 0" "\<forall>a \<in> set_tree t. compare (?k a) k \<noteq> 0"
    then have absent: "\<forall>x \<in> set K. compare x k \<noteq> 0" by (simp add: h(3))
    let ?new = "zalloc (nodes s)"
    show ?thesis
    proof (cases "?new = 0")
      case True
      with none(1) err no_memory [where compare = compare, OF _ absent, of False] show ?thesis
        by (intro exI [of _ LEAF] exI [of _ "s\<lparr>pico_err := PICO_ERR_ENOMEM\<rparr>"] exI [of _ t] exI [of _ K])
          (simp add: pico_tree_insert_def pico_tree_insert_implementation_def create_node_def)
    next
      case False
      then have fresh: "nodes s ?new = None" using z by (simp add: zalloc_ok_def)
      from insert_new_ok [OF h(1,2) fresh False none(2) refl] obtain s' t' xs ys where s':
        "(do { s \<leftarrow> pico_tree_insert_node compare ?new (s\<lparr>nodes := (nodes s)(?new \<mapsto> \<lparr>keyValue = k, parent = LEAF, leftChild = LEAF, rightChild = LEAF, color = RED\<rparr>)\<rparr>);
          s \<leftarrow> fix_insert_collisions ?new s; Some (0 :: u64, s) }) = Some (0, s')" and
        t': "tree_ok s' t'" "ordered compare (nodes s') (inorder t')" "inorder t = xs @ ys" "inorder t' = xs @ ?new # ys" "key_of (nodes s') = ?k(?new := k)"
          "dom (nodes s') = insert ?new (dom (nodes s))" "balanced s t \<longrightarrow> balanced s' t'" by blast
      have run: "pico_tree_insert compare zalloc k s = Some (0, s')"
        using none(1) False s' by (simp add: pico_tree_insert_def pico_tree_insert_implementation_def create_node_def Let_def)
      have new: "?new \<notin> set (xs @ ys)" using t'(1,4) by (auto simp: tree_ok_def)
      note o = ordered_split [OF t'(2) [unfolded t'(4)]]
      have "put_key compare k K = map ?k xs @ k # map ?k ys"
        unfolding h(3) t'(3) map_append using o(1,2) new by (intro put_key_split) (auto simp: t'(5) split: if_splits)
      then have K': "put_key compare k K = map (key_of (nodes s')) (inorder t')" using new by (auto simp: t'(4,5))
      have "holds compare s' t' (put_key compare k K)" unfolding holds_def
      proof (intro conjI)
        show "dom (nodes s') = insert LEAF (set_tree t')" using t'(3,4,6) h(4) by (auto simp flip: set_inorder)
        show "0 \<notin> set (put_key compare k K)" using h(3,5) assms(2) by (auto simp: put_key_def dest: set_takeWhileD set_dropWhileD)
      qed (use t' K' in auto)
      with run t'(7) inserted [where compare = compare, OF False absent] show ?thesis by blast
    qed
  qed
qed

lemma find_follows:
  assumes "holds compare s t K"
  shows "\<exists>r. pico_tree_findKey compare s k = Some r \<and> set_op compare m K (Find k) r K"
proof -
  have h: "tree_ok s t" "ordered compare (nodes s) (inorder t)" "K = map (key_of (nodes s)) (inorder t)" using assms unfolding holds_def by blast+
  from pico_tree_findKey_ok [OF h(1,2), of k] show ?thesis
  proof (elim disjE bexE conjE)
    fix a assume "a \<in> set_tree t" "pico_tree_findKey compare s k = Some (key_of (nodes s) a)" "compare (key_of (nodes s) a) k = 0"
    moreover from this have "set_op compare m K (Find k) (key_of (nodes s) a) K" by (intro found) (auto simp: h(3))
    ultimately show ?thesis by blast
  next
    assume "pico_tree_findKey compare s k = Some 0" "\<forall>a \<in> set_tree t. compare (key_of (nodes s) a) k \<noteq> 0"
    moreover from this have "set_op compare m K (Find k) 0 K" by (intro find_absent) (simp add: h(3))
    ultimately show ?thesis by blast
  qed
qed

lemma op_follows:
  assumes "holds compare s t K" and "op_key x \<noteq> 0" and "zalloc_ok zalloc"
  shows "\<exists>r s' t' K'. do_op compare zalloc x s = Some (r, s') \<and> holds compare s' t' K' \<and> set_op compare (zalloc (nodes s) \<noteq> 0) K x r K' \<and>
    ((\<nexists>k. x = Delete k) \<longrightarrow> balanced s t \<longrightarrow> balanced s' t')"
proof (cases x)
  case (Insert k)
  with insert_follows [OF assms(1) _ assms(3), of k] assms(2) show ?thesis by simp
next
  case (Delete k)
  with delete_follows [OF assms(1), of k] assms(2) show ?thesis by simp
next
  case (Find k)
  with find_follows [OF assms(1), of k] assms(1) show ?thesis by fastforce
qed

lemma ops_follow:
  assumes "holds compare s t K" and "\<forall>x \<in> set xs. op_key x \<noteq> 0" and "zalloc_ok zalloc"
  shows "\<exists>rs s' t' K'. do_ops compare zalloc xs s = Some (rs, s') \<and> holds compare s' t' K' \<and> set_ops compare (memory compare zalloc xs s) K xs rs K' \<and>
    ((\<forall>k. Delete k \<notin> set xs) \<longrightarrow> balanced s t \<longrightarrow> balanced s' t')"
  using assms(1,2)
proof (induction xs arbitrary: s t K)
  case Nil
  then show ?case by (auto intro: set_ops.intros)
next
  case (Cons x xs)
  have keys: "op_key x \<noteq> 0" "\<forall>x \<in> set xs. op_key x \<noteq> 0" using Cons.prems(2) by auto
  from op_follows [OF Cons.prems(1) keys(1) assms(3)] obtain r s1 t1 K1 where x: "do_op compare zalloc x s = Some (r, s1)" "holds compare s1 t1 K1"
    "set_op compare (zalloc (nodes s) \<noteq> 0) K x r K1" "(\<nexists>k. x = Delete k) \<longrightarrow> balanced s t \<longrightarrow> balanced s1 t1" by blast
  from Cons.IH [OF x(2) keys(2)] obtain rs s' t' K' where "do_ops compare zalloc xs s1 = Some (rs, s')" "holds compare s' t' K'" "set_ops compare (memory compare zalloc xs s1) K1 xs rs K'"
    "(\<forall>k. Delete k \<notin> set xs) \<longrightarrow> balanced s1 t1 \<longrightarrow> balanced s' t'" by blast
  with x set_ops.intros(2) [OF x(3)] show ?case
    by (intro exI [of _ "r # rs"] exI [of _ s'] exI [of _ t'] exI [of _ K']) auto
qed

end

lemma empty_holds: "holds compare pico_tree_0 Leaf []"
  by (simp add: holds_def tree_ok_def leaf_ok_def pico_tree_0_def LEAF_node_def ordered_def)

lemma empty_balanced: "balanced pico_tree_0 Leaf"
  by (simp add: balanced_def pico_tree_0_def LEAF_node_def col_def)

section \<open>Balance\<close>

lemma rb_height: "rb c n t \<Longrightarrow> height t \<le> 2 * n + (if black c t then 0 else 1)"
proof (induction t arbitrary: n)
  case (Node l a r)
  show ?case
  proof (cases "c a = BLACK")
    case True
    with Node.prems Node.IH(1) [of "n - 1"] Node.IH(2) [of "n - 1"] show ?thesis by (auto split: if_splits)
  next
    case False
    with Node.prems Node.IH(1) [of n] Node.IH(2) [of n] show ?thesis by simp
  qed
qed simp

lemma rb_size: "rb c n t \<Longrightarrow> 2 ^ n \<le> size1 t"
proof (induction t arbitrary: n)
  case (Node l a r)
  show ?case
  proof (cases "c a = BLACK")
    case True
    with Node.prems Node.IH(1) [of "n - 1"] Node.IH(2) [of "n - 1"] show ?thesis by (cases n) auto
  next
    case False
    with Node.prems Node.IH(1) [of n] show ?thesis by simp
  qed
qed simp

lemma balanced_height:
  assumes "balanced s t"
  shows "2 ^ (height t div 2) \<le> length (inorder t) + 1"
proof -
  from assms obtain n where n: "rb (col (nodes s)) n t" "black (col (nodes s)) t" by (auto simp: balanced_def)
  have "(2 :: nat) ^ (height t div 2) \<le> 2 ^ n" using rb_height [OF n(1)] n(2) by (intro power_increasing) auto
  also have "\<dots> \<le> size1 t" by (rule rb_size [OF n(1)])
  finally show ?thesis by (simp add: size1_size)
qed

lemma rb_unique: "rb c n t \<Longrightarrow> rb c m t \<Longrightarrow> n = m"
proof (induction t arbitrary: n m)
  case (Node l a r)
  show ?case
  proof (cases "c a = BLACK")
    case True
    with Node.prems Node.IH(1) [of "n - 1" "m - 1"] show ?thesis by (cases n; cases m) auto
  next
    case False
    with Node.prems Node.IH(1) [of n m] show ?thesis by simp
  qed
qed simp

lemma unbalanced_cut:
  assumes "rb c m (plug C (Node Leaf d Leaf))" and "c d = BLACK" and "C \<noteq> []"
  shows "\<not> rb c k (plug C Leaf)"
proof
  assume "rb c k (plug C Leaf)"
  obtain b a u C' where C: "C = (b, a, u) # C'" using assms(3) by (cases C) auto
  from rb_plugD [OF assms(1)] obtain n where "rb c n (Node Leaf d Leaf)" "rbctx c n C" by blast
  then have "rb c 1 u" using assms(2) by (cases n) (auto simp: C)
  moreover from rb_plugD [OF \<open>rb c k (plug C Leaf)\<close>] have "rb c 0 u" by (auto simp: C)
  ultimately show False using rb_unique by fastforce
qed

lemma wr_leaf_black:
  assumes "tree_ok s t" and "col (nodes s) LEAF = BLACK"
  shows "wr (set_color BLACK) LEAF s = Some s"
proof -
  obtain n where "nodes s LEAF = Some n" using assms(1) by (auto simp: tree_ok_def leaf_ok_def)
  with assms(2) show ?thesis by (intro wr_idle) (auto simp: col_def)
qed

text \<open>Where the removed node was black and no child takes its place, the loop stops at the sentinel at once.\<close>

lemma delete_black_leaf:
  assumes ok: "tree_ok s (plug C (Node Leaf d Leaf))" and black: "col (nodes s) d = BLACK" "col (nodes s) LEAF = BLACK"
  shows "\<exists>s'. (do { (nodeColor, temp, s) \<leftarrow> pico_tree_delete_check_switch d s; if_nodecolor_black_fix_collisions temp nodeColor s }) = Some s' \<and>
    tree_ok s' (plug C Leaf) \<and> col (nodes s') = col (nodes s)"
proof -
  from switchNodes_cut [OF ok, of Leaf] obtain s1 where s1: "switchNodes d LEAF s = Some s1" "tree_ok s1 (plug C Leaf)" "same_attrs s s1" by auto
  note c1 = same_attrs_col [OF s1(3)]
  have rd: "rd color s d = Some BLACK" "rd leftChild s d = Some LEAF" "rd rightChild s d = Some LEAF" "rd color s1 LEAF = Some BLACK"
    using tree_ok_at(1) [OF ok] rd_color [OF ok, of d] rd_color [OF s1(2), of LEAF] black c1 by (auto simp: rd_def set_plug)
  have "fix_delete_collisions LEAF s1 = Some s1"
    using rd(4) wr_leaf_black [OF s1(2)] black(2) c1 by (simp add: fix_delete_collisions_def fix_delete_loop.simps [of LEAF])
  with rd s1 c1 show ?thesis by (simp add: pico_tree_delete_check_switch_def if_nodecolor_black_fix_collisions_def)
qed

section \<open>Properties\<close>

text \<open>C7. For every comparison that is an order, an empty tree and any sequence of insertions, deletions and searches: no operation fails or runs forever, and their results are those of
  an ordered set of keys.  An insertion puts the key at its place or returns the equal key that is there, or the sentinel when there is no memory; a deletion removes exactly the equal key and returns it;
  a search returns the equal key, or null.  At the end \<open>pico_tree_foreach\<close> visits exactly the keys of the set in ascending order, and the heap holds nothing but their nodes and the sentinel.\<close>

theorem tree_is_ordered_set:
  assumes "key_order compare" and "zalloc_ok zalloc" and "\<forall>x \<in> set xs. op_key x \<noteq> 0"
  shows "\<exists>rs s K ns. do_ops compare zalloc xs pico_tree_0 = Some (rs, s) \<and> set_ops compare (memory compare zalloc xs pico_tree_0) [] xs rs K \<and>
    pico_tree_foreach s = Some ns \<and> map (key_of (nodes s)) ns = K \<and> sorted_wrt (\<lambda>a b. compare a b < 0) K \<and> dom (nodes s) = insert LEAF (set ns)"
proof -
  from key_order.ops_follow [OF assms(1) empty_holds assms(3,2)] obtain rs s t K where run: "do_ops compare zalloc xs pico_tree_0 = Some (rs, s)"
    "set_ops compare (memory compare zalloc xs pico_tree_0) [] xs rs K" and h: "holds compare s t K" by blast
  then have "tree_ok s t" "ordered compare (nodes s) (inorder t)" "map (key_of (nodes s)) (inorder t) = K" "dom (nodes s) = insert LEAF (set (inorder t))"
    by (auto simp: holds_def)
  moreover from this(2,3) have "sorted_wrt (\<lambda>a b. compare a b < 0) K" by (auto simp: ordered_def sorted_wrt_map)
  ultimately show ?thesis using run pico_tree_foreach_ok by blast
qed

text \<open>The devices of the stack, with the hash of a device given by its address, and an allocator with three nodes.\<close>

definition three_nodes :: allocator where
  "three_nodes h = (if h 0x1000 = None then 0x1000 else if h 0x1020 = None then 0x1020 else if h 0x1040 = None then 0x1040 else 0)"

lemma three_nodes_ok: "zalloc_ok three_nodes"
  by (simp add: zalloc_ok_def three_nodes_def)

lemma run_example:
  "map_option fst (do_ops (pico_dev_cmp ucast) three_nodes [Insert 30, Insert 10, Delete 30, Find 10, Insert 20, Insert 40, Insert 50] pico_tree_0) = Some [0, 0, 30, 10, 0, 0, LEAF]"
  by code_simp

theorem tree_is_ordered_set_witness:
  "map_option fst (do_ops (pico_dev_cmp ucast) three_nodes [Insert 30, Insert 10, Delete 30, Find 10, Insert 20, Insert 40, Insert 50] pico_tree_0) = Some [0, 0, 30, 10, 0, 0, LEAF] \<and>
   (\<exists>rs s K ns. do_ops (pico_dev_cmp ucast) three_nodes [Insert 30, Insert 10, Delete 30, Find 10, Insert 20, Insert 40, Insert 50] pico_tree_0 = Some (rs, s) \<and>
    set_ops (pico_dev_cmp ucast) (memory (pico_dev_cmp ucast) three_nodes [Insert 30, Insert 10, Delete 30, Find 10, Insert 20, Insert 40, Insert 50] pico_tree_0) []
      [Insert 30, Insert 10, Delete 30, Find 10, Insert 20, Insert 40, Insert 50] rs K \<and>
    pico_tree_foreach s = Some ns \<and> map (key_of (nodes s)) ns = K \<and> sorted_wrt (\<lambda>a b. pico_dev_cmp ucast a b < 0) K \<and> dom (nodes s) = insert LEAF (set ns))"
  by (rule conjI [OF run_example], rule tree_is_ordered_set [OF dev.key_order_axioms three_nodes_ok]) simp

text \<open>C25. Insertions and searches alone keep the tree a balanced red-black tree: the root is black, no red node has a red child, every path from the root passes the same number of black nodes.
  So a search compares at most twice the logarithm of the number of keys.\<close>

theorem tree_inserts_balanced:
  assumes "key_order compare" and "zalloc_ok zalloc" and "\<forall>x \<in> set xs. op_key x \<noteq> 0" and "\<forall>k. Delete k \<notin> set xs"
  shows "\<exists>rs s t. do_ops compare zalloc xs pico_tree_0 = Some (rs, s) \<and> tree_ok s t \<and> balanced s t \<and> 2 ^ (height t div 2) \<le> length (inorder t) + 1"
  using key_order.ops_follow [OF assms(1) empty_holds assms(3,2)] empty_balanced assms(4) balanced_height unfolding holds_def by blast

theorem tree_inserts_balanced_witness:
  "\<exists>rs s t. do_ops (pico_dev_cmp ucast) three_nodes [Insert 30, Insert 10, Insert 20, Find 10] pico_tree_0 = Some (rs, s) \<and> tree_ok s t \<and> balanced s t \<and>
    2 ^ (height t div 2) \<le> length (inorder t) + 1"
  by (rule tree_inserts_balanced [OF dev.key_order_axioms three_nodes_ok]) simp_all

text \<open>C40. Deletion does not keep the balance, although it means to: from a balanced tree, deleting a black node without children that is not the root always leaves a tree that is not balanced.
  The node that takes its place is the sentinel, and the loop of \<open>fix_delete_collisions\<close> stops at the sentinel before it has repaired anything.\<close>

theorem delete_black_leaf_unbalances:
  assumes "key_order compare" and ok: "tree_ok s (plug C (Node Leaf d Leaf))" and ord: "ordered compare (nodes s) (inorder (plug C (Node Leaf d Leaf)))"
    and bal: "balanced s (plug C (Node Leaf d Leaf))" and C: "C \<noteq> []" and d: "col (nodes s) d = BLACK" "key_of (nodes s) d \<noteq> 0"
  shows "\<exists>s'. pico_tree_delete compare (key_of (nodes s) d) s = Some (key_of (nodes s) d, s') \<and> tree_ok s' (plug C Leaf) \<and> \<not> balanced s' (plug C Leaf)"
proof -
  have d': "d \<in> set_tree (plug C (Node Leaf d Leaf))" "d \<noteq> 0" "d \<noteq> LEAF" "d \<notin> set_tree (plug C Leaf)" using tree_ok_at(3,4,5) [OF ok] by (auto simp: set_plug)
  have rd: "rd keyValue s d = Some (key_of (nodes s) d)" using tree_ok_dom [OF ok, of d] d'(1) by (auto simp: rd_def key_of_def)
  have leaf: "col (nodes s) LEAF = BLACK" using bal by (simp add: balanced_def)
  from delete_black_leaf [OF ok d(1) leaf] obtain s1 where s1: "(do { (nodeColor, temp, s) \<leftarrow> pico_tree_delete_check_switch d s; if_nodecolor_black_fix_collisions temp nodeColor s }) = Some s1"
    "tree_ok s1 (plug C Leaf)" "col (nodes s1) = col (nodes s)" by blast
  define s' where "s' = s1\<lparr>nodes := (nodes s1)(d := None)\<rparr>"
  have "pico_tree_delete compare (key_of (nodes s) d) s = Some (key_of (nodes s) d, s')"
    using d(2) key_order.findNode_at [OF assms(1) ok ord d'(1)] d'(2) rd s1(1)
    by (auto simp: pico_tree_delete_def pico_tree_delete_implementation_def s'_def split: bind_splits)
  moreover have "tree_ok s' (plug C Leaf)" unfolding s'_def by (rule shape_free [OF s1(2) d'(4,3)])
  moreover have "\<not> balanced s' (plug C Leaf)"
  proof -
    have "\<forall>a \<in> set_tree (plug C Leaf). col (nodes s') a = col (nodes s) a" using d'(4) s1(3) by (auto simp: s'_def col_def fun_eq_iff)
    then have "rb (col (nodes s')) n (plug C Leaf) = rb (col (nodes s)) n (plug C Leaf)" for n by (rule rb_cong)
    then show ?thesis using bal unbalanced_cut [of "col (nodes s)" _ C d] d(1) C by (auto simp: balanced_def)
  qed
  ultimately show ?thesis by blast
qed

definition four_keys :: pico_tree where
  "four_keys = \<lparr>root = 0x1020, nodes = [
     LEAF \<mapsto> LEAF_node,
     0x1000 \<mapsto> \<lparr>keyValue = 10, parent = 0x1020, leftChild = LEAF, rightChild = LEAF, color = BLACK\<rparr>,
     0x1020 \<mapsto> \<lparr>keyValue = 20, parent = LEAF, leftChild = 0x1000, rightChild = 0x1040, color = BLACK\<rparr>,
     0x1040 \<mapsto> \<lparr>keyValue = 30, parent = 0x1020, leftChild = LEAF, rightChild = 0x1060, color = BLACK\<rparr>,
     0x1060 \<mapsto> \<lparr>keyValue = 40, parent = 0x1040, leftChild = LEAF, rightChild = LEAF, color = RED\<rparr>], pico_err = 0\<rparr>"

lemma four_keys_ok:
  "tree_ok four_keys (plug [(True, 0x1020, Node Leaf 0x1040 (Node Leaf 0x1060 Leaf))] (Node Leaf 0x1000 Leaf))"
  "ordered (pico_dev_cmp ucast) (nodes four_keys) (inorder (plug [(True, 0x1020, Node Leaf 0x1040 (Node Leaf 0x1060 Leaf))] (Node Leaf 0x1000 Leaf)))"
  "balanced four_keys (plug [(True, 0x1020, Node Leaf 0x1040 (Node Leaf 0x1060 Leaf))] (Node Leaf 0x1000 Leaf))"
  "col (nodes four_keys) 0x1000 = BLACK" "key_of (nodes four_keys) 0x1000 = 10"
  by (auto simp: four_keys_def tree_ok_def leaf_ok_def LEAF_node_def LEAF_def ordered_def key_of_def pico_dev_cmp_def balanced_def col_def intro!: exI [of _ 2])

theorem delete_black_leaf_unbalances_witness:
  "\<exists>s'. pico_tree_delete (pico_dev_cmp ucast) 10 four_keys = Some (10, s') \<and> tree_ok s' (plug [(True, 0x1020, Node Leaf 0x1040 (Node Leaf 0x1060 Leaf))] Leaf) \<and>
    \<not> balanced s' (plug [(True, 0x1020, Node Leaf 0x1040 (Node Leaf 0x1060 Leaf))] Leaf)"
  using delete_black_leaf_unbalances [OF dev.key_order_axioms four_keys_ok(1-3) _ four_keys_ok(4)] by (simp add: four_keys_ok(5))

end
