(* ===== verification/Zdr.thy ===== *)
theory Zdr
  imports C_Memory
begin

text \<open>
  \<open>libnfs/lib/libnfs-zdr.c\<close>: the encoding of remote procedure calls to and from a buffer in memory.

  \<^item> A routine takes the object that it encodes or decodes, the stream (\<open>ZDR\<close>) and the memory, and returns whether it succeeded, the object, the stream and the memory.
    Scalars that the C code passes by pointer are passed and returned as values; buffers and strings are addresses in the memory.
  \<^item> The position and the size of the stream are signed 32-bit numbers, as in the code; an overflow of signed arithmetic is undefined, \<open>None\<close>.
  \<^item> Numbers in memory are little endian. \<open>malloc\<close>, \<open>free\<close> and the routines of the arguments and results (\<open>zdrproc_t\<close>) are parameters.
  \<^item> The members of a union are separate fields of a record: no routine reads one member after it has written another.
\<close>

section \<open>Words in memory\<close>

definition le32 :: "u32 \<Rightarrow> byte list" where
  "le32 v = [ucast v, ucast (drop_bit 8 v), ucast (drop_bit 16 v), ucast (drop_bit 24 v)]"

fun of_le32 :: "byte list \<Rightarrow> u32" where
  "of_le32 [a, b, c, d] = ucast a OR push_bit 8 (ucast b) OR push_bit 16 (ucast c) OR push_bit 24 (ucast d)"
| "of_le32 _ = 0"

definition st32 :: "mem \<Rightarrow> u64 \<Rightarrow> u32 \<Rightarrow> mem option" where
  "st32 m a v = store_bytes m a (le32 v)"

definition ld32 :: "mem \<Rightarrow> u64 \<Rightarrow> u32 option" where
  "ld32 m a = do { bs \<leftarrow> load_bytes m a 4; Some (of_le32 bs) }"

definition st64 :: "mem \<Rightarrow> u64 \<Rightarrow> u64 \<Rightarrow> mem option" where
  "st64 m a v = do { m \<leftarrow> st32 m a (ucast v); st32 m (a + 4) (ucast (drop_bit 32 v)) }"

definition ld64 :: "mem \<Rightarrow> u64 \<Rightarrow> u64 option" where
  "ld64 m a = do { lo \<leftarrow> ld32 m a; hi \<leftarrow> ld32 m (a + 4); Some (ucast lo OR push_bit 32 (ucast hi)) }"

text \<open>The byte order of the network.\<close>

definition htonl :: "u32 \<Rightarrow> u32" where
  "htonl v = of_le32 (rev (le32 v))"

definition ntohl :: "u32 \<Rightarrow> u32" where
  "ntohl v = htonl v"

partial_function (option) strlen :: "mem \<Rightarrow> u64 \<Rightarrow> nat option" where
  "strlen m a = do {
     b \<leftarrow> m a;
     if b = 0 then Some 0 else do { n \<leftarrow> strlen m (a + 1); Some (Suc n) }
   }"

section \<open>The stream\<close>

datatype zdr_op = ZDR_ENCODE | ZDR_DECODE

record ZDR =
  x_op :: zdr_op
  buf :: u64
  zsize :: int
  pos :: int
  zmem :: u64

type_synonym malloc_fun = "u64 \<Rightarrow> mem \<Rightarrow> u64 \<times> mem"
type_synonym zdrproc = "u64 \<Rightarrow> ZDR \<Rightarrow> mem \<Rightarrow> (bool \<times> ZDR \<times> mem) option"

text \<open>\<open>&zdrs->buf[zdrs->pos]\<close>\<close>

definition at_pos :: "ZDR \<Rightarrow> u64" where
  "at_pos zdrs = buf zdrs + of_int (pos zdrs)"

text \<open>\<open>zdrs->pos += size\<close> with an unsigned \<open>size\<close>, and \<open>zdrs->pos = (zdrs->pos + 3) & ~3\<close>.\<close>

definition pos_add :: "u32 \<Rightarrow> ZDR \<Rightarrow> ZDR" where
  "pos_add n zdrs = zdrs\<lparr>pos := sint (of_int (pos zdrs) + n)\<rparr>"

definition pos_align :: "ZDR \<Rightarrow> ZDR option" where
  "pos_align zdrs = do { p \<leftarrow> sadd 32 (pos zdrs) 3; Some (zdrs\<lparr>pos := p AND NOT 3\<rparr>) }"

definition libnfs_zdr_setpos :: "ZDR \<Rightarrow> u32 \<Rightarrow> bool \<times> ZDR" where
  "libnfs_zdr_setpos zdrs p = (True, zdrs\<lparr>pos := sint p\<rparr>)"

definition libnfs_zdr_getpos :: "ZDR \<Rightarrow> u32" where
  "libnfs_zdr_getpos zdrs = of_int (pos zdrs)"

definition libnfs_zdrmem_create :: "u64 \<Rightarrow> u32 \<Rightarrow> zdr_op \<Rightarrow> ZDR" where
  "libnfs_zdrmem_create addr n xop = \<lparr>x_op = xop, buf = addr, zsize = sint n, pos = 0, zmem = 0\<rparr>"

text \<open>A block of \<open>struct zdr_mem\<close>: the pointer to the next one, the size, then the bytes at offset 12.\<close>

definition zdr_malloc :: "malloc_fun \<Rightarrow> ZDR \<Rightarrow> u32 \<Rightarrow> mem \<Rightarrow> (u64 \<times> ZDR \<times> mem) option" where
  "zdr_malloc malloc zdrs n m = do {
     let mem_size = (ucast (12 + ucast n :: u64) :: u32);
     let (p, m) = malloc (scast mem_size) m;
     m \<leftarrow> st64 m p (zmem zdrs);
     m \<leftarrow> st32 m (p + 8) n;
     Some (p + 12, zdrs\<lparr>zmem := p\<rparr>, m)
   }"

partial_function (option) libnfs_zdr_destroy :: "(u64 \<Rightarrow> mem \<Rightarrow> mem) \<Rightarrow> ZDR \<Rightarrow> mem \<Rightarrow> (ZDR \<times> mem) option" where
  "libnfs_zdr_destroy free zdrs m = (if zmem zdrs = 0 then Some (zdrs, m)
     else do {
       next \<leftarrow> ld64 m (zmem zdrs);
       let m = free (zmem zdrs) m;
       libnfs_zdr_destroy free (zdrs\<lparr>zmem := next\<rparr>) m
     })"

section \<open>Numbers\<close>

definition libnfs_zdr_u_int :: "ZDR \<Rightarrow> u32 \<Rightarrow> mem \<Rightarrow> (bool \<times> u32 \<times> ZDR \<times> mem) option" where
  "libnfs_zdr_u_int zdrs u m = do {
     e \<leftarrow> sadd 32 (pos zdrs) 4;
     if e > zsize zdrs then Some (False, u, zdrs, m)
     else case x_op zdrs of
       ZDR_ENCODE \<Rightarrow> do {
         m \<leftarrow> st32 m (at_pos zdrs) (htonl u);
         Some (True, u, zdrs\<lparr>pos := e\<rparr>, m)
       }
     | ZDR_DECODE \<Rightarrow> do {
         v \<leftarrow> ld32 m (at_pos zdrs);
         Some (True, ntohl v, zdrs\<lparr>pos := e\<rparr>, m)
       }
   }"

text \<open>The bits of a signed number, of an \<open>enum_t\<close> and of a \<open>bool_t\<close> are those of an unsigned one.\<close>

definition libnfs_zdr_int :: "ZDR \<Rightarrow> u32 \<Rightarrow> mem \<Rightarrow> (bool \<times> u32 \<times> ZDR \<times> mem) option" where
  "libnfs_zdr_int zdrs i m = libnfs_zdr_u_int zdrs i m"

definition libnfs_zdr_uint64_t :: "ZDR \<Rightarrow> u64 \<Rightarrow> mem \<Rightarrow> (bool \<times> u64 \<times> ZDR \<times> mem) option" where
  "libnfs_zdr_uint64_t zdrs u m = do {
     e \<leftarrow> sadd 32 (pos zdrs) 8;
     if e > zsize zdrs then Some (False, u, zdrs, m)
     else case x_op zdrs of
       ZDR_ENCODE \<Rightarrow> do {
         m \<leftarrow> st32 m (at_pos zdrs) (htonl (ucast (drop_bit 32 u)));
         let zdrs = zdrs\<lparr>pos := pos zdrs + 4\<rparr>;
         m \<leftarrow> st32 m (at_pos zdrs) (htonl (ucast (u AND 0xFFFFFFFF)));
         Some (True, u, zdrs\<lparr>pos := pos zdrs + 4\<rparr>, m)
       }
     | ZDR_DECODE \<Rightarrow> do {
         hi \<leftarrow> ld32 m (at_pos zdrs);
         let zdrs = zdrs\<lparr>pos := pos zdrs + 4\<rparr>;
         lo \<leftarrow> ld32 m (at_pos zdrs);
         Some (True, push_bit 32 (ucast (ntohl hi)) OR ucast (ntohl lo), zdrs\<lparr>pos := pos zdrs + 4\<rparr>, m)
       }
   }"

definition libnfs_zdr_int64_t :: "ZDR \<Rightarrow> u64 \<Rightarrow> mem \<Rightarrow> (bool \<times> u64 \<times> ZDR \<times> mem) option" where
  "libnfs_zdr_int64_t zdrs i m = libnfs_zdr_uint64_t zdrs i m"

definition libnfs_zdr_enum :: "ZDR \<Rightarrow> u32 \<Rightarrow> mem \<Rightarrow> (bool \<times> u32 \<times> ZDR \<times> mem) option" where
  "libnfs_zdr_enum zdrs e m = libnfs_zdr_u_int zdrs e m"

definition libnfs_zdr_bool :: "ZDR \<Rightarrow> u32 \<Rightarrow> mem \<Rightarrow> (bool \<times> u32 \<times> ZDR \<times> mem) option" where
  "libnfs_zdr_bool zdrs b m = libnfs_zdr_u_int zdrs b m"

definition libnfs_zdr_void :: "ZDR \<Rightarrow> mem \<Rightarrow> (bool \<times> ZDR \<times> mem) option" where
  "libnfs_zdr_void zdrs m = Some (True, zdrs, m)"

section \<open>Bytes, strings, pointers and arrays\<close>

text \<open>The result has \<open>*bufp\<close> and \<open>*size\<close>. Decoding into no buffer returns the place of the bytes in the stream.\<close>

definition libnfs_zdr_bytes :: "ZDR \<Rightarrow> u64 \<Rightarrow> u32 \<Rightarrow> mem \<Rightarrow> (bool \<times> u64 \<times> u32 \<times> ZDR \<times> mem) option" where
  "libnfs_zdr_bytes zdrs bufp n m = do {
     (ok, n, zdrs, m) \<leftarrow> libnfs_zdr_u_int zdrs n m;
     if \<not> ok then Some (False, bufp, n, zdrs, m)
     else do {
       e \<leftarrow> sadd 32 (pos zdrs) (sint n);
       if e > zsize zdrs then Some (False, bufp, n, zdrs, m)
       else case x_op zdrs of
         ZDR_ENCODE \<Rightarrow> do {
           m \<leftarrow> memcpy (at_pos zdrs) bufp (unat n) m;
           let zdrs = pos_add n zdrs;
           let pad = (4 - (pos zdrs AND 3)) AND 3;
           if pad \<noteq> 0 then do {
             m \<leftarrow> store_bytes m (at_pos zdrs) (replicate (nat pad) 0);
             p \<leftarrow> sadd 32 (pos zdrs) pad;
             Some (True, bufp, n, zdrs\<lparr>pos := p\<rparr>, m)
           } else Some (True, bufp, n, zdrs, m)
         }
       | ZDR_DECODE \<Rightarrow> do {
           (bufp, m) \<leftarrow> (if bufp \<noteq> 0 then do { m \<leftarrow> memcpy bufp (at_pos zdrs) (unat n) m; Some (bufp, m) }
                         else Some (at_pos zdrs, m));
           zdrs \<leftarrow> pos_align (pos_add n zdrs);
           Some (True, bufp, n, zdrs, m)
         }
     }
   }"

definition libnfs_zdr_opaque :: "ZDR \<Rightarrow> u64 \<Rightarrow> u32 \<Rightarrow> mem \<Rightarrow> (bool \<times> ZDR \<times> mem) option" where
  "libnfs_zdr_opaque zdrs objp n m = (case x_op zdrs of
     ZDR_ENCODE \<Rightarrow> do {
       m \<leftarrow> memcpy (at_pos zdrs) objp (unat n) m;
       let zdrs = pos_add n zdrs;
       m \<leftarrow> (if pos zdrs AND 3 \<noteq> 0 then memset (at_pos zdrs) 0 (nat (4 - (pos zdrs AND 3))) m else Some m);
       zdrs \<leftarrow> pos_align zdrs;
       Some (True, zdrs, m)
     }
   | ZDR_DECODE \<Rightarrow> do {
       m \<leftarrow> memcpy objp (at_pos zdrs) (unat n) m;
       zdrs \<leftarrow> pos_align (pos_add n zdrs);
       Some (True, zdrs, m)
     })"

text \<open>In the test for a null byte after the string the index is unsigned.\<close>

definition libnfs_zdr_string :: "malloc_fun \<Rightarrow> ZDR \<Rightarrow> u64 \<Rightarrow> mem \<Rightarrow> (bool \<times> u64 \<times> ZDR \<times> mem) option" where
  "libnfs_zdr_string malloc zdrs strp m = do {
     n \<leftarrow> (if x_op zdrs = ZDR_ENCODE then do { l \<leftarrow> strlen m strp; Some (of_nat l) } else Some 0);
     (ok, n, zdrs, m) \<leftarrow> libnfs_zdr_u_int zdrs n m;
     if \<not> ok then Some (False, strp, zdrs, m)
     else do {
       e \<leftarrow> sadd 32 (pos zdrs) (sint n);
       if e > zsize zdrs then Some (False, strp, zdrs, m)
       else case x_op zdrs of
         ZDR_ENCODE \<Rightarrow> do {
           (ok, zdrs, m) \<leftarrow> libnfs_zdr_opaque zdrs strp n m;
           Some (ok, strp, zdrs, m)
         }
       | ZDR_DECODE \<Rightarrow> do {
           null \<leftarrow> (if zsize zdrs > e then do { b \<leftarrow> m (buf zdrs + ucast (of_int (pos zdrs) + n :: u32)); Some (b = 0) } else Some False);
           if null then
             if strp = 0 then do {
               let strp = at_pos zdrs;
               m \<leftarrow> store_bytes m (strp + ucast n) [0];
               zdrs \<leftarrow> pos_align (pos_add n zdrs);
               Some (True, strp, zdrs, m)
             } else do {
               m \<leftarrow> store_bytes m (strp + ucast n) [0];
               (ok, zdrs, m) \<leftarrow> libnfs_zdr_opaque zdrs strp n m;
               Some (ok, strp, zdrs, m)
             }
           else do {
             (strp, zdrs, m) \<leftarrow> zdr_malloc malloc zdrs (n + 1) m;
             if strp = 0 then Some (False, strp, zdrs, m)
             else do {
               m \<leftarrow> store_bytes m (strp + ucast n) [0];
               (ok, zdrs, m) \<leftarrow> libnfs_zdr_opaque zdrs strp n m;
               Some (ok, strp, zdrs, m)
             }
           }
         }
     }
   }"

definition libnfs_zdr_pointer :: "malloc_fun \<Rightarrow> ZDR \<Rightarrow> u64 \<Rightarrow> u32 \<Rightarrow> zdrproc \<Rightarrow> mem \<Rightarrow> (bool \<times> u64 \<times> ZDR \<times> mem) option" where
  "libnfs_zdr_pointer malloc zdrs objp n proc m = do {
     (ok, more_data, zdrs, m) \<leftarrow> libnfs_zdr_bool zdrs (if objp \<noteq> 0 then 1 else 0) m;
     if \<not> ok then Some (False, objp, zdrs, m)
     else if more_data = 0 then Some (True, 0, zdrs, m)
     else do {
       (objp, zdrs, m) \<leftarrow> (if x_op zdrs = ZDR_DECODE then do {
                              (objp, zdrs, m) \<leftarrow> zdr_malloc malloc zdrs n m;
                              m \<leftarrow> (if objp = 0 then Some m else memset objp 0 (unat n) m);
                              Some (objp, zdrs, m)
                            } else Some (objp, zdrs, m));
       if x_op zdrs = ZDR_DECODE \<and> objp = 0 then Some (False, objp, zdrs, m)
       else do {
         (ok, zdrs, m) \<leftarrow> proc objp zdrs m;
         Some (ok, objp, zdrs, m)
       }
     }
   }"

text \<open>The loop over the elements from \<open>i\<close> on; the offset of an element is a product of 32 bits.\<close>

primrec array_elements :: "zdrproc \<Rightarrow> u64 \<Rightarrow> u32 \<Rightarrow> nat \<Rightarrow> nat \<Rightarrow> ZDR \<Rightarrow> mem \<Rightarrow> (bool \<times> ZDR \<times> mem) option" where
  "array_elements proc arrp elsize 0 i zdrs m = Some (True, zdrs, m)"
| "array_elements proc arrp elsize (Suc k) i zdrs m = do {
     (ok, zdrs, m) \<leftarrow> proc (arrp + ucast (of_nat i * elsize)) zdrs m;
     if \<not> ok then Some (False, zdrs, m) else array_elements proc arrp elsize k (Suc i) zdrs m
   }"

definition libnfs_zdr_array :: "malloc_fun \<Rightarrow> ZDR \<Rightarrow> u64 \<Rightarrow> u32 \<Rightarrow> u32 \<Rightarrow> zdrproc \<Rightarrow> mem \<Rightarrow> (bool \<times> u64 \<times> u32 \<times> ZDR \<times> mem) option" where
  "libnfs_zdr_array malloc zdrs arrp n elsize proc m = do {
     (ok, n, zdrs, m) \<leftarrow> libnfs_zdr_u_int zdrs n m;
     if \<not> ok then Some (False, arrp, n, zdrs, m)
     else do {
       (arrp, zdrs, m) \<leftarrow> (if x_op zdrs = ZDR_DECODE then do {
                              (arrp, zdrs, m) \<leftarrow> zdr_malloc malloc zdrs (n * elsize) m;
                              m \<leftarrow> (if arrp = 0 then Some m else memset arrp 0 (unat (n * elsize)) m);
                              Some (arrp, zdrs, m)
                            } else Some (arrp, zdrs, m));
       if x_op zdrs = ZDR_DECODE \<and> arrp = 0 then Some (False, arrp, n, zdrs, m)
       else do {
         (ok, zdrs, m) \<leftarrow> array_elements proc arrp elsize (nat (sint n)) 0 zdrs m;
         Some (ok, arrp, n, zdrs, m)
       }
     }
   }"

section \<open>Messages\<close>

definition AUTH_NONE :: u32 where "AUTH_NONE = 0"
definition AUTH_UNIX :: u32 where "AUTH_UNIX = 1"

definition CALL :: u32 where "CALL = 0"
definition REPLY :: u32 where "REPLY = 1"
definition MSG_ACCEPTED :: u32 where "MSG_ACCEPTED = 0"
definition MSG_DENIED :: u32 where "MSG_DENIED = 1"
definition SUCCESS :: u32 where "SUCCESS = 0"
definition PROG_MISMATCH :: u32 where "PROG_MISMATCH = 2"
definition RPC_MISMATCH :: u32 where "RPC_MISMATCH = 0"
definition AUTH_ERROR :: u32 where "AUTH_ERROR = 1"

record opaque_auth =
  oa_flavor :: u32
  oa_base :: u64
  oa_length :: u32

record call_body =
  rpcvers :: u32
  prog :: u32
  vers :: u32
  proc :: u32
  cred :: opaque_auth
  cverf :: opaque_auth

record accepted_reply =
  averf :: opaque_auth
  astat :: u32
  res_where :: u64
  res_proc :: zdrproc
  amis_low :: u32
  amis_high :: u32

record rejected_reply =
  rstat :: u32
  rmis_low :: u32
  rmis_high :: u32
  rauth_stat :: u32

record reply_body =
  bstat :: u32
  areply :: accepted_reply
  rreply :: rejected_reply

record rpc_msg =
  xid :: u32
  direction :: u32
  cbody :: call_body
  rbody :: reply_body

text \<open>The text of the last error of the connection; the buffer for it has 1024 bytes.\<close>

record rpc_context =
  error_string :: string

definition rpc_set_error :: "string \<Rightarrow> 'a rpc_context_scheme \<Rightarrow> 'a rpc_context_scheme" where
  "rpc_set_error msg rpc = rpc\<lparr>error_string := take 1023 msg\<rparr>"

definition libnfs_opaque_auth :: "ZDR \<Rightarrow> opaque_auth \<Rightarrow> mem \<Rightarrow> (bool \<times> opaque_auth \<times> ZDR \<times> mem) option" where
  "libnfs_opaque_auth zdrs auth m = do {
     (ok, v, zdrs, m) \<leftarrow> libnfs_zdr_u_int zdrs (oa_flavor auth) m;
     let auth = auth\<lparr>oa_flavor := v\<rparr>;
     if \<not> ok then Some (False, auth, zdrs, m)
     else do {
       (ok, b, n, zdrs, m) \<leftarrow> libnfs_zdr_bytes zdrs (oa_base auth) (oa_length auth) m;
       Some (ok, auth\<lparr>oa_base := b, oa_length := n\<rparr>, zdrs, m)
     }
   }"

definition libnfs_rpc_call_body ::
    "'a rpc_context_scheme \<Rightarrow> ZDR \<Rightarrow> call_body \<Rightarrow> mem \<Rightarrow> (bool \<times> 'a rpc_context_scheme \<times> call_body \<times> ZDR \<times> mem) option" where
  "libnfs_rpc_call_body rpc zdrs cmb m = do {
     (ok, v, zdrs, m) \<leftarrow> libnfs_zdr_u_int zdrs (rpcvers cmb) m;
     let cmb = cmb\<lparr>rpcvers := v\<rparr>;
     if \<not> ok then Some (False, rpc_set_error ''libnfs_rpc_call_body failed to encode RPCVERS'' rpc, cmb, zdrs, m) else do {
     (ok, v, zdrs, m) \<leftarrow> libnfs_zdr_u_int zdrs (prog cmb) m;
     let cmb = cmb\<lparr>prog := v\<rparr>;
     if \<not> ok then Some (False, rpc_set_error ''libnfs_rpc_call_body failed to encode PROG'' rpc, cmb, zdrs, m) else do {
     (ok, v, zdrs, m) \<leftarrow> libnfs_zdr_u_int zdrs (vers cmb) m;
     let cmb = cmb\<lparr>vers := v\<rparr>;
     if \<not> ok then Some (False, rpc_set_error ''libnfs_rpc_call_body failed to encode VERS'' rpc, cmb, zdrs, m) else do {
     (ok, v, zdrs, m) \<leftarrow> libnfs_zdr_u_int zdrs (proc cmb) m;
     let cmb = cmb\<lparr>proc := v\<rparr>;
     if \<not> ok then Some (False, rpc_set_error ''libnfs_rpc_call_body failed to encode PROC'' rpc, cmb, zdrs, m) else do {
     (ok, a, zdrs, m) \<leftarrow> libnfs_opaque_auth zdrs (cred cmb) m;
     let cmb = cmb\<lparr>cred := a\<rparr>;
     if \<not> ok then Some (False, rpc_set_error ''libnfs_rpc_call_body failed to encode CRED'' rpc, cmb, zdrs, m) else do {
     (ok, a, zdrs, m) \<leftarrow> libnfs_opaque_auth zdrs (cverf cmb) m;
     let cmb = cmb\<lparr>cverf := a\<rparr>;
     if \<not> ok then Some (False, rpc_set_error ''libnfs_rpc_call_body failed to encode VERF'' rpc, cmb, zdrs, m)
     else Some (True, rpc, cmb, zdrs, m) }}}}}
   }"

definition libnfs_accepted_reply :: "ZDR \<Rightarrow> accepted_reply \<Rightarrow> mem \<Rightarrow> (bool \<times> accepted_reply \<times> ZDR \<times> mem) option" where
  "libnfs_accepted_reply zdrs ar m = do {
     (ok, a, zdrs, m) \<leftarrow> libnfs_opaque_auth zdrs (averf ar) m;
     let ar = ar\<lparr>averf := a\<rparr>;
     if \<not> ok then Some (False, ar, zdrs, m) else do {
     (ok, v, zdrs, m) \<leftarrow> libnfs_zdr_u_int zdrs (astat ar) m;
     let ar = ar\<lparr>astat := v\<rparr>;
     if \<not> ok then Some (False, ar, zdrs, m)
     else if astat ar = SUCCESS then do {
       (ok, zdrs, m) \<leftarrow> res_proc ar (res_where ar) zdrs m;
       Some (ok, ar, zdrs, m)
     }
     else if astat ar = PROG_MISMATCH then do {
       (ok, v, zdrs, m) \<leftarrow> libnfs_zdr_u_int zdrs (amis_low ar) m;
       let ar = ar\<lparr>amis_low := v\<rparr>;
       if \<not> ok then Some (False, ar, zdrs, m) else do {
       (ok, v, zdrs, m) \<leftarrow> libnfs_zdr_u_int zdrs (amis_high ar) m;
       Some (ok, ar\<lparr>amis_high := v\<rparr>, zdrs, m) }
     }
     else Some (True, ar, zdrs, m) }
   }"

definition libnfs_rejected_reply :: "ZDR \<Rightarrow> rejected_reply \<Rightarrow> mem \<Rightarrow> (bool \<times> rejected_reply \<times> ZDR \<times> mem) option" where
  "libnfs_rejected_reply zdrs rr m = do {
     (ok, v, zdrs, m) \<leftarrow> libnfs_zdr_u_int zdrs (rstat rr) m;
     let rr = rr\<lparr>rstat := v\<rparr>;
     if \<not> ok then Some (False, rr, zdrs, m)
     else if rstat rr = RPC_MISMATCH then do {
       (ok, v, zdrs, m) \<leftarrow> libnfs_zdr_u_int zdrs (rmis_low rr) m;
       let rr = rr\<lparr>rmis_low := v\<rparr>;
       if \<not> ok then Some (False, rr, zdrs, m) else do {
       (ok, v, zdrs, m) \<leftarrow> libnfs_zdr_u_int zdrs (rmis_high rr) m;
       Some (ok, rr\<lparr>rmis_high := v\<rparr>, zdrs, m) }
     }
     else if rstat rr = AUTH_ERROR then do {
       (ok, v, zdrs, m) \<leftarrow> libnfs_zdr_u_int zdrs (rauth_stat rr) m;
       Some (ok, rr\<lparr>rauth_stat := v\<rparr>, zdrs, m)
     }
     else Some (True, rr, zdrs, m)
   }"

definition libnfs_rpc_reply_body ::
    "'a rpc_context_scheme \<Rightarrow> ZDR \<Rightarrow> reply_body \<Rightarrow> mem \<Rightarrow> (bool \<times> 'a rpc_context_scheme \<times> reply_body \<times> ZDR \<times> mem) option" where
  "libnfs_rpc_reply_body rpc zdrs rmb m = do {
     (ok, v, zdrs, m) \<leftarrow> libnfs_zdr_u_int zdrs (bstat rmb) m;
     let rmb = rmb\<lparr>bstat := v\<rparr>;
     if \<not> ok then Some (False, rpc_set_error ''libnfs_rpc_reply_body failed to decode STAT'' rpc, rmb, zdrs, m)
     else if bstat rmb = MSG_ACCEPTED then do {
       (ok, a, zdrs, m) \<leftarrow> libnfs_accepted_reply zdrs (areply rmb) m;
       Some (ok, if ok then rpc else rpc_set_error ''libnfs_rpc_reply_body failed to decode ACCEPTED'' rpc, rmb\<lparr>areply := a\<rparr>, zdrs, m)
     }
     else if bstat rmb = MSG_DENIED then do {
       (ok, r, zdrs, m) \<leftarrow> libnfs_rejected_reply zdrs (rreply rmb) m;
       Some (ok, if ok then rpc else rpc_set_error ''libnfs_rpc_reply_body failed to decode DENIED'' rpc, rmb\<lparr>rreply := r\<rparr>, zdrs, m)
     }
     else Some (False, rpc_set_error ''libnfs_rpc_reply_body failed to decode. Neither ACCEPTED nor DENIED'' rpc, rmb, zdrs, m)
   }"

definition libnfs_rpc_msg :: "'a rpc_context_scheme \<Rightarrow> ZDR \<Rightarrow> rpc_msg \<Rightarrow> mem \<Rightarrow> (bool \<times> 'a rpc_context_scheme \<times> rpc_msg \<times> ZDR \<times> mem) option" where
  "libnfs_rpc_msg rpc zdrs msg m = do {
     (ok, v, zdrs, m) \<leftarrow> libnfs_zdr_u_int zdrs (xid msg) m;
     let msg = msg\<lparr>xid := v\<rparr>;
     if \<not> ok then Some (False, rpc_set_error ''libnfs_rpc_msg failed to decode XID'' rpc, msg, zdrs, m) else do {
     (ok, v, zdrs, m) \<leftarrow> libnfs_zdr_u_int zdrs (direction msg) m;
     let msg = msg\<lparr>direction := v\<rparr>;
     if \<not> ok then Some (False, rpc_set_error ''libnfs_rpc_msg failed to decode DIRECTION'' rpc, msg, zdrs, m)
     else if direction msg = CALL then do {
       (ok, rpc, b, zdrs, m) \<leftarrow> libnfs_rpc_call_body rpc zdrs (cbody msg) m;
       Some (ok, if ok then rpc else rpc_set_error (''libnfs_rpc_msg failed to encode CALL, ret=0: '' @ error_string rpc) rpc, msg\<lparr>cbody := b\<rparr>, zdrs, m)
     }
     else if direction msg = REPLY then do {
       (ok, rpc, b, zdrs, m) \<leftarrow> libnfs_rpc_reply_body rpc zdrs (rbody msg) m;
       Some (ok, if ok then rpc else rpc_set_error (''libnfs_rpc_msg failed to decode REPLY, ret=0: '' @ error_string rpc) rpc, msg\<lparr>rbody := b\<rparr>, zdrs, m)
     }
     else Some (False, rpc_set_error ''libnfs_rpc_msg failed to decode. Neither CALL not REPLY'' rpc, msg, zdrs, m) }
   }"

definition libnfs_zdr_callmsg :: "'a rpc_context_scheme \<Rightarrow> ZDR \<Rightarrow> rpc_msg \<Rightarrow> mem \<Rightarrow> (bool \<times> 'a rpc_context_scheme \<times> rpc_msg \<times> ZDR \<times> mem) option" where
  "libnfs_zdr_callmsg rpc zdrs msg m = libnfs_rpc_msg rpc zdrs msg m"

definition libnfs_zdr_replymsg :: "'a rpc_context_scheme \<Rightarrow> ZDR \<Rightarrow> rpc_msg \<Rightarrow> mem \<Rightarrow> (bool \<times> 'a rpc_context_scheme \<times> rpc_msg \<times> ZDR \<times> mem) option" where
  "libnfs_zdr_replymsg rpc zdrs msg m = libnfs_rpc_msg rpc zdrs msg m"

section \<open>Credentials\<close>

record AUTH =
  ah_cred :: opaque_auth
  ah_verf :: opaque_auth
  ah_private :: u64

text \<open>\<open>sizeof(struct AUTH)\<close>\<close>

definition AUTH_SIZE :: u64 where "AUTH_SIZE = 56"

definition auth_none :: opaque_auth where
  "auth_none = \<lparr>oa_flavor = AUTH_NONE, oa_base = 0, oa_length = 0\<rparr>"

definition authnone_create :: "malloc_fun \<Rightarrow> mem \<Rightarrow> (u64 \<times> AUTH \<times> mem) option" where
  "authnone_create malloc m = do {
     let (auth, m) = malloc AUTH_SIZE m;
     _ \<leftarrow> c_assert (auth \<noteq> 0);
     Some (auth, \<lparr>ah_cred = auth_none, ah_verf = auth_none, ah_private = 0\<rparr>, m)
   }"

primrec put_groups :: "u64 \<Rightarrow> u64 \<Rightarrow> nat \<Rightarrow> mem \<Rightarrow> mem option" where
  "put_groups dest groups 0 m = Some m"
| "put_groups dest groups (Suc n) m = do {
     g \<leftarrow> ld32 m groups;
     m \<leftarrow> st32 m dest (htonl g);
     put_groups (dest + 4) (groups + 4) n m
   }"

definition libnfs_authunix_create :: "malloc_fun \<Rightarrow> u32 \<Rightarrow> u64 \<Rightarrow> u32 \<Rightarrow> u32 \<Rightarrow> u32 \<Rightarrow> u64 \<Rightarrow> mem \<Rightarrow> (u64 \<times> AUTH \<times> mem) option" where
  "libnfs_authunix_create malloc rpc_current_time host uid gid len groups m = do {
     l \<leftarrow> strlen m host;
     let n = (ucast (4 + 4 + ((of_nat l + 3) AND NOT 3) + 4 + 4 + 4 + ucast (len * 4) :: u64) :: u32);
     let (auth, m) = malloc AUTH_SIZE m;
     _ \<leftarrow> c_assert (auth \<noteq> 0);
     let (base, m) = malloc (scast n) m;
     m \<leftarrow> memset base 0 (unat (scast n :: u64)) m;
     m \<leftarrow> st32 m base (htonl rpc_current_time);
     m \<leftarrow> st32 m (base + 4) (htonl (of_nat l));
     m \<leftarrow> memcpy (base + 8) host l m;
     let idx = base + 8 + 4 * of_nat ((l + 3) div 4);
     m \<leftarrow> st32 m idx (htonl uid);
     m \<leftarrow> st32 m (idx + 4) (htonl gid);
     m \<leftarrow> st32 m (idx + 8) (htonl len);
     m \<leftarrow> put_groups (idx + 12) groups (unat len) m;
     Some (auth, \<lparr>ah_cred = \<lparr>oa_flavor = AUTH_UNIX, oa_base = base, oa_length = n\<rparr>, ah_verf = auth_none, ah_private = 0\<rparr>, m)
   }"

text \<open>\<open>libnfs\<close> is the address of the string constant.\<close>

definition libnfs_authunix_create_default :: "malloc_fun \<Rightarrow> u32 \<Rightarrow> u64 \<Rightarrow> u32 \<Rightarrow> u32 \<Rightarrow> mem \<Rightarrow> (u64 \<times> AUTH \<times> mem) option" where
  "libnfs_authunix_create_default malloc rpc_current_time libnfs getuid getgid m = libnfs_authunix_create malloc rpc_current_time libnfs getuid getgid 0 0 m"

definition libnfs_auth_destroy :: "(u64 \<Rightarrow> mem \<Rightarrow> mem) \<Rightarrow> u64 \<Rightarrow> AUTH \<Rightarrow> mem \<Rightarrow> mem" where
  "libnfs_auth_destroy free p auth m =
     (let m = (if oa_base (ah_cred auth) \<noteq> 0 then free (oa_base (ah_cred auth)) m else m);
          m = (if oa_base (ah_verf auth) \<noteq> 0 then free (oa_base (ah_verf auth)) m else m)
      in free p m)"

end
