(* ===== verification/Zdr_Proofs.thy ===== *)
theory Zdr_Proofs
  imports Zdr
begin

text \<open>
  What the routines write and read: the bytes of RFC 4506 and RFC 5531 as lists, the proof that encoding a message writes exactly them, and that decoding them gives the message back.
\<close>

section \<open>The format\<close>

definition be32 :: "u32 \<Rightarrow> byte list" where
  "be32 v = rev (le32 v)"

lemma le32_of_le32: "length bs = 4 \<Longrightarrow> le32 (of_le32 bs) = bs"
proof -
  assume "length bs = 4"
  then obtain a b c d where bs: "bs = [a, b, c, d]" by (auto simp: eval_nat_numeral length_Suc_conv)
  show ?thesis unfolding bs by (auto simp: le32_def intro!: bit_eqI) (auto simp: bit_simps dest: bit_imp_le_length)
qed

lemma of_le32_le32: "of_le32 (le32 v) = v"
proof (rule bit_word_eqI)
  fix n
  assume "n < LENGTH(32)"
  then consider "n < 8" | "8 \<le> n" "n < 16" | "16 \<le> n" "n < 24" | "24 \<le> n" "n < 32" by force
  then show "bit (of_le32 (le32 v)) n = bit v n" by cases (auto simp: le32_def bit_simps)
qed

lemma length_le32 [simp]: "length (le32 v) = 4"
  by (simp add: le32_def)

lemma length_be32 [simp]: "length (be32 v) = 4"
  by (simp add: be32_def)

lemma le32_htonl: "le32 (htonl v) = be32 v"
  unfolding htonl_def be32_def by (rule le32_of_le32) simp

lemma ntohl_be32: "ntohl (of_le32 (be32 v)) = v"
proof -
  have "ntohl (of_le32 (be32 v)) = of_le32 (rev (le32 (of_le32 (be32 v))))" by (simp add: ntohl_def htonl_def)
  also have "le32 (of_le32 (be32 v)) = be32 v" by (rule le32_of_le32) simp
  finally show ?thesis by (simp add: be32_def of_le32_le32)
qed

definition pad4 :: "nat \<Rightarrow> nat" where
  "pad4 n = (4 - n mod 4) mod 4"

definition xdr_bytes :: "byte list \<Rightarrow> byte list" where
  "xdr_bytes bs = be32 (of_nat (length bs)) @ bs @ replicate (pad4 (length bs)) 0"

definition xdr_auth :: "opaque_auth \<Rightarrow> byte list \<Rightarrow> byte list" where
  "xdr_auth a bs = be32 (oa_flavor a) @ xdr_bytes bs"

definition xdr_call :: "rpc_msg \<Rightarrow> byte list \<Rightarrow> byte list \<Rightarrow> byte list" where
  "xdr_call msg cs vs = be32 (xid msg) @ be32 CALL @ be32 (rpcvers (cbody msg)) @ be32 (prog (cbody msg)) @ be32 (vers (cbody msg)) @ be32 (proc (cbody msg)) @
     xdr_auth (cred (cbody msg)) cs @ xdr_auth (cverf (cbody msg)) vs"

section \<open>Moving in the stream\<close>

definition adv :: "nat \<Rightarrow> ZDR \<Rightarrow> ZDR" where
  "adv n z = z\<lparr>pos := pos z + int n\<rparr>"

definition fits :: "ZDR \<Rightarrow> nat \<Rightarrow> bool" where
  "fits z n \<longleftrightarrow> 0 \<le> pos z \<and> pos z + int n \<le> zsize z \<and> zsize z < 2 ^ 31"

definition mapped :: "ZDR \<Rightarrow> mem \<Rightarrow> bool" where
  "mapped z m \<longleftrightarrow> readable m (buf z) (nat (zsize z))"

lemma adv_simps [simp]: "x_op (adv n z) = x_op z" "buf (adv n z) = buf z" "zsize (adv n z) = zsize z" "pos (adv n z) = pos z + int n" "zmem (adv n z) = zmem z"
  "adv a (adv b z) = adv (b + a) z"
  by (simp_all add: adv_def)

lemma at_pos_adv: "at_pos (adv n z) = at_pos z + of_nat n"
  by (simp add: at_pos_def algebra_simps)

lemma fits_adv [simp]: "fits z (n + k) \<Longrightarrow> fits (adv n z) k"
  by (simp add: fits_def)

lemma fits_less: "fits z n \<Longrightarrow> k \<le> n \<Longrightarrow> fits z k"
  by (simp add: fits_def)

lemma mapped_adv [simp]: "mapped (adv n z) m = mapped z m"
  by (simp add: mapped_def)

lemma mapped_put [simp]: "mapped z m \<Longrightarrow> mapped z (put a bs m)"
  by (simp add: mapped_def)

lemma mapped_at:
  assumes "mapped z m" and "fits z n"
  shows "readable m (at_pos z) n"
proof -
  have "readable m (buf z + of_nat (nat (pos z))) n" using assms by (intro readable_part [of _ _ "nat (zsize z)"]) (auto simp: mapped_def fits_def)
  then show ?thesis using assms(2) by (simp add: at_pos_def fits_def)
qed

lemma put_next:
  assumes "length xs + length ys \<le> 2 ^ 63" and "n = length xs"
  shows "put (at_pos (adv n z)) ys (put (at_pos z) xs m) = put (at_pos z) (xs @ ys) m"
  using put_put [OF assms(1)] assms(2) by (simp add: at_pos_adv)

text \<open>The bytes that are next in the stream.\<close>

definition upcoming :: "ZDR \<Rightarrow> mem \<Rightarrow> byte list \<Rightarrow> bool" where
  "upcoming z m bs \<longleftrightarrow> fits z (length bs) \<and> load_bytes m (at_pos z) (length bs) = Some bs"

lemma load_bytes_append:
  "load_bytes m a (n + k) = do { xs \<leftarrow> load_bytes m a n; ys \<leftarrow> load_bytes m (a + of_nat n) k; Some (xs @ ys) }"
  by (induction n arbitrary: a) (auto simp: algebra_simps split: bind_splits)

lemma upcoming_append: "upcoming z m (xs @ ys) \<longleftrightarrow> upcoming z m xs \<and> upcoming (adv (length xs) z) m ys"
proof -
  have "fits z (length (xs @ ys)) \<longleftrightarrow> fits z (length xs) \<and> fits (adv (length xs) z) (length ys)" by (auto simp: fits_def)
  moreover have "load_bytes m (at_pos z) (length (xs @ ys)) = Some (xs @ ys) \<longleftrightarrow> load_bytes m (at_pos z) (length xs) = Some xs \<and>
    load_bytes m (at_pos (adv (length xs) z)) (length ys) = Some ys"
    using load_bytes_nth [of m "at_pos z" "length xs"] by (auto simp: load_bytes_append at_pos_adv bind_eq_Some_conv)
  ultimately show ?thesis by (auto simp: upcoming_def)
qed

lemma upcoming_put: "fits z (length bs) \<Longrightarrow> upcoming z (put (at_pos z) bs m) bs"
  using load_bytes_put [of bs "at_pos z" m] by (simp add: upcoming_def fits_def)

section \<open>Numbers\<close>

lemma u_int_encode:
  assumes "x_op z = ZDR_ENCODE" and "fits z 4" and "mapped z m"
  shows "libnfs_zdr_u_int z u m = Some (True, u, adv 4 z, put (at_pos z) (be32 u) m)"
  using assms mapped_at [OF assms(3,2)] store_bytes_put [of m "at_pos z" "be32 u"]
  by (simp add: libnfs_zdr_u_int_def sadd_def fits_def st32_def le32_htonl adv_def)

lemma u_int_decode:
  assumes "x_op z = ZDR_DECODE" and "upcoming z m (be32 u)"
  shows "libnfs_zdr_u_int z v m = Some (True, u, adv 4 z, m)"
  using assms by (simp add: libnfs_zdr_u_int_def sadd_def fits_def upcoming_def ld32_def ntohl_be32 adv_def)

lemma u_int_full:
  assumes "0 \<le> pos z" and "pos z < 2 ^ 31 - 4" and "pos z + 4 > zsize z"
  shows "libnfs_zdr_u_int z u m = Some (False, u, z, m)"
  using assms by (simp add: libnfs_zdr_u_int_def sadd_def)

section \<open>Bytes\<close>

lemma and_3: "(p :: int) AND 3 = p mod 4"
  using take_bit_eq_mask [of 2 p] by (simp add: take_bit_eq_mod mask_eq_exp_minus_1)

lemma zdr_and_not_3: "(p :: int) AND NOT 3 = p - p mod 4"
proof -
  have "(p AND 3) + (p AND NOT 3) = (p AND 3) OR (p AND NOT 3)" by (rule disjunctive_add) (simp add: bit_simps)
  also have "\<dots> = p" by (rule bit_eqI) (auto simp: bit_simps)
  finally show ?thesis by (simp add: and_3)
qed

lemma zdr_sint_small: "n < 2 ^ 31 \<Longrightarrow> sint (of_nat n :: u32) = int n"
  using signed_of_int [where 'a = int and 'b = 32, of "int n"] by (simp add: signed_take_bit_int_eq_self)

lemma unat_small: "n < 2 ^ 31 \<Longrightarrow> unat (of_nat n :: u32) = n"
  by (simp add: unat_of_nat take_bit_nat_eq_self)

lemma pos_add_adv:
  assumes "fits z n"
  shows "pos_add (of_nat n) z = adv n z"
proof -
  have "of_int (pos z) + of_nat n = (of_int (pos z + int n) :: u32)" by simp
  moreover have "sint (of_int (pos z + int n) :: u32) = pos z + int n"
    using assms signed_of_int [where 'a = int and 'b = 32, of "pos z + int n"] by (simp add: signed_take_bit_int_eq_self fits_def)
  ultimately show ?thesis by (simp only: pos_add_def adv_def)
qed

lemma length_xdr_bytes: "length (xdr_bytes bs) = 4 + length bs + pad4 (length bs)"
  by (simp add: xdr_bytes_def)

lemma pad4_if: "pad4 n = (if n mod 4 = 0 then 0 else 4 - n mod 4)"
  by (auto simp: pad4_def)

lemma pad4_dvd: "4 dvd n + pad4 n"
proof -
  have "n + (4 - n mod 4) = 4 * (n div 4) + 4" using mult_div_mod_eq [of 4 n] mod_less_divisor [of 4 n] by linarith
  then show ?thesis by (auto simp: pad4_if)
qed

lemma pad4_round: "(int n + 3) - (int n + 3) mod 4 = int n + int (pad4 n)"
proof -
  define q r where "q = n div 4" and "r = n mod 4"
  then have n: "int n = 4 * int q + int r" "r < 4" and pad: "pad4 n = (if r = 0 then 0 else 4 - r)" by (simp_all add: pad4_if zdiv_int zmod_int)
  from n(2) consider "r = 0" | "r = 1" | "r = 2" | "r = 3" by linarith
  then show ?thesis by cases (simp_all add: pad n(1) add.assoc)
qed

lemma pad4_pos:
  assumes "4 dvd p"
  shows "(4 - ((p + int n) AND 3)) AND 3 = int (pad4 n)"
proof -
  have "(p + int n) mod 4 = int n mod 4" using assms by (auto elim: dvdE)
  then have "(4 - (p + int n) mod 4) mod 4 = (4 - int n mod 4) mod 4" by simp
  moreover have "int (pad4 n) = (4 - int n mod 4) mod 4" unfolding pad4_def by (simp add: of_nat_mod of_nat_diff)
  ultimately show ?thesis by (simp only: and_3)
qed

text \<open>Memory outside the buffer of the stream.\<close>

definition apart :: "ZDR \<Rightarrow> u64 \<Rightarrow> nat \<Rightarrow> bool" where
  "apart z a n \<longleftrightarrow> (\<forall>i < n. nat (zsize z) \<le> unat (a + of_nat i - buf z))"

lemma apart_adv [simp]: "apart (adv k z) a n = apart z a n"
  by (simp add: apart_def)

lemma load_apart:
  assumes "apart z a n" and "fits z (length bs)"
  shows "load_bytes (put (at_pos z) bs m) a n = load_bytes m a n"
proof (rule load_bytes_cong)
  fix i
  assume "i < n"
  let ?d = "a + of_nat i - buf z" and ?p = "of_nat (nat (pos z)) :: u64"
  have d: "nat (zsize z) \<le> unat ?d" using assms(1) \<open>i < n\<close> by (simp add: apart_def)
  have p1: "unat ?p = nat (pos z)" by (rule unat_of_nat_u64) (use assms(2) in \<open>auto simp: fits_def\<close>)
  have p: "unat ?p = nat (pos z)" "at_pos z = buf z + ?p" using p1 assms(2) by (auto simp: fits_def at_pos_def)
  have le: "nat (pos z) + length bs \<le> nat (zsize z)" using assms(2) unfolding fits_def by linarith
  then have "?p \<le> ?d" using d p(1) unfolding word_le_nat_alt by linarith
  then have "unat (a + of_nat i - at_pos z) = unat ?d - nat (pos z)" using p(1) unfolding p(2) by (simp only: diff_diff_add [symmetric] unat_sub)
  then have "\<not> unat (a + of_nat i - at_pos z) < length bs" using d le by linarith
  then show "put (at_pos z) bs m (a + of_nat i) = m (a + of_nat i)" by (simp add: put_def)
qed

lemma aligned_top:
  assumes "4 dvd (p :: int)" and "int (n + k) mod 4 = 0" and "p + 4 + int n + int k < 2 ^ 31"
  shows "p + 4 + int n + 3 < 2 ^ 31"
proof -
  from assms(1,2) obtain i j where "p = 4 * i" "int n + int k = 4 * j" by (auto simp: mod_eq_0_iff_dvd elim!: dvdE)
  moreover from this assms(3) have "i + j + 1 \<le> 536870911" by simp
  ultimately show ?thesis by simp
qed

lemma bytes_encode:
  assumes z: "x_op z = ZDR_ENCODE" "4 dvd pos z" "fits z (length (xdr_bytes bs))" "mapped z m"
    and src: "load_bytes m src (length bs) = Some bs" "apart z src (length bs)"
  shows "libnfs_zdr_bytes z src (of_nat (length bs)) m = Some (True, src, of_nat (length bs), adv (length (xdr_bytes bs)) z, put (at_pos z) (xdr_bytes bs) m)"
proof -
  let ?n = "length bs" and ?z = "adv 4 z" and ?m = "put (at_pos z) (be32 (of_nat (length bs))) m"
  have f: "fits z 4" "fits ?z ?n" "fits (adv (4 + ?n) z) (pad4 ?n)" using z(3) by (auto simp: fits_def length_xdr_bytes)
  have small: "?n < 2 ^ 31" using f(2) by (auto simp: fits_def)
  have pl: "pad4 ?n < 4" by (simp add: pad4_def)
  have m1: "mapped ?z ?m" using z(4) by simp
  have "load_bytes ?m src ?n = Some bs" using src load_apart [of z src ?n "be32 (of_nat ?n)" m] f(1) by simp
  then have "memcpy (at_pos ?z) src ?n ?m = Some (put (at_pos ?z) bs ?m)"
    by (rule memcpy_put [OF _ mapped_at [OF m1 f(2)]]) (use small in simp)
  moreover have "put (at_pos ?z) bs ?m = put (at_pos z) (be32 (of_nat ?n) @ bs) m" by (rule put_next) (use small in simp_all)
  ultimately have cp: "memcpy (at_pos ?z) src ?n ?m = Some (put (at_pos z) (be32 (of_nat ?n) @ bs) m)" by simp
  have p: "pos_add (of_nat ?n) ?z = adv (4 + ?n) z" using pos_add_adv [OF f(2)] by simp
  have pad: "(4 - (pos (adv (4 + ?n) z) AND 3)) AND 3 = int (pad4 ?n)" using pad4_pos [of "pos z + 4" ?n] z(2) by (simp add: algebra_simps)
  let ?m2 = "put (at_pos z) (be32 (of_nat ?n) @ bs) m"
  have "mapped (adv (4 + ?n) z) ?m2" using z(4) by simp
  from mapped_at [OF this f(3)]
  have "store_bytes ?m2 (at_pos (adv (4 + ?n) z)) (replicate (pad4 ?n) 0) = Some (put (at_pos (adv (4 + ?n) z)) (replicate (pad4 ?n) 0) ?m2)"
    by (intro store_bytes_put) (use pl in simp_all)
  moreover have "put (at_pos (adv (4 + ?n) z)) (replicate (pad4 ?n) 0) ?m2 = put (at_pos z) ((be32 (of_nat ?n) @ bs) @ replicate (pad4 ?n) 0) m"
    by (rule put_next) (use small pl in simp_all)
  ultimately have st: "store_bytes ?m2 (at_pos (adv (4 + ?n) z)) (replicate (pad4 ?n) 0) = Some (put (at_pos z) (xdr_bytes bs) m)" by (simp add: xdr_bytes_def)
  have e: "sadd 32 (pos ?z) (sint (of_nat ?n :: u32)) = Some (pos z + 4 + int ?n)" "pos z + 4 + int ?n \<le> zsize z"
    using f(2) small by (auto simp: sadd_def fits_def zdr_sint_small)
  have e2: "sadd 32 (pos (adv (4 + ?n) z)) (int (pad4 ?n)) = Some (pos z + int (length (xdr_bytes bs)))"
    using f(3) by (auto simp: sadd_def fits_def length_xdr_bytes)
  show ?thesis
  proof (cases "pad4 ?n = 0")
    case True
    then have "put (at_pos z) (xdr_bytes bs) m = ?m2" "length (xdr_bytes bs) = 4 + ?n" by (simp_all add: xdr_bytes_def)
    then show ?thesis unfolding libnfs_zdr_bytes_def u_int_encode [OF z(1) f(1) z(4)] using True e cp p pad small z(1) by (simp add: unat_small)
  next
    case False
    then show ?thesis unfolding libnfs_zdr_bytes_def u_int_encode [OF z(1) f(1) z(4)] using e cp p pad small z(1) st e2
      by (simp add: unat_small adv_def)
  qed
qed

lemma bytes_decode:
  assumes z: "x_op z = ZDR_DECODE" "4 dvd pos z" and up: "upcoming z m (xdr_bytes bs)"
  shows "libnfs_zdr_bytes z 0 v m = Some (True, at_pos (adv 4 z), of_nat (length bs), adv (length (xdr_bytes bs)) z, m)"
proof -
  let ?n = "length bs"
  have up1: "upcoming z m (be32 (of_nat ?n))" using up by (auto simp: xdr_bytes_def upcoming_append)
  have f: "fits (adv 4 z) ?n" "fits z (4 + ?n + pad4 ?n)" using up by (auto simp: upcoming_def fits_def length_xdr_bytes)
  have small: "?n < 2 ^ 31" using f(1) by (auto simp: fits_def)
  have e: "sadd 32 (pos (adv 4 z)) (sint (of_nat ?n :: u32)) = Some (pos z + 4 + int ?n)" "pos z + 4 + int ?n \<le> zsize z"
    using f(1) small by (auto simp: sadd_def fits_def zdr_sint_small)
  have "int (?n + pad4 ?n) mod 4 = 0" using pad4_dvd [of ?n] by (metis mod_0_imp_dvd dvd_imp_mod_0 of_nat_dvd_iff of_nat_numeral)
  then have top: "pos z + 4 + int ?n + 3 < 2 ^ 31" by (rule aligned_top [OF z(2)]) (use f(2) in \<open>auto simp: fits_def\<close>)
  have "(pos z + int (4 + ?n) + 3) mod 4 = (int ?n + 3) mod 4" using z(2) by presburger
  then have "(pos z + int (4 + ?n) + 3) AND NOT 3 = pos z + int (4 + ?n + pad4 ?n)"
    using pad4_round [of ?n] unfolding zdr_and_not_3 by simp
  then have "pos_align (adv (4 + ?n) z) = Some (adv (length (xdr_bytes bs)) z)"
    using f(2) top by (simp add: pos_align_def sadd_def fits_def length_xdr_bytes adv_def)
  then show ?thesis unfolding libnfs_zdr_bytes_def u_int_decode [OF z(1) up1] using e z(1) pos_add_adv [OF f(1)] by simp
qed

lemma xdr_bytes_dvd: "4 dvd length (xdr_bytes bs)"
  using pad4_dvd [of "length bs"] by (simp add: length_xdr_bytes add.assoc)

section \<open>Credentials\<close>

text \<open>An opaque body of bytes in memory outside the stream.\<close>

definition auth_at :: "ZDR \<Rightarrow> mem \<Rightarrow> opaque_auth \<Rightarrow> byte list \<Rightarrow> bool" where
  "auth_at z m a bs \<longleftrightarrow> oa_length a = of_nat (length bs) \<and> load_bytes m (oa_base a) (length bs) = Some bs \<and> apart z (oa_base a) (length bs)"

lemma auth_at_put: "auth_at z m a bs \<Longrightarrow> fits z (length xs) \<Longrightarrow> auth_at z (put (at_pos z) xs m) a bs"
  by (simp add: auth_at_def load_apart)

lemma auth_at_adv [simp]: "auth_at (adv n z) m a bs = auth_at z m a bs"
  by (simp add: auth_at_def)

lemma opaque_auth_encode:
  assumes z: "x_op z = ZDR_ENCODE" "4 dvd pos z" "fits z (length (xdr_auth a bs))" "mapped z m" and a: "auth_at z m a bs"
  shows "libnfs_opaque_auth z a m = Some (True, a, adv (length (xdr_auth a bs)) z, put (at_pos z) (xdr_auth a bs) m)"
proof -
  have f: "fits z 4" "fits (adv 4 z) (length (xdr_bytes bs))" using z(3) by (auto simp: fits_def xdr_auth_def)
  let ?m = "put (at_pos z) (be32 (oa_flavor a)) m"
  have a': "auth_at (adv 4 z) ?m a bs" using auth_at_put [OF a, of "be32 (oa_flavor a)"] f(1) by simp
  have "libnfs_zdr_bytes (adv 4 z) (oa_base a) (of_nat (length bs)) ?m =
    Some (True, oa_base a, of_nat (length bs), adv (length (xdr_bytes bs)) (adv 4 z), put (at_pos (adv 4 z)) (xdr_bytes bs) ?m)"
    using z a' f(2) by (intro bytes_encode) (auto simp: auth_at_def)
  moreover have "put (at_pos (adv 4 z)) (xdr_bytes bs) ?m = put (at_pos z) (xdr_auth a bs) m"
    unfolding xdr_auth_def by (rule put_next) (use z(3) in \<open>auto simp: fits_def xdr_auth_def\<close>)
  ultimately show ?thesis using u_int_encode [OF z(1) f(1) z(4)] a by (simp add: libnfs_opaque_auth_def auth_at_def xdr_auth_def)
qed

lemma opaque_auth_decode:
  assumes z: "x_op z = ZDR_DECODE" "4 dvd pos z" and up: "upcoming z m (xdr_auth a bs)" and a0: "oa_base a0 = 0"
  shows "libnfs_opaque_auth z a0 m = Some (True, \<lparr>oa_flavor = oa_flavor a, oa_base = at_pos (adv 8 z), oa_length = of_nat (length bs)\<rparr>, adv (length (xdr_auth a bs)) z, m)"
proof -
  have u: "upcoming z m (be32 (oa_flavor a))" "upcoming (adv 4 z) m (xdr_bytes bs)" using up by (auto simp: xdr_auth_def upcoming_append)
  show ?thesis using u_int_decode [OF z(1) u(1)] bytes_decode [OF _ _ u(2)] z a0 by (simp add: libnfs_opaque_auth_def xdr_auth_def)
qed

lemma xdr_auth_dvd: "4 dvd length (xdr_auth a bs)"
  using xdr_bytes_dvd [of bs] by (simp add: xdr_auth_def)

section \<open>Messages\<close>

text \<open>A field that comes after the bytes \<open>xs\<close>.\<close>

lemma u_int_encode_next:
  assumes "x_op z = ZDR_ENCODE" and "fits z (n + 4)" and "mapped z m" and "n = length xs"
  shows "libnfs_zdr_u_int (adv n z) u (put (at_pos z) xs m) = Some (True, u, adv (n + 4) z, put (at_pos z) (xs @ be32 u) m)"
proof -
  have "libnfs_zdr_u_int (adv n z) u (put (at_pos z) xs m) = Some (True, u, adv 4 (adv n z), put (at_pos (adv n z)) (be32 u) (put (at_pos z) xs m))"
    using assms by (intro u_int_encode) auto
  moreover have "put (at_pos (adv n z)) (be32 u) (put (at_pos z) xs m) = put (at_pos z) (xs @ be32 u) m"
    by (rule put_next) (use assms(2,4) in \<open>auto simp: fits_def\<close>)
  ultimately show ?thesis by simp
qed

lemma opaque_auth_encode_next:
  assumes z: "x_op z = ZDR_ENCODE" "4 dvd pos z" "fits z (n + length (xdr_auth a bs))" "mapped z m" and n: "n = length xs" "4 dvd n" and a: "auth_at z m a bs"
  shows "libnfs_opaque_auth (adv n z) a (put (at_pos z) xs m) = Some (True, a, adv (n + length (xdr_auth a bs)) z, put (at_pos z) (xs @ xdr_auth a bs) m)"
proof -
  have "fits z (length xs)" using z(3) n(1) by (auto simp: fits_def)
  with auth_at_put [OF a] have a': "auth_at (adv n z) (put (at_pos z) xs m) a bs" by simp
  have "4 dvd pos (adv n z)" using z(2) n(2) by (auto simp flip: of_nat_dvd_iff)
  then have "libnfs_opaque_auth (adv n z) a (put (at_pos z) xs m) =
    Some (True, a, adv (length (xdr_auth a bs)) (adv n z), put (at_pos (adv n z)) (xdr_auth a bs) (put (at_pos z) xs m))"
    using z a' by (intro opaque_auth_encode) auto
  moreover have "put (at_pos (adv n z)) (xdr_auth a bs) (put (at_pos z) xs m) = put (at_pos z) (xs @ xdr_auth a bs) m"
    by (rule put_next) (use z(3) n(1) in \<open>auto simp: fits_def\<close>)
  ultimately show ?thesis by simp
qed

lemma length_xdr_call: "length (xdr_call msg cs vs) = 24 + length (xdr_auth (cred (cbody msg)) cs) + length (xdr_auth (cverf (cbody msg)) vs)"
  by (simp add: xdr_call_def)

lemma callmsg_encode:
  assumes z: "x_op z = ZDR_ENCODE" "4 dvd pos z" "fits z (length (xdr_call msg cs vs))" "mapped z m"
    and msg: "direction msg = CALL" "auth_at z m (cred (cbody msg)) cs" "auth_at z m (cverf (cbody msg)) vs"
  shows "libnfs_zdr_callmsg rpc z msg m = Some (True, rpc, msg, adv (length (xdr_call msg cs vs)) z, put (at_pos z) (xdr_call msg cs vs) m)"
proof -
  let ?c = "cbody msg"
  have f: "fits z k" if "k \<le> length (xdr_call msg cs vs)" for k using z(3) that by (rule fits_less)
  note u = u_int_encode_next [OF z(1) _ z(4)]
  note first = u_int_encode [OF z(1) f z(4)]
  let ?x1 = "be32 (xid msg) @ be32 CALL @ be32 (rpcvers ?c) @ be32 (prog ?c) @ be32 (vers ?c) @ be32 (proc ?c)"
  have a1: "libnfs_opaque_auth (adv 24 z) (cred ?c) (put (at_pos z) ?x1 m) =
      Some (True, cred ?c, adv (24 + length (xdr_auth (cred ?c) cs)) z, put (at_pos z) (?x1 @ xdr_auth (cred ?c) cs) m)"
    by (rule opaque_auth_encode_next [OF z(1,2) f z(4) _ _ msg(2)]) (auto simp: length_xdr_call)
  have a2: "libnfs_opaque_auth (adv (24 + length (xdr_auth (cred ?c) cs)) z) (cverf ?c) (put (at_pos z) (?x1 @ xdr_auth (cred ?c) cs) m) =
      Some (True, cverf ?c, adv (24 + length (xdr_auth (cred ?c) cs) + length (xdr_auth (cverf ?c) vs)) z, put (at_pos z) ((?x1 @ xdr_auth (cred ?c) cs) @ xdr_auth (cverf ?c) vs) m)"
    by (rule opaque_auth_encode_next [OF z(1,2) f z(4) _ _ msg(3)]) (use xdr_auth_dvd in \<open>auto simp: length_xdr_call\<close>)
  show ?thesis using a1 a2 msg(1)
    by (simp add: libnfs_zdr_callmsg_def libnfs_rpc_msg_def libnfs_rpc_call_body_def first u f length_xdr_call xdr_call_def)
qed

text \<open>The message that is decoded: the credentials are in the stream.\<close>

definition call_read :: "rpc_msg \<Rightarrow> byte list \<Rightarrow> byte list \<Rightarrow> ZDR \<Rightarrow> rpc_msg \<Rightarrow> rpc_msg" where
  "call_read msg cs vs z msg0 = msg0\<lparr>xid := xid msg, direction := CALL, cbody := (cbody msg0)\<lparr>rpcvers := rpcvers (cbody msg), prog := prog (cbody msg), vers := vers (cbody msg), proc := proc (cbody msg),
     cred := \<lparr>oa_flavor = oa_flavor (cred (cbody msg)), oa_base = at_pos (adv 32 z), oa_length = of_nat (length cs)\<rparr>,
     cverf := \<lparr>oa_flavor = oa_flavor (cverf (cbody msg)), oa_base = at_pos (adv (32 + length (xdr_auth (cred (cbody msg)) cs)) z), oa_length = of_nat (length vs)\<rparr>\<rparr>\<rparr>"

lemma callmsg_decode:
  assumes z: "x_op z = ZDR_DECODE" "4 dvd pos z" and up: "upcoming z m (xdr_call msg cs vs)" and msg0: "oa_base (cred (cbody msg0)) = 0" "oa_base (cverf (cbody msg0)) = 0"
  shows "libnfs_zdr_callmsg rpc z msg0 m = Some (True, rpc, call_read msg cs vs z msg0, adv (length (xdr_call msg cs vs)) z, m)"
proof -
  let ?c = "cbody msg"
  let ?l = "length (xdr_auth (cred ?c) cs)"
  have u: "upcoming z m (be32 (xid msg))" "upcoming (adv 4 z) m (be32 CALL)" "upcoming (adv 8 z) m (be32 (rpcvers ?c))" "upcoming (adv 12 z) m (be32 (prog ?c))"
    "upcoming (adv 16 z) m (be32 (vers ?c))" "upcoming (adv 20 z) m (be32 (proc ?c))" "upcoming (adv 24 z) m (xdr_auth (cred ?c) cs)" "upcoming (adv (24 + ?l) z) m (xdr_auth (cverf ?c) vs)"
    using up by (simp_all add: xdr_call_def upcoming_append)
  have d: "4 dvd pos (adv 24 z)" "4 dvd pos (adv (24 + ?l) z)" using z(2) xdr_auth_dvd [of "cred ?c" cs] by (auto simp flip: of_nat_dvd_iff)
  have op: "x_op (adv k z) = ZDR_DECODE" for k using z(1) by simp
  note i = u_int_decode [OF z(1) u(1)] u_int_decode [OF op u(2)] u_int_decode [OF op u(3)] u_int_decode [OF op u(4)] u_int_decode [OF op u(5)] u_int_decode [OF op u(6)]
  note a = opaque_auth_decode [OF op d(1) u(7) msg0(1)] opaque_auth_decode [OF op d(2) u(8) msg0(2)]
  show ?thesis using i a
    by (simp add: libnfs_zdr_callmsg_def libnfs_rpc_msg_def libnfs_rpc_call_body_def length_xdr_call call_read_def add.commute add.left_commute)
qed

lemma upcoming_auth_load:
  "upcoming (adv n z) m (xdr_auth a bs) \<Longrightarrow> load_bytes m (at_pos (adv (8 + n) z)) (length bs) = Some bs"
  by (simp add: xdr_auth_def xdr_bytes_def upcoming_append) (simp add: upcoming_def)

section \<open>The other routines\<close>

definition be64 :: "u64 \<Rightarrow> byte list" where
  "be64 v = be32 (ucast (drop_bit 32 v)) @ be32 (ucast v)"

lemma length_be64 [simp]: "length (be64 v) = 8"
  by (simp add: be64_def)

lemma u64_halves: "push_bit 32 (ucast (ucast (drop_bit 32 v) :: u32)) OR ucast (ucast v :: u32) = (v :: u64)"
  by (rule bit_word_eqI) (auto simp: bit_simps)

lemma ucast_low: "(ucast (v AND 0xFFFFFFFF) :: u32) = ucast (v :: u64)"
proof -
  have m: "(0xFFFFFFFF :: u64) = mask 32" by (simp add: mask_eq_exp_minus_1)
  show ?thesis unfolding m by (rule bit_word_eqI) (auto simp: bit_simps)
qed

lemma uint64_encode:
  assumes z: "x_op z = ZDR_ENCODE" "fits z 8" "mapped z m"
  shows "libnfs_zdr_uint64_t z v m = Some (True, v, adv 8 z, put (at_pos z) (be64 v) m)"
proof -
  let ?hi = "be32 (ucast (drop_bit 32 v))" and ?lo = "be32 (ucast v)"
  have f: "fits z 4" "fits (adv 4 z) 4" using z(2) by (auto simp: fits_def)
  have hi: "st32 m (at_pos z) (htonl (ucast (drop_bit 32 v))) = Some (put (at_pos z) ?hi m)"
    using store_bytes_put [of m "at_pos z" ?hi] mapped_at [OF z(3) f(1)] by (simp add: st32_def le32_htonl)
  have "mapped (adv 4 z) (put (at_pos z) ?hi m)" using z(3) by simp
  then have "st32 (put (at_pos z) ?hi m) (at_pos (adv 4 z)) (htonl (ucast v)) = Some (put (at_pos (adv 4 z)) ?lo (put (at_pos z) ?hi m))"
    using store_bytes_put [of "put (at_pos z) ?hi m" "at_pos (adv 4 z)" ?lo] mapped_at [OF _ f(2)] by (simp add: st32_def le32_htonl)
  also have "put (at_pos (adv 4 z)) ?lo (put (at_pos z) ?hi m) = put (at_pos z) (be64 v) m" unfolding be64_def by (rule put_next) simp_all
  finally show ?thesis using hi z(1,2) by (simp add: libnfs_zdr_uint64_t_def sadd_def fits_def adv_def ucast_low)
qed

lemma uint64_decode:
  assumes z: "x_op z = ZDR_DECODE" and up: "upcoming z m (be64 v)"
  shows "libnfs_zdr_uint64_t z u m = Some (True, v, adv 8 z, m)"
proof -
  have "upcoming z m (be32 (ucast (drop_bit 32 v)))" "upcoming (adv 4 z) m (be32 (ucast v))" using up by (simp_all add: be64_def upcoming_append)
  then have "ld32 m (at_pos z) = Some (of_le32 (be32 (ucast (drop_bit 32 v))))" "ld32 m (at_pos (adv 4 z)) = Some (of_le32 (be32 (ucast v)))"
    by (simp_all add: upcoming_def ld32_def)
  with z up show ?thesis by (simp add: libnfs_zdr_uint64_t_def sadd_def fits_def upcoming_def adv_def ntohl_be32 u64_halves)
qed

text \<open>A length with the sign bit set passes the test for the end of the buffer, and the position moves back: a message may be read in a circle.\<close>

lemma bytes_negative_length:
  assumes z: "x_op z = ZDR_DECODE" "0 \<le> pos z" "pos z + 4 \<le> zsize z" "zsize z < 2 ^ 31" and up: "upcoming z m (be32 n)" and n: "sint n < 0"
    and p: "pos z + 4 + sint n = 4 * q" "- (2 ^ 31) \<le> 4 * q"
  shows "libnfs_zdr_bytes z 0 v m = Some (True, at_pos (adv 4 z), n, z\<lparr>pos := 4 * q\<rparr>, m)"
proof -
  have "4 * q < 2147483648" using z n p by simp
  then have top: "4 * q + 3 < 2 ^ 31" by simp
  then have e: "sadd 32 (pos (adv 4 z)) (sint n) = Some (4 * q)" "4 * q \<le> zsize z" "4 * q + 3 < 2 ^ 31" using z n p by (auto simp: sadd_def)
  have "of_int (pos (adv 4 z)) + of_int (sint n) = (of_int (pos z + 4 + sint n) :: u32)" by (simp only: adv_simps of_int_add of_nat_numeral of_int_numeral)
  then have "of_int (pos (adv 4 z)) + n = (of_int (4 * q) :: u32)" unfolding p(1) by (simp only: of_int_sint scast_id)
  moreover have "sint (of_int (4 * q) :: u32) = 4 * q"
    using signed_of_int [where 'a = int and 'b = 32, of "4 * q"] e p(2) by (simp add: signed_take_bit_int_eq_self)
  ultimately have "pos_add n (adv 4 z) = z\<lparr>pos := 4 * q\<rparr>" by (simp only: pos_add_def adv_def) simp
  moreover have "(4 * q + 3) AND NOT 3 = 4 * q" unfolding zdr_and_not_3 by presburger
  ultimately have "pos_align (pos_add n (adv 4 z)) = Some (z\<lparr>pos := 4 * q\<rparr>)" using e(3) p(2) by (simp add: pos_align_def sadd_def)
  then show ?thesis unfolding libnfs_zdr_bytes_def u_int_decode [OF z(1) up] using e z(1) by simp
qed

section \<open>Round trip\<close>

text \<open>C19. A call that is encoded into a buffer with enough room and decoded from it again comes out as it went in.  Encoding succeeds and leaves at the start of the buffer exactly the bytes of RFC 5531: every number in network
  byte order, credentials and verifier with their length in front and zeros up to a multiple of four; the position is behind them.  Decoding, with a message that was cleared before, succeeds and consumes the same bytes,
  every field has its value again, and the bodies of the credentials and the verifier are found in the buffer.\<close>

theorem callmsg_roundtrip:
  assumes room: "length (xdr_call msg cs vs) \<le> unat n" "unat n < 2 ^ 31" "readable m b (unat n)"
    and msg: "direction msg = CALL" "auth_at (libnfs_zdrmem_create b n ZDR_ENCODE) m (cred (cbody msg)) cs" "auth_at (libnfs_zdrmem_create b n ZDR_ENCODE) m (cverf (cbody msg)) vs"
    and msg0: "oa_base (cred (cbody msg0)) = 0" "oa_base (cverf (cbody msg0)) = 0"
  shows "\<exists>z1 m' z2 msg'. libnfs_zdr_callmsg rpc (libnfs_zdrmem_create b n ZDR_ENCODE) msg m = Some (True, rpc, msg, z1, m') \<and>
    load_bytes m' b (length (xdr_call msg cs vs)) = Some (xdr_call msg cs vs) \<and> libnfs_zdr_getpos z1 = of_nat (length (xdr_call msg cs vs)) \<and>
    libnfs_zdr_callmsg rpc (libnfs_zdrmem_create b n ZDR_DECODE) msg0 m' = Some (True, rpc, msg', z2, m') \<and> libnfs_zdr_getpos z2 = libnfs_zdr_getpos z1 \<and>
    xid msg' = xid msg \<and> direction msg' = CALL \<and> rpcvers (cbody msg') = rpcvers (cbody msg) \<and> prog (cbody msg') = prog (cbody msg) \<and>
    vers (cbody msg') = vers (cbody msg) \<and> proc (cbody msg') = proc (cbody msg) \<and>
    oa_flavor (cred (cbody msg')) = oa_flavor (cred (cbody msg)) \<and> oa_length (cred (cbody msg')) = of_nat (length cs) \<and> load_bytes m' (oa_base (cred (cbody msg'))) (length cs) = Some cs \<and>
    oa_flavor (cverf (cbody msg')) = oa_flavor (cverf (cbody msg)) \<and> oa_length (cverf (cbody msg')) = of_nat (length vs) \<and> load_bytes m' (oa_base (cverf (cbody msg'))) (length vs) = Some vs"
proof -
  let ?e = "libnfs_zdrmem_create b n ZDR_ENCODE" and ?d = "libnfs_zdrmem_create b n ZDR_DECODE" and ?bs = "xdr_call msg cs vs"
  have n: "sint n = int (unat n)" using zdr_sint_small [OF room(2)] by simp
  have "int (length ?bs) \<le> int (unat n)" "int (unat n) < int (2 ^ 31)" using room(1,2) by (simp_all only: of_nat_le_iff of_nat_less_iff)
  then have fits: "fits ?e (length ?bs)" "fits ?d (length ?bs)" by (simp_all add: fits_def libnfs_zdrmem_create_def n)
  have at: "at_pos ?e = b" "at_pos ?d = b" by (simp_all add: at_pos_def libnfs_zdrmem_create_def)
  have "mapped ?e m" using room(3) by (simp add: mapped_def libnfs_zdrmem_create_def n)
  from callmsg_encode [OF _ _ fits(1) this msg] have enc: "libnfs_zdr_callmsg rpc ?e msg m = Some (True, rpc, msg, adv (length ?bs) ?e, put b ?bs m)"
    by (simp add: at) (simp add: libnfs_zdrmem_create_def)
  have up: "upcoming ?d (put b ?bs m) ?bs" using upcoming_put [OF fits(2), of m] by (simp add: at)
  from callmsg_decode [OF _ _ up msg0] have dec: "libnfs_zdr_callmsg rpc ?d msg0 (put b ?bs m) = Some (True, rpc, call_read msg cs vs ?d msg0, adv (length ?bs) ?d, put b ?bs m)"
    by (simp add: libnfs_zdrmem_create_def)
  have "upcoming (adv 24 ?d) (put b ?bs m) (xdr_auth (cred (cbody msg)) cs)" "upcoming (adv (24 + length (xdr_auth (cred (cbody msg)) cs)) ?d) (put b ?bs m) (xdr_auth (cverf (cbody msg)) vs)"
    using up by (simp_all add: xdr_call_def upcoming_append)
  note bodies = this [THEN upcoming_auth_load]
  have "load_bytes (put b ?bs m) b (length ?bs) = Some ?bs" using up by (simp add: upcoming_def at)
  with enc dec bodies show ?thesis
    by (intro exI [of _ "adv (length ?bs) ?e"] exI [of _ "put b ?bs m"] exI [of _ "adv (length ?bs) ?d"] exI [of _ "call_read msg cs vs ?d msg0"])
      (simp add: call_read_def libnfs_zdr_getpos_def libnfs_zdrmem_create_def)
qed

definition zdr_example_mem :: mem where
  "zdr_example_mem a = (if 0x1000 \<le> a \<and> a < 0x1100 then Some 0 else if a = 0x2000 then Some 5 else if a = 0x2001 then Some 6 else None)"

definition zdr_example :: "u32 \<Rightarrow> u32 \<Rightarrow> u64 \<Rightarrow> u32 \<Rightarrow> rpc_msg" where
  "zdr_example x p a n = \<lparr>xid = x, direction = CALL,
     cbody = \<lparr>rpcvers = 2, prog = p, vers = 3, proc = 1, cred = \<lparr>oa_flavor = AUTH_UNIX, oa_base = a, oa_length = n\<rparr>, cverf = auth_none\<rparr>,
     rbody = \<lparr>bstat = 0, areply = \<lparr>averf = auth_none, astat = 0, res_where = 0, res_proc = (\<lambda>p z m. None), amis_low = 0, amis_high = 0\<rparr>,
       rreply = \<lparr>rstat = 0, rmis_low = 0, rmis_high = 0, rauth_stat = 0\<rparr>\<rparr>\<rparr>"

lemma zdr_example_readable: "readable zdr_example_mem 0x1000 256"
proof -
  have "(0x1000 :: u64) \<le> 0x1000 + of_nat i \<and> 0x1000 + of_nat i < (0x1100 :: u64)" if "i < 256" for i
    using that unat_of_nat_u64 [of i] by (simp add: word_le_nat_alt word_less_nat_alt unat_word_ariths)
  then show ?thesis by (simp add: readable_def zdr_example_mem_def)
qed

theorem callmsg_roundtrip_witness:
  "\<exists>z1 m' z2 msg'. libnfs_zdr_callmsg \<lparr>error_string = []\<rparr> (libnfs_zdrmem_create 0x1000 256 ZDR_ENCODE) (zdr_example 7 100003 0x2000 2) zdr_example_mem =
      Some (True, \<lparr>error_string = []\<rparr>, zdr_example 7 100003 0x2000 2, z1, m') \<and>
    libnfs_zdr_callmsg \<lparr>error_string = []\<rparr> (libnfs_zdrmem_create 0x1000 256 ZDR_DECODE) (zdr_example 0 0 0 0) m' = Some (True, \<lparr>error_string = []\<rparr>, msg', z2, m') \<and>
    xid msg' = 7 \<and> prog (cbody msg') = 100003 \<and> load_bytes m' (oa_base (cred (cbody msg'))) 2 = Some [5, 6]"
proof -
  have len: "length (xdr_call (zdr_example 7 100003 0x2000 2) [5, 6] []) = 44"
    by (simp add: length_xdr_call xdr_auth_def length_xdr_bytes pad4_def)
  have a: "auth_at (libnfs_zdrmem_create 0x1000 256 ZDR_ENCODE) zdr_example_mem (cred (cbody (zdr_example 7 100003 0x2000 2))) [5, 6]"
    by (auto simp: auth_at_def zdr_example_def zdr_example_mem_def apart_def libnfs_zdrmem_create_def less_Suc_eq)
  have v: "auth_at (libnfs_zdrmem_create 0x1000 256 ZDR_ENCODE) zdr_example_mem (cverf (cbody (zdr_example 7 100003 0x2000 2))) []"
    by (simp add: auth_at_def zdr_example_def apart_def auth_none_def)
  have h: "length (xdr_call (zdr_example 7 100003 0x2000 2) [5, 6] []) \<le> unat (256 :: u32)" "unat (256 :: u32) < 2 ^ 31" "readable zdr_example_mem 0x1000 (unat (256 :: u32))"
    "direction (zdr_example 7 100003 0x2000 2) = CALL" "oa_base (cred (cbody (zdr_example 0 0 0 0))) = 0" "oa_base (cverf (cbody (zdr_example 0 0 0 0))) = 0"
    using len zdr_example_readable by (simp_all add: zdr_example_def auth_none_def)
  from callmsg_roundtrip [OF h(1-4) a v h(5,6), of "\<lparr>error_string = []\<rparr>"] obtain z1 m' z2 msg' where
    "libnfs_zdr_callmsg \<lparr>error_string = []\<rparr> (libnfs_zdrmem_create 0x1000 256 ZDR_ENCODE) (zdr_example 7 100003 0x2000 2) zdr_example_mem =
      Some (True, \<lparr>error_string = []\<rparr>, zdr_example 7 100003 0x2000 2, z1, m')"
    "libnfs_zdr_callmsg \<lparr>error_string = []\<rparr> (libnfs_zdrmem_create 0x1000 256 ZDR_DECODE) (zdr_example 0 0 0 0) m' = Some (True, \<lparr>error_string = []\<rparr>, msg', z2, m')"
    "xid msg' = xid (zdr_example 7 100003 0x2000 2)" "prog (cbody msg') = prog (cbody (zdr_example 7 100003 0x2000 2))" "load_bytes m' (oa_base (cred (cbody msg'))) (length [5, 6 :: byte]) = Some [5, 6]"
    by blast
  moreover have "xid (zdr_example 7 100003 0x2000 2) = 7" "prog (cbody (zdr_example 7 100003 0x2000 2)) = 100003" "length [5, 6 :: byte] = 2" by (simp_all add: zdr_example_def)
  ultimately show ?thesis by metis
qed

end
