(* ===== verification/Eth_Driver.thy ===== *)
theory Eth_Driver
  imports Dma Clock C_Memory Errno "HOL-Library.Signed_Division"
begin

text \<open>
  The driver of the Ethernet controller: \<open>libethernet/src/uboot/designware.c\<close>, \<open>libethernet/src/ethernet.c\<close> and the functions of \<open>sos/src/network.c\<close> that connect it to the network stack.

  \<^item> Memory that the controller shares with the processor exists twice: as the processor sees it through its cache, and as it is in RAM, where the controller reads and writes it. Flushing a range copies
    the first to the second, invalidating it the other way round. A line that the processor has not written is never written back.
  \<^item> A descriptor has a cache line of its own, so the tables of descriptors are lists, one for each view; packets are bytes in memory. RAM has the addresses of the processor, \<open>sos_dma_phys_to_virt\<close> translates.
  \<^item> The registers of the controller, its clock and the PHY are a parameter \<open>H\<close> with a state of its own.
\<close>

section \<open>Registers and descriptors\<close>

datatype eth_reg = MAC_conf | MAC_miiaddr | MAC_miidata | MAC_intmask | MAC_macaddr0hi | MAC_macaddr0lo
  | DMA_busmode | DMA_txpolldemand | DMA_rxdesclistaddr | DMA_txdesclistaddr | DMA_status | DMA_opmode | DMA_intenable

record 'd eth_hw =
  readl :: "eth_reg \<Rightarrow> 'd \<Rightarrow> u32 \<times> 'd"
  writel :: "eth_reg \<Rightarrow> u32 \<Rightarrow> 'd \<Rightarrow> 'd"
  hw_ticks :: "'d \<Rightarrow> u64 \<times> 'd"
  hw_udelay :: "u32 \<Rightarrow> 'd \<Rightarrow> 'd"
  phy_startup :: "'d \<Rightarrow> int \<times> 'd"
  phy_shutdown :: "'d \<Rightarrow> 'd"
  phy_link :: "'d \<Rightarrow> int"
  phy_speed :: "'d \<Rightarrow> int"
  phy_duplex :: "'d \<Rightarrow> int"

definition ARCH_DMA_MINALIGN :: nat where "ARCH_DMA_MINALIGN = 64"
definition CONFIG_TX_DESCR_NUM :: nat where "CONFIG_TX_DESCR_NUM = 16"
definition CONFIG_RX_DESCR_NUM :: nat where "CONFIG_RX_DESCR_NUM = 16"
definition CONFIG_ETH_BUFSIZE :: nat where "CONFIG_ETH_BUFSIZE = 2048"
definition CONFIG_MACRESET_TIMEOUT :: u64 where "CONFIG_MACRESET_TIMEOUT = 3000"
definition CONFIG_MDIO_TIMEOUT :: u64 where "CONFIG_MDIO_TIMEOUT = 3000"

definition FRAMEBURSTENABLE :: u32 where "FRAMEBURSTENABLE = push_bit 21 1"
definition MII_PORTSELECT :: u32 where "MII_PORTSELECT = push_bit 15 1"
definition FES_100 :: u32 where "FES_100 = push_bit 14 1"
definition DISABLERXOWN :: u32 where "DISABLERXOWN = push_bit 13 1"
definition FULLDPLXMODE :: u32 where "FULLDPLXMODE = push_bit 11 1"
definition RXENABLE :: u32 where "RXENABLE = push_bit 2 1"
definition TXENABLE :: u32 where "TXENABLE = push_bit 3 1"
definition MII_BUSY :: u32 where "MII_BUSY = 1"
definition MII_WRITE :: u32 where "MII_WRITE = 2"
definition MII_CLKRANGE_150_250M :: u32 where "MII_CLKRANGE_150_250M = 0x10"
definition MII_REGMSK :: u32 where "MII_REGMSK = push_bit 6 0x1F"
definition MII_ADDRMSK :: u32 where "MII_ADDRMSK = push_bit 11 0x1F"
definition FIXEDBURST :: u32 where "FIXEDBURST = push_bit 16 1"
definition PRIORXTX_41 :: u32 where "PRIORXTX_41 = push_bit 14 3"
definition DMA_PBL :: u32 where "DMA_PBL = push_bit 8 8"
definition DMAMAC_SRST :: u32 where "DMAMAC_SRST = 1"
definition POLL_DATA :: u32 where "POLL_DATA = 0xFFFFFFFF"
definition STOREFORWARD :: u32 where "STOREFORWARD = push_bit 21 1"
definition FLUSHTXFIFO :: u32 where "FLUSHTXFIFO = push_bit 20 1"
definition TXSTART :: u32 where "TXSTART = push_bit 13 1"
definition RXSTART :: u32 where "RXSTART = push_bit 1 1"
definition MAC_MAX_FRAME_SZ :: u32 where "MAC_MAX_FRAME_SZ = 1600"
definition DESC_TXSTS_OWNBYDMA :: u32 where "DESC_TXSTS_OWNBYDMA = push_bit 31 1"
definition DESC_RXSTS_OWNBYDMA :: u32 where "DESC_RXSTS_OWNBYDMA = push_bit 31 1"
definition DESC_RXSTS_FRMLENMSK :: u32 where "DESC_RXSTS_FRMLENMSK = push_bit 16 0x3FFF"
definition DESC_TXCTRL_TXLAST :: u32 where "DESC_TXCTRL_TXLAST = push_bit 30 1"
definition DESC_TXCTRL_TXFIRST :: u32 where "DESC_TXCTRL_TXFIRST = push_bit 29 1"
definition DESC_TXCTRL_TXCHAIN :: u32 where "DESC_TXCTRL_TXCHAIN = push_bit 24 1"
definition DESC_TXCTRL_SIZE1MASK :: u32 where "DESC_TXCTRL_SIZE1MASK = 0x7FF"
definition DESC_RXCTRL_RXCHAIN :: u32 where "DESC_RXCTRL_RXCHAIN = push_bit 24 1"
definition DESC_RXCTRL_SIZE1MASK :: u32 where "DESC_RXCTRL_SIZE1MASK = 0x7FF"
definition DMA_INTR_DEFAULT_MASK :: u32 where "DMA_INTR_DEFAULT_MASK = 0x10000 OR 0x40 OR 1 OR 0x8000 OR 0x2000 OR 0x20"
definition GMAC_INT_DEFAULT_MASK :: u32 where "GMAC_INT_DEFAULT_MASK = push_bit 9 1 OR 1 OR 2 OR 4"
definition ETH_ZLEN :: int where "ETH_ZLEN = 60"

definition EPERM :: int where "EPERM = 1"
definition EIO :: int where "EIO = 5"
definition ETIMEDOUT :: int where "ETIMEDOUT = 110"

record dmamacdescr =
  txrx_status :: u32
  dmamac_cntl :: u32
  dmamac_addr :: u32
  dmamac_next :: u32

record ethif_dma_addr_t =
  vaddr :: u64
  paddr :: u64
  dsize :: u64

record dw_eth_dev =
  tx_mac_descrtable :: ethif_dma_addr_t
  rx_mac_descrtable :: ethif_dma_addr_t
  txbuffs :: ethif_dma_addr_t
  rxbuffs :: ethif_dma_addr_t
  tx_currdescnum :: u32
  rx_currdescnum :: u32

record 'd eth_sys =
  priv :: dw_eth_dev
  tx_cpu :: "dmamacdescr list"
  tx_ram :: "dmamacdescr list"
  rx_cpu :: "dmamacdescr list"
  rx_ram :: "dmamacdescr list"
  cpu :: mem
  ram :: mem
  hw :: 'd

text \<open>Cache maintenance: of a range of packet bytes, of one descriptor, of a whole table.\<close>

definition flush_dcache_range :: "u64 \<Rightarrow> u64 \<Rightarrow> 'd eth_sys \<Rightarrow> 'd eth_sys" where
  "flush_dcache_range start stop s = s\<lparr>ram := (\<lambda>a. if a - start < stop - start then cpu s a else ram s a)\<rparr>"

definition invalidate_dcache_range :: "u64 \<Rightarrow> u64 \<Rightarrow> 'd eth_sys \<Rightarrow> 'd eth_sys" where
  "invalidate_dcache_range start stop s = s\<lparr>cpu := (\<lambda>a. if a - start < stop - start then ram s a else cpu s a)\<rparr>"

definition invalidate_tx :: "nat \<Rightarrow> 'd eth_sys \<Rightarrow> 'd eth_sys option" where
  "invalidate_tx i s = do { d \<leftarrow> arr_get (tx_ram s) i; tab \<leftarrow> arr_set (tx_cpu s) i d; Some (s\<lparr>tx_cpu := tab\<rparr>) }"

definition flush_tx :: "nat \<Rightarrow> 'd eth_sys \<Rightarrow> 'd eth_sys option" where
  "flush_tx i s = do { d \<leftarrow> arr_get (tx_cpu s) i; tab \<leftarrow> arr_set (tx_ram s) i d; Some (s\<lparr>tx_ram := tab\<rparr>) }"

definition invalidate_rx :: "nat \<Rightarrow> 'd eth_sys \<Rightarrow> 'd eth_sys option" where
  "invalidate_rx i s = do { d \<leftarrow> arr_get (rx_ram s) i; tab \<leftarrow> arr_set (rx_cpu s) i d; Some (s\<lparr>rx_cpu := tab\<rparr>) }"

definition flush_rx :: "nat \<Rightarrow> 'd eth_sys \<Rightarrow> 'd eth_sys option" where
  "flush_rx i s = do { d \<leftarrow> arr_get (rx_cpu s) i; tab \<leftarrow> arr_set (rx_ram s) i d; Some (s\<lparr>rx_ram := tab\<rparr>) }"

definition rdl :: "'d eth_hw \<Rightarrow> eth_reg \<Rightarrow> 'd eth_sys \<Rightarrow> u32 \<times> 'd eth_sys" where
  "rdl H r s = (let (v, d) = readl H r (hw s) in (v, s\<lparr>hw := d\<rparr>))"

definition wrl :: "'d eth_hw \<Rightarrow> u32 \<Rightarrow> eth_reg \<Rightarrow> 'd eth_sys \<Rightarrow> 'd eth_sys" where
  "wrl H v r s = s\<lparr>hw := writel H r v (hw s)\<rparr>"

text \<open>\<open>writel(f(readl(r)), r)\<close>\<close>

definition modl :: "'d eth_hw \<Rightarrow> (u32 \<Rightarrow> u32) \<Rightarrow> eth_reg \<Rightarrow> 'd eth_sys \<Rightarrow> 'd eth_sys" where
  "modl H f r s = (let (v, s) = rdl H r s in wrl H (f v) r s)"

definition roundup :: "int \<Rightarrow> int \<Rightarrow> int option" where
  "roundup x y = do { a \<leftarrow> sadd 32 x (y - 1); Some (a sdiv y * y) }"

definition uboot_get_timer :: "'d eth_hw \<Rightarrow> u64 \<Rightarrow> u64 \<Rightarrow> 'd eth_sys \<Rightarrow> (u64 \<times> 'd eth_sys) option" where
  "uboot_get_timer H freq base s = (let (t, d) = hw_ticks H (hw s) in do {
     ms \<leftarrow> timestamp_ms t freq;
     Some (ms - base, s\<lparr>hw := d\<rparr>)
   })"

definition uboot_udelay :: "'d eth_hw \<Rightarrow> u32 \<Rightarrow> 'd eth_sys \<Rightarrow> 'd eth_sys" where
  "uboot_udelay H us s = s\<lparr>hw := hw_udelay H us (hw s)\<rparr>"

section \<open>The management interface of the PHY\<close>

definition mii_address :: "u32 \<Rightarrow> u32 \<Rightarrow> u16" where
  "mii_address addr reg = ucast ((push_bit 11 addr AND MII_ADDRMSK) OR (push_bit 6 reg AND MII_REGMSK))"

text \<open>The loops that wait for the end of a transfer; \<open>True\<close> if it came in time.\<close>

partial_function (option) mdio_wait :: "'d eth_hw \<Rightarrow> u64 \<Rightarrow> u64 \<Rightarrow> 'd eth_sys \<Rightarrow> (bool \<times> 'd eth_sys) option" where
  "mdio_wait H freq start s = do {
     (t, s) \<leftarrow> uboot_get_timer H freq start s;
     if t < CONFIG_MDIO_TIMEOUT then do {
       let (v, s) = rdl H MAC_miiaddr s;
       if v AND MII_BUSY = 0 then Some (True, s)
       else mdio_wait H freq start (uboot_udelay H 10 s)
     } else Some (False, s)
   }"

definition dw_mdio_read :: "'d eth_hw \<Rightarrow> u64 \<Rightarrow> u32 \<Rightarrow> u32 \<Rightarrow> 'd eth_sys \<Rightarrow> (int \<times> 'd eth_sys) option" where
  "dw_mdio_read H freq addr reg s = do {
     let miiaddr = mii_address addr reg;
     let s = wrl H (ucast miiaddr OR MII_CLKRANGE_150_250M OR MII_BUSY) MAC_miiaddr s;
     (start, s) \<leftarrow> uboot_get_timer H freq 0 s;
     (ok, s) \<leftarrow> mdio_wait H freq start s;
     if ok then (let (v, s) = rdl H MAC_miidata s in Some (sint v, s)) else Some (- ETIMEDOUT, s)
   }"

definition dw_mdio_write :: "'d eth_hw \<Rightarrow> u64 \<Rightarrow> u32 \<Rightarrow> u32 \<Rightarrow> u16 \<Rightarrow> 'd eth_sys \<Rightarrow> (int \<times> 'd eth_sys) option" where
  "dw_mdio_write H freq addr reg val s = do {
     let s = wrl H (ucast val) MAC_miidata s;
     let miiaddr = mii_address addr reg OR ucast MII_WRITE;
     let s = wrl H (ucast miiaddr OR MII_CLKRANGE_150_250M OR MII_BUSY) MAC_miiaddr s;
     (start, s) \<leftarrow> uboot_get_timer H freq 0 s;
     (ok, s) \<leftarrow> mdio_wait H freq start s;
     Some (if ok then 0 else - ETIMEDOUT, s)
   }"

section \<open>Setting up the controller\<close>

definition tx_descs_init :: "'d eth_hw \<Rightarrow> 'd eth_sys \<Rightarrow> 'd eth_sys option" where
  "tx_descs_init H s = do {
     let desc_table_pptr = paddr (tx_mac_descrtable (priv s));
     let txbuffs_pptr = paddr (txbuffs (priv s));
     tab \<leftarrow> for_each (\<lambda>idx tab. arr_set tab idx
        \<lparr>txrx_status = 0, dmamac_cntl = DESC_TXCTRL_TXCHAIN, dmamac_addr = ucast (txbuffs_pptr + of_nat (idx * CONFIG_ETH_BUFSIZE)),
         dmamac_next = ucast (desc_table_pptr + of_nat ((idx + 1) * ARCH_DMA_MINALIGN))\<rparr>) [0..<CONFIG_TX_DESCR_NUM] (tx_cpu s);
     d \<leftarrow> arr_get tab (CONFIG_TX_DESCR_NUM - 1);
     tab \<leftarrow> arr_set tab (CONFIG_TX_DESCR_NUM - 1) (d\<lparr>dmamac_next := ucast desc_table_pptr\<rparr>);
     let s = s\<lparr>tx_cpu := tab, tx_ram := tab\<rparr>;
     let s = wrl H (ucast desc_table_pptr) DMA_txdesclistaddr s;
     Some (s\<lparr>priv := (priv s)\<lparr>tx_currdescnum := 0\<rparr>\<rparr>)
   }"

definition rx_descs_init :: "'d eth_hw \<Rightarrow> 'd eth_sys \<Rightarrow> 'd eth_sys option" where
  "rx_descs_init H s = do {
     let desc_table_pptr = paddr (rx_mac_descrtable (priv s));
     let rxbuffs_pptr = paddr (rxbuffs (priv s));
     let s = flush_dcache_range (vaddr (rxbuffs (priv s))) (vaddr (rxbuffs (priv s)) + dsize (rxbuffs (priv s))) s;
     tab \<leftarrow> for_each (\<lambda>idx tab. arr_set tab idx
        \<lparr>txrx_status = DESC_RXSTS_OWNBYDMA, dmamac_cntl = (MAC_MAX_FRAME_SZ AND DESC_RXCTRL_SIZE1MASK) OR DESC_RXCTRL_RXCHAIN,
         dmamac_addr = ucast (rxbuffs_pptr + of_nat (idx * CONFIG_ETH_BUFSIZE)),
         dmamac_next = ucast (desc_table_pptr + of_nat ((idx + 1) * ARCH_DMA_MINALIGN))\<rparr>) [0..<CONFIG_RX_DESCR_NUM] (rx_cpu s);
     d \<leftarrow> arr_get tab (CONFIG_RX_DESCR_NUM - 1);
     tab \<leftarrow> arr_set tab (CONFIG_RX_DESCR_NUM - 1) (d\<lparr>dmamac_next := ucast desc_table_pptr\<rparr>);
     let s = s\<lparr>rx_cpu := tab, rx_ram := tab\<rparr>;
     let s = wrl H (ucast desc_table_pptr) DMA_rxdesclistaddr s;
     Some (s\<lparr>priv := (priv s)\<lparr>rx_currdescnum := 0\<rparr>\<rparr>)
   }"

text \<open>The six bytes of the address; the shifts of the bytes are sums of disjoint bits.\<close>

fun dw_write_hwaddr :: "'d eth_hw \<Rightarrow> byte list \<Rightarrow> 'd eth_sys \<Rightarrow> (int \<times> 'd eth_sys) option" where
  "dw_write_hwaddr H [b0, b1, b2, b3, b4, b5] s =
     (let macid_lo = ucast b0 + push_bit 8 (ucast b1) + push_bit 16 (ucast b2) + push_bit 24 (ucast b3);
          macid_hi = ucast b4 + push_bit 8 (ucast b5);
          s = wrl H macid_hi MAC_macaddr0hi s
      in Some (0, wrl H macid_lo MAC_macaddr0lo s))"
| "dw_write_hwaddr H _ s = None"

definition dw_read_hwaddr :: "'d eth_hw \<Rightarrow> 'd eth_sys \<Rightarrow> int \<times> byte list \<times> 'd eth_sys" where
  "dw_read_hwaddr H s =
     (let (macid_hi, s) = rdl H MAC_macaddr0hi s;
          (macid_lo, s) = rdl H MAC_macaddr0lo s
      in (0, [ucast macid_lo, ucast (drop_bit 8 macid_lo), ucast (drop_bit 16 macid_lo), ucast (drop_bit 24 macid_lo), ucast macid_hi, ucast (drop_bit 8 macid_hi)], s))"

definition dw_adjust_link :: "'d eth_hw \<Rightarrow> 'd eth_sys \<Rightarrow> int \<times> 'd eth_sys" where
  "dw_adjust_link H s =
     (let (v, s) = rdl H MAC_conf s;
          conf = v OR FRAMEBURSTENABLE OR DISABLERXOWN
      in if phy_link H (hw s) = 0 then (0, s)
         else (let conf = (if phy_speed H (hw s) \<noteq> 1000 then conf OR MII_PORTSELECT else conf AND NOT MII_PORTSELECT);
                   conf = (if phy_speed H (hw s) = 100 then conf OR FES_100 else conf);
                   conf = (if phy_duplex H (hw s) \<noteq> 0 then conf OR FULLDPLXMODE else conf)
               in (0, wrl H conf MAC_conf s)))"

definition dw_eth_halt :: "'d eth_hw \<Rightarrow> 'd eth_sys \<Rightarrow> 'd eth_sys" where
  "dw_eth_halt H s =
     (let s = modl H (\<lambda>v. v AND NOT (RXENABLE OR TXENABLE)) MAC_conf s;
          s = modl H (\<lambda>v. v AND NOT (RXSTART OR TXSTART)) DMA_opmode s
      in s\<lparr>hw := phy_shutdown H (hw s)\<rparr>)"

partial_function (option) reset_wait :: "'d eth_hw \<Rightarrow> u64 \<Rightarrow> u64 \<Rightarrow> 'd eth_sys \<Rightarrow> (bool \<times> 'd eth_sys) option" where
  "reset_wait H freq start s = (let (v, s) = rdl H DMA_busmode s in
     if v AND DMAMAC_SRST = 0 then Some (True, s)
     else do {
       (t, s) \<leftarrow> uboot_get_timer H freq start s;
       if t \<ge> CONFIG_MACRESET_TIMEOUT then Some (False, s)
       else reset_wait H freq start (uboot_udelay H 100000 s)
     })"

definition designware_eth_init :: "'d eth_hw \<Rightarrow> u64 \<Rightarrow> byte list \<Rightarrow> 'd eth_sys \<Rightarrow> (int \<times> 'd eth_sys) option" where
  "designware_eth_init H freq enetaddr s = do {
     let s = modl H (\<lambda>v. v OR DMAMAC_SRST) DMA_busmode s;
     (start, s) \<leftarrow> uboot_get_timer H freq 0 s;
     (ok, s) \<leftarrow> reset_wait H freq start s;
     if \<not> ok then Some (- ETIMEDOUT, s)
     else do {
       (_, s) \<leftarrow> dw_write_hwaddr H enetaddr s;
       s \<leftarrow> rx_descs_init H s;
       s \<leftarrow> tx_descs_init H s;
       let s = wrl H (FIXEDBURST OR PRIORXTX_41 OR DMA_PBL) DMA_busmode s;
       let s = modl H (\<lambda>v. v OR FLUSHTXFIFO OR STOREFORWARD) DMA_opmode s;
       let s = modl H (\<lambda>v. v OR RXSTART OR TXSTART) DMA_opmode s;
       let s = modl H (\<lambda>v. v OR DMA_INTR_DEFAULT_MASK) DMA_intenable s;
       let s = wrl H GMAC_INT_DEFAULT_MASK MAC_intmask s;
       let (ret, d) = phy_startup H (hw s);
       let s = s\<lparr>hw := d\<rparr>;
       if ret \<noteq> 0 then Some (ret, s)
       else Some (dw_adjust_link H s)
     }
   }"

definition designware_eth_enable :: "'d eth_hw \<Rightarrow> 'd eth_sys \<Rightarrow> int \<times> 'd eth_sys" where
  "designware_eth_enable H s =
     (if phy_link H (hw s) = 0 then (- EIO, s)
      else (0, modl H (\<lambda>v. v OR RXENABLE OR TXENABLE) MAC_conf s))"

definition dw_eth_init :: "'d eth_hw \<Rightarrow> u64 \<Rightarrow> byte list \<Rightarrow> 'd eth_sys \<Rightarrow> (int \<times> 'd eth_sys) option" where
  "dw_eth_init H freq enetaddr s = do {
     (ret, s) \<leftarrow> designware_eth_init H freq enetaddr s;
     Some (if ret = 0 then designware_eth_enable H s else (ret, s))
   }"

definition designware_ack :: "'d eth_hw \<Rightarrow> 'd eth_sys \<Rightarrow> 'd eth_sys" where
  "designware_ack H s = wrl H DMA_INTR_DEFAULT_MASK DMA_status s"

section \<open>Sending\<close>

text \<open>\<open>_dw_eth_send\<close>. The address of the packet buffer is taken from the descriptor before the descriptor is read again from RAM.\<close>

definition dw_eth_send :: "'d eth_hw \<Rightarrow> dma_t \<Rightarrow> u64 \<Rightarrow> int \<Rightarrow> 'd eth_sys \<Rightarrow> (int \<times> 'd eth_sys) option" where
  "dw_eth_send H dma packet len s = do {
     let desc_num = tx_currdescnum (priv s);
     d \<leftarrow> arr_get (tx_cpu s) (unat desc_num);
     let data_vstart = sos_dma_phys_to_virt dma (ucast (dmamac_addr d));
     r \<leftarrow> roundup len (int ARCH_DMA_MINALIGN);
     let data_vend = data_vstart + of_int r;
     s \<leftarrow> invalidate_tx (unat desc_num) s;
     d \<leftarrow> arr_get (tx_cpu s) (unat desc_num);
     if txrx_status d AND DESC_TXSTS_OWNBYDMA \<noteq> 0 then Some (- EPERM, s)
     else do {
       let len = max len ETH_ZLEN;
       m \<leftarrow> memcpy data_vstart packet (nat len) (cpu s);
       let s = flush_dcache_range data_vstart data_vend (s\<lparr>cpu := m\<rparr>);
       let d = d\<lparr>dmamac_cntl := dmamac_cntl d AND NOT DESC_TXCTRL_SIZE1MASK\<rparr>;
       let d = d\<lparr>dmamac_cntl := dmamac_cntl d OR (of_int len AND DESC_TXCTRL_SIZE1MASK) OR DESC_TXCTRL_TXLAST OR DESC_TXCTRL_TXFIRST\<rparr>;
       let d = d\<lparr>txrx_status := DESC_TXSTS_OWNBYDMA\<rparr>;
       tab \<leftarrow> arr_set (tx_cpu s) (unat desc_num) d;
       s \<leftarrow> flush_tx (unat desc_num) (s\<lparr>tx_cpu := tab\<rparr>);
       let desc_num = desc_num + 1;
       let desc_num = (if unat desc_num \<ge> CONFIG_TX_DESCR_NUM then 0 else desc_num);
       let s = s\<lparr>priv := (priv s)\<lparr>tx_currdescnum := desc_num\<rparr>\<rparr>;
       Some (0, wrl H POLL_DATA DMA_txpolldemand s)
     }
   }"

section \<open>Receiving\<close>

text \<open>\<open>_dw_eth_recv\<close>: the length of the packet, or \<open>-EAGAIN\<close>, and its address.\<close>

definition dw_eth_recv :: "dma_t \<Rightarrow> 'd eth_sys \<Rightarrow> (int \<times> u64 \<times> 'd eth_sys) option" where
  "dw_eth_recv dma s = do {
     let desc_num = rx_currdescnum (priv s);
     d \<leftarrow> arr_get (rx_cpu s) (unat desc_num);
     let data_vstart = sos_dma_phys_to_virt dma (ucast (dmamac_addr d));
     s \<leftarrow> invalidate_rx (unat desc_num) s;
     d \<leftarrow> arr_get (rx_cpu s) (unat desc_num);
     let status = txrx_status d;
     if status AND DESC_RXSTS_OWNBYDMA = 0 then do {
       let len = uint (drop_bit 16 (status AND DESC_RXSTS_FRMLENMSK));
       r \<leftarrow> roundup len (int ARCH_DMA_MINALIGN);
       let data_vend = data_vstart + of_int r;
       let s = invalidate_dcache_range data_vstart data_vend s;
       Some (len, sos_dma_phys_to_virt dma (ucast (dmamac_addr d)), s)
     } else Some (- EAGAIN, 0, s)
   }"

definition dw_free_pkt :: "'d eth_sys \<Rightarrow> 'd eth_sys option" where
  "dw_free_pkt s = do {
     let desc_num = rx_currdescnum (priv s);
     d \<leftarrow> arr_get (rx_cpu s) (unat desc_num);
     tab \<leftarrow> arr_set (rx_cpu s) (unat desc_num) (d\<lparr>txrx_status := txrx_status d OR DESC_RXSTS_OWNBYDMA\<rparr>);
     s \<leftarrow> flush_rx (unat desc_num) (s\<lparr>rx_cpu := tab\<rparr>);
     let desc_num = desc_num + 1;
     let desc_num = (if unat desc_num \<ge> CONFIG_RX_DESCR_NUM then 0 else desc_num);
     Some (s\<lparr>priv := (priv s)\<lparr>rx_currdescnum := desc_num\<rparr>\<rparr>)
   }"

text \<open>\<open>dw_eth_recv\<close> of the device: the received packet goes to the callback, here as its bytes, or nothing is received.\<close>

definition eth_recv :: "dma_t \<Rightarrow> 'd eth_sys \<Rightarrow> (int \<times> byte list option \<times> 'd eth_sys) option" where
  "eth_recv dma s = do {
     (len, packet, s) \<leftarrow> dw_eth_recv dma s;
     if len = - EAGAIN then Some (0, None, s)
     else do {
       bs \<leftarrow> load_bytes (cpu s) packet (nat len);
       s \<leftarrow> dw_free_pkt s;
       Some (len, Some bs, s)
     }
   }"

section \<open>The interface, and the device of the network stack\<close>

definition ETHIF_NOERROR :: int where "ETHIF_NOERROR = 0"
definition ETHIF_ERROR :: int where "ETHIF_ERROR = - 1"

definition ethif_send :: "'d eth_hw \<Rightarrow> dma_t \<Rightarrow> u64 \<Rightarrow> u32 \<Rightarrow> 'd eth_sys \<Rightarrow> (int \<times> 'd eth_sys) option" where
  "ethif_send H dma buf len s = do {
     c_assert (buf \<noteq> 0);
     (r, s) \<leftarrow> dw_eth_send H dma buf (sint len) s;
     Some (if r = 0 then ETHIF_NOERROR else ETHIF_ERROR, s)
   }"

text \<open>The result has \<open>*len\<close>, if it was written, and the packet that went to the callback.\<close>

definition ethif_recv :: "dma_t \<Rightarrow> 'd eth_sys \<Rightarrow> (int \<times> int option \<times> byte list option \<times> 'd eth_sys) option" where
  "ethif_recv dma s = do {
     (result, p, s) \<leftarrow> eth_recv dma s;
     Some (if result \<ge> 0 then (ETHIF_NOERROR, Some result, p, s) else (ETHIF_ERROR, None, p, s))
   }"

definition pico_eth_send :: "'d eth_hw \<Rightarrow> dma_t \<Rightarrow> u64 \<Rightarrow> int \<Rightarrow> 'd eth_sys \<Rightarrow> (int \<times> 'd eth_sys) option" where
  "pico_eth_send H dma input_buf len s = do {
     (r, s) \<leftarrow> ethif_send H dma input_buf (of_int len) s;
     Some (if r \<noteq> ETHIF_NOERROR then 0 else len, s)
   }"

text \<open>The loop returns the rest of the score and the packets that went to \<open>raw_recv_callback\<close>.\<close>

primrec poll_loop :: "dma_t \<Rightarrow> nat \<Rightarrow> 'd eth_sys \<Rightarrow> (nat \<times> byte list list \<times> 'd eth_sys) option" where
  "poll_loop dma 0 s = Some (0, [], s)"
| "poll_loop dma (Suc n) s = do {
     (retval, len, p, s) \<leftarrow> ethif_recv dma s;
     let ps = (case p of Some bs \<Rightarrow> [bs] | None \<Rightarrow> []);
     if retval = ETHIF_ERROR \<or> len = Some 0 then Some (Suc n, ps, s)
     else do {
       (n, qs, s) \<leftarrow> poll_loop dma n s;
       Some (n, ps @ qs, s)
     }
   }"

definition pico_eth_poll :: "dma_t \<Rightarrow> int \<Rightarrow> 'd eth_sys \<Rightarrow> (int \<times> byte list list \<times> 'd eth_sys) option" where
  "pico_eth_poll dma loop_score s =
     (if loop_score > 0 then do {
        (n, ps, s) \<leftarrow> poll_loop dma (nat loop_score) s;
        Some (int n, ps, s)
      } else Some (loop_score, [], s))"

end
