(* ===== verification/Ring_Queue.thy ===== *)
theory Ring_Queue
  imports SOS_Prelude
begin

text \<open>
  A ring of slots between a producer and a consumer that each keep an index of their own and learn from the slot itself whether it is filled, as the descriptor rings of the Ethernet
  controller are used. The locale \<open>ring_queue\<close> has the laws of the two sides; it shows that every interleaving of them behaves as a queue of bounded length.
\<close>

section \<open>The specification\<close>

datatype ('p, 'c, 'o) ring_event = Put 'p | Get 'c | Other 'o

datatype 'a ring_result = Accepted | Refused | Got 'a | Nothing | Silent

fun fifo_run :: "nat \<Rightarrow> ('p \<Rightarrow> 'a) \<Rightarrow> ('p, 'c, 'o) ring_event list \<Rightarrow> 'a list \<Rightarrow> 'a ring_result list" where
  "fifo_run n item [] q = []"
| "fifo_run n item (Put p # es) q =
     (if length q < n then Accepted # fifo_run n item es (q @ [item p]) else Refused # fifo_run n item es q)"
| "fifo_run n item (Get c # es) [] = Nothing # fifo_run n item es []"
| "fifo_run n item (Get c # es) (x # q) = Got x # fifo_run n item es q"
| "fifo_run n item (Other x # es) q = Silent # fifo_run n item es q"

text \<open>What is in the queue after the events.\<close>

fun fifo_queue :: "nat \<Rightarrow> ('p \<Rightarrow> 'a) \<Rightarrow> ('p, 'c, 'o) ring_event list \<Rightarrow> 'a list \<Rightarrow> 'a list" where
  "fifo_queue n item [] q = q"
| "fifo_queue n item (Put p # es) q = fifo_queue n item es (if length q < n then q @ [item p] else q)"
| "fifo_queue n item (Get c # es) q = fifo_queue n item es (tl q)"
| "fifo_queue n item (Other x # es) q = fifo_queue n item es q"

lemma fifo_queue_from: "x \<in> set (fifo_queue n item es q) \<Longrightarrow> x \<in> set q \<or> (\<exists>p. Put p \<in> set es \<and> x = item p)"
proof (induction n item es q rule: fifo_queue.induct)
  case (3 n item c es q)
  then show ?case by (cases q) auto
qed (auto split: if_splits)

text \<open>What a sequence of events does with the operations of the two sides.\<close>

fun ring_run :: "('p \<Rightarrow> 's \<Rightarrow> (bool \<times> 's) option) \<Rightarrow> ('c \<Rightarrow> 's \<Rightarrow> ('a option \<times> 's) option) \<Rightarrow> ('o \<Rightarrow> 's \<Rightarrow> 's)
    \<Rightarrow> ('p, 'c, 'o) ring_event list \<Rightarrow> 's \<Rightarrow> ('a ring_result list \<times> 's) option" where
  "ring_run put_op get_op other_op [] s = Some ([], s)"
| "ring_run put_op get_op other_op (Put p # es) s = do {
     (b, s) \<leftarrow> put_op p s;
     (t, s) \<leftarrow> ring_run put_op get_op other_op es s;
     Some ((if b then Accepted else Refused) # t, s)
   }"
| "ring_run put_op get_op other_op (Get c # es) s = do {
     (r, s) \<leftarrow> get_op c s;
     (t, s) \<leftarrow> ring_run put_op get_op other_op es s;
     Some ((case r of Some x \<Rightarrow> Got x | None \<Rightarrow> Nothing) # t, s)
   }"
| "ring_run put_op get_op other_op (Other x # es) s = do {
     (t, s) \<leftarrow> ring_run put_op get_op other_op es (other_op x s);
     Some (Silent # t, s)
   }"

section \<open>The slots that hold a queue\<close>

definition ring_holds :: "nat \<Rightarrow> (nat \<Rightarrow> 'a option) \<Rightarrow> nat \<Rightarrow> 'a list \<Rightarrow> bool" where
  "ring_holds n slot h q \<longleftrightarrow> length q \<le> n \<and> h < n \<and> (\<forall>k < n. slot ((h + k) mod n) = (if k < length q then Some (q ! k) else None))"

lemma mod_ring_eq:
  assumes "((h + k) mod n) = (h + l) mod (n :: nat)" and "k < n" and "l < n"
  shows "k = l"
proof -
  have *: "k = l" if e: "(h + k) mod n = (h + l) mod n" and "k \<le> l" and "l < n" for k l
  proof -
    have "n dvd (h + l) - (h + k)" using e that(2) by (intro mod_eq_dvd_iff_nat [THEN iffD1]) auto
    then have "n dvd l - k" by simp
    with that(3) have "l - k = 0" using dvd_imp_le [of n "l - k"] by fastforce
    with that(2) show ?thesis by simp
  qed
  show ?thesis using * [of k l] * [of l k] assms by (cases "k \<le> l") auto
qed

lemma ring_holds_full:
  assumes "ring_holds n slot h q"
  shows "slot ((h + length q) mod n) = None \<longleftrightarrow> length q < n"
proof (cases "length q < n")
  case True
  with assms show ?thesis by (simp add: ring_holds_def)
next
  case False
  with assms have l: "length q = n" "h < n" and *: "\<And>k. k < n \<Longrightarrow> slot ((h + k) mod n) = Some (q ! k)"
    by (auto simp: ring_holds_def)
  from * [of 0] l have "slot h \<noteq> None" by simp
  with l show ?thesis by simp
qed

lemma ring_holds_first: "ring_holds n slot h q \<Longrightarrow> slot h = (case q of [] \<Rightarrow> None | x # _ \<Rightarrow> Some x)"
  by (cases q) (auto simp: ring_holds_def dest: spec [of _ 0])

lemma ring_holds_put:
  assumes "ring_holds n slot h q" and "length q < n"
  shows "ring_holds n (slot((h + length q) mod n := Some x)) h (q @ [x])"
  unfolding ring_holds_def
proof (intro conjI allI impI)
  fix k
  assume k: "k < n"
  then show "(slot((h + length q) mod n := Some x)) ((h + k) mod n) = (if k < length (q @ [x]) then Some ((q @ [x]) ! k) else None)"
    using assms mod_ring_eq [of h k n "length q"] by (auto simp: ring_holds_def nth_append less_Suc_eq)
qed (use assms in \<open>auto simp: ring_holds_def\<close>)

lemma ring_holds_get:
  assumes "ring_holds n slot h (x # q)"
  shows "ring_holds n (slot(h := None)) ((h + 1) mod n) q"
  unfolding ring_holds_def
proof (intro conjI allI impI)
  fix k
  assume k: "k < n"
  have h: "h < n" "0 < n" "length q < n" using assms by (auto simp: ring_holds_def)
  have e: "((h + 1) mod n + k) mod n = (h + Suc k) mod n" by (simp add: mod_simps)
  show "(slot(h := None)) (((h + 1) mod n + k) mod n) = (if k < length q then Some (q ! k) else None)"
  proof (cases "Suc k = n")
    case True
    then have "(h + Suc k) mod n = h" using h by simp
    with True h show ?thesis unfolding e by simp
  next
    case False
    with k have k': "Suc k < n" by simp
    then have "(h + Suc k) mod n \<noteq> h" using mod_ring_eq [of h "Suc k" n 0] h by auto
    moreover have "slot ((h + Suc k) mod n) = (if Suc k < length (x # q) then Some ((x # q) ! Suc k) else None)"
      using assms k' unfolding ring_holds_def by blast
    ultimately show ?thesis unfolding e by simp
  qed
qed (use assms in \<open>auto simp: ring_holds_def\<close>)

section \<open>The two sides\<close>

locale ring_queue =
  fixes n :: nat
    and ok :: "'s \<Rightarrow> bool"
    and slot :: "'s \<Rightarrow> nat \<Rightarrow> 'a option"
    and prod :: "'s \<Rightarrow> nat"
    and cons :: "'s \<Rightarrow> nat"
    and put_op :: "'p \<Rightarrow> 's \<Rightarrow> (bool \<times> 's) option"
    and good :: "'p \<Rightarrow> bool"
    and item :: "'p \<Rightarrow> 'a"
    and get_op :: "'c \<Rightarrow> 's \<Rightarrow> ('a option \<times> 's) option"
    and other_op :: "'o \<Rightarrow> 's \<Rightarrow> 's"
  assumes put_full: "ok s \<Longrightarrow> good p \<Longrightarrow> prod s < n \<Longrightarrow> slot s (prod s) \<noteq> None \<Longrightarrow>
      \<exists>s'. put_op p s = Some (False, s') \<and> ok s' \<and> slot s' = slot s \<and> prod s' = prod s \<and> cons s' = cons s"
    and put_free: "ok s \<Longrightarrow> good p \<Longrightarrow> prod s < n \<Longrightarrow> slot s (prod s) = None \<Longrightarrow>
      \<exists>s'. put_op p s = Some (True, s') \<and> ok s' \<and> slot s' = (slot s)(prod s := Some (item p)) \<and> prod s' = (prod s + 1) mod n \<and> cons s' = cons s"
    and get_empty: "ok s \<Longrightarrow> cons s < n \<Longrightarrow> slot s (cons s) = None \<Longrightarrow>
      \<exists>s'. get_op c s = Some (None, s') \<and> ok s' \<and> slot s' = slot s \<and> prod s' = prod s \<and> cons s' = cons s"
    and get_some: "ok s \<Longrightarrow> cons s < n \<Longrightarrow> slot s (cons s) = Some x \<Longrightarrow>
      \<exists>s'. get_op c s = Some (Some x, s') \<and> ok s' \<and> slot s' = (slot s)(cons s := None) \<and> prod s' = prod s \<and> cons s' = (cons s + 1) mod n"
    and other_keeps: "ok s \<Longrightarrow> ok (other_op y s) \<and> slot (other_op y s) = slot s \<and> prod (other_op y s) = prod s \<and> cons (other_op y s) = cons s"
begin

definition queue_is :: "'s \<Rightarrow> 'a list \<Rightarrow> bool" where
  "queue_is s q \<longleftrightarrow> ok s \<and> ring_holds n (slot s) (cons s) q \<and> prod s = (cons s + length q) mod n"

lemma queue_put:
  assumes "queue_is s q" and "good p"
  shows "\<exists>s'. put_op p s = Some (length q < n, s') \<and> queue_is s' (if length q < n then q @ [item p] else q)"
proof -
  have s: "ok s" "ring_holds n (slot s) (cons s) q" "prod s = (cons s + length q) mod n" "0 < n"
    using assms(1) by (auto simp: queue_is_def ring_holds_def)
  then have p: "prod s < n" by simp
  have full: "slot s (prod s) = None \<longleftrightarrow> length q < n" using ring_holds_full [OF s(2)] s(3) by simp
  show ?thesis
  proof (cases "length q < n")
    case True
    with put_free [OF s(1) assms(2) p] full obtain s' where "put_op p s = Some (True, s')" "ok s'"
      "slot s' = (slot s)(prod s := Some (item p))" "prod s' = (prod s + 1) mod n" "cons s' = cons s" by auto
    with True s ring_holds_put [OF s(2) True, of "item p"] show ?thesis by (auto simp: queue_is_def mod_simps)
  next
    case False
    with put_full [OF s(1) assms(2) p] full s show ?thesis by (auto simp: queue_is_def)
  qed
qed

lemma queue_get:
  assumes "queue_is s q"
  shows "\<exists>s'. get_op c s = Some (case q of [] \<Rightarrow> None | x # _ \<Rightarrow> Some x, s') \<and> queue_is s' (tl q)"
proof -
  have s: "ok s" "ring_holds n (slot s) (cons s) q" "prod s = (cons s + length q) mod n" "cons s < n"
    using assms by (auto simp: queue_is_def ring_holds_def)
  note first = ring_holds_first [OF s(2)]
  show ?thesis
  proof (cases q)
    case Nil
    with get_empty [OF s(1,4), of c] first obtain s' where "get_op c s = Some (None, s')" "ok s'" "slot s' = slot s"
      "prod s' = prod s" "cons s' = cons s" by auto
    with Nil s show ?thesis by (auto simp: queue_is_def)
  next
    case (Cons x r)
    with get_some [OF s(1,4), of x c] first obtain s' where "get_op c s = Some (Some x, s')" "ok s'"
      "slot s' = (slot s)(cons s := None)" "prod s' = prod s" "cons s' = (cons s + 1) mod n" by auto
    with Cons s ring_holds_get [of n "slot s" "cons s" x r] show ?thesis by (auto simp: queue_is_def mod_simps)
  qed
qed

lemma queue_other: "queue_is s q \<Longrightarrow> queue_is (other_op x s) q"
  using other_keeps [of s x] by (auto simp: queue_is_def)

theorem run_is_fifo:
  assumes "queue_is s q" and "\<And>p. Put p \<in> set es \<Longrightarrow> good p"
  shows "\<exists>s'. ring_run put_op get_op other_op es s = Some (fifo_run n item es q, s') \<and> queue_is s' (fifo_queue n item es q)"
  using assms
proof (induction es arbitrary: s q)
  case (Cons e es)
  have IH: "\<exists>s'. ring_run put_op get_op other_op es s = Some (fifo_run n item es q, s') \<and> queue_is s' (fifo_queue n item es q)"
    if "queue_is s q" for s q
    using Cons.IH [OF that] Cons.prems(2) by simp
  show ?case
  proof (cases e)
    case (Put p)
    with queue_put [OF Cons.prems(1), of p] Cons.prems(2) obtain s' where "put_op p s = Some (length q < n, s')"
      "queue_is s' (if length q < n then q @ [item p] else q)" by auto
    with Put IH [OF this(2)] show ?thesis by (auto split: if_splits)
  next
    case (Get c)
    from queue_get [OF Cons.prems(1), of c] obtain s' where
      "get_op c s = Some (case q of [] \<Rightarrow> None | x # _ \<Rightarrow> Some x, s')" "queue_is s' (tl q)" by blast
    with Get IH [OF this(2)] show ?thesis by (cases q) auto
  next
    case (Other x)
    with IH [OF queue_other [OF Cons.prems(1), of x]] show ?thesis by auto
  qed
qed simp

end

end
