(* ===== verification/Eth_Rings.thy ===== *)
theory Eth_Rings
  imports Eth_Driver Ring_Queue
begin

text \<open>
  The two descriptor rings of the Ethernet driver, with the controller on the other side. A descriptor belongs to the side that its bit 31 names. The controller starts at the first descriptor of
  a table, uses a descriptor only if it owns it, gives it back when it is done, and goes on with the descriptor that \<open>dmamac_next\<close> names. Its steps come between any two operations of the driver.
  Both rings are queues of 16 frames, by the locale \<open>ring_queue\<close>.
\<close>

section \<open>The controller\<close>

text \<open>Where the controller goes on, as an index of the table at \<open>t\<close>.\<close>

definition device_next :: "ethif_dma_addr_t \<Rightarrow> dmamacdescr \<Rightarrow> nat" where
  "device_next t d = unat ((dmamac_next d - ucast (paddr t)) div of_nat ARCH_DMA_MINALIGN)"

text \<open>The state of a ring: the driver, and the descriptor that the controller uses next.\<close>

type_synonym 'd ring = "'d eth_sys \<times> nat"

text \<open>The controller sends the frame of its next descriptor, if there is one; \<open>st\<close> is what else it reports in the descriptor.\<close>

fun tx_device :: "dma_t \<Rightarrow> u32 \<Rightarrow> 'd ring \<Rightarrow> (byte list option \<times> 'd ring) option" where
  "tx_device dma st (s, h) = do {
     d \<leftarrow> arr_get (tx_ram s) h;
     if txrx_status d AND DESC_TXSTS_OWNBYDMA = 0 then Some (None, (s, h))
     else do {
       f \<leftarrow> load_bytes (ram s) (sos_dma_phys_to_virt dma (ucast (dmamac_addr d))) (unat (dmamac_cntl d AND DESC_TXCTRL_SIZE1MASK));
       tab \<leftarrow> arr_set (tx_ram s) h (d\<lparr>txrx_status := st AND NOT DESC_TXSTS_OWNBYDMA\<rparr>);
       Some (Some f, (s\<lparr>tx_ram := tab\<rparr>, device_next (tx_mac_descrtable (priv s)) d))
     }
   }"

text \<open>The controller stores a frame that has arrived, if it has a descriptor for it.\<close>

fun rx_device :: "dma_t \<Rightarrow> byte list \<times> u32 \<Rightarrow> 'd ring \<Rightarrow> (bool \<times> 'd ring) option" where
  "rx_device dma (f, st) (s, h) = do {
     d \<leftarrow> arr_get (rx_ram s) h;
     if txrx_status d AND DESC_RXSTS_OWNBYDMA = 0 then Some (False, (s, h))
     else do {
       m \<leftarrow> store_bytes (ram s) (sos_dma_phys_to_virt dma (ucast (dmamac_addr d))) f;
       tab \<leftarrow> arr_set (rx_ram s) h (d\<lparr>txrx_status := (st AND NOT DESC_RXSTS_OWNBYDMA AND NOT DESC_RXSTS_FRMLENMSK) OR push_bit 16 (of_nat (length f))\<rparr>);
       Some (True, (s\<lparr>rx_ram := tab, ram := m\<rparr>, device_next (rx_mac_descrtable (priv s)) d))
     }
   }"

text \<open>The stack sends \<open>bs\<close> from the address \<open>p\<close>; \<open>pad\<close> is in memory after it. The frame has at least 60 bytes.\<close>

fun tx_driver :: "'d eth_hw \<Rightarrow> dma_t \<Rightarrow> u64 \<times> byte list \<times> byte list \<Rightarrow> 'd ring \<Rightarrow> (bool \<times> 'd ring) option" where
  "tx_driver H dma (p, bs, pad) (s, h) = do {
     (r, s) \<leftarrow> pico_eth_send H dma p (int (length bs)) (s\<lparr>cpu := put p (bs @ pad) (cpu s)\<rparr>);
     Some (r = int (length bs), (s, h))
   }"

fun tx_frame :: "u64 \<times> byte list \<times> byte list \<Rightarrow> byte list" where
  "tx_frame (p, bs, pad) = take (max (length bs) 60) (bs @ pad)"

fun tx_good :: "u64 \<times> byte list \<times> byte list \<Rightarrow> bool" where
  "tx_good (p, bs, pad) \<longleftrightarrow> p \<noteq> 0 \<and> 0 < length bs \<and> length bs < 2048 \<and> 60 \<le> length bs + length pad \<and> length pad \<le> 2048"

fun rx_driver :: "dma_t \<Rightarrow> unit \<Rightarrow> 'd ring \<Rightarrow> (byte list option \<times> 'd ring) option" where
  "rx_driver dma u (s, h) = do {
     (r, len, p, s) \<leftarrow> ethif_recv dma s;
     Some (p, (s, h))
   }"

fun rx_good :: "byte list \<times> u32 \<Rightarrow> bool" where
  "rx_good (f, st) \<longleftrightarrow> length f \<le> unat MAC_MAX_FRAME_SZ"

text \<open>Everything else: the rest of the system, the other ring and its index included, may change all but the ring, its place, its buffers and its index in the driver.\<close>

definition tx_other :: "(mem \<times> mem \<times> 'd eth_sys) \<Rightarrow> 'd ring \<Rightarrow> 'd ring" where
  "tx_other = (\<lambda>(c, r, e) (s, h). let keep = (\<lambda>a. unat (a - vaddr (txbuffs (priv s))) < 32768) in
     (e\<lparr>priv := (priv e)\<lparr>tx_mac_descrtable := tx_mac_descrtable (priv s), txbuffs := txbuffs (priv s), tx_currdescnum := tx_currdescnum (priv s)\<rparr>,
        tx_cpu := tx_cpu s, tx_ram := tx_ram s, cpu := (\<lambda>a. if keep a then cpu s a else c a), ram := (\<lambda>a. if keep a then ram s a else r a)\<rparr>, h))"

definition rx_other :: "(mem \<times> mem \<times> 'd eth_sys) \<Rightarrow> 'd ring \<Rightarrow> 'd ring" where
  "rx_other = (\<lambda>(c, r, e) (s, h). let keep = (\<lambda>a. unat (a - vaddr (rxbuffs (priv s))) < 32768) in
     (e\<lparr>priv := (priv e)\<lparr>rx_mac_descrtable := rx_mac_descrtable (priv s), rxbuffs := rxbuffs (priv s), rx_currdescnum := rx_currdescnum (priv s)\<rparr>,
        rx_cpu := rx_cpu s, rx_ram := rx_ram s, cpu := (\<lambda>a. if keep a then cpu s a else c a), ram := (\<lambda>a. if keep a then ram s a else r a)\<rparr>, h))"

section \<open>Tables and buffers\<close>

text \<open>The memory the driver has allocated: 32-bit addresses for the controller, and the address that the DMA memory has for the processor.\<close>

definition region_ok :: "dma_t \<Rightarrow> ethif_dma_addr_t \<Rightarrow> ethif_dma_addr_t \<Rightarrow> bool" where
  "region_ok dma t b \<longleftrightarrow> vaddr b = sos_dma_phys_to_virt dma (paddr b) \<and> unat (paddr b) + 32768 \<le> 2 ^ 32 \<and> unat (paddr t) + 1024 \<le> 2 ^ 32"

definition chained :: "ethif_dma_addr_t \<Rightarrow> ethif_dma_addr_t \<Rightarrow> nat \<Rightarrow> dmamacdescr \<Rightarrow> bool" where
  "chained t b i d \<longleftrightarrow> dmamac_addr d = ucast (paddr b + of_nat (i * 2048)) \<and> dmamac_next d = ucast (paddr t + of_nat ((i + 1) mod 16 * 64))"

definition table_ok :: "ethif_dma_addr_t \<Rightarrow> ethif_dma_addr_t \<Rightarrow> dmamacdescr list \<Rightarrow> bool" where
  "table_ok t b tab \<longleftrightarrow> length tab = 16 \<and> (\<forall>i < 16. chained t b i (tab ! i))"

definition buffer :: "ethif_dma_addr_t \<Rightarrow> nat \<Rightarrow> u64" where
  "buffer b i = vaddr b + of_nat (i * 2048)"

definition buffers_ok :: "ethif_dma_addr_t \<Rightarrow> mem \<Rightarrow> bool" where
  "buffers_ok b m \<longleftrightarrow> (\<forall>i < 16. readable m (buffer b i) 2048)"

lemma ucast_u32: "unat a < 2 ^ 32 \<Longrightarrow> ucast (ucast (a :: u64) :: u32) = a"
  by (intro word_unat_eq_iff [THEN iffD2]) (simp add: unsigned_ucast_eq unsigned_take_bit_eq take_bit_nat_eq_self)

lemma buffer_of:
  assumes "chained t b i d" and "region_ok dma t b" and "i < 16"
  shows "sos_dma_phys_to_virt dma (ucast (dmamac_addr d)) = buffer b i"
proof -
  have "unat (of_nat (i * 2048) :: u64) = i * 2048" using assms(3) by (intro unat_of_nat_u64) simp
  then have "unat (paddr b + of_nat (i * 2048)) < 2 ^ 32" using assms(2,3) unat_plus_if' [of "paddr b" "of_nat (i * 2048)"]
    by (simp add: region_ok_def)
  with assms(1,2) show ?thesis by (simp add: chained_def region_ok_def buffer_def sos_dma_phys_to_virt_def ucast_u32)
qed

lemma ucast_u32_add: "(ucast ((a :: u64) + of_nat n) :: u32) = ucast a + of_nat n"
proof -
  have "(ucast (of_nat n :: u64) :: u32) = of_nat n" by transfer (simp add: take_bit_eq_mod mod_mod_cancel)
  moreover have "(ucast (a + b) :: u32) = ucast a + ucast b" for b :: u64
    by transfer (auto simp: take_bit_eq_mod mod_mod_cancel intro: mod_add_cong)
  ultimately show ?thesis by simp
qed

lemma device_next_of:
  assumes "chained t b i d"
  shows "device_next t d = (i + 1) mod 16"
proof -
  let ?k = "(i + 1) mod 16"
  have k: "?k < 16" by simp
  have "dmamac_next d - ucast (paddr t) = (of_nat (?k * 64) :: u32)"
    using assms by (simp add: chained_def ucast_u32_add del: of_nat_mult)
  moreover have "unat (of_nat (?k * 64) :: u32) = ?k * 64" using k by (simp add: unat_of_nat del: of_nat_mult)
  ultimately show ?thesis by (simp add: device_next_def unat_div ARCH_DMA_MINALIGN_def del: of_nat_mult)
qed

lemma buffers_apart:
  assumes "i < 16" and "k < 16" and "i \<noteq> k" and "j < 2048"
  shows "2048 \<le> unat (buffer b k + of_nat j - buffer b i)"
proof -
  have e: "buffer b k + of_nat j - buffer b i = of_nat (k * 2048 + j) - of_nat (i * 2048)" by (simp add: buffer_def)
  have u: "unat (of_nat (k * 2048 + j) :: u64) = k * 2048 + j" using assms by (intro unat_of_nat_u64) simp
  have v: "unat (of_nat (i * 2048) :: u64) = i * 2048" using assms by (intro unat_of_nat_u64) simp
  show ?thesis
  proof (cases "i < k")
    case True
    then have "i * 2048 + 2048 \<le> k * 2048" by simp
    then show ?thesis unfolding e using u v by (simp add: unat_sub_if' word_le_nat_alt del: of_nat_add of_nat_mult)
  next
    case False
    with assms(3,4) have "k * 2048 + j < i * 2048" by simp
    then show ?thesis unfolding e using u v assms(1) by (simp add: unat_sub_if' word_le_nat_alt del: of_nat_add of_nat_mult)
  qed
qed

lemma buffer_in_region:
  assumes "i < 16" and "j < 2048"
  shows "unat (buffer b i + of_nat j - vaddr b) < 32768"
proof -
  have e: "buffer b i + of_nat j - vaddr b = of_nat (i * 2048 + j)" by (simp add: buffer_def)
  have "unat (of_nat (i * 2048 + j) :: u64) = i * 2048 + j" using assms by (intro unat_of_nat_u64) simp
  with assms show ?thesis unfolding e by linarith
qed

text \<open>A change of memory in one buffer only.\<close>

definition same_but :: "ethif_dma_addr_t \<Rightarrow> nat \<Rightarrow> mem \<Rightarrow> mem \<Rightarrow> bool" where
  "same_but b i m m' \<longleftrightarrow> (\<forall>a. unat (a - buffer b i) < 2048 \<or> m' a = m a)"

lemma same_but_load:
  assumes "same_but b i m m'" and "i < 16" and "k < 16" and "i \<noteq> k" and "n \<le> 2048"
  shows "load_bytes m' (buffer b k) n = load_bytes m (buffer b k) n"
proof (rule load_bytes_cong)
  fix j
  assume "j < n"
  with buffers_apart [OF assms(2-4), of j b] assms(5) have "\<not> unat (buffer b k + of_nat j - buffer b i) < 2048" by simp
  with assms(1) show "m' (buffer b k + of_nat j) = m (buffer b k + of_nat j)" unfolding same_but_def by blast
qed

lemma same_but_readable:
  assumes "same_but b i m m'" and "buffers_ok b m" and "i < 16" and "readable m' (buffer b i) 2048"
  shows "buffers_ok b m'"
  unfolding buffers_ok_def
proof (intro allI impI)
  fix k :: nat
  assume k: "k < 16"
  show "readable m' (buffer b k) 2048"
  proof (cases "k = i")
    case False
    have "m' (buffer b k + of_nat j) = m (buffer b k + of_nat j)" if "j < 2048" for j
    proof -
      have "\<not> unat (buffer b k + of_nat j - buffer b i) < 2048" using buffers_apart [of i k j b] assms(3) k False that by auto
      with assms(1) show ?thesis unfolding same_but_def by blast
    qed
    with assms(2) k show ?thesis by (simp add: buffers_ok_def readable_def)
  qed (use assms in simp)
qed

lemma same_but_put: "length f \<le> 2048 \<Longrightarrow> same_but b i m (put (buffer b i) f m)"
  by (auto simp: same_but_def put_def)

lemma table_ok_update [intro]: "table_ok t b tab \<Longrightarrow> chained t b i d \<Longrightarrow> table_ok t b (tab[i := d])"
  unfolding table_ok_def by (cases "i < length tab") (auto simp: nth_list_update)

lemma chained_nth: "table_ok t b tab \<Longrightarrow> i < 16 \<Longrightarrow> chained t b i (tab ! i)"
  by (simp add: table_ok_def)

lemma table_ok_length: "table_ok t b tab \<Longrightarrow> length tab = 16"
  by (simp add: table_ok_def)

lemma chained_update [simp]:
  "chained t b i (d\<lparr>txrx_status := st\<rparr>) = chained t b i d"
  "chained t b i (d\<lparr>dmamac_cntl := c\<rparr>) = chained t b i d"
  by (simp_all add: chained_def)

lemma roundup_64:
  assumes "n < 2048"
  obtains r where "roundup (int n) (int ARCH_DMA_MINALIGN) = Some (int r)" and "n \<le> r" and "r \<le> 2048" and "0 < n \<Longrightarrow> 64 \<le> r"
proof
  let ?r = "(n + 63) div 64 * 64"
  have "sgn (int n + 63) = 1" by simp
  then show "roundup (int n) (int ARCH_DMA_MINALIGN) = Some (int ?r)"
    using assms by (simp add: roundup_def sadd_def ARCH_DMA_MINALIGN_def signed_divide_int_def zdiv_int)
  have "(n + 63) div 64 < 33" using assms by (simp add: div_less_iff_less_mult)
  then show "?r \<le> 2048" by simp
  show "n \<le> ?r" by linarith
  have "1 \<le> (n + 63) div 64" if "0 < n" using that by (simp add: less_eq_div_iff_mult_less_eq)
  then show "0 < n \<Longrightarrow> 64 \<le> ?r" by simp
qed

text \<open>A range of cache lines from the start of a buffer.\<close>

lemma flush_buffer:
  assumes "r \<le> 2048" and "n \<le> r" and "i < 16" and "buffers_ok b (cpu s)" and "buffers_ok b (ram s)"
  defines "m \<equiv> ram (flush_dcache_range (buffer b i) (buffer b i + of_nat r) s)"
  shows "load_bytes m (buffer b i) n = load_bytes (cpu s) (buffer b i) n" and "same_but b i (ram s) m" and "buffers_ok b m"
proof -
  have r: "unat (of_nat r :: u64) = r" using assms(1) by (intro unat_of_nat_u64) simp
  have m: "m a = (if unat (a - buffer b i) < r then cpu s a else ram s a)" for a
    by (simp add: m_def flush_dcache_range_def word_less_nat_alt r)
  show same: "same_but b i (ram s) m" using assms(1) by (auto simp: same_but_def m)
  have j: "unat (of_nat j :: u64) = j" if "j < 2048" for j using that by (intro unat_of_nat_u64) simp
  show "load_bytes m (buffer b i) n = load_bytes (cpu s) (buffer b i) n"
    using assms(1,2) j by (intro load_bytes_cong) (simp add: m)
  have "readable m (buffer b i) 2048" using assms(3-5) by (auto simp: readable_def m buffers_ok_def)
  with same assms(3,5) show "buffers_ok b m" by (rule_tac same_but_readable)
qed

lemma invalidate_buffer:
  assumes "r \<le> 2048" and "n \<le> r" and "i < 16" and "buffers_ok b (cpu s)" and "buffers_ok b (ram s)"
  defines "m \<equiv> cpu (invalidate_dcache_range (buffer b i) (buffer b i + of_nat r) s)"
  shows "load_bytes m (buffer b i) n = load_bytes (ram s) (buffer b i) n" and "buffers_ok b m"
proof -
  have r: "unat (of_nat r :: u64) = r" using assms(1) by (intro unat_of_nat_u64) simp
  have m: "m a = (if unat (a - buffer b i) < r then ram s a else cpu s a)" for a
    by (simp add: m_def invalidate_dcache_range_def word_less_nat_alt r)
  have same: "same_but b i (cpu s) m" using assms(1) by (auto simp: same_but_def m)
  have j: "unat (of_nat j :: u64) = j" if "j < 2048" for j using that by (intro unat_of_nat_u64) simp
  show "load_bytes m (buffer b i) n = load_bytes (ram s) (buffer b i) n"
    using assms(1,2) j by (intro load_bytes_cong) (simp add: m)
  have "readable m (buffer b i) 2048" using assms(3-5) by (auto simp: readable_def m buffers_ok_def)
  with same assms(3,4) show "buffers_ok b m" by (rule_tac same_but_readable)
qed

section \<open>The transmit ring\<close>

fun tx_ok :: "dma_t \<Rightarrow> 'd ring \<Rightarrow> bool" where
  "tx_ok dma (s, h) \<longleftrightarrow> region_ok dma (tx_mac_descrtable (priv s)) (txbuffs (priv s))
     \<and> table_ok (tx_mac_descrtable (priv s)) (txbuffs (priv s)) (tx_cpu s) \<and> table_ok (tx_mac_descrtable (priv s)) (txbuffs (priv s)) (tx_ram s)
     \<and> buffers_ok (txbuffs (priv s)) (cpu s) \<and> buffers_ok (txbuffs (priv s)) (ram s)"

fun tx_slot :: "'d ring \<Rightarrow> nat \<Rightarrow> byte list option" where
  "tx_slot (s, h) i = (if i < 16 \<and> txrx_status (tx_ram s ! i) AND DESC_TXSTS_OWNBYDMA \<noteq> 0
     then load_bytes (ram s) (buffer (txbuffs (priv s)) i) (unat (dmamac_cntl (tx_ram s ! i) AND DESC_TXCTRL_SIZE1MASK)) else None)"

fun tx_prod :: "'d ring \<Rightarrow> nat" where
  "tx_prod (s, h) = unat (tx_currdescnum (priv s))"

lemma load_buffer: "buffers_ok b m \<Longrightarrow> i < 16 \<Longrightarrow> n \<le> 2048 \<Longrightarrow> \<exists>f. load_bytes m (buffer b i) n = Some f"
  using load_bytes_readable [of m "buffer b i" n] readable_part [of m "buffer b i" 2048 0 n] by (auto simp: buffers_ok_def)

lemma size1_le: "unat (c AND DESC_TXCTRL_SIZE1MASK) \<le> 2047"
proof -
  have "c AND DESC_TXCTRL_SIZE1MASK \<le> DESC_TXCTRL_SIZE1MASK" by (rule word_and_le1)
  then show ?thesis by (simp add: word_le_nat_alt DESC_TXCTRL_SIZE1MASK_def)
qed

lemma size1_flags: "bit DESC_TXCTRL_TXLAST k \<longleftrightarrow> k = 30" "bit DESC_TXCTRL_TXFIRST k \<longleftrightarrow> k = 29"
  unfolding DESC_TXCTRL_TXLAST_def DESC_TXCTRL_TXFIRST_def bit_push_bit_iff by (auto simp: bit_1_iff)

lemma size1_set:
  assumes "n < 2048"
  shows "unat ((c AND NOT DESC_TXCTRL_SIZE1MASK OR (of_int (int n) AND DESC_TXCTRL_SIZE1MASK) OR DESC_TXCTRL_TXLAST OR DESC_TXCTRL_TXFIRST)
     AND DESC_TXCTRL_SIZE1MASK) = n"
proof -
  have m: "DESC_TXCTRL_SIZE1MASK = mask 11" by (simp add: DESC_TXCTRL_SIZE1MASK_def mask_eq_exp_minus_1)
  have "(c AND NOT DESC_TXCTRL_SIZE1MASK OR (of_int (int n) AND DESC_TXCTRL_SIZE1MASK) OR DESC_TXCTRL_TXLAST OR DESC_TXCTRL_TXFIRST)
     AND DESC_TXCTRL_SIZE1MASK = (of_nat n AND mask 11)"
    unfolding m using size1_flags by (intro bit_word_eqI) (auto simp: bit_simps)
  moreover have "unat (of_nat n AND mask 11 :: u32) = n"
    using assms by (simp add: take_bit_eq_mask [symmetric] unsigned_take_bit_eq unat_of_nat take_bit_nat_eq_self)
  ultimately show ?thesis by simp
qed

lemma tx_send_busy:
  assumes "tx_ok dma (s, h)" and "n < 2048" and "i = unat (tx_currdescnum (priv s))" and "i < 16"
    and "txrx_status (tx_ram s ! i) AND DESC_TXSTS_OWNBYDMA \<noteq> 0"
  shows "dw_eth_send H dma p (int n) s = Some (- EPERM, s\<lparr>tx_cpu := (tx_cpu s)[i := tx_ram s ! i]\<rparr>)"
proof -
  obtain r where "roundup (int n) (int ARCH_DMA_MINALIGN) = Some (int r)" using roundup_64 [OF assms(2)] .
  moreover have "length (tx_cpu s) = 16" "length (tx_ram s) = 16" using assms(1) table_ok_length by auto
  ultimately show ?thesis using assms(3-5) by (simp add: dw_eth_send_def invalidate_tx_def Let_def)
qed

lemma next_desc: "unat (c :: u32) < 16 \<Longrightarrow> unat (if 16 \<le> unat (c + 1) then 0 else c + 1) = (unat c + 1) mod 16"
proof -
  assume c: "unat c < 16"
  then have "unat (c + 1) = unat c + 1" by (simp add: unat_plus_if')
  with c show ?thesis by (cases "unat c = 15") auto
qed

lemma nat_max_int: "nat (max (int n) 60) = max n 60" "max (int n) 60 = int (max n 60)"
  by auto

lemma tx_send_free:
  assumes ok: "tx_ok dma (s, h)" and n: "0 < n" "n < 2048" and i: "i = unat (tx_currdescnum (priv s))" "i < 16"
    and own: "txrx_status (tx_ram s ! i) AND DESC_TXSTS_OWNBYDMA = 0" and f: "load_bytes (cpu s) p (max n 60) = Some f"
  shows "\<exists>s'. dw_eth_send H dma p (int n) s = Some (0, s') \<and> tx_ok dma (s', h)
     \<and> tx_slot (s', h) = (tx_slot (s, h))(i := Some f) \<and> tx_prod (s', h) = (i + 1) mod 16"
proof -
  let ?b = "txbuffs (priv s)" and ?t = "tx_mac_descrtable (priv s)"
  have okD: "region_ok dma ?t ?b" "table_ok ?t ?b (tx_cpu s)" "table_ok ?t ?b (tx_ram s)" "buffers_ok ?b (cpu s)" "buffers_ok ?b (ram s)"
    using ok by simp_all
  obtain r where r: "roundup (int n) (int ARCH_DMA_MINALIGN) = Some (int r)" "n \<le> r" "r \<le> 2048" "64 \<le> r"
    using roundup_64 [OF n(2)] n(1) by metis
  let ?v = "buffer ?b i"
  define m where "m = put ?v f (cpu s)"
  have fl: "length f = max n 60" using load_bytes_nth [OF f] by simp
  have rd: "readable (cpu s) ?v (max n 60)" using okD(4) i(2) n readable_part [of "cpu s" ?v 2048 0 "max n 60"] by (simp add: buffers_ok_def)
  have copy: "memcpy ?v p (max n 60) (cpu s) = Some m" unfolding m_def using f rd n by (intro memcpy_put) auto
  have mb: "buffers_ok ?b m" using okD(4) by (simp add: m_def buffers_ok_def)
  have lm: "load_bytes m ?v (max n 60) = Some f" unfolding m_def using load_bytes_put [of f ?v "cpu s"] fl n by simp
  define s1 where "s1 = s\<lparr>tx_cpu := (tx_cpu s)[i := tx_ram s ! i], cpu := m\<rparr>"
  define s2 where "s2 = flush_dcache_range ?v (?v + of_nat r) s1"
  have s1: "cpu s1 = m" "ram s1 = ram s" by (simp_all add: s1_def)
  have "max n 60 \<le> r" using r by simp
  note fb = flush_buffer [OF r(3) this i(2), of ?b s1, unfolded s1, OF mb okD(5), folded s2_def]
  define d where "d = (tx_ram s ! i)\<lparr>dmamac_cntl := (dmamac_cntl (tx_ram s ! i) AND NOT DESC_TXCTRL_SIZE1MASK) OR
     (of_int (int (max n 60)) AND DESC_TXCTRL_SIZE1MASK) OR DESC_TXCTRL_TXLAST OR DESC_TXCTRL_TXFIRST, txrx_status := DESC_TXSTS_OWNBYDMA\<rparr>"
  have ch: "chained ?t ?b i d" using chained_nth [OF okD(3) i(2)] by (simp add: d_def)
  define c where "c = (if 16 \<le> unat (tx_currdescnum (priv s) + 1) then 0 else tx_currdescnum (priv s) + 1)"
  define s' where "s' = wrl H POLL_DATA DMA_txpolldemand (s2\<lparr>tx_cpu := (tx_cpu s)[i := d], tx_ram := (tx_ram s)[i := d],
     priv := (priv s)\<lparr>tx_currdescnum := c\<rparr>\<rparr>)"
  have l: "length (tx_cpu s) = 16" "length (tx_ram s) = 16" using okD table_ok_length by auto
  have v: "sos_dma_phys_to_virt dma (ucast (dmamac_addr (tx_cpu s ! i))) = ?v" using buffer_of [OF chained_nth [OF okD(2) i(2)] okD(1) i(2)] .
  have run: "dw_eth_send H dma p (int n) s = Some (0, s')"
    using i l own copy v r(1)
    by (simp add: dw_eth_send_def Let_def invalidate_tx_def ETH_ZLEN_def nat_max_int s2_def s1_def s'_def c_def d_def flush_tx_def flush_dcache_range_def
          CONFIG_TX_DESCR_NUM_def)
  have f': "tx_cpu s' = (tx_cpu s)[i := d]" "tx_ram s' = (tx_ram s)[i := d]" "cpu s' = m" "ram s' = ram s2" "priv s' = (priv s)\<lparr>tx_currdescnum := c\<rparr>"
    by (simp_all add: s'_def wrl_def s2_def s1_def flush_dcache_range_def)
  have "tx_ok dma (s', h)" using okD ch mb fb(3) by (auto simp: f')
  moreover have "tx_slot (s', h) k = ((tx_slot (s, h))(i := Some f)) k" for k
  proof (cases "k = i")
    case True
    have "unat (dmamac_cntl d AND DESC_TXCTRL_SIZE1MASK) = max n 60" unfolding d_def using n(2) by (simp add: size1_set del: of_int_of_nat_eq)
    moreover have "txrx_status d AND DESC_TXSTS_OWNBYDMA \<noteq> 0" by (simp add: d_def DESC_TXSTS_OWNBYDMA_def)
    ultimately show ?thesis using True l i(2) fb(1) lm by (simp add: f')
  next
    case False
    then show ?thesis using same_but_load [OF fb(2) i(2), of k] size1_le by (simp add: f' le_trans [OF size1_le])
  qed
  moreover have "tx_prod (s', h) = (i + 1) mod 16" using next_desc i by (simp add: f' c_def)
  ultimately show ?thesis using run by blast
qed

lemma tx_device_step:
  assumes "tx_ok dma (s, h)" and "h < 16"
  shows "\<exists>s' h'. tx_device dma st (s, h) = Some (tx_slot (s, h) h, (s', h')) \<and> tx_ok dma (s', h') \<and> tx_slot (s', h') = (tx_slot (s, h))(h := None)
     \<and> tx_prod (s', h') = tx_prod (s, h) \<and> h' = (if tx_slot (s, h) h = None then h else (h + 1) mod 16)"
proof -
  let ?b = "txbuffs (priv s)" and ?t = "tx_mac_descrtable (priv s)" and ?d = "tx_ram s ! h"
  have okD: "region_ok dma ?t ?b" "table_ok ?t ?b (tx_ram s)" "buffers_ok ?b (ram s)" using assms(1) by simp_all
  have l: "length (tx_ram s) = 16" using table_ok_length [OF okD(2)] .
  note ch = chained_nth [OF okD(2) assms(2)]
  show ?thesis
  proof (cases "txrx_status ?d AND DESC_TXSTS_OWNBYDMA = 0")
    case True
    with assms l show ?thesis by (auto simp: fun_eq_iff)
  next
    case False
    obtain f where f: "load_bytes (ram s) (buffer ?b h) (unat (dmamac_cntl ?d AND DESC_TXCTRL_SIZE1MASK)) = Some f"
      using load_buffer [OF okD(3) assms(2) le_trans [OF size1_le]] by fastforce
    let ?d' = "?d\<lparr>txrx_status := st AND NOT DESC_TXSTS_OWNBYDMA\<rparr>" and ?s = "s\<lparr>tx_ram := (tx_ram s)[h := ?d\<lparr>txrx_status := st AND NOT DESC_TXSTS_OWNBYDMA\<rparr>]\<rparr>"
    have "tx_device dma st (s, h) = Some (Some f, (?s, (h + 1) mod 16))"
      using False f l assms(2) buffer_of [OF ch okD(1) assms(2)] device_next_of [OF ch] by simp
    moreover have "tx_slot (s, h) h = Some f" using False f assms(2) by simp
    moreover have "tx_ok dma (?s, (h + 1) mod 16)" using assms(1) ch by auto
    moreover have "tx_slot (?s, (h + 1) mod 16) = (tx_slot (s, h))(h := None)"
      using l by (auto simp: fun_eq_iff nth_list_update and.assoc)
    ultimately show ?thesis by auto
  qed
qed

lemma tx_ok_put: "tx_ok dma (s, h) \<Longrightarrow> tx_ok dma (s\<lparr>cpu := put p bs (cpu s)\<rparr>, h)"
  by (simp add: buffers_ok_def)

lemma tx_slot_cpu [simp]: "tx_slot (s\<lparr>cpu := m\<rparr>, h) = tx_slot (s, h)"
  by (simp add: fun_eq_iff)

lemma send_len: "n < 2048 \<Longrightarrow> sint (of_nat n :: u32) = int n"
  by (simp only: signed_of_nat) (simp add: signed_take_bit_int_eq_self)

lemma tx_slot_None:
  assumes "tx_ok dma (s, h)" and "i < 16"
  shows "tx_slot (s, h) i = None \<longleftrightarrow> txrx_status (tx_ram s ! i) AND DESC_TXSTS_OWNBYDMA = 0"
proof -
  have "unat (dmamac_cntl (tx_ram s ! i) AND DESC_TXCTRL_SIZE1MASK) \<le> 2048" by (rule le_trans [OF size1_le]) simp
  with load_buffer [of "txbuffs (priv s)" "ram s" i] assms show ?thesis by force
qed

lemma tx_driver_step:
  assumes "tx_ok dma (s, h)" and "tx_good e" and "tx_prod (s, h) < 16"
  shows "\<exists>s'. tx_driver H dma e (s, h) = Some (tx_slot (s, h) (tx_prod (s, h)) = None, (s', h)) \<and> tx_ok dma (s', h)
     \<and> tx_slot (s', h) = (if tx_slot (s, h) (tx_prod (s, h)) = None then (tx_slot (s, h))(tx_prod (s, h) := Some (tx_frame e)) else tx_slot (s, h))
     \<and> tx_prod (s', h) = (if tx_slot (s, h) (tx_prod (s, h)) = None then (tx_prod (s, h) + 1) mod 16 else tx_prod (s, h))"
proof -
  obtain p bs pad where e: "e = (p, bs, pad)" by (cases e)
  let ?n = "length bs" and ?s = "s\<lparr>cpu := put p (bs @ pad) (cpu s)\<rparr>" and ?i = "tx_prod (s, h)"
  have g: "p \<noteq> 0" "0 < ?n" "?n < 2048" "60 \<le> ?n + length pad" "length pad \<le> 2048" using assms(2) by (simp_all add: e)
  have ok: "tx_ok dma (?s, h)" using tx_ok_put [OF assms(1)] .
  have slot: "tx_slot (s, h) ?i = None \<longleftrightarrow> txrx_status (tx_ram s ! ?i) AND DESC_TXSTS_OWNBYDMA = 0"
    using tx_slot_None [OF assms(1,3)] .
  show ?thesis
  proof (cases "tx_slot (s, h) ?i = None")
    case True
    have "load_bytes (put p (bs @ pad) (cpu s)) p (max ?n 60) = Some (tx_frame e)"
      using load_bytes_take [OF load_bytes_put [of "bs @ pad" p "cpu s"], of "max ?n 60"] g by (simp add: e)
    with True slot tx_send_free [OF ok g(2,3), of ?i p "tx_frame e" H] assms(3) obtain s' where
      "dw_eth_send H dma p (int ?n) ?s = Some (0, s')" "tx_ok dma (s', h)" "tx_slot (s', h) = (tx_slot (s, h))(?i := Some (tx_frame e))"
      "tx_prod (s', h) = (?i + 1) mod 16" by auto
    with True g show ?thesis
      by (auto simp: e pico_eth_send_def ethif_send_def send_len ETHIF_NOERROR_def ETHIF_ERROR_def)
  next
    case False
    then have "txrx_status (tx_ram s ! ?i) AND DESC_TXSTS_OWNBYDMA \<noteq> 0" by (simp only: slot not_False_eq_True)
    with tx_send_busy [OF ok g(3), of ?i H p] assms(3)
    have "dw_eth_send H dma p (int ?n) ?s = Some (- EPERM, ?s\<lparr>tx_cpu := (tx_cpu s)[?i := tx_ram s ! ?i]\<rparr>)" by simp
    with False g show ?thesis using ok assms(3)
      by (auto simp: e pico_eth_send_def ethif_send_def send_len ETHIF_NOERROR_def ETHIF_ERROR_def EPERM_def intro!: table_ok_update chained_nth)
  qed
qed

lemma buffers_ok_keep:
  "buffers_ok b (\<lambda>a. if unat (a - vaddr b) < 32768 then m a else c a) = buffers_ok b m"
  by (simp add: buffers_ok_def readable_def buffer_in_region)

lemma load_keep:
  "i < 16 \<Longrightarrow> n \<le> 2048 \<Longrightarrow> load_bytes (\<lambda>a. if unat (a - vaddr b) < 32768 then m a else c a) (buffer b i) n = load_bytes m (buffer b i) n"
  by (rule load_bytes_cong) (simp add: buffer_in_region)

lemma tx_other_step:
  assumes "tx_ok dma w"
  shows "tx_ok dma (tx_other x w) \<and> tx_slot (tx_other x w) = tx_slot w \<and> tx_prod (tx_other x w) = tx_prod w \<and> snd (tx_other x w) = snd w"
proof -
  obtain s h c r e where e: "w = (s, h)" "x = (c, r, e)" by (cases w, cases x)
  have "load_bytes (\<lambda>a. if unat (a - vaddr (txbuffs (priv s))) < 32768 then ram s a else r a) (buffer (txbuffs (priv s)) i)
      (unat (dmamac_cntl (tx_ram s ! i) AND DESC_TXCTRL_SIZE1MASK)) = load_bytes (ram s) (buffer (txbuffs (priv s)) i)
      (unat (dmamac_cntl (tx_ram s ! i) AND DESC_TXCTRL_SIZE1MASK))" if "i < 16" for i
    using that by (intro load_keep le_trans [OF size1_le]) simp_all
  then show ?thesis using assms by (auto simp: e tx_other_def Let_def buffers_ok_keep fun_eq_iff)
qed

interpretation tx: ring_queue CONFIG_TX_DESCR_NUM "tx_ok dma" tx_slot tx_prod snd "tx_driver H dma" tx_good tx_frame "tx_device dma" tx_other
  for dma :: dma_t and H :: "'d eth_hw"
proof (unfold_locales, unfold CONFIG_TX_DESCR_NUM_def)
  fix w :: "'d ring" and p
  assume w: "tx_ok dma w" "tx_good p" "tx_prod w < 16"
  obtain s h where e: "w = (s, h)" by (cases w)
  note step = tx_driver_step [of dma s h p H, folded e, OF w]
  show "\<exists>s'. tx_driver H dma p w = Some (False, s') \<and> tx_ok dma s' \<and> tx_slot s' = tx_slot w \<and> tx_prod s' = tx_prod w \<and> snd s' = snd w"
    if "tx_slot w (tx_prod w) \<noteq> None" using step that by (fastforce simp del: tx_slot.simps tx_ok.simps tx_prod.simps simp: e)
  show "\<exists>s'. tx_driver H dma p w = Some (True, s') \<and> tx_ok dma s' \<and> tx_slot s' = (tx_slot w)(tx_prod w := Some (tx_frame p)) \<and>
       tx_prod s' = (tx_prod w + 1) mod 16 \<and> snd s' = snd w"
    if "tx_slot w (tx_prod w) = None" using step that by (fastforce simp del: tx_slot.simps tx_ok.simps tx_prod.simps simp: e)
next
  fix w :: "'d ring" and c
  assume w: "tx_ok dma w" "snd w < 16"
  obtain s h where e: "w = (s, h)" by (cases w)
  note step = tx_device_step [of dma s h c, folded e, OF w(1)]
  show "\<exists>s'. tx_device dma c w = Some (None, s') \<and> tx_ok dma s' \<and> tx_slot s' = tx_slot w \<and> tx_prod s' = tx_prod w \<and> snd s' = snd w"
    if "tx_slot w (snd w) = None" using step that w(2) by (fastforce simp del: tx_slot.simps tx_ok.simps tx_prod.simps tx_device.simps simp: e)
  show "\<exists>s'. tx_device dma c w = Some (Some x, s') \<and> tx_ok dma s' \<and> tx_slot s' = (tx_slot w)(snd w := None) \<and> tx_prod s' = tx_prod w \<and>
       snd s' = (snd w + 1) mod 16"
    if "tx_slot w (snd w) = Some x" for x using step that w(2) by (fastforce simp del: tx_slot.simps tx_ok.simps tx_prod.simps tx_device.simps simp: e)
qed (rule tx_other_step)

section \<open>The receive ring\<close>

definition rx_len :: "u32 \<Rightarrow> nat" where
  "rx_len status = unat (drop_bit 16 (status AND DESC_RXSTS_FRMLENMSK))"

fun rx_ok :: "dma_t \<Rightarrow> 'd ring \<Rightarrow> bool" where
  "rx_ok dma (s, h) \<longleftrightarrow> region_ok dma (rx_mac_descrtable (priv s)) (rxbuffs (priv s))
     \<and> table_ok (rx_mac_descrtable (priv s)) (rxbuffs (priv s)) (rx_cpu s) \<and> table_ok (rx_mac_descrtable (priv s)) (rxbuffs (priv s)) (rx_ram s)
     \<and> buffers_ok (rxbuffs (priv s)) (cpu s) \<and> buffers_ok (rxbuffs (priv s)) (ram s)
     \<and> (\<forall>i < 16. txrx_status (rx_ram s ! i) AND DESC_RXSTS_OWNBYDMA = 0 \<longrightarrow> rx_len (txrx_status (rx_ram s ! i)) < 2048)"

fun rx_slot :: "'d ring \<Rightarrow> nat \<Rightarrow> byte list option" where
  "rx_slot (s, h) i = (if i < 16 \<and> txrx_status (rx_ram s ! i) AND DESC_RXSTS_OWNBYDMA = 0
     then load_bytes (ram s) (buffer (rxbuffs (priv s)) i) (rx_len (txrx_status (rx_ram s ! i))) else None)"

fun rx_cons :: "'d ring \<Rightarrow> nat" where
  "rx_cons (s, h) = unat (rx_currdescnum (priv s))"

lemma bit_OWN: "bit DESC_RXSTS_OWNBYDMA k \<longleftrightarrow> k = 31"
  unfolding DESC_RXSTS_OWNBYDMA_def bit_push_bit_iff by (auto simp: bit_1_iff)

lemma own_set: "(x OR DESC_RXSTS_OWNBYDMA) AND DESC_RXSTS_OWNBYDMA \<noteq> 0"
proof
  assume "(x OR DESC_RXSTS_OWNBYDMA) AND DESC_RXSTS_OWNBYDMA = 0"
  then have "bit ((x OR DESC_RXSTS_OWNBYDMA) AND DESC_RXSTS_OWNBYDMA) 31 = bit (0 :: u32) 31" by simp
  then show False by (simp add: bit_simps bit_OWN)
qed

lemma status_of_length:
  fixes st :: u32
  assumes "n < 2048"
  defines "st' \<equiv> (st AND NOT DESC_RXSTS_OWNBYDMA AND NOT DESC_RXSTS_FRMLENMSK) OR push_bit 16 (of_nat n)"
  shows "st' AND DESC_RXSTS_OWNBYDMA = 0" and "rx_len st' = n"
proof -
  have hi: "\<not> bit n k" if "11 \<le> k" for k
  proof -
    have "n < 2 ^ k" using assms(1) power_increasing [OF that, of "2 :: nat"] by simp
    then show ?thesis by (simp add: bit_iff_odd)
  qed
  show "st' AND DESC_RXSTS_OWNBYDMA = 0" unfolding st'_def by (rule bit_word_eqI) (auto simp: bit_simps bit_OWN hi)
  have m: "bit DESC_RXSTS_FRMLENMSK k \<longleftrightarrow> 16 \<le> k \<and> k < 30" for k
  proof -
    have e: "DESC_RXSTS_FRMLENMSK = push_bit 16 (mask 14)" by (simp add: DESC_RXSTS_FRMLENMSK_def mask_eq_exp_minus_1)
    show ?thesis unfolding e bit_push_bit_iff bit_mask_iff by auto
  qed
  have lo: "k < 14" if "bit n k" for k using hi [of k] that by (cases "11 \<le> k") auto
  have "drop_bit 16 (st' AND DESC_RXSTS_FRMLENMSK) = of_nat n"
    unfolding st'_def by (rule bit_word_eqI) (auto simp: bit_simps m dest: lo)
  then show "rx_len st' = n" using assms(1) by (simp add: rx_len_def unat_of_nat)
qed

lemma rx_slot_None:
  assumes "rx_ok dma (s, h)" and "i < 16"
  shows "rx_slot (s, h) i = None \<longleftrightarrow> txrx_status (rx_ram s ! i) AND DESC_RXSTS_OWNBYDMA \<noteq> 0"
  using load_buffer [of "rxbuffs (priv s)" "ram s" i "rx_len (txrx_status (rx_ram s ! i))"] assms by force

lemma rx_device_step:
  assumes "rx_ok dma (s, h)" and "rx_good e" and "h < 16"
  shows "\<exists>s' h'. rx_device dma e (s, h) = Some (rx_slot (s, h) h = None, (s', h')) \<and> rx_ok dma (s', h') \<and> rx_cons (s', h') = rx_cons (s, h)
     \<and> rx_slot (s', h') = (if rx_slot (s, h) h = None then (rx_slot (s, h))(h := Some (fst e)) else rx_slot (s, h))
     \<and> h' = (if rx_slot (s, h) h = None then (h + 1) mod 16 else h)"
proof -
  let ?b = "rxbuffs (priv s)" and ?t = "rx_mac_descrtable (priv s)" and ?d = "rx_ram s ! h"
  obtain f st where e: "e = (f, st)" by (cases e)
  have f: "length f < 2048" using assms(2) by (simp add: e MAC_MAX_FRAME_SZ_def)
  have okD: "region_ok dma ?t ?b" "table_ok ?t ?b (rx_ram s)" "buffers_ok ?b (ram s)" using assms(1) by simp_all
  have l: "length (rx_ram s) = 16" using table_ok_length [OF okD(2)] .
  note ch = chained_nth [OF okD(2) assms(3)]
  note none = rx_slot_None [OF assms(1,3)]
  show ?thesis
  proof (cases "rx_slot (s, h) h = None")
    case False
    then have "txrx_status ?d AND DESC_RXSTS_OWNBYDMA = 0" using none by (simp del: rx_slot.simps)
    with False assms(1,3) l show ?thesis by (auto simp: fun_eq_iff e)
  next
    case True
    let ?st = "(st AND NOT DESC_RXSTS_OWNBYDMA AND NOT DESC_RXSTS_FRMLENMSK) OR push_bit 16 (of_nat (length f))"
    let ?m = "put (buffer ?b h) f (ram s)"
    let ?s = "s\<lparr>rx_ram := (rx_ram s)[h := ?d\<lparr>txrx_status := ?st\<rparr>], ram := ?m\<rparr>"
    have own: "txrx_status ?d AND DESC_RXSTS_OWNBYDMA \<noteq> 0" using True none by (simp del: rx_slot.simps)
    have "readable (ram s) (buffer ?b h) (length f)" using okD(3) assms(3) f readable_part [of "ram s" "buffer ?b h" 2048 0 "length f"]
      by (simp add: buffers_ok_def)
    then have "store_bytes (ram s) (buffer ?b h) f = Some ?m" using f by (intro store_bytes_put) auto
    then have run: "rx_device dma e (s, h) = Some (True, (?s, (h + 1) mod 16))"
      using own l assms(3) buffer_of [OF ch okD(1) assms(3)] device_next_of [OF ch] by (simp add: e)
    have same: "same_but ?b h (ram s) ?m" using f by (intro same_but_put) simp
    have "rx_ok dma (?s, (h + 1) mod 16)" using assms(1) ch status_of_length [OF f, of st] l assms(3) f
      by (auto simp: buffers_ok_def nth_list_update split: if_splits)
    moreover have "rx_slot (?s, (h + 1) mod 16) k = ((rx_slot (s, h))(h := Some f)) k" for k
    proof (cases "k = h")
      case True
      then show ?thesis using assms(3) l status_of_length [OF f, of st] load_bytes_put [of f "buffer ?b h" "ram s"] f by simp
    next
      case False
      then have "rx_slot (?s, (h + 1) mod 16) k = rx_slot (s, h) k"
        using same_but_load [OF same assms(3), of k "rx_len (txrx_status (rx_ram s ! k))"] assms(1) by auto
      with False show ?thesis by simp
    qed
    ultimately show ?thesis using True run by (auto simp: e)
  qed
qed

lemma rx_driver_step:
  assumes "rx_ok dma (s, h)" and "rx_cons (s, h) < 16"
  shows "\<exists>s'. rx_driver dma u (s, h) = Some (rx_slot (s, h) (rx_cons (s, h)), (s', h)) \<and> rx_ok dma (s', h)
     \<and> rx_slot (s', h) = (rx_slot (s, h))(rx_cons (s, h) := None)
     \<and> rx_cons (s', h) = (if rx_slot (s, h) (rx_cons (s, h)) = None then rx_cons (s, h) else (rx_cons (s, h) + 1) mod 16)"
proof -
  let ?b = "rxbuffs (priv s)" and ?t = "rx_mac_descrtable (priv s)" and ?i = "rx_cons (s, h)"
  let ?d = "rx_ram s ! ?i" and ?c = "rx_currdescnum (priv s)"
  have okD: "region_ok dma ?t ?b" "table_ok ?t ?b (rx_cpu s)" "table_ok ?t ?b (rx_ram s)" "buffers_ok ?b (cpu s)" "buffers_ok ?b (ram s)"
    using assms(1) by simp_all
  have l: "length (rx_cpu s) = 16" "length (rx_ram s) = 16" using okD table_ok_length by auto
  note ch = chained_nth [OF okD(2) assms(2)] chained_nth [OF okD(3) assms(2)]
  note none = rx_slot_None [OF assms]
  show ?thesis
  proof (cases "rx_slot (s, h) ?i = None")
    case True
    let ?s = "s\<lparr>rx_cpu := (rx_cpu s)[?i := ?d]\<rparr>"
    have "txrx_status ?d AND DESC_RXSTS_OWNBYDMA \<noteq> 0" using True none by (simp del: rx_slot.simps)
    then have "rx_driver dma u (s, h) = Some (None, (?s, h))"
      using l assms(2) by (simp add: ethif_recv_def eth_recv_def dw_eth_recv_def invalidate_rx_def Let_def EAGAIN_def)
    moreover have "rx_ok dma (?s, h)" using assms(1) ch by auto
    ultimately show ?thesis using True by (auto simp: fun_eq_iff)
  next
    case False
    then have own: "txrx_status ?d AND DESC_RXSTS_OWNBYDMA = 0" by (simp only: none not_not)
    let ?n = "rx_len (txrx_status ?d)" and ?v = "buffer ?b ?i"
    have n: "?n < 2048" using own assms by simp
    obtain r where r: "roundup (int ?n) (int ARCH_DMA_MINALIGN) = Some (int r)" "?n \<le> r" "r \<le> 2048" using roundup_64 [OF n] by metis
    define m where "m = cpu (invalidate_dcache_range ?v (?v + of_nat r) s)"
    note inv = invalidate_buffer [OF r(3,2) assms(2) okD(4,5), folded m_def]
    obtain f where f: "rx_slot (s, h) ?i = Some f" using False by blast
    then have lf: "load_bytes m ?v ?n = Some f" using own assms(2) inv(1) by simp
    let ?d' = "?d\<lparr>txrx_status := txrx_status ?d OR DESC_RXSTS_OWNBYDMA\<rparr>"
    let ?s = "s\<lparr>rx_cpu := (rx_cpu s)[?i := ?d'], rx_ram := (rx_ram s)[?i := ?d'], cpu := m,
       priv := (priv s)\<lparr>rx_currdescnum := (if 16 \<le> unat (?c + 1) then 0 else ?c + 1)\<rparr>\<rparr>"
    have v: "sos_dma_phys_to_virt dma (ucast (dmamac_addr (rx_cpu s ! ?i))) = ?v" "sos_dma_phys_to_virt dma (ucast (dmamac_addr ?d)) = ?v"
      using buffer_of [OF ch(1) okD(1) assms(2)] buffer_of [OF ch(2) okD(1) assms(2)] by auto
    have u: "uint (drop_bit 16 (txrx_status ?d AND DESC_RXSTS_FRMLENMSK)) = int ?n" by (simp add: rx_len_def)
    let ?s1 = "s\<lparr>rx_cpu := (rx_cpu s)[?i := ?d], cpu := m\<rparr>"
    have "dw_eth_recv dma s = Some (int ?n, ?v, ?s1)"
      using l assms(2) own v r(1) u by (simp add: dw_eth_recv_def invalidate_rx_def invalidate_dcache_range_def m_def Let_def cong: if_cong)
    moreover have "dw_free_pkt ?s1 = Some ?s"
      using l assms(2) by (simp add: dw_free_pkt_def flush_rx_def Let_def CONFIG_RX_DESCR_NUM_def)
    ultimately have "rx_driver dma u (s, h) = Some (Some f, (?s, h))" using lf by (simp add: ethif_recv_def eth_recv_def EAGAIN_def)
    moreover have "rx_ok dma (?s, h)" using okD ch inv(2) assms(1) own_set l assms(2) by (auto simp: nth_list_update)
    moreover have "rx_slot (?s, h) = (rx_slot (s, h))(?i := None)" using l own_set by (auto simp: fun_eq_iff nth_list_update)
    moreover have "rx_cons (?s, h) = (?i + 1) mod 16" using next_desc assms(2) by simp
    ultimately show ?thesis using f by auto
  qed
qed

lemma rx_other_step:
  assumes "rx_ok dma w"
  shows "rx_ok dma (rx_other x w) \<and> rx_slot (rx_other x w) = rx_slot w \<and> snd (rx_other x w) = snd w \<and> rx_cons (rx_other x w) = rx_cons w"
proof -
  obtain s h c r e where e: "w = (s, h)" "x = (c, r, e)" by (cases w, cases x)
  have "load_bytes (\<lambda>a. if unat (a - vaddr (rxbuffs (priv s))) < 32768 then ram s a else r a) (buffer (rxbuffs (priv s)) i) (rx_len (txrx_status (rx_ram s ! i)))
      = load_bytes (ram s) (buffer (rxbuffs (priv s)) i) (rx_len (txrx_status (rx_ram s ! i)))"
    if "i < 16" "txrx_status (rx_ram s ! i) AND DESC_RXSTS_OWNBYDMA = 0" for i
    using that assms by (intro load_keep) (auto simp: e less_imp_le)
  then show ?thesis using assms by (auto simp: e rx_other_def Let_def buffers_ok_keep fun_eq_iff)
qed

interpretation rx: ring_queue CONFIG_RX_DESCR_NUM "rx_ok dma" rx_slot snd rx_cons "rx_device dma" rx_good fst "rx_driver dma" rx_other
  for dma :: dma_t
proof (unfold_locales, unfold CONFIG_RX_DESCR_NUM_def)
  fix w :: "'d ring" and p
  assume w: "rx_ok dma w" "rx_good p" "snd w < 16"
  obtain s h where e: "w = (s, h)" by (cases w)
  note step = rx_device_step [of dma s h p, folded e, OF w(1,2)]
  show "\<exists>s'. rx_device dma p w = Some (False, s') \<and> rx_ok dma s' \<and> rx_slot s' = rx_slot w \<and> snd s' = snd w \<and> rx_cons s' = rx_cons w"
    if "rx_slot w (snd w) \<noteq> None" using step that w(3) by (fastforce simp del: rx_slot.simps rx_ok.simps rx_cons.simps simp: e)
  show "\<exists>s'. rx_device dma p w = Some (True, s') \<and> rx_ok dma s' \<and> rx_slot s' = (rx_slot w)(snd w := Some (fst p)) \<and>
       snd s' = (snd w + 1) mod 16 \<and> rx_cons s' = rx_cons w"
    if "rx_slot w (snd w) = None" using step that w(3) by (fastforce simp del: rx_slot.simps rx_ok.simps rx_cons.simps simp: e)
next
  fix w :: "'d ring" and c
  assume w: "rx_ok dma w" "rx_cons w < 16"
  obtain s h where e: "w = (s, h)" by (cases w)
  note step = rx_driver_step [of dma s h c, folded e, OF w]
  show "\<exists>s'. rx_driver dma c w = Some (None, s') \<and> rx_ok dma s' \<and> rx_slot s' = rx_slot w \<and> snd s' = snd w \<and> rx_cons s' = rx_cons w"
    if "rx_slot w (rx_cons w) = None" using step that by (fastforce simp del: rx_slot.simps rx_ok.simps rx_cons.simps rx_driver.simps simp: e)
  show "\<exists>s'. rx_driver dma c w = Some (Some x, s') \<and> rx_ok dma s' \<and> rx_slot s' = (rx_slot w)(rx_cons w := None) \<and> snd s' = snd w \<and>
       rx_cons s' = (rx_cons w + 1) mod 16"
    if "rx_slot w (rx_cons w) = Some x" for x using step that by (fastforce simp del: rx_slot.simps rx_ok.simps rx_cons.simps rx_driver.simps simp: e)
qed (use rx_other_step in blast)

section \<open>The rings after initialisation\<close>

lemma for_each_fill:
  "n \<le> length tab \<Longrightarrow> for_each (\<lambda>i tab. arr_set tab i (g i)) [0..<n] tab = Some (map g [0..<n] @ drop n tab)"
proof (induction n)
  case (Suc n)
  then have "(map g [0..<n] @ drop n tab)[n := g n] = map g [0..<Suc n] @ drop (Suc n) tab"
    by (auto simp: list_update_append Cons_nth_drop_Suc [symmetric])
  with Suc show ?case by (simp add: for_each_append)
qed simp

lemma chain_table:
  fixes t b st c
  defines "tab \<equiv> map (\<lambda>i. \<lparr>txrx_status = st, dmamac_cntl = c, dmamac_addr = ucast (paddr b + of_nat (i * 2048)),
     dmamac_next = ucast (paddr t + of_nat ((i + 1) * 64))\<rparr>) [0..<16]"
  defines "tab' \<equiv> tab[15 := (tab ! 15)\<lparr>dmamac_next := ucast (paddr t)\<rparr>]"
  shows "table_ok t b tab'" and "\<And>i. i < 16 \<Longrightarrow> txrx_status (tab' ! i) = st"
proof -
  have nth: "tab' ! i = \<lparr>txrx_status = st, dmamac_cntl = c, dmamac_addr = ucast (paddr b + of_nat (i * 2048)),
     dmamac_next = ucast (paddr t + of_nat ((i + 1) mod 16 * 64))\<rparr>" if "i < 16" for i
    using that by (cases "i = 15") (auto simp: tab'_def tab_def nth_list_update)
  show "table_ok t b tab'" by (auto simp: table_ok_def nth chained_def) (simp add: tab'_def tab_def)
  show "\<And>i. i < 16 \<Longrightarrow> txrx_status (tab' ! i) = st" by (simp add: nth)
qed

lemma ring_holds_init: "(\<And>i. slot i = None) \<Longrightarrow> 0 < n \<Longrightarrow> ring_holds n slot 0 []"
  by (simp add: ring_holds_def)

lemma tx_init:
  assumes "length (tx_cpu s) = CONFIG_TX_DESCR_NUM" and "region_ok dma (tx_mac_descrtable (priv s)) (txbuffs (priv s))"
    and "buffers_ok (txbuffs (priv s)) (cpu s)" and "buffers_ok (txbuffs (priv s)) (ram s)"
  shows "\<exists>s0. tx_descs_init H s = Some s0 \<and> tx.queue_is dma (s0, 0) []"
proof -
  let ?t = "tx_mac_descrtable (priv s)" and ?b = "txbuffs (priv s)"
  let ?tab = "map (\<lambda>i. \<lparr>txrx_status = 0, dmamac_cntl = DESC_TXCTRL_TXCHAIN, dmamac_addr = ucast (paddr ?b + of_nat (i * 2048)),
     dmamac_next = ucast (paddr ?t + of_nat ((i + 1) * 64))\<rparr>) [0..<16]"
  let ?tab' = "?tab[15 := (?tab ! 15)\<lparr>dmamac_next := ucast (paddr ?t)\<rparr>]"
  define tab' where "tab' = ?tab'"
  note tab = chain_table [where t = ?t and b = ?b and st = 0 and c = DESC_TXCTRL_TXCHAIN, folded tab'_def]
  let ?s = "s\<lparr>tx_cpu := tab', tx_ram := tab', hw := writel H DMA_txdesclistaddr (ucast (paddr ?t)) (hw s), priv := (priv s)\<lparr>tx_currdescnum := 0\<rparr>\<rparr>"
  have "tx_descs_init H s = Some ?s"
    using assms(1) for_each_fill [of 16 "tx_cpu s"]
    by (simp add: tx_descs_init_def Let_def wrl_def CONFIG_TX_DESCR_NUM_def CONFIG_ETH_BUFSIZE_def ARCH_DMA_MINALIGN_def tab'_def)
  moreover have "tx_ok dma (?s, 0)" using assms tab(1) by simp
  moreover have "tx_slot (?s, 0) i = None" for i using tab(2) [of i] by (cases "i < 16") simp_all
  ultimately show ?thesis unfolding tx.queue_is_def by (auto simp: CONFIG_TX_DESCR_NUM_def intro!: ring_holds_init simp del: tx_slot.simps)
qed

lemma rx_init:
  assumes "length (rx_cpu s) = CONFIG_RX_DESCR_NUM" and "region_ok dma (rx_mac_descrtable (priv s)) (rxbuffs (priv s))"
    and "buffers_ok (rxbuffs (priv s)) (cpu s)" and "buffers_ok (rxbuffs (priv s)) (ram s)"
  shows "\<exists>s0. rx_descs_init H s = Some s0 \<and> rx.queue_is dma (s0, 0) []"
proof -
  let ?t = "rx_mac_descrtable (priv s)" and ?b = "rxbuffs (priv s)" and ?c = "(MAC_MAX_FRAME_SZ AND DESC_RXCTRL_SIZE1MASK) OR DESC_RXCTRL_RXCHAIN"
  let ?tab = "map (\<lambda>i. \<lparr>txrx_status = DESC_RXSTS_OWNBYDMA, dmamac_cntl = ?c, dmamac_addr = ucast (paddr ?b + of_nat (i * 2048)),
     dmamac_next = ucast (paddr ?t + of_nat ((i + 1) * 64))\<rparr>) [0..<16]"
  let ?tab' = "?tab[15 := (?tab ! 15)\<lparr>dmamac_next := ucast (paddr ?t)\<rparr>]"
  define tab' where "tab' = ?tab'"
  note tab = chain_table [where t = ?t and b = ?b and st = DESC_RXSTS_OWNBYDMA and c = ?c, folded tab'_def]
  let ?m = "ram (flush_dcache_range (vaddr ?b) (vaddr ?b + dsize ?b) s)"
  let ?s = "s\<lparr>rx_cpu := tab', rx_ram := tab', ram := ?m, hw := writel H DMA_rxdesclistaddr (ucast (paddr ?t)) (hw s), priv := (priv s)\<lparr>rx_currdescnum := 0\<rparr>\<rparr>"
  have "rx_descs_init H s = Some ?s"
    using assms(1) for_each_fill [of 16 "rx_cpu s"]
    by (simp add: rx_descs_init_def Let_def wrl_def flush_dcache_range_def CONFIG_RX_DESCR_NUM_def CONFIG_ETH_BUFSIZE_def ARCH_DMA_MINALIGN_def tab'_def)
  moreover have "buffers_ok ?b ?m" using assms(3,4) by (auto simp: buffers_ok_def readable_def flush_dcache_range_def)
  then have "rx_ok dma (?s, 0)" using assms tab by (simp add: DESC_RXSTS_OWNBYDMA_def)
  moreover have "rx_slot (?s, 0) i = None" for i using tab(2) [of i] by (cases "i < 16") (simp_all add: DESC_RXSTS_OWNBYDMA_def)
  ultimately show ?thesis unfolding rx.queue_is_def by (auto simp: CONFIG_RX_DESCR_NUM_def intro!: ring_holds_init simp del: rx_slot.simps)
qed

section \<open>Polling\<close>

lemma eth_recv_result:
  assumes "eth_recv dma s = Some (r, p, s')"
  shows "r = (case p of None \<Rightarrow> 0 | Some f \<Rightarrow> int (length f))"
proof -
  from assms obtain len packet s1 where d: "dw_eth_recv dma s = Some (len, packet, s1)"
    and c: "(if len = - EAGAIN then Some (0, None, s1) else do { bs \<leftarrow> load_bytes (cpu s1) packet (nat len); s \<leftarrow> dw_free_pkt s1; Some (len, Some bs, s) })
      = Some (r, p, s')" unfolding eth_recv_def by (auto elim!: bind_SomeE)
  have "len = - EAGAIN \<or> 0 \<le> len" using d unfolding dw_eth_recv_def Let_def by (auto elim!: bind_SomeE split: if_splits)
  with c show ?thesis by (auto split: if_splits elim!: bind_SomeE dest: load_bytes_nth)
qed

lemma ethif_recv_result:
  "ethif_recv dma s = Some (r, len, p, s') \<Longrightarrow> r = ETHIF_NOERROR \<and> len = Some (case p of None \<Rightarrow> 0 | Some f \<Rightarrow> int (length f))"
  by (auto simp: ethif_recv_def elim!: bind_SomeE split: if_splits option.splits dest: eth_recv_result)

lemma ethif_recv_queue:
  assumes "rx.queue_is dma (s, h) q"
  shows "\<exists>s'. ethif_recv dma s = Some (ETHIF_NOERROR, Some (case q of [] \<Rightarrow> 0 | f # _ \<Rightarrow> int (length f)), case q of [] \<Rightarrow> None | f # _ \<Rightarrow> Some f, s')
     \<and> rx.queue_is dma (s', h) (tl q)"
proof -
  let ?p = "case q of [] \<Rightarrow> None | f # _ \<Rightarrow> Some f"
  from rx.queue_get [OF assms, of "()"] obtain w where w: "rx_driver dma () (s, h) = Some (?p, w)" "rx.queue_is dma w (tl q)" by blast
  obtain r len p s' where e: "ethif_recv dma s = Some (r, len, p, s')" using w(1) by (cases "ethif_recv dma s") auto
  with w(1) have "p = ?p" "w = (s', h)" by auto
  with ethif_recv_result [OF e] e w(2) show ?thesis by (cases q) auto
qed

lemma poll_loop_queue:
  assumes "rx.queue_is dma (s, h) q" and "[] \<notin> set q"
  shows "\<exists>s'. poll_loop dma k s = Some (k - length q, take k q, s') \<and> rx.queue_is dma (s', h) (drop k q)"
  using assms
proof (induction k arbitrary: s q)
  case (Suc k)
  from ethif_recv_queue [OF Suc.prems(1)] obtain s' where s':
    "ethif_recv dma s = Some (ETHIF_NOERROR, Some (case q of [] \<Rightarrow> 0 | f # _ \<Rightarrow> int (length f)), case q of [] \<Rightarrow> None | f # _ \<Rightarrow> Some f, s')"
    "rx.queue_is dma (s', h) (tl q)" by blast
  show ?case
  proof (cases q)
    case (Cons f q')
    with Suc.IH [of s' q'] s' Suc.prems(2) show ?thesis by (auto simp: ETHIF_NOERROR_def ETHIF_ERROR_def)
  qed (use s' in \<open>auto simp: ETHIF_NOERROR_def ETHIF_ERROR_def\<close>)
qed simp

section \<open>The rings are queues\<close>

text \<open>
  C9. The transmit ring of the driver is a queue of 16 frames. From the initialisation of the descriptors on, in every order of sends by the network stack, completions by the controller and
  changes elsewhere, every send returns; it is accepted if and only if fewer than 16 frames wait, and the controller sends the accepted frames in their order, each once, byte by byte as the stack
  gave them, also where the index wraps around and whatever the caches held. A packet below 60 bytes is sent with the bytes that follow it in memory. Packets have between 1 and 2047 bytes.
\<close>

theorem tx_ring_is_fifo:
  assumes "length (tx_cpu s) = CONFIG_TX_DESCR_NUM" and "region_ok dma (tx_mac_descrtable (priv s)) (txbuffs (priv s))"
    and "buffers_ok (txbuffs (priv s)) (cpu s)" and "buffers_ok (txbuffs (priv s)) (ram s)"
    and "\<And>p. Put p \<in> set es \<Longrightarrow> tx_good p"
  shows "\<exists>s0 w. tx_descs_init H s = Some s0 \<and>
     ring_run (tx_driver H dma) (tx_device dma) tx_other es (s0, 0) = Some (fifo_run CONFIG_TX_DESCR_NUM tx_frame es [], w)"
  using tx_init [OF assms(1-4), of H] tx.run_is_fifo [OF _ assms(5)] by blast

text \<open>A driver state for the examples.\<close>

definition eth_hw_example :: "unit eth_hw" where
  "eth_hw_example = \<lparr>readl = (\<lambda>_ d. (0, d)), writel = (\<lambda>_ _ d. d), hw_ticks = (\<lambda>d. (0, d)), hw_udelay = (\<lambda>_ d. d), phy_startup = (\<lambda>d. (0, d)),
     phy_shutdown = (\<lambda>d. d), phy_link = (\<lambda>_. 1), phy_speed = (\<lambda>_. 100), phy_duplex = (\<lambda>_. 1)\<rparr>"

definition eth_dma_example :: dma_t where
  "eth_dma_example = \<lparr>vstart = 0x8000000000, pstart = 0x10000000, pnext = 0x10000000, pend = 0x10200000, dma_cap = 1, dma_vspace = 1\<rparr>"

definition eth_example :: "unit eth_sys" where
  "eth_example = \<lparr>priv = \<lparr>
       tx_mac_descrtable = \<lparr>vaddr = 0x8000000000, paddr = 0x10000000, dsize = 1024\<rparr>,
       rx_mac_descrtable = \<lparr>vaddr = 0x8000000400, paddr = 0x10000400, dsize = 1024\<rparr>,
       txbuffs = \<lparr>vaddr = 0x8000000800, paddr = 0x10000800, dsize = 32768\<rparr>,
       rxbuffs = \<lparr>vaddr = 0x8000008800, paddr = 0x10008800, dsize = 32768\<rparr>, tx_currdescnum = 0, rx_currdescnum = 0\<rparr>,
     tx_cpu = replicate 16 \<lparr>txrx_status = 0, dmamac_cntl = 0, dmamac_addr = 0, dmamac_next = 0\<rparr>, tx_ram = [],
     rx_cpu = replicate 16 \<lparr>txrx_status = 0, dmamac_cntl = 0, dmamac_addr = 0, dmamac_next = 0\<rparr>, rx_ram = [],
     cpu = (\<lambda>_. Some 0), ram = (\<lambda>_. Some 0), hw = ()\<rparr>"

lemma eth_example_ok:
  "length (tx_cpu eth_example) = CONFIG_TX_DESCR_NUM" "length (rx_cpu eth_example) = CONFIG_RX_DESCR_NUM"
  "region_ok eth_dma_example (tx_mac_descrtable (priv eth_example)) (txbuffs (priv eth_example))"
  "region_ok eth_dma_example (rx_mac_descrtable (priv eth_example)) (rxbuffs (priv eth_example))"
  "buffers_ok b (cpu eth_example)" "buffers_ok b (ram eth_example)"
  by (simp_all add: eth_example_def eth_dma_example_def region_ok_def buffers_ok_def readable_def sos_dma_phys_to_virt_def CONFIG_TX_DESCR_NUM_def CONFIG_RX_DESCR_NUM_def)

theorem tx_ring_is_fifo_witness:
  "\<exists>s0 w. tx_descs_init eth_hw_example eth_example = Some s0 \<and>
     ring_run (tx_driver eth_hw_example eth_dma_example) (tx_device eth_dma_example) tx_other
       [Get 0, Put (4096, [1, 2, 3], replicate 60 9), Get 0x1234, Get 0] (s0, 0) = Some ([Nothing, Accepted, Got ([1, 2, 3] @ replicate 57 9), Nothing], w)"
  using tx_ring_is_fifo [OF eth_example_ok(1,3,5,6), of "[Get 0, Put (4096, [1, 2, 3], replicate 60 9), Get 0x1234, Get 0]" eth_hw_example]
  by (simp add: CONFIG_TX_DESCR_NUM_def max_def del: ring_run.simps)

text \<open>
  C10. The receive ring of the driver is a queue of 16 frames. In every order of arrivals, calls of \<open>ethif_recv\<close> and changes elsewhere, the driver hands over the frames that the controller has
  stored in their order, each once and byte by byte, and reports that there is nothing if and only if none waits. The controller drops a frame if and only if 16 wait.
\<close>

theorem rx_ring_is_fifo:
  assumes "length (rx_cpu s) = CONFIG_RX_DESCR_NUM" and "region_ok dma (rx_mac_descrtable (priv s)) (rxbuffs (priv s))"
    and "buffers_ok (rxbuffs (priv s)) (cpu s)" and "buffers_ok (rxbuffs (priv s)) (ram s)"
    and "\<And>p. Put p \<in> set es \<Longrightarrow> rx_good p"
  shows "\<exists>s0 w. rx_descs_init H s = Some s0 \<and>
     ring_run (rx_device dma) (rx_driver dma) rx_other es (s0, 0) = Some (fifo_run CONFIG_RX_DESCR_NUM fst es [], w)"
  using rx_init [OF assms(1-4), of H] rx.run_is_fifo [OF _ assms(5)] by blast

theorem rx_ring_is_fifo_witness:
  "\<exists>s0 w. rx_descs_init eth_hw_example eth_example = Some s0 \<and>
     ring_run (rx_device eth_dma_example) (rx_driver eth_dma_example) rx_other
       [Get (), Put ([1, 2, 3], 0x320), Put ([4], 0), Get (), Get (), Get ()] (s0, 0) = Some ([Nothing, Accepted, Accepted, Got [1, 2, 3], Got [4], Nothing], w)"
proof -
  let ?es = "[Get (), Put ([1, 2, 3], 0x320), Put ([4], 0), Get (), Get (), Get ()]"
  have "rx_good p" if "Put p \<in> set ?es" for p using that by (auto simp: MAC_MAX_FRAME_SZ_def)
  from rx_ring_is_fifo [OF eth_example_ok(2,4,5,6), of ?es eth_hw_example, OF this] show ?thesis by (simp add: CONFIG_RX_DESCR_NUM_def del: ring_run.simps)
qed

text \<open>
  C26. A poll of the network stack, after any arrivals and receptions: it hands the oldest waiting frames to the stack, in order and at most as many as its score, and returns what is left of
  the score. No frame is empty.
\<close>

theorem poll_delivers:
  assumes "length (rx_cpu s) = CONFIG_RX_DESCR_NUM" and "region_ok dma (rx_mac_descrtable (priv s)) (rxbuffs (priv s))"
    and "buffers_ok (rxbuffs (priv s)) (cpu s)" and "buffers_ok (rxbuffs (priv s)) (ram s)"
    and "\<And>p. Put p \<in> set es \<Longrightarrow> rx_good p \<and> fst p \<noteq> []"
  shows "\<exists>s0 t s1 h s2. rx_descs_init H s = Some s0 \<and> ring_run (rx_device dma) (rx_driver dma) rx_other es (s0, 0) = Some (t, (s1, h)) \<and>
     pico_eth_poll dma (int k) s1 = Some (int (k - length (fifo_queue CONFIG_RX_DESCR_NUM fst es [])), take k (fifo_queue CONFIG_RX_DESCR_NUM fst es []), s2)"
proof -
  let ?q = "fifo_queue CONFIG_RX_DESCR_NUM fst es []"
  obtain s0 where s0: "rx_descs_init H s = Some s0" "rx.queue_is dma (s0, 0) []" using rx_init [OF assms(1-4)] by blast
  with rx.run_is_fifo [OF s0(2), of es] assms(5) obtain t s1 h where
    run: "ring_run (rx_device dma) (rx_driver dma) rx_other es (s0, 0) = Some (t, (s1, h))" "rx.queue_is dma (s1, h) ?q" by (metis surj_pair)
  have "[] \<notin> set ?q" using assms(5) fifo_queue_from [of "[]" CONFIG_RX_DESCR_NUM fst es "[]"] by fastforce
  from poll_loop_queue [OF run(2) this, of k] obtain s2 where "poll_loop dma k s1 = Some (k - length ?q, take k ?q, s2)" by blast
  then have "pico_eth_poll dma (int k) s1 = Some (int (k - length ?q), take k ?q, s2)" by (cases "k = 0") (auto simp: pico_eth_poll_def)
  with s0(1) run(1) show ?thesis by blast
qed

theorem poll_delivers_witness:
  "\<exists>s0 t s1 h s2. rx_descs_init eth_hw_example eth_example = Some s0 \<and>
     ring_run (rx_device eth_dma_example) (rx_driver eth_dma_example) rx_other [Put ([1, 2, 3], 0), Put ([4], 0), Put ([5], 0), Get ()] (s0, 0) = Some (t, (s1, h)) \<and>
     pico_eth_poll eth_dma_example 20 s1 = Some (18, [[4], [5]], s2)"
proof -
  let ?es = "[Put ([1, 2, 3], 0), Put ([4], 0), Put ([5], 0), Get ()]"
  have "rx_good p \<and> fst p \<noteq> []" if "Put p \<in> set ?es" for p using that by (auto simp: MAC_MAX_FRAME_SZ_def)
  from poll_delivers [OF eth_example_ok(2,4,5,6), of ?es eth_hw_example 20, OF this] show ?thesis by (simp add: CONFIG_RX_DESCR_NUM_def del: ring_run.simps)
qed

end
