(* ===== verification/Eth_Both.thy ===== *)
theory Eth_Both
  imports Eth_Rings
begin

text \<open>
  Both rings of the Ethernet driver on one state. Sends and receptions of the driver and steps of the controller on either ring come in any order; a step on one ring keeps the other because
  their buffers do not overlap. So the driver is two queues at once.
\<close>

section \<open>Events on both rings\<close>

text \<open>The stack sends a packet, the controller has sent a frame, a frame arrives, the driver takes a frame, something else happens.\<close>

datatype 'd eth_event = Send "u64 \<times> byte list \<times> byte list" | Sent u32 | Arrive "byte list \<times> u32" | Receive | Elsewhere "mem \<times> mem \<times> 'd eth_sys"

text \<open>The rest of the system may change all but the rings, their places, buffers and indices.\<close>

definition eth_other :: "(mem \<times> mem \<times> 'd eth_sys) \<Rightarrow> 'd eth_sys \<Rightarrow> 'd eth_sys" where
  "eth_other = (\<lambda>(c, r, e) s. let keep = (\<lambda>a. unat (a - vaddr (txbuffs (priv s))) < 32768 \<or> unat (a - vaddr (rxbuffs (priv s))) < 32768) in
     e\<lparr>priv := priv s, tx_cpu := tx_cpu s, tx_ram := tx_ram s, rx_cpu := rx_cpu s, rx_ram := rx_ram s,
       cpu := (\<lambda>a. if keep a then cpu s a else c a), ram := (\<lambda>a. if keep a then ram s a else r a)\<rparr>)"

text \<open>A run on one state, with the descriptors that the controller uses next in each ring. The result has what happened on the transmit ring and what happened on the receive ring.\<close>

fun eth_run :: "'d eth_hw \<Rightarrow> dma_t \<Rightarrow> 'd eth_event list \<Rightarrow> 'd eth_sys \<times> nat \<times> nat
    \<Rightarrow> (byte list ring_result list \<times> byte list ring_result list \<times> 'd eth_sys \<times> nat \<times> nat) option" where
  "eth_run H dma [] w = Some ([], [], w)"
| "eth_run H dma (Send p # es) (s, t, r) = do {
     (b, s, t) \<leftarrow> tx_driver H dma p (s, t);
     (xs, ys, w) \<leftarrow> eth_run H dma es (s, t, r);
     Some ((if b then Accepted else Refused) # xs, ys, w)
   }"
| "eth_run H dma (Sent st # es) (s, t, r) = do {
     (f, s, t) \<leftarrow> tx_device dma st (s, t);
     (xs, ys, w) \<leftarrow> eth_run H dma es (s, t, r);
     Some ((case f of Some x \<Rightarrow> Got x | None \<Rightarrow> Nothing) # xs, ys, w)
   }"
| "eth_run H dma (Arrive f # es) (s, t, r) = do {
     (b, s, r) \<leftarrow> rx_device dma f (s, r);
     (xs, ys, w) \<leftarrow> eth_run H dma es (s, t, r);
     Some (xs, (if b then Accepted else Refused) # ys, w)
   }"
| "eth_run H dma (Receive # es) (s, t, r) = do {
     (f, s, r) \<leftarrow> rx_driver dma () (s, r);
     (xs, ys, w) \<leftarrow> eth_run H dma es (s, t, r);
     Some (xs, (case f of Some x \<Rightarrow> Got x | None \<Rightarrow> Nothing) # ys, w)
   }"
| "eth_run H dma (Elsewhere x # es) (s, t, r) = eth_run H dma es (eth_other x s, t, r)"

text \<open>The events of one ring.\<close>

fun tx_events :: "'d eth_event list \<Rightarrow> (u64 \<times> byte list \<times> byte list, u32, unit) ring_event list" where
  "tx_events [] = []"
| "tx_events (Send p # es) = Put p # tx_events es"
| "tx_events (Sent st # es) = Get st # tx_events es"
| "tx_events (_ # es) = tx_events es"

fun rx_events :: "'d eth_event list \<Rightarrow> (byte list \<times> u32, unit, unit) ring_event list" where
  "rx_events [] = []"
| "rx_events (Arrive f # es) = Put f # rx_events es"
| "rx_events (Receive # es) = Get () # rx_events es"
| "rx_events (_ # es) = rx_events es"

section \<open>Regions that do not overlap\<close>

definition apart :: "ethif_dma_addr_t \<Rightarrow> ethif_dma_addr_t \<Rightarrow> bool" where
  "apart a b \<longleftrightarrow> unat (paddr a) + unat (dsize a) \<le> unat (paddr b) \<or> unat (paddr b) + unat (dsize b) \<le> unat (paddr a)"

definition eth_regions :: "dw_eth_dev \<Rightarrow> ethif_dma_addr_t list" where
  "eth_regions p = [tx_mac_descrtable p, rx_mac_descrtable p, txbuffs p, rxbuffs p]"

text \<open>No address is in the packet buffers of both rings.\<close>

definition bufs_apart :: "dw_eth_dev \<Rightarrow> bool" where
  "bufs_apart p \<longleftrightarrow> (\<forall>a. unat (a - vaddr (txbuffs p)) < 32768 \<longrightarrow> \<not> unat (a - vaddr (rxbuffs p)) < 32768)"

lemma bufs_apartI:
  assumes "apart (txbuffs p) (rxbuffs p)" and "unat (dsize (txbuffs p)) = 32768" and "unat (dsize (rxbuffs p)) = 32768"
    and "vaddr (txbuffs p) = sos_dma_phys_to_virt d (paddr (txbuffs p))" and "vaddr (rxbuffs p) = sos_dma_phys_to_virt d (paddr (rxbuffs p))"
    and "unat (paddr (txbuffs p)) < 2 ^ 32" and "unat (paddr (rxbuffs p)) < 2 ^ 32"
  shows "bufs_apart p"
  unfolding bufs_apart_def
proof (intro allI impI)
  fix a
  let ?t = "paddr (txbuffs p)" and ?r = "paddr (rxbuffs p)" and ?x = "a - vaddr (txbuffs p)"
  assume x: "unat ?x < 32768"
  have e: "a - vaddr (rxbuffs p) = ?x + ?t - ?r" by (simp add: assms(4,5) sos_dma_phys_to_virt_def)
  have s: "unat (?x + ?t) = unat ?x + unat ?t" using x assms(6) unat_plus_if' [of ?x ?t] by simp
  have "unat ?t + 32768 \<le> unat ?r \<or> unat ?r + 32768 \<le> unat ?t" using assms(1-3) by (simp add: apart_def)
  then show "\<not> unat (a - vaddr (rxbuffs p)) < 32768" unfolding e
    using s x assms(7) unat_sub_if' [of "?x + ?t" ?r] by (auto simp: word_le_nat_alt)
qed

section \<open>A step on one ring keeps the other\<close>

text \<open>What keeps a ring: its part of the driver and of RAM stays, and no memory of the processor is unmapped.\<close>

definition keeps_tx :: "'d eth_sys \<Rightarrow> 'd eth_sys \<Rightarrow> bool" where
  "keeps_tx s s' \<longleftrightarrow> eth_regions (priv s') = eth_regions (priv s) \<and> tx_currdescnum (priv s') = tx_currdescnum (priv s) \<and> tx_cpu s' = tx_cpu s \<and> tx_ram s' = tx_ram s
     \<and> (\<forall>a. unat (a - vaddr (txbuffs (priv s))) < 32768 \<longrightarrow> (cpu s a \<noteq> None \<longrightarrow> cpu s' a \<noteq> None) \<and> ram s' a = ram s a)"

definition keeps_rx :: "'d eth_sys \<Rightarrow> 'd eth_sys \<Rightarrow> bool" where
  "keeps_rx s s' \<longleftrightarrow> eth_regions (priv s') = eth_regions (priv s) \<and> rx_currdescnum (priv s') = rx_currdescnum (priv s) \<and> rx_cpu s' = rx_cpu s \<and> rx_ram s' = rx_ram s
     \<and> (\<forall>a. unat (a - vaddr (rxbuffs (priv s))) < 32768 \<longrightarrow> (cpu s a \<noteq> None \<longrightarrow> cpu s' a \<noteq> None) \<and> ram s' a = ram s a)"

lemma buffers_ok_mono:
  assumes "buffers_ok b m" and "\<And>a. unat (a - vaddr b) < 32768 \<Longrightarrow> m a \<noteq> None \<Longrightarrow> m' a \<noteq> None"
  shows "buffers_ok b m'"
  using assms(1) assms(2) [OF buffer_in_region] by (simp add: buffers_ok_def readable_def)

lemma buffer_load_eq:
  assumes "\<And>a. unat (a - vaddr b) < 32768 \<Longrightarrow> m' a = m a" and "i < 16" and "n \<le> 2048"
  shows "load_bytes m' (buffer b i) n = load_bytes m (buffer b i) n"
  using assms buffer_in_region [of i] by (intro load_bytes_cong) simp

lemma keeps_tx_queue:
  assumes "tx.queue_is dma (s, h) q" and "keeps_tx s s'"
  shows "tx.queue_is dma (s', h) q"
proof -
  have k: "tx_mac_descrtable (priv s') = tx_mac_descrtable (priv s)" "txbuffs (priv s') = txbuffs (priv s)" "tx_currdescnum (priv s') = tx_currdescnum (priv s)"
    "tx_cpu s' = tx_cpu s" "tx_ram s' = tx_ram s"
    and m: "\<And>a. unat (a - vaddr (txbuffs (priv s))) < 32768 \<Longrightarrow> cpu s a \<noteq> None \<Longrightarrow> cpu s' a \<noteq> None"
    "\<And>a. unat (a - vaddr (txbuffs (priv s))) < 32768 \<Longrightarrow> ram s' a = ram s a"
    using assms(2) by (auto simp: keeps_tx_def eth_regions_def)
  have ok: "tx_ok dma (s, h)" using assms(1) unfolding tx.queue_is_def by blast
  then have "tx_ok dma (s', h)" using buffers_ok_mono [of "txbuffs (priv s)" "cpu s" "cpu s'"] buffers_ok_mono [of "txbuffs (priv s)" "ram s" "ram s'"] m by (simp add: k)
  moreover have "tx_slot (s', h) = tx_slot (s, h)"
    using buffer_load_eq [OF m(2) _ le_trans [OF size1_le]] by (auto simp: fun_eq_iff k)
  moreover have "tx_prod (s', h) = tx_prod (s, h)" by (simp add: k)
  ultimately show ?thesis using assms(1) by (simp add: tx.queue_is_def del: tx_ok.simps tx_slot.simps tx_prod.simps)
qed

lemma keeps_rx_queue:
  assumes "rx.queue_is dma (s, h) q" and "keeps_rx s s'"
  shows "rx.queue_is dma (s', h) q"
proof -
  have k: "rx_mac_descrtable (priv s') = rx_mac_descrtable (priv s)" "rxbuffs (priv s') = rxbuffs (priv s)" "rx_currdescnum (priv s') = rx_currdescnum (priv s)"
    "rx_cpu s' = rx_cpu s" "rx_ram s' = rx_ram s"
    and m: "\<And>a. unat (a - vaddr (rxbuffs (priv s))) < 32768 \<Longrightarrow> cpu s a \<noteq> None \<Longrightarrow> cpu s' a \<noteq> None"
    "\<And>a. unat (a - vaddr (rxbuffs (priv s))) < 32768 \<Longrightarrow> ram s' a = ram s a"
    using assms(2) by (auto simp: keeps_rx_def eth_regions_def)
  have ok: "rx_ok dma (s, h)" using assms(1) unfolding rx.queue_is_def by blast
  then have "rx_ok dma (s', h)" using buffers_ok_mono [of "rxbuffs (priv s)" "cpu s" "cpu s'"] buffers_ok_mono [of "rxbuffs (priv s)" "ram s" "ram s'"] m by (simp add: k)
  moreover have "rx_slot (s', h) = rx_slot (s, h)"
    using buffer_load_eq [OF m(2)] ok by (auto simp: fun_eq_iff k)
  moreover have "rx_cons (s', h) = rx_cons (s, h)" by (simp add: k)
  ultimately show ?thesis using assms(1) by (simp add: rx.queue_is_def del: rx_ok.simps rx_slot.simps rx_cons.simps)
qed

lemma store_bytes_mapped: "store_bytes m a bs = Some m' \<Longrightarrow> m x \<noteq> None \<Longrightarrow> m' x \<noteq> None"
  by (induction bs arbitrary: m a) (auto elim!: bind_SomeE split: if_splits)

lemma memcpy_mapped: "memcpy a p n m = Some m' \<Longrightarrow> m x \<noteq> None \<Longrightarrow> m' x \<noteq> None"
  by (auto simp: memcpy_def elim!: bind_SomeE dest: store_bytes_mapped)

lemma put_mapped: "m x \<noteq> None \<Longrightarrow> put a bs m x \<noteq> None"
  by (simp add: put_def)

lemma in_buffer_region:
  assumes "i < 16" and "unat (a - buffer b i) < 2048"
  shows "unat (a - vaddr b) < 32768"
  using buffer_in_region [of i "unat (a - buffer b i)" b] assms by simp

lemma tx_driver_keeps_rx:
  assumes "tx_ok dma (s, h)" and "tx_good e" and "tx_prod (s, h) < 16" and "bufs_apart (priv s)" and "tx_driver H dma e (s, h) = Some (b, s', h')"
  shows "keeps_rx s s'"
proof -
  obtain p bs pad where e: "e = (p, bs, pad)" by (cases e)
  let ?i = "tx_prod (s, h)" and ?b = "txbuffs (priv s)" and ?s = "s\<lparr>cpu := put p (bs @ pad) (cpu s)\<rparr>"
  let ?v = "buffer ?b ?i"
  have n: "length bs < 2048" using assms(2) by (simp add: e)
  obtain r where r: "roundup (int (length bs)) (int ARCH_DMA_MINALIGN) = Some (int r)" "r \<le> 2048" using roundup_64 [OF n] by metis
  have ur: "unat (of_nat r :: u64) = r" using r(2) by (intro unat_of_nat_u64) simp
  have l: "length (tx_cpu s) = 16" "length (tx_ram s) = 16" using assms(1) table_ok_length by auto
  have v: "sos_dma_phys_to_virt dma (ucast (dmamac_addr (tx_cpu s ! ?i))) = ?v"
    using buffer_of [OF chained_nth, of _ ?b "tx_cpu s" ?i dma] assms(1,3) by auto
  have far: "\<not> unat (a - ?v) < r" if "unat (a - vaddr (rxbuffs (priv s))) < 32768" for a
    using that assms(3,4) r(2) in_buffer_region [of ?i a ?b] unfolding bufs_apart_def by fastforce
  obtain ret where "dw_eth_send H dma p (int (length bs)) ?s = Some (ret, s')"
    using assms(5) n by (auto simp: e pico_eth_send_def ethif_send_def send_len elim!: bind_SomeE split: if_splits)
  moreover have "\<exists>z. m a = Some z" if "memcpy ?v p k (put p (bs @ pad) (cpu s)) = Some m" and "cpu s a = Some y" for m a y k
    using memcpy_mapped [OF that(1), of a] put_mapped [of "cpu s" a p "bs @ pad"] that(2) by auto
  moreover have "\<exists>z. put p (bs @ pad) (cpu s) a = Some z" if "cpu s a = Some y" for a y using put_mapped [of "cpu s" a p "bs @ pad"] that by auto
  ultimately show ?thesis using l v r(1) assms(3) far
    by (auto simp: dw_eth_send_def Let_def invalidate_tx_def flush_tx_def wrl_def flush_dcache_range_def keeps_rx_def eth_regions_def word_less_nat_alt ur
          elim!: bind_SomeE split: if_splits)
qed

lemma tx_device_keeps_rx: "tx_device dma st (s, h) = Some (f, s', h') \<Longrightarrow> keeps_rx s s'"
  by (auto simp: keeps_rx_def eth_regions_def elim!: bind_SomeE split: if_splits)

lemma rx_device_keeps_tx:
  assumes "rx_ok dma (s, h)" and "rx_good e" and "h < 16" and "bufs_apart (priv s)" and "rx_device dma e (s, h) = Some (b, s', h')"
  shows "keeps_tx s s'"
proof -
  obtain f st where e: "e = (f, st)" by (cases e)
  let ?b = "rxbuffs (priv s)"
  have f: "length f \<le> 2048" using assms(2) by (simp add: e MAC_MAX_FRAME_SZ_def)
  have l: "length (rx_ram s) = 16" using assms(1) table_ok_length by auto
  have v: "sos_dma_phys_to_virt dma (ucast (dmamac_addr (rx_ram s ! h))) = buffer ?b h"
    using buffer_of [OF chained_nth, of _ ?b "rx_ram s" h dma] assms(1,3) by auto
  have "readable (ram s) (buffer ?b h) (length f)" using assms(1,3) f readable_part [of "ram s" "buffer ?b h" 2048 0 "length f"] by (simp add: buffers_ok_def)
  then have st: "store_bytes (ram s) (buffer ?b h) f = Some (put (buffer ?b h) f (ram s))" using f by (intro store_bytes_put) auto
  have far: "\<not> unat (a - buffer ?b h) < length f" if "unat (a - vaddr (txbuffs (priv s))) < 32768" for a
    using that assms(3,4) f in_buffer_region [of h a ?b] unfolding bufs_apart_def by fastforce
  show ?thesis using assms(3,5) l v st far by (auto simp: e keeps_tx_def eth_regions_def put_def elim!: bind_SomeE split: if_splits)
qed

lemma rx_driver_keeps_tx:
  assumes "rx_driver dma u (s, h) = Some (f, s', h')" and "rx_ok dma (s, h)" and "rx_cons (s, h) < 16" and "bufs_apart (priv s)"
  shows "keeps_tx s s'"
proof -
  let ?i = "rx_cons (s, h)" and ?b = "rxbuffs (priv s)"
  let ?d = "rx_ram s ! ?i"
  have l: "length (rx_cpu s) = 16" "length (rx_ram s) = 16" using assms(2) table_ok_length by auto
  have v: "sos_dma_phys_to_virt dma (ucast (dmamac_addr (rx_cpu s ! ?i))) = buffer ?b ?i"
    using buffer_of [OF chained_nth, of _ ?b "rx_cpu s" ?i dma] assms(2,3) by auto
  have u: "uint (drop_bit 16 (txrx_status ?d AND DESC_RXSTS_FRMLENMSK)) = int (rx_len (txrx_status ?d))" by (simp add: rx_len_def)
  obtain len p s1 where "dw_eth_recv dma s = Some (len, p, s1)" and *: "s' = s1 \<or> dw_free_pkt s1 = Some s'"
    using assms(1) by (auto simp: ethif_recv_def eth_recv_def elim!: bind_SomeE split: if_splits)
  moreover have "keeps_tx s s1" if recv: "dw_eth_recv dma s = Some (len, p, s1)"
  proof (cases "txrx_status ?d AND DESC_RXSTS_OWNBYDMA = 0")
    case True
    then have "rx_len (txrx_status ?d) < 2048" using assms(2,3) by simp
    then obtain r where r: "roundup (int (rx_len (txrx_status ?d))) (int ARCH_DMA_MINALIGN) = Some (int r)" "r \<le> 2048" using roundup_64 by metis
    have ur: "unat (of_nat r :: u64) = r" using r(2) by (intro unat_of_nat_u64) simp
    have far: "\<not> unat (a - buffer ?b ?i) < r" if "unat (a - vaddr (txbuffs (priv s))) < 32768" for a
      using that assms(3,4) r(2) in_buffer_region [of ?i a ?b] unfolding bufs_apart_def by fastforce
    with recv show ?thesis using True l v u r(1) assms(3)
      by (auto simp: dw_eth_recv_def Let_def invalidate_rx_def invalidate_dcache_range_def keeps_tx_def eth_regions_def word_less_nat_alt ur)
  next
    case False
    with recv show ?thesis using l assms(3) by (auto simp: dw_eth_recv_def Let_def invalidate_rx_def keeps_tx_def eth_regions_def)
  qed
  moreover have "keeps_tx s s'" if "keeps_tx s s1"
    using that * by (auto simp: dw_free_pkt_def flush_rx_def Let_def keeps_tx_def eth_regions_def elim!: bind_SomeE)
  ultimately show ?thesis by blast
qed

lemma eth_other_keeps: "keeps_tx s (eth_other x s)" "keeps_rx s (eth_other x s)"
  by (cases x; simp add: keeps_tx_def keeps_rx_def eth_other_def Let_def)+

section \<open>Two queues at once\<close>

definition eth_queues :: "dma_t \<Rightarrow> 'd eth_sys \<times> nat \<times> nat \<Rightarrow> byte list list \<Rightarrow> byte list list \<Rightarrow> bool" where
  "eth_queues dma = (\<lambda>(s, t, r) q p. tx.queue_is dma (s, t) q \<and> rx.queue_is dma (s, r) p \<and> bufs_apart (priv s))"

lemma bufs_apart_keeps:
  "keeps_tx s s' \<Longrightarrow> bufs_apart (priv s') = bufs_apart (priv s)" "keeps_rx s s' \<Longrightarrow> bufs_apart (priv s') = bufs_apart (priv s)"
  by (auto simp: keeps_tx_def keeps_rx_def eth_regions_def bufs_apart_def)

lemma eth_send_step:
  assumes "eth_queues dma (s, t, r) q p" and "tx_good e"
  shows "\<exists>s' t'. tx_driver H dma e (s, t) = Some (length q < CONFIG_TX_DESCR_NUM, s', t')
     \<and> eth_queues dma (s', t', r) (if length q < CONFIG_TX_DESCR_NUM then q @ [tx_frame e] else q) p"
proof -
  have k: "tx.queue_is dma (s, t) q" "rx.queue_is dma (s, r) p" "bufs_apart (priv s)" using assms(1) by (simp_all add: eth_queues_def)
  from tx.queue_put [OF k(1) assms(2), of H] obtain s' t' where
    1: "tx_driver H dma e (s, t) = Some (length q < CONFIG_TX_DESCR_NUM, s', t')" "tx.queue_is dma (s', t') (if length q < CONFIG_TX_DESCR_NUM then q @ [tx_frame e] else q)"
    by (metis surj_pair)
  have "tx_ok dma (s, t)" "tx_prod (s, t) < 16" using k(1) unfolding tx.queue_is_def ring_holds_def by (auto simp: CONFIG_TX_DESCR_NUM_def)
  then have "keeps_rx s s'" using tx_driver_keeps_rx [OF _ assms(2) _ k(3) 1(1)] by blast
  with 1 k keeps_rx_queue bufs_apart_keeps(2) show ?thesis by (fastforce simp: eth_queues_def)
qed

lemma eth_sent_step:
  assumes "eth_queues dma (s, t, r) q p"
  shows "\<exists>s' t'. tx_device dma st (s, t) = Some (case q of [] \<Rightarrow> None | x # _ \<Rightarrow> Some x, s', t') \<and> eth_queues dma (s', t', r) (tl q) p"
proof -
  have k: "tx.queue_is dma (s, t) q" "rx.queue_is dma (s, r) p" "bufs_apart (priv s)" using assms(1) by (simp_all add: eth_queues_def)
  from tx.queue_get [OF k(1), of st] obtain s' t' where
    1: "tx_device dma st (s, t) = Some (case q of [] \<Rightarrow> None | x # _ \<Rightarrow> Some x, s', t')" "tx.queue_is dma (s', t') (tl q)" by (metis surj_pair)
  from tx_device_keeps_rx [OF 1(1)] 1 k keeps_rx_queue bufs_apart_keeps(2) show ?thesis by (fastforce simp: eth_queues_def)
qed

lemma eth_arrive_step:
  assumes "eth_queues dma (s, t, r) q p" and "rx_good e"
  shows "\<exists>s' r'. rx_device dma e (s, r) = Some (length p < CONFIG_RX_DESCR_NUM, s', r')
     \<and> eth_queues dma (s', t, r') q (if length p < CONFIG_RX_DESCR_NUM then p @ [fst e] else p)"
proof -
  have k: "tx.queue_is dma (s, t) q" "rx.queue_is dma (s, r) p" "bufs_apart (priv s)" using assms(1) by (simp_all add: eth_queues_def)
  from rx.queue_put [OF k(2) assms(2)] obtain s' r' where
    1: "rx_device dma e (s, r) = Some (length p < CONFIG_RX_DESCR_NUM, s', r')" "rx.queue_is dma (s', r') (if length p < CONFIG_RX_DESCR_NUM then p @ [fst e] else p)"
    by (metis surj_pair)
  have "rx_ok dma (s, r)" "r < 16" using k(2) unfolding rx.queue_is_def ring_holds_def by (auto simp: CONFIG_RX_DESCR_NUM_def)
  then have "keeps_tx s s'" using rx_device_keeps_tx [OF _ assms(2) _ k(3) 1(1)] by blast
  with 1 k keeps_tx_queue bufs_apart_keeps(1) show ?thesis by (fastforce simp: eth_queues_def)
qed

lemma eth_receive_step:
  assumes "eth_queues dma (s, t, r) q p"
  shows "\<exists>s' r'. rx_driver dma u (s, r) = Some (case p of [] \<Rightarrow> None | x # _ \<Rightarrow> Some x, s', r') \<and> eth_queues dma (s', t, r') q (tl p)"
proof -
  have k: "tx.queue_is dma (s, t) q" "rx.queue_is dma (s, r) p" "bufs_apart (priv s)" using assms(1) by (simp_all add: eth_queues_def)
  from rx.queue_get [OF k(2), of u] obtain s' r' where
    1: "rx_driver dma u (s, r) = Some (case p of [] \<Rightarrow> None | x # _ \<Rightarrow> Some x, s', r')" "rx.queue_is dma (s', r') (tl p)" by (metis surj_pair)
  have "rx_ok dma (s, r)" "rx_cons (s, r) < 16" using k(2) unfolding rx.queue_is_def ring_holds_def by (auto simp: CONFIG_RX_DESCR_NUM_def)
  then have "keeps_tx s s'" using rx_driver_keeps_tx [OF 1(1) _ _ k(3)] by blast
  with 1 k keeps_tx_queue bufs_apart_keeps(1) show ?thesis by (fastforce simp: eth_queues_def)
qed

lemma eth_elsewhere_step: "eth_queues dma (s, t, r) q p \<Longrightarrow> eth_queues dma (eth_other x s, t, r) q p"
  using eth_other_keeps [of s x] keeps_tx_queue keeps_rx_queue bufs_apart_keeps(1) by (fastforce simp: eth_queues_def)

text \<open>Every run returns; each ring answers its own events as a queue does, whatever happens on the other.\<close>

lemma eth_run_queues:
  assumes "eth_queues dma (s, t, r) q p" and "\<And>e. Send e \<in> set es \<Longrightarrow> tx_good e" and "\<And>e. Arrive e \<in> set es \<Longrightarrow> rx_good e"
  shows "\<exists>w. eth_run H dma es (s, t, r) = Some (fifo_run CONFIG_TX_DESCR_NUM tx_frame (tx_events es) q, fifo_run CONFIG_RX_DESCR_NUM fst (rx_events es) p, w)
     \<and> eth_queues dma w (fifo_queue CONFIG_TX_DESCR_NUM tx_frame (tx_events es) q) (fifo_queue CONFIG_RX_DESCR_NUM fst (rx_events es) p)"
  using assms
proof (induction es arbitrary: s t r q p)
  case (Cons e es)
  have IH: "\<exists>w. eth_run H dma es (s, t, r) = Some (fifo_run CONFIG_TX_DESCR_NUM tx_frame (tx_events es) q, fifo_run CONFIG_RX_DESCR_NUM fst (rx_events es) p, w)
      \<and> eth_queues dma w (fifo_queue CONFIG_TX_DESCR_NUM tx_frame (tx_events es) q) (fifo_queue CONFIG_RX_DESCR_NUM fst (rx_events es) p)"
    if "eth_queues dma (s, t, r) q p" for s t r q p using Cons.IH [OF that] Cons.prems(2,3) by simp
  note q = Cons.prems(1)
  show ?case
  proof (cases e)
    case (Send x)
    with eth_send_step [OF q, of x H] Cons.prems(2) obtain s' t' where 1: "tx_driver H dma x (s, t) = Some (length q < CONFIG_TX_DESCR_NUM, s', t')"
      "eth_queues dma (s', t', r) (if length q < CONFIG_TX_DESCR_NUM then q @ [tx_frame x] else q) p" by auto
    from IH [OF 1(2)] 1(1) Send show ?thesis by (auto split: if_splits)
  next
    case (Sent x)
    from eth_sent_step [OF q, of x] obtain s' t' where 1: "tx_device dma x (s, t) = Some (case q of [] \<Rightarrow> None | x # _ \<Rightarrow> Some x, s', t')"
      "eth_queues dma (s', t', r) (tl q) p" by blast
    from IH [OF 1(2)] 1(1) Sent show ?thesis by (cases q) auto
  next
    case (Arrive x)
    with eth_arrive_step [OF q, of x] Cons.prems(3) obtain s' r' where 1: "rx_device dma x (s, r) = Some (length p < CONFIG_RX_DESCR_NUM, s', r')"
      "eth_queues dma (s', t, r') q (if length p < CONFIG_RX_DESCR_NUM then p @ [fst x] else p)" by auto
    from IH [OF 1(2)] 1(1) Arrive show ?thesis by (auto split: if_splits)
  next
    case Receive
    from eth_receive_step [OF q, of "()"] obtain s' r' where 1: "rx_driver dma () (s, r) = Some (case p of [] \<Rightarrow> None | x # _ \<Rightarrow> Some x, s', r')"
      "eth_queues dma (s', t, r') q (tl p)" by blast
    from IH [OF 1(2)] 1(1) Receive show ?thesis by (cases p) auto
  next
    case (Elsewhere x)
    from IH [OF eth_elsewhere_step [OF q, of x]] Elsewhere show ?thesis by simp
  qed
qed simp

end
