(* ===== verification/Eth_Init.thy ===== *)
theory Eth_Init
  imports Eth_Both
begin

text \<open>
  How the Ethernet driver gets its memory from the DMA pool of SOS: \<open>ethif_dma_malloc\<close> of \<open>sos/src/network.c\<close>, and the part of \<open>designware_initialize\<close> that allocates and clears the descriptor
  tables and the buffers. The pool gives what the rings need, and \<open>dw_eth_init\<close> leaves both rings empty.
\<close>

section \<open>The functions\<close>

definition ethif_dma_malloc :: "'w kernel \<Rightarrow> u32 \<Rightarrow> u32 \<Rightarrow> dma_t \<Rightarrow> 'w \<Rightarrow> (ethif_dma_addr_t \<times> dma_t \<times> 'w) option" where
  "ethif_dma_malloc K size_b align d w = do {
     (addr, d, w) \<leftarrow> sos_dma_malloc K (ucast size_b) (sint align) d w;
     Some (\<lparr>vaddr = da_vaddr addr, paddr = da_paddr addr, dsize = ucast size_b\<rparr>, d, w)
   }"

definition zero_descr :: dmamacdescr where
  "zero_descr = \<lparr>txrx_status = 0, dmamac_cntl = 0, dmamac_addr = 0, dmamac_next = 0\<rparr>"

text \<open>A descriptor has 64 bytes with its padding.\<close>

definition designware_memory :: "'w kernel \<Rightarrow> dma_t \<Rightarrow> 'd eth_sys \<Rightarrow> 'w \<Rightarrow> (int \<times> 'd eth_sys \<times> dma_t \<times> 'w) option" where
  "designware_memory K d s w = do {
     let minalign = of_nat ARCH_DMA_MINALIGN;
     (tt, d, w) \<leftarrow> ethif_dma_malloc K (of_nat (64 * CONFIG_TX_DESCR_NUM)) minalign d w;
     (rt, d, w) \<leftarrow> ethif_dma_malloc K (of_nat (64 * CONFIG_RX_DESCR_NUM)) minalign d w;
     let s = s\<lparr>priv := (priv s)\<lparr>tx_mac_descrtable := tt, rx_mac_descrtable := rt\<rparr>\<rparr>;
     if vaddr tt = 0 \<or> paddr tt = 0 \<or> vaddr rt = 0 \<or> paddr rt = 0 then Some (- ENOMEM, s, d, w)
     else do {
       (tb, d, w) \<leftarrow> ethif_dma_malloc K (of_nat (CONFIG_ETH_BUFSIZE * CONFIG_TX_DESCR_NUM)) minalign d w;
       (rb, d, w) \<leftarrow> ethif_dma_malloc K (of_nat (CONFIG_ETH_BUFSIZE * CONFIG_RX_DESCR_NUM)) minalign d w;
       let s = s\<lparr>priv := (priv s)\<lparr>txbuffs := tb, rxbuffs := rb\<rparr>\<rparr>;
       if vaddr tb = 0 \<or> paddr tb = 0 \<or> vaddr rb = 0 \<or> paddr rb = 0 then Some (- ENOMEM, s, d, w)
       else do {
         let s = s\<lparr>tx_cpu := replicate CONFIG_TX_DESCR_NUM zero_descr, rx_cpu := replicate CONFIG_RX_DESCR_NUM zero_descr\<rparr>;
         m \<leftarrow> memset (vaddr tb) 0 (unat (dsize tb)) (cpu s);
         m \<leftarrow> memset (vaddr rb) 0 (unat (dsize rb)) m;
         Some (0, s\<lparr>cpu := m\<rparr>, d, w)
       }
     }
   }"

section \<open>The memory fits the rings\<close>

text \<open>The pool: below 4 GiB, and mapped where the processor and the controller see it.\<close>

definition pool_ok :: "dma_t \<Rightarrow> bool" where
  "pool_ok d \<longleftrightarrow> 0 < unat (pstart d) \<and> unat (pstart d) \<le> unat (pnext d) \<and> unat (pend d) \<le> 2 ^ 32 \<and> unat (vstart d) + 2 ^ 32 < 2 ^ 64 \<and> 0 < unat (vstart d)"

definition pool_mapped :: "dma_t \<Rightarrow> mem \<Rightarrow> bool" where
  "pool_mapped d m \<longleftrightarrow> (\<forall>a. unat (a - vstart d) < unat (pend d) - unat (pstart d) \<longrightarrow> m a \<noteq> None)"

lemma ethif_dma_malloc_grants:
  assumes "pool_ok d" and "unat (pnext d) + 71 + n \<le> unat (pend d)" and "n < 2 ^ 31"
  shows "\<exists>p w'. ethif_dma_malloc K (of_nat n) (of_nat ARCH_DMA_MINALIGN) d w =
       Some (\<lparr>vaddr = sos_dma_phys_to_virt d p, paddr = p, dsize = of_nat n\<rparr>, d\<lparr>pnext := p + of_nat n\<rparr>, w')
     \<and> unat (pnext d) \<le> unat p \<and> unat p < unat (pnext d) + 71 \<and> unat (p + of_nat n) = unat p + n"
proof -
  have "(ucast v :: u64) = of_nat (unat v)" for v :: u32 by simp
  moreover have "unat (of_nat n :: u32) = n" using assms(3) by (simp add: unat_of_nat)
  ultimately have u: "(ucast (of_nat n :: u32) :: u64) = of_nat n" by (simp only:)
  have un: "unat (of_nat n :: u64) = n" using assms(3) by (intro unat_of_nat_u64) simp
  have a: "sint (of_nat ARCH_DMA_MINALIGN :: u32) = 64" by (simp add: ARCH_DMA_MINALIGN_def)
  have req: "dma_request_ok (of_nat n, 64)" using un assms(3) by (simp add: dma_request_ok_def)
  have room: "unat (pnext d) + 2 ^ 32 \<le> 2 ^ 63" "0 < unat (pnext d)" "unat (pnext d) + 7 + nat 64 + unat (of_nat n :: u64) \<le> unat (pend d)"
    using assms un by (auto simp: pool_ok_def)
  from dma_malloc_grants [OF req room, of K w] obtain p w' where
    p: "sos_dma_malloc K (of_nat n) 64 d w = Some (\<lparr>da_vaddr = sos_dma_phys_to_virt d p, da_paddr = p\<rparr>, d\<lparr>pnext := p + of_nat n\<rparr>, w')"
      "unat (pnext d) \<le> unat p" "unat p < unat (pnext d) + 7 + nat 64" by blast
  have "unat (p + of_nat n) = unat p + n" using p(3) assms un by (simp add: unat_plus_if' pool_ok_def)
  with p show ?thesis by (simp add: ethif_dma_malloc_def u a)
qed

lemma pool_ok_next: "pool_ok d \<Longrightarrow> unat (pnext d) \<le> unat q \<Longrightarrow> pool_ok (d\<lparr>pnext := q\<rparr>)"
  by (simp add: pool_ok_def)

lemma phys_to_virt_next [simp]: "sos_dma_phys_to_virt (d\<lparr>pnext := q\<rparr>) p = sos_dma_phys_to_virt d p"
  by (simp add: sos_dma_phys_to_virt_def)

lemma region_mapped:
  assumes "pool_ok d" and "pool_mapped d m" and "unat (pstart d) \<le> unat p" and "unat p + 32768 \<le> unat (pend d)"
  shows "sos_dma_phys_to_virt d p \<noteq> 0" and "readable m (sos_dma_phys_to_virt d p) 32768" and "vaddr b = sos_dma_phys_to_virt d p \<Longrightarrow> buffers_ok b m"
proof -
  let ?v = "sos_dma_phys_to_virt d p"
  have o: "unat (p - pstart d) = unat p - unat (pstart d)" using assms(3) by (simp add: unat_sub word_le_nat_alt)
  have pe: "unat (pend d) \<le> 4294967296" "unat (vstart d) + 4294967296 < 2 ^ 64" using assms(1) by (simp_all add: pool_ok_def)
  have "unat p \<le> 4294967296" using pe(1) assms(4) by simp
  then have small: "unat p - unat (pstart d) \<le> 4294967296" by simp
  then have "unat (vstart d) + (unat p - unat (pstart d)) < 2 ^ 64" using pe(2) by simp
  then have "unat ?v = unat (vstart d) + (unat p - unat (pstart d))"
    using o unat_plus_if' [of "vstart d" "p - pstart d"] by (simp add: sos_dma_phys_to_virt_def)
  then show "?v \<noteq> 0" using assms(1) by (auto simp: pool_ok_def)
  show r: "readable m ?v 32768" unfolding readable_def
  proof (intro allI impI)
    fix i :: nat
    assume i: "i < 32768"
    have ui: "unat (of_nat i :: u64) = i" using i by (intro unat_of_nat_u64) simp
    have e: "?v + of_nat i - vstart d = (p - pstart d) + of_nat i" by (simp add: sos_dma_phys_to_virt_def)
    have "unat ((p - pstart d) + of_nat i) = unat p - unat (pstart d) + i"
      using o ui i small unat_plus_if' [of "p - pstart d" "of_nat i"] by simp
    then have "unat (?v + of_nat i - vstart d) < unat (pend d) - unat (pstart d)" unfolding e using i assms(3,4) by simp
    then show "m (?v + of_nat i) \<noteq> None" using assms(2) unfolding pool_mapped_def by blast
  qed
  show "buffers_ok b m" if b: "vaddr b = ?v" unfolding buffers_ok_def buffer_def b
    using readable_part [OF r, of "i * 2048" 2048 for i] by simp
qed

lemma region_okI:
  assumes "pool_ok d" and "unat pt + 1024 \<le> unat (pend d)" and "unat pb + 32768 \<le> unat (pend d)"
  shows "region_ok d \<lparr>vaddr = v, paddr = pt, dsize = n\<rparr> \<lparr>vaddr = sos_dma_phys_to_virt d pb, paddr = pb, dsize = k\<rparr>"
  using assms by (simp add: region_ok_def pool_ok_def)

lemma four_grants:
  assumes "pool_ok d" and "unat (pnext d) + 67868 \<le> unat (pend d)"
  obtains p1 w1 p2 w2 p3 w3 p4 w4 where
    "ethif_dma_malloc K (of_nat 1024) (of_nat ARCH_DMA_MINALIGN) d w = Some (\<lparr>vaddr = sos_dma_phys_to_virt d p1, paddr = p1, dsize = of_nat 1024\<rparr>, d\<lparr>pnext := p1 + of_nat 1024\<rparr>, w1)"
    "ethif_dma_malloc K (of_nat 1024) (of_nat ARCH_DMA_MINALIGN) (d\<lparr>pnext := p1 + of_nat 1024\<rparr>) w1 =
      Some (\<lparr>vaddr = sos_dma_phys_to_virt d p2, paddr = p2, dsize = of_nat 1024\<rparr>, d\<lparr>pnext := p2 + of_nat 1024\<rparr>, w2)"
    "ethif_dma_malloc K (of_nat 32768) (of_nat ARCH_DMA_MINALIGN) (d\<lparr>pnext := p2 + of_nat 1024\<rparr>) w2 =
      Some (\<lparr>vaddr = sos_dma_phys_to_virt d p3, paddr = p3, dsize = of_nat 32768\<rparr>, d\<lparr>pnext := p3 + of_nat 32768\<rparr>, w3)"
    "ethif_dma_malloc K (of_nat 32768) (of_nat ARCH_DMA_MINALIGN) (d\<lparr>pnext := p3 + of_nat 32768\<rparr>) w3 =
      Some (\<lparr>vaddr = sos_dma_phys_to_virt d p4, paddr = p4, dsize = of_nat 32768\<rparr>, d\<lparr>pnext := p4 + of_nat 32768\<rparr>, w4)"
    "unat (pnext d) \<le> unat p1" "unat p1 + 1024 \<le> unat p2" "unat p2 + 1024 \<le> unat p3" "unat p3 + 32768 \<le> unat p4" "unat (p4 + of_nat 32768) = unat p4 + 32768"
    "unat p4 + 32768 \<le> unat (pend d)"
proof -
  let ?a = "of_nat ARCH_DMA_MINALIGN :: u32"
  have grant: "\<exists>p w'. ethif_dma_malloc K (of_nat n) ?a (d\<lparr>pnext := q\<rparr>) w =
       Some (\<lparr>vaddr = sos_dma_phys_to_virt d p, paddr = p, dsize = of_nat n\<rparr>, d\<lparr>pnext := p + of_nat n\<rparr>, w')
     \<and> unat q \<le> unat p \<and> unat p < unat q + 71 \<and> unat (p + of_nat n) = unat p + n"
    if "unat (pnext d) \<le> unat q" "unat q + 71 + n \<le> unat (pend d)" "n < 2 ^ 31" for n q w
    using ethif_dma_malloc_grants [OF pool_ok_next [OF assms(1) that(1)], of n K w] that(2,3) by simp
  obtain p1 w1 where 1: "ethif_dma_malloc K (of_nat 1024) ?a d w = Some (\<lparr>vaddr = sos_dma_phys_to_virt d p1, paddr = p1, dsize = of_nat 1024\<rparr>, d\<lparr>pnext := p1 + of_nat 1024\<rparr>, w1)"
    "unat (pnext d) \<le> unat p1" "unat p1 < unat (pnext d) + 71" "unat (p1 + of_nat 1024) = unat p1 + 1024"
    using ethif_dma_malloc_grants [OF assms(1), of 1024 K w] assms(2) by auto
  obtain p2 w2 where 2: "ethif_dma_malloc K (of_nat 1024) ?a (d\<lparr>pnext := p1 + of_nat 1024\<rparr>) w1 =
      Some (\<lparr>vaddr = sos_dma_phys_to_virt d p2, paddr = p2, dsize = of_nat 1024\<rparr>, d\<lparr>pnext := p2 + of_nat 1024\<rparr>, w2)"
    "unat (p1 + of_nat 1024) \<le> unat p2" "unat p2 < unat (p1 + of_nat 1024) + 71" "unat (p2 + of_nat 1024) = unat p2 + 1024"
    using grant [of "p1 + of_nat 1024" 1024 w1] 1(2-4) assms(2) by auto
  obtain p3 w3 where 3: "ethif_dma_malloc K (of_nat 32768) ?a (d\<lparr>pnext := p2 + of_nat 1024\<rparr>) w2 =
      Some (\<lparr>vaddr = sos_dma_phys_to_virt d p3, paddr = p3, dsize = of_nat 32768\<rparr>, d\<lparr>pnext := p3 + of_nat 32768\<rparr>, w3)"
    "unat (p2 + of_nat 1024) \<le> unat p3" "unat p3 < unat (p2 + of_nat 1024) + 71" "unat (p3 + of_nat 32768) = unat p3 + 32768"
    using grant [of "p2 + of_nat 1024" 32768 w2] 1(2-4) 2(2-4) assms(2) by auto
  obtain p4 w4 where 4: "ethif_dma_malloc K (of_nat 32768) ?a (d\<lparr>pnext := p3 + of_nat 32768\<rparr>) w3 =
      Some (\<lparr>vaddr = sos_dma_phys_to_virt d p4, paddr = p4, dsize = of_nat 32768\<rparr>, d\<lparr>pnext := p4 + of_nat 32768\<rparr>, w4)"
    "unat (p3 + of_nat 32768) \<le> unat p4" "unat p4 < unat (p3 + of_nat 32768) + 71" "unat (p4 + of_nat 32768) = unat p4 + 32768"
    using grant [of "p3 + of_nat 32768" 32768 w3] 1(2-4) 2(2-4) 3(2-4) assms(2) by auto
  have "unat p1 + 1024 \<le> unat p2" "unat p2 + 1024 \<le> unat p3" "unat p3 + 32768 \<le> unat p4" "unat p4 + 32768 \<le> unat (pend d)"
    using 1(2-4) 2(2-4) 3(2-4) 4(2-4) assms(2) by linarith+
  with that [OF 1(1) 2(1) 3(1) 4(1) 1(2)] 4(4) show ?thesis by blast
qed

text \<open>The memory that \<open>designware_memory\<close> leaves to the initialisation of the rings.\<close>

definition rings_memory :: "dma_t \<Rightarrow> 'd eth_sys \<Rightarrow> bool" where
  "rings_memory d s \<longleftrightarrow> length (tx_cpu s) = CONFIG_TX_DESCR_NUM \<and> length (rx_cpu s) = CONFIG_RX_DESCR_NUM
     \<and> region_ok d (tx_mac_descrtable (priv s)) (txbuffs (priv s)) \<and> region_ok d (rx_mac_descrtable (priv s)) (rxbuffs (priv s))
     \<and> buffers_ok (txbuffs (priv s)) (cpu s) \<and> buffers_ok (txbuffs (priv s)) (ram s) \<and> buffers_ok (rxbuffs (priv s)) (cpu s) \<and> buffers_ok (rxbuffs (priv s)) (ram s)
     \<and> bufs_apart (priv s)"

text \<open>The four regions have the sizes that were asked for, lie in the free part of the pool, have the addresses of the pool, and no two of them overlap.\<close>

definition regions_ok :: "dma_t \<Rightarrow> dw_eth_dev \<Rightarrow> bool" where
  "regions_ok d p \<longleftrightarrow> map (\<lambda>r. unat (dsize r)) (eth_regions p) = [1024, 1024, 32768, 32768] \<and> sorted_wrt apart (eth_regions p)
     \<and> list_all (\<lambda>r. unat (pnext d) \<le> unat (paddr r) \<and> unat (paddr r) + unat (dsize r) \<le> unat (pend d) \<and> vaddr r = sos_dma_phys_to_virt d (paddr r)) (eth_regions p)"

lemma designware_memory_ok:
  assumes "pool_ok d" and "unat (pnext d) + 67868 \<le> unat (pend d)" and "pool_mapped d (cpu s)" and "pool_mapped d (ram s)"
  shows "\<exists>s' d' w'. designware_memory K d s w = Some (0, s', d', w') \<and> rings_memory d' s' \<and> regions_ok d (priv s') \<and> hw s' = hw s"
proof -
  from four_grants [OF assms(1,2), of K w] obtain p1 w1 p2 w2 p3 w3 p4 w4 where g:
    "ethif_dma_malloc K (of_nat 1024) (of_nat ARCH_DMA_MINALIGN) d w = Some (\<lparr>vaddr = sos_dma_phys_to_virt d p1, paddr = p1, dsize = of_nat 1024\<rparr>, d\<lparr>pnext := p1 + of_nat 1024\<rparr>, w1)"
    "ethif_dma_malloc K (of_nat 1024) (of_nat ARCH_DMA_MINALIGN) (d\<lparr>pnext := p1 + of_nat 1024\<rparr>) w1 =
      Some (\<lparr>vaddr = sos_dma_phys_to_virt d p2, paddr = p2, dsize = of_nat 1024\<rparr>, d\<lparr>pnext := p2 + of_nat 1024\<rparr>, w2)"
    "ethif_dma_malloc K (of_nat 32768) (of_nat ARCH_DMA_MINALIGN) (d\<lparr>pnext := p2 + of_nat 1024\<rparr>) w2 =
      Some (\<lparr>vaddr = sos_dma_phys_to_virt d p3, paddr = p3, dsize = of_nat 32768\<rparr>, d\<lparr>pnext := p3 + of_nat 32768\<rparr>, w3)"
    "ethif_dma_malloc K (of_nat 32768) (of_nat ARCH_DMA_MINALIGN) (d\<lparr>pnext := p3 + of_nat 32768\<rparr>) w3 =
      Some (\<lparr>vaddr = sos_dma_phys_to_virt d p4, paddr = p4, dsize = of_nat 32768\<rparr>, d\<lparr>pnext := p4 + of_nat 32768\<rparr>, w4)"
    and o: "unat (pnext d) \<le> unat p1" "unat p1 + 1024 \<le> unat p2" "unat p2 + 1024 \<le> unat p3" "unat p3 + 32768 \<le> unat p4"
      "unat (p4 + of_nat 32768) = unat p4 + 32768" "unat p4 + 32768 \<le> unat (pend d)"
    by metis
  let ?d = "d\<lparr>pnext := p4 + of_nat 32768\<rparr>"
  have ok: "pool_ok ?d" using pool_ok_next [OF assms(1)] o by simp
  have "unat (pstart d) \<le> unat (pnext d)" using assms(1) by (simp add: pool_ok_def)
  then have at: "unat (pstart d) \<le> unat p" "unat p + 32768 \<le> unat (pend d)" if "p \<in> {p1, p2, p3, p4}" for p using that o by auto
  have nz: "p1 \<noteq> 0" "p2 \<noteq> 0" "p3 \<noteq> 0" "p4 \<noteq> 0" using at(1) [of 0] assms(1) by (auto simp: pool_ok_def)
  note mc = region_mapped [OF assms(1,3) at] and mr = region_mapped [OF assms(1,4) at]
  let ?tt = "\<lparr>vaddr = sos_dma_phys_to_virt d p1, paddr = p1, dsize = of_nat 1024\<rparr>" and ?rt = "\<lparr>vaddr = sos_dma_phys_to_virt d p2, paddr = p2, dsize = of_nat 1024\<rparr>"
  let ?tb = "\<lparr>vaddr = sos_dma_phys_to_virt d p3, paddr = p3, dsize = of_nat 32768\<rparr>" and ?rb = "\<lparr>vaddr = sos_dma_phys_to_virt d p4, paddr = p4, dsize = of_nat 32768\<rparr>"
  define m where "m = put (sos_dma_phys_to_virt d p4) (replicate 32768 0) (put (sos_dma_phys_to_virt d p3) (replicate 32768 0) (cpu s))"
  define s' where "s' = s\<lparr>priv := (priv s)\<lparr>tx_mac_descrtable := ?tt, rx_mac_descrtable := ?rt, txbuffs := ?tb, rxbuffs := ?rb\<rparr>,
     tx_cpu := replicate CONFIG_TX_DESCR_NUM zero_descr, rx_cpu := replicate CONFIG_RX_DESCR_NUM zero_descr, cpu := m\<rparr>"
  have sz: "unat (of_nat 32768 :: u64) = 32768" by simp
  have sets: "memset (sos_dma_phys_to_virt d p3) 0 32768 (cpu s) = Some (put (sos_dma_phys_to_virt d p3) (replicate 32768 0) (cpu s))"
    "memset (sos_dma_phys_to_virt d p4) 0 32768 (put (sos_dma_phys_to_virt d p3) (replicate 32768 0) (cpu s)) = Some m"
    using mc(2) [of p3] mc(2) [of p4] unfolding m_def by (intro memset_put; simp)+
  have "designware_memory K d s w = Some (0, s', ?d, w4)"
    using g(1-4) nz mc(1) [of p1] mc(1) [of p2] mc(1) [of p3] mc(1) [of p4] sets
    by (simp add: designware_memory_def Let_def s'_def CONFIG_TX_DESCR_NUM_def CONFIG_RX_DESCR_NUM_def CONFIG_ETH_BUFSIZE_def)
  moreover have "buffers_ok b m" if "buffers_ok b (cpu s)" for b using that by (simp add: m_def buffers_ok_def)
  moreover have "region_ok ?d ?tt ?tb" "region_ok ?d ?rt ?rb"
    using region_okI [OF ok, of p1 p3] region_okI [OF ok, of p2 p4] at(2) [of p1] at(2) [of p2] at(2) [of p3] at(2) [of p4] by auto
  moreover have regs: "regions_ok d (priv s')" using o by (simp add: regions_ok_def eth_regions_def apart_def s'_def)
  moreover have "bufs_apart (priv s')"
    using o assms(1) by (intro bufs_apartI [where d = d]) (simp_all add: s'_def apart_def pool_ok_def)
  ultimately show ?thesis using mc(3) [of p3 ?tb] mc(3) [of p4 ?rb] mr(3) [of p3 ?tb] mr(3) [of p4 ?rb]
    by (intro exI [of _ s'] exI [of _ ?d] exI [of _ w4]) (simp add: s'_def rings_memory_def)
qed

section \<open>Initialisation leaves two empty queues\<close>

definition rings_empty :: "dma_t \<Rightarrow> 'd eth_sys \<Rightarrow> bool" where
  "rings_empty d s \<longleftrightarrow> eth_queues d (s, 0, 0) [] []"

text \<open>Access to the registers, the timer and the PHY changes nothing but the state of the devices.\<close>

definition hw_only :: "'d eth_sys \<Rightarrow> 'd eth_sys \<Rightarrow> bool" where
  "hw_only s s' \<longleftrightarrow> (\<exists>d. s' = s\<lparr>hw := d\<rparr>)"

lemma rings_memory_hw [simp]: "rings_memory d (s\<lparr>hw := x\<rparr>) = rings_memory d s"
  by (simp add: rings_memory_def)

lemma rings_empty_hw [simp]: "rings_empty d (s\<lparr>hw := x\<rparr>) = rings_empty d s"
  by (simp add: rings_empty_def eth_queues_def tx.queue_is_def rx.queue_is_def fun_eq_iff ring_holds_def)

lemma hw_only_refl [simp, intro]: "hw_only s s"
  unfolding hw_only_def by (rule exI [of _ "hw s"]) simp

lemma hw_only_set [simp]: "hw_only s (s'\<lparr>hw := x\<rparr>) = hw_only s s'"
  by (cases s, cases s') (auto simp: hw_only_def)

lemma hw_only_ops [simp]:
  "hw_only s (wrl H v r s') = hw_only s s'" "hw_only s (snd (rdl H r s')) = hw_only s s'" "hw_only s (modl H f r s') = hw_only s s'"
  "hw_only s (uboot_udelay H us s') = hw_only s s'" "hw_only s (snd (dw_adjust_link H s')) = hw_only s s'" "hw_only s (snd (designware_eth_enable H s')) = hw_only s s'"
  by (simp_all add: wrl_def rdl_def modl_def uboot_udelay_def dw_adjust_link_def designware_eth_enable_def Let_def split: prod.split)

lemma hw_only_timer: "uboot_get_timer H freq b s' = Some (t, s'') \<Longrightarrow> hw_only s s'' = hw_only s s'"
  by (auto simp: uboot_get_timer_def bind_eq_Some_conv split: prod.splits)

lemma hw_only_reset:
  assumes "reset_wait H freq start s' = Some y" and "hw_only s s'"
  shows "hw_only s (snd y)"
proof -
  have "hw_only s s' \<longrightarrow> hw_only s (snd y)"
  proof (rule reset_wait.raw_induct [OF _ assms(1), of "\<lambda>_ _ _ s' y. hw_only s s' \<longrightarrow> hw_only s (snd y)"], intro impI)
    fix f :: "'a eth_hw \<Rightarrow> u64 \<Rightarrow> u64 \<Rightarrow> 'a eth_sys \<Rightarrow> (bool \<times> 'a eth_sys) option" and H freq start s' y
    assume IH: "\<And>H freq start s' y. f H freq start s' = Some y \<Longrightarrow> hw_only s s' \<longrightarrow> hw_only s (snd y)"
    assume step: "(let (v, s) = rdl H DMA_busmode s'
       in if v AND DMAMAC_SRST = 0 then Some (True, s)
          else uboot_get_timer H freq start s \<bind>
            (\<lambda>(t, s). if CONFIG_MACRESET_TIMEOUT \<le> t then Some (False, s) else f H freq start (uboot_udelay H 100000 s))) = Some y"
      and s': "hw_only s s'"
    obtain v s1 where r: "rdl H DMA_busmode s' = (v, s1)" by fastforce
    with s' have "hw_only s s1" using hw_only_ops(2) [of s H DMA_busmode s'] by simp
    with step show "hw_only s (snd y)"
      by (auto simp: r bind_eq_Some_conv hw_only_timer dest!: IH split: if_splits)
  qed
  with assms(2) show ?thesis by simp
qed

text \<open>The two initialisations, in the order of \<open>designware_eth_init\<close>: the second keeps the ring of the first.\<close>

lemma rx_descs_init_keeps_tx:
  assumes "rings_memory d s" and "rx_descs_init H s = Some s'"
  shows "length (tx_cpu s') = CONFIG_TX_DESCR_NUM \<and> region_ok d (tx_mac_descrtable (priv s')) (txbuffs (priv s'))
     \<and> buffers_ok (txbuffs (priv s')) (cpu s') \<and> buffers_ok (txbuffs (priv s')) (ram s') \<and> bufs_apart (priv s')"
  using assms
  by (auto simp: rings_memory_def bufs_apart_def rx_descs_init_def wrl_def flush_dcache_range_def Let_def bind_eq_Some_conv buffers_ok_def readable_def simp del: of_nat_Suc)

lemma tx_descs_init_keeps_rx:
  assumes "tx_descs_init H s = Some s'"
  shows "rx.queue_is d (s', h) q = rx.queue_is d (s, h) q" and "bufs_apart (priv s') = bufs_apart (priv s)"
proof -
  obtain tab x where "s' = s\<lparr>tx_cpu := tab, tx_ram := tab, hw := x, priv := (priv s)\<lparr>tx_currdescnum := 0\<rparr>\<rparr>"
    using assms by (auto simp: tx_descs_init_def wrl_def Let_def bind_eq_Some_conv)
  then show "rx.queue_is d (s', h) q = rx.queue_is d (s, h) q" "bufs_apart (priv s') = bufs_apart (priv s)"
    by (simp_all add: rx.queue_is_def ring_holds_def fun_eq_iff bufs_apart_def)
qed

lemma descs_init:
  assumes "rings_memory d s"
  shows "\<exists>s1 s2. rx_descs_init H s = Some s1 \<and> tx_descs_init H s1 = Some s2 \<and> rings_empty d s2"
proof -
  obtain s1 where s1: "rx_descs_init H s = Some s1" "rx.queue_is d (s1, 0) []"
    using rx_init [of s d H] assms by (auto simp: rings_memory_def)
  then obtain s2 where s2: "tx_descs_init H s1 = Some s2" "tx.queue_is d (s2, 0) []"
    using tx_init [of s1 d H] rx_descs_init_keeps_tx [OF assms] by blast
  with s1 tx_descs_init_keeps_rx [OF s2(1)] rx_descs_init_keeps_tx [OF assms s1(1)] show ?thesis by (auto simp: rings_empty_def eth_queues_def)
qed

lemma hw_only_rings:
  assumes "hw_only s s'"
  shows "rings_memory d s' = rings_memory d s" and "rings_empty d s' = rings_empty d s"
  using assms by (auto simp: hw_only_def)

text \<open>The part of \<open>designware_eth_init\<close> after the rings.\<close>

definition after_rings :: "'d eth_hw \<Rightarrow> 'd eth_sys \<Rightarrow> int \<times> 'd eth_sys" where
  "after_rings H s =
     (let s = wrl H (FIXEDBURST OR PRIORXTX_41 OR DMA_PBL) DMA_busmode s;
          s = modl H (\<lambda>v. v OR FLUSHTXFIFO OR STOREFORWARD) DMA_opmode s;
          s = modl H (\<lambda>v. v OR RXSTART OR TXSTART) DMA_opmode s;
          s = modl H (\<lambda>v. v OR DMA_INTR_DEFAULT_MASK) DMA_intenable s;
          s = wrl H GMAC_INT_DEFAULT_MASK MAC_intmask s;
          (ret, d) = phy_startup H (hw s);
          s = s\<lparr>hw := d\<rparr>
      in if ret \<noteq> 0 then (ret, s) else dw_adjust_link H s)"

lemma designware_eth_init_rings:
  "designware_eth_init H freq a s = do {
     (start, s) \<leftarrow> uboot_get_timer H freq 0 (modl H (\<lambda>v. v OR DMAMAC_SRST) DMA_busmode s);
     (ok, s) \<leftarrow> reset_wait H freq start s;
     if \<not> ok then Some (- ETIMEDOUT, s)
     else do {
       (_, s) \<leftarrow> dw_write_hwaddr H a s;
       s \<leftarrow> rx_descs_init H s;
       s \<leftarrow> tx_descs_init H s;
       Some (after_rings H s)
     }
   }"
  unfolding designware_eth_init_def Let_def after_rings_def by (auto intro!: Option.bind_cong split: prod.split)

lemma after_rings_hw: "hw_only s (snd (after_rings H s')) = hw_only s s'"
  by (simp add: after_rings_def Let_def split: prod.split)

lemma dw_write_hwaddr_hw: "dw_write_hwaddr H a s' = Some (r, s'') \<Longrightarrow> hw_only s s'' = hw_only s s'"
  by (induction H a s' rule: dw_write_hwaddr.induct) (auto simp: Let_def)

lemma dw_eth_init_queues:
  assumes "rings_memory d s" and "dw_eth_init H freq a s = Some (0, s')"
  shows "rings_empty d s'"
proof -
  from assms(2) obtain sa where init: "designware_eth_init H freq a s = Some (0, sa)" and en: "s' = snd (designware_eth_enable H sa)"
    by (auto simp: dw_eth_init_def bind_eq_Some_conv split: if_splits dest: arg_cong [of _ _ snd])
  from init obtain start s1 s2 r s3 s4 s5 where st:
    "uboot_get_timer H freq 0 (modl H (\<lambda>v. v OR DMAMAC_SRST) DMA_busmode s) = Some (start, s1)" "reset_wait H freq start s1 = Some (True, s2)"
    "dw_write_hwaddr H a s2 = Some (r, s3)" "rx_descs_init H s3 = Some s4" "tx_descs_init H s4 = Some s5" and after: "hw_only s5 sa"
    using after_rings_hw [of _ H] by (auto simp: designware_eth_init_rings bind_eq_Some_conv ETIMEDOUT_def split: if_splits) (metis hw_only_refl snd_conv)
  have "hw_only s s3" using hw_only_timer [OF st(1), of s] hw_only_reset [OF st(2), of s] dw_write_hwaddr_hw [OF st(3), of s] by simp
  with assms(1) have "rings_memory d s3" by (simp add: hw_only_rings)
  from descs_init [OF this, of H] st(4,5) have "rings_empty d s5" by auto
  with after en show ?thesis by (metis hw_only_ops(6) hw_only_rings(2))
qed

section \<open>The reset of the controller\<close>

text \<open>
  The devices while the driver waits: it has set the reset bit and read the clock; \<open>reset_look n\<close> is the state in which it reads the bit for the \<open>n\<close>-th time, after \<open>n\<close> delays, and
  \<open>reset_ms\<close> the time since the start that it reads next if the bit is still set.
\<close>

definition hw_ms :: "'d eth_hw \<Rightarrow> u64 \<Rightarrow> 'd \<Rightarrow> u64" where
  "hw_ms H freq x = fst (hw_ticks H x) div (freq div MS_IN_S)"

definition reset_begun :: "'d eth_hw \<Rightarrow> 'd \<Rightarrow> 'd" where
  "reset_begun H x = (let (v, x) = readl H DMA_busmode x in writel H DMA_busmode (v OR DMAMAC_SRST) x)"

definition in_reset :: "'d eth_hw \<Rightarrow> 'd \<Rightarrow> bool" where
  "in_reset H x \<longleftrightarrow> fst (readl H DMA_busmode x) AND DMAMAC_SRST \<noteq> 0"

definition look_again :: "'d eth_hw \<Rightarrow> 'd \<Rightarrow> 'd" where
  "look_again H x = hw_udelay H 100000 (snd (hw_ticks H (snd (readl H DMA_busmode x))))"

definition reset_look :: "'d eth_hw \<Rightarrow> 'd \<Rightarrow> nat \<Rightarrow> 'd" where
  "reset_look H x n = (look_again H ^^ n) (snd (hw_ticks H (reset_begun H x)))"

definition waited_ms :: "'d eth_hw \<Rightarrow> u64 \<Rightarrow> u64 \<Rightarrow> 'd \<Rightarrow> u64" where
  "waited_ms H freq start x = hw_ms H freq (snd (readl H DMA_busmode x)) - start"

definition reset_ms :: "'d eth_hw \<Rightarrow> u64 \<Rightarrow> 'd \<Rightarrow> nat \<Rightarrow> u64" where
  "reset_ms H freq x n = waited_ms H freq (hw_ms H freq (reset_begun H x)) (reset_look H x n)"

text \<open>The controller leaves its reset before the time is over, or the time is over before it does.\<close>

definition leaves_reset :: "'d eth_hw \<Rightarrow> u64 \<Rightarrow> 'd \<Rightarrow> bool" where
  "leaves_reset H freq x \<longleftrightarrow> (\<exists>n. \<not> in_reset H (reset_look H x n) \<and> (\<forall>i < n. reset_ms H freq x i < CONFIG_MACRESET_TIMEOUT))"

definition stays_in_reset :: "'d eth_hw \<Rightarrow> u64 \<Rightarrow> 'd \<Rightarrow> bool" where
  "stays_in_reset H freq x \<longleftrightarrow> (\<exists>n. (\<forall>i \<le> n. in_reset H (reset_look H x i)) \<and> (\<forall>i < n. reset_ms H freq x i < CONFIG_MACRESET_TIMEOUT)
     \<and> CONFIG_MACRESET_TIMEOUT \<le> reset_ms H freq x n)"

lemma uboot_get_timer_ms: "freq div MS_IN_S \<noteq> 0 \<Longrightarrow> uboot_get_timer H freq b s = Some (hw_ms H freq (hw s) - b, s\<lparr>hw := snd (hw_ticks H (hw s))\<rparr>)"
  by (auto simp: uboot_get_timer_def timestamp_ms_def hw_ms_def split: prod.split)

lemma reset_wait_step:
  assumes "freq div MS_IN_S \<noteq> 0"
  shows "reset_wait H freq start s =
     (if \<not> in_reset H (hw s) then Some (True, s\<lparr>hw := snd (readl H DMA_busmode (hw s))\<rparr>)
      else if CONFIG_MACRESET_TIMEOUT \<le> waited_ms H freq start (hw s) then Some (False, s\<lparr>hw := snd (hw_ticks H (snd (readl H DMA_busmode (hw s))))\<rparr>)
      else reset_wait H freq start (s\<lparr>hw := look_again H (hw s)\<rparr>))"
  by (cases "readl H DMA_busmode (hw s)", subst reset_wait.simps)
    (simp add: rdl_def uboot_get_timer_ms [OF assms] uboot_udelay_def in_reset_def waited_ms_def look_again_def)

lemma reset_wait_leaves:
  assumes "freq div MS_IN_S \<noteq> 0" and "\<not> in_reset H ((look_again H ^^ n) (hw s))"
    and "\<And>i. i < n \<Longrightarrow> waited_ms H freq start ((look_again H ^^ i) (hw s)) < CONFIG_MACRESET_TIMEOUT"
  shows "\<exists>s'. reset_wait H freq start s = Some (True, s')"
  using assms(2,3)
proof (induction n arbitrary: s)
  case (Suc n)
  have "\<exists>s'. reset_wait H freq start (s\<lparr>hw := look_again H (hw s)\<rparr>) = Some (True, s')"
    using Suc.prems(1) Suc.prems(2) [of "Suc i" for i] by (intro Suc.IH) (simp_all add: funpow_swap1)
  with Suc.prems(2) [of 0] show ?case by (subst reset_wait_step [OF assms(1)]) (auto simp: not_less [symmetric])
qed (simp add: reset_wait_step [OF assms(1)])

lemma reset_wait_times_out:
  assumes "freq div MS_IN_S \<noteq> 0" and "\<And>i. i \<le> n \<Longrightarrow> in_reset H ((look_again H ^^ i) (hw s))"
    and "\<And>i. i < n \<Longrightarrow> waited_ms H freq start ((look_again H ^^ i) (hw s)) < CONFIG_MACRESET_TIMEOUT"
    and "CONFIG_MACRESET_TIMEOUT \<le> waited_ms H freq start ((look_again H ^^ n) (hw s))"
  shows "\<exists>s'. reset_wait H freq start s = Some (False, s')"
  using assms(2-4)
proof (induction n arbitrary: s)
  case (Suc n)
  have "\<exists>s'. reset_wait H freq start (s\<lparr>hw := look_again H (hw s)\<rparr>) = Some (False, s')"
    using Suc.prems(1) [of "Suc i" for i] Suc.prems(2) [of "Suc i" for i] Suc.prems(3) by (intro Suc.IH) (simp_all add: funpow_swap1)
  with Suc.prems(1) [of 0] Suc.prems(2) [of 0] show ?case by (subst reset_wait_step [OF assms(1)]) (auto simp: not_less [symmetric])
qed (simp add: reset_wait_step [OF assms(1)])

text \<open>The PHY starts and has a cable plugged in.\<close>

definition phy_ready :: "'d eth_hw \<Rightarrow> bool" where
  "phy_ready H \<longleftrightarrow> (\<forall>x. fst (phy_startup H x) = 0 \<and> phy_link H x \<noteq> 0)"

lemma reset_start:
  assumes "freq div MS_IN_S \<noteq> 0"
  shows "uboot_get_timer H freq 0 (modl H (\<lambda>v. v OR DMAMAC_SRST) DMA_busmode s) = Some (hw_ms H freq (reset_begun H (hw s)), s\<lparr>hw := reset_look H (hw s) 0\<rparr>)"
  by (simp add: uboot_get_timer_ms [OF assms] modl_def rdl_def wrl_def reset_begun_def reset_look_def split: prod.split)

lemma reset_leaves:
  assumes "freq div MS_IN_S \<noteq> 0" and "leaves_reset H freq (hw s)"
  shows "\<exists>s'. reset_wait H freq (hw_ms H freq (reset_begun H (hw s))) (s\<lparr>hw := reset_look H (hw s) 0\<rparr>) = Some (True, s')"
proof -
  obtain n where "\<not> in_reset H (reset_look H (hw s) n)" "\<And>i. i < n \<Longrightarrow> reset_ms H freq (hw s) i < CONFIG_MACRESET_TIMEOUT"
    using assms(2) unfolding leaves_reset_def by blast
  then show ?thesis by (intro reset_wait_leaves [OF assms(1), of H n]) (simp_all add: reset_look_def reset_ms_def)
qed

lemma dw_eth_init_times_out:
  assumes "freq div MS_IN_S \<noteq> 0" and "stays_in_reset H freq (hw s)"
  shows "\<exists>s'. dw_eth_init H freq a s = Some (- ETIMEDOUT, s')"
proof -
  obtain n where "\<And>i. i \<le> n \<Longrightarrow> in_reset H (reset_look H (hw s) i)" "\<And>i. i < n \<Longrightarrow> reset_ms H freq (hw s) i < CONFIG_MACRESET_TIMEOUT"
    "CONFIG_MACRESET_TIMEOUT \<le> reset_ms H freq (hw s) n"
    using assms(2) unfolding stays_in_reset_def by blast
  then have "\<exists>s'. reset_wait H freq (hw_ms H freq (reset_begun H (hw s))) (s\<lparr>hw := reset_look H (hw s) 0\<rparr>) = Some (False, s')"
    by (intro reset_wait_times_out [OF assms(1), of n]) (simp_all add: reset_look_def reset_ms_def)
  then show ?thesis by (auto simp: dw_eth_init_def designware_eth_init_rings reset_start [OF assms(1)] ETIMEDOUT_def)
qed

lemma dw_eth_init_returns:
  assumes "rings_memory d s" and "leaves_reset H freq (hw s)" and "phy_ready H" and "freq div MS_IN_S \<noteq> 0" and "length a = 6"
  shows "\<exists>s'. dw_eth_init H freq a s = Some (0, s')"
proof -
  let ?start = "hw_ms H freq (reset_begun H (hw s))" and ?s1 = "s\<lparr>hw := reset_look H (hw s) 0\<rparr>"
  note 1 = reset_start [OF assms(4), of H s]
  obtain s2 where 2: "reset_wait H freq ?start ?s1 = Some (True, s2)" using reset_leaves [OF assms(4,2)] by blast
  obtain b0 b1 b2 b3 b4 b5 where a: "a = [b0, b1, b2, b3, b4, b5]" using assms(5) by (auto simp: numeral_eq_Suc length_Suc_conv)
  obtain s3 where 3: "dw_write_hwaddr H a s2 = Some (0, s3)" by (simp add: a Let_def)
  have "hw_only s s3" using hw_only_reset [OF 2, of s] dw_write_hwaddr_hw [OF 3, of s] by simp
  with assms(1) have "rings_memory d s3" by (simp add: hw_only_rings)
  from descs_init [OF this, of H] obtain s4 s5 where 4: "rx_descs_init H s3 = Some s4" "tx_descs_init H s4 = Some s5" by blast
  have "fst (dw_adjust_link H x) = 0" for x by (auto simp: dw_adjust_link_def Let_def split: prod.split)
  then have "fst (after_rings H s5) = 0" using assms(3) by (auto simp: after_rings_def Let_def phy_ready_def split: prod.split) (metis fst_conv)
  then obtain sa where "after_rings H s5 = (0, sa)" by (metis prod.collapse)
  then have "\<exists>sa. designware_eth_init H freq a s = Some (0, sa)" by (simp add: designware_eth_init_rings 1 2 3 4)
  moreover have "fst (designware_eth_enable H x) = 0" for x using assms(3) by (simp add: designware_eth_enable_def phy_ready_def)
  then have "\<exists>s'. designware_eth_enable H x = (0, s')" for x by (metis prod.collapse)
  ultimately show ?thesis by (auto simp: dw_eth_init_def)
qed

text \<open>A controller that takes 200 ms to leave its reset; its state is the time in milliseconds.\<close>

definition eth_slow_hw :: "nat eth_hw" where
  "eth_slow_hw = \<lparr>readl = (\<lambda>r ms. (if r = DMA_busmode \<and> ms < 200 then DMAMAC_SRST else 0, ms)), writel = (\<lambda>_ _ ms. ms), hw_ticks = (\<lambda>ms. (of_nat (24000 * ms), ms)),
     hw_udelay = (\<lambda>us ms. ms + unat us div 1000), phy_startup = (\<lambda>ms. (0, ms)), phy_shutdown = (\<lambda>ms. ms), phy_link = (\<lambda>_. 1), phy_speed = (\<lambda>_. 100), phy_duplex = (\<lambda>_. 1)\<rparr>"

definition eth_slow_example :: "nat eth_sys" where
  "eth_slow_example = \<lparr>priv = priv eth_example, tx_cpu = [], tx_ram = [], rx_cpu = [], rx_ram = [], cpu = (\<lambda>_. Some 0), ram = (\<lambda>_. Some 0), hw = 0\<rparr>"

lemma eth_slow_reset: "leaves_reset eth_slow_hw 24000000 0" "in_reset eth_slow_hw (reset_look eth_slow_hw 0 0)" "in_reset eth_slow_hw (reset_look eth_slow_hw 0 1)"
proof -
  have look: "reset_look eth_slow_hw 0 i = 100 * i" for i
    by (induction i) (simp_all add: reset_look_def reset_begun_def look_again_def eth_slow_hw_def)
  show "in_reset eth_slow_hw (reset_look eth_slow_hw 0 0)" "in_reset eth_slow_hw (reset_look eth_slow_hw 0 1)"
    unfolding look by (simp_all add: in_reset_def eth_slow_hw_def DMAMAC_SRST_def)
  have "reset_ms eth_slow_hw 24000000 0 i < CONFIG_MACRESET_TIMEOUT" if "i < 2" for i
    using that unfolding reset_ms_def look by (auto simp: less_2_cases_iff waited_ms_def hw_ms_def MS_IN_S_def CONFIG_MACRESET_TIMEOUT_def reset_begun_def eth_slow_hw_def)
  moreover have "\<not> in_reset eth_slow_hw (reset_look eth_slow_hw 0 2)" unfolding look by (simp add: in_reset_def eth_slow_hw_def)
  ultimately show "leaves_reset eth_slow_hw 24000000 0" unfolding leaves_reset_def by blast
qed

end
