(* ===== verification/Sync.thy ===== *)
theory Sync
  imports SOS_Prelude
begin

text \<open>
  The synchronisation library \<open>libsel4sync\<close>: recursive mutexes (\<open>recursive_mutex.c\<close>) and binary semaphores (\<open>bin_sem_bare.h\<close>, which \<open>bin_sem.h\<close> and \<open>mutex.h\<close> wrap).

  Any number of threads call the functions, and their steps interleave freely. A step is one access to the memory that the threads share or one system call, so the program counters below are the
  places between such steps. A notification is a bit: \<open>seL4_Signal\<close> sets it, \<open>seL4_Wait\<close> blocks until it is set and clears it. The functions are called with an object, not with \<open>NULL\<close>.
\<close>

section \<open>Interleavings\<close>

inductive reach :: "('a \<Rightarrow> 's \<Rightarrow> 's option) \<Rightarrow> 's \<Rightarrow> 's \<Rightarrow> bool" for step :: "'a \<Rightarrow> 's \<Rightarrow> 's option" and s0 :: 's where
  reach_refl: "reach step s0 s0"
| reach_step: "reach step s0 s \<Longrightarrow> step a s = Some s' \<Longrightarrow> reach step s0 s'"

primrec runs :: "('a \<Rightarrow> 's \<Rightarrow> 's option) \<Rightarrow> 'a list \<Rightarrow> 's \<Rightarrow> 's option" where
  "runs step [] s = Some s"
| "runs step (a # as) s = do { s \<leftarrow> step a s; runs step as s }"

lemma reach_invariant:
  assumes "reach step s0 s" and "I s0" and "\<And>a s s'. I s \<Longrightarrow> step a s = Some s' \<Longrightarrow> I s'"
  shows "I s"
  using assms(1) by induction (use assms(2,3) in blast)+

lemma runs_reach: "runs step as s = Some s' \<Longrightarrow> reach step s0 s \<Longrightarrow> reach step s0 s'"
  by (induction as arbitrary: s) (auto elim!: bind_SomeE intro: reach_step)

section \<open>Recursive mutexes\<close>

definition UINT_MAX :: u32 where "UINT_MAX = 0xFFFFFFFF"

text \<open>The owner is the address of the IPC buffer of a thread, its identity; 0 is \<open>NULL\<close>. The last component is the state of the notification.\<close>

record sync_recursive_mutex_t =
  owner :: u64
  held :: u32
  signalled :: bool

definition sync_recursive_mutex_init :: sync_recursive_mutex_t where
  "sync_recursive_mutex_init = \<lparr>owner = 0, held = 0, signalled = True\<rparr>"

text \<open>
  The places in \<open>sync_recursive_mutex_lock\<close> and \<open>sync_recursive_mutex_unlock\<close>; \<open>Idle\<close> is outside, \<open>Asserted\<close> a failed assertion. At the limit of the
  count \<open>lock\<close> returns -1 and otherwise 0.
\<close>

datatype mutex_pc = Idle | Lock_enter | Lock_wait | Lock_acquired | Lock_own | Lock_check | Lock_limit | Lock_count
  | Unlock_owner | Unlock_held | Unlock_count | Unlock_last | Unlock_release | Unlock_signal | Asserted

text \<open>A step of the thread \<open>t\<close> in \<open>lock\<close>: \<open>None\<close> while it blocks.\<close>

fun sync_recursive_mutex_lock :: "u64 \<Rightarrow> mutex_pc \<Rightarrow> sync_recursive_mutex_t \<Rightarrow> (mutex_pc \<times> sync_recursive_mutex_t) option" where
  "sync_recursive_mutex_lock t Lock_enter m = Some (if t \<noteq> owner m then Lock_wait else Lock_limit, m)"
| "sync_recursive_mutex_lock t Lock_wait m = (if signalled m then Some (Lock_acquired, m\<lparr>signalled := False\<rparr>) else None)"
| "sync_recursive_mutex_lock t Lock_acquired m = Some (if owner m = 0 then Lock_own else Asserted, m)"
| "sync_recursive_mutex_lock t Lock_own m = Some (Lock_check, m\<lparr>owner := t\<rparr>)"
| "sync_recursive_mutex_lock t Lock_check m = Some (if held m = 0 then Lock_limit else Asserted, m)"
| "sync_recursive_mutex_lock t Lock_limit m = Some (if held m = UINT_MAX then Idle else Lock_count, m)"
| "sync_recursive_mutex_lock t Lock_count m = Some (Idle, m\<lparr>held := held m + 1\<rparr>)"
| "sync_recursive_mutex_lock t _ m = None"

fun sync_recursive_mutex_unlock :: "u64 \<Rightarrow> mutex_pc \<Rightarrow> sync_recursive_mutex_t \<Rightarrow> (mutex_pc \<times> sync_recursive_mutex_t) option" where
  "sync_recursive_mutex_unlock t Unlock_owner m = Some (if owner m = t then Unlock_held else Asserted, m)"
| "sync_recursive_mutex_unlock t Unlock_held m = Some (if held m > 0 then Unlock_count else Asserted, m)"
| "sync_recursive_mutex_unlock t Unlock_count m = Some (Unlock_last, m\<lparr>held := held m - 1\<rparr>)"
| "sync_recursive_mutex_unlock t Unlock_last m = Some (if held m = 0 then Unlock_release else Idle, m)"
| "sync_recursive_mutex_unlock t Unlock_release m = Some (Unlock_signal, m\<lparr>owner := 0\<rparr>)"
| "sync_recursive_mutex_unlock t Unlock_signal m = Some (Idle, m\<lparr>signalled := True\<rparr>)"
| "sync_recursive_mutex_unlock t _ m = None"

text \<open>
  The threads: where each one is, and how many of its calls of \<open>lock\<close> succeeded and have not been undone. A thread calls \<open>unlock\<close> only if it has the mutex.
\<close>

record mutex_sys =
  mutex :: sync_recursive_mutex_t
  mpc :: "u64 \<Rightarrow> mutex_pc"
  depth :: "u64 \<Rightarrow> nat"

datatype mutex_action = Call_lock u64 | Call_unlock u64 | Run_lock u64 | Run_unlock u64

fun mutex_step :: "mutex_action \<Rightarrow> mutex_sys \<Rightarrow> mutex_sys option" where
  "mutex_step (Call_lock t) s = (if t \<noteq> 0 \<and> mpc s t = Idle then Some \<lparr>mutex = mutex s, mpc = (mpc s)(t := Lock_enter), depth = depth s\<rparr> else None)"
| "mutex_step (Call_unlock t) s = (if t \<noteq> 0 \<and> mpc s t = Idle \<and> 0 < depth s t then Some \<lparr>mutex = mutex s, mpc = (mpc s)(t := Unlock_owner), depth = depth s\<rparr> else None)"
| "mutex_step (Run_lock t) s = do {
     (c, m) \<leftarrow> sync_recursive_mutex_lock t (mpc s t) (mutex s);
     Some \<lparr>mutex = m, mpc = (mpc s)(t := c), depth = (if mpc s t = Lock_count then (depth s)(t := depth s t + 1) else depth s)\<rparr>
   }"
| "mutex_step (Run_unlock t) s = do {
     (c, m) \<leftarrow> sync_recursive_mutex_unlock t (mpc s t) (mutex s);
     Some \<lparr>mutex = m, mpc = (mpc s)(t := c), depth = (if mpc s t = Unlock_count then (depth s)(t := depth s t - 1) else depth s)\<rparr>
   }"

definition mutex_start :: mutex_sys where
  "mutex_start = \<lparr>mutex = sync_recursive_mutex_init, mpc = (\<lambda>_. Idle), depth = (\<lambda>_. 0)\<rparr>"

text \<open>A thread that has waited for the mutex and does not own it yet, or that has given it up and has not signalled yet.\<close>

definition has_token :: "mutex_sys \<Rightarrow> u64 \<Rightarrow> bool" where
  "has_token s t \<longleftrightarrow> (owner (mutex s) = t \<and> t \<noteq> 0) \<or> mpc s t \<in> {Lock_acquired, Lock_own, Unlock_signal}"

text \<open>What is known of a thread at each place.\<close>

fun pc_ok :: "sync_recursive_mutex_t \<Rightarrow> u64 \<Rightarrow> nat \<Rightarrow> mutex_pc \<Rightarrow> bool" where
  "pc_ok m t d Idle \<longleftrightarrow> (owner m = t \<longrightarrow> t = 0 \<or> 0 < d)"
| "pc_ok m t d Lock_enter \<longleftrightarrow> (owner m = t \<longrightarrow> 0 < d)"
| "pc_ok m t d Lock_wait \<longleftrightarrow> owner m \<noteq> t"
| "pc_ok m t d Lock_acquired \<longleftrightarrow> owner m = 0"
| "pc_ok m t d Lock_own \<longleftrightarrow> owner m = 0"
| "pc_ok m t d Lock_check \<longleftrightarrow> owner m = t \<and> d = 0"
| "pc_ok m t d Lock_limit \<longleftrightarrow> owner m = t"
| "pc_ok m t d Lock_count \<longleftrightarrow> owner m = t \<and> held m \<noteq> UINT_MAX"
| "pc_ok m t d Unlock_owner \<longleftrightarrow> owner m = t \<and> 0 < d"
| "pc_ok m t d Unlock_held \<longleftrightarrow> owner m = t \<and> 0 < d"
| "pc_ok m t d Unlock_count \<longleftrightarrow> owner m = t \<and> 0 < d"
| "pc_ok m t d Unlock_last \<longleftrightarrow> owner m = t"
| "pc_ok m t d Unlock_release \<longleftrightarrow> owner m = t \<and> d = 0"
| "pc_ok m t d Unlock_signal \<longleftrightarrow> owner m = 0"
| "pc_ok m t d Asserted \<longleftrightarrow> False"

definition mutex_inv :: "mutex_sys \<Rightarrow> bool" where
  "mutex_inv s \<longleftrightarrow> (\<forall>t. pc_ok (mutex s) t (depth s t) (mpc s t)) \<and> mpc s 0 = Idle \<and> depth s 0 = 0
     \<and> (\<forall>t. 0 < depth s t \<longrightarrow> owner (mutex s) = t) \<and> unat (held (mutex s)) = depth s (owner (mutex s))
     \<and> (\<forall>t u. has_token s t \<longrightarrow> has_token s u \<longrightarrow> t = u) \<and> (signalled (mutex s) \<longleftrightarrow> (\<forall>t. \<not> has_token s t))"

lemma mutex_invD:
  assumes "mutex_inv s"
  shows "pc_ok (mutex s) t (depth s t) (mpc s t)" and "mpc s 0 = Idle" and "depth s 0 = 0" and "0 < depth s t \<Longrightarrow> owner (mutex s) = t"
    and "unat (held (mutex s)) = depth s (owner (mutex s))" and "has_token s t \<Longrightarrow> has_token s u \<Longrightarrow> t = u"
    and "signalled (mutex s) \<longleftrightarrow> (\<forall>t. \<not> has_token s t)"
  using assms unfolding mutex_inv_def by blast+

lemma mutex_inv_start: "mutex_inv mutex_start"
  by (simp add: mutex_inv_def mutex_start_def sync_recursive_mutex_init_def has_token_def)

text \<open>Steps that only move a thread.\<close>

lemma mutex_inv_move:
  assumes "mutex_inv s" and "t \<noteq> 0" and "pc_ok (mutex s) t (depth s t) c"
    and "mpc s t \<in> {Lock_acquired, Lock_own, Unlock_signal} \<longleftrightarrow> c \<in> {Lock_acquired, Lock_own, Unlock_signal}"
  shows "mutex_inv \<lparr>mutex = mutex s, mpc = (mpc s)(t := c), depth = depth s\<rparr>"
proof -
  have "has_token \<lparr>mutex = mutex s, mpc = (mpc s)(t := c), depth = depth s\<rparr> u = has_token s u" for u using assms(4) by (auto simp: has_token_def)
  then show ?thesis using assms(1-3) unfolding mutex_inv_def by simp
qed

lemma pc_ok_signalled [simp]: "pc_ok (m\<lparr>signalled := b\<rparr>) t d c = pc_ok m t d c"
  by (cases c) simp_all

text \<open>Another thread is not disturbed while a thread changes the mutex.\<close>

lemma pc_ok_other:
  assumes "pc_ok m u d c" and "c \<noteq> Idle \<Longrightarrow> u \<noteq> 0" and "owner m \<noteq> u" and "owner m' \<noteq> u" and "c \<notin> {Lock_acquired, Lock_own, Unlock_signal}"
  shows "pc_ok m' u d c"
  using assms by (cases c) auto

lemma mutex_inv_wait:
  assumes "mutex_inv s" and "mpc s t = Lock_wait" and "signalled (mutex s)"
  shows "mutex_inv \<lparr>mutex = (mutex s)\<lparr>signalled := False\<rparr>, mpc = (mpc s)(t := Lock_acquired), depth = depth s\<rparr>"
proof -
  note inv = mutex_invD [OF assms(1)]
  have none: "\<not> has_token s u" for u using inv(7) assms(3) by blast
  then have "owner (mutex s) = 0" by (auto simp: has_token_def)
  moreover have "has_token \<lparr>mutex = (mutex s)\<lparr>signalled := False\<rparr>, mpc = (mpc s)(t := Lock_acquired), depth = depth s\<rparr> u \<longleftrightarrow> u = t" for u
    using none [of u] by (auto simp: has_token_def)
  moreover have "t \<noteq> 0" using assms(2) inv(2) by auto
  ultimately show ?thesis using inv unfolding mutex_inv_def by simp
qed

lemma mutex_inv_own:
  assumes "mutex_inv s" and "mpc s t = Lock_own"
  shows "mutex_inv \<lparr>mutex = (mutex s)\<lparr>owner := t\<rparr>, mpc = (mpc s)(t := Lock_check), depth = depth s\<rparr>"
proof -
  note inv = mutex_invD [OF assms(1)]
  let ?s = "\<lparr>mutex = (mutex s)\<lparr>owner := t\<rparr>, mpc = (mpc s)(t := Lock_check), depth = depth s\<rparr>"
  have t: "t \<noteq> 0" "owner (mutex s) = 0" "has_token s t" using assms(2) inv(1) [of t] inv(2) by (auto simp: has_token_def)
  have others: "\<not> has_token s u" if "u \<noteq> t" for u using inv(6) [of t u] t(3) that by blast
  have d: "depth s u = 0" for u using inv(4) [of u] t(2) inv(3) by (cases "depth s u = 0") auto
  have "pc_ok (mutex ?s) u (depth ?s u) (mpc ?s u)" for u
  proof (cases "u = t \<or> u = 0")
    case False
    then show ?thesis using pc_ok_other [OF inv(1) [of u], of "(mutex s)\<lparr>owner := t\<rparr>"] t others [of u] by (auto simp: has_token_def)
  qed (use t d inv(2) in auto)
  moreover have "has_token ?s u \<longleftrightarrow> u = t" for u using others [of u] t by (auto simp: has_token_def)
  ultimately show ?thesis using inv(2,3,5,7) t d unfolding mutex_inv_def by auto
qed

lemma mutex_inv_count:
  assumes "mutex_inv s" and "owner (mutex s) = t" and "t \<noteq> 0" and "unat h = d" and "pc_ok (\<lparr>owner = t, held = h, signalled = False\<rparr>) t d c"
    and "mpc s t \<notin> {Lock_acquired, Lock_own, Unlock_signal}" and "c \<notin> {Lock_acquired, Lock_own, Unlock_signal}"
  shows "mutex_inv \<lparr>mutex = (mutex s)\<lparr>held := h\<rparr>, mpc = (mpc s)(t := c), depth = (depth s)(t := d)\<rparr>"
proof -
  note inv = mutex_invD [OF assms(1)]
  let ?s = "\<lparr>mutex = (mutex s)\<lparr>held := h\<rparr>, mpc = (mpc s)(t := c), depth = (depth s)(t := d)\<rparr>"
  have tok: "has_token s t" using assms(2,3) by (simp add: has_token_def)
  have "pc_ok (mutex ?s) u (depth ?s u) (mpc ?s u)" for u
  proof (cases "u = t")
    case True
    have "pc_ok ((mutex s)\<lparr>held := h\<rparr>) t d c = pc_ok (\<lparr>owner = t, held = h, signalled = False\<rparr>) t d c" using assms(2) by (cases c) auto
    with True assms(5) show ?thesis by simp
  next
    case False
    then show ?thesis using pc_ok_other [OF inv(1) [of u], of "(mutex s)\<lparr>held := h\<rparr>"] assms(2) inv(2) inv(6) [OF tok, of u]
      by (cases "u = 0") (auto simp: has_token_def)
  qed
  moreover have "has_token ?s u = has_token s u" for u using assms(6,7) by (auto simp: has_token_def)
  ultimately show ?thesis using inv(2-7) assms(2-4) unfolding mutex_inv_def by auto
qed

lemma unat_below_max:
  assumes "h \<noteq> UINT_MAX"
  shows "unat (h + 1) = unat h + 1"
proof -
  have "unat h \<noteq> unat UINT_MAX" using assms by (simp add: word_unat_eq_iff)
  then have "unat h + 1 < 2 ^ 32" using unsigned_less [of h, where ?'a = nat] by (simp add: UINT_MAX_def)
  then show ?thesis by (simp add: unat_plus_if')
qed

lemma mutex_inv_lock:
  assumes "mutex_inv s" and "mutex_step (Run_lock t) s = Some s'"
  shows "mutex_inv s'"
proof -
  note inv = mutex_invD [OF assms(1)]
  have t0: "t \<noteq> 0" using assms(2) inv(2) by auto
  show ?thesis
  proof (cases "mpc s t")
    case Lock_wait
    then show ?thesis using assms mutex_inv_wait by (auto split: if_splits)
  next
    case Lock_own
    then show ?thesis using assms mutex_inv_own by auto
  next
    case Lock_count
    then have c: "owner (mutex s) = t" "held (mutex s) \<noteq> UINT_MAX" using inv(1) [of t] by auto
    have "unat (held (mutex s) + 1) = depth s t + 1" using unat_below_max [OF c(2)] c(1) inv(5) by simp
    then show ?thesis using assms(2) Lock_count mutex_inv_count [OF assms(1) c(1) t0, of "held (mutex s) + 1" "depth s t + 1" Idle] by auto
  qed (use assms inv(1) [of t] inv(5) mutex_inv_move [OF assms(1) t0] in \<open>auto simp: unat_eq_zero UINT_MAX_def split: if_splits\<close>)
qed

lemma mutex_inv_release:
  assumes "mutex_inv s" and "mpc s t = Unlock_release"
  shows "mutex_inv \<lparr>mutex = (mutex s)\<lparr>owner := 0\<rparr>, mpc = (mpc s)(t := Unlock_signal), depth = depth s\<rparr>"
proof -
  note inv = mutex_invD [OF assms(1)]
  let ?s = "\<lparr>mutex = (mutex s)\<lparr>owner := 0\<rparr>, mpc = (mpc s)(t := Unlock_signal), depth = depth s\<rparr>"
  have t: "t \<noteq> 0" "owner (mutex s) = t" "depth s t = 0" using assms(2) inv(1) [of t] inv(2) by auto
  then have tok: "has_token s t" by (simp add: has_token_def)
  have others: "\<not> has_token s u" if "u \<noteq> t" for u using inv(6) [of t u] tok that by blast
  have d: "depth s u = 0" for u using inv(4) [of u] t by (cases "u = t") auto
  have "pc_ok (mutex ?s) u (depth ?s u) (mpc ?s u)" for u
  proof (cases "u = t \<or> u = 0")
    case False
    then show ?thesis using pc_ok_other [OF inv(1) [of u], of "(mutex s)\<lparr>owner := 0\<rparr>"] t others [of u] by (auto simp: has_token_def)
  qed (use t d inv(2) in auto)
  moreover have "has_token ?s u \<longleftrightarrow> u = t" for u using others [of u] t by (auto simp: has_token_def)
  ultimately show ?thesis using inv(2,3,5,7) t d tok unfolding mutex_inv_def by auto
qed

lemma mutex_inv_signal:
  assumes "mutex_inv s" and "mpc s t = Unlock_signal"
  shows "mutex_inv \<lparr>mutex = (mutex s)\<lparr>signalled := True\<rparr>, mpc = (mpc s)(t := Idle), depth = depth s\<rparr>"
proof -
  note inv = mutex_invD [OF assms(1)]
  have t: "t \<noteq> 0" "owner (mutex s) = 0" "has_token s t" using assms(2) inv(1) [of t] inv(2) by (auto simp: has_token_def)
  have "\<not> has_token \<lparr>mutex = (mutex s)\<lparr>signalled := True\<rparr>, mpc = (mpc s)(t := Idle), depth = depth s\<rparr> u" for u
    using inv(6) [OF t(3), of u] t(2) by (auto simp: has_token_def)
  then show ?thesis using inv t(1,2) unfolding mutex_inv_def by simp
qed

lemma mutex_inv_unlock:
  assumes "mutex_inv s" and "mutex_step (Run_unlock t) s = Some s'"
  shows "mutex_inv s'"
proof -
  note inv = mutex_invD [OF assms(1)]
  have t0: "t \<noteq> 0" using assms(2) inv(2) by auto
  have h: "held (mutex s) = 0 \<longleftrightarrow> depth s (owner (mutex s)) = 0" using inv(5) by (simp add: unat_eq_zero [symmetric])
  show ?thesis
  proof (cases "mpc s t")
    case Unlock_count
    then have c: "owner (mutex s) = t" "0 < depth s t" using inv(1) [of t] by auto
    then have "unat (held (mutex s) - 1) = depth s t - 1" using inv(5) by (simp add: unat_sub word_le_nat_alt)
    then show ?thesis using assms(2) Unlock_count mutex_inv_count [OF assms(1) c(1) t0, of "held (mutex s) - 1" "depth s t - 1" Unlock_last] by auto
  next
    case Unlock_release
    then show ?thesis using assms mutex_inv_release by auto
  next
    case Unlock_signal
    then show ?thesis using assms mutex_inv_signal by auto
  qed (use assms inv(1) [of t] h t0 mutex_inv_move [OF assms(1) t0] in \<open>auto simp: word_gt_0 split: if_splits\<close>)
qed

lemma mutex_inv_step: "mutex_inv s \<Longrightarrow> mutex_step a s = Some s' \<Longrightarrow> mutex_inv s'"
proof (cases a)
  case (Call_lock t)
  assume "mutex_inv s" "mutex_step a s = Some s'"
  with Call_lock mutex_invD(1) [of s t] show ?thesis by (auto split: if_splits intro!: mutex_inv_move)
next
  case (Call_unlock t)
  assume "mutex_inv s" "mutex_step a s = Some s'"
  with Call_unlock mutex_invD(4) [of s t] show ?thesis by (auto split: if_splits intro!: mutex_inv_move)
qed (auto intro: mutex_inv_lock mutex_inv_unlock simp del: mutex_step.simps)

lemma mutex_reach_inv: "reach mutex_step mutex_start s \<Longrightarrow> mutex_inv s"
  using reach_invariant [where I = mutex_inv, OF _ mutex_inv_start mutex_inv_step] .

text \<open>
  C16. A recursive mutex excludes, for any number of threads and every interleaving of their steps: no assertion of \<open>lock\<close> or \<open>unlock\<close> fails, at most one thread has the mutex, and it has it as many
  times as the mutex counts.
\<close>

theorem mutex_excludes:
  assumes "reach mutex_step mutex_start s"
  shows "mpc s t \<noteq> Asserted \<and> (0 < depth s t \<and> 0 < depth s u \<longrightarrow> t = u) \<and>
     (0 < depth s t \<longrightarrow> owner (mutex s) = t \<and> unat (held (mutex s)) = depth s t)"
proof -
  note inv = mutex_invD [OF mutex_reach_inv [OF assms]]
  show ?thesis using inv(1) [of t] inv(4) [of t] inv(4) [of u] inv(5) by auto
qed

definition mutex_schedule :: "mutex_action list" where
  "mutex_schedule = [Call_lock 1, Run_lock 1, Run_lock 1, Call_lock 2, Run_lock 1, Run_lock 2, Run_lock 1, Run_lock 1, Run_lock 1, Run_lock 1,
     Call_lock 1, Run_lock 1, Run_lock 1, Run_lock 1]"

lemma mutex_schedule_runs:
  "\<exists>s. runs mutex_step mutex_schedule mutex_start = Some s \<and> depth s 1 = 2 \<and> depth s 2 = 0 \<and> mpc s 1 = Idle \<and> mpc s 2 = Lock_wait"
  by (simp add: mutex_schedule_def mutex_start_def sync_recursive_mutex_init_def UINT_MAX_def)

theorem mutex_excludes_witness:
  "\<exists>s. reach mutex_step mutex_start s \<and> depth s 1 = 2 \<and> mpc s 2 = Lock_wait \<and> mpc s 2 \<noteq> Asserted \<and> owner (mutex s) = 1 \<and> unat (held (mutex s)) = 2"
proof -
  from mutex_schedule_runs obtain s where s: "runs mutex_step mutex_schedule mutex_start = Some s" "depth s 1 = 2" "mpc s 2 = Lock_wait" by blast
  have r: "reach mutex_step mutex_start s" using runs_reach [OF s(1) reach_refl] .
  with s mutex_excludes [OF r, of 1 2] show ?thesis by auto
qed

text \<open>
  C27. No wakeup of a recursive mutex is lost: while a thread waits for the mutex, either a thread inside \<open>lock\<close> or \<open>unlock\<close> can take its next step, or a thread outside has the mutex and can unlock it.
\<close>

theorem mutex_wakes:
  assumes "reach mutex_step mutex_start s" and "mpc s u = Lock_wait"
  shows "(\<exists>t. mutex_step (Run_lock t) s \<noteq> None \<or> mutex_step (Run_unlock t) s \<noteq> None) \<or> (\<exists>t. 0 < depth s t \<and> mutex_step (Call_unlock t) s \<noteq> None)"
proof (cases "signalled (mutex s)")
  case True
  with assms(2) have "mutex_step (Run_lock u) s \<noteq> None" by simp
  then show ?thesis by blast
next
  case False
  note inv = mutex_invD [OF mutex_reach_inv [OF assms(1)]]
  from False inv(7) obtain t where t: "has_token s t" by blast
  then have t0: "t \<noteq> 0" using inv(2) by (auto simp: has_token_def)
  have "mutex_step (Run_lock t) s \<noteq> None \<or> mutex_step (Run_unlock t) s \<noteq> None \<or> 0 < depth s t \<and> mutex_step (Call_unlock t) s \<noteq> None"
    using t t0 inv(1) [of t] by (cases "mpc s t") (auto simp: has_token_def)
  then show ?thesis by blast
qed

theorem mutex_wakes_witness:
  "\<exists>s. reach mutex_step mutex_start s \<and> mpc s 2 = Lock_wait \<and>
     ((\<exists>t. mutex_step (Run_lock t) s \<noteq> None \<or> mutex_step (Run_unlock t) s \<noteq> None) \<or> (\<exists>t. 0 < depth s t \<and> mutex_step (Call_unlock t) s \<noteq> None))"
proof -
  from mutex_schedule_runs obtain s where s: "runs mutex_step mutex_schedule mutex_start = Some s" "mpc s 2 = Lock_wait" by blast
  have r: "reach mutex_step mutex_start s" using runs_reach [OF s(1) reach_refl] .
  from r s(2) mutex_wakes [OF r s(2)] show ?thesis by blast
qed

end
