(* ===== verification/Sync_Sem.thy ===== *)
theory Sync_Sem
  imports Sync
begin

text \<open>
  Binary semaphores and plain mutexes of \<open>libsel4sync\<close>: \<open>bin_sem_bare.h\<close>, with the wrappers of \<open>bin_sem.h\<close> and \<open>mutex.h\<close>. The semaphore counts the threads that want it; only a
  thread that finds it taken waits for the notification. The atomic operations are functions of \<open>libplatsupport\<close>: \<open>dec\<close> is \<open>sync_atomic_decrement_safe\<close>, which fails at \<open>INT_MIN\<close>,
  and \<open>inc\<close> is \<open>sync_atomic_increment\<close>, which returns the new value.
\<close>

section \<open>The semaphore\<close>

record sync_bin_sem_t =
  val :: int
  notified :: bool

definition sync_mutex_init :: sync_bin_sem_t where
  "sync_mutex_init = \<lparr>val = 1, notified = False\<rparr>"

text \<open>The places: \<open>Out\<close> and \<open>In\<close> are outside the functions, without and with the semaphore. A failed \<open>wait\<close> returns -1 and leads to \<open>Out\<close>.\<close>

datatype sem_pc = Out | Wait_dec | Wait_block | In | Post_inc | Post_check int | Post_signal | Sem_asserted

definition INT_MIN :: int where "INT_MIN = - (2 ^ 31)"

fun sync_bin_sem_bare_wait :: "(int \<Rightarrow> int option) \<Rightarrow> sem_pc \<Rightarrow> sync_bin_sem_t \<Rightarrow> (sem_pc \<times> sync_bin_sem_t) option" where
  "sync_bin_sem_bare_wait dec Wait_dec m = (case dec (val m) of None \<Rightarrow> Some (Out, m) | Some v \<Rightarrow> Some (if val m \<le> 0 then Wait_block else In, m\<lparr>val := v\<rparr>))"
| "sync_bin_sem_bare_wait dec Wait_block m = (if notified m then Some (In, m\<lparr>notified := False\<rparr>) else None)"
| "sync_bin_sem_bare_wait dec _ m = None"

fun sync_bin_sem_bare_post :: "(int \<Rightarrow> int) \<Rightarrow> sem_pc \<Rightarrow> sync_bin_sem_t \<Rightarrow> (sem_pc \<times> sync_bin_sem_t) option" where
  "sync_bin_sem_bare_post inc Post_inc m = Some (Post_check (inc (val m)), m\<lparr>val := inc (val m)\<rparr>)"
| "sync_bin_sem_bare_post inc (Post_check v) m = Some (if val m \<le> 1 then (if v \<le> 0 then Post_signal else Out) else Sem_asserted, m)"
| "sync_bin_sem_bare_post inc Post_signal m = Some (Out, m\<lparr>notified := True\<rparr>)"
| "sync_bin_sem_bare_post inc _ m = None"

record sem_sys =
  sem :: sync_bin_sem_t
  spc :: "u64 \<Rightarrow> sem_pc"

datatype sem_action = Call_wait u64 | Call_post u64 | Run_wait u64 | Run_post u64

fun sem_step :: "(int \<Rightarrow> int option) \<Rightarrow> (int \<Rightarrow> int) \<Rightarrow> sem_action \<Rightarrow> sem_sys \<Rightarrow> sem_sys option" where
  "sem_step dec inc (Call_wait t) s = (if spc s t = Out then Some \<lparr>sem = sem s, spc = (spc s)(t := Wait_dec)\<rparr> else None)"
| "sem_step dec inc (Call_post t) s = (if spc s t = In then Some \<lparr>sem = sem s, spc = (spc s)(t := Post_inc)\<rparr> else None)"
| "sem_step dec inc (Run_wait t) s = do { (c, m) \<leftarrow> sync_bin_sem_bare_wait dec (spc s t) (sem s); Some \<lparr>sem = m, spc = (spc s)(t := c)\<rparr> }"
| "sem_step dec inc (Run_post t) s = do { (c, m) \<leftarrow> sync_bin_sem_bare_post inc (spc s t) (sem s); Some \<lparr>sem = m, spc = (spc s)(t := c)\<rparr> }"

definition sem_start :: sem_sys where
  "sem_start = \<lparr>sem = sync_mutex_init, spc = (\<lambda>_. Out)\<rparr>"

definition atomic_ok :: "(int \<Rightarrow> int option) \<Rightarrow> (int \<Rightarrow> int) \<Rightarrow> bool" where
  "atomic_ok dec inc \<longleftrightarrow> (\<forall>v. dec v = (if v = INT_MIN then None else Some (v - 1))) \<and> (\<forall>v. inc v = v + 1)"

section \<open>Counting the threads\<close>

definition count :: "(sem_pc \<Rightarrow> bool) \<Rightarrow> (u64 \<Rightarrow> sem_pc) \<Rightarrow> int" where
  "count P p = int (card {t. P (p t)})"

lemma count_update: "count P (p(t := c)) = count P p - of_bool (P (p t)) + of_bool (P c)"
proof -
  let ?R = "{u. u \<noteq> t \<and> P (p u)}"
  have "{u. P ((p(t := c)) u)} = (if P c then insert t ?R else ?R)" "{u. P (p u)} = (if P (p t) then insert t ?R else ?R)" by auto
  moreover have "card (insert t ?R) = card ?R + 1" by simp
  ultimately show ?thesis by (simp add: count_def)
qed

lemma count_nonneg: "0 \<le> count P p"
  by (simp add: count_def)

lemma count_pos: "P (p t) \<Longrightarrow> 0 < count P p"
  by (auto simp: count_def card_gt_0_iff)

lemma count_ex: "0 < count P p \<Longrightarrow> \<exists>t. P (p t)"
  by (auto simp: count_def card_gt_0_iff)

lemma count_one: "count P p \<le> 1 \<Longrightarrow> P (p t) \<Longrightarrow> P (p u) \<Longrightarrow> t = u"
  by (auto simp: count_def card_le_Suc0_iff_eq)

section \<open>The invariant\<close>

fun waiting :: "sem_pc \<Rightarrow> bool" where
  "waiting c \<longleftrightarrow> c = Wait_block"

fun holding :: "sem_pc \<Rightarrow> bool" where
  "holding c \<longleftrightarrow> c = In \<or> c = Post_inc"

fun waking :: "sem_pc \<Rightarrow> bool" where
  "waking (Post_check v) \<longleftrightarrow> v \<le> 0"
| "waking c \<longleftrightarrow> c = Post_signal"

definition sem_inv :: "sem_sys \<Rightarrow> bool" where
  "sem_inv s \<longleftrightarrow> val (sem s) = 1 - count waiting (spc s) - count holding (spc s) \<and> (\<forall>t. spc s t \<noteq> Sem_asserted)
     \<and> count holding (spc s) + count waking (spc s) + of_bool (notified (sem s)) = of_bool (val (sem s) \<le> 0)"

lemma sem_inv_start: "sem_inv sem_start"
  by (simp add: sem_inv_def sem_start_def sync_mutex_init_def count_def)

lemma sem_inv_step:
  assumes "sem_inv s" and "sem_step dec inc a s = Some s'" and "atomic_ok dec inc"
  shows "sem_inv s'"
proof -
  have ops: "dec v = (if v = INT_MIN then None else Some (v - 1))" "inc v = v + 1" for v using assms(3) by (auto simp: atomic_ok_def)
  have pos: "0 \<le> count waiting (spc s)" "0 \<le> count holding (spc s)" "0 \<le> count waking (spc s)" by (simp_all add: count_nonneg)
  show ?thesis
  proof (cases a)
    case (Call_wait t)
    with assms(1,2) show ?thesis by (auto simp: sem_inv_def count_update split: if_splits)
  next
    case (Call_post t)
    with assms(1,2) show ?thesis by (auto simp: sem_inv_def count_update split: if_splits)
  next
    case (Run_wait t)
    show ?thesis
    proof (cases "spc s t")
      case Wait_dec
      with Run_wait assms(1,2) pos show ?thesis by (auto simp: sem_inv_def count_update ops split: if_splits)
    next
      case Wait_block
      with Run_wait assms(1,2) pos show ?thesis by (auto simp: sem_inv_def count_update split: if_splits)
    qed (use Run_wait assms(2) in auto)
  next
    case (Run_post t)
    show ?thesis
    proof (cases "spc s t")
      case Post_inc
      with Run_post assms(1,2) pos count_pos [of holding "spc s" t] show ?thesis by (auto simp: sem_inv_def count_update ops split: if_splits)
    next
      case (Post_check v)
      with Run_post assms(1,2) pos show ?thesis by (auto simp: sem_inv_def count_update split: if_splits)
    next
      case Post_signal
      with Run_post assms(1,2) pos count_pos [of waking "spc s" t] show ?thesis by (cases "notified (sem s)") (auto simp: sem_inv_def count_update split: if_splits)
    qed (use Run_post assms(2) in auto)
  qed
qed

lemma sem_reach_inv: "reach (sem_step dec inc) sem_start s \<Longrightarrow> atomic_ok dec inc \<Longrightarrow> sem_inv s"
  by (erule reach_invariant [where I = sem_inv]) (auto intro: sem_inv_start sem_inv_step)

text \<open>
  C20. A plain mutex excludes, for any number of threads and every interleaving of their steps: the assertion of \<open>post\<close> does not fail, at most one thread has the mutex, and no wakeup is lost: while a
  thread waits, either it has been notified, or another thread is about to notify, or a thread has the mutex.
\<close>

theorem sem_excludes:
  assumes "reach (sem_step dec inc) sem_start s" and "atomic_ok dec inc"
  shows "spc s t \<noteq> Sem_asserted \<and> (holding (spc s t) \<and> holding (spc s u) \<longrightarrow> t = u) \<and>
     (spc s t = Wait_block \<longrightarrow> notified (sem s) \<or> (\<exists>u. waking (spc s u)) \<or> (\<exists>u. holding (spc s u)))"
proof -
  have inv: "sem_inv s" using sem_reach_inv [OF assms] .
  have pos: "0 \<le> count waiting (spc s)" "0 \<le> count holding (spc s)" "0 \<le> count waking (spc s)" by (simp_all add: count_nonneg)
  have "count holding (spc s) \<le> 1" using inv pos by (cases "notified (sem s)") (auto simp: sem_inv_def of_bool_def split: if_splits)
  moreover have "notified (sem s) \<or> 0 < count waking (spc s) \<or> 0 < count holding (spc s)" if "spc s t = Wait_block"
    using count_pos [of waiting "spc s" t] that inv pos by (auto simp: sem_inv_def of_bool_def split: if_splits)
  ultimately show ?thesis using inv count_one [of holding "spc s" t u] count_ex [of waking "spc s"] count_ex [of holding "spc s"]
    by (auto simp: sem_inv_def simp del: holding.simps)
qed

definition sem_dec :: "int \<Rightarrow> int option" where
  "sem_dec v = (if v = INT_MIN then None else Some (v - 1))"

theorem sem_excludes_witness:
  "\<exists>s. reach (sem_step sem_dec (\<lambda>v. v + 1)) sem_start s \<and> atomic_ok sem_dec (\<lambda>v. v + 1) \<and> spc s 2 = Wait_block \<and> \<not> notified (sem s) \<and> (\<exists>u. waking (spc s u))"
proof -
  let ?as = "[Call_wait 1, Call_wait 2, Run_wait 1, Run_wait 2, Call_post 1, Run_post 1]"
  have ok: "atomic_ok sem_dec (\<lambda>v. v + 1)" by (simp add: atomic_ok_def sem_dec_def)
  have "\<exists>s. runs (sem_step sem_dec (\<lambda>v. v + 1)) ?as sem_start = Some s \<and> spc s 2 = Wait_block \<and> \<not> notified (sem s) \<and> (\<forall>u. \<not> holding (spc s u))"
    by (simp add: sem_start_def sync_mutex_init_def sem_dec_def INT_MIN_def)
  then obtain s where s: "runs (sem_step sem_dec (\<lambda>v. v + 1)) ?as sem_start = Some s" "spc s 2 = Wait_block" "\<not> notified (sem s)" "\<forall>u. \<not> holding (spc s u)"
    by blast
  have r: "reach (sem_step sem_dec (\<lambda>v. v + 1)) sem_start s" using runs_reach [OF s(1) reach_refl] .
  with s ok sem_excludes [OF r ok, of 2 1] show ?thesis by blast
qed

end
