(* ===== verification/Pico_Ipv4.thy ===== *)
theory Pico_Ipv4
  imports Pico_Compare C_Memory
begin

text \<open>
  Addresses of \<open>pico_ipv4.c\<close>: their textual form, netmasks and the classes of addresses. An address is a word in network order: its first octet is the lowest byte. A string in C is the list of
  its characters up to the terminating 0; reading on behind the end of the list is undefined behaviour.
\<close>

section \<open>The functions\<close>

definition octet :: "u32 \<Rightarrow> nat \<Rightarrow> byte" where
  "octet ip i = ucast (drop_bit (8 * i) ip)"

definition chr :: "nat \<Rightarrow> char" where
  "chr n = char_of (of_char (CHR ''0'') + n)"

text \<open>What the loop of \<open>pico_ipv4_to_string\<close> writes for an octet, and what the function writes at \<open>ipbuf\<close>.\<close>

definition octet_to_string :: "byte \<Rightarrow> string" where
  "octet_to_string a = (let n = unat a in
     if n > 99 then [chr (n div 100), chr ((n mod 100) div 10), chr ((n mod 100) mod 10)]
     else if n > 9 then [chr (n div 10), chr (n mod 10)]
     else [chr n])"

definition pico_ipv4_to_string :: "u32 \<Rightarrow> string" where
  "pico_ipv4_to_string ip =
     concat (map (\<lambda>i. octet_to_string (octet ip i) @ (if i < 3 then ''.'' else [])) [0..<4]) @ [CHR 0x00]"

definition pico_is_digit :: "char \<Rightarrow> bool" where
  "pico_is_digit c \<longleftrightarrow> \<not> ((of_char c :: nat) < of_char (CHR ''0'') \<or> (of_char c :: nat) > of_char (CHR ''9''))"

text \<open>The loop of \<open>pico_string_to_ipv4\<close>: the buffer and the number of dots, or \<open>Inl ()\<close> where the function returns -1.\<close>

fun parse_ipv4 :: "string \<Rightarrow> byte list \<Rightarrow> nat \<Rightarrow> (unit + byte list \<times> nat) option" where
  "parse_ipv4 [] buf cnt = None"
| "parse_ipv4 (p # ipstr) buf cnt =
     (if p \<noteq> CHR 0x00 \<and> cnt < 4 then
        (if pico_is_digit p then do {
           b \<leftarrow> arr_get buf cnt;
           buf \<leftarrow> arr_set buf cnt (10 * b + of_nat (of_char p - of_char (CHR ''0'')));
           parse_ipv4 ipstr buf cnt
         }
         else if p = CHR ''.'' then parse_ipv4 ipstr buf (cnt + 1)
         else Some (Inl ()))
      else Some (Inr (buf, cnt)))"

definition long_from :: "byte list \<Rightarrow> u32" where
  "long_from p = push_bit 24 (ucast (p ! 3)) + push_bit 16 (ucast (p ! 2)) + push_bit 8 (ucast (p ! 1)) + ucast (p ! 0)"

text \<open>The result and what is written to \<open>*ip\<close>, if anything is.\<close>

definition pico_string_to_ipv4 :: "string \<Rightarrow> (int \<times> u32 option) option" where
  "pico_string_to_ipv4 ipstr = do {
     r \<leftarrow> parse_ipv4 ipstr [0, 0, 0, 0] 0;
     case r of Inl _ \<Rightarrow> Some (- 1, None)
     | Inr (buf, cnt) \<Rightarrow>
         if cnt = 1 then Some (0, Some (long_from (buf[3 := buf ! 1, 1 := 0, 2 := 0])))
         else if cnt = 2 then Some (0, Some (long_from (buf[3 := buf ! 2, 2 := 0])))
         else if cnt \<noteq> 3 then Some (- 1, None)
         else Some (0, Some (long_from buf))
   }"

text \<open>The loop over the bits of the mask, from the highest on, with \<open>cnt\<close> and \<open>end\<close>; the result -1 if a bit is set after one that is not.\<close>

fun netmask_loop :: "u32 \<Rightarrow> nat list \<Rightarrow> int \<Rightarrow> bool \<Rightarrow> int" where
  "netmask_loop m [] cnt e = cnt"
| "netmask_loop m (i # is) cnt e =
     (if push_bit i m AND 0x80000000 \<noteq> 0 then (if e then - 1 else netmask_loop m is (cnt + 1) e)
      else netmask_loop m is cnt True)"

definition pico_ipv4_valid_netmask :: "u32 \<Rightarrow> int" where
  "pico_ipv4_valid_netmask m = netmask_loop (long_be m) [0..<32] 0 False"

definition pico_ipv4_is_unicast :: "u32 \<Rightarrow> bool" where
  "pico_ipv4_is_unicast address = (octet address 0 AND 0xe0 \<noteq> 0xe0)"

definition pico_ipv4_is_multicast :: "u32 \<Rightarrow> bool" where
  "pico_ipv4_is_multicast address = (octet address 0 \<noteq> 0xff \<and> octet address 0 AND 0xe0 = 0xe0)"

definition pico_ipv4_is_loopback :: "u32 \<Rightarrow> bool" where
  "pico_ipv4_is_loopback address = (octet address 0 = 0x7f)"

section \<open>Printing and parsing\<close>

lemma of_char_chr: "n < 10 \<Longrightarrow> of_char (chr n) = 48 + n"
  by (simp add: chr_def of_char_of)

lemma chr_digit:
  assumes "n < 10"
  shows "pico_is_digit (chr n)" and "chr n \<noteq> CHR 0x00" and "of_char (chr n) - (of_char (CHR ''0'') :: nat) = n"
proof -
  have c: "(of_char (chr n) :: nat) = 48 + n" using of_char_chr [OF assms] .
  show "pico_is_digit (chr n)" using assms by (simp add: pico_is_digit_def c)
  show "chr n \<noteq> CHR 0x00" using c by auto
  show "of_char (chr n) - (of_char (CHR ''0'') :: nat) = n" by (simp add: c)
qed

lemma parse_digit:
  "n < 10 \<Longrightarrow> cnt < 4 \<Longrightarrow> length buf = 4 \<Longrightarrow> parse_ipv4 (chr n # cs) buf cnt = parse_ipv4 cs (buf[cnt := 10 * buf ! cnt + of_nat n]) cnt"
  by (simp add: chr_digit of_char_chr)

lemma three_digits: "10 * (10 * (n div 100) + n mod 100 div 10) + n mod 100 mod 10 = (n :: nat)"
proof -
  have "10 * (10 * q + x) + y = 100 * q + (10 * x + y)" for q x y :: nat by simp
  then show ?thesis by (simp only: mult_div_mod_eq)
qed

lemma parse_octet:
  assumes "cnt < 4" and "length buf = 4" and "buf ! cnt = 0"
  shows "parse_ipv4 (octet_to_string b @ cs) buf cnt = parse_ipv4 cs (buf[cnt := b]) cnt"
proof -
  let ?n = "unat b"
  have n: "?n < 256" using unsigned_less [of b, where ?'a = nat] by simp
  then have d: "?n div 100 < 10" "?n mod 100 div 10 < 10" "?n mod 100 mod 10 < 10" by auto
  show ?thesis
  proof (cases "?n > 99")
    case True
    have "(of_nat (10 * (10 * (?n div 100) + ?n mod 100 div 10) + ?n mod 100 mod 10) :: byte) = b" by (simp only: three_digits) simp
    then have "(10 * (10 * of_nat (?n div 100) + of_nat (?n mod 100 div 10)) + of_nat (?n mod 100 mod 10) :: byte) = b"
      by (simp only: of_nat_add of_nat_mult of_nat_numeral)
    then show ?thesis using True d assms by (simp add: octet_to_string_def Let_def parse_digit del: parse_ipv4.simps)
  next
    case False
    show ?thesis
    proof (cases "?n > 9")
      case True
      have "?n div 10 < 10" using False by (simp add: div_less_iff_less_mult)
      moreover have "(of_nat (10 * (?n div 10) + ?n mod 10) :: byte) = b" by (simp only: mult_div_mod_eq) simp
      then have "(10 * of_nat (?n div 10) + of_nat (?n mod 10) :: byte) = b" by (simp only: of_nat_add of_nat_mult of_nat_numeral)
      ultimately show ?thesis using True False assms by (simp add: octet_to_string_def Let_def parse_digit del: parse_ipv4.simps)
    next
      case small: False
      then show ?thesis using False assms by (simp add: octet_to_string_def Let_def parse_digit del: parse_ipv4.simps)
    qed
  qed
qed

lemma parse_dot: "cnt < 4 \<Longrightarrow> parse_ipv4 (CHR ''.'' # cs) buf cnt = parse_ipv4 cs buf (cnt + 1)"
  by (simp add: pico_is_digit_def)

lemma long_from_octets: "long_from [octet ip 0, octet ip 1, octet ip 2, octet ip 3] = ip"
proof -
  let ?o = "\<lambda>i. ucast (octet ip i) :: u32"
  have b: "bit (?o i) n \<longleftrightarrow> n < 8 \<and> bit ip (8 * i + n)" for i n by (auto simp: octet_def bit_simps)
  have "push_bit 24 (?o 3) + push_bit 16 (?o 2) = push_bit 24 (?o 3) OR push_bit 16 (?o 2)"
    by (rule disjunctive_add) (auto simp: b bit_push_bit_iff)
  moreover have "(push_bit 24 (?o 3) OR push_bit 16 (?o 2)) + push_bit 8 (?o 1) = push_bit 24 (?o 3) OR push_bit 16 (?o 2) OR push_bit 8 (?o 1)"
    by (subst disjunctive_add) (auto simp: b bit_push_bit_iff bit_or_iff or.assoc)
  moreover have "(push_bit 24 (?o 3) OR push_bit 16 (?o 2) OR push_bit 8 (?o 1)) + ?o 0 = push_bit 24 (?o 3) OR push_bit 16 (?o 2) OR push_bit 8 (?o 1) OR ?o 0"
    by (subst disjunctive_add) (auto simp: b bit_push_bit_iff bit_or_iff or.assoc)
  ultimately have "long_from [octet ip 0, octet ip 1, octet ip 2, octet ip 3] = push_bit 24 (?o 3) OR push_bit 16 (?o 2) OR push_bit 8 (?o 1) OR ?o 0"
    by (simp add: long_from_def or.assoc)
  also have "\<dots> = ip"
  proof (rule bit_word_eqI)
    fix n
    assume "n < LENGTH(32)"
    then consider "n < 8" | "8 \<le> n" "n < 16" | "16 \<le> n" "n < 24" | "24 \<le> n" "n < 32" by fastforce
    then show "bit (push_bit 24 (?o 3) OR push_bit 16 (?o 2) OR push_bit 8 (?o 1) OR ?o 0) n = bit ip n"
      by cases (auto simp: b bit_push_bit_iff bit_or_iff)
  qed
  finally show ?thesis .
qed

lemma parse_to_string: "parse_ipv4 (pico_ipv4_to_string ip) [0, 0, 0, 0] 0 = Some (Inr ([octet ip 0, octet ip 1, octet ip 2, octet ip 3], 3))"
proof -
  have s: "pico_ipv4_to_string ip = octet_to_string (octet ip 0) @ CHR ''.'' # octet_to_string (octet ip 1) @ CHR ''.'' #
     octet_to_string (octet ip 2) @ CHR ''.'' # octet_to_string (octet ip 3) @ [CHR 0x00]"
    by (simp add: pico_ipv4_to_string_def upt_rec numeral_2_eq_2 numeral_3_eq_3)
  show ?thesis unfolding s by (simp add: parse_octet parse_dot del: parse_ipv4.simps) simp
qed

text \<open>
  C32. The textual form of an address is read back as the address, for every address.
\<close>

theorem ipv4_string_roundtrip: "pico_string_to_ipv4 (pico_ipv4_to_string ip) = Some (0, Some ip)"
  by (simp add: pico_string_to_ipv4_def parse_to_string long_from_octets [simplified])

section \<open>Netmasks\<close>

lemma top_bit: "i < 32 \<Longrightarrow> push_bit i (m :: u32) AND 0x80000000 \<noteq> 0 \<longleftrightarrow> bit m (31 - i)"
proof -
  assume i: "i < 32"
  have "(0x80000000 :: u32) = push_bit 31 1" by simp
  then have b: "bit (0x80000000 :: u32) k \<longleftrightarrow> k = 31" for k by (simp only: bit_push_bit_iff) (auto simp: bit_1_iff)
  have "push_bit i m AND 0x80000000 = 0 \<longleftrightarrow> \<not> bit (push_bit i m) 31"
  proof
    assume "push_bit i m AND 0x80000000 = 0"
    then have "bit (push_bit i m AND 0x80000000) 31 = bit (0 :: u32) 31" by (rule arg_cong)
    then have "\<not> bit (push_bit i m AND 0x80000000) 31" by (simp only: bit_0_eq bot_apply bot_bool_def not_False_eq_True)
    then show "\<not> bit (push_bit i m) 31" by (simp only: bit_and_iff b simp_thms)
  next
    assume no: "\<not> bit (push_bit i m) 31"
    show "push_bit i m AND 0x80000000 = 0"
    proof (rule bit_word_eqI)
      show "bit (push_bit i m AND 0x80000000) k = bit (0 :: u32) k" for k using no unfolding bit_and_iff b by auto
    qed
  qed
  then show ?thesis using i by (simp add: bit_push_bit_iff)
qed

lemma netmask_loop_end: "\<forall>i \<in> set is. i < 32 \<Longrightarrow> netmask_loop m is cnt True = (if \<exists>i \<in> set is. bit m (31 - i) then - 1 else cnt)"
  by (induction "is") (auto simp: top_bit)

lemma netmask_loop_ge: "\<forall>i \<in> set is. i < 32 \<Longrightarrow> netmask_loop m is cnt False = - 1 \<or> cnt \<le> netmask_loop m is cnt False"
proof (induction "is" arbitrary: cnt)
  case (Cons i "is")
  have "netmask_loop m is (cnt + 1) False = - 1 \<or> cnt + 1 \<le> netmask_loop m is (cnt + 1) False" using Cons by simp
  then show ?case using netmask_loop_end [of "is" m cnt] Cons.prems by (auto split: if_splits)
qed simp

lemma all_Suc_less: "(\<forall>j < Suc n. P j) \<longleftrightarrow> P 0 \<and> (\<forall>j < n. P (Suc j))"
  by (auto simp: less_Suc_eq_0_disj)

lemma netmask_loop_result:
  assumes "\<forall>i \<in> set is. i < 32" and "0 \<le> cnt" and "n \<le> length is"
  shows "netmask_loop m is cnt False = cnt + int n \<longleftrightarrow> (\<forall>j < length is. bit m (31 - is ! j) \<longleftrightarrow> j < n)"
  using assms
proof (induction "is" arbitrary: cnt n)
  case (Cons i "is")
  show ?case
  proof (cases "bit m (31 - i)")
    case True
    show ?thesis
    proof (cases n)
      case 0
      have "netmask_loop m is (cnt + 1) False \<noteq> cnt" using netmask_loop_ge [of "is" m "cnt + 1"] Cons.prems by auto
      then show ?thesis using True 0 Cons.prems by (auto simp: top_bit)
    next
      case (Suc k)
      with Cons.IH [of "cnt + 1" k] Cons.prems True show ?thesis by (auto simp: top_bit less_Suc_eq_0_disj all_conj_distrib)
    qed
  next
    case False
    have "netmask_loop m (i # is) cnt False = cnt + int n \<longleftrightarrow> n = 0 \<and> (\<forall>x \<in> set is. \<not> bit m (31 - x))"
      using False Cons.prems netmask_loop_end [of "is" m cnt] by (auto simp: top_bit)
    also have "\<dots> \<longleftrightarrow> n = 0 \<and> (\<forall>j < length is. \<not> bit m (31 - is ! j))" by (simp add: all_set_conv_all_nth)
    also have "\<dots> \<longleftrightarrow> (\<forall>j < length (i # is). bit m (31 - (i # is) ! j) \<longleftrightarrow> j < n)" using False by (cases n) (auto simp: all_Suc_less)
    finally show ?thesis .
  qed
qed simp

text \<open>
  The test of netmasks is exact: its result is \<open>n\<close> if and only if the first \<open>n\<close> bits of the mask, in network order, are set and no others.
\<close>

lemma valid_netmask_exact:
  assumes "n \<le> 32"
  shows "pico_ipv4_valid_netmask m = int n \<longleftrightarrow> (\<forall>j < 32. bit (long_be m) (31 - j) \<longleftrightarrow> j < n)"
  using netmask_loop_result [of "[0..<32]" 0 n "long_be m"] assms by (simp add: pico_ipv4_valid_netmask_def)

end
