(* ===== verification/Pico_Checksum.thy ===== *)
theory Pico_Checksum
  imports C_Memory
begin

text \<open>
  The checksum of the network stack: the functions at the end of \<open>pico_frame.c\<close>, and those of \<open>pico_ipv4.c\<close> that fill in and test the checksum of a header. The processor is little endian.
  A header is the memory at \<open>net_hdr\<close>, with \<open>net_len\<close> bytes; its checksum is at the offset 10.
\<close>

section \<open>The functions\<close>

definition short_be :: "u16 \<Rightarrow> u16" where
  "short_be le = push_bit 8 (le AND 0xFF) OR (drop_bit 8 le AND 0xFF)"

text \<open>The loop over the 16-bit words between \<open>buf\<close> and \<open>stop\<close>, of which there are \<open>n\<close>.\<close>

primrec add_words :: "nat \<Rightarrow> u64 \<Rightarrow> u32 \<Rightarrow> mem \<Rightarrow> u32 option" where
  "add_words 0 buf acc m = Some acc"
| "add_words (Suc n) buf acc m = do {
     v \<leftarrow> load_le m buf 2;
     add_words n (buf + 2) (acc + of_nat v) m
   }"

definition pico_checksum_adder :: "u32 \<Rightarrow> u64 \<Rightarrow> u32 \<Rightarrow> mem \<Rightarrow> u32 option" where
  "pico_checksum_adder acc data len m = do {
     (acc, len) \<leftarrow> (if len AND 1 \<noteq> 0 then do {
                       let len = len - 1;
                       b \<leftarrow> m (data + ucast len);
                       Some (acc + ucast b, len)
                     } else Some (acc, len));
     add_words (unat len div 2) data acc m
   }"

lemma fold_less:
  fixes s :: u32
  assumes "drop_bit 16 s \<noteq> 0"
  shows "unat ((s AND 0xFFFF) + drop_bit 16 s) = unat s mod 65536 + unat s div 65536" and "unat s mod 65536 + unat s div 65536 < unat s"
proof -
  have "s AND 0xFFFF = take_bit 16 s" by (simp add: take_bit_eq_mask mask_eq_exp_minus_1)
  then have m: "unat (s AND 0xFFFF) = unat s mod 65536" by (simp add: unat_mod take_bit_eq_mod)
  have d: "unat (drop_bit 16 s) = unat s div 65536" by (simp add: unat_div drop_bit_eq_div)
  have "unat s < 2 ^ 32" using unsigned_less [of s, where ?'a = nat] by simp
  then have q: "unat s div 65536 < 65536" by (simp add: div_less_iff_less_mult)
  have r: "unat s mod 65536 < 65536" by simp
  show "unat ((s AND 0xFFFF) + drop_bit 16 s) = unat s mod 65536 + unat s div 65536" using q r m d by (simp add: unat_plus_if')
  have "unat (drop_bit 16 s) \<noteq> 0" using assms by (simp add: unat_eq_zero)
  then have "0 < unat s div 65536" using d by simp
  moreover have "unat s = 65536 * (unat s div 65536) + unat s mod 65536" by simp
  ultimately show "unat s mod 65536 + unat s div 65536 < unat s" by linarith
qed

function fold_carries :: "u32 \<Rightarrow> u32" where
  "fold_carries acc = (if drop_bit 16 acc \<noteq> 0 then fold_carries ((acc AND 0xFFFF) + drop_bit 16 acc) else acc)"
  by auto

termination
  by (relation "measure unat") (auto simp: fold_less)

declare fold_carries.simps [simp del]

definition pico_checksum_finalize :: "u32 \<Rightarrow> u16" where
  "pico_checksum_finalize acc = short_be (ucast (NOT (fold_carries acc)))"

definition pico_checksum :: "u64 \<Rightarrow> u32 \<Rightarrow> mem \<Rightarrow> u16 option" where
  "pico_checksum inbuf len m = do {
     acc \<leftarrow> pico_checksum_adder 0 inbuf len m;
     Some (pico_checksum_finalize acc)
   }"

definition pico_dualbuffer_checksum :: "u64 \<Rightarrow> u32 \<Rightarrow> u64 \<Rightarrow> u32 \<Rightarrow> mem \<Rightarrow> u16 option" where
  "pico_dualbuffer_checksum inbuf1 len1 inbuf2 len2 m = do {
     acc \<leftarrow> pico_checksum_adder 0 inbuf1 len1 m;
     acc \<leftarrow> pico_checksum_adder acc inbuf2 len2 m;
     Some (pico_checksum_finalize acc)
   }"

definition le_bytes :: "u16 \<Rightarrow> byte list" where
  "le_bytes v = [ucast v, ucast (drop_bit 8 v)]"

definition pico_ipv4_checksum :: "u64 \<Rightarrow> u16 \<Rightarrow> mem \<Rightarrow> (int \<times> mem) option" where
  "pico_ipv4_checksum net_hdr net_len m = (if net_hdr = 0 then Some (- 1, m) else do {
     m \<leftarrow> store_bytes m (net_hdr + 10) (le_bytes 0);
     c \<leftarrow> pico_checksum net_hdr (ucast net_len) m;
     m \<leftarrow> store_bytes m (net_hdr + 10) (le_bytes (short_be c));
     Some (0, m)
   })"

text \<open>The frame of a header that is not accepted is discarded.\<close>

definition pico_ipv4_crc_check :: "u64 \<Rightarrow> u16 \<Rightarrow> mem \<Rightarrow> int option" where
  "pico_ipv4_crc_check net_hdr net_len m = do {
     c \<leftarrow> pico_checksum net_hdr (ucast net_len) m;
     Some (if short_be c \<noteq> 0 then 0 else 1)
   }"

section \<open>The sum of the words\<close>

fun words_sum :: "byte list \<Rightarrow> nat" where
  "words_sum [] = 0"
| "words_sum [a] = unat a"
| "words_sum (a # b # bs) = unat a + 256 * unat b + words_sum bs"

lemma add_words_sum:
  "load_bytes m a (2 * n) = Some bs \<Longrightarrow> add_words n a acc m = Some (acc + of_nat (words_sum bs))"
proof (induction n arbitrary: a bs acc)
  case (Suc n)
  then obtain b c cs where "m a = Some b" "m (a + 1) = Some c" "load_bytes m (a + 1 + 1) (2 * n) = Some cs" "bs = b # c # cs"
    by (auto elim!: bind_SomeE)
  with Suc.IH [of "a + 2" cs] show ?case by (simp add: numeral_2_eq_2 add.assoc)
qed simp

lemma words_sum_append: "even (length xs) \<Longrightarrow> words_sum (xs @ ys) = words_sum xs + words_sum ys"
  by (induction xs rule: words_sum.induct) auto

lemma words_sum_le: "words_sum bs \<le> 65535 * ((length bs + 1) div 2)"
proof (induction bs rule: words_sum.induct)
  case (2 a)
  have "unat a < 256" using unsigned_less [of a, where ?'a = nat] by simp
  then show ?case by simp
next
  case (3 a b bs)
  have "unat a < 256" "unat b < 256" using unsigned_less [of a, where ?'a = nat] unsigned_less [of b, where ?'a = nat] by simp_all
  with 3 show ?case by simp
qed simp

lemma ucast_of_unat: "(ucast (w :: u32) :: u64) = of_nat (unat w)"
  by simp

lemma adder_sum:
  assumes "load_bytes m a n = Some bs" and "n < 2 ^ 32"
  shows "pico_checksum_adder acc a (of_nat n) m = Some (acc + of_nat (words_sum bs))"
proof -
  have u: "unat (of_nat n :: u32) = n" using assms(2) by (simp add: unat_of_nat)
  have "unat ((of_nat n :: u32) AND 1) = n mod 2" using u by (simp add: and_one_eq unat_mod)
  then have odd: "(of_nat n :: u32) AND 1 \<noteq> 0 \<longleftrightarrow> odd n" by (metis unat_eq_zero even_iff_mod_2_eq_zero)
  show ?thesis
  proof (cases "even n")
    case True
    then show ?thesis using add_words_sum [of m a "n div 2" bs acc] assms(1) odd u by (simp add: pico_checksum_adder_def)
  next
    case False
    then obtain k where k: "n = Suc (2 * k)" by (auto elim: oddE)
    have bs: "length bs = n" "m (a + of_nat (2 * k)) = Some (bs ! (2 * k))" using load_bytes_nth [OF assms(1)] k by auto
    have t: "load_bytes m a (2 * k) = Some (take (2 * k) bs)" using load_bytes_take [OF assms(1)] k by simp
    have "bs = take (2 * k) bs @ [bs ! (2 * k)]" using bs(1) k by (metis lessI take_Suc_conv_app_nth take_all le_refl)
    then have s: "words_sum bs = words_sum (take (2 * k) bs) + unat (bs ! (2 * k))"
      using words_sum_append [of "take (2 * k) bs" "[bs ! (2 * k)]"] bs(1) k by simp
    have e1: "(of_nat n :: u32) - 1 = of_nat (2 * k)" by (simp add: k)
    have e2: "unat (of_nat (2 * k) :: u32) = 2 * k" using assms(2) k by (simp add: unat_of_nat del: of_nat_mult)
    have e3: "(ucast (of_nat (2 * k) :: u32) :: u64) = of_nat (2 * k)" using e2 by (metis ucast_of_unat)
    show ?thesis using False odd bs(2) add_words_sum [OF t, of "acc + ucast (bs ! (2 * k))"] unfolding pico_checksum_adder_def Let_def e1 e3 s
      by (simp add: e2 add.assoc add.commute add.left_commute del: of_nat_mult)
  qed
qed

lemma fold_carries_mod: "unat (fold_carries s) < 65536 \<and> unat (fold_carries s) mod 65535 = unat s mod 65535 \<and> (fold_carries s = 0 \<longleftrightarrow> s = 0)"
proof (induction s rule: fold_carries.induct)
  case (1 s)
  have d: "unat (drop_bit 16 s) = unat s div 65536" by (simp add: unat_div drop_bit_eq_div)
  show ?case
  proof (cases "drop_bit 16 s = 0")
    case True
    then have "unat s div 65536 = 0" using d by simp
    then have "unat s < 65536" by (simp add: div_eq_0_iff)
    with True show ?thesis by (simp add: fold_carries.simps [of s])
  next
    case False
    let ?s = "(s AND 0xFFFF) + drop_bit 16 s"
    have f: "fold_carries s = fold_carries ?s" using False by (simp add: fold_carries.simps [of s])
    have u: "unat ?s = unat s mod 65536 + unat s div 65536" using fold_less(1) [OF False] .
    have "unat s = 65535 * (unat s div 65536) + unat ?s" unfolding u by (simp add: minus_mod_eq_mult_div [symmetric])
    then have "unat s mod 65535 = unat ?s mod 65535" by (metis mod_mult_self4)
    moreover have "?s \<noteq> 0" "s \<noteq> 0" using u d False by (auto simp: unat_eq_zero [symmetric])
    ultimately show ?thesis using 1 [OF False] unfolding f by simp
  qed
qed

lemma load_bytes_put_part:
  assumes "load_bytes m a n = Some (xs @ zs @ ys)" and "length zs' = length zs" and "n \<le> 2 ^ 32"
  shows "load_bytes (put (a + of_nat (length xs)) zs' m) a n = Some (xs @ zs' @ ys)"
proof -
  let ?m = "put (a + of_nat (length xs)) zs' m"
  have l: "length (xs @ zs @ ys) = n" and nth: "\<And>i. i < n \<Longrightarrow> m (a + of_nat i) = Some ((xs @ zs @ ys) ! i)"
    using load_bytes_nth [OF assms(1)] by auto
  have "?m (a + of_nat i) = Some ((xs @ zs' @ ys) ! i)" if i: "i < n" for i
  proof -
    have u: "unat (of_nat i :: u64) = i" "unat (of_nat (length xs) :: u64) = length xs"
      using i l assms(3) by (auto intro!: unat_of_nat_u64)
    have "unat (a + of_nat i - (a + of_nat (length xs))) = (if length xs \<le> i then i - length xs else i + 2 ^ 64 - length xs)"
      using unat_sub_if' [of "of_nat i :: u64" "of_nat (length xs)"] u by (simp add: word_le_nat_alt)
    then show ?thesis using nth [OF i] l assms(2,3) i by (auto simp: put_def nth_append)
  qed
  moreover from this have "readable ?m a n" by (simp add: readable_def)
  then obtain cs where cs: "load_bytes ?m a n = Some cs" using load_bytes_readable by blast
  ultimately have "cs = xs @ zs' @ ys" using load_bytes_nth [OF cs] l assms(2) by (intro nth_equalityI) auto
  with cs show ?thesis by simp
qed

lemma short_be_short_be [simp]: "short_be (short_be x) = x"
proof (rule bit_word_eqI)
  have e: "(0xFF :: u16) = mask 8" by (simp add: mask_eq_exp_minus_1)
  fix n
  assume "n < LENGTH(16)"
  then show "bit (short_be (short_be x)) n = bit x n"
    unfolding short_be_def e by (cases "n < 8") (auto simp: bit_push_bit_iff bit_or_iff bit_and_iff bit_drop_bit_eq bit_mask_iff)
qed

lemma unat_not_u16: "unat (NOT x) = 65535 - unat x" for x :: u16
proof -
  have "NOT x = - 1 - x" by (simp add: not_eq_complement)
  moreover have "unat (- 1 :: u16) = 65535" by (simp add: unsigned_minus_1_eq_mask mask_eq_exp_minus_1)
  moreover have "x \<le> - 1" by (rule word_order.extremum)
  ultimately show ?thesis by (simp add: unat_sub)
qed

lemma pico_checksum_sum:
  assumes "load_bytes m a n = Some bs" and "n < 65536"
  shows "\<exists>c. pico_checksum a (of_nat n) m = Some c \<and> unat (short_be c) + unat (fold_carries (of_nat (words_sum bs))) = 65535 \<and> words_sum bs < 2 ^ 32"
proof -
  have l: "length bs = n" using load_bytes_nth [OF assms(1)] by simp
  have "words_sum bs \<le> 65535 * ((n + 1) div 2)" using words_sum_le [of bs] l by simp
  also have "\<dots> \<le> 65535 * 32768" using assms(2) by (intro mult_le_mono) auto
  finally have small: "words_sum bs < 2 ^ 32" by simp
  let ?f = "fold_carries (of_nat (words_sum bs))"
  have f: "unat ?f < 65536" using fold_carries_mod by blast
  have "(ucast (NOT ?f) :: u16) = NOT (ucast ?f)" by (rule bit_word_eqI) (auto simp: bit_simps)
  moreover have "unat (ucast ?f :: u16) = unat ?f" using f by (simp add: unsigned_ucast_eq take_bit_nat_eq_self)
  ultimately have "unat (ucast (NOT ?f) :: u16) = 65535 - unat ?f" using unat_not_u16 by simp
  then show ?thesis using adder_sum [OF assms(1), of 0] assms(2) small f by (simp add: pico_checksum_def pico_checksum_finalize_def)
qed

lemma of_nat_unat_u16: "(ucast (w :: u16) :: u32) = of_nat (unat w)"
  by simp

lemma ucast_len:
  assumes "n < 65536"
  shows "(ucast (of_nat n :: u16) :: u32) = of_nat n"
proof -
  have "unat (of_nat n :: u16) = n" using assms by (simp add: unat_of_nat)
  then show ?thesis by (simp only: of_nat_unat_u16)
qed

lemma crc_check_sum:
  assumes "load_bytes m a n = Some bs" and "n < 65536"
  shows "pico_ipv4_crc_check a (of_nat n) m = Some (if 0 < words_sum bs \<and> words_sum bs mod 65535 = 0 then 1 else 0)"
proof -
  obtain c where c: "pico_checksum a (of_nat n) m = Some c" "unat (short_be c) + unat (fold_carries (of_nat (words_sum bs))) = 65535" "words_sum bs < 2 ^ 32"
    using pico_checksum_sum [OF assms] by blast
  let ?f = "fold_carries (of_nat (words_sum bs))"
  have n: "(ucast (of_nat n :: u16) :: u32) = of_nat n" using ucast_len [OF assms(2)] .
  have u: "unat (of_nat (words_sum bs) :: u32) = words_sum bs" using c(3) by (simp add: unat_of_nat)
  have z: "(of_nat (words_sum bs) :: u32) = 0 \<longleftrightarrow> words_sum bs = 0" by (simp only: unat_eq_zero [symmetric] u)
  have "short_be c = 0 \<longleftrightarrow> unat ?f = 65535" using c(2) unat_eq_zero [of "short_be c"] by linarith
  also have "\<dots> \<longleftrightarrow> 0 < words_sum bs \<and> words_sum bs mod 65535 = 0"
  proof
    assume "unat ?f = 65535"
    with fold_carries_mod [of "of_nat (words_sum bs)"] u z show "0 < words_sum bs \<and> words_sum bs mod 65535 = 0" by auto
  next
    assume "0 < words_sum bs \<and> words_sum bs mod 65535 = 0"
    with fold_carries_mod [of "of_nat (words_sum bs)"] u z have "65535 dvd unat ?f" "unat ?f < 65536" "0 < unat ?f"
      by (auto simp: dvd_eq_mod_eq_0 unat_gt_0)
    then show "unat ?f = 65535" by (auto elim!: dvdE)
  qed
  finally show ?thesis using c(1) n by (simp add: pico_ipv4_crc_check_def)
qed

section \<open>Checksums that verify\<close>

lemma le_bytes_sum: "words_sum (le_bytes v @ bs) = unat v + words_sum bs"
proof -
  have "unat (ucast v :: byte) = unat v mod 256" by (simp add: unsigned_ucast_eq take_bit_eq_mod)
  moreover have "unat (ucast (drop_bit 8 v) :: byte) = unat v div 256 mod 256"
    by (simp add: unsigned_ucast_eq take_bit_eq_mod unat_div drop_bit_eq_div)
  moreover have "unat v div 256 < 256" using unsigned_less [of v, where ?'a = nat] by (simp add: div_less_iff_less_mult)
  ultimately show ?thesis by (simp add: le_bytes_def)
qed

lemma store_le_bytes:
  assumes "load_bytes m a n = Some (xs @ zs @ ys)" and "length zs = 2" and "n \<le> 2 ^ 32"
  shows "store_bytes m (a + of_nat (length xs)) (le_bytes v) = Some (put (a + of_nat (length xs)) (le_bytes v) m)"
    and "load_bytes (put (a + of_nat (length xs)) (le_bytes v) m) a n = Some (xs @ le_bytes v @ ys)"
proof -
  have l: "length (le_bytes v) = 2" by (simp add: le_bytes_def)
  have "readable m a n" using load_bytes_nth [OF assms(1)] by (simp add: readable_def)
  moreover have "length xs + 2 \<le> n" using load_bytes_nth [OF assms(1)] assms(2) by auto
  ultimately have "readable m (a + of_nat (length xs)) 2" by (rule readable_part)
  then show "store_bytes m (a + of_nat (length xs)) (le_bytes v) = Some (put (a + of_nat (length xs)) (le_bytes v) m)"
    using l by (intro store_bytes_put) simp_all
  show "load_bytes (put (a + of_nat (length xs)) (le_bytes v) m) a n = Some (xs @ le_bytes v @ ys)"
    using load_bytes_put_part [OF assms(1) _ assms(3)] l assms(2) by simp
qed

text \<open>
  C21. A header that the stack gives a checksum is accepted by the test of the receiver: for every header in memory, of any length from 12 bytes on, filling in the checksum changes only its two
  bytes, and the test then accepts the header.
\<close>

theorem checksum_verifies:
  assumes "readable m hdr n" and "12 \<le> n" and "n < 65536" and "hdr \<noteq> 0"
  shows "\<exists>m'. pico_ipv4_checksum hdr (of_nat n) m = Some (0, m') \<and> pico_ipv4_crc_check hdr (of_nat n) m' = Some 1 \<and>
     (\<forall>a. 2 \<le> unat (a - (hdr + 10)) \<longrightarrow> m' a = m a)"
proof -
  from assms(1) obtain bs where bs: "load_bytes m hdr n = Some bs" "length bs = n" using load_bytes_readable by blast
  define xs zs ys where "xs = take 10 bs" and "zs = take 2 (drop 10 bs)" and "ys = drop 12 bs"
  have "drop 10 bs = zs @ ys" using append_take_drop_id [of 2 "drop 10 bs"] by (simp add: zs_def ys_def)
  then have split: "bs = xs @ zs @ ys" using append_take_drop_id [of 10 bs] by (simp add: xs_def)
  have l: "length xs = 10" "length zs = 2" using bs(2) assms(2) by (simp_all add: xs_def zs_def)
  let ?p = "\<lambda>v. put (hdr + 10) (le_bytes v)"
  have st: "store_bytes m' (hdr + 10) (le_bytes v) = Some (?p v m') \<and> load_bytes (?p v m') hdr n = Some (xs @ le_bytes v @ ys)"
    if "load_bytes m' hdr n = Some (xs @ zs' @ ys)" "length zs' = 2" for m' zs' v
    using store_le_bytes [OF that, of v] assms(3) by (simp add: l(1))
  have m1: "store_bytes m (hdr + 10) (le_bytes 0) = Some (?p 0 m)" "load_bytes (?p 0 m) hdr n = Some (xs @ le_bytes 0 @ ys)"
    using st [of m zs 0] bs(1) split l(2) by auto
  define S where "S = words_sum xs + words_sum ys"
  have sum: "words_sum (xs @ le_bytes v @ ys) = S + unat v" for v using words_sum_append [of xs] l(1) by (simp add: le_bytes_sum S_def)
  obtain c where c: "pico_checksum hdr (of_nat n) (?p 0 m) = Some c" "unat (short_be c) + unat (fold_carries (of_nat S)) = 65535" "S < 2 ^ 32"
    using pico_checksum_sum [OF m1(2) assms(3)] by (auto simp: sum)
  let ?f = "unat (fold_carries (of_nat S))"
  have m2: "store_bytes (?p 0 m) (hdr + 10) (le_bytes (short_be c)) = Some (?p (short_be c) (?p 0 m))"
    "load_bytes (?p (short_be c) (?p 0 m)) hdr n = Some (xs @ le_bytes (short_be c) @ ys)"
    using st [OF m1(2), of "short_be c"] by (auto simp: le_bytes_def)
  have u: "unat (of_nat S :: u32) = S" using c(3) by (simp add: unat_of_nat)
  note f = fold_carries_mod [of "of_nat S", unfolded u]
  have "(S + unat (short_be c)) mod 65535 = (?f + unat (short_be c)) mod 65535" using f by (intro mod_add_cong) auto
  also have "\<dots> = 0" using c(2) by (simp add: add.commute)
  finally have "(S + unat (short_be c)) mod 65535 = 0" .
  moreover have "0 < S + unat (short_be c)" using c(2) f by (cases "S = 0") auto
  ultimately have "pico_ipv4_crc_check hdr (of_nat n) (?p (short_be c) (?p 0 m)) = Some 1"
    using crc_check_sum [OF m2(2) assms(3)] by (simp add: sum)
  moreover have "pico_ipv4_checksum hdr (of_nat n) m = Some (0, ?p (short_be c) (?p 0 m))"
    using assms(3,4) m1(1) c(1) m2(1) ucast_len [of n] by (simp add: pico_ipv4_checksum_def)
  moreover have "?p (short_be c) (?p 0 m) a = m a" if "2 \<le> unat (a - (hdr + 10))" for a using that by (simp add: put_def le_bytes_def)
  ultimately show ?thesis by blast
qed

definition header_example :: "u64 \<Rightarrow> byte option" where
  "header_example a = (if a - 4096 < 20 then Some (if a = 4096 then 0x45 else ucast (a - 4096)) else None)"

theorem checksum_verifies_witness:
  "\<exists>m'. pico_ipv4_checksum 4096 20 header_example = Some (0, m') \<and> pico_ipv4_crc_check 4096 20 m' = Some 1"
proof -
  have "readable header_example 4096 20" unfolding readable_def
  proof (intro allI impI)
    fix i :: nat
    assume i: "i < 20"
    then have "unat (of_nat i :: u64) = i" by (intro unat_of_nat_u64) simp
    then have "(of_nat i :: u64) < 20" using i by (simp add: word_less_nat_alt)
    then show "header_example (4096 + of_nat i) \<noteq> None" by (simp add: header_example_def)
  qed
  then show ?thesis using checksum_verifies [of header_example 4096 20] by auto
qed

lemma add_mod_cancel: "((a :: nat) + b) mod k = (a + c) mod k \<Longrightarrow> b mod k = c mod k"
proof -
  have *: "b mod k = c mod k" if "(a + b) mod k = (a + c) mod k" "b \<le> c" for b c :: nat
  proof -
    have "k dvd (a + c) - (a + b)" using that by (intro mod_eq_dvd_iff_nat [THEN iffD1]) auto
    then show ?thesis using mod_eq_dvd_iff_nat [OF that(2), of k] by simp
  qed
  assume e: "(a + b) mod k = (a + c) mod k"
  show ?thesis using * [OF e] * [OF e [symmetric]] nat_le_linear [of b c] by metis
qed

lemma mod_65535_eq:
  assumes "(w :: nat) mod 65535 = v mod 65535" and "v < 65536" and "w < 65536"
  shows "v = w \<or> v = 0 \<and> w = 65535 \<or> v = 65535 \<and> w = 0"
proof -
  have "x mod 65535 = (if x = 65535 then 0 else x)" if "x < 65536" for x :: nat using that by auto
  with assms show ?thesis by (auto split: if_splits)
qed

text \<open>
  C36. The test of the receiver finds every change of one 16-bit word of a header: if a header is accepted and one of its words gets another value, the test rejects it, except where the one
  value is 0 and the other 0xFFFF, which the one's complement does not tell apart.
\<close>

theorem checksum_detects:
  assumes "load_bytes m hdr n = Some (xs @ le_bytes v @ ys)" and "even (length xs)" and "n < 65536" and "pico_ipv4_crc_check hdr (of_nat n) m = Some 1"
    and "w \<noteq> v" and "\<not> (v = 0 \<and> w = 0xFFFF \<or> v = 0xFFFF \<and> w = 0)"
  shows "pico_ipv4_crc_check hdr (of_nat n) (put (hdr + of_nat (length xs)) (le_bytes w) m) = Some 0"
proof -
  have l: "length (le_bytes u) = 2" for u by (simp add: le_bytes_def)
  let ?S = "words_sum xs + words_sum ys"
  have sum: "words_sum (xs @ le_bytes u @ ys) = ?S + unat u" for u using words_sum_append [OF assms(2)] by (simp add: le_bytes_sum)
  have ld: "load_bytes (put (hdr + of_nat (length xs)) (le_bytes w) m) hdr n = Some (xs @ le_bytes w @ ys)"
    using load_bytes_put_part [OF assms(1), of "le_bytes w"] l assms(3) by simp
  have "(?S + unat v) mod 65535 = 0" using crc_check_sum [OF assms(1,3)] assms(4) by (auto simp: sum split: if_splits)
  moreover have "(?S + unat w) mod 65535 \<noteq> 0"
  proof
    assume "(?S + unat w) mod 65535 = 0"
    with \<open>(?S + unat v) mod 65535 = 0\<close> have "unat w mod 65535 = unat v mod 65535" 
      using add_mod_cancel [of ?S "unat v" 65535 "unat w"] by simp
    moreover have "unat v < 65536" "unat w < 65536" using unsigned_less [of v, where ?'a = nat] unsigned_less [of w, where ?'a = nat] by simp_all
    ultimately have "unat v = unat w \<or> unat v = 0 \<and> unat w = 65535 \<or> unat v = 65535 \<and> unat w = 0" by (rule_tac mod_65535_eq)
    then show False using assms(5,6) by (auto simp: word_unat_eq_iff)
  qed
  ultimately show ?thesis using crc_check_sum [OF ld assms(3)] by (simp add: sum)
qed

theorem checksum_detects_witness:
  "pico_ipv4_crc_check 4096 4 (put (4096 + of_nat (length [0x34, 0x12 :: byte])) (le_bytes 0xEDCA) (put 4096 [0x34, 0x12, 0xCB, 0xED] Map.empty)) = Some 0"
proof -
  have le: "le_bytes 0xEDCB = [0xCB, 0xED]" by code_simp
  have four: "length [0x34, 0x12, 0xCB, 0xED :: byte] = 4" by simp
  have ld: "load_bytes (put 4096 [0x34, 0x12, 0xCB, 0xED] Map.empty) 4096 4 = Some ([0x34, 0x12] @ le_bytes 0xEDCB @ [])"
    using load_bytes_put [of "[0x34, 0x12, 0xCB, 0xED]" 4096 Map.empty] unfolding four le by simp
  have "words_sum ([0x34, 0x12] @ le_bytes 0xEDCB @ []) = 65535" by (simp add: le)
  then have "pico_ipv4_crc_check 4096 (of_nat 4) (put 4096 [0x34, 0x12, 0xCB, 0xED] Map.empty) = Some 1"
    using crc_check_sum [OF ld] by simp
  from checksum_detects [OF ld _ _ this, of "0xEDCA"] show ?thesis by simp
qed

end
