(* ===== verification/Serial.thy ===== *)
theory Serial
  imports Pico_Ipv4 Pico_Checksum
begin

text \<open>
  The network console: \<open>libserial/src/serial.c\<close>. The sockets of the network stack are a parameter, with a state of their own; they write what was received to the buffer and the address of the
  sender to \<open>peer\<close> and \<open>port\<close>. The handler of the client is a parameter too.
\<close>

section \<open>The functions\<close>

record 'w sockets =
  socket_open :: "'w \<Rightarrow> bool \<times> 'w"
  socket_bind :: "u16 \<Rightarrow> 'w \<Rightarrow> int \<times> 'w"
  socket_connect :: "u32 \<Rightarrow> u16 \<Rightarrow> 'w \<Rightarrow> int \<times> 'w"
  socket_recvfrom :: "'w \<Rightarrow> int \<times> byte list \<times> u32 \<times> u16 \<times> 'w"
  socket_sendto :: "byte list \<Rightarrow> u32 \<Rightarrow> u16 \<Rightarrow> 'w \<Rightarrow> int \<times> 'w"

record serial =
  pico_socket :: bool
  s_peer :: u32
  s_port :: u16

definition AOS19_PORT :: u16 where "AOS19_PORT = 26719"

definition PICO_SOCK_EV_RD :: u16 where "PICO_SOCK_EV_RD = 1"

text \<open>The loop of \<open>serial_recv_handler\<close>: the handler gets every byte that was read.\<close>

partial_function (option) recv_loop :: "'w sockets \<Rightarrow> (byte \<Rightarrow> 'w \<Rightarrow> 'w) \<Rightarrow> serial \<Rightarrow> 'w \<Rightarrow> (serial \<times> 'w) option" where
  "recv_loop S handler s w =
     (let (n, buf, peer, port, w) = socket_recvfrom S w;
          s = s\<lparr>s_peer := peer, s_port := port\<rparr>
      in do {
        w \<leftarrow> for_each (\<lambda>i w. do { c \<leftarrow> arr_get buf i; Some (handler c w) }) [0..<nat n] w;
        if n > 0 then recv_loop S handler s w else Some (s, w)
      })"

definition serial_recv_handler :: "'w sockets \<Rightarrow> (byte \<Rightarrow> 'w \<Rightarrow> 'w) \<Rightarrow> u16 \<Rightarrow> serial \<Rightarrow> 'w \<Rightarrow> (serial \<times> 'w) option" where
  "serial_recv_handler S handler ev s w = (if ev = PICO_SOCK_EV_RD then recv_loop S handler s w else Some (s, w))"

text \<open>The result tells whether there is a connection; \<open>gateway\<close> is the string \<open>CONFIG_SOS_GATEWAY\<close> of the configuration.\<close>

definition serial_init :: "'w sockets \<Rightarrow> string \<Rightarrow> serial \<Rightarrow> 'w \<Rightarrow> (bool \<times> serial \<times> 'w) option" where
  "serial_init S gateway s w =
     (if pico_socket s then Some (False, s, w)
      else let (ok, w) = socket_open S w; s = s\<lparr>pico_socket := ok\<rparr> in
        if \<not> ok then Some (False, s, w)
        else let port_be = short_be AOS19_PORT; (err, w) = socket_bind S port_be w in
          if err \<noteq> 0 then Some (False, s, w)
          else do {
            (_, ip) \<leftarrow> pico_string_to_ipv4 gateway;
            let s = (case ip of Some p \<Rightarrow> s\<lparr>s_peer := p\<rparr> | None \<Rightarrow> s);
            let s = s\<lparr>s_port := port_be\<rparr>;
            let (err, w) = socket_connect S (s_peer s) (s_port s) w;
            Some (\<not> err < 0, s, w)
          })"

partial_function (option) send_loop :: "'w sockets \<Rightarrow> byte list \<Rightarrow> int \<Rightarrow> serial \<Rightarrow> int \<Rightarrow> 'w \<Rightarrow> (int \<times> 'w) option" where
  "send_loop S data len s total_sent w =
     (if total_sent < len then
        (let (sent, w) = socket_sendto S (take (nat len) data) (s_peer s) (s_port s) w in
         if sent = - 1 then Some (- 1, w)
         else if sent = 0 then Some (total_sent, w)
         else do { t \<leftarrow> sadd 32 total_sent sent; send_loop S data len s t w })
      else Some (len, w))"

definition serial_send :: "'w sockets \<Rightarrow> byte list \<Rightarrow> int \<Rightarrow> serial \<Rightarrow> 'w \<Rightarrow> (int \<times> 'w) option" where
  "serial_send S data len s w = do {
     c_assert (pico_socket s);
     send_loop S data len s 0 w
   }"

section \<open>What is sent\<close>

text \<open>A socket that takes everything gets the data once, and \<open>serial_send\<close> reports their length.\<close>

lemma serial_send_all:
  assumes "pico_socket s" and "0 < len" and "len = int (length data)" and "len < 2 ^ 31" and "socket_sendto S data (s_peer s) (s_port s) w = (len, w')"
  shows "serial_send S data len s w = Some (len, w')"
  using assms by (simp add: serial_send_def send_loop.simps [of _ _ _ _ 0] send_loop.simps [of _ _ _ _ "int (length data)"] sadd_def)

text \<open>
  A socket whose state is what it has sent and that takes at most \<open>k\<close> bytes at a time. When it takes only a part of the data, the next round of the loop begins with the data again: the peer gets the
  first bytes twice and never gets the last.
\<close>

definition limited :: "nat \<Rightarrow> byte list sockets" where
  "limited k = \<lparr>socket_open = (\<lambda>w. (True, w)), socket_bind = (\<lambda>_ w. (0, w)), socket_connect = (\<lambda>_ _ w. (0, w)), socket_recvfrom = (\<lambda>w. (0, [], 0, 0, w)),
     socket_sendto = (\<lambda>data _ _ w. (int (length (take k data)), w @ take k data))\<rparr>"

lemma serial_send_repeats:
  assumes "pico_socket s" and "k < length data" and "length data \<le> 2 * k" and "length data < 2 ^ 30"
  shows "serial_send (limited k) data (int (length data)) s [] = Some (int (length data), take k data @ take k data)"
proof -
  have l: "length (take k data) = k" using assms(2) by simp
  have k: "0 < k" using assms(2,3) by simp
  have two: "send_loop (limited k) data (int (length data)) s (2 * int k) w = Some (int (length data), w)" for w
    using assms(3) by (subst send_loop.simps) simp
  have one: "send_loop (limited k) data (int (length data)) s (int k) w = Some (int (length data), w @ take k data)" for w
    using assms(2,4) k two by (subst send_loop.simps) (simp add: limited_def sadd_def)
  show ?thesis using assms(1,2,4) k one [of "take k data"] unfolding serial_send_def
    by (subst send_loop.simps) (simp add: limited_def sadd_def)
qed

end
