(* ===== verification/Spec2Isabelle.thy ===== *)
theory Spec2Isabelle
  imports Cspace_Slots Ut_Table_Proofs Frame_Alloc Dma Irq Morecore Clock Elf_Proofs Cpio_Proofs Elf_Load Bootstrap_Proofs Uart Process Pico_Tree_Set Zdr_Proofs Eth_Init Sync_Sem Serial
begin

text \<open>
  Verification of SOS, the Simple Operating System personality that runs on the seL4 microkernel: its memory management, its start, its loader, its drivers, and the data structures of the libraries
  it is linked with. Paths are relative to \<open>src/projects/aos/\<close> unless they begin with \<open>projects/\<close> or \<open>libnfs/\<close>, which are below \<open>src/\<close>.

  \<^bold>\<open>The program.\<close> The kernel gives the initial task, SOS, all untyped memory and an initial capability space. \<open>sos/src/bootstrap.c\<close> divides the memory: a few early structures, one
  large page for DMA, and the rest for the untyped table (\<open>ut.c\<close>), from which kernel objects are made. Capabilities live in capability spaces (\<open>libsel4cspace\<close>), which get their own memory through
  callbacks into \<open>bootstrap.c\<close>, that is, from the untyped table again. The frame table (\<open>frame_table.c\<close>) hands out 4K frames; it grows by taking an untyped, a capability slot and a mapping. The
  loader (\<open>elf.c\<close>), reading an archive (\<open>libcpio\<close>) of ELF files (\<open>libelf\<close>), copies programs into frames; \<open>main.c\<close> starts the first process, binds interrupts (\<open>irq.c\<close>) and the drivers
  of the timer (\<open>libclock\<close>), the serial port and the Ethernet interface (\<open>libethernet\<close>). Above the latter are picotcp, libnfs and the network console (\<open>libserial\<close>).

  \<^bold>\<open>Conventions\<close> (\<open>SOS_Prelude\<close>, \<open>C_Memory\<close>, \<open>Sel4_Calls\<close>, \<open>Errno\<close>). An operation takes the state it reads and returns the state it leaves. Undefined behaviour, a failed
  assertion and \<open>ZF_LOGF\<close>, which does not return, are \<open>None\<close>; an error code is part of the result. Unsigned integers are words where they can wrap around, and natural numbers where the code keeps
  them small or where a list is indexed; signed arithmetic that overflows is \<open>None\<close>. Memory is a partial map from addresses to bytes. Calls to the kernel, device registers, clocks and sockets are
  parameters with a state of their own, and the lemmas hold for all of their results unless a hypothesis says what is expected of them.

  \<^bold>\<open>The theories.\<close>
  \<^item> \<open>Bitfield\<close>, \<open>Cspace\<close>: \<open>libsel4cspace/include/cspace/bitfield.h\<close>, \<open>cspace.h\<close>, \<open>src/cspace.c\<close>. \<open>cspace_t\<close> is a record with the bit fields of both levels; \<open>cspace_alloc_slot\<close>,
    \<open>cspace_free_slot\<close>, \<open>cspace_create_one_level\<close>, \<open>cspace_create_two_level\<close>, \<open>cspace_destroy\<close> and the calls on slots are its operations. \<open>Cspace_Levels\<close> has the invariant \<open>lvl_ok\<close>
    and the abstract view, the set of taken slots; \<open>Cspace_Proofs\<close> and \<open>Cspace_Slots\<close> show for both kinds of space that an allocation takes a free slot and nothing else, that it returns, that
    freeing gives the slot back, and that a client never holds a slot twice (locale \<open>slot_allocator\<close>, interpreted for one and for two levels). \<open>Cspace_Callbacks\<close> (locale
    \<open>untyped_callbacks\<close>) is the contract with the callbacks.
  \<^item> \<open>Ut_Table\<close>, \<open>Ut_Table_Proofs\<close>: \<open>sos/src/ut.c\<close>. The free lists linked through the table represent disjoint lists of untypeds; allocation takes the head, freeing pushes it, adding a range adds
    each page once.
  \<^item> \<open>Sos_Env\<close>, \<open>Env_Proofs\<close>: \<open>sos/src/mapping.c\<close>, the callbacks of \<open>bootstrap.c\<close> and \<open>ut_alloc\<close> with splitting. The callbacks keep the contract; mapping a frame keeps the untyped table in order
    (locale \<open>slots_ok\<close>, for slots from the watermark and from a capability space).
  \<^item> \<open>Frame_Table\<close>, \<open>Frame_Table_Lists\<close>, \<open>Frame_Table_Proofs\<close>, \<open>Frame_Alloc\<close>: \<open>sos/src/frame_table.c\<close>. The doubly linked lists implement abstract lists (locale \<open>ref_lists\<close>); an allocation
    refines taking the head of the free list or making a fresh frame, no frame is handed out twice, a frame that is not allocated is refused, and the table grows or reports that there is no
    memory. \<open>Frame_Alloc\<close> puts the frame table, the capability space and the untyped table together: the locale \<open>page_source\<close>, interpreted for \<open>alloc_frame_at\<close>, says that every frame has a page of its
    own. The kernel there keeps a record of its calls (\<open>logged\<close>), and \<open>evolves\<close> of \<open>Env_Proofs\<close> says that the record only grows.
  \<^item> \<open>Bootstrap\<close>, \<open>Bootstrap_Proofs\<close>: \<open>sos/src/bootstrap.c\<close>. From 256 MiB of memory on it is divided without loss or overlap; with less, 4K untypeds can be recorded inside the DMA region, a defect. Slots that are in use but not recorded are handed out again, a defect.
  \<^item> \<open>Dma\<close>, \<open>Irq\<close>, \<open>Morecore\<close>, \<open>Clock\<close>, \<open>Stdio\<close>, \<open>Uart\<close>: the files of these names in \<open>sos/src\<close> and \<open>libclock\<close>. Regions given out are disjoint and aligned; a registered interrupt is
    recorded under its bit and every bit of a badge is handled once, in order; a timestamp read from two halves is consistent; console output reaches the device.
  \<^item> \<open>Elf_File\<close>, \<open>Elf_Proofs\<close>, \<open>Elf_Load\<close>: \<open>libelf\<close> and \<open>sos/src/elf.c\<close>. After the checks of \<open>elf_newFile\<close> the accessors stay inside the file, and a section or segment is handed out exactly when it is inside; loading a segment writes the bytes of the
    file and zeros. \<open>Cpio\<close>, \<open>Cpio_Proofs\<close>: \<open>libcpio\<close>; a file of a well-formed archive is found. \<open>Process\<close>: \<open>sos/src/main.c\<close>, with the stack of the first process.
  \<^item> \<open>Pico_Tree\<close> and the theories \<open>Pico_Tree_Shape\<close>, \<open>_Search\<close>, \<open>_Walk\<close>, \<open>_Insert\<close>, \<open>_Repair\<close>, \<open>_Delete\<close>, \<open>_Set\<close>: \<open>projects/picotcp/stack/pico_tree.c\<close>, on a heap of nodes.
    Every sequence of insertions, deletions and searches behaves as a set of keys in order and ends; insertions keep the tree balanced; a deletion can leave it unbalanced, a defect.
    \<open>Pico_Compare\<close> (locale \<open>key_order\<close>): the comparison functions that are orders, and the one that is not.
  \<^item> \<open>Pico_Checksum\<close>, \<open>Pico_Ipv4\<close>: the end of \<open>pico_frame.c\<close> and parts of \<open>pico_ipv4.c\<close>. A checksum that was filled in is accepted, a change of one word is detected; an address printed and read is the same.
  \<^item> \<open>Zdr\<close>, \<open>Zdr_Proofs\<close>: \<open>libnfs/lib/libnfs-zdr.c\<close>. A call message that was encoded is decoded to itself.
  \<^item> \<open>Eth_Driver\<close>, \<open>Ring_Queue\<close>, \<open>Eth_Rings\<close>, \<open>Eth_Both\<close>, \<open>Eth_Init\<close>: \<open>libethernet/src/uboot/designware.c\<close>, \<open>ethernet.c\<close> and parts of \<open>sos/src/network.c\<close>. Memory is kept twice, as the processor and as the
    controller see it, and cache maintenance copies. The rings are bounded queues under all interleavings (locale \<open>ring_queue\<close>, interpreted for both directions), and do not disturb each other
    when both run on one state (\<open>eth_run\<close>); the descriptor tables are lists beside the bytes of memory, which the disjointness of the four regions allows. \<open>Serial\<close>: \<open>libserial/src/serial.c\<close>.
  \<^item> \<open>Sync\<close>, \<open>Sync_Sem\<close>: \<open>projects/libsel4sync\<close>. Threads take steps between which others run; mutual exclusion holds in every reachable state, and a release wakes a waiting thread.

  This theory has what spans the driver, the DMA memory and the controller.

  \<^bold>\<open>Bounds and termination.\<close> No definition has fuel. A loop that can run forever is a partial function, with \<open>None\<close> for not returning; the lemmas show for slot allocation, trees, archives, segments and
  the serial port that there is a result. The loop of \<open>reset_wait\<close> returns success if the controller leaves its reset at some look
  before the time limit (\<open>leaves_reset\<close>) and failure if the limit comes first (\<open>stays_in_reset\<close>); with a clock that stops it would wait forever. Nothing is shown of \<open>mdio_wait\<close>.
  The 67868 bytes below are the four regions of the driver (1024, 1024, 32768 and 32768 bytes) with 71 bytes lost to alignment for each.

  \<^bold>\<open>Not modelled.\<close>
  \<^item> The seL4 kernel, which has a proof of its own, and the C library musl: what SOS relies on is in the parameters and definitions named above. The protocols of picotcp, its sockets and the requests of libnfs above their encoding.
  \<^item> The negotiation with the PHY (\<open>phy.c\<close>, \<open>realtek.c\<close>), which depends on the chip; the rest of \<open>designware_initialize\<close>; \<open>ethif_init\<close>; \<open>network_init\<close>, which only calls the stack.
  \<^item> Condition variables and counting semaphores, which nothing uses; the logging, lists and buffers of \<open>libutils\<close>.
  \<^item> The stubs of \<open>libsosapi\<close>, which consist of failing assertions, the applications, the Rust libraries, tests, backtraces and printing, headers without code, and the build tools.
\<close>

section \<open>The Ethernet driver on the DMA memory of SOS\<close>

text \<open>
  C8. From the DMA pool to the queues. With 67868 bytes left in a pool below 4 GiB, the driver gets its four regions from \<open>sos_dma_malloc\<close>, of the sizes it asked for, in the free part of the pool and
  no two overlapping. Whenever \<open>dw_eth_init\<close> then reports success, the two rings are from that state on two queues of 16 frames that do not disturb each other: sends, completions, arrivals,
  receptions and changes elsewhere come in any order on one state, and each ring answers its events as its queue does. If the controller leaves its reset at some look of the waiting loop, with the
  time below the limit at every look before, the PHY starts and a cable is plugged in, \<open>dw_eth_init\<close> does report success; if the limit is reached first it returns \<open>-ETIMEDOUT\<close>.
\<close>

theorem eth_driver_over_dma_pool:
  assumes "pool_ok d" and "unat (pnext d) + 67868 \<le> unat (pend d)" and "pool_mapped d (cpu s)" and "pool_mapped d (ram s)"
    and "\<And>e. Send e \<in> set es \<Longrightarrow> tx_good e" and "\<And>e. Arrive e \<in> set es \<Longrightarrow> rx_good e"
  shows "\<exists>s1 d1 w1. designware_memory K d s w = Some (0, s1, d1, w1) \<and> regions_ok d (priv s1)
     \<and> (\<forall>s2. dw_eth_init H freq a s1 = Some (0, s2) \<longrightarrow> (\<exists>r. eth_run H d1 es (s2, 0, 0) =
          Some (fifo_run CONFIG_TX_DESCR_NUM tx_frame (tx_events es) [], fifo_run CONFIG_RX_DESCR_NUM fst (rx_events es) [], r)))
     \<and> (leaves_reset H freq (hw s) \<and> phy_ready H \<and> freq div MS_IN_S \<noteq> 0 \<and> length a = 6 \<longrightarrow> (\<exists>s2. dw_eth_init H freq a s1 = Some (0, s2)))
     \<and> (stays_in_reset H freq (hw s) \<and> freq div MS_IN_S \<noteq> 0 \<longrightarrow> (\<exists>s2. dw_eth_init H freq a s1 = Some (- ETIMEDOUT, s2)))"
proof -
  obtain s1 d1 w1 where m: "designware_memory K d s w = Some (0, s1, d1, w1)" "rings_memory d1 s1" "regions_ok d (priv s1)" "hw s1 = hw s"
    using designware_memory_ok [OF assms(1-4), of K w] by blast
  have "\<exists>r. eth_run H d1 es (s2, 0, 0) = Some (fifo_run CONFIG_TX_DESCR_NUM tx_frame (tx_events es) [], fifo_run CONFIG_RX_DESCR_NUM fst (rx_events es) [], r)"
    if "dw_eth_init H freq a s1 = Some (0, s2)" for s2
    using dw_eth_init_queues [OF m(2) that] eth_run_queues [OF _ assms(5,6)] unfolding rings_empty_def by blast
  with m dw_eth_init_returns [OF m(2)] dw_eth_init_times_out [of freq H s1 a] show ?thesis by auto
qed

theorem eth_driver_over_dma_pool_witness:
  "in_reset eth_slow_hw (reset_look eth_slow_hw 0 0) \<and> in_reset eth_slow_hw (reset_look eth_slow_hw 0 1) \<and>
   (\<exists>s1 d1 w1 s2. designware_memory (\<lambda>_ w. (0, w)) eth_dma_example eth_slow_example () = Some (0, s1, d1, w1)
     \<and> dw_eth_init eth_slow_hw 24000000 [0, 1, 2, 3, 4, 5] s1 = Some (0, s2)
     \<and> (\<exists>r. eth_run eth_slow_hw d1 [Receive, Send (4096, [1, 2, 3], replicate 60 9), Arrive ([7, 8], 0), Arrive ([4], 0), Receive, Sent 0, Sent 0, Receive] (s2, 0, 0) =
          Some ([Accepted, Got ([1, 2, 3] @ replicate 57 9), Nothing], [Nothing, Accepted, Accepted, Got [7, 8], Got [4]], r)))"
proof -
  let ?es = "[Receive, Send (4096, [1, 2, 3], replicate 60 9), Arrive ([7, 8], 0), Arrive ([4], 0), Receive, Sent 0, Sent 0, Receive] :: nat eth_event list"
  have pool: "pool_ok eth_dma_example" "unat (pnext eth_dma_example) + 67868 \<le> unat (pend eth_dma_example)"
    "pool_mapped eth_dma_example (cpu eth_slow_example)" "pool_mapped eth_dma_example (ram eth_slow_example)"
    by (simp_all add: pool_ok_def pool_mapped_def eth_dma_example_def eth_slow_example_def)
  have good: "tx_good p" if "Send p \<in> set ?es" for p using that by auto
  have good': "rx_good p" if "Arrive p \<in> set ?es" for p using that by (auto simp: MAC_MAX_FRAME_SZ_def)
  have "leaves_reset eth_slow_hw 24000000 (hw eth_slow_example)" "phy_ready eth_slow_hw" "(24000000 :: u64) div MS_IN_S \<noteq> 0"
    using eth_slow_reset(1) by (simp_all add: phy_ready_def eth_slow_hw_def eth_slow_example_def MS_IN_S_def)
  with eth_driver_over_dma_pool [OF pool, of ?es "\<lambda>_ w. (0, w)" "()" eth_slow_hw 24000000 "[0, 1, 2, 3, 4, 5]", OF good good'] eth_slow_reset(2,3)
  show ?thesis by (fastforce simp: CONFIG_TX_DESCR_NUM_def CONFIG_RX_DESCR_NUM_def max_def simp del: eth_run.simps)
qed

end
